(* ===== verification/Prelude.thy ===== *)
theory Prelude
  imports Main "HOL-Library.Word" "HOL-Library.Char_ord"
begin

text \<open>
  Shared vocabulary of the development: the machine integer types of the C sources, the result
  type of code that can assert, panic or run into undefined behaviour, and the generic lemmas on
  lists, results and words that the component theories use.

  A C function that may fail is a function into \<open>panic + 'a\<close>: \<open>Inl\<close> records why execution
  stopped (a failing \<open>assert\<close>, a \<open>panic\<close> of the sources, or an access the C standard leaves
  undefined), \<open>Inr\<close> is a normal return.  Mutated state is part of the returned value.
\<close>

unbundle bit_operations_syntax

section \<open>Machine integers\<close>

type_synonym u8 = "8 word"
type_synonym u16 = "16 word"
type_synonym u32 = "32 word"
type_synonym u64 = "64 word"

section \<open>Failure as a value\<close>

datatype panic =
    Assert_fail string \<comment> \<open>a failing assert or Assert of the sources\<close>
  | Panic string       \<comment> \<open>an explicit panic of the sources\<close>
  | Undefined string   \<comment> \<open>behaviour the C standard leaves undefined\<close>

type_synonym 'a res = "panic + 'a"

definition bind_res :: "'a res \<Rightarrow> ('a \<Rightarrow> 'b res) \<Rightarrow> 'b res" where
  "bind_res m f = (case m of Inl e \<Rightarrow> Inl e | Inr x \<Rightarrow> f x)"

definition assert_res :: "string \<Rightarrow> bool \<Rightarrow> 'a res \<Rightarrow> 'a res" where
  "assert_res msg b m = (if b then m else Inl (Assert_fail msg))"

named_theorems res_simps \<open>unfolding of the result monad\<close>

lemma bind_res_Inl [simp]: "bind_res (Inl e) f = Inl e"
  by (simp add: bind_res_def)

lemma bind_res_Inr [simp]: "bind_res (Inr x) f = f x"
  by (simp add: bind_res_def)

lemma bind_res_eq_Inr [res_simps]: "bind_res m f = Inr y \<longleftrightarrow> (\<exists>x. m = Inr x \<and> f x = Inr y)"
  by (cases m) auto

lemma bind_res_eq_Inl [res_simps]:
  "bind_res m f = Inl e \<longleftrightarrow> m = Inl e \<or> (\<exists>x. m = Inr x \<and> f x = Inl e)"
  by (cases m) auto

lemma bind_res_assoc: "bind_res (bind_res m f) g = bind_res m (\<lambda>x. bind_res (f x) g)"
  by (cases m) auto

lemma bind_res_cong [fundef_cong]:
  "m = m' \<Longrightarrow> (\<And>x. m' = Inr x \<Longrightarrow> f x = f' x) \<Longrightarrow> bind_res m f = bind_res m' f'"
  by (cases m') auto

lemma assert_res_True [simp]: "assert_res msg True m = m"
  by (simp add: assert_res_def)

lemma assert_res_False [simp]: "assert_res msg False m = Inl (Assert_fail msg)"
  by (simp add: assert_res_def)

lemma assert_res_eq_Inr [res_simps]: "assert_res msg b m = Inr y \<longleftrightarrow> b \<and> m = Inr y"
  by (simp add: assert_res_def)

lemma assert_res_cong [fundef_cong]:
  "b = b' \<Longrightarrow> (b' \<Longrightarrow> m = m') \<Longrightarrow> assert_res msg b m = assert_res msg b' m'"
  by (simp add: assert_res_def)

section \<open>Words\<close>

lemma unat_lt_power: "unat (x :: 'a::len word) < 2 ^ LENGTH('a)"
  by simp

lemma unat_u32_less: "unat (x :: u32) < 2 ^ 32"
  using unat_lt_power[of x] by simp

lemma unat_u64_less: "unat (x :: u64) < 2 ^ 64"
  using unat_lt_power[of x] by simp

lemma word_eq_unatI: "unat x = unat y \<Longrightarrow> x = (y :: 'a::len word)"
  by (simp add: unsigned_word_eqI)

lemma unat_add_no_wrap:
  "unat x + unat y < 2 ^ LENGTH('a) \<Longrightarrow> unat (x + y) = unat x + unat (y :: 'a::len word)"
  by (simp add: unat_word_ariths)

lemma unat_sub_no_wrap: "y \<le> x \<Longrightarrow> unat (x - y) = unat x - unat (y :: 'a::len word)"
  by (simp add: unat_sub)

lemma unat_take_bit: "unat (take_bit n (x :: 'a::len word)) = unat x mod 2 ^ n"
  unfolding unsigned_take_bit_eq by (rule take_bit_eq_mod)

lemma unat_drop_bit: "unat (drop_bit n (x :: 'a::len word)) = unat x div 2 ^ n"
  unfolding unat_drop_bit_eq by (rule drop_bit_eq_div)

lemma unat_push_bit:
  "unat (push_bit n (x :: 'a::len word)) = unat x * 2 ^ n mod 2 ^ LENGTH('a)"
  unfolding unsigned_push_bit_eq by (simp add: push_bit_eq_mult take_bit_eq_mod)

lemma unat_two_power: "k < LENGTH('a) \<Longrightarrow> unat (2 ^ k :: 'a::len word) = 2 ^ k"
  using unat_push_bit[of k "1 :: 'a word"] by (simp add: push_bit_of_1)

lemma bit_imp_le_unat: "bit (x :: 'a::len word) n \<Longrightarrow> 2 ^ n \<le> unat x"
proof -
  assume "bit x n"
  then have "bit (unat x) n" by (simp add: bit_unsigned_iff bit_imp_le_length)
  then show ?thesis by (metis bit_iff_odd div_less even_zero not_le)
qed

lemma unat_push_or:
  assumes "unat y < 2 ^ k" and "k < LENGTH('a)"
  shows "unat (push_bit k x OR (y :: 'a::len word)) = unat x * 2 ^ k mod 2 ^ LENGTH('a) + unat y"
proof -
  have no: "\<not> bit y n" if "k \<le> n" for n
    using bit_imp_le_unat[of y n] assms(1) that power_increasing[OF that, of "2::nat"] by linarith
  have "push_bit k x OR y = push_bit k x + y"
    by (intro disjunctive_add [symmetric]) (use no in \<open>auto simp: bit_push_bit_iff not_le\<close>)
  moreover have "unat x * 2 ^ k mod 2 ^ LENGTH('a) + unat y < 2 ^ LENGTH('a)"
  proof -
    obtain j where j: "LENGTH('a) = j + k" using assms(2) less_imp_add_positive add.commute by metis
    have eq: "unat x * 2 ^ k mod 2 ^ LENGTH('a) = (unat x mod 2 ^ j) * 2 ^ k"
      unfolding j power_add by (rule mod_mult_mult2)
    have "Suc (unat x mod 2 ^ j) \<le> 2 ^ j" by (simp add: Suc_leI)
    then have "Suc (unat x mod 2 ^ j) * 2 ^ k \<le> 2 ^ j * 2 ^ k" by (rule mult_le_mono1)
    then show ?thesis using assms(1) unfolding eq unfolding j power_add mult_Suc by linarith
  qed
  ultimately show ?thesis
    by (simp add: unat_word_ariths unat_push_bit)
qed

lemma unat_of_nat_u32: "k < 2 ^ 32 \<Longrightarrow> unat (of_nat k :: u32) = k"
  by (simp add: unat_of_nat take_bit_eq_mod)

text \<open>Signed readings.\<close>

lemma sint_uint_msb:
  "sint (x :: 'a::len word) = uint x - 2 ^ LENGTH('a) * of_bool (bit x (LENGTH('a) - 1))"
  by (simp add: sint_uint signed_take_bit_eq_take_bit_minus take_bit_eq_mod bit_uint_iff)

lemma msb_sint: "bit (x :: 'a::len word) (LENGTH('a) - 1) \<longleftrightarrow> sint x < 0"
  using sint_uint_msb[of x] uint_lt2p[of x] uint_ge_0[of x] by (cases "bit x (LENGTH('a) - 1)") auto

text \<open>The magnitude of a signed word.\<close>

definition word_mag :: "'a::len word \<Rightarrow> 'a word" where
  "word_mag x = (if sint x < 0 then - x else x)"

lemma uint_word_mag: "uint (word_mag x) = \<bar>sint (x :: 'a::len word)\<bar>"
proof (cases "sint x < 0")
  case True
  have eq: "sint x = uint x - 2 ^ LENGTH('a)" using sint_uint_msb[of x] msb_sint[of x] True by simp
  have "uint (- x) = (- uint x) mod 2 ^ LENGTH('a)" by (simp add: uint_word_ariths)
  also have "\<dots> = (- uint x + 2 ^ LENGTH('a)) mod 2 ^ LENGTH('a)" by simp
  also have "\<dots> = 2 ^ LENGTH('a) - uint x"
    using eq True sint_greater_eq[of x] uint_lt2p[of x] uint_ge_0[of x]
    by (subst mod_pos_pos_trivial) (auto simp: less_le uint_0_iff)
  finally show ?thesis using eq True uint_lt2p[of x] by (simp add: word_mag_def abs_if)
next
  case False
  then show ?thesis using sint_uint_msb[of x] msb_sint[of x] by (simp add: word_mag_def)
qed

end
