(* ===== verification/Macro.thy ===== *)
theory Macro
  imports Prelude
begin

text \<open>
  The bit-field and alignment macros of \<open>nemu/include/macro.h\<close> (shared in substance with
  \<open>abstract-machine/klib/include/klib-macros.h\<close>).
\<close>

section \<open>Definitions\<close>

definition BITMASK :: "nat \<Rightarrow> u64" where
  "BITMASK bits = push_bit bits 1 - 1"

definition BITS :: "u64 \<Rightarrow> nat \<Rightarrow> nat \<Rightarrow> u64" where
  "BITS x hi lo = drop_bit lo x AND BITMASK (hi - lo + 1)"

text \<open>\<open>SEXT\<close> stores into an \<open>int64_t\<close> bit field of \<open>len\<close> bits and reads it back.\<close>

definition SEXT :: "u64 \<Rightarrow> nat \<Rightarrow> u64" where
  "SEXT x len = signed_take_bit (len - 1) x"

definition ROUNDUP :: "'a::len word \<Rightarrow> 'a word \<Rightarrow> 'a word" where
  "ROUNDUP a sz = (a + sz - 1) AND NOT (sz - 1)"

definition ROUNDDOWN :: "'a::len word \<Rightarrow> 'a word \<Rightarrow> 'a word" where
  "ROUNDDOWN a sz = a AND NOT (sz - 1)"

section \<open>What the macros compute\<close>

lemma BITMASK_eq_mask: "BITMASK bits = mask bits"
  by (simp add: BITMASK_def mask_eq_decr_exp push_bit_of_1)

lemma BITS_eq_take_drop: "BITS x hi lo = take_bit (hi - lo + 1) (drop_bit lo x)"
  by (simp add: BITS_def BITMASK_eq_mask take_bit_eq_mask)

lemma bit_BITS_iff [bit_simps]: "bit (BITS x hi lo) i \<longleftrightarrow> i \<le> hi - lo \<and> bit x (lo + i)"
  by (auto simp: BITS_eq_take_drop bit_simps)

lemma unat_BITS: "unat (BITS x hi lo) = unat x div 2 ^ lo mod 2 ^ (hi - lo + 1)"
  by (simp only: BITS_eq_take_drop unat_take_bit unat_drop_bit)

lemma unat_BITS_less: "unat (BITS x hi lo) < 2 ^ (hi - lo + 1)"
  by (simp add: unat_BITS)

lemma SEXT_bit_iff [bit_simps]:
  "0 < len \<Longrightarrow> len \<le> 64 \<Longrightarrow> bit (SEXT x len) i \<longleftrightarrow> i < 64 \<and> bit x (min i (len - 1))"
  by (auto simp: SEXT_def bit_simps min.commute)

lemma ROUNDDOWN_pow2:
  "ROUNDDOWN (a :: 'a::len word) (2 ^ k) = push_bit k (drop_bit k a)"
  by (rule bit_word_eqI) (auto simp: ROUNDDOWN_def bit_simps mask_eq_decr_exp [symmetric])

lemma ROUNDUP_eq_ROUNDDOWN: "ROUNDUP a sz = ROUNDDOWN (a + sz - 1) sz"
  by (simp add: ROUNDUP_def ROUNDDOWN_def)

lemma unat_ROUNDDOWN:
  assumes "k < LENGTH('a)"
  shows "unat (ROUNDDOWN (a :: 'a::len word) (2 ^ k)) = unat a - unat a mod 2 ^ k"
proof -
  have "unat (ROUNDDOWN a (2 ^ k)) = unat a div 2 ^ k * 2 ^ k mod 2 ^ LENGTH('a)"
    by (simp only: ROUNDDOWN_pow2 unat_push_bit unat_drop_bit)
  moreover have "unat a div 2 ^ k * 2 ^ k \<le> unat a" by simp
  then have "unat a div 2 ^ k * 2 ^ k < 2 ^ LENGTH('a)"
    using unsigned_less[of a] order_le_less_trans by blast
  ultimately show ?thesis by (simp add: minus_mod_eq_div_mult)
qed

end
