(* ===== verification/Pattern.thy ===== *)
theory Pattern
  imports Macro
begin

text \<open>
  The instruction pattern matcher of \<open>nemu/include/cpu/decode.h\<close>: \<open>pattern_decode\<close> turns a
  pattern string such as ''??????? 01101 11'' into a key, a mask and a shift, and \<open>INSTPAT\<close>
  compares an instruction word with them.  The main result is that this arithmetic test is the
  bitwise reading of the pattern string.
\<close>

section \<open>Definitions\<close>

type_synonym pat_state = "u64 \<times> u64 \<times> u64" \<comment> \<open>key, mask, shift\<close>

definition pattern_step :: "char \<Rightarrow> pat_state \<Rightarrow> pat_state res" where
  "pattern_step c st = (case st of (key, msk, shift) \<Rightarrow>
     if c = CHR '' '' then Inr st
     else assert_res ''invalid character in pattern string''
       (c = CHR ''0'' \<or> c = CHR ''1'' \<or> c = CHR ''?'')
       (Inr (push_bit 1 key OR (if c = CHR ''1'' then 1 else 0),
             push_bit 1 msk OR (if c = CHR ''?'' then 0 else 1),
             (if c = CHR ''?'' then shift + 1 else 0))))"

fun pattern_loop :: "string \<Rightarrow> pat_state \<Rightarrow> pat_state res" where
  "pattern_loop [] st = Inr st"
| "pattern_loop (c # cs) st = bind_res (pattern_step c st) (pattern_loop cs)"

text \<open>The unrolled loop visits at most 64 characters and leaves early at the end of the string.\<close>

definition pattern_decode :: "string \<Rightarrow> pat_state res" where
  "pattern_decode str =
     bind_res (pattern_loop (take 64 str) (0, 0, 0)) (\<lambda>(key, msk, shift).
       if 64 \<le> length str then Inl (Panic ''pattern too long'')
       else Inr (drop_bit (unat shift) key, drop_bit (unat shift) msk, shift))"

definition hex_digit_of :: "char \<Rightarrow> u64" where
  "hex_digit_of c = (if CHR ''0'' \<le> c \<and> c \<le> CHR ''9'' then of_nat (of_char c - of_char (CHR ''0''))
     else of_nat (of_char c - of_char (CHR ''a'') + 10))"

definition pattern_step_hex :: "char \<Rightarrow> pat_state \<Rightarrow> pat_state res" where
  "pattern_step_hex c st = (case st of (key, msk, shift) \<Rightarrow>
     if c = CHR '' '' then Inr st
     else assert_res ''invalid character in pattern string''
       ((CHR ''0'' \<le> c \<and> c \<le> CHR ''9'') \<or> (CHR ''a'' \<le> c \<and> c \<le> CHR ''f'') \<or> c = CHR ''?'')
       (Inr (push_bit 4 key OR (if c = CHR ''?'' then 0 else hex_digit_of c),
             push_bit 4 msk OR (if c = CHR ''?'' then 0 else 0xf),
             (if c = CHR ''?'' then shift + 4 else 0))))"

fun pattern_loop_hex :: "string \<Rightarrow> pat_state \<Rightarrow> pat_state res" where
  "pattern_loop_hex [] st = Inr st"
| "pattern_loop_hex (c # cs) st = bind_res (pattern_step_hex c st) (pattern_loop_hex cs)"

definition pattern_decode_hex :: "string \<Rightarrow> pat_state res" where
  "pattern_decode_hex str =
     bind_res (pattern_loop_hex (take 16 str) (0, 0, 0)) (\<lambda>(key, msk, shift).
       if 16 \<le> length str then Inl (Panic ''pattern too long'')
       else Inr (drop_bit (unat shift) key, drop_bit (unat shift) msk, shift))"

definition instpat_test :: "pat_state \<Rightarrow> u64 \<Rightarrow> bool" where
  "instpat_test st inst = (case st of (key, msk, shift) \<Rightarrow>
     drop_bit (unat shift) inst AND msk = key)"

text \<open>The test of \<open>INSTPAT\<close> on one pattern.\<close>

definition INSTPAT :: "string \<Rightarrow> u64 \<Rightarrow> bool res" where
  "INSTPAT pat inst = bind_res (pattern_decode pat) (\<lambda>st. Inr (instpat_test st inst))"

section \<open>The bitwise reading of a pattern\<close>

definition pattern_bits :: "string \<Rightarrow> string" where
  "pattern_bits pat = rev (filter (\<lambda>c. c \<noteq> CHR '' '') pat)"

definition pattern_valid :: "string \<Rightarrow> bool" where
  "pattern_valid pat \<longleftrightarrow> length pat < 64 \<and> set pat \<subseteq> {CHR '' '', CHR ''0'', CHR ''1'', CHR ''?''}"

definition pattern_spec :: "string \<Rightarrow> u64 \<Rightarrow> bool" where
  "pattern_spec pat x \<longleftrightarrow> (let q = pattern_bits pat in
     \<forall>i<length q. q ! i = CHR ''?'' \<or> (bit x i \<longleftrightarrow> q ! i = CHR ''1''))"

section \<open>Correctness of the matcher\<close>

text \<open>What the three loop variables hold after the digits \<open>q\<close> (last one first).\<close>

definition pat_inv :: "string \<Rightarrow> pat_state \<Rightarrow> bool" where
  "pat_inv q st \<longleftrightarrow> (case st of (key, msk, shift) \<Rightarrow>
     (\<forall>i<64. bit key i \<longleftrightarrow> i < length q \<and> q ! i = CHR ''1'') \<and>
     (\<forall>i<64. bit msk i \<longleftrightarrow> i < length q \<and> q ! i \<noteq> CHR ''?'') \<and>
     unat shift = length (takeWhile (\<lambda>c. c = CHR ''?'') q))"

lemma bit_mult_2_iff: "bit (w * 2 :: u64) i \<longleftrightarrow> i \<noteq> 0 \<and> i < 64 \<and> bit w (i - 1)"
  by (auto simp add: bit_double_iff mult.commute [of w 2])

lemma pat_inv_Nil: "pat_inv [] (0, 0, 0)"
  by (simp add: pat_inv_def)

lemma pattern_step_inv:
  assumes inv: "pat_inv q st" and len: "length q < 63"
    and c: "c \<in> {CHR ''0'', CHR ''1'', CHR ''?''}"
  shows "\<exists>st'. pattern_step c st = Inr st' \<and> pat_inv (c # q) st'"
proof -
  obtain key msk shift where st: "st = (key, msk, shift)" by (cases st)
  have sh: "unat shift = length (takeWhile (\<lambda>c. c = CHR ''?'') q)"
    using inv by (simp add: pat_inv_def st)
  then have "unat shift < 63"
    using length_takeWhile_le[of "\<lambda>c. c = CHR ''?''" q] len by linarith
  then have sh1: "unat (shift + 1) = Suc (unat shift)"
    by (simp add: unat_word_ariths)
  have "pat_inv (c # q) (push_bit 1 key OR (if c = CHR ''1'' then 1 else 0),
         push_bit 1 msk OR (if c = CHR ''?'' then 0 else 1),
         (if c = CHR ''?'' then shift + 1 else 0))"
    using inv sh sh1
    by (auto simp: pat_inv_def st bit_mult_2_iff bit_or_iff bit_1_iff nth_Cons')
  then show ?thesis using c by (auto simp: pattern_step_def st)
qed

lemma pattern_loop_inv:
  assumes "pat_inv q st" and "length q + length cs < 64"
    and "set cs \<subseteq> {CHR '' '', CHR ''0'', CHR ''1'', CHR ''?''}"
  shows "\<exists>st'. pattern_loop cs st = Inr st' \<and> pat_inv (pattern_bits cs @ q) st'"
  using assms
proof (induction cs arbitrary: q st)
  case Nil
  then show ?case by (simp add: pattern_bits_def)
next
  case (Cons c cs)
  show ?case
  proof (cases "c = CHR '' ''")
    case True
    with Cons.IH[of q st] Cons.prems show ?thesis
      by (auto simp: pattern_step_def pattern_bits_def split: prod.splits)
  next
    case False
    with Cons.prems have "c \<in> {CHR ''0'', CHR ''1'', CHR ''?''}" and "length q < 63" by auto
    with Cons.prems obtain st' where "pattern_step c st = Inr st'" "pat_inv (c # q) st'"
      using pattern_step_inv by blast
    with Cons.IH[of "c # q" st'] Cons.prems False show ?thesis
      by (auto simp: pattern_bits_def)
  qed
qed

lemma takeWhile_nth_hit: "i < length (takeWhile P xs) \<Longrightarrow> P (xs ! i)"
  by (metis nth_mem set_takeWhileD takeWhile_nth)

lemma instpat_test_inv:
  assumes inv: "pat_inv q (key, msk, shift)"
  shows "instpat_test (drop_bit (unat shift) key, drop_bit (unat shift) msk, shift) x \<longleftrightarrow>
    (\<forall>i<64. i < length q \<longrightarrow> q ! i = CHR ''?'' \<or> (bit x i \<longleftrightarrow> q ! i = CHR ''1''))"
proof -
  let ?n = "unat shift"
  have key: "bit key i \<longleftrightarrow> i < length q \<and> q ! i = CHR ''1''"
    and msk: "bit msk i \<longleftrightarrow> i < length q \<and> q ! i \<noteq> CHR ''?''" if "i < 64" for i
    using inv that by (simp_all add: pat_inv_def)
  have q: "q ! i = CHR ''?''" if "i < ?n" for i
    using inv that takeWhile_nth_hit[of i "\<lambda>c. c = CHR ''?''" q] by (simp add: pat_inv_def)
  have "drop_bit ?n x AND drop_bit ?n msk = drop_bit ?n key \<longleftrightarrow>
      (\<forall>i<64. bit x i \<and> bit msk i \<longleftrightarrow> bit key i)" (is "?l = ?r \<longleftrightarrow> ?all")
  proof
    assume eq: "?l = ?r"
    have "bit x i \<and> bit msk i \<longleftrightarrow> bit key i" if "i < 64" for i
    proof (cases "i < ?n")
      case True then show ?thesis using q[OF True] key[OF that] msk[OF that] by simp
    next
      case False
      have "bit ?l (i - ?n) \<longleftrightarrow> bit ?r (i - ?n)" by (simp only: eq)
      then show ?thesis using False by (simp add: bit_and_iff bit_drop_bit_eq)
    qed
    then show ?all by blast
  next
    assume all: ?all
    show "?l = ?r"
    proof (rule bit_word_eqI)
      fix i
      show "bit ?l i \<longleftrightarrow> bit ?r i"
        using all bit_imp_le_length[of x "?n + i"] bit_imp_le_length[of key "?n + i"]
        by (auto simp: bit_and_iff bit_drop_bit_eq)
    qed
  qed
  also have "\<dots> \<longleftrightarrow> (\<forall>i<64. i < length q \<longrightarrow> q ! i = CHR ''?'' \<or> (bit x i \<longleftrightarrow> q ! i = CHR ''1''))"
    using key msk by auto
  finally show ?thesis by (simp add: instpat_test_def)
qed

text \<open>Every valid pattern is decoded without a failure, to a test that means the pattern.\<close>

lemma pattern_decode_correct:
  assumes "pattern_valid pat"
  shows "\<exists>st. pattern_decode pat = Inr st \<and> (\<forall>x. instpat_test st x \<longleftrightarrow> pattern_spec pat x)"
proof -
  from assms have len: "length pat < 64" by (simp add: pattern_valid_def)
  obtain key msk shift where st: "pattern_loop (take 64 pat) (0, 0, 0) = Inr (key, msk, shift)"
      and inv: "pat_inv (pattern_bits pat) (key, msk, shift)"
    using pattern_loop_inv[OF pat_inv_Nil, of pat] assms len by (auto simp: pattern_valid_def)
  have "length (pattern_bits pat) < 64"
    using len length_filter_le[of "\<lambda>c. c \<noteq> CHR '' ''" pat]
    unfolding pattern_bits_def length_rev by linarith
  then have "instpat_test (drop_bit (unat shift) key, drop_bit (unat shift) msk, shift) x \<longleftrightarrow>
      pattern_spec pat x" for x
    unfolding instpat_test_inv[OF inv] pattern_spec_def Let_def by (meson less_trans)
  then show ?thesis
    using st len by (simp add: pattern_decode_def)
qed

lemma INSTPAT_correct:
  "pattern_valid pat \<Longrightarrow> INSTPAT pat x = Inr (pattern_spec pat x)"
  using pattern_decode_correct[of pat] by (auto simp: INSTPAT_def)

lemma pattern_too_long:
  assumes "64 \<le> length pat"
  shows "\<exists>e. INSTPAT pat x = Inl e"
  using assms by (cases "pattern_loop (take 64 pat) (0, 0, 0)")
    (auto simp: INSTPAT_def pattern_decode_def split: prod.splits)

end
