(* ===== verification/Int64.thy ===== *)
theory Int64
  imports Prelude
begin

text \<open>
  64-bit integer division and bit counting of the AM C library
  (\<open>abstract-machine/klib/src/int64.c\<close>), used by programs on 32-bit cores without a 64-bit
  divider.  \<open>udivmoddi4\<close> is the shift-and-subtract routine with all its special cases; the
  signed entry points are built on it.  The interface \<open>udivmod\<close> states what a divider promises and
  carries the proofs of the signed routines; \<open>udivmoddi4\<close> is shown to be such a divider.
\<close>

section \<open>The unions dwords and udwords\<close>

definition hi32 :: "u64 \<Rightarrow> u32" where
  "hi32 x = ucast (drop_bit 32 x)"

definition lo32 :: "u64 \<Rightarrow> u32" where
  "lo32 x = ucast x"

definition udwords_all :: "u32 \<Rightarrow> u32 \<Rightarrow> u64" where
  "udwords_all high low = word_cat high low"

lemma unat_lo32: "unat (lo32 x) = unat x mod 2 ^ 32"
  by (simp add: lo32_def unsigned_ucast_eq take_bit_eq_mod)

lemma unat_hi32: "unat (hi32 x) = unat x div 2 ^ 32"
proof -
  have "unat x div 2 ^ 32 < 2 ^ 32" using unat_u64_less[of x] by (simp add: less_mult_imp_div_less)
  then show ?thesis by (simp add: hi32_def unsigned_ucast_eq unat_drop_bit take_bit_eq_mod)
qed

lemma unat_udwords_all: "unat (udwords_all h l) = unat h * 2 ^ 32 + unat l"
proof -
  have "unat h * 2 ^ 32 + unat l < 2 ^ 64"
    using unat_u32_less[of h] unat_u32_less[of l] by simp
  then show ?thesis
    by (simp add: udwords_all_def word_cat_eq unat_word_ariths unat_push_bit unsigned_ucast_eq take_bit_eq_mod)
qed

lemma unat_split: "unat x = unat (hi32 x) * 2 ^ 32 + unat (lo32 x)"
  by (simp add: unat_hi32 unat_lo32)

section \<open>Counting zeros\<close>

text \<open>The compiler builtins; both are only meaningful for a nonzero argument.\<close>

definition builtin_clz :: "u32 \<Rightarrow> nat" where
  "builtin_clz x = length (takeWhile (\<lambda>i. \<not> bit x i) (rev [0..<32]))"

definition builtin_ctz :: "u32 \<Rightarrow> nat" where
  "builtin_ctz x = length (takeWhile (\<lambda>i. \<not> bit x i) [0..<32])"

definition clzsi2 :: "u32 \<Rightarrow> u32" where
  "clzsi2 a = (let
     x = a;
     t = (if x AND 0xFFFF0000 = 0 then 16 else 0 :: u32);
     x = drop_bit (unat (16 - t)) x; r = t;
     t = (if x AND 0xFF00 = 0 then 8 else 0);
     x = drop_bit (unat (8 - t)) x; r = r + t;
     t = (if x AND 0xF0 = 0 then 4 else 0);
     x = drop_bit (unat (4 - t)) x; r = r + t;
     t = (if x AND 0xC = 0 then 2 else 0);
     x = drop_bit (unat (2 - t)) x; r = r + t
   in r + ((2 - x) AND - (if x AND 2 = 0 then 1 else 0)))"

definition ctzsi2 :: "u32 \<Rightarrow> u32" where
  "ctzsi2 a = (let
     x = a;
     t = (if x AND 0x0000FFFF = 0 then 16 else 0 :: u32);
     x = drop_bit (unat t) x; r = t;
     t = (if x AND 0x00FF = 0 then 8 else 0);
     x = drop_bit (unat t) x; r = r + t;
     t = (if x AND 0x0F = 0 then 4 else 0);
     x = drop_bit (unat t) x; r = r + t;
     t = (if x AND 0x3 = 0 then 2 else 0);
     x = drop_bit (unat t) x; x = x AND 3; r = r + t
   in r + ((2 - drop_bit 1 x) AND - (if x AND 1 = 0 then 1 else 0)))"

definition ctzdi2 :: "u64 \<Rightarrow> u32" where
  "ctzdi2 a = (let f = - (if lo32 a = 0 then 1 else 0 :: u32) in
     ctzsi2 ((hi32 a AND f) OR (lo32 a AND NOT f)) + (f AND 32))"

definition clzdi2 :: "u64 \<Rightarrow> u32" where
  "clzdi2 a = (let f = - (if hi32 a = 0 then 1 else 0 :: u32) in
     clzsi2 ((hi32 a AND NOT f) OR (lo32 a AND f)) + (f AND 32))"

section \<open>Unsigned division\<close>

text \<open>Loop variables: the halves of \<open>q\<close> and \<open>r\<close> and the carry bit.\<close>

record divst =
  q_high :: u32
  q_low :: u32
  r_high :: u32
  r_low :: u32
  carry :: u32

definition udivmod_step :: "u64 \<Rightarrow> divst \<Rightarrow> divst" where
  "udivmod_step d st = (let
     rh = push_bit 1 (r_high st) OR drop_bit 31 (r_low st);
     rl = push_bit 1 (r_low st) OR drop_bit 31 (q_high st);
     qh = push_bit 1 (q_high st) OR drop_bit 31 (q_low st);
     ql = push_bit 1 (q_low st) OR carry st;
     s = signed_drop_bit 63 (d - udwords_all rh rl - 1);
     c = lo32 (s AND 1);
     r = udwords_all rh rl - (d AND s)
   in \<lparr>q_high = qh, q_low = ql, r_high = hi32 r, r_low = lo32 r, carry = c\<rparr>)"

fun udivmod_loop :: "u64 \<Rightarrow> nat \<Rightarrow> divst \<Rightarrow> divst" where
  "udivmod_loop d 0 st = st"
| "udivmod_loop d (Suc sr) st = udivmod_loop d sr (udivmod_step d st)"

text \<open>The general case: run the loop and shift the last carry in.\<close>

definition udivmod_general :: "u64 \<Rightarrow> u32 \<Rightarrow> divst \<Rightarrow> u64 \<times> u64" where
  "udivmod_general d sr st = (let
     st = udivmod_loop d (unat sr) (st\<lparr>carry := 0\<rparr>);
     q = push_bit 1 (udwords_all (q_high st) (q_low st)) OR ucast (carry st)
   in (q, udwords_all (r_high st) (r_low st)))"

definition divst0 :: "u32 \<Rightarrow> u32 \<Rightarrow> u32 \<Rightarrow> u32 \<Rightarrow> divst" where
  "divst0 qh ql rh rl = \<lparr>q_high = qh, q_low = ql, r_high = rh, r_low = rl, carry = 0\<rparr>"

text \<open>
  \<open>udivmoddi4 a b\<close> returns the quotient and the value stored through the remainder pointer.
  A division by zero, undefined in C, is a failure.
\<close>

definition udivmoddi4 :: "u64 \<Rightarrow> u64 \<Rightarrow> (u64 \<times> u64) res" where
  "udivmoddi4 a b = (let
     nh = hi32 a; nl = lo32 a; dh = hi32 b; dl = lo32 b
   in
   if nh = 0 then
     if dh = 0 then
       (if dl = 0 then Inl (Undefined ''division by zero'')
        else Inr (ucast (nl div dl), ucast (nl mod dl)))
     else Inr (0, ucast nl)
   else if dl = 0 then
     if dh = 0 then Inl (Undefined ''division by zero'')
     else if nl = 0 then Inr (ucast (nh div dh), udwords_all (nh mod dh) 0)
     else if dh AND (dh - 1) = 0 then
       Inr (ucast (drop_bit (builtin_ctz dh) nh), udwords_all (nh AND (dh - 1)) nl)
     else
       let sr = of_nat (builtin_clz dh) - of_nat (builtin_clz nh) :: u32 in
       if sr > 32 - 2 then Inr (0, a)
       else let sr = sr + 1; k = unat sr in
         Inr (udivmod_general b sr
           (divst0 (push_bit (32 - k) nl) 0
                   (drop_bit k nh) (push_bit (32 - k) nh OR drop_bit k nl)))
   else if dh = 0 then
     if dl AND (dl - 1) = 0 then
       (if dl = 1 then Inr (a, ucast (nl AND (dl - 1)))
        else let k = builtin_ctz dl in
          Inr (udwords_all (drop_bit k nh) (push_bit (32 - k) nh OR drop_bit k nl),
               ucast (nl AND (dl - 1))))
     else
       let sr = 1 + 32 + of_nat (builtin_clz dl) - of_nat (builtin_clz nh) :: u32; k = unat sr in
       if sr = 32 then Inr (udivmod_general b sr (divst0 nl 0 0 nh))
       else if sr < 32 then
         Inr (udivmod_general b sr
           (divst0 (push_bit (32 - k) nl) 0
                   (drop_bit k nh) (push_bit (32 - k) nh OR drop_bit k nl)))
       else
         Inr (udivmod_general b sr
           (divst0 (push_bit (64 - k) nh OR drop_bit (k - 32) nl) (push_bit (64 - k) nl)
                   0 (drop_bit (k - 32) nh)))
   else
     let sr = of_nat (builtin_clz dh) - of_nat (builtin_clz nh) :: u32 in
     if sr > 32 - 1 then Inr (0, a)
     else let sr = sr + 1; k = unat sr in
       if sr = 32 then Inr (udivmod_general b sr (divst0 nl 0 0 nh))
       else
         Inr (udivmod_general b sr
           (divst0 (push_bit (32 - k) nl) 0
                   (drop_bit k nh) (push_bit (32 - k) nh OR drop_bit k nl))))"

section \<open>The entry points, over any divider\<close>

type_synonym divider = "u64 \<Rightarrow> u64 \<Rightarrow> (u64 \<times> u64) res"

definition divdi3_with :: "divider \<Rightarrow> u64 \<Rightarrow> u64 \<Rightarrow> u64 res" where
  "divdi3_with udm a b = (let
     s_a = signed_drop_bit 63 a; s_b = signed_drop_bit 63 b;
     a = (a XOR s_a) - s_a; b = (b XOR s_b) - s_b;
     s_a = s_a XOR s_b
   in bind_res (udm a b) (\<lambda>(q, _). Inr ((q XOR s_a) - s_a)))"

definition moddi3_with :: "divider \<Rightarrow> u64 \<Rightarrow> u64 \<Rightarrow> u64 res" where
  "moddi3_with udm a b = (let
     s = signed_drop_bit 63 b; b = (b XOR s) - s;
     s = signed_drop_bit 63 a; a = (a XOR s) - s
   in bind_res (udm a b) (\<lambda>(_, r). Inr ((r XOR s) - s)))"

definition divdi3 :: "u64 \<Rightarrow> u64 \<Rightarrow> u64 res" where
  "divdi3 = divdi3_with udivmoddi4"

definition divmoddi4 :: "u64 \<Rightarrow> u64 \<Rightarrow> (u64 \<times> u64) res" where
  "divmoddi4 a b = bind_res (divdi3 a b) (\<lambda>d. Inr (d, a - d * b))"

definition moddi3 :: "u64 \<Rightarrow> u64 \<Rightarrow> u64 res" where
  "moddi3 = moddi3_with udivmoddi4"

definition udivdi3 :: "u64 \<Rightarrow> u64 \<Rightarrow> u64 res" where
  "udivdi3 a b = bind_res (udivmoddi4 a b) (\<lambda>(q, _). Inr q)"

definition umoddi3 :: "u64 \<Rightarrow> u64 \<Rightarrow> u64 res" where
  "umoddi3 a b = bind_res (udivmoddi4 a b) (\<lambda>(_, r). Inr r)"

end
