(* ===== verification/Int64_Proofs.thy ===== *)
theory Int64_Proofs
  imports Int64 "HOL-Library.Signed_Division"
begin

text \<open>
  Correctness of the 64-bit arithmetic of \<open>klib/src/int64.c\<close>: the bit counters count, the
  division routine divides (every special case included), and the signed entry points truncate
  towards zero as C requires.
\<close>

section \<open>Counting zeros\<close>

lemma takeWhile_length_less: "x \<in> set xs \<Longrightarrow> \<not> P x \<Longrightarrow> length (takeWhile P xs) < length xs"
  by (induction xs) auto

lemma nth_takeWhile_stop: "length (takeWhile P xs) < length xs \<Longrightarrow> \<not> P (xs ! length (takeWhile P xs))"
  by (rule nth_length_takeWhile)

lemma nth_takeWhile_run: "i < length (takeWhile P xs) \<Longrightarrow> P (xs ! i)"
  by (metis nth_mem set_takeWhileD takeWhile_nth)

lemma u32_nonzero_bit: "(x :: u32) \<noteq> 0 \<Longrightarrow> \<exists>i<32. bit x i"
  using bit_word_eqI[of x 0] by auto

lemma builtin_clz_props:
  assumes "x \<noteq> 0"
  shows "builtin_clz x < 32" "bit x (31 - builtin_clz x)"
    "31 - builtin_clz x < i \<Longrightarrow> \<not> bit x i"
proof -
  let ?xs = "rev [0..<32]" and ?P = "\<lambda>i. \<not> bit x i"
  obtain j where j: "j < 32" "bit x j" using u32_nonzero_bit[OF assms] by blast
  have lt: "length (takeWhile ?P ?xs) < length ?xs"
    by (rule takeWhile_length_less[of j]) (use j in auto)
  then show lt32: "builtin_clz x < 32" by (simp add: builtin_clz_def)
  have nth: "?xs ! k = 31 - k" if "k < 32" for k using that by (simp add: rev_nth)
  show "bit x (31 - builtin_clz x)"
    using nth_takeWhile_stop[OF lt] nth[OF lt32] by (simp add: builtin_clz_def)
  assume i: "31 - builtin_clz x < i"
  show "\<not> bit x i"
  proof (cases "i < 32")
    case True
    then have "31 - i < length (takeWhile ?P ?xs)"
      using i lt32 by (simp add: builtin_clz_def)
    then have "?P (?xs ! (31 - i))" by (rule nth_takeWhile_run)
    then show ?thesis using nth[of "31 - i"] True by simp
  next
    case False then show ?thesis using bit_imp_le_length[of x i] by auto
  qed
qed

lemma unat_less_if_high_bits_zero:
  assumes "\<And>i. n \<le> i \<Longrightarrow> \<not> bit (x :: 'a::len word) i"
  shows "unat x < 2 ^ n"
proof -
  have "take_bit n x = x"
    by (rule bit_word_eqI) (use assms in \<open>auto simp: bit_take_bit_iff not_less [symmetric]\<close>)
  then have "unat x = unat x mod 2 ^ n" by (metis unat_take_bit)
  then show ?thesis by (metis mod_less_divisor zero_less_numeral zero_less_power)
qed

text \<open>The position of the leading one.\<close>

lemma builtin_clz_bounds:
  assumes "x \<noteq> 0"
  shows "2 ^ (31 - builtin_clz x) \<le> unat x" "unat x < 2 ^ (32 - builtin_clz x)"
proof -
  show "2 ^ (31 - builtin_clz x) \<le> unat x"
    using builtin_clz_props(2)[OF assms] by (rule bit_imp_le_unat)
  show "unat x < 2 ^ (32 - builtin_clz x)"
    by (rule unat_less_if_high_bits_zero)
       (use builtin_clz_props[OF assms] in \<open>simp add: Suc_diff_le Suc_le_eq\<close>)
qed

lemma builtin_ctz_props:
  assumes "x \<noteq> 0"
  shows "builtin_ctz x < 32" "bit x (builtin_ctz x)" "i < builtin_ctz x \<Longrightarrow> \<not> bit x i"
proof -
  let ?xs = "[0..<32]" and ?P = "\<lambda>i. \<not> bit x i"
  obtain j where j: "j < 32" "bit x j" using u32_nonzero_bit[OF assms] by blast
  have lt: "length (takeWhile ?P ?xs) < length ?xs"
    by (rule takeWhile_length_less[of j]) (use j in auto)
  then show lt32: "builtin_ctz x < 32" by (simp add: builtin_ctz_def)
  show "bit x (builtin_ctz x)"
    using nth_takeWhile_stop[OF lt] lt32 by (simp add: builtin_ctz_def)
  assume i: "i < builtin_ctz x"
  then show "\<not> bit x i"
    using nth_takeWhile_run[of i ?P ?xs] lt32 by (simp add: builtin_ctz_def)
qed

text \<open>The test \<open>x & (x - 1)\<close> recognises powers of two.\<close>

lemma pow2_test:
  assumes nz: "x \<noteq> 0" and test: "x AND (x - 1) = (0 :: u32)"
  shows "unat x = 2 ^ builtin_ctz x"
proof -
  let ?k = "builtin_ctz x"
  have k: "?k < 32" "bit x ?k" and low: "\<And>i. i < ?k \<Longrightarrow> \<not> bit x i"
    using builtin_ctz_props[OF nz] by blast+
  have "take_bit (Suc ?k) x = 2 ^ ?k"
    by (rule bit_word_eqI) (use k low in \<open>auto simp: bit_take_bit_iff bit_exp_iff less_Suc_eq\<close>)
  then have m: "unat x mod 2 ^ Suc ?k = 2 ^ ?k"
    using k(1) unat_take_bit[of "Suc ?k" x] by (simp add: unat_two_power)
  then have pos: "0 < unat x" using nz by (simp add: unat_gt_0)
  have pred: "unat (x - 1) = unat x - 1"
    using nz by (simp add: unat_minus_one)
  have "(unat x - 1) div 2 ^ Suc ?k = unat x div 2 ^ Suc ?k"
  proof -
    have "unat x - 1 = unat x div 2 ^ Suc ?k * 2 ^ Suc ?k + (2 ^ ?k - 1)"
      using m div_mult_mod_eq[of "unat x" "2 ^ Suc ?k"] by simp
    moreover have "(2 ^ ?k - 1 :: nat) < 2 ^ Suc ?k" by (simp add: less_imp_diff_less)
    ultimately show ?thesis by (simp only: div_mult_self3 div_less)
  qed
  then have "drop_bit (Suc ?k) (x - 1) = drop_bit (Suc ?k) x"
    by (intro word_eq_unatI) (simp only: unat_drop_bit pred)
  then have "drop_bit (Suc ?k) x = drop_bit (Suc ?k) (x AND (x - 1))"
    by (simp only: drop_bit_and and.idem)
  then have "unat x div 2 ^ Suc ?k = 0"
    by (metis test drop_bit_of_0 unat_drop_bit unsigned_0)
  then show ?thesis using m div_mult_mod_eq[of "unat x" "2 ^ Suc ?k"] by simp
qed

lemma unat_and_pred_pow2:
  fixes n d :: "'a::len word"
  assumes "unat d = 2 ^ k" and "k < LENGTH('a)"
  shows "unat (n AND (d - 1)) = unat n mod 2 ^ k"
proof -
  have "d = 2 ^ k" by (rule word_eq_unatI) (simp add: assms unat_two_power)
  then have "n AND (d - 1) = take_bit k n" by (simp add: take_bit_eq_mask mask_eq_decr_exp)
  then show ?thesis by (simp add: unat_take_bit del: take_bit_eq_mask)
qed

lemma word_of_nat_unat: "of_nat (unat x) = (x :: 'a::len word)"
  by simp

section \<open>One round of the division loop\<close>

text \<open>The two 64-bit values a loop state stands for.\<close>

abbreviation q_all :: "divst \<Rightarrow> nat" where
  "q_all st \<equiv> unat (udwords_all (q_high st) (q_low st))"

abbreviation r_all :: "divst \<Rightarrow> nat" where
  "r_all st \<equiv> unat (udwords_all (r_high st) (r_low st))"

lemma unat_shl1_or: "unat y < 2 \<Longrightarrow> unat (push_bit 1 (x :: u32) OR y) = 2 * unat x mod 2 ^ 32 + unat y"
  using unat_push_or[of y 1 x] by (simp add: mult.commute)

lemma unat_top_bit: "unat (drop_bit 31 (x :: u32)) = unat x div 2 ^ 31" "unat x div 2 ^ 31 < 2"
  using unat_u32_less[of x] by (simp_all only: unat_drop_bit) simp

lemma shl1_halves:
  assumes "l < 2 ^ 32"
  shows "(2 * h mod 2 ^ 32 + l div 2 ^ 31) * 2 ^ 32 + (2 * l mod 2 ^ 32 + c) =
    2 * (h * 2 ^ 32 + l) mod 2 ^ 64 + (c :: nat)"
proof -
  have h: "2 * h mod 2 ^ 32 = 2 * (h mod 2 ^ 31)" for h :: nat
    using mod_mult_mult1[of 2 h "2 ^ 31"] by simp
  have "2 * (h * 2 ^ 32 + l) mod 2 ^ 64 = 2 * ((h * 2 ^ 32 + l) mod 2 ^ 63)"
    using mod_mult_mult1[of 2 "h * 2 ^ 32 + l" "2 ^ 63"] by simp
  also have "(h * 2 ^ 32 + l) mod 2 ^ 63 = (h mod 2 ^ 31) * 2 ^ 32 + l"
  proof -
    have "(h * 2 ^ 32 + l) mod (2 ^ 32 * 2 ^ 31) = 2 ^ 32 * ((h * 2 ^ 32 + l) div 2 ^ 32 mod 2 ^ 31)
        + (h * 2 ^ 32 + l) mod 2 ^ 32"
      by (rule mod_mult2_eq)
    then show ?thesis using assms by simp
  qed
  finally have eq: "2 * (h * 2 ^ 32 + l) mod 2 ^ 64 = 2 * ((h mod 2 ^ 31) * 2 ^ 32 + l)" .
  have "(l div 2 ^ 31) * 2 ^ 32 = 2 * (l div 2 ^ 31 * 2 ^ 31)" by simp
  then have "2 * l = (l div 2 ^ 31) * 2 ^ 32 + 2 * (l mod 2 ^ 31)"
    using div_mult_mod_eq[of l "2 ^ 31"] by linarith
  then show ?thesis unfolding eq h by (simp only: algebra_simps)
qed

lemma r_shifted:
  "unat (udwords_all (push_bit 1 (r_high st) OR drop_bit 31 (r_low st))
                     (push_bit 1 (r_low st) OR drop_bit 31 (q_high st))) =
   2 * r_all st mod 2 ^ 64 + q_all st div 2 ^ 63"
proof -
  have "q_all st div 2 ^ 63 = unat (q_high st) div 2 ^ 31"
  proof -
    have "q_all st div 2 ^ 63 = q_all st div 2 ^ 32 div 2 ^ 31" by (simp add: div_mult2_eq [symmetric])
    then show ?thesis using unat_u32_less[of "q_low st"] by (simp add: unat_udwords_all)
  qed
  then show ?thesis
    using shl1_halves[OF unat_u32_less[of "r_low st"], of "unat (r_high st)" "unat (q_high st) div 2 ^ 31"]
    by (simp only: unat_udwords_all unat_shl1_or[OF unat_top_bit(2)[folded unat_top_bit(1)]] unat_top_bit(1))
qed

lemma q_shifted:
  assumes "unat c < 2"
  shows "unat (udwords_all (push_bit 1 (q_high st) OR drop_bit 31 (q_low st))
                     (push_bit 1 (q_low st) OR c)) = 2 * q_all st mod 2 ^ 64 + unat c"
  using shl1_halves[OF unat_u32_less[of "q_low st"], of "unat (q_high st)" "unat c"] assms
  by (simp only: unat_udwords_all unat_shl1_or[OF unat_top_bit(2)[folded unat_top_bit(1)]]
      unat_shl1_or[OF assms] unat_top_bit(1))

lemma sign_mask: "signed_drop_bit 63 (w :: u64) = (if 2 ^ 63 \<le> unat w then - 1 else 0)"
proof -
  have "bit w 63 \<longleftrightarrow> 2 ^ 63 \<le> unat w"
  proof
    assume "2 ^ 63 \<le> unat w"
    show "bit w 63"
    proof (rule ccontr)
      assume "\<not> bit w 63"
      then have "\<not> bit w i" if "63 \<le> i" for i
        using that bit_imp_le_length[of w i] by (cases "i = 63") auto
      then have "unat w < 2 ^ 63" by (rule unat_less_if_high_bits_zero)
      with \<open>2 ^ 63 \<le> unat w\<close> show False by simp
    qed
  qed (rule bit_imp_le_unat)
  moreover have "signed_drop_bit 63 w = (if bit w 63 then - 1 else 0)"
    by (rule bit_word_eqI) (auto simp: bit_signed_drop_bit_iff Suc_le_eq)
  ultimately show ?thesis by simp
qed

lemma unat_sub_wrap:
  "unat (x - y) = (if unat y \<le> unat x then unat x - unat y else 2 ^ 64 + unat x - unat y)" for x y :: u64
  using unat_u64_less[of x] unat_u64_less[of y]
  by (auto simp: unat_sub_if' )

text \<open>The comparison by the sign of \<open>d - r - 1\<close>.\<close>

lemma sign_compare:
  assumes "unat r < unat d + 2 ^ 63" and "unat d \<le> unat r + 2 ^ 63"
  shows "signed_drop_bit 63 (d - r - 1) = (if d \<le> r then - 1 else (0 :: u64))"
proof (cases "d \<le> r")
  case True
  then have "unat d \<le> unat r" by (simp add: word_le_nat_alt)
  then have "unat (d - r - 1) = 2 ^ 64 + unat d - unat r - 1"
    using assms(1) unat_u64_less[of r]
    by (simp add: unat_sub_wrap) linarith
  then show ?thesis using True assms(1) \<open>unat d \<le> unat r\<close> by (simp add: sign_mask)
next
  case False
  then have "unat r < unat d" by (simp add: word_le_nat_alt)
  then have "unat (d - r - 1) = unat d - unat r - 1" by (simp add: unat_sub_wrap)
  then show ?thesis using False assms(2) by (simp add: sign_mask)
qed

section \<open>The loop invariant\<close>

text \<open>
  With \<open>sr\<close> rounds to go, \<open>q\<close> holds the remaining \<open>sr\<close> bits of the numerator above the
  quotient bits \<open>p\<close> produced so far, whose last bit is still in \<open>carry\<close>; the part of the
  numerator consumed so far is divided.
\<close>

definition div_inv :: "nat \<Rightarrow> nat \<Rightarrow> nat \<Rightarrow> divst \<Rightarrow> bool" where
  "div_inv n d sr st \<longleftrightarrow> (\<exists>p. q_all st = (n mod 2 ^ sr) * 2 ^ (64 - sr) + p \<and> p < 2 ^ (64 - sr) \<and>
     n div 2 ^ sr = (2 * p + unat (carry st)) * d + r_all st \<and> r_all st < d \<and> unat (carry st) < 2)"

lemma udivmod_step_halves:
  fixes st d
  defines "r \<equiv> udwords_all (push_bit 1 (r_high st) OR drop_bit 31 (r_low st))
                          (push_bit 1 (r_low st) OR drop_bit 31 (q_high st))"
  assumes "unat r < unat d + 2 ^ 63" and "unat d \<le> unat r + 2 ^ 63" and "unat (carry st) < 2"
  shows "q_all (udivmod_step d st) = 2 * q_all st mod 2 ^ 64 + unat (carry st)"
    and "r_all (udivmod_step d st) = (if unat d \<le> unat r then unat r - unat d else unat r)"
    and "unat (carry (udivmod_step d st)) = (if unat d \<le> unat r then 1 else 0)"
proof -
  have le: "d \<le> r \<longleftrightarrow> unat d \<le> unat r" by (simp add: word_le_nat_alt)
  have s: "signed_drop_bit 63 (d - r - 1) = (if d \<le> r then - 1 else 0)"
    using assms(2,3) by (rule sign_compare)
  have joined: "udwords_all (hi32 w) (lo32 w) = w" for w
    by (rule word_eq_unatI) (simp only: unat_udwords_all unat_split[symmetric])
  show "q_all (udivmod_step d st) = 2 * q_all st mod 2 ^ 64 + unat (carry st)"
    using q_shifted[OF assms(4), of st] by (simp add: udivmod_step_def Let_def)
  show "r_all (udivmod_step d st) = (if unat d \<le> unat r then unat r - unat d else unat r)"
    using s le unfolding udivmod_step_def Let_def r_def[symmetric]
    by (simp add: joined unat_sub)
  show "unat (carry (udivmod_step d st)) = (if unat d \<le> unat r then 1 else 0)"
    using s le unfolding udivmod_step_def Let_def r_def[symmetric]
    by (simp add: unat_lo32)
qed


text \<open>The numerator loses its top remaining bit \<open>b\<close>.\<close>

lemma numerator_split:
  fixes n k :: nat
  defines "b \<equiv> n div 2 ^ k mod 2"
  shows "n mod 2 ^ Suc k = b * 2 ^ k + n mod 2 ^ k" and "n div 2 ^ k = 2 * (n div 2 ^ Suc k) + b"
proof -
  show "n mod 2 ^ Suc k = b * 2 ^ k + n mod 2 ^ k"
    using mod_mult2_eq[of n "2 ^ k" 2] by (simp only: b_def power_Suc2 mult.commute)
  show "n div 2 ^ k = 2 * (n div 2 ^ Suc k) + b"
    using div_mult2_eq[of n "2 ^ k" 2] by (simp add: b_def mult.commute)
qed

lemma shift_numerator:
  fixes n p q k :: nat
  defines "b \<equiv> n div 2 ^ k mod 2"
  assumes k: "k < 64" and q: "q = (n mod 2 ^ Suc k) * 2 ^ (63 - k) + p" and p: "p < 2 ^ (63 - k)"
  shows "2 * q mod 2 ^ 64 = (n mod 2 ^ k) * 2 ^ (64 - k) + 2 * p" and "q div 2 ^ 63 = b"
proof -
  define e :: nat where "e = 2 ^ (63 - k)"
  have me: "2 ^ k * e = 2 ^ 63" using k by (simp only: e_def power_add [symmetric]) simp
  have e2: "2 ^ (64 - k) = 2 * e" using k by (simp add: e_def Suc_diff_le flip: power_Suc)
  let ?m = "n mod 2 ^ k"
  have "Suc ?m \<le> 2 ^ k" by (simp add: Suc_leI)
  then have "Suc ?m * e \<le> 2 ^ 63" unfolding me[symmetric] by (rule mult_le_mono1)
  then have lt: "?m * e + p < 2 ^ 63" using p by (simp add: e_def)
  have q': "q = b * 2 ^ 63 + (?m * e + p)"
    using q unfolding numerator_split(1)[of n k] b_def[symmetric] e_def[symmetric] me[symmetric]
    by (simp add: algebra_simps)
  show "q div 2 ^ 63 = b" unfolding q' using lt by simp
  have "2 * q = (2 * (?m * e + p)) + b * 2 ^ 64" unfolding q' by simp
  then have "2 * q mod 2 ^ 64 = 2 * (?m * e + p) mod 2 ^ 64" by (simp only: mod_mult_self1)
  also have "\<dots> = 2 * (?m * e + p)" using lt by simp
  finally show "2 * q mod 2 ^ 64 = (n mod 2 ^ k) * 2 ^ (64 - k) + 2 * p" unfolding e2 by (simp add: algebra_simps)
qed

lemma udivmod_step_inv:
  assumes inv: "div_inv n (unat d) (Suc k) st" and k: "k < 64" and n: "n < 2 ^ 64"
    and D: "unat d \<le> 2 ^ 63 \<or> k = 0 \<and> 2 ^ 63 \<le> n"
  shows "div_inv n (unat d) k (udivmod_step d st)"
proof -
  from inv obtain p where q: "q_all st = (n mod 2 ^ Suc k) * 2 ^ (63 - k) + p" and p: "p < 2 ^ (63 - k)"
    and num: "n div 2 ^ Suc k = (2 * p + unat (carry st)) * unat d + r_all st"
    and r: "r_all st < unat d" and c: "unat (carry st) < 2"
    unfolding div_inv_def by auto
  define r' where "r' = udwords_all (push_bit 1 (r_high st) OR drop_bit 31 (r_low st))
                          (push_bit 1 (r_low st) OR drop_bit 31 (q_high st))"
  let ?b = "n div 2 ^ k mod 2" and ?p = "2 * p + unat (carry st)"
  have "2 * r_all st < 2 ^ 64"
  proof (cases "unat d \<le> 2 ^ 63")
    case True then show ?thesis using r by simp
  next
    case False
    then have "r_all st \<le> n div 2" using D num by simp
    then show ?thesis using n by simp
  qed
  then have ur: "unat r' = 2 * r_all st + ?b"
    unfolding r'_def r_shifted shift_numerator(2)[OF k q p] by simp
  have num': "n div 2 ^ k = 2 * ?p * unat d + unat r'"
    using numerator_split(2)[of n k] unfolding num ur by (simp only: algebra_simps)
  have b: "?b \<le> 1" by simp
  have two64: "(2 :: nat) ^ 64 = 2 ^ 63 + 2 ^ 63" by simp
  have c1: "unat r' < unat d + 2 ^ 63" and c2: "unat d \<le> unat r' + 2 ^ 63"
  proof -
    show "unat r' < unat d + 2 ^ 63" using ur r b unat_u64_less[of r'] two64
      by (cases "unat d \<le> 2 ^ 63") linarith+
    show "unat d \<le> unat r' + 2 ^ 63"
    proof (cases "unat d \<le> 2 ^ 63")
      case False
      with D have k0: "k = 0" and big: "2 ^ 63 \<le> n" by auto
      have "?p * unat d \<le> n div 2" using num by (simp only: k0 power_one_right One_nat_def [symmetric])
      moreover have "n div 2 < 2 ^ 63" using n by (simp add: less_mult_imp_div_less)
      ultimately have "?p * unat d < unat d" using False by linarith
      then have "?p = 0" by (metis mult_le_mono1 nat_mult_1 not_le less_one)
      then have "unat r' = n" using num' by (simp only: k0 power_0 div_by_1 mult_0_right mult_0 add_0)
      then show ?thesis using big unat_u64_less[of d] by simp
    qed linarith
  qed
  note halves = udivmod_step_halves[of st d, folded r'_def, OF c1 c2 c]
  have "(2 :: nat) ^ (64 - k) = 2 * 2 ^ (63 - k)" using k by (simp add: Suc_diff_le flip: power_Suc)
  then have "?p < 2 ^ (64 - k)" using p c by linarith
  moreover have "q_all (udivmod_step d st) = (n mod 2 ^ k) * 2 ^ (64 - k) + ?p"
    unfolding halves(1) shift_numerator(1)[OF k q p] by simp
  moreover have "n div 2 ^ k = (2 * ?p + unat (carry (udivmod_step d st))) * unat d + r_all (udivmod_step d st)"
    using num' unfolding halves by (simp add: algebra_simps)
  moreover have "unat r' < 2 * unat d" using ur r b by linarith
  then have "r_all (udivmod_step d st) < unat d" unfolding halves(2) by auto
  ultimately show ?thesis unfolding div_inv_def by (intro exI[of _ ?p]) (simp add: halves(3))
qed

lemma udivmod_loop_inv:
  assumes "div_inv n (unat d) sr st" and "sr \<le> 64" and "n < 2 ^ 64"
    and "unat d \<le> 2 ^ 63 \<or> sr \<le> 1 \<and> 2 ^ 63 \<le> n"
  shows "div_inv n (unat d) 0 (udivmod_loop d sr st)"
  using assms
proof (induction sr arbitrary: st)
  case (Suc k)
  have "div_inv n (unat d) k (udivmod_step d st)"
    using Suc.prems by (intro udivmod_step_inv) auto
  with Suc show ?case by auto
qed simp

lemma udivmod_general_correct:
  assumes q: "q_all st = (n mod 2 ^ unat sr) * 2 ^ (64 - unat sr)"
    and r: "r_all st = n div 2 ^ unat sr" and lt: "n div 2 ^ unat sr < unat d"
    and "unat sr \<le> 64" and "n < 2 ^ 64" and "unat d \<le> 2 ^ 63 \<or> unat sr \<le> 1 \<and> 2 ^ 63 \<le> n"
  shows "udivmod_general d sr st = (of_nat (n div unat d), of_nat (n mod unat d))"
proof -
  let ?st0 = "st\<lparr>carry := 0\<rparr>"
  define st' where "st' = udivmod_loop d (unat sr) ?st0"
  have "div_inv n (unat d) (unat sr) ?st0"
    unfolding div_inv_def using q r lt by (intro exI[of _ 0]) simp
  then have "div_inv n (unat d) 0 st'"
    unfolding st'_def using assms by (intro udivmod_loop_inv) auto
  then obtain p where p: "q_all st' = p" and n: "n = (2 * p + unat (carry st')) * unat d + r_all st'"
    and lt': "r_all st' < unat d" and c: "unat (carry st') < 2"
    unfolding div_inv_def by auto
  have div: "n div unat d = 2 * p + unat (carry st')" and mod: "n mod unat d = r_all st'"
    using n lt' by (simp_all add: div_nat_eqI mod_nat_eqI)
  have "2 * p + unat (carry st') \<le> n" using div div_le_dividend by metis
  then have "p * 2 < 2 ^ 64" using assms(5) by linarith
  then have "unat (push_bit 1 (udwords_all (q_high st') (q_low st')) OR ucast (carry st') :: u64) = n div unat d"
    using c p unfolding div by (subst unat_push_or) (simp_all add: unsigned_ucast_eq take_bit_eq_mod)
  then have "push_bit 1 (udwords_all (q_high st') (q_low st')) OR ucast (carry st') = (of_nat (n div unat d) :: u64)"
    by (metis word_of_nat_unat)
  moreover have "udwords_all (r_high st') (r_low st') = of_nat (n mod unat d)"
    unfolding mod by (rule word_of_nat_unat[symmetric])
  ultimately show ?thesis
    unfolding udivmod_general_def st'_def[symmetric] Let_def by (simp only:)
qed

section \<open>Initial states\<close>

lemma shift_low_word:
  fixes h l k :: nat
  assumes "k \<le> 32" and "l < 2 ^ 32"
  shows "(h * 2 ^ 32 + l) mod 2 ^ k = l mod 2 ^ k"
    and "(h * 2 ^ 32 + l) div 2 ^ k = h * 2 ^ (32 - k) + l div 2 ^ k"
proof -
  have split: "h * 2 ^ 32 = h * 2 ^ (32 - k) * 2 ^ k"
    using assms(1) by (simp add: mult.assoc power_add [symmetric] del: power_numeral)
  show "(h * 2 ^ 32 + l) mod 2 ^ k = l mod 2 ^ k"
    unfolding split by (simp only: mod_mult_self3)
  show "(h * 2 ^ 32 + l) div 2 ^ k = h * 2 ^ (32 - k) + l div 2 ^ k"
    unfolding split by (simp add: add.commute)
qed

lemma push_low_word: "k \<le> 32 \<Longrightarrow> unat (push_bit (32 - k) (x :: u32)) = (unat x mod 2 ^ k) * 2 ^ (32 - k)"
proof -
  assume k: "k \<le> 32"
  have "(2 :: nat) ^ 32 = 2 ^ k * 2 ^ (32 - k)" using k by (simp add: power_add [symmetric])
  then show ?thesis
    using mod_mult_mult2[of "unat x" "2 ^ (32 - k)" "2 ^ k"] unat_push_bit[of "32 - k" x] by simp
qed

text \<open>For \<open>0 < k < 32\<close>: \<open>q = n << (64 - k)\<close> and \<open>r = n >> k\<close>.\<close>

lemma init_short:
  fixes nh nl :: u32
  assumes "0 < k" and "k < 32"
  defines "st \<equiv> divst0 (push_bit (32 - k) nl) 0 (drop_bit k nh) (push_bit (32 - k) nh OR drop_bit k nl)"
    and "n \<equiv> unat nh * 2 ^ 32 + unat nl"
  shows "q_all st = (n mod 2 ^ k) * 2 ^ (64 - k)" and "r_all st = n div 2 ^ k"
proof -
  have k: "k \<le> 32" using assms by simp
  have lt: "unat (drop_bit k nl) < 2 ^ (32 - k)"
    using unat_u32_less[of nl] k unfolding unat_drop_bit
    by (simp add: less_mult_imp_div_less power_add [symmetric] del: power_numeral)
  have "q_all st = (unat nl mod 2 ^ k) * 2 ^ (32 - k) * 2 ^ 32"
    using push_low_word[OF k, of nl] by (simp add: st_def divst0_def unat_udwords_all)
  also have "\<dots> = (unat nl mod 2 ^ k) * 2 ^ (64 - k)"
    using k by (simp add: mult.assoc power_add [symmetric] del: power_numeral)
  finally show "q_all st = (n mod 2 ^ k) * 2 ^ (64 - k)"
    unfolding n_def shift_low_word(1)[OF k unat_u32_less] .
  have "r_all st = unat nh div 2 ^ k * 2 ^ 32 + ((unat nh mod 2 ^ k) * 2 ^ (32 - k) + unat nl div 2 ^ k)"
    using push_low_word[OF k, of nh] unat_push_or[OF lt, of nh] assms(1,2)
    by (simp add: st_def divst0_def unat_udwords_all unat_drop_bit unat_push_bit)
  also have "unat nh div 2 ^ k * 2 ^ 32 = unat nh div 2 ^ k * 2 ^ k * 2 ^ (32 - k)"
    using k by (simp add: mult.assoc power_add [symmetric] del: power_numeral)
  also have "\<dots> + ((unat nh mod 2 ^ k) * 2 ^ (32 - k) + unat nl div 2 ^ k) =
      (unat nh div 2 ^ k * 2 ^ k + unat nh mod 2 ^ k) * 2 ^ (32 - k) + unat nl div 2 ^ k"
    by (simp only: algebra_simps)
  finally show "r_all st = n div 2 ^ k"
    unfolding n_def shift_low_word(2)[OF k unat_u32_less] by (simp only: div_mult_mod_eq)
qed

lemma init_32:
  fixes nh nl :: u32
  defines "st \<equiv> divst0 nl 0 0 nh" and "n \<equiv> unat nh * 2 ^ 32 + unat nl"
  shows "q_all st = (n mod 2 ^ 32) * 2 ^ (64 - 32)" and "r_all st = n div 2 ^ 32"
  using unat_u32_less[of nl] by (simp_all add: st_def n_def divst0_def unat_udwords_all)

text \<open>For \<open>32 < k < 64\<close>.\<close>

lemma init_long:
  fixes nh nl :: u32
  assumes "32 < k" and "k < 64"
  defines "st \<equiv> divst0 (push_bit (64 - k) nh OR drop_bit (k - 32) nl) (push_bit (64 - k) nl) 0 (drop_bit (k - 32) nh)"
    and "n \<equiv> unat nh * 2 ^ 32 + unat nl"
  shows "q_all st = (n mod 2 ^ k) * 2 ^ (64 - k)" and "r_all st = n div 2 ^ k"
proof -
  define j where "j = k - 32"
  have j: "0 < j" "j < 32" "64 - k = 32 - j" "k = 32 + j" using assms by (auto simp: j_def)
  have nl: "unat nl < 2 ^ 32" by (rule unat_u32_less)
  have "n div 2 ^ k = n div 2 ^ 32 div 2 ^ j" by (simp only: j(4) power_add div_mult2_eq)
  then show "r_all st = n div 2 ^ k"
    using nl by (simp add: st_def n_def divst0_def unat_udwords_all unat_drop_bit j_def)
  have lt: "unat (drop_bit j nl) < 2 ^ (32 - j)"
    using unat_u32_less[of nl] j unfolding unat_drop_bit
    by (simp add: less_mult_imp_div_less power_add [symmetric] del: power_numeral)
  have qh: "unat (push_bit (32 - j) nh OR drop_bit j nl) = (unat nh mod 2 ^ j) * 2 ^ (32 - j) + unat nl div 2 ^ j"
    using push_low_word[of j nh] unat_push_or[OF lt, of nh] j by (simp add: unat_drop_bit unat_push_bit)
  have "n mod 2 ^ k = 2 ^ 32 * (n div 2 ^ 32 mod 2 ^ j) + n mod 2 ^ 32"
    by (simp only: j(4) power_add mod_mult2_eq)
  then have nk: "n mod 2 ^ k = (unat nh mod 2 ^ j) * 2 ^ 32 + unat nl"
    using nl by (simp add: n_def)
  have e: "2 ^ 32 = 2 ^ (32 - j) * (2 :: nat) ^ j" using j by (simp add: power_add [symmetric] del: power_numeral)
  have "q_all st = ((unat nh mod 2 ^ j) * 2 ^ (32 - j) + unat nl div 2 ^ j) * 2 ^ 32 + (unat nl mod 2 ^ j) * 2 ^ (32 - j)"
    using qh push_low_word[of j nl] j(2,3)
    by (simp add: st_def divst0_def unat_udwords_all flip: j_def)
  also have "\<dots> = (unat nh mod 2 ^ j) * 2 ^ 32 * 2 ^ (32 - j) + (unat nl div 2 ^ j * 2 ^ j + unat nl mod 2 ^ j) * 2 ^ (32 - j)"
    by (subst (1 2) e) (simp only: algebra_simps)
  also have "\<dots> = (n mod 2 ^ k) * 2 ^ (64 - k)"
    unfolding nk j(3) div_mult_mod_eq by (simp only: algebra_simps)
  finally show "q_all st = (n mod 2 ^ k) * 2 ^ (64 - k)" .
qed

section \<open>The divider\<close>

lemma unat_ucast_up: "unat (ucast (x :: u32) :: u64) = unat x"
  using unat_u32_less[of x] by (simp add: unsigned_ucast_eq take_bit_eq_mod)

lemma unat_numeral_32: "unat (32 :: u32) = 32"
  by simp

lemma sr_value:
  assumes "a < 32" "b < 32"
  shows "unat (of_nat a - of_nat b :: u32) = (if b \<le> a then a - b else 2 ^ 32 - (b - a))"
proof -
  have "unat (of_nat a :: u32) = a" "unat (of_nat b :: u32) = b"
    using assms by (simp_all add: unat_of_nat)
  then show ?thesis using assms by (auto simp: unat_sub_if')
qed

lemma two_pow_sum: "a + b = c \<Longrightarrow> (2 :: nat) ^ a * 2 ^ b = 2 ^ c"
  by (auto simp: power_add)

text \<open>Numerator shifted below the divisor, and the comparison when the shift would be negative.\<close>

lemma clz_shift_hi:
  fixes nh dh nl dl :: u32
  assumes "nh \<noteq> 0" "dh \<noteq> 0" "builtin_clz nh \<le> builtin_clz dh"
  defines "k \<equiv> builtin_clz dh - builtin_clz nh + 1"
  shows "(unat nh * 2 ^ 32 + unat nl) div 2 ^ k < unat dh * 2 ^ 32 + unat dl"
proof -
  let ?a = "builtin_clz nh" and ?b = "builtin_clz dh"
  have a: "?a < 32" and b: "?b < 32" using assms builtin_clz_props(1) by auto
  have "Suc (unat nh) \<le> 2 ^ (32 - ?a)" using builtin_clz_bounds(2)[OF assms(1)] by simp
  then have "Suc (unat nh) * 2 ^ 32 \<le> 2 ^ (32 - ?a) * 2 ^ 32" by (rule mult_le_mono1)
  then have "unat nh * 2 ^ 32 + unat nl < 2 ^ (32 - ?a) * 2 ^ 32"
    using unat_u32_less[of nl] by simp
  also have "\<dots> = 2 ^ (31 - ?b + 32) * 2 ^ k"
    unfolding power_add [symmetric] using a b assms(3) by (intro arg_cong[of _ _ "power 2"]) (simp add: k_def)
  finally have "(unat nh * 2 ^ 32 + unat nl) div 2 ^ k < 2 ^ (31 - ?b + 32)"
    by (rule less_mult_imp_div_less)
  also have "\<dots> \<le> unat dh * 2 ^ 32" unfolding power_add
    using builtin_clz_bounds(1)[OF assms(2)] by simp
  finally show ?thesis by simp
qed

lemma clz_shift_lo:
  fixes nh nl dl :: u32
  assumes "nh \<noteq> 0" "dl \<noteq> 0"
  defines "k \<equiv> 33 + builtin_clz dl - builtin_clz nh"
  shows "(unat nh * 2 ^ 32 + unat nl) div 2 ^ k < unat dl"
proof -
  let ?a = "builtin_clz nh" and ?b = "builtin_clz dl"
  have a: "?a < 32" and b: "?b < 32" using assms builtin_clz_props(1) by auto
  have "Suc (unat nh) \<le> 2 ^ (32 - ?a)" using builtin_clz_bounds(2)[OF assms(1)] by simp
  then have "Suc (unat nh) * 2 ^ 32 \<le> 2 ^ (32 - ?a) * 2 ^ 32" by (rule mult_le_mono1)
  then have "unat nh * 2 ^ 32 + unat nl < 2 ^ (32 - ?a) * 2 ^ 32"
    using unat_u32_less[of nl] by simp
  also have "\<dots> = 2 ^ (31 - ?b) * 2 ^ k"
    unfolding power_add [symmetric] using a b by (intro arg_cong[of _ _ "power 2"]) (simp add: k_def)
  finally have "(unat nh * 2 ^ 32 + unat nl) div 2 ^ k < 2 ^ (31 - ?b)"
    by (rule less_mult_imp_div_less)
  also have "\<dots> \<le> unat dl" using builtin_clz_bounds(1)[OF assms(2)] .
  finally show ?thesis .
qed

lemma clz_smaller:
  fixes nh dh nl dl :: u32
  assumes "nh \<noteq> 0" "dh \<noteq> 0" "builtin_clz dh < builtin_clz nh"
  shows "unat nh * 2 ^ 32 + unat nl < unat dh * 2 ^ 32 + unat dl"
proof -
  have "unat nh < 2 ^ (32 - builtin_clz nh)" using builtin_clz_bounds(2)[OF assms(1)] .
  also have "\<dots> \<le> 2 ^ (31 - builtin_clz dh)"
    using assms(3) builtin_clz_props(1)[OF assms(1)] by (intro power_increasing) auto
  also have "\<dots> \<le> unat dh" using builtin_clz_bounds(1)[OF assms(2)] .
  finally have "Suc (unat nh) * 2 ^ 32 \<le> unat dh * 2 ^ 32" by (intro mult_le_mono1) simp
  then show ?thesis using unat_u32_less[of nl] by simp
qed

text \<open>The result every branch has to return.\<close>

abbreviation divmod_of :: "nat \<Rightarrow> nat \<Rightarrow> u64 \<times> u64" where
  "divmod_of n d \<equiv> (of_nat (n div d), of_nat (n mod d))"

lemma divmod_ofI: "unat q = n div d \<Longrightarrow> unat r = n mod d \<Longrightarrow> (q, r) = divmod_of n d"
  by (metis word_of_nat_unat)

lemma general_short:
  fixes nh nl :: u32
  assumes "0 < unat sr" "unat sr < 32" and n: "unat nh * 2 ^ 32 + unat nl < 2 ^ 64"
    and "(unat nh * 2 ^ 32 + unat nl) div 2 ^ unat sr < unat d"
    and "unat d \<le> 2 ^ 63 \<or> unat sr \<le> 1 \<and> 2 ^ 63 \<le> unat nh * 2 ^ 32 + unat nl"
  shows "udivmod_general d sr
      (divst0 (push_bit (32 - unat sr) nl) 0
              (drop_bit (unat sr) nh) (push_bit (32 - unat sr) nh OR drop_bit (unat sr) nl)) =
    divmod_of (unat nh * 2 ^ 32 + unat nl) (unat d)"
  by (rule udivmod_general_correct[OF init_short[OF assms(1,2)]]) (use assms in auto)

lemma general_32:
  fixes nh nl :: u32
  assumes "sr = 32" and n: "unat nh * 2 ^ 32 + unat nl < 2 ^ 64"
    and "unat nh < unat d" and "unat d \<le> 2 ^ 63"
  shows "udivmod_general d sr (divst0 nl 0 0 nh) = divmod_of (unat nh * 2 ^ 32 + unat nl) (unat d)"
proof (rule udivmod_general_correct)
  show "q_all (divst0 nl 0 0 nh) =
      (unat nh * 2 ^ 32 + unat nl) mod 2 ^ unat sr * 2 ^ (64 - unat sr)"
    using init_32(1)[of nl nh] by (simp add: assms(1))
  show "r_all (divst0 nl 0 0 nh) = (unat nh * 2 ^ 32 + unat nl) div 2 ^ unat sr"
    using init_32(2)[of nl nh] by (simp add: assms(1))
qed (use assms unat_u32_less[of nl] in auto)

lemma general_long:
  fixes nh nl :: u32
  assumes "32 < unat sr" "unat sr < 64" and n: "unat nh * 2 ^ 32 + unat nl < 2 ^ 64"
    and "(unat nh * 2 ^ 32 + unat nl) div 2 ^ unat sr < unat d" and "unat d \<le> 2 ^ 63"
  shows "udivmod_general d sr
      (divst0 (push_bit (64 - unat sr) nh OR drop_bit (unat sr - 32) nl) (push_bit (64 - unat sr) nl)
              0 (drop_bit (unat sr - 32) nh)) =
    divmod_of (unat nh * 2 ^ 32 + unat nl) (unat d)"
  by (rule udivmod_general_correct[OF init_long[OF assms(1,2)]]) (use assms in auto)

lemma numerator_bound: "unat (nh :: u32) * 2 ^ 32 + unat (nl :: u32) < 2 ^ 64"
  using unat_u32_less[of nh] unat_u32_less[of nl] by simp

lemma general_hi:
  fixes nh nl dh dl :: u32
  defines "sr \<equiv> of_nat (builtin_clz dh) - of_nat (builtin_clz nh) :: u32"
  assumes "nh \<noteq> 0" "dh \<noteq> 0" and le: "builtin_clz nh \<le> builtin_clz dh" and nz: "unat d = unat dh * 2 ^ 32 + unat dl"
  shows "(if sr + 1 = 32 then udivmod_general d (sr + 1) (divst0 nl 0 0 nh)
     else udivmod_general d (sr + 1)
      (divst0 (push_bit (32 - unat (sr + 1)) nl) 0 (drop_bit (unat (sr + 1)) nh)
              (push_bit (32 - unat (sr + 1)) nh OR drop_bit (unat (sr + 1)) nl))) =
    divmod_of (unat nh * 2 ^ 32 + unat nl) (unat d)"
proof -
  let ?a = "builtin_clz nh" and ?b = "builtin_clz dh" and ?n = "unat nh * 2 ^ 32 + unat nl"
  have a: "?a < 32" and b: "?b < 32" using assms builtin_clz_props(1) by auto
  have "unat sr = ?b - ?a" unfolding sr_def sr_value[OF b a] using le by simp
  then have sr: "unat (sr + 1) = ?b - ?a + 1" using b by (subst unat_add_no_wrap) simp_all
  have lt: "?n div 2 ^ unat (sr + 1) < unat d"
    unfolding sr nz by (rule clz_shift_hi) (use assms in auto)
  have big: "unat d \<le> 2 ^ 63" if "?b \<noteq> 0"
  proof -
    have "unat dh < 2 ^ (32 - ?b)" by (rule builtin_clz_bounds(2)) (rule assms)
    also have "\<dots> \<le> 2 ^ 31" by (rule power_increasing) (use that in auto)
    finally show ?thesis using unat_u32_less[of dl] unfolding nz by simp
  qed
  have top: "2 ^ 63 \<le> ?n" if "?b = 0"
    using builtin_clz_bounds(1)[OF assms(2)] that le by simp
  show ?thesis
  proof (cases "sr + 1 = 32")
    case True
    then have "?b = 31" "?a = 0" using sr a b by auto
    then show ?thesis
      using True big lt unat_u32_less[of nl]
      by (simp only: if_True True) (intro general_32, simp_all add: numerator_bound[simplified])
  next
    case False
    then have "unat (sr + 1) \<noteq> 32" by (metis unat_numeral_32 word_eq_unatI)
    moreover have "unat d \<le> 2 ^ 63 \<or> unat (sr + 1) \<le> 1 \<and> 2 ^ 63 \<le> ?n"
      using big top sr by (cases "?b = 0") simp_all
    ultimately show ?thesis
      unfolding if_not_P[OF False]
      by (intro general_short numerator_bound lt) (use sr b in auto)
  qed
qed

lemma clz_not_pow2:
  assumes "x AND (x - 1) \<noteq> (0 :: u32)"
  shows "builtin_clz x < 31"
proof -
  have nz: "x \<noteq> 0" using assms by auto
  have "builtin_clz x \<noteq> 31"
  proof
    assume "builtin_clz x = 31"
    then have "unat x < 2" using builtin_clz_bounds(2)[OF nz] by simp
    then have "unat x = unat (1 :: u32)" using nz by (simp add: less_2_cases_iff unat_eq_0)
    then have "x = 1" by (rule word_eq_unatI)
    with assms show False by simp
  qed
  then show ?thesis using builtin_clz_props(1)[OF nz] by simp
qed

lemma general_lo:
  fixes nh nl dl :: u32
  defines "sr \<equiv> 1 + 32 + of_nat (builtin_clz dl) - of_nat (builtin_clz nh) :: u32"
  assumes "nh \<noteq> 0" "dl \<noteq> 0" and nz: "unat d = unat dl" and np: "dl AND (dl - 1) \<noteq> 0"
  shows "(if sr = 32 then udivmod_general d sr (divst0 nl 0 0 nh)
     else if sr < 32 then udivmod_general d sr
      (divst0 (push_bit (32 - unat sr) nl) 0 (drop_bit (unat sr) nh)
              (push_bit (32 - unat sr) nh OR drop_bit (unat sr) nl))
     else udivmod_general d sr
      (divst0 (push_bit (64 - unat sr) nh OR drop_bit (unat sr - 32) nl) (push_bit (64 - unat sr) nl)
              0 (drop_bit (unat sr - 32) nh))) =
    divmod_of (unat nh * 2 ^ 32 + unat nl) (unat d)"
proof -
  let ?a = "builtin_clz nh" and ?b = "builtin_clz dl" and ?n = "unat nh * 2 ^ 32 + unat nl"
  have a: "?a < 32" and b: "?b < 32" using assms builtin_clz_props(1) by auto
  have "unat (1 + 32 + of_nat ?b :: u32) = 33 + ?b" using b
    by (subst unat_add_no_wrap) (simp_all add: unat_of_nat)
  moreover have "unat (of_nat ?a :: u32) = ?a" using a by (simp add: unat_of_nat)
  ultimately have sr: "unat sr = 33 + ?b - ?a"
    unfolding sr_def using a by (subst unat_sub_no_wrap) (simp_all add: word_le_nat_alt)
  have lt: "?n div 2 ^ unat sr < unat d"
    unfolding sr nz by (rule clz_shift_lo) (use assms in auto)
  have small: "unat d \<le> 2 ^ 63" using unat_u32_less[of dl] unfolding nz by simp
  show ?thesis
  proof (cases "sr = 32")
    case True
    then have "unat nh < unat d" using lt unat_u32_less[of nl] by simp
    then show ?thesis unfolding if_P[OF True] by (intro general_32 numerator_bound True small)
  next
    case False
    then have ne: "unat sr \<noteq> 32" by (metis unat_numeral_32 word_eq_unatI)
    show ?thesis
    proof (cases "sr < 32")
      case True
      then have "unat sr < 32" by (simp add: word_less_nat_alt)
      then show ?thesis unfolding if_not_P[OF False] if_P[OF True]
        using sr a small by (intro general_short numerator_bound lt) auto
    next
      case False': False
      then have "32 < unat sr" using ne by (simp add: word_less_nat_alt)
      moreover have "unat sr < 64"
        using sr clz_not_pow2[OF np] by simp
      ultimately show ?thesis unfolding if_not_P[OF False] if_not_P[OF False']
        by (intro general_long numerator_bound lt small)
    qed
  qed
qed

text \<open>The branches without a loop.\<close>

lemma divmod_small:
  fixes nl dl :: u32
  shows "(ucast (nl div dl), ucast (nl mod dl)) = divmod_of (unat nl) (unat dl)"
  by (rule divmod_ofI) (simp_all add: unat_ucast_up unat_div_distrib unat_mod_distrib)

lemma divmod_high_only:
  fixes nh dh :: u32
  shows "(ucast (nh div dh), udwords_all (nh mod dh) 0) = divmod_of (unat nh * 2 ^ 32) (unat dh * 2 ^ 32)"
  by (rule divmod_ofI) (simp_all add: unat_ucast_up unat_div_distrib unat_mod_distrib unat_udwords_all mod_mult_mult2 mult_mod_right mult.commute)

lemma divmod_pow2_high:
  fixes nh nl dh :: u32
  assumes "dh \<noteq> 0" "dh AND (dh - 1) = 0"
  shows "(ucast (drop_bit (builtin_ctz dh) nh), udwords_all (nh AND (dh - 1)) nl) =
    divmod_of (unat nh * 2 ^ 32 + unat nl) (unat dh * 2 ^ 32)"
proof -
  let ?k = "builtin_ctz dh"
  have dh: "unat dh = 2 ^ ?k" by (rule pow2_test) (use assms in auto)
  have k: "?k < 32" by (rule builtin_ctz_props(1)[OF assms(1)])
  have m: "unat (nh AND (dh - 1)) = unat nh mod 2 ^ ?k"
    by (rule unat_and_pred_pow2) (use dh k in auto)
  let ?n = "unat nh * 2 ^ 32 + unat nl"
  have hi: "?n div 2 ^ 32 = unat nh" "?n mod 2 ^ 32 = unat nl" using unat_u32_less[of nl] by simp_all
  have "?n div (2 ^ 32 * 2 ^ ?k) = unat nh div 2 ^ ?k" unfolding div_mult2_eq hi ..
  moreover have "?n mod (2 ^ 32 * 2 ^ ?k) = 2 ^ 32 * (unat nh mod 2 ^ ?k) + unat nl"
    unfolding mod_mult2_eq hi ..
  ultimately show ?thesis
    unfolding dh by (intro divmod_ofI) (simp_all add: unat_ucast_up unat_drop_bit unat_udwords_all m mult.commute)
qed

lemma divmod_pow2_low:
  fixes nh nl dl :: u32
  assumes "dl \<noteq> 0" "dl AND (dl - 1) = 0" "dl \<noteq> 1"
  defines "k \<equiv> builtin_ctz dl"
  shows "(udwords_all (drop_bit k nh) (push_bit (32 - k) nh OR drop_bit k nl), ucast (nl AND (dl - 1))) =
    divmod_of (unat nh * 2 ^ 32 + unat nl) (unat dl)"
proof -
  have dl: "unat dl = 2 ^ k" unfolding k_def by (rule pow2_test) (use assms in auto)
  have k: "k < 32" unfolding k_def by (rule builtin_ctz_props(1)[OF assms(1)])
  have k0: "0 < k" using dl assms(3) word_eq_unatI[of dl 1] by (cases k) auto
  have m: "unat (nl AND (dl - 1)) = unat nl mod 2 ^ k"
    by (rule unat_and_pred_pow2) (use dl k in auto)
  have "unat (udwords_all (drop_bit k nh) (push_bit (32 - k) nh OR drop_bit k nl)) =
      (unat nh * 2 ^ 32 + unat nl) div 2 ^ k"
    using init_short(2)[OF k0 k, of nl nh] by (simp add: divst0_def)
  moreover have "(unat nh * 2 ^ 32 + unat nl) mod 2 ^ k = unat nl mod 2 ^ k"
    using k by (intro shift_low_word unat_u32_less) simp
  ultimately show ?thesis
    unfolding dl by (intro divmod_ofI) (simp_all add: unat_ucast_up m)
qed

text \<open>The shift count of the two-word cases, and its test.\<close>

lemma clz_difference:
  fixes nh dh nl dl :: u32
  defines "sr \<equiv> of_nat (builtin_clz dh) - of_nat (builtin_clz nh) :: u32"
  assumes "nh \<noteq> 0" "dh \<noteq> 0"
  shows "\<not> 31 < sr \<Longrightarrow> builtin_clz nh \<le> builtin_clz dh"
    and "31 < sr \<Longrightarrow> unat nh * 2 ^ 32 + unat nl < unat dh * 2 ^ 32 + unat dl"
    and "dh AND (dh - 1) \<noteq> 0 \<Longrightarrow> 30 < sr \<longleftrightarrow> 31 < sr"
    and "dh AND (dh - 1) \<noteq> 0 \<Longrightarrow> \<not> 31 < sr \<Longrightarrow> sr + 1 \<noteq> 32"
proof -
  have a: "builtin_clz nh < 32" and b: "builtin_clz dh < 32" using assms builtin_clz_props(1) by auto
  note sr = sr_value[OF b a, folded sr_def]
  show "\<not> 31 < sr \<Longrightarrow> builtin_clz nh \<le> builtin_clz dh"
    using sr a by (auto simp: word_less_nat_alt split: if_splits)
  show "unat nh * 2 ^ 32 + unat nl < unat dh * 2 ^ 32 + unat dl" if "31 < sr"
    using sr b that by (intro clz_smaller assms) (auto simp: word_less_nat_alt split: if_splits)
  assume np: "dh AND (dh - 1) \<noteq> 0"
  then show "30 < sr \<longleftrightarrow> 31 < sr"
    using sr a clz_not_pow2[OF np] by (auto simp: word_less_nat_alt split: if_splits)
  show "sr + 1 \<noteq> 32" if "\<not> 31 < sr"
  proof
    assume "sr + 1 = 32"
    then have "sr = 31" by (simp add: eq_diff_eq[symmetric])
    then show False using sr a clz_not_pow2[OF np] by (auto split: if_splits)
  qed
qed

lemma divmod_below: "unat a < d \<Longrightarrow> (0, a) = divmod_of (unat a) d"
  by simp

text \<open>\<open>udivmoddi4\<close> divides, whatever branch it takes.\<close>

lemma udivmoddi4_branches:
  assumes "b \<noteq> 0"
  shows "udivmoddi4 a b = Inr (divmod_of (unat a) (unat b))"
proof -
  define nh nl dh dl where w: "nh = hi32 a" "nl = lo32 a" "dh = hi32 b" "dl = lo32 b"
  have ua: "unat a = unat nh * 2 ^ 32 + unat nl" and ub: "unat b = unat dh * 2 ^ 32 + unat dl"
    unfolding w by (rule unat_split)+
  have zero: "\<not> (dh = 0 \<and> dl = 0)" using ub assms by (auto simp: unat_eq_0)
  note def = udivmoddi4_def[of a b, folded w, unfolded Let_def]
  consider (one) "nh = 0" | (low0) "nh \<noteq> 0" "dl = 0" "dh \<noteq> 0"
    | (high0) "nh \<noteq> 0" "dl \<noteq> 0" "dh = 0" | (full) "nh \<noteq> 0" "dl \<noteq> 0" "dh \<noteq> 0"
    using zero by blast
  then show ?thesis
  proof cases
    case one
    have "(0, ucast nl) = divmod_of (unat nl) (unat b)" if "dh \<noteq> 0"
    proof (rule divmod_ofI)
      have "1 * 2 ^ 32 \<le> unat dh * 2 ^ 32" using that by (intro mult_le_mono1) (simp add: unat_gt_0 Suc_le_eq)
      then have "unat nl < unat b" using unat_u32_less[of nl] unfolding ub by linarith
      then show "unat 0 = unat nl div unat b" "unat (ucast nl :: u64) = unat nl mod unat b"
        by (simp_all add: unat_ucast_up)
    qed
    then show ?thesis using one zero divmod_small[of nl dl] unfolding def by (auto simp: ua ub)
  next
    case low0
    have "unat a = unat nh * 2 ^ 32" if "nl = 0" using that ua by simp
    then show ?thesis
      using low0 divmod_high_only[of nh dh] divmod_pow2_high[of dh nh nl]
        divmod_below[of a "unat b"] clz_difference(1,3,4)[OF low0(1,3)] clz_difference(2)[OF low0(1,3), of nl dl] general_hi[OF low0(1,3) _ ub, of nl]
      unfolding def ua[symmetric] by (auto simp: ub)
  next
    case high0
    have "(a, ucast (nl AND (dl - 1))) = divmod_of (unat a) (unat b)" if "dl = 1"
      by (rule divmod_ofI) (use that high0 ub in auto)
    moreover have "unat b = unat dl" using high0 ub by simp
    ultimately show ?thesis
      using high0 divmod_pow2_low[of dl nh nl] general_lo[OF high0(1,2), of b nl]
      unfolding def ua[symmetric] by auto
  next
    case full
    then show ?thesis
      using divmod_below[of a "unat b"] clz_difference(1)[OF full(1,3)] clz_difference(2)[OF full(1,3), of nl dl] general_hi[OF full(1,3) _ ub, of nl]
      unfolding def ua[symmetric] ub[symmetric] by auto
  qed
qed

lemma udivmoddi4_correct:
  assumes "b \<noteq> 0"
  shows "udivmoddi4 a b = Inr (a div b, a mod b)"
proof -
  have "divmod_of (unat a) (unat b) = (a div b, a mod b)"
    by (rule divmod_ofI[symmetric]) (simp_all add: unat_div_distrib unat_mod_distrib)
  then show ?thesis unfolding udivmoddi4_branches[OF assms] by (simp only:)
qed

lemma udivmoddi4_zero: "\<exists>msg. udivmoddi4 a 0 = Inl (Undefined msg)"
  by (simp add: udivmoddi4_def hi32_def lo32_def Let_def)

section \<open>What the signed routines need of a divider\<close>

text \<open>The idiom \<open>(x ^ s) - s\<close> with \<open>s\<close> the sign mask negates under the mask.\<close>

lemma sign_mask_sint: "signed_drop_bit 63 (w :: u64) = (if sint w < 0 then - 1 else 0)"
proof -
  have "signed_drop_bit 63 w = (if bit w 63 then - 1 else 0)"
    by (rule bit_word_eqI) (auto simp: bit_signed_drop_bit_iff Suc_le_eq)
  then show ?thesis using msb_sint[of w] by simp
qed

lemma xor_sub_mask: "(x XOR (if c then - 1 else 0)) - (if c then - 1 else 0) = (if c then - x else (x :: u64))"
  by (cases c) (simp_all add: not_eq_complement)

lemma mag_idiom: "(x XOR signed_drop_bit 63 x) - signed_drop_bit 63 x = word_mag (x :: u64)"
  unfolding sign_mask_sint word_mag_def by (rule xor_sub_mask)

locale udivmod =
  fixes udm :: divider
  assumes udm_div: "b \<noteq> 0 \<Longrightarrow> udm a b = Inr (a div b, a mod b)"
    and udm_zero: "\<exists>msg. udm a 0 = Inl (Undefined msg)"
begin

lemma divdi3_with_correct:
  assumes "b \<noteq> 0"
  shows "divdi3_with udm a b = Inr (word_of_int (sint a sdiv sint b))"
proof -
  have nz: "word_mag b \<noteq> 0" using assms by (auto simp: word_mag_def)
  let ?q = "word_mag a div word_mag b"
  have "uint ?q = \<bar>sint a\<bar> div \<bar>sint b\<bar>" by (simp add: uint_div_distrib uint_word_mag)
  then have q: "?q = word_of_int (\<bar>sint a\<bar> div \<bar>sint b\<bar>)" by (metis word_of_int_uint)
  have s: "signed_drop_bit 63 a XOR signed_drop_bit 63 b = (if (sint a < 0) \<noteq> (sint b < 0) then - 1 else 0)"
    unfolding sign_mask_sint by auto
  have "divdi3_with udm a b = Inr (if (sint a < 0) \<noteq> (sint b < 0) then - ?q else ?q)"
    unfolding divdi3_with_def Let_def mag_idiom s udm_div[OF nz] bind_res_Inr prod.case xor_sub_mask ..
  also have "(if (sint a < 0) \<noteq> (sint b < 0) then - ?q else ?q) = word_of_int (sint a sdiv sint b)"
    unfolding q signed_divide_int_def by (auto simp: sgn_if)
  finally show ?thesis .
qed

lemma moddi3_with_correct:
  assumes "b \<noteq> 0"
  shows "moddi3_with udm a b = Inr (word_of_int (sint a smod sint b))"
proof -
  have nz: "word_mag b \<noteq> 0" using assms by (auto simp: word_mag_def)
  let ?r = "word_mag a mod word_mag b"
  have "uint ?r = \<bar>sint a\<bar> mod \<bar>sint b\<bar>" by (simp add: uint_mod_distrib uint_word_mag)
  then have r: "?r = word_of_int (\<bar>sint a\<bar> mod \<bar>sint b\<bar>)" by (metis word_of_int_uint)
  have "moddi3_with udm a b = Inr (if sint a < 0 then - ?r else ?r)"
    unfolding moddi3_with_def Let_def mag_idiom udm_div[OF nz] bind_res_Inr prod.case
    unfolding sign_mask_sint xor_sub_mask ..
  also have "(if sint a < 0 then - ?r else ?r) = word_of_int (sint a smod sint b)"
    unfolding r signed_modulo_int_def by (auto simp: sgn_if)
  finally show ?thesis .
qed

lemma signed_by_zero:
  "\<exists>msg. divdi3_with udm a 0 = Inl (Undefined msg)" "\<exists>msg. moddi3_with udm a 0 = Inl (Undefined msg)"
  using udm_zero by (auto simp: divdi3_with_def moddi3_with_def Let_def bind_res_eq_Inl)

end

interpretation klib_div: udivmod udivmoddi4
  by unfold_locales (rule udivmoddi4_correct udivmoddi4_zero, assumption?)+

section \<open>Properties\<close>

text \<open>C38: the 64-bit divider returns quotient and remainder for every pair of operands, through
  whichever of its special cases or its shift-and-subtract loop, and fails only on a zero divisor.\<close>

theorem udivmoddi4_divides:
  "udivmoddi4 a b = (if b = 0 then Inl (Undefined ''division by zero'') else Inr (a div b, a mod b))"
proof (cases "b = 0")
  case True
  have "hi32 0 = 0" "lo32 0 = 0" by (simp_all add: hi32_def lo32_def)
  then show ?thesis using True by (simp add: udivmoddi4_def Let_def)
qed (use klib_div.udm_div in simp)

text \<open>Signed division and remainder truncate towards zero, as C requires, for every nonzero
  divisor; \<open>divmoddi4\<close> returns both.\<close>

theorem divmoddi4_truncates:
  assumes "b \<noteq> 0"
  shows "divdi3 a b = Inr (word_of_int (sint a sdiv sint b)) \<and>
    moddi3 a b = Inr (word_of_int (sint a smod sint b)) \<and>
    divmoddi4 a b = Inr (word_of_int (sint a sdiv sint b), word_of_int (sint a smod sint b))"
proof -
  have d: "divdi3 a b = Inr (word_of_int (sint a sdiv sint b))"
    unfolding divdi3_def by (rule klib_div.divdi3_with_correct[OF assms])
  have m: "moddi3 a b = Inr (word_of_int (sint a smod sint b))"
    unfolding moddi3_def by (rule klib_div.moddi3_with_correct[OF assms])
  have "a - word_of_int (sint a sdiv sint b) * b = word_of_int (sint a - sint a sdiv sint b * sint b)"
    by simp
  also have "sint a - sint a sdiv sint b * sint b = sint a smod sint b"
    by (rule minus_sdiv_mult_eq_smod)
  finally show ?thesis using m unfolding divmoddi4_def d by simp
qed

theorem divmoddi4_truncates_witness:
  "divdi3 (- 7) 2 = Inr (- 3) \<and> moddi3 (- 7) 2 = Inr (- 1) \<and> divmoddi4 (- 7) 2 = Inr (- 3, - 1 :: u64)"
proof -
  have "sint (- 7 :: u64) sdiv sint (2 :: u64) = - 3" "sint (- 7 :: u64) smod sint (2 :: u64) = - 1"
    by (simp_all add: signed_divide_int_def signed_modulo_int_def sgn_if)
  then show ?thesis using divmoddi4_truncates[of "2 :: u64" "- 7"] by simp
qed

end
