(* ===== verification/Klib_String.thy ===== *)
theory Klib_String
  imports Prelude "HOL-Library.List_Lexorder"
begin

text \<open>
  The string and memory routines of the AM C library (\<open>abstract-machine/klib/src/string.c\<close>).

  The memory is one list of bytes and a pointer is an index into it, so that two pointers may
  alias and a routine may overwrite what it is still to read.  An access outside the list is
  undefined behaviour.  Every loop is a recursive function; a loop that looks for the terminating
  NUL ends because its pointer moves towards the end of the memory.
\<close>

type_synonym memory = "u8 list"

section \<open>Loads and stores\<close>

definition load8 :: "memory \<Rightarrow> nat \<Rightarrow> u8 res" where
  "load8 m p = (if p < length m then Inr (m ! p) else Inl (Undefined ''load out of bounds''))"

definition store8 :: "memory \<Rightarrow> nat \<Rightarrow> u8 \<Rightarrow> memory res" where
  "store8 m p b = (if p < length m then Inr (m[p := b]) else Inl (Undefined ''store out of bounds''))"

lemma load8_eq_Inr [res_simps]: "load8 m p = Inr b \<longleftrightarrow> p < length m \<and> b = m ! p"
  by (auto simp: load8_def)

lemma store8_eq_Inr [res_simps]: "store8 m p b = Inr m' \<longleftrightarrow> p < length m \<and> m' = m[p := b]"
  by (auto simp: store8_def)

lemma load8_ok [simp]: "p < length m \<Longrightarrow> load8 m p = Inr (m ! p)"
  by (simp add: load8_def)

lemma store8_ok [simp]: "p < length m \<Longrightarrow> store8 m p b = Inr (m[p := b])"
  by (simp add: store8_def)

section \<open>The routines\<close>

function strlen_loop :: "memory \<Rightarrow> nat \<Rightarrow> nat res" where
  "strlen_loop m p = bind_res (load8 m p) (\<lambda>b. if b = 0 then Inr p else strlen_loop m (p + 1))"
  by pat_completeness auto
termination
  by (relation "measure (\<lambda>(m, p). length m - p)") (auto simp: res_simps)

definition strlen :: "memory \<Rightarrow> nat \<Rightarrow> nat res" where
  "strlen m s = bind_res (strlen_loop m s) (\<lambda>p. Inr (p - s))"

text \<open>The loop \<open>while ((*dst++ = *src++) != '\0');\<close> of \<open>strcpy\<close> and \<open>strcat\<close>.\<close>

function copy_loop :: "memory \<Rightarrow> nat \<Rightarrow> nat \<Rightarrow> memory res" where
  "copy_loop m dst src = bind_res (load8 m src) (\<lambda>b. bind_res (store8 m dst b) (\<lambda>m'.
     if b = 0 then Inr m' else copy_loop m' (dst + 1) (src + 1)))"
  by pat_completeness auto
termination
  by (relation "measure (\<lambda>(m, _, src). length m - src)") (auto simp: res_simps)

definition strcpy :: "memory \<Rightarrow> nat \<Rightarrow> nat \<Rightarrow> memory res" where
  "strcpy m dst src = copy_loop m dst src"

fun strncpy_fill :: "memory \<Rightarrow> nat \<Rightarrow> nat \<Rightarrow> nat \<Rightarrow> memory res" where
  "strncpy_fill m dst i 0 = Inr m"
| "strncpy_fill m dst i (Suc k) = bind_res (store8 m (dst + i) 0) (\<lambda>m'. strncpy_fill m' dst (i + 1) k)"

text \<open>The last argument counts \<open>n - i\<close>.\<close>

fun strncpy_loop :: "memory \<Rightarrow> nat \<Rightarrow> nat \<Rightarrow> nat \<Rightarrow> nat \<Rightarrow> memory res" where
  "strncpy_loop m dst src i 0 = Inr m"
| "strncpy_loop m dst src i (Suc k) = bind_res (load8 m (src + i)) (\<lambda>b.
     if b \<noteq> 0 then bind_res (store8 m (dst + i) b) (\<lambda>m'. strncpy_loop m' dst src (i + 1) k)
     else strncpy_fill m dst i (Suc k))"

definition strncpy :: "memory \<Rightarrow> nat \<Rightarrow> nat \<Rightarrow> nat \<Rightarrow> memory res" where
  "strncpy m dst src n = strncpy_loop m dst src 0 n"

definition strcat :: "memory \<Rightarrow> nat \<Rightarrow> nat \<Rightarrow> memory res" where
  "strcat m dst src = bind_res (strlen_loop m dst) (\<lambda>d. copy_loop m d src)"

function strcmp :: "memory \<Rightarrow> nat \<Rightarrow> nat \<Rightarrow> int res" where
  "strcmp m s1 s2 = bind_res (load8 m s1) (\<lambda>a.
     if a \<noteq> 0 then
       bind_res (load8 m s2) (\<lambda>b. if a = b then strcmp m (s1 + 1) (s2 + 1) else Inr (uint a - uint b))
     else bind_res (load8 m s2) (\<lambda>b. Inr (uint a - uint b)))"
  by pat_completeness auto
termination
  by (relation "measure (\<lambda>(m, s1, _). length m - s1)") (auto simp: res_simps)

fun strncmp_loop :: "memory \<Rightarrow> nat \<Rightarrow> nat \<Rightarrow> nat \<Rightarrow> int res" where
  "strncmp_loop m s1 s2 0 = Inr 0"
| "strncmp_loop m s1 s2 (Suc k) = bind_res (load8 m s1) (\<lambda>a.
     if a \<noteq> 0 then
       bind_res (load8 m s2) (\<lambda>b. if a = b then strncmp_loop m (s1 + 1) (s2 + 1) k else Inr (uint a - uint b))
     else bind_res (load8 m s2) (\<lambda>b. Inr (uint a - uint b)))"

definition strncmp :: "memory \<Rightarrow> nat \<Rightarrow> nat \<Rightarrow> nat \<Rightarrow> int res" where
  "strncmp m s1 s2 n = (if n = 0 then Inr 0 else strncmp_loop m s1 s2 n)"

fun memset_loop :: "memory \<Rightarrow> nat \<Rightarrow> u8 \<Rightarrow> nat \<Rightarrow> nat \<Rightarrow> memory res" where
  "memset_loop m s uc i 0 = Inr m"
| "memset_loop m s uc i (Suc k) = bind_res (store8 m (s + i) uc) (\<lambda>m'. memset_loop m' s uc (i + 1) k)"

definition memset :: "memory \<Rightarrow> nat \<Rightarrow> u32 \<Rightarrow> nat \<Rightarrow> memory res" where
  "memset m s c n = memset_loop m s (ucast c) 0 n"

text \<open>The forward loop of \<open>memcpy\<close> and \<open>memmove\<close>; the last argument counts \<open>n - i\<close>.\<close>

fun copy_forward :: "memory \<Rightarrow> nat \<Rightarrow> nat \<Rightarrow> nat \<Rightarrow> nat \<Rightarrow> memory res" where
  "copy_forward m d s i 0 = Inr m"
| "copy_forward m d s i (Suc k) = bind_res (load8 m (s + i)) (\<lambda>b.
     bind_res (store8 m (d + i) b) (\<lambda>m'. copy_forward m' d s (i + 1) k))"

text \<open>The backward loop; the last argument is \<open>i\<close>.\<close>

fun copy_backward :: "memory \<Rightarrow> nat \<Rightarrow> nat \<Rightarrow> nat \<Rightarrow> memory res" where
  "copy_backward m d s 0 = Inr m"
| "copy_backward m d s (Suc i) = bind_res (load8 m (s + i)) (\<lambda>b.
     bind_res (store8 m (d + i) b) (\<lambda>m'. copy_backward m' d s i))"

definition memmove :: "memory \<Rightarrow> nat \<Rightarrow> nat \<Rightarrow> nat \<Rightarrow> memory res" where
  "memmove m d s n =
     (if d = s \<or> n = 0 then Inr m
      else if d < s then copy_forward m d s 0 n
      else copy_backward m d s n)"

definition memcpy :: "memory \<Rightarrow> nat \<Rightarrow> nat \<Rightarrow> nat \<Rightarrow> memory res" where
  "memcpy m d s n = copy_forward m d s 0 n"

text \<open>
  \<open>memcmp\<close> compares plain \<open>char\<close>s; whether those are signed is implementation-defined and a
  parameter here.
\<close>

definition char_int :: "bool \<Rightarrow> u8 \<Rightarrow> int" where
  "char_int char_signed b = (if char_signed then sint b else uint b)"

fun memcmp_loop :: "bool \<Rightarrow> memory \<Rightarrow> nat \<Rightarrow> nat \<Rightarrow> nat \<Rightarrow> nat \<Rightarrow> int res" where
  "memcmp_loop cs m a b i 0 = Inr 0"
| "memcmp_loop cs m a b i (Suc k) = bind_res (load8 m (a + i)) (\<lambda>x. bind_res (load8 m (b + i)) (\<lambda>y.
     if x \<noteq> y then Inr (char_int cs x - char_int cs y) else memcmp_loop cs m a b (i + 1) k))"

definition memcmp :: "bool \<Rightarrow> memory \<Rightarrow> nat \<Rightarrow> nat \<Rightarrow> nat \<Rightarrow> int res" where
  "memcmp cs m a b n = memcmp_loop cs m a b 0 n"

declare strlen_loop.simps [simp del] copy_loop.simps [simp del] strcmp.simps [simp del]

section \<open>Strings and blocks in memory\<close>

text \<open>The bytes \<open>[p, p + n)\<close>, and the memory with the bytes from \<open>p\<close> on replaced.\<close>

definition block :: "memory \<Rightarrow> nat \<Rightarrow> nat \<Rightarrow> u8 list" where
  "block m p n = take n (drop p m)"

definition blit :: "memory \<Rightarrow> nat \<Rightarrow> u8 list \<Rightarrow> memory" where
  "blit m p bs = take p m @ bs @ drop (p + length bs) m"

text \<open>At \<open>p\<close> stands the NUL-terminated string \<open>cs\<close>.\<close>

definition string_at :: "memory \<Rightarrow> nat \<Rightarrow> u8 list \<Rightarrow> bool" where
  "string_at m p cs \<longleftrightarrow> 0 \<notin> set cs \<and> p + length cs < length m \<and> block m p (Suc (length cs)) = cs @ [0]"

lemma length_block [simp]: "p + n \<le> length m \<Longrightarrow> length (block m p n) = n"
  by (simp add: block_def)

lemma nth_block: "p + n \<le> length m \<Longrightarrow> i < n \<Longrightarrow> block m p n ! i = m ! (p + i)"
  by (simp add: block_def)

lemma block_0 [simp]: "block m p 0 = []"
  by (simp add: block_def)

lemma block_Suc: "p < length m \<Longrightarrow> block m p (Suc n) = m ! p # block m (Suc p) n"
  by (simp add: block_def Cons_nth_drop_Suc[symmetric])

lemma length_blit [simp]: "p + length bs \<le> length m \<Longrightarrow> length (blit m p bs) = length m"
  by (simp add: blit_def)

lemma nth_blit:
  "p + length bs \<le> length m \<Longrightarrow> i < length m \<Longrightarrow>
   blit m p bs ! i = (if p \<le> i \<and> i < p + length bs then bs ! (i - p) else m ! i)"
  by (auto simp: blit_def nth_append)

lemma blit_Nil [simp]: "blit m p [] = m"
  by (simp add: blit_def)

lemma blit_Cons: "p < length m \<Longrightarrow> blit m p (b # bs) = blit (m[p := b]) (Suc p) bs"
  by (simp add: blit_def take_Suc_conv_app_nth drop_update_cancel take_update_cancel upd_conv_take_nth_drop add.commute)

lemma block_blit_same: "p + length bs \<le> length m \<Longrightarrow> block (blit m p bs) p (length bs) = bs"
  by (intro nth_equalityI) (auto simp: nth_block nth_blit)

lemma block_blit_other:
  "p + length bs \<le> length m \<Longrightarrow> q + n \<le> p \<or> p + length bs \<le> q \<Longrightarrow> q + n \<le> length m \<Longrightarrow>
   block (blit m p bs) q n = block m q n"
  by (intro nth_equalityI) (auto simp: nth_block nth_blit)

lemma block_update_other: "p < q \<or> q + n \<le> p \<Longrightarrow> block (m[p := b]) q n = block m q n"
  by (auto simp: block_def drop_update_swap)

lemma string_at_Nil [simp]: "string_at m p [] \<longleftrightarrow> p < length m \<and> m ! p = 0"
  by (auto simp: string_at_def block_Suc)

lemma string_at_Cons [simp]:
  "string_at m p (c # cs) \<longleftrightarrow> p < length m \<and> m ! p = c \<and> c \<noteq> 0 \<and> string_at m (Suc p) cs"
  by (auto simp: string_at_def block_Suc)

lemma string_at_unique: "string_at m p cs \<Longrightarrow> string_at m p ds \<Longrightarrow> cs = ds"
  by (induction cs arbitrary: p ds) (case_tac ds, auto)+

lemma string_at_append:
  "string_at m p (xs @ ys) \<longleftrightarrow>
   (\<forall>i < length xs. p + i < length m \<and> m ! (p + i) = xs ! i \<and> xs ! i \<noteq> 0) \<and> string_at m (p + length xs) ys"
  by (induction xs arbitrary: p) (auto simp: nth_Cons split: nat.splits)

lemma string_at_bound: "string_at m p cs \<Longrightarrow> p + length cs < length m"
  by (simp add: string_at_def)

section \<open>Behaviour\<close>

lemma strlen_loop_string: "string_at m p cs \<Longrightarrow> strlen_loop m p = Inr (p + length cs)"
  by (induction cs arbitrary: p) (subst strlen_loop.simps, simp)+


lemma strlen_loop_Inr: "strlen_loop m p = Inr q \<Longrightarrow> \<exists>cs. string_at m p cs \<and> q = p + length cs"
proof (induction m p rule: strlen_loop.induct)
  case (1 m p)
  show ?case
  proof (cases "m ! p = 0")
    case True
    then show ?thesis using "1.prems"
      by (intro exI[of _ "[]"]) (subst (asm) strlen_loop.simps, auto simp: res_simps)
  next
    case False
    with "1.prems" have p: "p < length m" "strlen_loop m (Suc p) = Inr q"
      by (subst (asm) strlen_loop.simps, auto simp: res_simps)+
    then obtain cs where "string_at m (Suc p) cs" "q = Suc p + length cs"
      using "1.IH"[of "m ! p"] False by auto
    then show ?thesis using False p by (intro exI[of _ "m ! p # cs"]) auto
  qed
qed

lemma string_at_update:
  "string_at m p cs \<Longrightarrow> i < p \<or> p + length cs < i \<Longrightarrow> string_at (m[i := b]) p cs"
  by (induction cs arbitrary: p) (auto simp: nth_list_update)

text \<open>A copy is right when the destination starts at or before the source, or behind its end.\<close>

lemma copy_loop_string:
  assumes "string_at m src cs" and "dst + length cs < length m" and "dst \<le> src \<or> src + length cs < dst"
  shows "copy_loop m dst src = Inr (blit m dst (cs @ [0]))"
  using assms
proof (induction cs arbitrary: m dst src)
  case Nil
  then show ?case by (subst copy_loop.simps) (simp add: blit_Cons)
next
  case (Cons c cs)
  have "copy_loop (m[dst := c]) (Suc dst) (Suc src) = Inr (blit (m[dst := c]) (Suc dst) (cs @ [0]))"
    using Cons.prems by (intro Cons.IH) (auto intro!: string_at_update)
  then show ?case using Cons.prems by (subst copy_loop.simps) (simp add: blit_Cons)
qed

lemma string_at_blit: "p + length cs < length m \<Longrightarrow> 0 \<notin> set cs \<Longrightarrow> string_at (blit m p (cs @ [0])) p cs"
  using block_blit_same[of p "cs @ [0]" m] by (simp add: string_at_def)

lemma string_at_blit_other:
  assumes "string_at m q ds" "p + length bs \<le> length m" "q + length ds < p \<or> p + length bs \<le> q"
  shows "string_at (blit m p bs) q ds"
  using assms block_blit_other[of p bs m q "Suc (length ds)"] by (auto simp: string_at_def)

lemma strncpy_fill_blit:
  "dst + i + k \<le> length m \<Longrightarrow> strncpy_fill m dst i k = Inr (blit m (dst + i) (replicate k 0))"
  by (induction k arbitrary: m i) (auto simp: blit_Cons)

lemma strncpy_loop_string:
  assumes "string_at m (src + i) cs" and "dst + i + k \<le> length m" and "dst \<le> src \<or> src + i + length cs < dst"
  shows "strncpy_loop m dst src i k = Inr (blit m (dst + i) (take k cs @ replicate (k - length cs) 0))"
  using assms
proof (induction k arbitrary: m i cs)
  case (Suc k)
  show ?case
  proof (cases cs)
    case Nil
    then show ?thesis using Suc.prems strncpy_fill_blit[of dst i "Suc k" m] by (simp del: strncpy_fill.simps)
  next
    case (Cons c cs')
    have "strncpy_loop (m[dst + i := c]) dst src (Suc i) k =
        Inr (blit (m[dst + i := c]) (Suc (dst + i)) (take k cs' @ replicate (k - length cs') 0))"
      using Suc.prems Cons by (subst Suc.IH[where i = "Suc i" and cs = cs']) (auto intro!: string_at_update)
    then show ?thesis using Suc.prems Cons by (simp add: blit_Cons)
  qed
qed simp

lemma memset_loop_blit: "s + i + k \<le> length m \<Longrightarrow> memset_loop m s uc i k = Inr (blit m (s + i) (replicate k uc))"
  by (induction k arbitrary: m i) (auto simp: blit_Cons)

lemma copy_forward_blit:
  assumes "d \<le> s \<or> s + i + k \<le> d + i" and "s + i + k \<le> length m" and "d + i + k \<le> length m"
  shows "copy_forward m d s i k = Inr (blit m (d + i) (block m (s + i) k))"
  using assms
proof (induction k arbitrary: m i)
  case (Suc k)
  let ?m = "m[d + i := m ! (s + i)]"
  have "copy_forward ?m d s (Suc i) k = Inr (blit ?m (d + Suc i) (block ?m (s + Suc i) k))"
    using Suc.prems by (intro Suc.IH) auto
  moreover have "block ?m (s + Suc i) k = block m (s + Suc i) k"
    using Suc.prems by (intro block_update_other) auto
  ultimately show ?case using Suc.prems by (simp add: blit_Cons block_Suc)
qed simp

lemma block_snoc: "p + n < length m \<Longrightarrow> block m p (Suc n) = block m p n @ [m ! (p + n)]"
  by (simp add: block_def take_Suc_conv_app_nth)

lemma blit_snoc:
  "p + length bs < length m \<Longrightarrow> blit m p (bs @ [b]) = blit (m[p + length bs := b]) p bs"
  by (intro nth_equalityI) (auto simp: nth_blit nth_append nth_list_update)

lemma copy_backward_blit:
  assumes "s \<le> d" and "s + i \<le> length m" and "d + i \<le> length m"
  shows "copy_backward m d s i = Inr (blit m d (block m s i))"
  using assms
proof (induction i arbitrary: m)
  case (Suc i)
  let ?m = "m[d + i := m ! (s + i)]"
  have "copy_backward ?m d s i = Inr (blit ?m d (block ?m s i))"
    using Suc.prems by (intro Suc.IH) auto
  moreover have "block ?m s i = block m s i"
    using Suc.prems by (intro block_update_other) auto
  ultimately show ?case using Suc.prems by (simp add: block_snoc blit_snoc)
qed simp

lemma word_diff_sign: "uint (a :: u8) - uint b < 0 \<longleftrightarrow> a < b" "uint (a :: u8) - uint b = 0 \<longleftrightarrow> a = b"
  by (auto simp: word_less_def word_uint_eq_iff)

lemma strcmp_string:
  assumes "string_at m p cs" and "string_at m q ds"
  shows "\<exists>r. strcmp m p q = Inr r \<and> (r = 0 \<longleftrightarrow> cs = ds) \<and> (r < 0 \<longleftrightarrow> cs < ds)"
  using assms
proof (induction cs arbitrary: p q ds)
  case Nil
  then show ?case using word_diff_sign[of 0 "hd ds"] by (subst strcmp.simps) (cases ds, auto simp: word_greater_zero_iff)
next
  case (Cons c cs)
  then show ?case using word_diff_sign[of c 0] word_diff_sign[of c "hd ds"] not_less[of 0 c]
    by (subst strcmp.simps) (cases ds, auto simp: word_greater_zero_iff)
qed

lemma sint_word_eqD: "sint x = sint y \<Longrightarrow> x = (y :: 'a::len word)"
  by (rule signed_word_eqI)

lemma memcmp_loop_zero:
  assumes "a + i + k \<le> length m" and "b + i + k \<le> length m"
  shows "\<exists>r. memcmp_loop cs m a b i k = Inr r \<and> (r = 0 \<longleftrightarrow> block m (a + i) k = block m (b + i) k)"
  using assms
proof (induction k arbitrary: i)
  case (Suc k)
  have ne: "char_int cs x - char_int cs y \<noteq> 0" if "x \<noteq> y" for x y :: u8
    using that by (auto simp: char_int_def word_uint_eq_iff dest: sint_word_eqD)
  show ?case using Suc.IH[of "Suc i"] Suc.prems ne by (auto simp: block_Suc)
qed simp

section \<open>Properties\<close>

text \<open>C39: \<open>memmove\<close> copies the bytes the source block held before the call, however the two blocks
  overlap, and changes nothing else.\<close>

theorem memmove_correct:
  assumes "s + n \<le> length m" and "d + n \<le> length m"
  shows "memmove m d s n = Inr (blit m d (block m s n))"
proof -
  have "blit m d (block m d n) = m"
    using assms by (intro nth_equalityI) (auto simp: nth_blit nth_block)
  then show ?thesis
    using assms copy_forward_blit[of d s 0 n m] copy_backward_blit[of s d n m]
    by (auto simp: memmove_def)
qed

theorem memmove_correct_witness:
  "memmove [1, 2, 3, 4, 5] 1 0 4 = Inr [1, 1, 2, 3, 4 :: u8]"
  using memmove_correct[of 0 4 "[1, 2, 3, 4, 5]" 1] by (simp add: blit_def block_def)

text \<open>On NUL-terminated strings \<open>strcmp\<close> returns, its result is zero exactly for equal strings
  and negative exactly when the first string comes first in the lexicographic order of unsigned
  characters.\<close>

theorem strcmp_correct:
  assumes "string_at m p cs" and "string_at m q ds"
  shows "\<exists>r. strcmp m p q = Inr r \<and> (r = 0 \<longleftrightarrow> cs = ds) \<and> (r < 0 \<longleftrightarrow> cs < ds)"
  using assms by (rule strcmp_string)

theorem strcmp_correct_witness:
  "\<exists>r. strcmp [97, 0, 97, 98, 0] 0 2 = Inr r \<and> (r = 0 \<longleftrightarrow> [97] = [97, 98 :: u8]) \<and> (r < 0 \<longleftrightarrow> [97] < [97, 98 :: u8])"
  by (rule strcmp_correct) simp_all

text \<open>\<open>strcat\<close> leaves the concatenation of the two strings at the destination, and the source
  string in place, when the room behind the destination string suffices and the written bytes do
  not overlap the source.\<close>

theorem strcat_correct:
  assumes "string_at m dst ds" and "string_at m src cs"
    and room: "dst + length ds + length cs < length m"
    and apart: "src + length cs < dst + length ds \<or> dst + length ds + length cs < src"
  shows "\<exists>m'. strcat m dst src = Inr m' \<and> string_at m' dst (ds @ cs) \<and> string_at m' src cs"
proof -
  let ?d = "dst + length ds" and ?m = "blit m (dst + length ds) (cs @ [0])"
  have "copy_loop m ?d src = Inr ?m"
    using assms by (intro copy_loop_string) auto
  moreover have "string_at ?m ?d cs"
    using assms by (intro string_at_blit) (auto simp: string_at_def)
  then have "string_at ?m dst (ds @ cs)"
    using assms(1) room unfolding string_at_append string_at_append[of m dst ds "[]", simplified]
    by (simp add: nth_blit)
  moreover have "string_at ?m src cs"
    using assms by (intro string_at_blit_other) auto
  ultimately show ?thesis using strlen_loop_string[OF assms(1)] by (simp add: strcat_def)
qed

theorem strcat_correct_witness:
  "\<exists>m'. strcat [97, 0, 7, 98, 99, 0, 7, 7] 3 0 = Inr m' \<and> string_at m' 3 ([98, 99] @ [97 :: u8]) \<and> string_at m' 0 [97]"
  by (rule strcat_correct) simp_all

text \<open> \<open>strlen\<close> returns \<open>n\<close> exactly when a NUL-terminated string of length \<open>n\<close> stands at its
  argument.\<close>

theorem strlen_iff: "strlen m s = Inr n \<longleftrightarrow> (\<exists>cs. string_at m s cs \<and> length cs = n)"
proof
  assume "strlen m s = Inr n"
  then obtain q where "strlen_loop m s = Inr q" "n = q - s" by (auto simp: strlen_def bind_res_eq_Inr)
  then show "\<exists>cs. string_at m s cs \<and> length cs = n" using strlen_loop_Inr[of m s q] by auto
next
  assume "\<exists>cs. string_at m s cs \<and> length cs = n"
  then obtain cs where "string_at m s cs" "length cs = n" by blast
  then show "strlen m s = Inr n" using strlen_loop_string[of m s cs] by (simp add: strlen_def)
qed

text \<open> \<open>strncpy\<close> writes exactly \<open>n\<close> bytes: the first \<open>n\<close> characters of the string, padded with
  NULs (so that the result is not terminated when the string has \<open>n\<close> or more characters).\<close>

theorem strncpy_correct:
  assumes "string_at m src cs" and "dst + n \<le> length m" and "dst \<le> src \<or> src + length cs < dst"
  shows "strncpy m dst src n = Inr (blit m dst (take n cs @ replicate (n - length cs) 0))"
  using assms strncpy_loop_string[of m src 0 cs dst n] by (simp add: strncpy_def)

theorem strncpy_correct_witness:
  "strncpy [97, 0, 7, 7, 7] 2 0 3 = Inr [97, 0, 97, 0, 0 :: u8]"
proof -
  have "replicate 2 0 = [0, 0 :: u8]" by (simp add: numeral_2_eq_2)
  then show ?thesis
    using strncpy_correct[of "[97, 0, 7, 7, 7]" 0 "[97]" 2 3] by (simp add: blit_def)
qed

end
