(* ===== verification/Klib_Stdlib.thy ===== *)
theory Klib_Stdlib
  imports Klib_String
begin

text \<open>
  The general utilities of the AM C library (\<open>abstract-machine/klib/src/stdlib.c\<close>) on a 32-bit
  target: the linear congruential generator, \<open>abs\<close>, \<open>atoi\<close> and the bump allocator behind
  \<open>malloc\<close>.  The static variables \<open>next\<close> and \<open>alloc_base\<close> are passed explicitly.
\<close>

section \<open>Pseudo-random numbers\<close>

definition rand_init :: u32 where
  "rand_init = 1"

definition rand :: "u32 \<Rightarrow> u32 \<times> u32" where
  "rand next = (let next = next * 1103515245 + 12345 in ((next div 65536) mod 32768, next))"

definition srand :: "u32 \<Rightarrow> u32 \<Rightarrow> u32" where
  "srand next seed = seed"

section \<open>Integer conversions\<close>

definition int_max :: int where
  "int_max = 2 ^ 31 - 1"

definition c_int :: "int \<Rightarrow> int res" where
  "c_int x = (if - int_max - 1 \<le> x \<and> x \<le> int_max then Inr x else Inl (Undefined ''signed overflow''))"

definition abs_int :: "int \<Rightarrow> int res" where
  "abs_int x = (if x < 0 then c_int (- x) else Inr x)"

function atoi_spaces :: "memory \<Rightarrow> nat \<Rightarrow> nat res" where
  "atoi_spaces m p = bind_res (load8 m p) (\<lambda>c. if c = 32 then atoi_spaces m (p + 1) else Inr p)"
  by pat_completeness auto
termination
  by (relation "measure (\<lambda>(m, p). length m - p)") (auto simp: res_simps)

text \<open>\<open>x * 10 + *nptr - '0'\<close> is evaluated from left to right on \<open>int\<close>.\<close>

function atoi_digits :: "memory \<Rightarrow> nat \<Rightarrow> int \<Rightarrow> int res" where
  "atoi_digits m p x = bind_res (load8 m p) (\<lambda>c.
     if 48 \<le> c \<and> c \<le> 57 then
       bind_res (c_int (x * 10)) (\<lambda>y. bind_res (c_int (y + uint c)) (\<lambda>y. bind_res (c_int (y - 48)) (\<lambda>x.
         atoi_digits m (p + 1) x)))
     else Inr x)"
  by pat_completeness auto
termination
  by (relation "measure (\<lambda>(m, p, _). length m - p)") (auto simp: res_simps)

definition atoi :: "memory \<Rightarrow> nat \<Rightarrow> int res" where
  "atoi m nptr = bind_res (atoi_spaces m nptr) (\<lambda>p. atoi_digits m p 0)"

declare atoi_spaces.simps [simp del] atoi_digits.simps [simp del]

section \<open>The allocator\<close>

record heap_area =
  heap_start :: u32
  heap_end :: u32

definition klib_ROUNDUP :: "u32 \<Rightarrow> u32 \<Rightarrow> u32" where
  "klib_ROUNDUP a sz = (a + sz - 1) AND NOT (sz - 1)"

definition alloc_base_init :: u32 where
  "alloc_base_init = - 1"

text \<open>\<open>malloc\<close> returns the pointer (\<open>None\<close> for NULL) and the new \<open>alloc_base\<close>.\<close>

definition malloc :: "heap_area \<Rightarrow> u32 \<Rightarrow> u32 \<Rightarrow> u32 option \<times> u32" where
  "malloc heap alloc_base sz = (let
     alloc_base = (if alloc_base = - 1 then klib_ROUNDUP (heap_start heap) 8 else alloc_base);
     sz = klib_ROUNDUP sz 8;
     new_base = alloc_base + sz
   in if new_base > heap_end heap then (None, alloc_base)
      else (Some alloc_base, new_base))"

text \<open>A sequence of calls; the blocks handed out, with the sizes asked for.\<close>

fun malloc_run :: "heap_area \<Rightarrow> u32 \<Rightarrow> u32 list \<Rightarrow> (u32 \<times> u32) list \<times> u32" where
  "malloc_run heap base [] = ([], base)"
| "malloc_run heap base (sz # szs) = (let
     (p, base') = malloc heap base sz;
     (bs, base'') = malloc_run heap base' szs
   in (case p of None \<Rightarrow> bs | Some a \<Rightarrow> (a, sz) # bs, base''))"

section \<open>Behaviour of the generator and of atoi\<close>

lemma rand_bounds: "fst (rand next) < 32768"
  by (simp add: rand_def Let_def word_mod_less_divisor)

text \<open>The number a list of decimal digits stands for.\<close>

definition digit_chars :: "u8 list \<Rightarrow> bool" where
  "digit_chars ds \<longleftrightarrow> (\<forall>d \<in> set ds. 48 \<le> d \<and> d \<le> 57)"

definition decimal :: "u8 list \<Rightarrow> int" where
  "decimal ds = foldl (\<lambda>x d. x * 10 + (uint d - 48)) 0 ds"

lemma uint_digit: "48 \<le> d \<Longrightarrow> d \<le> 57 \<Longrightarrow> 48 \<le> uint d \<and> uint (d :: u8) \<le> 57"
  by (simp add: word_le_def)

lemma foldl_decimal_mono:
  "digit_chars ds \<Longrightarrow> 0 \<le> x \<Longrightarrow> x \<le> foldl (\<lambda>x d. x * 10 + (uint d - 48)) x ds"
proof (induction ds arbitrary: x)
  case (Cons d ds)
  have "0 \<le> uint d - 48" using Cons.prems uint_digit[of d] by (simp add: digit_chars_def)
  then have "x \<le> x * 10 + (uint d - 48)" "0 \<le> x * 10 + (uint d - 48)" using Cons.prems by auto
  then show ?case using Cons.IH[of "x * 10 + (uint d - 48)"] Cons.prems by (simp add: digit_chars_def)
qed simp

lemma atoi_digits_decimal:
  assumes "digit_chars ds" and "0 \<le> x" and "foldl (\<lambda>x d. x * 10 + (uint d - 48)) x ds \<le> int_max - 57"
    and "p + length ds < length m" and "block m p (length ds) = ds"
    and "\<not> (48 \<le> m ! (p + length ds) \<and> m ! (p + length ds) \<le> 57)"
  shows "atoi_digits m p x = Inr (foldl (\<lambda>x d. x * 10 + (uint d - 48)) x ds)"
  using assms
proof (induction ds arbitrary: p x)
  case Nil
  then show ?case by (subst atoi_digits.simps) auto
next
  case (Cons d ds)
  have d: "48 \<le> d" "d \<le> 57" "48 \<le> uint d" "uint d \<le> 57"
    using Cons.prems uint_digit[of d] by (auto simp: digit_chars_def)
  let ?y = "x * 10 + (uint d - 48)"
  have b: "m ! p = d" "block m (Suc p) (length ds) = ds" using Cons.prems by (auto simp: block_Suc)
  have y: "0 \<le> ?y" "?y \<le> int_max - 57"
    using Cons.prems d foldl_decimal_mono[of ds ?y] by (auto simp: digit_chars_def)
  have "atoi_digits m (p + 1) ?y = Inr (foldl (\<lambda>x d. x * 10 + (uint d - 48)) ?y ds)"
    using Cons.prems b y by (intro Cons.IH) (auto simp: digit_chars_def)
  moreover have "c_int (x * 10) = Inr (x * 10)" "c_int (x * 10 + uint d) = Inr (x * 10 + uint d)"
    "c_int (x * 10 + uint d - 48) = Inr ?y"
    using y d Cons.prems(2) by (auto simp: c_int_def int_max_def)
  ultimately show ?case using Cons.prems b d by (subst atoi_digits.simps) simp
qed

lemma atoi_spaces_run:
  assumes "p + k < length m" and "\<And>i. i < k \<Longrightarrow> m ! (p + i) = 32" and "m ! (p + k) \<noteq> 32"
  shows "atoi_spaces m p = Inr (p + k)"
  using assms
proof (induction k arbitrary: p)
  case 0
  then show ?case by (subst atoi_spaces.simps) simp
next
  case (Suc k)
  have "atoi_spaces m (Suc p) = Inr (Suc p + k)"
  proof (rule Suc.IH)
    show "m ! (Suc p + i) = 32" if "i < k" for i using Suc.prems(2)[of "Suc i"] that by simp
  qed (use Suc.prems in auto)
  moreover have "m ! p = 32" using Suc.prems(2)[of 0] by simp
  ultimately show ?case using Suc.prems(1) by (subst atoi_spaces.simps) simp
qed

section \<open>The allocator's invariant\<close>

lemma and_not_7: "unat ((x :: u32) AND NOT 7) = unat x div 8 * 8"
proof -
  have m: "(7 :: u32) = mask 3" by (simp add: mask_eq_exp_minus_1)
  have "x AND NOT 7 = push_bit 3 (drop_bit 3 x)"
    unfolding m by (rule bit_word_eqI) (auto simp: bit_and_iff bit_not_iff bit_mask_iff bit_push_bit_iff bit_drop_bit_eq)
  then show ?thesis
    using unat_u32_less[of x] unat_push_bit[of 3 "drop_bit 3 x"] by (simp add: unat_drop_bit)
qed

lemma klib_ROUNDUP_8:
  assumes "unat a + 7 < 2 ^ 32"
  shows "unat (klib_ROUNDUP a 8) = (unat a + 7) div 8 * 8"
proof -
  have "a + 8 - 1 = a + 7" by simp
  moreover have "unat (a + 7) = unat a + 7" using assms by (subst unat_add_no_wrap) simp_all
  moreover have "(8 - 1 :: u32) = 7" by simp
  ultimately show ?thesis unfolding klib_ROUNDUP_def by (simp only: and_not_7)
qed

text \<open>
  A heap whose rounded start does not wrap, and requests so small that \<open>alloc_base + size\<close> cannot
  wrap either; the allocation pointer is not yet set or a multiple of 8 within the heap.
\<close>

definition heap_ok :: "heap_area \<Rightarrow> bool" where
  "heap_ok h \<longleftrightarrow> unat (heap_start h) + 7 \<le> unat (heap_end h) \<and> unat (heap_end h) < 2 ^ 32 - 8"

definition request_ok :: "heap_area \<Rightarrow> u32 \<Rightarrow> bool" where
  "request_ok h sz \<longleftrightarrow> unat (heap_end h) + unat sz + 7 < 2 ^ 32"

definition base_of :: "heap_area \<Rightarrow> u32 \<Rightarrow> u32" where
  "base_of h base = (if base = - 1 then klib_ROUNDUP (heap_start h) 8 else base)"

definition base_ok :: "heap_area \<Rightarrow> u32 \<Rightarrow> bool" where
  "base_ok h base \<longleftrightarrow> heap_start h \<le> base_of h base \<and> base_of h base \<le> heap_end h \<and> unat (base_of h base) mod 8 = 0"

definition block_ok :: "heap_area \<Rightarrow> nat \<Rightarrow> u32 \<times> u32 \<Rightarrow> bool" where
  "block_ok h lo b \<longleftrightarrow> unat (fst b) mod 8 = 0 \<and> unat (heap_start h) \<le> unat (fst b) \<and> lo \<le> unat (fst b) \<and>
     unat (fst b) + unat (snd b) \<le> unat (heap_end h)"

definition before :: "u32 \<times> u32 \<Rightarrow> u32 \<times> u32 \<Rightarrow> bool" where
  "before b c \<longleftrightarrow> unat (fst b) + unat (snd b) \<le> unat (fst c)"

lemma base_ok_init: "heap_ok h \<Longrightarrow> base_ok h alloc_base_init"
  using klib_ROUNDUP_8[of "heap_start h"]
  by (auto simp: heap_ok_def base_ok_def base_of_def alloc_base_init_def word_le_nat_alt)

lemma malloc_step:
  assumes h: "heap_ok h" and b: "base_ok h base" and r: "request_ok h sz"
    and m: "malloc h base sz = (p, base')"
  shows "base_ok h base'" and "base_of h base \<le> base_of h base'"
    and "p = Some a \<Longrightarrow> a = base_of h base \<and> unat a + unat sz \<le> unat (base_of h base') \<and> unat a mod 8 = 0"
proof -
  let ?b = "base_of h base" and ?s = "klib_ROUNDUP sz 8"
  have s: "unat ?s = (unat sz + 7) div 8 * 8"
    using r unfolding request_ok_def by (intro klib_ROUNDUP_8) simp
  then have sz: "unat sz \<le> unat ?s" "unat ?s \<le> unat sz + 7" by linarith+
  have "unat ?b \<le> unat (heap_end h)" using b by (simp add: base_ok_def word_le_nat_alt)
  then have nb: "unat (?b + ?s) = unat ?b + unat ?s"
    using sz r by (intro unat_add_no_wrap) (simp add: request_ok_def)
  have "unat (- 1 :: u32) = 2 ^ 32 - 1" by (simp add: unsigned_minus_1_eq_mask mask_eq_exp_minus_1)
  then have m1: "x \<noteq> - 1" if "x \<le> heap_end h" for x
    using that h by (auto simp: heap_ok_def word_le_nat_alt)
  have st: "(p, base') = (if ?b + ?s > heap_end h then (None, ?b) else (Some ?b, ?b + ?s))"
    using m unfolding malloc_def Let_def base_of_def[symmetric] by (rule sym)
  have base': "base_of h base' = base'"
    using st b m1[of base'] by (auto simp: base_of_def[of h base'] base_ok_def split: if_splits)
  show "base_ok h base'"
    unfolding base_ok_def base'
    using st b s nb by (auto simp: base_ok_def word_le_nat_alt word_less_nat_alt mod_add_eq split: if_splits)
  show "?b \<le> base_of h base'"
    unfolding base' using st nb by (auto simp: word_le_nat_alt split: if_splits)
  show "p = Some a \<Longrightarrow> a = ?b \<and> unat a + unat sz \<le> unat (base_of h base') \<and> unat a mod 8 = 0"
    unfolding base' using st b nb sz by (auto simp: base_ok_def split: if_splits)
qed

lemma malloc_run_blocks:
  assumes "heap_ok h" and "base_ok h base" and "\<forall>sz \<in> set szs. request_ok h sz"
    and "malloc_run h base szs = (bs, base')"
  shows "(\<forall>b \<in> set bs. block_ok h (unat (base_of h base)) b) \<and> sorted_wrt before bs"
  using assms(2-)
proof (induction szs arbitrary: base bs)
  case (Cons sz szs)
  obtain p base1 where m: "malloc h base sz = (p, base1)" by fastforce
  obtain bs1 base2 where r: "malloc_run h base1 szs = (bs1, base2)" by fastforce
  note step = malloc_step[OF assms(1) Cons.prems(1) _ m]
  have rq: "request_ok h sz" using Cons.prems by simp
  have IH: "(\<forall>b \<in> set bs1. block_ok h (unat (base_of h base1)) b) \<and> sorted_wrt before bs1"
    using Cons.prems m r step(1)[OF rq] by (intro Cons.IH) auto
  have le: "unat (base_of h base) \<le> unat (base_of h base1)" using step(2)[OF rq] by (simp add: word_le_nat_alt)
  have mono: "block_ok h (unat (base_of h base)) b" if "b \<in> set bs1" for b
    using IH that le by (auto simp: block_ok_def)
  have bs: "bs = (case p of None \<Rightarrow> bs1 | Some a \<Rightarrow> (a, sz) # bs1)" using Cons.prems m r by simp
  show ?case
  proof (cases p)
    case None then show ?thesis using bs IH mono by simp
  next
    case (Some a)
    have a: "a = base_of h base" "unat a + unat sz \<le> unat (base_of h base1)" "unat a mod 8 = 0"
      using step(3)[OF rq Some] by auto
    have "block_ok h (unat (base_of h base)) (a, sz)"
      using a Cons.prems(1) step(1)[OF rq] by (auto simp: block_ok_def base_ok_def word_le_nat_alt)
    moreover have "before (a, sz) b" if "b \<in> set bs1" for b
      using IH that a by (auto simp: before_def block_ok_def)
    ultimately show ?thesis using bs Some IH mono by auto
  qed
qed simp

section \<open>Properties\<close>

lemma malloc_run_base:
  assumes "heap_ok h" and "base_ok h base" and "\<forall>sz \<in> set szs. request_ok h sz"
    and "malloc_run h base szs = (bs, base')"
  shows "base_ok h base'"
  using assms(2-)
proof (induction szs arbitrary: base bs)
  case (Cons sz szs)
  obtain p base1 where m: "malloc h base sz = (p, base1)" by fastforce
  obtain bs1 where r: "malloc_run h base1 szs = (bs1, base')"
    using Cons.prems(3) m by (cases "malloc_run h base1 szs") simp
  have "base_ok h base1" using malloc_step(1)[OF assms(1) Cons.prems(1) _ m] Cons.prems(2) by simp
  then show ?case using Cons.IH[OF _ _ r] Cons.prems(2) by simp
qed simp

lemma malloc_huge:
  assumes "heap_ok h" and "base_ok h base"
  shows "malloc h base (- 1) = (Some (base_of h base), base_of h base)"
proof -
  have "klib_ROUNDUP (- 1) 8 = 0" by (simp add: klib_ROUNDUP_def)
  then show ?thesis using assms by (auto simp: malloc_def Let_def base_of_def base_ok_def)
qed

text \<open>C40: on a heap that contains its start rounded up to 8 and ends more than 8 bytes below the top of the address
  space, and over any sequence of requests so small that the end of the heap plus the request plus 7 is below
  \<open>2\<^sup>3\<^sup>2\<close>, every block \<open>malloc\<close> hands out is 8-aligned and inside the heap, and the blocks are pairwise disjoint, each
  behind the ones before it; requests the heap has no room for are refused. The side condition on the requests is
  the overflow check the code does not make, and it can not be dropped on any such heap: after every such sequence a
  request for \<open>2\<^sup>3\<^sup>2 - 1\<close> bytes is granted and reserves nothing.\<close>

theorem malloc_blocks_disjoint:
  assumes "heap_ok h" and "\<forall>sz \<in> set szs. unat (heap_end h) + unat sz + 7 < 2 ^ 32"
    and "malloc_run h alloc_base_init szs = (bs, base')"
  shows "list_all (\<lambda>b. unat (fst b) mod 8 = 0 \<and> unat (heap_start h) \<le> unat (fst b) \<and>
       unat (fst b) + unat (snd b) \<le> unat (heap_end h)) bs \<and> sorted_wrt before bs \<and>
     fst (malloc h base' 0xffffffff) \<noteq> None \<and> snd (malloc h base' 0xffffffff) = base_of h base'"
proof -
  have r: "\<forall>sz \<in> set szs. request_ok h sz" using assms(2) by (simp add: request_ok_def)
  have "(0xffffffff :: u32) = - 1" by simp
  then show ?thesis
    using malloc_run_blocks[OF assms(1) base_ok_init[OF assms(1)] r assms(3)]
      malloc_huge[OF assms(1) malloc_run_base[OF assms(1) base_ok_init[OF assms(1)] r assms(3)]]
    by (simp only: fst_conv snd_conv option.distinct simp_thms) (auto simp: block_ok_def list_all_iff)
qed

theorem malloc_blocks_disjoint_witness:
  "list_all (\<lambda>b. unat (fst b) mod 8 = 0 \<and> unat (0x80000001 :: u32) \<le> unat (fst b) \<and>
       unat (fst b) + unat (snd b) \<le> unat (0x80001000 :: u32)) [(0x80000008 :: u32, 5 :: u32), (0x80000010, 8)] \<and>
   sorted_wrt before [(0x80000008, 5), (0x80000010, 8)] \<and>
   fst (malloc \<lparr>heap_start = 0x80000001, heap_end = 0x80001000\<rparr> 0x80000018 0xffffffff) \<noteq> None"
  using malloc_blocks_disjoint[of "\<lparr>heap_start = 0x80000001, heap_end = 0x80001000\<rparr>" "[5, 0x2000, 8]"
      "[(0x80000008, 5), (0x80000010, 8)]" "0x80000018"]
  by (simp add: heap_ok_def malloc_def alloc_base_init_def klib_ROUNDUP_def Let_def)

text \<open>A request that wraps around the address space is granted although the heap cannot hold it, and
  the next block is handed out below the heap.\<close>

theorem malloc_wraps:
  "malloc_run \<lparr>heap_start = 0x80000000, heap_end = 0x88000000\<rparr> alloc_base_init [0x90000000, 16] =
     ([(0x80000000, 0x90000000), (0x10000000, 16)], 0x10000010)"
  by (simp add: malloc_def alloc_base_init_def klib_ROUNDUP_def Let_def)

text \<open>\<open>atoi\<close> skips leading blanks and returns the value of the decimal digits that follow, when a
  character that is no digit ends them and the value stays 57 below \<open>INT_MAX\<close> (the sum with the
  character code is formed before \<open>'0'\<close> is subtracted).\<close>

theorem atoi_correct:
  assumes "digit_chars ds" and "decimal ds \<le> int_max - 57"
    and "p + k + length ds < length m" and "\<And>i. i < k \<Longrightarrow> m ! (p + i) = 32"
    and "block m (p + k) (length ds) = ds"
    and "\<not> (48 \<le> m ! (p + k + length ds) \<and> m ! (p + k + length ds) \<le> 57)" and "m ! (p + k + length ds) \<noteq> 32"
  shows "atoi m p = Inr (decimal ds)"
proof -
  have "m ! (p + k) \<noteq> 32"
  proof (cases ds)
    case (Cons d ds')
    then have "m ! (p + k) = d" using assms(3,5) by (auto simp: block_Suc)
    then show ?thesis using assms(1) Cons by (auto simp: digit_chars_def)
  qed (use assms in simp)
  then have "atoi_spaces m p = Inr (p + k)" using assms by (intro atoi_spaces_run) auto
  then show ?thesis
    using assms atoi_digits_decimal[of ds 0 "p + k" m] by (simp add: atoi_def decimal_def)
qed

theorem atoi_correct_witness: "atoi [32, 52, 50, 0] 0 = Inr 42"
proof -
  have "atoi [32, 52, 50, 0] 0 = Inr (decimal [52, 50])"
    by (rule atoi_correct[where k = 1]) (simp_all add: digit_chars_def decimal_def int_max_def block_def)
  then show ?thesis by (simp add: decimal_def)
qed

end
