(* ===== verification/Klib_Stdio.thy ===== *)
theory Klib_Stdio
  imports Prelude
begin

text \<open>
  Formatted output of the AM C library (\<open>abstract-machine/klib/src/stdio.c\<close>) on a 32-bit target
  (\<open>int\<close>, \<open>long\<close> and \<open>size_t\<close> of 32 bits, \<open>long long\<close> of 64).  The output buffer is a list of
  characters; \<open>pos\<close>, \<open>cap\<close> and \<open>needed\<close> are the variables of \<open>vsnprintf\<close>.  The variable arguments
  are a list, and \<open>va_arg\<close> with a type the argument does not have is undefined behaviour.

  The specification has two stages, a parse of the format into directives and the text of each
  directive, and knows nothing of buffers; \<open>vsnprintf\<close> is shown to store its truncation.
\<close>

section \<open>Writing characters\<close>

record wst =
  out :: string
  pos :: nat
  needed :: u32

definition WRITE_CHAR :: "nat \<Rightarrow> char \<Rightarrow> wst \<Rightarrow> wst res" where
  "WRITE_CHAR cap c w =
     (if pos w < cap then
        if pos w < length (out w)
        then Inr \<lparr>out = (out w)[pos w := c], pos = pos w + 1, needed = needed w + 1\<rparr>
        else Inl (Undefined ''store out of bounds'')
      else Inr (w\<lparr>needed := needed w + 1\<rparr>))"

text \<open>\<open>while (pad-- > 0) WRITE_CHAR(c)\<close>\<close>

fun write_pad :: "nat \<Rightarrow> char \<Rightarrow> nat \<Rightarrow> wst \<Rightarrow> wst res" where
  "write_pad cap c 0 w = Inr w"
| "write_pad cap c (Suc k) w = bind_res (WRITE_CHAR cap c w) (write_pad cap c k)"

text \<open>\<open>while (bi > 0) WRITE_CHAR(buf[--bi])\<close>\<close>

fun write_digits :: "nat \<Rightarrow> string \<Rightarrow> nat \<Rightarrow> wst \<Rightarrow> wst res" where
  "write_digits cap buf 0 w = Inr w"
| "write_digits cap buf (Suc bi) w = bind_res (WRITE_CHAR cap (buf ! bi) w) (write_digits cap buf bi)"

text \<open>\<open>while (*s) WRITE_CHAR(*s++)\<close>\<close>

fun write_string :: "nat \<Rightarrow> string \<Rightarrow> wst \<Rightarrow> wst res" where
  "write_string cap [] w = Inr w"
| "write_string cap (c # s) w = bind_res (WRITE_CHAR cap c w) (write_string cap s)"

section \<open>Integers\<close>

definition buf_size :: nat where
  "buf_size = 128"

definition hex_digit :: "char \<Rightarrow> nat \<Rightarrow> char" where
  "hex_digit fmt d = (if d < 10 then char_of (48 + d) else char_of ((if fmt = CHR ''X'' then 65 else 97) + (d - 10)))"

function hex_loop :: "char \<Rightarrow> u64 \<Rightarrow> string \<Rightarrow> string" where
  "hex_loop fmt v buf =
     (if v > 0 \<and> length buf < buf_size
      then hex_loop fmt (drop_bit 4 v) (buf @ [hex_digit fmt (unat (v AND 0xF))]) else buf)"
  by pat_completeness auto
termination
  by (relation "measure (\<lambda>(_, _, buf). buf_size - length buf)") auto

function dec_loop :: "u64 \<Rightarrow> string \<Rightarrow> string" where
  "dec_loop v buf =
     (if v > 0 \<and> length buf < buf_size
      then dec_loop (v div 10) (buf @ [char_of (48 + unat (v mod 10))]) else buf)"
  by pat_completeness auto
termination
  by (relation "measure (\<lambda>(_, buf). buf_size - length buf)") auto

declare hex_loop.simps [simp del] dec_loop.simps [simp del]

definition print_integer :: "nat \<Rightarrow> bool \<Rightarrow> u64 \<Rightarrow> bool \<Rightarrow> int \<Rightarrow> char \<Rightarrow> wst \<Rightarrow> wst res" where
  "print_integer cap negative abs_val zero_pad width fmt w = bind_res
     (if abs_val = 0 then Inr ''0''
      else if fmt = CHR ''x'' \<or> fmt = CHR ''X'' then Inr (hex_loop fmt abs_val [])
      else if fmt = CHR ''d'' \<or> fmt = CHR ''u'' then Inr (dec_loop abs_val [])
      else Inl (Panic ''halt(1)''))
     (\<lambda>buf. let digits_len = int (length buf); bi = length buf in
       if negative then
         let pad = nat (width - 1 - digits_len) in
         if zero_pad \<and> width > 0 then
           bind_res (WRITE_CHAR cap (CHR ''-'') w) (\<lambda>w.
           bind_res (write_pad cap (CHR ''0'') pad w) (write_digits cap buf bi))
         else
           bind_res (write_pad cap (CHR '' '') pad w) (\<lambda>w.
           bind_res (WRITE_CHAR cap (CHR ''-'') w) (write_digits cap buf bi))
       else
         let pad = nat (width - digits_len) in
         bind_res (write_pad cap (if zero_pad then CHR ''0'' else CHR '' '') pad w)
           (write_digits cap buf bi))"

section \<open>The format loop\<close>

datatype varg =
    Arg32 u32                   \<comment> \<open>\<open>int\<close>, \<open>unsigned\<close>, \<open>long\<close>, \<open>unsigned long\<close>\<close>
  | Arg64 u64                   \<comment> \<open>\<open>long long\<close>, \<open>unsigned long long\<close>\<close>
  | ArgStr "string option"      \<comment> \<open>a string, \<open>None\<close> for a null pointer\<close>

definition va_arg32 :: "varg list \<Rightarrow> (u32 \<times> varg list) res" where
  "va_arg32 ap = (case ap of Arg32 v # ap' \<Rightarrow> Inr (v, ap') | _ \<Rightarrow> Inl (Undefined ''va_arg''))"

definition va_arg64 :: "varg list \<Rightarrow> (u64 \<times> varg list) res" where
  "va_arg64 ap = (case ap of Arg64 v # ap' \<Rightarrow> Inr (v, ap') | _ \<Rightarrow> Inl (Undefined ''va_arg''))"

definition va_arg_str :: "varg list \<Rightarrow> (string option \<times> varg list) res" where
  "va_arg_str ap = (case ap of ArgStr s # ap' \<Rightarrow> Inr (s, ap') | _ \<Rightarrow> Inl (Undefined ''va_arg''))"

text \<open>\<open>width = width * 10 + ( *f - '0')\<close> on \<open>int\<close>.\<close>

definition is_digit :: "char \<Rightarrow> bool" where
  "is_digit c \<longleftrightarrow> 48 \<le> (of_char c :: nat) \<and> (of_char c :: nat) \<le> 57"

fun parse_width :: "int \<Rightarrow> string \<Rightarrow> (int \<times> string) res" where
  "parse_width width [] = Inr (width, [])"
| "parse_width width (c # f) =
     (if is_digit c then
        let width' = width * 10 + (int (of_char c) - 48) in
        if width' < 2 ^ 31 then parse_width width' f else Inl (Undefined ''signed overflow'')
      else Inr (width, c # f))"

definition parse_length :: "string \<Rightarrow> nat \<times> string" where
  "parse_length f =
     (case f of [] \<Rightarrow> (0, f)
      | c # f1 \<Rightarrow> if c = CHR ''l'' then
          (case f1 of [] \<Rightarrow> (1, f1) | c1 # f2 \<Rightarrow> if c1 = CHR ''l'' then (2, f2) else (1, f1))
        else (0, f))"

text \<open>The signed conversion: fetch, then take the magnitude without overflowing on the least value.\<close>

definition fetch_signed :: "nat \<Rightarrow> varg list \<Rightarrow> (u64 \<times> varg list) res" where
  "fetch_signed len ap =
     (if len = 0 \<or> len = 1 then bind_res (va_arg32 ap) (\<lambda>(v, ap). Inr (scast v, ap))
      else if len = 2 then va_arg64 ap
      else Inl (Panic ''halt(1)''))"

definition fetch_unsigned :: "nat \<Rightarrow> varg list \<Rightarrow> (u64 \<times> varg list) res" where
  "fetch_unsigned len ap =
     (if len = 0 \<or> len = 1 then bind_res (va_arg32 ap) (\<lambda>(v, ap). Inr (ucast v, ap))
      else if len = 2 then va_arg64 ap
      else Inl (Panic ''halt(1)''))"

definition abs_llv :: "u64 \<Rightarrow> u64" where
  "abs_llv llv = (if sint llv < 0 then - (llv + 1) + 1 else llv)"

text \<open>
  The part of one iteration behind the flag and the width: it returns the rest of the format, the
  remaining arguments and the output.
\<close>

definition fmt_conv ::
  "nat \<Rightarrow> bool \<Rightarrow> int \<Rightarrow> char \<Rightarrow> string \<Rightarrow> varg list \<Rightarrow> wst \<Rightarrow> (string \<times> varg list \<times> wst) res" where
  "fmt_conv cap zero_pad width c f ap w =
     (if c = CHR ''s'' then
        bind_res (va_arg_str ap) (\<lambda>(s, ap).
        bind_res (write_string cap (case s of None \<Rightarrow> ''(null)'' | Some s \<Rightarrow> s) w) (\<lambda>w. Inr (f, ap, w)))
      else let (len, f) = parse_length (c # f) in
        case f of
          [] \<Rightarrow> bind_res (WRITE_CHAR cap (CHR ''%'') w) (\<lambda>w.
                bind_res (WRITE_CHAR cap (CHR 0x00) w) (\<lambda>w. Inr ([], ap, w)))
        | d # f \<Rightarrow>
            if d = CHR ''d'' then
              bind_res (fetch_signed len ap) (\<lambda>(llv, ap).
              bind_res (print_integer cap (sint llv < 0) (abs_llv llv) zero_pad width d w) (\<lambda>w. Inr (f, ap, w)))
            else if d = CHR ''u'' \<or> d = CHR ''x'' \<or> d = CHR ''X'' then
              bind_res (fetch_unsigned len ap) (\<lambda>(uv, ap).
              bind_res (print_integer cap False uv zero_pad width d w) (\<lambda>w. Inr (f, ap, w)))
            else bind_res (WRITE_CHAR cap (CHR ''%'') w) (\<lambda>w.
                 bind_res (WRITE_CHAR cap d w) (\<lambda>w. Inr (f, ap, w))))"

lemma length_parse_length: "length (snd (parse_length f)) \<le> length f"
  by (auto simp: parse_length_def split: list.splits)

lemma length_parse_width: "parse_width k f = Inr (w, f') \<Longrightarrow> length f' \<le> length f"
  by (induction k f rule: parse_width.induct) (auto simp: Let_def split: if_splits)

lemma length_fmt_conv:
  assumes "fmt_conv cap z k c f ap w = Inr (f', ap', w')"
  shows "length f' \<le> length f"
proof -
  have "length (snd (parse_length (c # f))) \<le> Suc (length f)" using length_parse_length[of "c # f"] by simp
  with assms show ?thesis
    by (auto simp: fmt_conv_def res_simps Let_def split: if_splits list.splits prod.splits)
qed

function fmt_loop :: "nat \<Rightarrow> string \<Rightarrow> varg list \<Rightarrow> wst \<Rightarrow> wst res" where
  "fmt_loop cap [] ap w = Inr w"
| "fmt_loop cap (c # f) ap w =
     (if c \<noteq> CHR ''%'' then bind_res (WRITE_CHAR cap c w) (fmt_loop cap f ap)
      else case f of
        [] \<Rightarrow> Inr w
      | c # f1 \<Rightarrow>
          if c = CHR ''%'' then bind_res (WRITE_CHAR cap (CHR ''%'') w) (fmt_loop cap f1 ap)
          else let zero_pad = (c = CHR ''0''); f2 = (if zero_pad then f1 else f) in
            bind_res (parse_width 0 f2) (\<lambda>(width, f3).
              case f3 of
                [] \<Rightarrow> Inr w
              | c # f4 \<Rightarrow> bind_res (fmt_conv cap zero_pad width c f4 ap w) (\<lambda>(f, ap, w). fmt_loop cap f ap w)))"
  by pat_completeness auto
termination
  by (relation "measure (\<lambda>(_, f, _). length f)")
     (auto dest!: length_parse_width length_fmt_conv split: if_splits)

definition vsnprintf :: "string \<Rightarrow> u32 \<Rightarrow> string \<Rightarrow> varg list \<Rightarrow> (string \<times> int) res" where
  "vsnprintf buf n fmt ap = (let cap = unat (if n > 0 then n - 1 else 0) in
     bind_res (fmt_loop cap fmt ap \<lparr>out = buf, pos = 0, needed = 0\<rparr>) (\<lambda>w.
       if n > 0 then
         if pos w < length (out w) then Inr ((out w)[pos w := CHR 0x00], sint (needed w))
         else Inl (Undefined ''store out of bounds'')
       else Inr (out w, sint (needed w))))"

definition snprintf :: "string \<Rightarrow> u32 \<Rightarrow> string \<Rightarrow> varg list \<Rightarrow> (string \<times> int) res" where
  "snprintf buf n fmt ap = vsnprintf buf n fmt ap"

definition vsprintf :: "string \<Rightarrow> string \<Rightarrow> varg list \<Rightarrow> (string \<times> int) res" where
  "vsprintf buf fmt ap = vsnprintf buf (- 1) fmt ap"

definition sprintf :: "string \<Rightarrow> string \<Rightarrow> varg list \<Rightarrow> (string \<times> int) res" where
  "sprintf buf fmt ap = vsnprintf buf (- 1) fmt ap"

text \<open>\<open>printf\<close> returns the characters passed to \<open>putch\<close>, in order, and its result.  The local buffer
  is an argument, since its initial contents are indeterminate.\<close>

definition printf :: "string \<Rightarrow> string \<Rightarrow> varg list \<Rightarrow> (string \<times> int) res" where
  "printf buf fmt ap = bind_res (vsnprintf buf 1024 fmt ap) (\<lambda>(buf, needed).
     if needed < 0 then Inr ([], needed)
     else let to_write = (if needed \<ge> 1024 then 1024 - 1 else needed) in
       Inr (take (nat to_write) buf, to_write))"

section \<open>Specification\<close>

datatype directive =
    DLit char
  | DStr
  | DInt bool int nat char       \<comment> \<open>zero flag, width, length modifier and conversion\<close>

definition mk_conv :: "bool \<Rightarrow> int \<Rightarrow> char \<Rightarrow> string \<Rightarrow> directive list \<times> string" where
  "mk_conv z k c f = (if c = CHR ''s'' then ([DStr], f) else
     let (len, f) = parse_length (c # f) in
     case f of [] \<Rightarrow> ([DLit (CHR ''%''), DLit (CHR 0x00)], [])
     | d # f \<Rightarrow> (if d \<in> {CHR ''d'', CHR ''u'', CHR ''x'', CHR ''X''} then [DInt z k len d]
                else [DLit (CHR ''%''), DLit d], f))"

lemma length_mk_conv: "length (snd (mk_conv z k c f)) \<le> length f"
  using length_parse_length[of "c # f"] by (auto simp: mk_conv_def Let_def split: list.splits prod.splits)

function parse_fmt :: "string \<Rightarrow> directive list res" where
  "parse_fmt [] = Inr []"
| "parse_fmt (c # f) =
     (if c \<noteq> CHR ''%'' then bind_res (parse_fmt f) (\<lambda>ds. Inr (DLit c # ds))
      else case f of
        [] \<Rightarrow> Inr []
      | c # f1 \<Rightarrow>
          if c = CHR ''%'' then bind_res (parse_fmt f1) (\<lambda>ds. Inr (DLit (CHR ''%'') # ds))
          else let zero_pad = (c = CHR ''0''); f2 = (if zero_pad then f1 else f) in
            bind_res (parse_width 0 f2) (\<lambda>(width, f3).
              case f3 of
                [] \<Rightarrow> Inr []
              | c # f4 \<Rightarrow> bind_res (parse_fmt (snd (mk_conv zero_pad width c f4)))
                  (\<lambda>ds. Inr (fst (mk_conv zero_pad width c f4) @ ds))))"
  by pat_completeness auto
termination
  by (relation "measure length")
     (auto dest!: length_parse_width split: if_splits intro: le_less_trans[OF length_mk_conv])

text \<open>Positional notation, most significant digit first.\<close>

function radix_digits :: "nat \<Rightarrow> nat \<Rightarrow> nat list" where
  "radix_digits b n = (if b < 2 \<or> n < b then [n] else radix_digits b (n div b) @ [n mod b])"
  by pat_completeness auto
termination
  by (relation "measure snd") auto

declare radix_digits.simps [simp del]

definition digits_text :: "char \<Rightarrow> nat \<Rightarrow> string" where
  "digits_text conv n =
     (if conv = CHR ''x'' \<or> conv = CHR ''X'' then map (hex_digit conv) (radix_digits 16 n)
      else map (\<lambda>d. char_of (48 + d)) (radix_digits 10 n))"

definition pad_text :: "bool \<Rightarrow> int \<Rightarrow> bool \<Rightarrow> string \<Rightarrow> string" where
  "pad_text z k neg ds = (let room = k - int (length ds) in
     if \<not> neg then replicate (nat room) (if z then CHR ''0'' else CHR '' '') @ ds
     else if z \<and> k > 0 then CHR ''-'' # replicate (nat (room - 1)) (CHR ''0'') @ ds
     else replicate (nat (room - 1)) (CHR '' '') @ CHR ''-'' # ds)"

fun render :: "directive list \<Rightarrow> varg list \<Rightarrow> string res" where
  "render [] ap = Inr []"
| "render (DLit c # ds) ap = bind_res (render ds ap) (\<lambda>s. Inr (c # s))"
| "render (DStr # ds) ap = bind_res (va_arg_str ap) (\<lambda>(t, ap).
     bind_res (render ds ap) (\<lambda>s. Inr ((case t of None \<Rightarrow> ''(null)'' | Some t \<Rightarrow> t) @ s)))"
| "render (DInt z k len conv # ds) ap =
     bind_res (if conv = CHR ''d'' then fetch_signed len ap else fetch_unsigned len ap) (\<lambda>(v, ap).
     bind_res (render ds ap) (\<lambda>s.
       let i = (if conv = CHR ''d'' then sint v else uint v) in
       Inr (pad_text z k (i < 0) (digits_text conv (nat \<bar>i\<bar>)) @ s)))"

section \<open>The output state after a text\<close>

definition wst_of :: "string \<Rightarrow> nat \<Rightarrow> string \<Rightarrow> wst" where
  "wst_of buf cap s = \<lparr>out = take cap s @ drop (min cap (length s)) buf, pos = min cap (length s),
     needed = of_nat (length s)\<rparr>"

lemma WRITE_CHAR_wst:
  assumes "cap \<le> length buf"
  shows "WRITE_CHAR cap c (wst_of buf cap s) = Inr (wst_of buf cap (s @ [c]))"
proof (cases "length s < cap")
  case True
  then have "drop (length s) buf = buf ! length s # drop (Suc (length s)) buf"
    using assms by (intro Cons_nth_drop_Suc[symmetric]) simp
  then show ?thesis using True assms by (simp add: WRITE_CHAR_def wst_of_def)
qed (simp add: WRITE_CHAR_def wst_of_def)

lemma write_pad_wst:
  "cap \<le> length buf \<Longrightarrow> write_pad cap c k (wst_of buf cap s) = Inr (wst_of buf cap (s @ replicate k c))"
  by (induction k arbitrary: s) (simp_all add: WRITE_CHAR_wst)

lemma write_string_wst:
  "cap \<le> length buf \<Longrightarrow> write_string cap t (wst_of buf cap s) = Inr (wst_of buf cap (s @ t))"
  by (induction t arbitrary: s) (simp_all add: WRITE_CHAR_wst)

lemma write_digits_wst:
  "cap \<le> length buf \<Longrightarrow> k \<le> length ds \<Longrightarrow>
   write_digits cap ds k (wst_of buf cap s) = Inr (wst_of buf cap (s @ rev (take k ds)))"
  by (induction k arbitrary: s) (simp_all add: WRITE_CHAR_wst take_Suc_conv_app_nth)

lemmas write_wst = WRITE_CHAR_wst write_pad_wst write_string_wst write_digits_wst

section \<open>Digits\<close>

lemma length_radix_digits: "2 \<le> b \<Longrightarrow> n < b ^ k \<Longrightarrow> 0 < k \<Longrightarrow> length (radix_digits b n) \<le> k"
proof (induction k arbitrary: n)
  case (Suc k)
  show ?case
  proof (cases "n < b")
    case False
    then have "0 < k" using Suc.prems by (cases k) auto
    moreover have "n div b < b ^ k" using Suc.prems by (simp add: less_mult_imp_div_less mult.commute)
    ultimately have "length (radix_digits b (n div b)) \<le> k" using Suc by simp
    then show ?thesis using False Suc.prems by (subst radix_digits.simps) simp
  qed (subst radix_digits.simps, simp)
qed simp

lemma radix_digits_value: "2 \<le> b \<Longrightarrow> foldl (\<lambda>x d. x * b + d) 0 (radix_digits b n) = n"
proof (induction b n rule: radix_digits.induct)
  case (1 b n)
  then show ?case by (subst radix_digits.simps) auto
qed

lemma radix_digits_less: "2 \<le> b \<Longrightarrow> d \<in> set (radix_digits b n) \<Longrightarrow> d < b"
proof (induction b n rule: radix_digits.induct)
  case (1 b n)
  then show ?case by (subst (asm) (2) radix_digits.simps) (auto split: if_splits)
qed

lemma length_radix_u64: "2 \<le> b \<Longrightarrow> length (radix_digits b (unat (v :: u64))) \<le> 64"
  using unat_u64_less[of v] power_mono[of 2 b 64]
  by (intro length_radix_digits) (auto intro: less_le_trans)

lemma dec_loop_step:
  assumes "v \<noteq> 0" and "length buf + length (radix_digits 10 (unat v)) \<le> buf_size"
  shows "dec_loop v buf = buf @ rev (digits_text (CHR ''d'') (unat v))"
  using assms
proof (induction v buf rule: dec_loop.induct)
  case (1 v buf)
  let ?d = "char_of (48 + unat (v mod 10)) :: char"
  have q: "unat (v div 10) = unat v div 10" "unat (v mod 10) = unat v mod 10"
    by (simp_all add: unat_div_distrib unat_mod_distrib)
  have len: "length buf < buf_size" "0 < v"
    using "1.prems" by (subst (asm) radix_digits.simps, auto simp: word_greater_zero_iff split: if_splits)
  show ?case
  proof (cases "unat v < 10")
    case True
    then have "v div 10 = 0" using q by (intro word_eq_unatI) simp
    then have "dec_loop (v div 10) (buf @ [?d]) = buf @ [?d]" by (subst dec_loop.simps) simp
    then show ?thesis using True len q
      by (subst dec_loop.simps) (simp add: digits_text_def radix_digits.simps[of 10 "unat v"])
  next
    case False
    then have "v div 10 \<noteq> 0" using q by (auto simp: unat_eq_0[symmetric])
    moreover have "length (buf @ [?d]) + length (radix_digits 10 (unat (v div 10))) \<le> buf_size"
      using "1.prems"(2) False q by (subst (asm) radix_digits.simps) simp
    ultimately have "dec_loop (v div 10) (buf @ [?d]) = (buf @ [?d]) @ rev (digits_text (CHR ''d'') (unat (v div 10)))"
      using "1.IH" len by simp
    then show ?thesis using False len q
      by (subst dec_loop.simps) (simp add: digits_text_def radix_digits.simps[of 10 "unat v"])
  qed
qed

lemma hex_loop_step:
  assumes "v \<noteq> 0" and "length buf + length (radix_digits 16 (unat v)) \<le> buf_size"
    and x: "fmt = CHR ''x'' \<or> fmt = CHR ''X''"
  shows "hex_loop fmt v buf = buf @ rev (digits_text fmt (unat v))"
  using assms
proof (induction fmt v buf rule: hex_loop.induct)
  case (1 fmt v buf)
  let ?d = "hex_digit fmt (unat (v AND 0xF))" and ?v = "drop_bit 4 v"
  have "v AND 0xF = take_bit 4 v" by (simp add: take_bit_eq_mask mask_eq_exp_minus_1)
  then have q: "unat ?v = unat v div 16" "unat (v AND 0xF) = unat v mod 16"
    using unat_take_bit[of 4 v] unat_drop_bit[of 4 v] by simp_all
  have len: "length buf < buf_size" "0 < v"
    using "1.prems" by (subst (asm) radix_digits.simps, auto simp: word_greater_zero_iff split: if_splits)
  have unf: "hex_loop fmt v buf = hex_loop fmt ?v (buf @ [?d])" using len by (subst hex_loop.simps) (simp only: if_True simp_thms)
  show ?case
  proof (cases "unat v < 16")
    case True
    then have "?v = 0" using q by (intro word_eq_unatI) simp
    then have "hex_loop fmt ?v (buf @ [?d]) = buf @ [?d]" by (subst hex_loop.simps) simp
    then show ?thesis using True q "1.prems"(3) unfolding unf
      by (simp add: digits_text_def radix_digits.simps[of 16 "unat v"])
  next
    case False
    then have "?v \<noteq> 0" using q by (auto simp: unat_eq_0[symmetric])
    moreover have "length (buf @ [?d]) + length (radix_digits 16 (unat ?v)) \<le> buf_size"
      using "1.prems"(2) False q by (subst (asm) radix_digits.simps) simp
    ultimately have "hex_loop fmt ?v (buf @ [?d]) = (buf @ [?d]) @ rev (digits_text fmt (unat ?v))"
      using "1.IH" len "1.prems"(3) by blast
    then show ?thesis using False q "1.prems"(3) unfolding unf
      by (simp add: digits_text_def radix_digits.simps[of 16 "unat v"])
  qed
qed

lemma digits_text_zero: "digits_text conv 0 = ''0''"
proof -
  have "char_of (48 :: nat) = CHR ''0''" by code_simp
  then show ?thesis by (simp add: digits_text_def radix_digits.simps hex_digit_def)
qed

text \<open>\<open>print_integer\<close> appends the padded number.\<close>

lemma print_integer_wst:
  assumes "cap \<le> length buf" and conv: "conv \<in> {CHR ''d'', CHR ''u'', CHR ''x'', CHR ''X''}"
  shows "print_integer cap neg v z k conv (wst_of buf cap s) =
    Inr (wst_of buf cap (s @ pad_text z k neg (digits_text conv (unat v))))"
proof -
  define ds where "ds = rev (digits_text conv (unat v))"
  have digits: "(if v = 0 then Inr ''0''
      else if conv = CHR ''x'' \<or> conv = CHR ''X'' then Inr (hex_loop conv v [])
      else if conv = CHR ''d'' \<or> conv = CHR ''u'' then Inr (dec_loop v [])
      else Inl (Panic ''halt(1)'')) = (Inr ds :: string res)"
  proof (cases "v = 0")
    case False
    have "length ([] :: string) + length (radix_digits 10 (unat v)) \<le> buf_size"
      "length ([] :: string) + length (radix_digits 16 (unat v)) \<le> buf_size"
      using length_radix_u64[of 10 v] length_radix_u64[of 16 v] by (simp_all add: buf_size_def)
    then show ?thesis
      using False conv dec_loop_step[of v "[]"] hex_loop_step[of v "[]" conv]
      by (auto simp: ds_def digits_text_def)
  qed (simp add: ds_def digits_text_zero)
  have "digits_text conv (unat v) = rev ds" by (simp add: ds_def)
  then show ?thesis
    unfolding print_integer_def digits bind_res_Inr
    using assms(1) by (simp add: pad_text_def write_wst Let_def algebra_simps)
qed

lemma abs_llv_magnitude: "unat (abs_llv llv) = nat \<bar>sint llv\<bar>"
proof -
  have "abs_llv llv = word_mag llv" by (simp add: abs_llv_def word_mag_def)
  then show ?thesis by (metis nat_uint_eq uint_word_mag)
qed

text \<open>One conversion.\<close>

lemma fmt_conv_wst:
  assumes "cap \<le> length buf"
    and "render (fst (mk_conv z k c f) @ ds) ap = Inr t"
  shows "\<exists>u ap' t'. fmt_conv cap z k c f ap (wst_of buf cap s) = Inr (snd (mk_conv z k c f), ap', wst_of buf cap (s @ u)) \<and>
    render ds ap' = Inr t' \<and> t = u @ t'"
proof (cases "c = CHR ''s''")
  case True
  then show ?thesis
    using assms by (fastforce simp: fmt_conv_def mk_conv_def res_simps write_wst)
next
  case False
  obtain len f1 where p: "parse_length (c # f) = (len, f1)" by fastforce
  show ?thesis
  proof (cases f1)
    case Nil
    then show ?thesis using False p assms
      by (auto simp: fmt_conv_def mk_conv_def res_simps write_wst)
  next
    case (Cons d f2)
    consider (d) "d = CHR ''d''" | (u) "d \<in> {CHR ''u'', CHR ''x'', CHR ''X''}"
      | (other) "d \<notin> {CHR ''d'', CHR ''u'', CHR ''x'', CHR ''X''}" by blast
    then show ?thesis
    proof cases
      case d
      then show ?thesis using False p Cons assms print_integer_wst[OF assms(1), of d]
        by (auto simp: fmt_conv_def mk_conv_def res_simps abs_llv_magnitude Let_def)
    next
      case u
      then have "d \<noteq> CHR ''d''" by auto
      then show ?thesis using u False p Cons assms print_integer_wst[OF assms(1), of d]
        by (auto simp: fmt_conv_def mk_conv_def res_simps Let_def)
    next
      case other
      then show ?thesis using False p Cons assms
        by (auto simp: fmt_conv_def mk_conv_def res_simps write_wst)
    qed
  qed
qed

lemma fmt_loop_wst:
  assumes "cap \<le> length buf" and "parse_fmt f = Inr ds" and "render ds ap = Inr t"
  shows "fmt_loop cap f ap (wst_of buf cap s) = Inr (wst_of buf cap (s @ t))"
  using assms(2,3)
proof (induction f arbitrary: ds ap t s rule: parse_fmt.induct)
  case (2 c f)
  show ?case
  proof (cases "c = CHR ''%''")
    case False
    then show ?thesis using "2.prems" "2.IH"(1) assms(1) by (fastforce simp: res_simps write_wst)
  next
    case c: True
    show ?thesis
    proof (cases f)
      case (Cons c1 f1)
      show ?thesis
      proof (cases "c1 = CHR ''%''")
        case True
        then show ?thesis using c Cons "2.prems" "2.IH"(2) assms(1) by (fastforce simp: res_simps write_wst)
      next
        case False
        define z where "z = (c1 = CHR ''0'')"
        define f2 where "f2 = (if z then f1 else f)"
        obtain k f3 where w: "parse_width 0 f2 = Inr (k, f3)"
          using "2.prems"(1) c Cons False by (auto simp: res_simps Let_def z_def f2_def)
        have unf: "parse_fmt (c # f) = (case f3 of [] \<Rightarrow> Inr []
              | c # f4 \<Rightarrow> bind_res (parse_fmt (snd (mk_conv z k c f4)))
                  (\<lambda>ds. Inr (fst (mk_conv z k c f4) @ ds)))"
          using c Cons False w by (cases z) (simp_all add: Let_def z_def f2_def del: parse_width.simps split: list.split)
        have unf': "fmt_loop cap (c # f) ap w = (case f3 of [] \<Rightarrow> Inr w
              | c # f4 \<Rightarrow> bind_res (fmt_conv cap z k c f4 ap w) (\<lambda>(f, ap, w). fmt_loop cap f ap w))" for w
          using c Cons False w by (cases z) (simp_all add: Let_def z_def f2_def del: parse_width.simps split: list.split)
        show ?thesis
        proof (cases f3)
          case Nil
          then show ?thesis using "2.prems" unfolding unf unf' by simp
        next
          case f3: (Cons c2 f4)
          then obtain ds' where ds': "parse_fmt (snd (mk_conv z k c2 f4)) = Inr ds'" "ds = fst (mk_conv z k c2 f4) @ ds'"
            using "2.prems"(1) unfolding unf by (auto simp: res_simps)
          then obtain u ap' t' where u: "fmt_conv cap z k c2 f4 ap (wst_of buf cap s) =
              Inr (snd (mk_conv z k c2 f4), ap', wst_of buf cap (s @ u))" "render ds' ap' = Inr t'" "t = u @ t'"
            using fmt_conv_wst[OF assms(1), of z k c2 f4 ds' ap t s] "2.prems"(2) by blast
          have "fmt_loop cap (snd (mk_conv z k c2 f4)) ap' (wst_of buf cap (s @ u)) = Inr (wst_of buf cap ((s @ u) @ t'))"
            using c Cons False w f3 ds'(1) u(2) by (intro "2.IH"(3)[OF _ _ _ z_def f2_def]) auto
          then show ?thesis unfolding unf' f3 using u by simp
        qed
      qed
    qed (use c "2.prems" in simp)
  qed
qed simp

lemma vsnprintf_text:
  assumes "parse_fmt fmt = Inr ds" and "render ds ap = Inr t" and "0 < n" and "unat n \<le> length buf"
  shows "vsnprintf buf n fmt ap =
    Inr (take (unat n - 1) t @ CHR 0x00 # drop (Suc (min (unat n - 1) (length t))) buf, sint (of_nat (length t) :: u32))"
proof -
  let ?cap = "unat n - 1" and ?k = "min (unat n - 1) (length t)"
  have n: "unat (n - 1) = ?cap" using assms(3) by (simp add: unat_minus_one word_neq_0_conv)
  have pos: "0 < unat n" using assms(3) by (simp add: word_less_nat_alt)
  have init: "\<lparr>out = buf, pos = 0, needed = 0\<rparr> = wst_of buf ?cap []" by (simp add: wst_of_def)
  have loop: "fmt_loop ?cap fmt ap (wst_of buf ?cap []) = Inr (wst_of buf ?cap t)"
    using assms fmt_loop_wst[of ?cap buf fmt ds ap t "[]"] by simp
  have "(take ?cap t @ drop ?k buf)[?k := CHR 0x00] = take ?cap t @ CHR 0x00 # drop (Suc ?k) buf"
  proof -
    have "drop ?k buf = buf ! ?k # drop (Suc ?k) buf"
      using pos assms(4) by (intro Cons_nth_drop_Suc[symmetric]) simp
    then show ?thesis by (simp add: list_update_append min.commute)
  qed
  moreover have "?k < length (take ?cap t @ drop ?k buf)" using pos assms(4) by auto
  moreover have "unat (if 0 < n then n - 1 else 0) = ?cap" using n assms(3) by simp
  ultimately show ?thesis
    unfolding vsnprintf_def Let_def init using loop assms(3) by (simp add: wst_of_def)
qed

text \<open>Reading a decimal number back.\<close>

definition read_nat :: "string \<Rightarrow> nat" where
  "read_nat s = foldl (\<lambda>x c. x * 10 + (of_char c - 48)) 0 s"

definition read_int :: "string \<Rightarrow> int" where
  "read_int s = (case s of [] \<Rightarrow> 0 | c # cs \<Rightarrow> if c = CHR ''-'' then - int (read_nat cs) else int (read_nat s))"

lemma of_char_digit: "d < 10 \<Longrightarrow> of_char (char_of (48 + d) :: char) = 48 + (d :: nat)"
  by (simp add: of_char_of)

lemma foldl_digits:
  "\<forall>d \<in> set ds. d < 10 \<Longrightarrow>
   foldl (\<lambda>x c. x * 10 + (of_char c - 48)) x (map (\<lambda>d. char_of (48 + d) :: char) ds) =
   foldl (\<lambda>x d. x * 10 + d) x (ds :: nat list)"
  by (induction ds arbitrary: x) (simp_all add: of_char_digit)

lemma read_nat_digits: "read_nat (digits_text (CHR ''d'') n) = n"
  using foldl_digits[of "radix_digits 10 n" 0] radix_digits_less[of 10 _ n] radix_digits_value[of 10 n]
  by (simp add: read_nat_def digits_text_def)

lemma hd_digits_text: "digits_text (CHR ''d'') n = c # cs \<Longrightarrow> c \<noteq> CHR ''-''"
proof -
  assume "digits_text (CHR ''d'') n = c # cs"
  then obtain d where "d \<in> set (radix_digits 10 n)" "c = char_of (48 + d)"
    unfolding digits_text_def by (cases "radix_digits 10 n") auto
  then have "of_char c = 48 + d" using radix_digits_less[of 10 d n] of_char_digit[of d] by simp
  moreover have "of_char (CHR ''-'') = (45 :: nat)" by simp
  ultimately have "of_char c \<noteq> (of_char (CHR ''-'') :: nat)" by linarith
  then show ?thesis by blast
qed

lemma read_int_text: "read_int (pad_text False 0 (i < 0) (digits_text (CHR ''d'') (nat \<bar>i\<bar>))) = i"
proof -
  have "digits_text (CHR ''d'') (nat \<bar>i\<bar>) \<noteq> []"
    by (simp add: digits_text_def) (subst radix_digits.simps, simp)
  then show ?thesis
    using read_nat_digits[of "nat \<bar>i\<bar>"] hd_digits_text[of "nat \<bar>i\<bar>"]
    by (cases "digits_text (CHR ''d'') (nat \<bar>i\<bar>)") (auto simp: read_int_def pad_text_def Let_def)
qed

section \<open>Properties\<close>

text \<open>C37: \<open>vsnprintf\<close> stores the longest prefix of the formatted text that leaves room for the
  terminator, terminates it, leaves the rest of the buffer alone and returns the length the
  whole text has (as an \<open>int\<close>).  The text is the one the two-stage specification renders.\<close>

theorem vsnprintf_correct:
  assumes "parse_fmt fmt = Inr ds" and "render ds ap = Inr t" and "0 < n" and "unat n \<le> length buf"
  shows "vsnprintf buf n fmt ap =
    Inr (take (unat n - 1) t @ CHR 0x00 # drop (Suc (min (unat n - 1) (length t))) buf, sint (of_nat (length t) :: u32))"
  using assms by (rule vsnprintf_text)

theorem vsnprintf_correct_witness:
  "vsnprintf ''........'' 6 ''a%3d%s'' [Arg32 (- 7), ArgStr (Some ''bc'')] =
    Inr (take (unat (6 :: u32) - 1) ''a -7bc'' @ CHR 0x00 # drop (Suc (min (unat (6 :: u32) - 1) (length ''a -7bc''))) ''........'',
         sint (of_nat (length ''a -7bc'') :: u32))"
proof (rule vsnprintf_correct)
  show "parse_fmt ''a%3d%s'' = Inr [DLit (CHR ''a''), DInt False 3 0 (CHR ''d''), DStr]" by code_simp
  show "render [DLit (CHR ''a''), DInt False 3 0 (CHR ''d''), DStr] [Arg32 (- 7), ArgStr (Some ''bc'')] = Inr ''a -7bc''"
    by code_simp
qed code_simp+

text \<open>Printing an \<open>int\<close> with \<open>%d\<close> and reading the text back gives the number, for every number and
  every buffer of at least 12 characters.\<close>

theorem snprintf_read_int:
  assumes "12 \<le> n" and "unat n \<le> length buf"
  shows "\<exists>t rest. snprintf buf n ''%d'' [Arg32 v] = Inr (t @ CHR 0x00 # rest, int (length t)) \<and> read_int t = sint v"
proof -
  let ?t = "pad_text False 0 (sint v < 0) (digits_text (CHR ''d'') (nat \<bar>sint v\<bar>))"
  have "parse_fmt ''%d'' = Inr [DInt False 0 0 (CHR ''d'')]" by code_simp
  moreover have "sint (scast v :: u64) = sint v" by (simp add: sint_up_scast is_up)
  then have "render [DInt False 0 0 (CHR ''d'')] [Arg32 v] = Inr ?t"
    by (simp add: fetch_signed_def va_arg32_def Let_def)
  moreover have n: "12 \<le> unat n" using assms(1) by (simp add: word_le_nat_alt)
  then have "0 < n" by (simp add: word_less_nat_alt)
  ultimately have *: "snprintf buf n ''%d'' [Arg32 v] = Inr (take (unat n - 1) ?t @ CHR 0x00 #
      drop (Suc (min (unat n - 1) (length ?t))) buf, sint (of_nat (length ?t) :: u32))"
    unfolding snprintf_def using assms(2) by (intro vsnprintf_text)
  have "\<bar>sint v\<bar> \<le> 2 ^ 31" using sint_greater_eq[of v] sint_less[of v] by simp
  then have "length (radix_digits 10 (nat \<bar>sint v\<bar>)) \<le> 10" by (intro length_radix_digits) auto
  then have len: "length ?t \<le> 11" by (auto simp: pad_text_def digits_text_def Let_def)
  then have "sint (of_nat (length ?t) :: u32) = int (length ?t)"
    by (simp add: signed_of_nat signed_take_bit_int_eq_self)
  moreover have "take (unat n - 1) ?t = ?t" using len n by (intro take_all) linarith
  ultimately show ?thesis using * read_int_text[of "sint v"] by (metis (no_types))
qed

theorem snprintf_read_int_witness:
  "\<exists>t rest. snprintf (replicate 20 (CHR ''.'')) 20 ''%d'' [Arg32 (- 2147483648)] = Inr (t @ CHR 0x00 # rest, int (length t)) \<and>
     read_int t = sint (- 2147483648 :: u32)"
  by (rule snprintf_read_int) simp_all

end
