(* ===== verification/Host.thy ===== *)
theory Host
  imports Prelude
begin

text \<open>
  Host memory accesses of the emulator (\<open>nemu/include/memory/host.h\<close>) for a 32-bit guest: an
  array of bytes is a function from offsets, together with its size; multi-byte accesses are
  little-endian as on the hosts the emulator supports.  An access beyond the array is undefined.
\<close>

section \<open>Definitions\<close>

type_synonym bytes = "nat \<Rightarrow> u8"

fun read_le :: "bytes \<Rightarrow> nat \<Rightarrow> nat \<Rightarrow> u32" where
  "read_le sp off 0 = 0"
| "read_le sp off (Suc n) = push_bit 8 (read_le sp (off + 1) n) OR ucast (sp off)"

fun write_le :: "bytes \<Rightarrow> nat \<Rightarrow> nat \<Rightarrow> u32 \<Rightarrow> bytes" where
  "write_le sp off 0 v = sp"
| "write_le sp off (Suc n) v = write_le (sp(off := ucast v)) (off + 1) n (drop_bit 8 v)"

text \<open>The first argument is \<open>CONFIG_RT_CHECK\<close>, the second the size of the array.\<close>

definition host_read :: "bool \<Rightarrow> nat \<Rightarrow> bytes \<Rightarrow> nat \<Rightarrow> nat \<Rightarrow> u32 res" where
  "host_read rt_check sz sp off len =
     (if len = 1 \<or> len = 2 \<or> len = 4 then
        if off + len \<le> sz then Inr (read_le sp off len) else Inl (Undefined ''host_read out of bounds'')
      else if rt_check then Inl (Assert_fail ''host_read'') else Inr 0)"

definition host_write :: "bool \<Rightarrow> nat \<Rightarrow> bytes \<Rightarrow> nat \<Rightarrow> nat \<Rightarrow> u32 \<Rightarrow> bytes res" where
  "host_write rt_check sz sp off len data =
     (if len = 1 \<or> len = 2 \<or> len = 4 then
        if off + len \<le> sz then Inr (write_le sp off len data) else Inl (Undefined ''host_write out of bounds'')
      else if rt_check then Inl (Assert_fail ''host_write'') else Inr sp)"

section \<open>Read after write\<close>

lemma write_le_other: "i < off \<or> off + n \<le> i \<Longrightarrow> write_le sp off n v i = sp i"
  by (induction n arbitrary: sp off v) auto

lemma read_le_cong: "(\<And>i. off \<le> i \<Longrightarrow> i < off + n \<Longrightarrow> sp i = sp' i) \<Longrightarrow> read_le sp off n = read_le sp' off n"
proof (induction n arbitrary: off)
  case (Suc n)
  have "read_le sp (off + 1) n = read_le sp' (off + 1) n" by (rule Suc.IH) (use Suc.prems in auto)
  moreover have "sp off = sp' off" by (rule Suc.prems) auto
  ultimately show ?case by simp
qed simp

lemma read_write_le_same: "read_le (write_le sp off n v) off n = take_bit (8 * n) v"
proof (induction n arbitrary: sp off v)
  case (Suc n)
  have "write_le (sp(off := ucast v)) (off + 1) n (drop_bit 8 v) off = ucast v"
    by (subst write_le_other) auto
  then have "read_le (write_le sp off (Suc n) v) off (Suc n) =
      push_bit 8 (take_bit (8 * n) (drop_bit 8 v)) OR ucast (ucast v :: u8)"
    using Suc.IH by simp
  also have "\<dots> = take_bit (8 * Suc n) v"
    by (rule bit_word_eqI) (auto simp: bit_simps bit_push_bit_iff bit_take_bit_iff bit_drop_bit_eq bit_or_iff bit_ucast_iff)
  finally show ?case .
qed simp

lemma read_write_le_disjoint:
  "off + n \<le> off' \<or> off' + n' \<le> off \<Longrightarrow> read_le (write_le sp off n v) off' n' = read_le sp off' n'"
  by (rule read_le_cong) (auto intro!: write_le_other)

lemma bit_read_le: "bit (read_le sp off n) i \<Longrightarrow> i < 8 * n"
proof (induction n arbitrary: off i)
  case (Suc n)
  from Suc.prems have "bit (push_bit 8 (read_le sp (off + 1) n)) i \<or> bit (ucast (sp off) :: u32) i"
    by (simp add: bit_or_iff)
  then show ?case
  proof
    assume "bit (push_bit 8 (read_le sp (off + 1) n)) i"
    then have "8 \<le> i" "bit (read_le sp (off + 1) n) (i - 8)" by (auto simp: bit_push_bit_iff)
    then show ?thesis using Suc.IH[of "off + 1" "i - 8"] by simp
  next
    assume "bit (ucast (sp off) :: u32) i"
    then show ?thesis using bit_imp_le_length[of "sp off" i] by (simp add: bit_ucast_iff)
  qed
qed simp

lemma read_le_bound: "take_bit (8 * n) (read_le sp off n) = read_le sp off n"
  by (rule bit_word_eqI) (auto simp: bit_take_bit_iff dest: bit_read_le)

definition access_len :: "nat \<Rightarrow> bool" where
  "access_len len \<longleftrightarrow> len = 1 \<or> len = 2 \<or> len = 4"

lemma host_write_eq_Inr:
  "access_len len \<Longrightarrow> host_write rt sz sp off len v = Inr sp' \<longleftrightarrow> off + len \<le> sz \<and> sp' = write_le sp off len v"
  unfolding host_write_def access_len_def by (auto simp only: if_P if_not_P sum.inject split: if_split_asm)

lemma host_read_eq_Inr:
  "access_len len \<Longrightarrow> host_read rt sz sp off len = Inr v \<longleftrightarrow> off + len \<le> sz \<and> v = read_le sp off len"
  unfolding host_read_def access_len_def by (auto simp only: if_P if_not_P sum.inject split: if_split_asm)

lemma host_read_bad: "\<not> access_len len \<Longrightarrow> host_read rt sz sp off len = (if rt then Inl (Assert_fail ''host_read'') else Inr 0)"
  by (simp add: host_read_def access_len_def)

lemma host_read_cong:
  "(\<And>i. off \<le> i \<Longrightarrow> i < off + len \<Longrightarrow> sp i = sp' i) \<Longrightarrow> host_read rt sz sp off len = host_read rt sz sp' off len"
  unfolding host_read_def by (subst read_le_cong[of off len sp sp']) auto

lemma host_read_write_same:
  assumes "host_write rt sz sp off len v = Inr sp'" and "access_len len"
  shows "host_read rt sz sp' off len = Inr (take_bit (8 * len) v)"
  using assms read_write_le_same[of sp off len v] by (simp only: host_write_eq_Inr host_read_eq_Inr)

lemma host_read_write_disjoint:
  assumes "host_write rt sz sp off len v = Inr sp'" and "off + len \<le> off' \<or> off' + len' \<le> off"
  shows "host_read rt sz sp' off' len' = host_read rt sz sp off' len'"
proof (cases "access_len len")
  case True
  then have "sp' = write_le sp off len v" using assms(1) by (simp only: host_write_eq_Inr)
  then show ?thesis using assms(2) write_le_other[of _ off len sp v] by (intro host_read_cong) auto
next
  case False
  then have "sp' = sp" using assms(1) by (auto simp: host_write_def access_len_def split: if_splits)
  then show ?thesis by simp
qed

end
