(* ===== verification/IO_Map.thy ===== *)
theory IO_Map
  imports Host Macro
begin

text \<open>
  The device address space of the emulator: the allocation of register space
  (\<open>nemu/src/device/io/map.c\<close>), the table of memory-mapped regions (\<open>mmio.c\<close>) and of port-mapped
  regions (\<open>port-io.c\<close>), and the dispatch of an access to the region that covers it.

  The static variables of these files and of the devices are the fields of one record \<open>dev\<close>, since
  every access may run a device's handler, which changes its device's variables and registers.
  All registers live in the one array \<open>io_space\<close>; a pointer into it is an offset.  The handlers are
  named by \<open>io_handler\<close> and run by a function the operations take as an argument; the device
  theory defines it.
\<close>

section \<open>Configuration\<close>

text \<open>The symbols of the build configuration the modelled code depends on.\<close>

record config =
  CONFIG_MBASE :: u32
  CONFIG_MSIZE :: u32
  CONFIG_PC_RESET_OFFSET :: u32
  CONFIG_DEVICE :: bool
  CONFIG_RT_CHECK :: bool
  CONFIG_RVE :: bool
  CONFIG_DIFFTEST :: bool
  CONFIG_TRACE :: bool
  CONFIG_TRACE_START :: u64
  CONFIG_TRACE_END :: u64
  CONFIG_ITRACE :: bool
  CONFIG_FTRACE :: bool
  CONFIG_WATCHPOINT :: bool
  CONFIG_BREAKPOINT :: bool
  CONFIG_HAS_PORT_IO :: bool
  CONFIG_HAS_SERIAL :: bool
  CONFIG_HAS_TIMER :: bool
  CONFIG_HAS_VGA :: bool
  CONFIG_HAS_KEYBOARD :: bool
  CONFIG_HAS_AUDIO :: bool
  CONFIG_HAS_SDCARD :: bool
  CONFIG_HAS_YSYXSOC :: bool
  CONFIG_VGA_SIZE_800x600 :: bool
  CONFIG_VGA_SHOW_SCREEN :: bool
  CONFIG_SERIAL_PORT :: u16
  CONFIG_SERIAL_MMIO :: u32
  CONFIG_RTC_PORT :: u16
  CONFIG_RTC_MMIO :: u32
  CONFIG_I8042_DATA_PORT :: u16
  CONFIG_I8042_DATA_MMIO :: u32
  CONFIG_VGA_CTL_PORT :: u16
  CONFIG_VGA_CTL_MMIO :: u32
  CONFIG_FB_ADDR :: u32
  CONFIG_AUDIO_CTL_PORT :: u16
  CONFIG_AUDIO_CTL_MMIO :: u32
  CONFIG_SB_ADDR :: u32
  CONFIG_SB_SIZE :: u32
  CONFIG_SDCARD_CTL_MMIO :: u32
  CONFIG_MROM_BASE :: u32
  CONFIG_MROM_SIZE :: u32
  CONFIG_SRAM_BASE :: u32
  CONFIG_SRAM_SIZE :: u32
  CONFIG_FLASH_BASE :: u32
  CONFIG_FLASH_SIZE :: u32
  CONFIG_PSRAM_BASE :: u32
  CONFIG_PSRAM_SIZE :: u32
  CONFIG_SDRAM_BASE :: u32
  CONFIG_SDRAM_SIZE :: u32
  CONFIG_UART_BASE :: u32
  CONFIG_UART_SIZE :: u32

definition PMEM_LEFT :: "config \<Rightarrow> u32" where
  "PMEM_LEFT cfg = CONFIG_MBASE cfg"

definition PMEM_RIGHT :: "config \<Rightarrow> u32" where
  "PMEM_RIGHT cfg = CONFIG_MBASE cfg + CONFIG_MSIZE cfg - 1"

definition RESET_VECTOR :: "config \<Rightarrow> u32" where
  "RESET_VECTOR cfg = PMEM_LEFT cfg + CONFIG_PC_RESET_OFFSET cfg"

definition in_pmem :: "config \<Rightarrow> u32 \<Rightarrow> bool" where
  "in_pmem cfg addr \<longleftrightarrow> addr - CONFIG_MBASE cfg < CONFIG_MSIZE cfg"

section \<open>State\<close>

datatype io_handler = Serial_handler | Rtc_handler | I8042_handler | Audio_handler | Sdcard_handler | Uart_handler

datatype alarm_handler = Timer_intr

record IOMap =
  name :: string
  low :: u32
  high :: u32
  space :: nat
  callback :: "io_handler option"

record dev =
  io_space :: bytes
  p_space :: nat
  mmio_maps :: "IOMap list"
  pio_maps :: "IOMap list"
  is_skip_ref :: bool
  skip_dut_nr_inst :: int
  in_difftest_tracesim :: bool
  serial_base :: nat
  serial_out :: "u8 list"
  host_stdin :: "u8 list"
  rtc_port_base :: nat
  boot_time :: u64
  host_clock :: u64
  keymap :: "u8 \<Rightarrow> u32"
  key_queue :: "u32 list"
  key_f :: nat
  key_r :: nat
  i8042_data_port_base :: nat
  vgactl_port_base :: nat
  vmem :: nat
  frames :: nat
  audio_base :: nat
  sbuf :: nat
  audio_opened :: bool
  sd_base :: nat
  sd_fp :: "(u8 list \<times> nat) option"
  blkcnt :: u32
  blk_addr :: u32
  sd_addr :: u32
  write_cmd :: bool
  read_ext_csd :: bool
  uart_base :: nat
  alarm_handlers :: "alarm_handler list"
  dev_last :: u64

type_synonym run_handler = "io_handler \<Rightarrow> u32 \<Rightarrow> nat \<Rightarrow> bool \<Rightarrow> dev \<Rightarrow> dev res"

section \<open>map.c\<close>

definition IO_SPACE_MAX :: nat where
  "IO_SPACE_MAX = 512 * 1024 * 1024"

definition PAGE_SIZE :: nat where
  "PAGE_SIZE = 4096"

definition init_map :: "dev \<Rightarrow> dev" where
  "init_map d = d\<lparr>p_space := 0\<rparr>"

text \<open>The size is an \<open>int\<close>; a negative one would move the pointer backwards, out of the array.\<close>

definition new_space :: "u32 \<Rightarrow> dev \<Rightarrow> (nat \<times> dev) res" where
  "new_space sz d = (let
     p = p_space d;
     sz = (sz + (of_nat PAGE_SIZE - 1)) AND NOT (of_nat PAGE_SIZE - 1);
     d = d\<lparr>p_space := p_space d + unat sz\<rparr>
   in if sint sz < 0 then Inl (Undefined ''negative size'')
      else assert_res ''p_space - io_space < IO_SPACE_MAX'' (p_space d < IO_SPACE_MAX) (Inr (p, d)))"

definition map_inside :: "IOMap \<Rightarrow> u32 \<Rightarrow> bool" where
  "map_inside m addr \<longleftrightarrow> addr \<ge> low m \<and> addr \<le> high m"

text \<open>The variables of \<open>dut.c\<close>; a build without differential testing never reads them.\<close>

definition difftest_skip_ref :: "dev \<Rightarrow> dev" where
  "difftest_skip_ref d = d\<lparr>is_skip_ref := True, skip_dut_nr_inst := 0\<rparr>"

fun find_map :: "IOMap list \<Rightarrow> u32 \<Rightarrow> IOMap option" where
  "find_map [] addr = None"
| "find_map (m # ms) addr = (if map_inside m addr then Some m else find_map ms addr)"

definition find_mapid_by_addr :: "IOMap list \<Rightarrow> u32 \<Rightarrow> dev \<Rightarrow> IOMap option \<times> dev" where
  "find_mapid_by_addr maps addr d =
     (case find_map maps addr of None \<Rightarrow> (None, d) | Some m \<Rightarrow> (Some m, difftest_skip_ref d))"

definition check_bound :: "IOMap option \<Rightarrow> u32 \<Rightarrow> IOMap res" where
  "check_bound mo addr = (case mo of
     None \<Rightarrow> Inl (Assert_fail ''address is out of bound'')
   | Some m \<Rightarrow> assert_res ''address is out of bound of the map'' (addr \<le> high m \<and> addr \<ge> low m) (Inr m))"

definition invoke_callback :: "run_handler \<Rightarrow> io_handler option \<Rightarrow> u32 \<Rightarrow> nat \<Rightarrow> bool \<Rightarrow> dev \<Rightarrow> dev res" where
  "invoke_callback run c offset len is_write d =
     (case c of None \<Rightarrow> Inr d | Some h \<Rightarrow> run h offset len is_write d)"

definition map_read :: "config \<Rightarrow> run_handler \<Rightarrow> u32 \<Rightarrow> nat \<Rightarrow> IOMap option \<Rightarrow> dev \<Rightarrow> (u32 \<times> dev) res" where
  "map_read cfg run addr len mo d =
     (if in_difftest_tracesim d \<and> mo = None then Inr (0, d)
      else assert_res ''len >= 1 && len <= 8'' (1 \<le> len \<and> len \<le> 8)
        (bind_res (check_bound mo addr) (\<lambda>m. let offset = addr - low m in
         bind_res (invoke_callback run (callback m) offset len False d) (\<lambda>d.
         bind_res (host_read (CONFIG_RT_CHECK cfg) IO_SPACE_MAX (io_space d) (space m + unat offset) len) (\<lambda>v.
         Inr (v, d))))))"

definition map_write :: "config \<Rightarrow> run_handler \<Rightarrow> u32 \<Rightarrow> nat \<Rightarrow> u32 \<Rightarrow> IOMap option \<Rightarrow> dev \<Rightarrow> dev res" where
  "map_write cfg run addr len data mo d =
     (if in_difftest_tracesim d \<and> mo = None then Inr d
      else assert_res ''len >= 1 && len <= 8'' (1 \<le> len \<and> len \<le> 8)
        (bind_res (check_bound mo addr) (\<lambda>m. let offset = addr - low m in
         bind_res (host_write (CONFIG_RT_CHECK cfg) IO_SPACE_MAX (io_space d) (space m + unat offset) len data) (\<lambda>sp.
         invoke_callback run (callback m) offset len True (d\<lparr>io_space := sp\<rparr>)))))"

section \<open>mmio.c\<close>

definition NR_MAP :: nat where
  "NR_MAP = 16"

definition fetch_mmio_map :: "u32 \<Rightarrow> dev \<Rightarrow> IOMap option \<times> dev" where
  "fetch_mmio_map addr d = find_mapid_by_addr (mmio_maps d) addr d"

definition overlaps :: "u32 \<Rightarrow> u32 \<Rightarrow> IOMap \<Rightarrow> bool" where
  "overlaps left right m \<longleftrightarrow> left \<le> high m \<and> right \<ge> low m"

definition add_mmio_map ::
  "config \<Rightarrow> string \<Rightarrow> u32 \<Rightarrow> nat \<Rightarrow> u32 \<Rightarrow> io_handler option \<Rightarrow> dev \<Rightarrow> dev res" where
  "add_mmio_map cfg nm addr sp len cb d =
     assert_res ''nr_map < NR_MAP'' (length (mmio_maps d) < NR_MAP)
       (let left = addr; right = addr + len - 1 in
        if in_pmem cfg left \<or> in_pmem cfg right then Inl (Panic ''MMIO region is overlapped with pmem'')
        else if list_ex (overlaps left right) (mmio_maps d) then Inl (Panic ''MMIO region is overlapped'')
        else Inr (d\<lparr>mmio_maps := mmio_maps d @
               [\<lparr>name = nm, low = addr, high = addr + len - 1, space = sp, callback = cb\<rparr>]\<rparr>))"

definition mmio_read :: "config \<Rightarrow> run_handler \<Rightarrow> u32 \<Rightarrow> nat \<Rightarrow> dev \<Rightarrow> (u32 \<times> dev) res" where
  "mmio_read cfg run addr len d = (case fetch_mmio_map addr d of (mo, d) \<Rightarrow> map_read cfg run addr len mo d)"

definition mmio_write :: "config \<Rightarrow> run_handler \<Rightarrow> u32 \<Rightarrow> nat \<Rightarrow> u32 \<Rightarrow> dev \<Rightarrow> dev res" where
  "mmio_write cfg run addr len data d = (case fetch_mmio_map addr d of (mo, d) \<Rightarrow> map_write cfg run addr len data mo d)"

section \<open>port-io.c\<close>

text \<open>\<open>ioaddr_t\<close> has 16 bits and is promoted to 32-bit unsigned arithmetic with the length.\<close>

definition PORT_IO_SPACE_MAX :: u32 where
  "PORT_IO_SPACE_MAX = 65535"

definition add_pio_map :: "string \<Rightarrow> u16 \<Rightarrow> nat \<Rightarrow> u32 \<Rightarrow> io_handler option \<Rightarrow> dev \<Rightarrow> dev res" where
  "add_pio_map nm addr sp len cb d =
     assert_res ''nr_map < NR_MAP'' (length (pio_maps d) < NR_MAP)
       (assert_res ''addr + len <= PORT_IO_SPACE_MAX'' (ucast addr + len \<le> PORT_IO_SPACE_MAX)
         (Inr (d\<lparr>pio_maps := pio_maps d @
            [\<lparr>name = nm, low = ucast addr, high = ucast addr + len - 1, space = sp, callback = cb\<rparr>]\<rparr>)))"

definition pio_read :: "config \<Rightarrow> run_handler \<Rightarrow> u16 \<Rightarrow> nat \<Rightarrow> dev \<Rightarrow> (u32 \<times> dev) res" where
  "pio_read cfg run addr len d =
     assert_res ''addr + len - 1 < PORT_IO_SPACE_MAX'' (uint addr + int len - 1 < uint PORT_IO_SPACE_MAX)
       (case find_mapid_by_addr (pio_maps d) (ucast addr) d of (mo, d) \<Rightarrow>
          assert_res ''mapid != -1'' (mo \<noteq> None) (map_read cfg run (ucast addr) len mo d))"

definition pio_write :: "config \<Rightarrow> run_handler \<Rightarrow> u16 \<Rightarrow> nat \<Rightarrow> u32 \<Rightarrow> dev \<Rightarrow> dev res" where
  "pio_write cfg run addr len data d =
     assert_res ''addr + len - 1 < PORT_IO_SPACE_MAX'' (uint addr + int len - 1 < uint PORT_IO_SPACE_MAX)
       (case find_mapid_by_addr (pio_maps d) (ucast addr) d of (mo, d) \<Rightarrow>
          assert_res ''mapid != -1'' (mo \<noteq> None) (map_write cfg run (ucast addr) len data mo d))"

end
