(* ===== verification/Devices.thy ===== *)
theory Devices
  imports IO_Map
begin

text \<open>
  The devices of the emulator (\<open>nemu/src/device\<close>): serial port, real-time clock, keyboard, VGA,
  audio, SD card and the ysyxSoC regions, their register handlers, their initialisation and the
  periodic update.  Of the host the model has the byte streams of the console, the clock, the
  window system's event queue and the SD card image; the SDL library itself is not modelled.
\<close>

section \<open>Registers of 32 bits\<close>

definition reg32 :: "nat \<Rightarrow> nat \<Rightarrow> dev \<Rightarrow> u32" where
  "reg32 base i d = read_le (io_space d) (base + 4 * i) 4"

definition set_reg32 :: "nat \<Rightarrow> nat \<Rightarrow> u32 \<Rightarrow> dev \<Rightarrow> dev" where
  "set_reg32 base i v d = d\<lparr>io_space := write_le (io_space d) (base + 4 * i) 4 v\<rparr>"

text \<open>\<open>memset(p, 0, n)\<close> on register space.\<close>

definition clear_space :: "nat \<Rightarrow> nat \<Rightarrow> dev \<Rightarrow> dev" where
  "clear_space p n d = d\<lparr>io_space := (\<lambda>i. if p \<le> i \<and> i < p + n then 0 else io_space d i)\<rparr>"

section \<open>Host time\<close>

definition get_time :: "dev \<Rightarrow> u64 \<times> dev" where
  "get_time d = (let d = (if boot_time d = 0 then d\<lparr>boot_time := host_clock d\<rparr> else d)
     in (host_clock d - boot_time d, d))"

section \<open>Serial port\<close>

definition serial_putc :: "u8 \<Rightarrow> dev \<Rightarrow> dev" where
  "serial_putc ch d = d\<lparr>serial_out := serial_out d @ [ch]\<rparr>"

text \<open>\<open>getchar\<close> returns \<open>EOF\<close>, -1, at the end of the input.\<close>

definition serial_getc :: "dev \<Rightarrow> u8 \<times> dev" where
  "serial_getc d = (case host_stdin d of [] \<Rightarrow> (- 1, d) | c # cs \<Rightarrow> (c, d\<lparr>host_stdin := cs\<rparr>))"

definition serial_io_handler :: "u32 \<Rightarrow> nat \<Rightarrow> bool \<Rightarrow> dev \<Rightarrow> dev res" where
  "serial_io_handler offset len is_write d =
     assert_res ''len == 1'' (len = 1)
       (if offset = 0 then
          if is_write then Inr (serial_putc (io_space d (serial_base d)) d)
          else (case serial_getc d of (c, d) \<Rightarrow> Inr (d\<lparr>io_space := (io_space d)(serial_base d := c)\<rparr>))
        else Inl (Panic ''do not support offset''))"

section \<open>Real-time clock\<close>

definition rtc_io_handler :: "u32 \<Rightarrow> nat \<Rightarrow> bool \<Rightarrow> dev \<Rightarrow> dev res" where
  "rtc_io_handler offset len is_write d =
     assert_res ''offset == 0 || offset == 4'' (offset = 0 \<or> offset = 4)
       (if \<not> is_write \<and> offset = 4 then
          case get_time d of (us, d) \<Rightarrow>
            Inr (set_reg32 (rtc_port_base d) 1 (ucast (drop_bit 32 us))
                  (set_reg32 (rtc_port_base d) 0 (ucast us) d))
        else Inr d)"

section \<open>Alarm\<close>

definition MAX_HANDLER :: nat where
  "MAX_HANDLER = 8"

definition add_alarm_handle :: "alarm_handler \<Rightarrow> dev \<Rightarrow> dev res" where
  "add_alarm_handle h d = assert_res ''idx < MAX_HANDLER'' (length (alarm_handlers d) < MAX_HANDLER)
     (Inr (d\<lparr>alarm_handlers := alarm_handlers d @ [h]\<rparr>))"

section \<open>Keyboard\<close>

definition KEYDOWN_MASK :: u32 where
  "KEYDOWN_MASK = 0x8000"

definition NEMU_KEY_NONE :: u32 where
  "NEMU_KEY_NONE = 0"

definition NEMU_KEYS :: "string list" where
  "NEMU_KEYS =
    [''ESCAPE'', ''F1'', ''F2'', ''F3'', ''F4'', ''F5'', ''F6'', ''F7'', ''F8'', ''F9'', ''F10'', ''F11'', ''F12'',
     ''GRAVE'', ''1'', ''2'', ''3'', ''4'', ''5'', ''6'', ''7'', ''8'', ''9'', ''0'', ''MINUS'', ''EQUALS'', ''BACKSPACE'',
     ''TAB'', ''Q'', ''W'', ''E'', ''R'', ''T'', ''Y'', ''U'', ''I'', ''O'', ''P'', ''LEFTBRACKET'', ''RIGHTBRACKET'', ''BACKSLASH'',
     ''CAPSLOCK'', ''A'', ''S'', ''D'', ''F'', ''G'', ''H'', ''J'', ''K'', ''L'', ''SEMICOLON'', ''APOSTROPHE'', ''RETURN'',
     ''LSHIFT'', ''Z'', ''X'', ''C'', ''V'', ''B'', ''N'', ''M'', ''COMMA'', ''PERIOD'', ''SLASH'', ''RSHIFT'',
     ''LCTRL'', ''APPLICATION'', ''LALT'', ''SPACE'', ''RALT'', ''RCTRL'',
     ''UP'', ''DOWN'', ''LEFT'', ''RIGHT'', ''INSERT'', ''DELETE'', ''HOME'', ''END'', ''PAGEUP'', ''PAGEDOWN'']"

text \<open>\<open>init_keymap\<close> takes the SDL scancodes, which SDL's headers define, as an argument; the key codes
  number the keys from 1.\<close>

fun init_keys :: "(string \<Rightarrow> u8) \<Rightarrow> u32 \<Rightarrow> string list \<Rightarrow> (u8 \<Rightarrow> u32) \<Rightarrow> u8 \<Rightarrow> u32" where
  "init_keys sdl code [] km = km"
| "init_keys sdl code (k # ks) km = init_keys sdl (code + 1) ks (km(sdl k := code))"

definition init_keymap :: "(string \<Rightarrow> u8) \<Rightarrow> dev \<Rightarrow> dev" where
  "init_keymap sdl d = d\<lparr>keymap := init_keys sdl 1 NEMU_KEYS (keymap d)\<rparr>"

definition KEY_QUEUE_LEN :: nat where
  "KEY_QUEUE_LEN = 1024"

definition key_enqueue :: "u32 \<Rightarrow> dev \<Rightarrow> dev res" where
  "key_enqueue am_scancode d = (let
     d = d\<lparr>key_queue := (key_queue d)[key_r d := am_scancode]\<rparr>;
     d = d\<lparr>key_r := (key_r d + 1) mod KEY_QUEUE_LEN\<rparr>
   in assert_res ''key queue overflow!'' (key_r d \<noteq> key_f d) (Inr d))"

definition key_dequeue :: "dev \<Rightarrow> u32 \<times> dev" where
  "key_dequeue d =
     (if key_f d \<noteq> key_r d
      then (key_queue d ! key_f d, d\<lparr>key_f := (key_f d + 1) mod KEY_QUEUE_LEN\<rparr>)
      else (NEMU_KEY_NONE, d))"

datatype run_state = NEMU_RUNNING | NEMU_STOP | NEMU_END | NEMU_ABORT | NEMU_QUIT

definition send_key :: "run_state \<Rightarrow> u8 \<Rightarrow> bool \<Rightarrow> dev \<Rightarrow> dev res" where
  "send_key st scancode is_keydown d =
     (if st = NEMU_RUNNING \<and> keymap d scancode \<noteq> NEMU_KEY_NONE
      then key_enqueue (keymap d scancode OR (if is_keydown then KEYDOWN_MASK else 0)) d
      else Inr d)"

definition i8042_data_io_handler :: "u32 \<Rightarrow> nat \<Rightarrow> bool \<Rightarrow> dev \<Rightarrow> dev res" where
  "i8042_data_io_handler offset len is_write d =
     assert_res ''!is_write'' (\<not> is_write) (assert_res ''offset == 0'' (offset = 0)
       (case key_dequeue d of (k, d) \<Rightarrow> Inr (set_reg32 (i8042_data_port_base d) 0 k d)))"

section \<open>VGA\<close>

definition screen_width :: "config \<Rightarrow> u32" where
  "screen_width cfg = (if CONFIG_VGA_SIZE_800x600 cfg then 800 else 400)"

definition screen_height :: "config \<Rightarrow> u32" where
  "screen_height cfg = (if CONFIG_VGA_SIZE_800x600 cfg then 600 else 300)"

definition screen_size :: "config \<Rightarrow> u32" where
  "screen_size cfg = screen_width cfg * screen_height cfg * 4"

text \<open>The frames shown are counted.\<close>

definition vga_update_screen :: "dev \<Rightarrow> dev" where
  "vga_update_screen d =
     (if reg32 (vgactl_port_base d) 1 d \<noteq> 0
      then set_reg32 (vgactl_port_base d) 1 0 (d\<lparr>frames := frames d + 1\<rparr>) else d)"

section \<open>Audio\<close>

definition reg_freq :: nat where "reg_freq = 0"
definition reg_channels :: nat where "reg_channels = 1"
definition reg_samples :: nat where "reg_samples = 2"
definition reg_sbuf_size :: nat where "reg_sbuf_size = 3"
definition reg_init :: nat where "reg_init = 4"
definition reg_count :: nat where "reg_count = 5"
definition reg_wptr :: nat where "reg_wptr = 6"
definition reg_rptr :: nat where "reg_rptr = 7"
definition nr_reg :: nat where "nr_reg = 8"

lemmas audio_regs = reg_freq_def reg_channels_def reg_samples_def reg_sbuf_size_def reg_init_def
  reg_count_def reg_wptr_def reg_rptr_def nr_reg_def

text \<open>The bytes \<open>[p, p + n)\<close> of the register space.\<close>

definition space_bytes :: "nat \<Rightarrow> nat \<Rightarrow> dev \<Rightarrow> u8 list" where
  "space_bytes p n d = map (\<lambda>i. io_space d (p + i)) [0..<n]"

text \<open>The callback fills a stream of \<open>len\<close> bytes, which the model returns.  A zero buffer size divides
  by zero.\<close>

definition sdl_audio_callback :: "u32 \<Rightarrow> dev \<Rightarrow> (u8 list \<times> dev) res" where
  "sdl_audio_callback len d = (let
     wptr = reg32 (audio_base d) reg_wptr d;
     rptr = reg32 (audio_base d) reg_rptr d;
     sbuf_size = reg32 (audio_base d) reg_sbuf_size d
   in if sbuf_size = 0 then Inl (Undefined ''modulo by zero'')
      else let
        available = (wptr + sbuf_size - rptr) mod sbuf_size;
        to_copy = (if len \<le> available then len else available);
        first_chunk = sbuf_size - rptr;
        stream =
          (if to_copy \<le> first_chunk then space_bytes (sbuf d + unat rptr) (unat to_copy) d
           else space_bytes (sbuf d + unat rptr) (unat first_chunk) d @
                space_bytes (sbuf d) (unat (to_copy - first_chunk)) d);
        stream = stream @ (if len > to_copy then replicate (unat (len - to_copy)) 0 else [])
      in Inr (stream, set_reg32 (audio_base d) reg_rptr ((rptr + to_copy) mod sbuf_size) d))"

definition audio_io_handler :: "config \<Rightarrow> u32 \<Rightarrow> nat \<Rightarrow> bool \<Rightarrow> dev \<Rightarrow> dev res" where
  "audio_io_handler cfg offset len is_write d =
     (if unat offset \<in> {4 * reg_freq, 4 * reg_channels, 4 * reg_samples, 4 * reg_wptr} then Inr d
      else if unat offset \<in> {4 * reg_sbuf_size, 4 * reg_rptr} then
        assert_res ''write to read-only register.'' (\<not> is_write) (Inr d)
      else if unat offset = 4 * reg_count then
        assert_res ''write to read-only register.'' (\<not> is_write)
          (if CONFIG_SB_SIZE cfg = 0 then Inl (Undefined ''modulo by zero'')
           else Inr (set_reg32 (audio_base d) reg_count
            ((reg32 (audio_base d) reg_wptr d + CONFIG_SB_SIZE cfg - reg32 (audio_base d) reg_rptr d) mod CONFIG_SB_SIZE cfg) d))
      else if unat offset = 4 * reg_init then Inr (d\<lparr>audio_opened := True\<rparr>)
      else Inl (Panic ''audio: unknown offset''))"

section \<open>SD card\<close>

definition MEMORY_SIZE :: u64 where "MEMORY_SIZE = 16 * 1024 * 1024 * 1024"
definition READ_BL_LEN :: nat where "READ_BL_LEN = 15"
definition C_SIZE :: u64 where "C_SIZE = MEMORY_SIZE div push_bit READ_BL_LEN 1 div push_bit (7 + 2) 1 - 1"

definition SDCMD :: nat where "SDCMD = 0"
definition SDARG :: nat where "SDARG = 1"
definition SDRSP0 :: nat where "SDRSP0 = 4"
definition SDRSP1 :: nat where "SDRSP1 = 5"
definition SDRSP2 :: nat where "SDRSP2 = 6"
definition SDRSP3 :: nat where "SDRSP3 = 7"
definition SDDATA :: nat where "SDDATA = 16"

lemmas sd_regs = SDCMD_def SDARG_def SDRSP0_def SDRSP1_def SDRSP2_def SDRSP3_def SDDATA_def

definition sd_reg :: "nat \<Rightarrow> dev \<Rightarrow> u32" where
  "sd_reg i d = reg32 (sd_base d) i d"

definition set_sd_reg :: "nat \<Rightarrow> u32 \<Rightarrow> dev \<Rightarrow> dev" where
  "set_sd_reg i v d = set_reg32 (sd_base d) i v d"

definition prepare_rw :: "bool \<Rightarrow> dev \<Rightarrow> dev" where
  "prepare_rw is_write d = (let
     d = d\<lparr>blk_addr := sd_reg SDARG d, sd_addr := 0\<rparr>;
     d = d\<lparr>sd_fp := map_option (\<lambda>(file, _). (file, unat (blk_addr d) * 512)) (sd_fp d)\<rparr>
   in d\<lparr>write_cmd := is_write\<rparr>)"

definition sdcard_handle_cmd :: "u32 \<Rightarrow> dev \<Rightarrow> dev res" where
  "sdcard_handle_cmd cmd d =
     (if cmd \<in> {0, 52, 5, 55, 3, 7, 12} then Inr d
      else if cmd = 1 then Inr (set_sd_reg SDRSP0 0x80ff8000 d)
      else if cmd = 2 then
        Inr (set_sd_reg SDRSP3 0x15000000 (set_sd_reg SDRSP2 0 (set_sd_reg SDRSP1 0 (set_sd_reg SDRSP0 1 d))))
      else if cmd = 9 then
        Inr (set_sd_reg SDRSP3 0x9026012a
            (set_sd_reg SDRSP2 (ucast (0x0f508000 OR drop_bit 2 C_SIZE OR push_bit 16 (of_nat READ_BL_LEN)))
            (set_sd_reg SDRSP1 (ucast (0x124b97e3 OR push_bit 30 (C_SIZE AND 3)))
            (set_sd_reg SDRSP0 0x92404001 d))))
      else if cmd = 8 then Inr (d\<lparr>read_ext_csd := True, sd_addr := 0\<rparr>)
      else if cmd = 23 then Inr (d\<lparr>blkcnt := sd_reg SDARG d AND 0xffff\<rparr>)
      else if cmd = 18 then Inr (prepare_rw False d)
      else if cmd = 25 then Inr (prepare_rw True d)
      else if cmd = 13 then
        Inr (set_sd_reg SDRSP1 0 (set_sd_reg SDRSP2 0 (set_sd_reg SDRSP3 0 (set_sd_reg SDRSP0 0x900 d))))
      else Inl (Panic ''unhandled command''))"

text \<open>\<open>fread(p, 4, 1, fp)\<close> stores the bytes the file still has, up to four; \<open>fwrite\<close> replaces or
  appends, filling a gap behind the end with zeros.\<close>

fun store_bytes :: "bytes \<Rightarrow> nat \<Rightarrow> u8 list \<Rightarrow> bytes" where
  "store_bytes sp p [] = sp"
| "store_bytes sp p (b # bs) = store_bytes (sp(p := b)) (p + 1) bs"

definition file_write :: "u8 list \<Rightarrow> nat \<Rightarrow> u8 list \<Rightarrow> u8 list" where
  "file_write file pos bs =
     (let file = file @ replicate (pos - length file) 0 in take pos file @ bs @ drop (pos + length bs) file)"

definition sd_transfer :: "dev \<Rightarrow> dev" where
  "sd_transfer d = (case sd_fp d of None \<Rightarrow> d
   | Some (file, pos) \<Rightarrow> (let p = sd_base d + 4 * SDDATA in
       if \<not> write_cmd d then
         let bs = take 4 (drop pos file) in
         d\<lparr>io_space := store_bytes (io_space d) p bs, sd_fp := Some (file, pos + length bs)\<rparr>
       else d\<lparr>sd_fp := Some (file_write file pos (space_bytes p 4 d), pos + 4)\<rparr>))"

definition sdcard_io_handler :: "u32 \<Rightarrow> nat \<Rightarrow> bool \<Rightarrow> dev \<Rightarrow> dev res" where
  "sdcard_io_handler offset len is_write d = (let idx = unat offset div 4 in
     if idx = SDCMD then sdcard_handle_cmd (sd_reg SDCMD d AND 0x3f) d
     else if idx \<in> {SDARG, SDRSP0, SDRSP1, SDRSP2, SDRSP3} then Inr d
     else if idx = SDDATA then
       let d = (if read_ext_csd d then
           let data = (if sd_addr d = 192 then 2
                       else if sd_addr d = 212 then ucast (MEMORY_SIZE div 512) else 0);
               d = set_sd_reg SDDATA data d
           in (if sd_addr d = 512 - 4 then d\<lparr>read_ext_csd := False\<rparr> else d)
         else sd_transfer d)
       in Inr (d\<lparr>sd_addr := sd_addr d + 4\<rparr>)
     else Inl (Panic ''unhandle offset''))"

section \<open>ysyxSoC UART\<close>

definition UART_LSR :: nat where "UART_LSR = 5"

definition uart_io_handler :: "u32 \<Rightarrow> nat \<Rightarrow> bool \<Rightarrow> dev \<Rightarrow> dev res" where
  "uart_io_handler offset len is_write d =
     assert_res ''len == 1'' (len = 1)
       (if unat offset = UART_LSR
        then Inr (d\<lparr>io_space := (io_space d)(uart_base d + UART_LSR := push_bit 5 1)\<rparr>) else Inr d)"

section \<open>Dispatch\<close>

definition run_handler :: "config \<Rightarrow> run_handler" where
  "run_handler cfg h = (case h of
     Serial_handler \<Rightarrow> serial_io_handler
   | Rtc_handler \<Rightarrow> rtc_io_handler
   | I8042_handler \<Rightarrow> i8042_data_io_handler
   | Audio_handler \<Rightarrow> audio_io_handler cfg
   | Sdcard_handler \<Rightarrow> sdcard_io_handler
   | Uart_handler \<Rightarrow> uart_io_handler)"

section \<open>Initialisation\<close>

text \<open>The registers of a device are port-mapped or memory-mapped, by configuration.\<close>

definition add_io_map :: "config \<Rightarrow> string \<Rightarrow> u16 \<Rightarrow> u32 \<Rightarrow> nat \<Rightarrow> u32 \<Rightarrow> io_handler option \<Rightarrow> dev \<Rightarrow> dev res" where
  "add_io_map cfg nm port mmio sp len cb d =
     (if CONFIG_HAS_PORT_IO cfg then add_pio_map nm port sp len cb d
      else add_mmio_map cfg nm mmio sp len cb d)"

definition init_serial :: "config \<Rightarrow> dev \<Rightarrow> dev res" where
  "init_serial cfg d = bind_res (new_space 8 d) (\<lambda>(p, d).
     add_io_map cfg ''serial'' (CONFIG_SERIAL_PORT cfg) (CONFIG_SERIAL_MMIO cfg) p 8 (Some Serial_handler)
       (d\<lparr>serial_base := p\<rparr>))"

definition init_timer :: "config \<Rightarrow> dev \<Rightarrow> dev res" where
  "init_timer cfg d = bind_res (new_space 8 d) (\<lambda>(p, d).
     bind_res (add_io_map cfg ''rtc'' (CONFIG_RTC_PORT cfg) (CONFIG_RTC_MMIO cfg) p 8 (Some Rtc_handler)
       (d\<lparr>rtc_port_base := p\<rparr>)) (add_alarm_handle Timer_intr))"

definition init_i8042 :: "config \<Rightarrow> (string \<Rightarrow> u8) \<Rightarrow> dev \<Rightarrow> dev res" where
  "init_i8042 cfg sdl d = bind_res (new_space 4 d) (\<lambda>(p, d).
     bind_res (add_io_map cfg ''keyboard'' (CONFIG_I8042_DATA_PORT cfg) (CONFIG_I8042_DATA_MMIO cfg) p 4
       (Some I8042_handler) (set_reg32 p 0 NEMU_KEY_NONE (d\<lparr>i8042_data_port_base := p\<rparr>)))
     (\<lambda>d. Inr (init_keymap sdl d)))"

definition init_vga :: "config \<Rightarrow> dev \<Rightarrow> dev res" where
  "init_vga cfg d = bind_res (new_space 8 d) (\<lambda>(p, d).
     bind_res (add_io_map cfg ''vgactl'' (CONFIG_VGA_CTL_PORT cfg) (CONFIG_VGA_CTL_MMIO cfg) p 8 None
       (set_reg32 p 0 (push_bit 16 (screen_width cfg) OR screen_height cfg) (d\<lparr>vgactl_port_base := p\<rparr>))) (\<lambda>d.
     bind_res (new_space (screen_size cfg) d) (\<lambda>(q, d).
     bind_res (add_mmio_map cfg ''vmem'' (CONFIG_FB_ADDR cfg) q (screen_size cfg) None (d\<lparr>vmem := q\<rparr>)) (\<lambda>d.
     Inr (if CONFIG_VGA_SHOW_SCREEN cfg then clear_space q (unat (screen_size cfg)) d else d)))))"

definition init_audio :: "config \<Rightarrow> dev \<Rightarrow> dev res" where
  "init_audio cfg d = (let space_size = of_nat (4 * nr_reg) in
     bind_res (new_space space_size d) (\<lambda>(p, d).
     bind_res (add_io_map cfg ''audio'' (CONFIG_AUDIO_CTL_PORT cfg) (CONFIG_AUDIO_CTL_MMIO cfg) p space_size
       (Some Audio_handler)
       (set_reg32 p reg_sbuf_size (CONFIG_SB_SIZE cfg) (clear_space p (4 * nr_reg) (d\<lparr>audio_base := p\<rparr>)))) (\<lambda>d.
     bind_res (new_space (CONFIG_SB_SIZE cfg) d) (\<lambda>(q, d).
     add_mmio_map cfg ''audio-sbuf'' (CONFIG_SB_ADDR cfg) q (CONFIG_SB_SIZE cfg) None (d\<lparr>sbuf := q\<rparr>)))))"

text \<open>The image file, if it could be opened, is an argument.\<close>

definition init_sdcard :: "config \<Rightarrow> u8 list option \<Rightarrow> dev \<Rightarrow> dev res" where
  "init_sdcard cfg img d = bind_res (new_space 0x80 d) (\<lambda>(p, d).
     bind_res (add_mmio_map cfg ''sdhci'' (CONFIG_SDCARD_CTL_MMIO cfg) p 0x80 (Some Sdcard_handler) (d\<lparr>sd_base := p\<rparr>)) (\<lambda>d.
     assert_res ''shoule be fit in 12 bits'' (C_SIZE < push_bit 12 1)
       (Inr (d\<lparr>sd_fp := map_option (\<lambda>f. (f, 0)) img\<rparr>))))"

definition init_ysyxsoc :: "config \<Rightarrow> dev \<Rightarrow> dev res" where
  "init_ysyxsoc cfg d =
     bind_res (new_space (CONFIG_MROM_SIZE cfg) d) (\<lambda>(mrom, d).
     bind_res (new_space (CONFIG_SRAM_SIZE cfg) d) (\<lambda>(sram, d).
     bind_res (new_space (CONFIG_FLASH_SIZE cfg) d) (\<lambda>(flash, d).
     bind_res (new_space (CONFIG_PSRAM_SIZE cfg) d) (\<lambda>(psram, d).
     bind_res (new_space (CONFIG_SDRAM_SIZE cfg) d) (\<lambda>(sdram, d).
     bind_res (new_space (CONFIG_UART_SIZE cfg) d) (\<lambda>(uart, d).
     bind_res (add_mmio_map cfg ''ysyxsoc_mrom'' (CONFIG_MROM_BASE cfg) mrom (CONFIG_MROM_SIZE cfg) None (d\<lparr>uart_base := uart\<rparr>)) (\<lambda>d.
     bind_res (add_mmio_map cfg ''ysyxsoc_sram'' (CONFIG_SRAM_BASE cfg) sram (CONFIG_SRAM_SIZE cfg) None d) (\<lambda>d.
     bind_res (add_mmio_map cfg ''ysyxsoc_flash'' (CONFIG_FLASH_BASE cfg) flash (CONFIG_FLASH_SIZE cfg) None d) (\<lambda>d.
     bind_res (add_mmio_map cfg ''ysyxsoc_psram'' (CONFIG_PSRAM_BASE cfg) psram (CONFIG_PSRAM_SIZE cfg) None d) (\<lambda>d.
     bind_res (add_mmio_map cfg ''ysyxsoc_sdram'' (CONFIG_SDRAM_BASE cfg) sdram (CONFIG_SDRAM_SIZE cfg) None d) (\<lambda>d.
     add_mmio_map cfg ''ysyxsoc_uart'' (CONFIG_UART_BASE cfg) uart (CONFIG_UART_SIZE cfg) (Some Uart_handler) d)))))))))))"

definition when_res :: "bool \<Rightarrow> ('a \<Rightarrow> 'a res) \<Rightarrow> 'a \<Rightarrow> 'a res" where
  "when_res b f x = (if b then f x else Inr x)"

definition init_device :: "config \<Rightarrow> (string \<Rightarrow> u8) \<Rightarrow> u8 list option \<Rightarrow> dev \<Rightarrow> dev res" where
  "init_device cfg sdl img d =
     bind_res (when_res (CONFIG_HAS_SERIAL cfg) (init_serial cfg) (init_map d)) (\<lambda>d.
     bind_res (when_res (CONFIG_HAS_TIMER cfg) (init_timer cfg) d) (\<lambda>d.
     bind_res (when_res (CONFIG_HAS_VGA cfg) (init_vga cfg) d) (\<lambda>d.
     bind_res (when_res (CONFIG_HAS_KEYBOARD cfg) (init_i8042 cfg sdl) d) (\<lambda>d.
     bind_res (when_res (CONFIG_HAS_AUDIO cfg) (init_audio cfg) d) (\<lambda>d.
     bind_res (when_res (CONFIG_HAS_SDCARD cfg) (init_sdcard cfg img) d) (\<lambda>d.
     when_res (CONFIG_HAS_YSYXSOC cfg) (init_ysyxsoc cfg) d))))))"

section \<open>The periodic update\<close>

definition TIMER_HZ :: u64 where "TIMER_HZ = 60"

text \<open>The events SDL has queued.\<close>

datatype sdl_event = SDL_QUIT | SDL_KEY u8 bool | SDL_OTHER

fun poll_events :: "config \<Rightarrow> sdl_event list \<Rightarrow> run_state \<Rightarrow> dev \<Rightarrow> (run_state \<times> dev) res" where
  "poll_events cfg [] st d = Inr (st, d)"
| "poll_events cfg (SDL_QUIT # evs) st d = poll_events cfg evs NEMU_QUIT d"
| "poll_events cfg (SDL_KEY k down # evs) st d =
     (if CONFIG_HAS_KEYBOARD cfg then bind_res (send_key st k down d) (poll_events cfg evs st)
      else poll_events cfg evs st d)"
| "poll_events cfg (SDL_OTHER # evs) st d = poll_events cfg evs st d"

definition device_update :: "config \<Rightarrow> sdl_event list \<Rightarrow> run_state \<Rightarrow> dev \<Rightarrow> (run_state \<times> dev) res" where
  "device_update cfg events st d = (case get_time d of (now, d) \<Rightarrow>
     if now - dev_last d < 1000000 div TIMER_HZ then Inr (st, d)
     else let d = d\<lparr>dev_last := now\<rparr>;
              d = (if CONFIG_HAS_VGA cfg then vga_update_screen d else d)
       in poll_events cfg events st d)"

section \<open>Start state and default configuration\<close>

text \<open>The static variables before initialisation.\<close>

definition dev0 :: dev where
  "dev0 = \<lparr>io_space = (\<lambda>_. 0), p_space = 0, mmio_maps = [], pio_maps = [], is_skip_ref = False, skip_dut_nr_inst = 0,
     in_difftest_tracesim = False, serial_base = 0, serial_out = [], host_stdin = [], rtc_port_base = 0,
     boot_time = 0, host_clock = 0, keymap = (\<lambda>_. 0), key_queue = replicate KEY_QUEUE_LEN 0, key_f = 0, key_r = 0,
     i8042_data_port_base = 0, vgactl_port_base = 0, vmem = 0, frames = 0, audio_base = 0, sbuf = 0,
     audio_opened = False, sd_base = 0, sd_fp = None, blkcnt = 0, blk_addr = 0, sd_addr = 0, write_cmd = False,
     read_ext_csd = False, uart_base = 0, alarm_handlers = [], dev_last = 0\<rparr>"

text \<open>The defaults of the \<open>Kconfig\<close> files for \<open>riscv32\<close> with devices.\<close>

definition default_config :: config where
  "default_config = \<lparr>CONFIG_MBASE = 0x80000000, CONFIG_MSIZE = 0x8000000, CONFIG_PC_RESET_OFFSET = 0,
     CONFIG_DEVICE = True, CONFIG_RT_CHECK = True, CONFIG_RVE = False, CONFIG_DIFFTEST = False, CONFIG_TRACE = True,
     CONFIG_TRACE_START = 0, CONFIG_TRACE_END = 10000, CONFIG_ITRACE = True, CONFIG_FTRACE = True,
     CONFIG_WATCHPOINT = True, CONFIG_BREAKPOINT = True,
     CONFIG_HAS_PORT_IO = False, CONFIG_HAS_SERIAL = True, CONFIG_HAS_TIMER = True, CONFIG_HAS_VGA = True,
     CONFIG_HAS_KEYBOARD = True, CONFIG_HAS_AUDIO = True, CONFIG_HAS_SDCARD = False, CONFIG_HAS_YSYXSOC = False,
     CONFIG_VGA_SIZE_800x600 = False, CONFIG_VGA_SHOW_SCREEN = True,
     CONFIG_SERIAL_PORT = 0x3f8, CONFIG_SERIAL_MMIO = 0xa00003f8, CONFIG_RTC_PORT = 0x48, CONFIG_RTC_MMIO = 0xa0000048,
     CONFIG_I8042_DATA_PORT = 0x60, CONFIG_I8042_DATA_MMIO = 0xa0000060, CONFIG_VGA_CTL_PORT = 0x100,
     CONFIG_VGA_CTL_MMIO = 0xa0000100, CONFIG_FB_ADDR = 0xa1000000, CONFIG_AUDIO_CTL_PORT = 0x200,
     CONFIG_AUDIO_CTL_MMIO = 0xa0000200, CONFIG_SB_ADDR = 0xa1200000, CONFIG_SB_SIZE = 0x10000,
     CONFIG_SDCARD_CTL_MMIO = 0xa3000000, CONFIG_MROM_BASE = 0x20000000, CONFIG_MROM_SIZE = 0x1000,
     CONFIG_SRAM_BASE = 0x0f000000, CONFIG_SRAM_SIZE = 0x2000, CONFIG_FLASH_BASE = 0x30000000, CONFIG_FLASH_SIZE = 0x1000000,
     CONFIG_PSRAM_BASE = 0x80000000, CONFIG_PSRAM_SIZE = 0x8000000, CONFIG_SDRAM_BASE = 0xa0000000,
     CONFIG_SDRAM_SIZE = 0x8000000, CONFIG_UART_BASE = 0x10000000, CONFIG_UART_SIZE = 0x1000\<rparr>"

end
