(* ===== verification/Ring.thy ===== *)
theory Ring
  imports Prelude
begin

text \<open>
  Ring buffers: the list a read and a write position in a circular array stand for, and the
  interface of a bounded queue with its first-in first-out law, proved from the interface alone.
\<close>

section \<open>The contents of a ring buffer\<close>

definition ring_len :: "nat \<Rightarrow> nat \<Rightarrow> nat \<Rightarrow> nat" where
  "ring_len n f r = (r + n - f) mod n"

definition ring :: "nat \<Rightarrow> (nat \<Rightarrow> 'a) \<Rightarrow> nat \<Rightarrow> nat \<Rightarrow> 'a list" where
  "ring n q f r = map (\<lambda>i. q ((f + i) mod n)) [0..<ring_len n f r]"

lemma mod_once: "x < 2 * n \<Longrightarrow> x mod n = (if x < n then x else x - (n :: nat))"
  by (auto simp: le_mod_geq)

lemma ring_len_cases: "f < n \<Longrightarrow> r < n \<Longrightarrow> ring_len n f r = (if f \<le> r then r - f else r + n - f)"
  unfolding ring_len_def by (subst mod_once) auto

lemma ring_len_less: "0 < n \<Longrightarrow> ring_len n f r < n"
  by (simp add: ring_len_def)

lemma length_ring [simp]: "length (ring n q f r) = ring_len n f r"
  by (simp add: ring_def)

lemma ring_empty_iff: "f < n \<Longrightarrow> r < n \<Longrightarrow> ring n q f r = [] \<longleftrightarrow> f = r"
  by (auto simp: ring_def ring_len_cases)

lemma mod_succ: "r < n \<Longrightarrow> (r + 1) mod n = (if r + 1 = n then 0 else r + (1 :: nat))"
  by (subst mod_once) auto

lemma ring_len_enq:
  assumes "f < n" "r < n" "(r + 1) mod n \<noteq> f"
  shows "ring_len n f ((r + 1) mod n) = ring_len n f r + 1"
  using assms unfolding mod_succ[OF assms(2)] by (auto simp: ring_len_cases split: if_splits)

lemma ring_full_iff:
  assumes "f < n" "r < n"
  shows "(r + 1) mod n = f \<longleftrightarrow> ring_len n f r = n - 1"
  using assms unfolding mod_succ[OF assms(2)] by (auto simp: ring_len_cases split: if_splits)

lemma ring_pos_end: "f < n \<Longrightarrow> r < n \<Longrightarrow> (f + ring_len n f r) mod n = r"
  by (auto simp: ring_len_cases)

lemma ring_pos_inj:
  assumes "f < n" "r < n" "i < ring_len n f r"
  shows "(f + i) mod n \<noteq> r"
proof -
  have "f + i < 2 * n" using assms ring_len_less[of n f r] by simp
  then show ?thesis using assms by (auto simp: mod_once ring_len_cases split: if_splits)
qed

lemma ring_enq:
  assumes "f < n" "r < n" "(r + 1) mod n \<noteq> f"
  shows "ring n (q(r := x)) f ((r + 1) mod n) = ring n q f r @ [x]"
proof -
  have "map (\<lambda>i. (q(r := x)) ((f + i) mod n)) [0..<ring_len n f r] = ring n q f r"
    unfolding ring_def using ring_pos_inj[OF assms(1,2)] by (intro map_cong) auto
  moreover have "(q(r := x)) ((f + ring_len n f r) mod n) = x"
    using ring_pos_end[OF assms(1,2)] by simp
  ultimately show ?thesis unfolding ring_def[of n "q(r := x)"] ring_len_enq[OF assms] by simp
qed

lemma ring_drop:
  assumes "f < n" "r < n" "k \<le> ring_len n f r"
  shows "ring n q ((f + k) mod n) r = drop k (ring n q f r)"
proof (rule nth_equalityI)
  have n: "0 < n" using assms by simp
  have len: "ring_len n ((f + k) mod n) r = ring_len n f r - k"
  proof -
    have "f + k < 2 * n" using assms ring_len_less[of n f r] by simp
    moreover have "(f + k) mod n < n" using n by simp
    ultimately show ?thesis
      using assms by (auto simp: ring_len_cases mod_once split: if_splits)
  qed
  then show "length (ring n q ((f + k) mod n) r) = length (drop k (ring n q f r))" by simp
  fix i assume "i < length (ring n q ((f + k) mod n) r)"
  then have i: "i < ring_len n f r - k" using len by simp
  have "((f + k) mod n + i) mod n = (f + (k + i)) mod n" by (simp add: mod_add_left_eq add.assoc)
  then show "ring n q ((f + k) mod n) r ! i = drop k (ring n q f r) ! i"
    using i len by (simp add: ring_def nth_upt less_diff_conv)
qed

lemma ring_deq:
  assumes "f < n" "r < n" "f \<noteq> r"
  shows "ring n q f r = q f # ring n q ((f + 1) mod n) r"
proof -
  have pos: "0 < ring_len n f r" using ring_empty_iff[OF assms(1,2), of q] assms(3) by (metis length_ring length_greater_0_conv)
  then have "ring n q f r \<noteq> []" by (simp add: ring_def)
  moreover have "hd (ring n q f r) = q f" using pos assms(1) by (simp add: ring_def hd_map upt_rec)
  ultimately show ?thesis
    using ring_drop[OF assms(1,2), of 1 q] pos by (metis One_nat_def Suc_leI drop0 drop_Suc list.collapse)
qed

section \<open>Bounded queues\<close>

text \<open>Runs of a queue's operations.\<close>

fun enq_all :: "('a \<Rightarrow> 's \<Rightarrow> 's res) \<Rightarrow> 'a list \<Rightarrow> 's \<Rightarrow> 's res" where
  "enq_all enq [] s = Inr s"
| "enq_all enq (x # xs) s = bind_res (enq x s) (enq_all enq xs)"

fun deq_many :: "('s \<Rightarrow> 'a \<times> 's) \<Rightarrow> nat \<Rightarrow> 's \<Rightarrow> 'a list \<times> 's" where
  "deq_many deq 0 s = ([], s)"
| "deq_many deq (Suc n) s = (case deq s of (x, s) \<Rightarrow> case deq_many deq n s of (xs, s) \<Rightarrow> (x # xs, s))"

locale bounded_queue =
  fixes inv :: "'s \<Rightarrow> bool" and cont :: "'s \<Rightarrow> 'a list" and cap :: nat and none :: 'a
    and enq :: "'a \<Rightarrow> 's \<Rightarrow> 's res" and deq :: "'s \<Rightarrow> 'a \<times> 's"
  assumes enq_room: "inv s \<Longrightarrow> length (cont s) < cap \<Longrightarrow> \<exists>s'. enq x s = Inr s' \<and> inv s' \<and> cont s' = cont s @ [x]"
    and enq_full: "inv s \<Longrightarrow> length (cont s) = cap \<Longrightarrow> \<exists>msg. enq x s = Inl (Assert_fail msg)"
    and deq_empty: "inv s \<Longrightarrow> cont s = [] \<Longrightarrow> deq s = (none, s)"
    and deq_cons: "inv s \<Longrightarrow> cont s = x # xs \<Longrightarrow> \<exists>s'. deq s = (x, s') \<and> inv s' \<and> cont s' = xs"
    and bound: "inv s \<Longrightarrow> length (cont s) \<le> cap"
begin

lemma enq_all_cont:
  "inv s \<Longrightarrow> length (cont s) + length xs \<le> cap \<Longrightarrow>
   \<exists>s'. enq_all enq xs s = Inr s' \<and> inv s' \<and> cont s' = cont s @ xs"
proof (induction xs arbitrary: s)
  case (Cons x xs)
  then obtain s1 where "enq x s = Inr s1" "inv s1" "cont s1 = cont s @ [x]"
    using enq_room[of s x] by auto
  moreover then obtain s2 where "enq_all enq xs s1 = Inr s2" "inv s2" "cont s2 = cont s1 @ xs"
    using Cons.IH[of s1] Cons.prems by auto
  ultimately show ?case by simp
qed simp

lemma deq_many_cont:
  "inv s \<Longrightarrow> \<exists>s'. deq_many deq n s = (take n (cont s) @ replicate (n - length (cont s)) none, s') \<and>
     inv s' \<and> cont s' = drop n (cont s)"
proof (induction n arbitrary: s)
  case (Suc n)
  show ?case
  proof (cases "cont s")
    case Nil
    then have "deq s = (none, s)" using deq_empty Suc.prems by simp
    moreover obtain s' where "deq_many deq n s = (replicate n none, s')" "inv s'" "cont s' = []"
      using Suc.IH[OF Suc.prems] Nil by auto
    ultimately show ?thesis using Nil by simp
  next
    case (Cons x xs)
    then obtain s1 where s1: "deq s = (x, s1)" "inv s1" "cont s1 = xs"
      using deq_cons[OF Suc.prems] by blast
    then show ?thesis using Suc.IH[OF s1(2)] Cons by auto
  qed
qed simp

lemma fifo:
  assumes "inv s" and "cont s = []" and "length xs \<le> cap"
  shows "\<exists>s1 s2. enq_all enq xs s = Inr s1 \<and> deq_many deq (length xs + k) s1 = (xs @ replicate k none, s2) \<and> cont s2 = []"
proof -
  obtain s1 where s1: "enq_all enq xs s = Inr s1" "inv s1" "cont s1 = xs"
    using enq_all_cont[OF assms(1), of xs] assms by auto
  then show ?thesis using deq_many_cont[OF s1(2), of "length xs + k"] by auto
qed

lemma overflow:
  assumes "inv s" and "cont s = []" and "length xs = cap"
  shows "\<exists>msg. enq_all enq (xs @ [x]) s = Inl (Assert_fail msg)"
proof -
  obtain s1 where s1: "enq_all enq xs s = Inr s1" "inv s1" "cont s1 = xs"
    using enq_all_cont[OF assms(1), of xs] assms by auto
  obtain msg where "enq x s1 = Inl (Assert_fail msg)" using enq_full[of s1 x] s1 assms by auto
  moreover have "enq_all enq (xs @ ys) s = bind_res (enq_all enq xs s) (enq_all enq ys)" for ys s
    by (induction xs arbitrary: s) (auto simp: bind_res_assoc intro: bind_res_cong)
  ultimately show ?thesis using s1 by simp
qed

end

end
