(* ===== verification/Device_Proofs.thy ===== *)
theory Device_Proofs
  imports Devices Ring
begin

text \<open>
  Properties of the device layer: the map table keeps its regions apart, the keyboard is a
  first-in first-out queue (an instance of the queue interface), the audio callback plays the ring
  buffer in order, and an SD card block written reads back.
\<close>

section \<open>The map table\<close>

text \<open>A region that does not wrap around the address space.\<close>

definition map_wf :: "IOMap \<Rightarrow> bool" where
  "map_wf m \<longleftrightarrow> low m \<le> high m"

definition maps_disjoint :: "IOMap list \<Rightarrow> bool" where
  "maps_disjoint ms \<longleftrightarrow> sorted_wrt (\<lambda>m m'. \<not> overlaps (low m') (high m') m) ms"

definition maps_ok :: "dev \<Rightarrow> bool" where
  "maps_ok d \<longleftrightarrow> length (mmio_maps d) \<le> NR_MAP \<and> list_all map_wf (mmio_maps d) \<and> maps_disjoint (mmio_maps d)"

lemma overlaps_inside:
  "map_inside m addr \<Longrightarrow> map_inside m' addr \<Longrightarrow> overlaps (low m') (high m') m"
  by (auto simp: overlaps_def map_inside_def)

lemma maps_disjoint_inside:
  "maps_disjoint ms \<Longrightarrow> i < j \<Longrightarrow> j < length ms \<Longrightarrow> map_inside (ms ! i) addr \<Longrightarrow> \<not> map_inside (ms ! j) addr"
  using overlaps_inside[of "ms ! i" addr "ms ! j"] by (auto simp: maps_disjoint_def sorted_wrt_iff_nth_less)

lemma find_map_Some: "find_map ms addr = Some m \<Longrightarrow> m \<in> set ms \<and> map_inside m addr"
  by (induction ms) (auto split: if_splits)

lemma find_map_None: "find_map ms addr = None \<longleftrightarrow> (\<forall>m \<in> set ms. \<not> map_inside m addr)"
  by (induction ms) auto

lemma find_map_unique:
  assumes "maps_disjoint ms" and "m \<in> set ms" and "map_inside m addr"
  shows "find_map ms addr = Some m"
  using assms
proof (induction ms)
  case (Cons m' ms)
  show ?case
  proof (cases "map_inside m' addr")
    case True
    then have "m = m'"
      using Cons.prems overlaps_inside[OF True Cons.prems(3)] by (auto simp: maps_disjoint_def)
    then show ?thesis using True by simp
  qed (use Cons in \<open>auto simp: maps_disjoint_def\<close>)
qed simp

lemma add_mmio_map_Inr:
  "add_mmio_map cfg nm addr sp len cb d = Inr d' \<longleftrightarrow>
   length (mmio_maps d) < NR_MAP \<and> \<not> in_pmem cfg addr \<and> \<not> in_pmem cfg (addr + len - 1) \<and>
   \<not> list_ex (overlaps addr (addr + len - 1)) (mmio_maps d) \<and>
   d' = d\<lparr>mmio_maps := mmio_maps d @ [\<lparr>name = nm, low = addr, high = addr + len - 1, space = sp, callback = cb\<rparr>]\<rparr>"
  by (auto simp: add_mmio_map_def res_simps Let_def)

lemma add_mmio_map_ok:
  assumes "maps_ok d" and "addr \<le> addr + len - 1" and "add_mmio_map cfg nm addr sp len cb d = Inr d'"
  shows "maps_ok d'"
  using assms unfolding add_mmio_map_Inr
  by (auto simp: maps_ok_def maps_disjoint_def map_wf_def sorted_wrt_append list_ex_iff)

section \<open>The keyboard queue\<close>

definition key_inv :: "dev \<Rightarrow> bool" where
  "key_inv d \<longleftrightarrow> length (key_queue d) = KEY_QUEUE_LEN \<and> key_f d < KEY_QUEUE_LEN \<and> key_r d < KEY_QUEUE_LEN"

definition keys :: "dev \<Rightarrow> u32 list" where
  "keys d = ring KEY_QUEUE_LEN (\<lambda>i. key_queue d ! i) (key_f d) (key_r d)"

lemma ring_nth_update:
  assumes "r < length q" "length q = n"
  shows "ring n (\<lambda>i. q[r := x] ! i) f r' = ring n ((\<lambda>i. q ! i)(r := x)) f r'"
  unfolding ring_def using assms by (intro map_cong) (auto simp: nth_list_update)

lemma key_enqueue_keys:
  assumes "key_inv d" and "(key_r d + 1) mod KEY_QUEUE_LEN \<noteq> key_f d"
  shows "\<exists>d'. key_enqueue k d = Inr d' \<and> key_inv d' \<and> keys d' = keys d @ [k]"
proof -
  let ?d = "d\<lparr>key_queue := (key_queue d)[key_r d := k], key_r := (key_r d + 1) mod KEY_QUEUE_LEN\<rparr>"
  have "key_enqueue k d = Inr ?d" using assms by (simp add: key_enqueue_def Let_def)
  moreover have "key_inv ?d" using assms(1) by (simp add: key_inv_def KEY_QUEUE_LEN_def)
  moreover have "keys ?d = keys d @ [k]"
    using assms ring_enq[of "key_f d" KEY_QUEUE_LEN "key_r d" "\<lambda>i. key_queue d ! i" k]
      ring_nth_update[of "key_r d" "key_queue d" KEY_QUEUE_LEN k "key_f d"]
    by (simp add: keys_def key_inv_def)
  ultimately show ?thesis by blast
qed

lemma key_dequeue_keys:
  assumes "key_inv d" and "keys d = k # ks"
  shows "\<exists>d'. key_dequeue d = (k, d') \<and> key_inv d' \<and> keys d' = ks"
proof -
  have ne: "key_f d \<noteq> key_r d"
    using assms ring_empty_iff[of "key_f d" KEY_QUEUE_LEN "key_r d" "\<lambda>i. key_queue d ! i"]
    by (auto simp: keys_def key_inv_def)
  then show ?thesis
    using assms ring_deq[of "key_f d" KEY_QUEUE_LEN "key_r d" "\<lambda>i. key_queue d ! i"]
    by (auto simp: keys_def key_inv_def key_dequeue_def KEY_QUEUE_LEN_def)
qed

interpretation kbd: bounded_queue key_inv keys "KEY_QUEUE_LEN - 1" NEMU_KEY_NONE key_enqueue key_dequeue
proof unfold_locales
  fix d :: dev and k ks
  assume inv: "key_inv d"
  then have fr: "key_f d < KEY_QUEUE_LEN" "key_r d < KEY_QUEUE_LEN" by (simp_all add: key_inv_def)
  note full = ring_full_iff[OF fr]
  show "length (keys d) < KEY_QUEUE_LEN - 1 \<Longrightarrow> \<exists>d'. key_enqueue k d = Inr d' \<and> key_inv d' \<and> keys d' = keys d @ [k]"
    using key_enqueue_keys[OF inv] full by (auto simp: keys_def)
  show "length (keys d) = KEY_QUEUE_LEN - 1 \<Longrightarrow> \<exists>msg. key_enqueue k d = Inl (Assert_fail msg)"
    using full by (auto simp: keys_def key_enqueue_def Let_def)
  show "keys d = [] \<Longrightarrow> key_dequeue d = (NEMU_KEY_NONE, d)"
    using ring_empty_iff[OF fr] by (auto simp: keys_def key_dequeue_def)
  show "keys d = k # ks \<Longrightarrow> \<exists>d'. key_dequeue d = (k, d') \<and> key_inv d' \<and> keys d' = ks"
    by (rule key_dequeue_keys[OF inv])
  show "length (keys d) \<le> KEY_QUEUE_LEN - 1"
    using ring_len_less[of KEY_QUEUE_LEN "key_f d" "key_r d"] fr by (simp add: keys_def)
qed

section \<open>The audio ring buffer\<close>

definition audio_ring :: "dev \<Rightarrow> u8 list" where
  "audio_ring d = ring (unat (reg32 (audio_base d) reg_sbuf_size d)) (\<lambda>i. io_space d (sbuf d + i))
     (unat (reg32 (audio_base d) reg_rptr d)) (unat (reg32 (audio_base d) reg_wptr d))"

text \<open>Positions inside a buffer that is not larger than half the address space and does not overlap
  the registers.\<close>

definition audio_ok :: "dev \<Rightarrow> bool" where
  "audio_ok d \<longleftrightarrow> (let n = unat (reg32 (audio_base d) reg_sbuf_size d) in
     unat (reg32 (audio_base d) reg_rptr d) < n \<and> unat (reg32 (audio_base d) reg_wptr d) < n \<and> n \<le> 2 ^ 31 \<and>
     (sbuf d + n \<le> audio_base d \<or> audio_base d + 4 * nr_reg \<le> sbuf d))"

lemma take_ring_bytes:
  assumes "f < n" "r < n" "k \<le> ring_len n f r"
  shows "take k (ring n (\<lambda>i. sp (b + i)) f r) =
    (if k \<le> n - f then map (\<lambda>i. sp (b + f + i)) [0..<k]
     else map (\<lambda>i. sp (b + f + i)) [0..<n - f] @ map (\<lambda>i. sp (b + i)) [0..<k - (n - f)])"
proof (rule nth_equalityI)
  fix i assume "i < length (take k (ring n (\<lambda>i. sp (b + i)) f r))"
  then have i: "i < k" "i < ring_len n f r" using assms by auto
  have "f + i < 2 * n" using i assms ring_len_less[of n f r] by simp
  then have m: "(f + i) mod n = (if f + i < n then f + i else f + i - n)" by (rule mod_once)
  show "take k (ring n (\<lambda>i. sp (b + i)) f r) ! i =
    (if k \<le> n - f then map (\<lambda>i. sp (b + f + i)) [0..<k]
     else map (\<lambda>i. sp (b + f + i)) [0..<n - f] @ map (\<lambda>i. sp (b + i)) [0..<k - (n - f)]) ! i"
  proof (cases "f + i < n")
    case True
    then show ?thesis using i m assms by (auto simp: ring_def nth_append add.assoc)
  next
    case False
    then have "b + (f + i - n) = b + (i - (n - f))" "\<not> k \<le> n - f" using i assms by auto
    then show ?thesis using False i m assms by (auto simp: ring_def nth_append)
  qed
qed (use assms in auto)

lemma reg32_set_same: "reg32 b i (set_reg32 b i v d) = v"
proof -
  have "take_bit 32 v = v" by (rule bit_word_eqI) (auto simp: bit_take_bit_iff)
  then show ?thesis using read_write_le_same[of "io_space d" "b + 4 * i" 4 v] by (simp add: reg32_def set_reg32_def)
qed

lemma reg32_set_other: "i \<noteq> j \<Longrightarrow> reg32 b j (set_reg32 b i v d) = reg32 b j d"
  unfolding reg32_def set_reg32_def by (auto intro!: read_write_le_disjoint)

lemma set_reg32_fields [simp]:
  "audio_base (set_reg32 b i v d) = audio_base d" "sbuf (set_reg32 b i v d) = sbuf d"
  "mmio_maps (set_reg32 b i v d) = mmio_maps d" "key_inv (set_reg32 b i v d) = key_inv d"
  "keys (set_reg32 b i v d) = keys d"
  by (simp_all add: set_reg32_def key_inv_def keys_def)

lemma io_space_set_reg32_other: "j < b + 4 * i \<or> b + 4 * i + 4 \<le> j \<Longrightarrow> io_space (set_reg32 b i v d) j = io_space d j"
  by (simp add: set_reg32_def write_le_other)

lemma ring_cong: "0 < n \<Longrightarrow> (\<And>i. i < n \<Longrightarrow> q i = q' i) \<Longrightarrow> ring n q f r = ring n q' f r"
  unfolding ring_def by (intro map_cong) auto

lemma sdl_audio_plays:
  assumes "audio_ok d"
  shows "\<exists>d'. sdl_audio_callback len d =
      Inr (take (unat len) (audio_ring d) @ replicate (unat len - length (audio_ring d)) 0, d') \<and>
    audio_ok d' \<and> audio_ring d' = drop (unat len) (audio_ring d)"
proof -
  define w r sz where "w = reg32 (audio_base d) reg_wptr d" and "r = reg32 (audio_base d) reg_rptr d"
    and "sz = reg32 (audio_base d) reg_sbuf_size d"
  let ?n = "unat sz" and ?f = "unat r" and ?w = "unat w"
  have ok: "?f < ?n" "?w < ?n" "?n \<le> 2 ^ 31" using assms by (simp_all add: audio_ok_def Let_def w_def r_def sz_def)
  define avail where "avail = (w + sz - r) mod sz"
  have "unat (w + sz) = ?w + ?n" using ok by (intro unat_add_no_wrap) simp
  moreover have "unat (w + sz - r) = unat (w + sz) - ?f"
    using ok calculation by (intro unat_sub_no_wrap) (simp add: word_le_nat_alt)
  ultimately have av: "unat avail = ring_len ?n ?f ?w"
    by (simp add: avail_def unat_mod_distrib ring_len_def)
  define k where "k = (if len \<le> avail then len else avail)"
  have k: "unat k = min (unat len) (ring_len ?n ?f ?w)" by (simp add: k_def av[symmetric] word_le_nat_alt min_def)
  define fc where "fc = sz - r"
  have fc: "unat fc = ?n - ?f" unfolding fc_def using ok by (intro unat_sub_no_wrap) (simp add: word_le_nat_alt)
  have kn: "unat k < ?n" using k ring_len_less[of ?n ?f ?w] ok by (simp add: min_def split: if_splits) 
  have rk: "unat ((r + k) mod sz) = (?f + unat k) mod ?n"
    using ok kn by (subst unat_mod_distrib, subst unat_add_no_wrap) simp_all
  have kf: "unat (k - fc) = unat k - unat fc" if "\<not> k \<le> fc"
    using that by (intro unat_sub_no_wrap) simp
  have le: "k \<le> fc \<longleftrightarrow> unat k \<le> ?n - ?f" by (simp add: word_le_nat_alt fc)
  have body: "(if k \<le> fc then space_bytes (sbuf d + ?f) (unat k) d
      else space_bytes (sbuf d + ?f) (unat fc) d @ space_bytes (sbuf d) (unat (k - fc)) d) = take (unat k) (audio_ring d)"
    unfolding audio_ring_def sz_def[symmetric] r_def[symmetric] w_def[symmetric]
    using take_ring_bytes[OF ok(1,2), of "unat k" "io_space d" "sbuf d"] k kf le fc
    by (simp add: space_bytes_def)
  have rest: "(if len > k then replicate (unat (len - k)) 0 else []) = replicate (unat len - length (audio_ring d)) (0 :: u8)"
  proof -
    have "length (audio_ring d) = ring_len ?n ?f ?w"
      by (simp add: audio_ring_def sz_def r_def w_def)
    then show ?thesis using k unat_sub_no_wrap[of k len] by (auto simp: word_less_nat_alt word_le_nat_alt min_def)
  qed
  let ?d = "set_reg32 (audio_base d) reg_rptr ((r + k) mod sz) d"
  have "sz \<noteq> 0" using ok by auto
  then have cb: "sdl_audio_callback len d = Inr (take (unat k) (audio_ring d) @ replicate (unat len - length (audio_ring d)) 0, ?d)"
    unfolding sdl_audio_callback_def Let_def w_def[symmetric] r_def[symmetric] sz_def[symmetric] avail_def[symmetric]
      k_def[symmetric] fc_def[symmetric] body rest by simp
  have take: "take (unat k) (audio_ring d) = take (unat len) (audio_ring d)" "drop (unat k) (audio_ring d) = drop (unat len) (audio_ring d)"
    using k by (auto simp: min_def audio_ring_def sz_def r_def w_def)
  have regs: "reg32 (audio_base d) reg_wptr ?d = w" "reg32 (audio_base d) reg_sbuf_size ?d = sz"
    "reg32 (audio_base d) reg_rptr ?d = (r + k) mod sz"
    by (simp_all add: reg32_set_other reg32_set_same audio_regs w_def sz_def)
  have "audio_ok ?d" using assms ok unfolding audio_ok_def Let_def set_reg32_fields regs rk sz_def[symmetric] by auto
  moreover have "audio_ring ?d = drop (unat len) (audio_ring d)"
  proof -
    have "audio_ring ?d = ring ?n (\<lambda>i. io_space d (sbuf d + i)) ((?f + unat k) mod ?n) ?w"
      unfolding audio_ring_def set_reg32_fields regs rk
    proof (rule ring_cong)
      fix i assume "i < ?n"
      then show "io_space ?d (sbuf d + i) = io_space d (sbuf d + i)"
        using assms by (intro io_space_set_reg32_other) (auto simp: audio_ok_def Let_def sz_def audio_regs)
    qed (use ok in simp)
    also have "\<dots> = drop (unat k) (audio_ring d)"
      unfolding audio_ring_def sz_def[symmetric] r_def[symmetric] w_def[symmetric]
      using k by (intro ring_drop ok) simp
    finally show ?thesis using take by simp
  qed
  ultimately show ?thesis using cb take by auto
qed

section \<open>SD card blocks\<close>

definition word_bytes :: "u32 \<Rightarrow> u8 list" where
  "word_bytes v = [ucast v, ucast (drop_bit 8 v), ucast (drop_bit 16 v), ucast (drop_bit 24 v)]"

text \<open>What a driver does: 32-bit stores to and loads from the registers of the controller, at their bus
  addresses. The loaded words are the result.\<close>

datatype sd_access = Sd_store nat u32 | Sd_load nat

fun sd_driver :: "config \<Rightarrow> u32 \<Rightarrow> sd_access list \<Rightarrow> dev \<Rightarrow> (u32 list \<times> dev) res" where
  "sd_driver cfg base [] d = Inr ([], d)"
| "sd_driver cfg base (Sd_store i v # as) d =
     bind_res (mmio_write cfg (run_handler cfg) (base + 4 * of_nat i) 4 v d) (sd_driver cfg base as)"
| "sd_driver cfg base (Sd_load i # as) d =
     bind_res (mmio_read cfg (run_handler cfg) (base + 4 * of_nat i) 4 d) (\<lambda>(v, d).
     bind_res (sd_driver cfg base as d) (\<lambda>(vs, d). Inr (v # vs, d)))"

text \<open>The card's registers answer at \<open>base\<close>, as \<open>init_sdcard\<close> registers them.\<close>

definition sd_ready :: "u32 \<Rightarrow> dev \<Rightarrow> bool" where
  "sd_ready base d \<longleftrightarrow> sd_base d + 0x80 \<le> IO_SPACE_MAX \<and>
     list_all (\<lambda>i. find_map (mmio_maps d) (base + 4 * of_nat i) =
       Some \<lparr>name = ''sdhci'', low = base, high = base + 0x80 - 1, space = sd_base d, callback = Some Sdcard_handler\<rparr>)
       [SDCMD, SDARG, SDDATA]"

lemma sd_driver_append:
  "sd_driver cfg base (as @ bs) d =
   bind_res (sd_driver cfg base as d) (\<lambda>(vs, d). bind_res (sd_driver cfg base bs d) (\<lambda>(ws, d). Inr (vs @ ws, d)))"
proof (induction as arbitrary: d)
  case (Cons x as)
  then show ?case by (cases x) (auto simp: bind_res_def split: sum.splits)
qed (simp add: bind_res_def split: sum.splits)

lemma sd_ready_frame:
  "mmio_maps d' = mmio_maps d \<Longrightarrow> sd_base d' = sd_base d \<Longrightarrow> sd_ready base d' = sd_ready base d"
  by (simp add: sd_ready_def)

lemma sd_offset:
  assumes "i \<in> {SDCMD, SDARG, SDDATA}"
  shows "unat (4 * of_nat i :: u32) = 4 * i" and "4 * i + 4 \<le> 0x80"
  using assms by (auto simp: sd_regs)

lemma sd_bus_write:
  assumes "sd_ready base d" and "i \<in> {SDCMD, SDARG, SDDATA}"
  shows "mmio_write cfg (run_handler cfg) (base + 4 * of_nat i) 4 v d =
    sdcard_io_handler (4 * of_nat i) 4 True (set_sd_reg i v (difftest_skip_ref d))"
proof -
  let ?m = "\<lparr>name = ''sdhci'', low = base, high = base + 0x80 - 1, space = sd_base d, callback = Some Sdcard_handler\<rparr>"
  have f: "find_map (mmio_maps d) (base + 4 * of_nat i) = Some ?m" using assms by (auto simp: sd_ready_def)
  then have "map_inside ?m (base + 4 * of_nat i)" using find_map_Some by blast
  moreover have "host_write (CONFIG_RT_CHECK cfg) IO_SPACE_MAX sp (sd_base d + 4 * i) 4 v = Inr (write_le sp (sd_base d + 4 * i) 4 v)" for sp
    using assms sd_offset[OF assms(2)] by (simp add: host_write_eq_Inr access_len_def sd_ready_def)
  ultimately show ?thesis
    by (simp add: mmio_write_def fetch_mmio_map_def find_mapid_by_addr_def f map_write_def check_bound_def
        map_inside_def bind_res_def assert_res_def invoke_callback_def run_handler_def Let_def
        sd_offset(1)[OF assms(2)] set_sd_reg_def set_reg32_def difftest_skip_ref_def)
qed

lemma sd_bus_read:
  assumes "sd_ready base d" and "i \<in> {SDCMD, SDARG, SDDATA}"
    and "sdcard_io_handler (4 * of_nat i) 4 False (difftest_skip_ref d) = Inr d'" and "sd_base d' = sd_base d"
  shows "mmio_read cfg (run_handler cfg) (base + 4 * of_nat i) 4 d = Inr (sd_reg i d', d')"
proof -
  let ?m = "\<lparr>name = ''sdhci'', low = base, high = base + 0x80 - 1, space = sd_base d, callback = Some Sdcard_handler\<rparr>"
  have f: "find_map (mmio_maps d) (base + 4 * of_nat i) = Some ?m" using assms by (auto simp: sd_ready_def)
  then have "map_inside ?m (base + 4 * of_nat i)" using find_map_Some by blast
  moreover have "host_read (CONFIG_RT_CHECK cfg) IO_SPACE_MAX sp (sd_base d + 4 * i) 4 = Inr (read_le sp (sd_base d + 4 * i) 4)" for sp
    using assms sd_offset[OF assms(2)] by (simp add: host_read_eq_Inr access_len_def sd_ready_def)
  ultimately show ?thesis
    by (simp add: mmio_read_def fetch_mmio_map_def find_mapid_by_addr_def f map_read_def check_bound_def
        map_inside_def bind_res_def assert_res_def invoke_callback_def run_handler_def Let_def
        sd_offset(1)[OF assms(2)] sd_reg_def reg32_def assms(3,4))
qed

lemma write_le_4:
  "write_le sp p 4 v = sp(p := ucast v, p + 1 := ucast (drop_bit 8 v), p + 2 := ucast (drop_bit 16 v), p + 3 := ucast (drop_bit 24 v))"
  by (simp add: numeral_eq_Suc)

lemma read_le_word_bytes: "read_le (store_bytes sp p (word_bytes v)) p 4 = v"
proof -
  have "store_bytes sp p (word_bytes v) = write_le sp p 4 v"
    unfolding write_le_4 word_bytes_def by (simp add: numeral_eq_Suc)
  moreover have "take_bit 32 v = v" by (rule bit_word_eqI) (auto simp: bit_take_bit_iff)
  ultimately show ?thesis using read_write_le_same[of sp p 4 v] by simp
qed

lemma space_bytes_reg: "space_bytes (sd_base d + 4 * SDDATA) 4 (set_sd_reg SDDATA v d) = word_bytes v"
  by (simp add: space_bytes_def set_sd_reg_def set_reg32_def write_le_4 word_bytes_def upt_rec)

lemma file_write_append:
  "file_write (file_write f p bs) (p + length bs) cs = file_write f p (bs @ cs)"
  by (auto simp: file_write_def Let_def not_le min_def ac_simps)

lemma file_write_Nil: "p \<le> length f \<Longrightarrow> file_write f p [] = f"
  by (simp add: file_write_def)

lemma length_word_bytes [simp]: "length (word_bytes v) = 4"
  by (simp add: word_bytes_def)

lemma file_write_read: "take (length bs) (drop p (file_write f p bs)) = bs"
  by (auto simp: file_write_def Let_def min_def)

lemma length_file_write: "p + length bs \<le> length (file_write f p bs)"
  by (auto simp: file_write_def Let_def)

text \<open>The state a transfer works on, and the steps of a driver on it.\<close>

definition sd_transferring :: "u32 \<Rightarrow> bool \<Rightarrow> u8 list \<Rightarrow> nat \<Rightarrow> dev \<Rightarrow> bool" where
  "sd_transferring base w f p d \<longleftrightarrow> sd_ready base d \<and> \<not> read_ext_csd d \<and> write_cmd d = w \<and> sd_fp d = Some (f, p)"

lemma sd_fields [simp]:
  "mmio_maps (set_sd_reg i v d) = mmio_maps d" "sd_base (set_sd_reg i v d) = sd_base d" "sd_fp (set_sd_reg i v d) = sd_fp d"
  "write_cmd (set_sd_reg i v d) = write_cmd d" "read_ext_csd (set_sd_reg i v d) = read_ext_csd d"
  "mmio_maps (difftest_skip_ref d) = mmio_maps d" "sd_base (difftest_skip_ref d) = sd_base d"
  "sd_fp (difftest_skip_ref d) = sd_fp d" "write_cmd (difftest_skip_ref d) = write_cmd d"
  "read_ext_csd (difftest_skip_ref d) = read_ext_csd d" "io_space (difftest_skip_ref d) = io_space d"
  "sd_reg i (difftest_skip_ref d) = sd_reg i d"
  by (simp_all add: set_sd_reg_def set_reg32_def difftest_skip_ref_def sd_reg_def reg32_def)

lemma sd_reg_same [simp]: "sd_reg i (set_sd_reg i v d) = v"
  using reg32_set_same[of "sd_base d" i v d] by (simp add: sd_reg_def) (simp add: set_sd_reg_def)

lemma sd_reg_other: "i \<noteq> j \<Longrightarrow> sd_reg j (set_sd_reg i v d) = sd_reg j d"
  using reg32_set_other[of i j "sd_base d" v d] by (simp add: sd_reg_def) (simp add: set_sd_reg_def)

lemma sd_ready_steps [simp]:
  "sd_ready base (set_sd_reg i v d) = sd_ready base d" "sd_ready base (difftest_skip_ref d) = sd_ready base d"
  by (rule sd_ready_frame; simp)+

lemma sd_start:
  assumes r: "sd_ready base d" and e: "\<not> read_ext_csd d" and f: "sd_fp d = Some (f, p)"
    and c: "cmd AND 0x3f = (if w then 25 else 18)"
  shows "\<exists>d'. sd_driver cfg base [Sd_store SDARG blk, Sd_store SDCMD cmd] d = Inr ([], d') \<and>
    sd_transferring base w f (512 * unat blk) d'"
proof -
  let ?d1 = "set_sd_reg SDARG blk (difftest_skip_ref d)"
  let ?d2 = "set_sd_reg SDCMD cmd (difftest_skip_ref ?d1)"
  have 1: "mmio_write cfg (run_handler cfg) (base + 4 * of_nat SDARG) 4 blk d = Inr ?d1"
    using sd_bus_write[OF r, of SDARG] by (simp add: sdcard_io_handler_def sd_regs)
  have arg: "sd_reg SDARG ?d2 = blk" by (simp add: sd_reg_other sd_regs)
  have "mmio_write cfg (run_handler cfg) (base + 4 * of_nat SDCMD) 4 cmd ?d1 = sdcard_handle_cmd (cmd AND 0x3f) ?d2"
    using sd_bus_write[of base ?d1 SDCMD cfg cmd] r by (simp add: sdcard_io_handler_def) (simp add: SDCMD_def)
  also have "\<dots> = Inr (prepare_rw w ?d2)" unfolding c by (simp add: sdcard_handle_cmd_def)
  finally have 2: "mmio_write cfg (run_handler cfg) (base + 4 * of_nat SDCMD) 4 cmd ?d1 = Inr (prepare_rw w ?d2)" .
  have "sd_transferring base w f (512 * unat blk) (prepare_rw w ?d2)"
    using r e f arg sd_ready_frame[of "prepare_rw w ?d2" ?d2 base]
    by (simp add: sd_transferring_def prepare_rw_def Let_def mult.commute)
  then show ?thesis using 1 2 by (simp add: bind_res_def)
qed

lemma sd_put_word:
  assumes t: "sd_transferring base True f p d"
  shows "\<exists>d'. mmio_write cfg (run_handler cfg) (base + 4 * of_nat SDDATA) 4 v d = Inr d' \<and>
    sd_transferring base True (file_write f p (word_bytes v)) (p + 4) d'"
proof -
  let ?d = "set_sd_reg SDDATA v (difftest_skip_ref d)"
  let ?d' = "sd_transfer ?d\<lparr>sd_addr := sd_addr (sd_transfer ?d) + 4\<rparr>"
  have st: "sd_transfer ?d = ?d\<lparr>sd_fp := Some (file_write f p (word_bytes v), p + 4)\<rparr>"
    using t space_bytes_reg[of "difftest_skip_ref d" v] by (simp add: sd_transfer_def sd_transferring_def)
  have "mmio_write cfg (run_handler cfg) (base + 4 * of_nat SDDATA) 4 v d = Inr ?d'"
    using sd_bus_write[of base d SDDATA cfg v] t
    by (simp add: sd_transferring_def sdcard_io_handler_def Let_def) (simp add: sd_regs)
  moreover have "sd_transferring base True (file_write f p (word_bytes v)) (p + 4) ?d'"
    using t sd_ready_frame[of ?d' d base] by (simp add: sd_transferring_def st)
  ultimately show ?thesis by blast
qed

lemma sd_put_words:
  "sd_transferring base True f p d \<Longrightarrow> p \<le> length f \<Longrightarrow>
   \<exists>d'. sd_driver cfg base (map (Sd_store SDDATA) vs) d = Inr ([], d') \<and>
     sd_transferring base True (file_write f p (concat (map word_bytes vs))) (p + 4 * length vs) d'"
proof (induction vs arbitrary: d f p)
  case (Cons v vs)
  let ?f = "file_write f p (word_bytes v)"
  have p: "p + 4 \<le> length ?f" using length_file_write[of p "word_bytes v" f] by simp
  obtain d1 where d1: "mmio_write cfg (run_handler cfg) (base + 4 * of_nat SDDATA) 4 v d = Inr d1"
    "sd_transferring base True ?f (p + 4) d1" using sd_put_word[OF Cons.prems(1)] by blast
  have "file_write ?f (p + 4) (concat (map word_bytes vs)) = file_write f p (concat (map word_bytes (v # vs)))"
    using file_write_append[of f p "word_bytes v"] by simp
  then show ?case using Cons.IH[OF d1(2) p] d1(1) by (simp add: bind_res_def add.assoc)
qed (simp add: file_write_Nil)

lemma sd_get_word:
  assumes t: "sd_transferring base False f p d" and w: "drop p f = word_bytes v @ rest"
  shows "\<exists>d'. mmio_read cfg (run_handler cfg) (base + 4 * of_nat SDDATA) 4 d = Inr (v, d') \<and>
    sd_transferring base False f (p + 4) d' \<and> drop (p + 4) f = rest"
proof -
  let ?d = "difftest_skip_ref d"
  let ?d' = "sd_transfer ?d\<lparr>sd_addr := sd_addr (sd_transfer ?d) + 4\<rparr>"
  have t4: "take 4 (drop p f) = word_bytes v" using w by simp
  have l: "min (length f - p) 4 = 4" using arg_cong[OF t4, of length] by simp
  have st: "sd_transfer ?d = ?d\<lparr>io_space := store_bytes (io_space d) (sd_base d + 4 * SDDATA) (word_bytes v), sd_fp := Some (f, p + 4)\<rparr>"
    using t l t4 by (simp add: sd_transfer_def sd_transferring_def)
  have h: "sdcard_io_handler (4 * of_nat SDDATA) 4 False ?d = Inr ?d'"
    using t by (simp add: sd_transferring_def sdcard_io_handler_def Let_def) (simp add: sd_regs)
  have "sd_reg SDDATA ?d' = v"
    using read_le_word_bytes[of "io_space d" "sd_base d + 4 * SDDATA" v] by (simp add: st sd_reg_def reg32_def)
  then have "mmio_read cfg (run_handler cfg) (base + 4 * of_nat SDDATA) 4 d = Inr (v, ?d')"
    using sd_bus_read[OF _ _ h, of base cfg] t by (simp add: sd_transferring_def st)
  moreover have "sd_transferring base False f (p + 4) ?d'"
    using t sd_ready_frame[of ?d' d base] by (simp add: sd_transferring_def st)
  moreover have "drop (p + 4) f = drop 4 (drop p f)" by (simp add: add.commute)
  then have "drop (p + 4) f = rest" unfolding w by simp
  ultimately show ?thesis by blast
qed

lemma sd_get_words:
  "sd_transferring base False f p d \<Longrightarrow> drop p f = concat (map word_bytes vs) @ rest \<Longrightarrow>
   \<exists>d'. sd_driver cfg base (replicate (length vs) (Sd_load SDDATA)) d = Inr (vs, d') \<and>
     sd_transferring base False f (p + 4 * length vs) d'"
proof (induction vs arbitrary: d p)
  case (Cons v vs)
  then obtain d1 where d1: "mmio_read cfg (run_handler cfg) (base + 4 * of_nat SDDATA) 4 d = Inr (v, d1)"
    "sd_transferring base False f (p + 4) d1" "drop (p + 4) f = concat (map word_bytes vs) @ rest"
    using sd_get_word[OF Cons.prems(1), of v "concat (map word_bytes vs) @ rest" cfg] by auto
  then show ?case using Cons.IH[OF d1(2,3)] by (auto simp: bind_res_def add.assoc)
qed simp

lemma poll_keys:
  assumes "CONFIG_HAS_KEYBOARD cfg" and "\<And>k down. (k, down) \<in> set evs \<Longrightarrow> keymap d k \<noteq> NEMU_KEY_NONE"
    and "enq_all key_enqueue (map (\<lambda>(k, down). keymap d k OR (if down then KEYDOWN_MASK else 0)) evs) d = Inr d1"
  shows "poll_events cfg (map (\<lambda>(k, down). SDL_KEY k down) evs) NEMU_RUNNING d = Inr (NEMU_RUNNING, d1)"
  using assms(2-)
proof (induction evs arbitrary: d)
  case (Cons ev evs)
  obtain k down where ev: "ev = (k, down)" by fastforce
  obtain d' where d': "key_enqueue (keymap d k OR (if down then KEYDOWN_MASK else 0)) d = Inr d'"
    "enq_all key_enqueue (map (\<lambda>(k, down). keymap d k OR (if down then KEYDOWN_MASK else 0)) evs) d' = Inr d1"
    using Cons.prems(2) ev by (auto simp: res_simps)
  have "keymap d' = keymap d" using d'(1) by (auto simp: key_enqueue_def Let_def res_simps)
  then have "poll_events cfg (map (\<lambda>(k, down). SDL_KEY k down) evs) NEMU_RUNNING d' = Inr (NEMU_RUNNING, d1)"
    using Cons.prems(1) d'(2) by (intro Cons.IH) auto
  then show ?case using assms(1) Cons.prems(1) ev d'(1) by (auto simp: send_key_def)
qed simp

section \<open>Properties\<close>

text \<open>C7: registering a region keeps the table well-formed, gives the region exactly its own addresses and
  takes no address from the regions registered before: every access has at most one owner.\<close>

theorem add_mmio_map_owner:
  assumes "maps_ok d" and "addr \<le> addr + len - 1" and "add_mmio_map cfg nm addr sp len cb d = Inr d'"
  shows "maps_ok d' \<and>
    find_map (mmio_maps d') a =
      (if addr \<le> a \<and> a \<le> addr + len - 1
       then Some \<lparr>name = nm, low = addr, high = addr + len - 1, space = sp, callback = cb\<rparr>
       else find_map (mmio_maps d) a)"
proof -
  let ?m = "\<lparr>name = nm, low = addr, high = addr + len - 1, space = sp, callback = cb\<rparr>"
  have ok: "maps_ok d'" by (rule add_mmio_map_ok[OF assms])
  have ms: "mmio_maps d' = mmio_maps d @ [?m]" using assms(3) by (simp add: add_mmio_map_Inr)
  have app: "find_map (xs @ [?m]) a = (case find_map xs a of None \<Rightarrow> find_map [?m] a | Some m \<Rightarrow> Some m)" for xs
    by (induction xs) auto
  show ?thesis
  proof (cases "map_inside ?m a")
    case True
    then have "find_map (mmio_maps d') a = Some ?m"
      using ok ms by (intro find_map_unique) (auto simp: maps_ok_def)
    then show ?thesis using ok True by (simp add: map_inside_def)
  next
    case False
    then show ?thesis using ok unfolding ms app by (auto simp: map_inside_def split: option.splits)
  qed
qed

text \<open>A region larger than the physical memory that contains it is accepted: only its two end
  addresses are compared with the memory.\<close>

theorem add_mmio_map_covers_pmem:
  "\<exists>d. add_mmio_map default_config ''big'' 0x7f000000 0 0x10000000 None dev0 = Inr d \<and>
    find_map (mmio_maps d) 0x80000000 \<noteq> None \<and> in_pmem default_config 0x80000000"
  by (simp add: add_mmio_map_def in_pmem_def NR_MAP_def map_inside_def default_config_def dev0_def)

text \<open>Key events reach the guest in the order they happen: after any burst of at most 1023 events on
  mapped keys, reads of the data register return exactly their codes in order, then \<open>NEMU_KEY_NONE\<close>.\<close>

theorem keyboard_fifo:
  assumes "key_inv d" and "keys d = []" and "CONFIG_HAS_KEYBOARD cfg" and "length evs < KEY_QUEUE_LEN"
    and "\<And>k down. (k, down) \<in> set evs \<Longrightarrow> keymap d k \<noteq> NEMU_KEY_NONE"
  shows "\<exists>d1 d2. poll_events cfg (map (\<lambda>(k, down). SDL_KEY k down) evs) NEMU_RUNNING d = Inr (NEMU_RUNNING, d1) \<and>
    deq_many key_dequeue (length evs + n) d1 =
      (map (\<lambda>(k, down). keymap d k OR (if down then KEYDOWN_MASK else 0)) evs @ replicate n NEMU_KEY_NONE, d2)"
proof -
  let ?code = "\<lambda>(k, down). keymap d k OR (if down then KEYDOWN_MASK else 0)"
  obtain d1 d2 where d1: "enq_all key_enqueue (map ?code evs) d = Inr d1"
    and d2: "deq_many key_dequeue (length (map ?code evs) + n) d1 = (map ?code evs @ replicate n NEMU_KEY_NONE, d2)"
    using kbd.fifo[OF assms(1,2), of "map ?code evs" n] assms(4) by (auto simp: KEY_QUEUE_LEN_def)
  have "poll_events cfg (map (\<lambda>(k, down). SDL_KEY k down) evs) NEMU_RUNNING d = Inr (NEMU_RUNNING, d1)"
    using assms(3,5) d1 by (intro poll_keys) auto
  then show ?thesis using d2 by auto
qed

theorem keyboard_fifo_witness:
  "\<exists>d1 d2. poll_events default_config (map (\<lambda>(k, down). SDL_KEY k down) [(4, True), (5, True), (4, False)]) NEMU_RUNNING
      (dev0\<lparr>keymap := \<lambda>k. if k = 4 then 21 else 22\<rparr>) = Inr (NEMU_RUNNING, d1) \<and>
    deq_many key_dequeue (length [(4 :: u8, True), (5, True), (4, False)] + 1) d1 =
      (map (\<lambda>(k, down). keymap (dev0\<lparr>keymap := \<lambda>k. if k = 4 then 21 else 22\<rparr>) k OR (if down then KEYDOWN_MASK else 0))
        [(4, True), (5, True), (4, False)] @ replicate 1 NEMU_KEY_NONE, d2)"
  by (rule keyboard_fifo)
     (auto simp: key_inv_def keys_def ring_def ring_len_def dev0_def default_config_def KEY_QUEUE_LEN_def NEMU_KEY_NONE_def)

text \<open>C8: each audio callback plays the next bytes of the ring buffer in order, across the wrap, pads with
  silence what the guest has not supplied, and leaves exactly the unplayed bytes in the buffer.\<close>

theorem audio_callback_plays:
  assumes "audio_ok d"
  shows "\<exists>d'. sdl_audio_callback len d =
      Inr (take (unat len) (audio_ring d) @ replicate (unat len - length (audio_ring d)) 0, d') \<and>
    audio_ok d' \<and> audio_ring d' = drop (unat len) (audio_ring d)"
  using assms by (rule sdl_audio_plays)

theorem audio_callback_plays_witness:
  "let d = set_reg32 64 reg_rptr 6 (set_reg32 64 reg_wptr 2 (set_reg32 64 reg_sbuf_size 8 (dev0\<lparr>audio_base := 64\<rparr>))) in
   \<exists>d'. sdl_audio_callback 3 d =
      Inr (take (unat (3 :: u32)) (audio_ring d) @ replicate (unat (3 :: u32) - length (audio_ring d)) 0, d') \<and>
    audio_ok d' \<and> audio_ring d' = drop (unat (3 :: u32)) (audio_ring d)"
  unfolding Let_def
  by (rule audio_callback_plays)
     (simp add: audio_ok_def Let_def reg32_set_other reg32_set_same audio_regs, simp add: dev0_def)

text \<open>The default configuration's controller, as it is after its initialisation.\<close>

lemma init_sdcard_ready:
  "\<exists>d. init_sdcard default_config (Some img) dev0 = Inr d \<and> sd_ready (CONFIG_SDCARD_CTL_MMIO default_config) d \<and>
    \<not> read_ext_csd d \<and> sd_fp d = Some (img, 0)"
  by (simp add: init_sdcard_def new_space_def add_mmio_map_def sd_ready_def dev0_def default_config_def Let_def bind_res_def
    in_pmem_def assert_res_def sd_regs IO_SPACE_MAX_def NR_MAP_def PAGE_SIZE_def map_inside_def C_SIZE_def
    MEMORY_SIZE_def READ_BL_LEN_def)

text \<open>C9: a driver that stores a block number and the write command and then words to the data register, and
  that stores the block number and the read command and then loads as many words, loads the words it stored; the
  card holds them from the block on and is unchanged elsewhere. The accesses go over the bus, to the handlers of the
  controller, for every block that starts within the image; no transfer of the extended CSD is pending.\<close>

theorem sdcard_roundtrip:
  assumes "sd_ready base d" and "\<not> read_ext_csd d" and "sd_fp d = Some (f, p)" and "512 * unat blk \<le> length f"
    and "write AND 0x3f = 25" and "read AND 0x3f = 18"
  shows "\<exists>d'. sd_driver cfg base ([Sd_store SDARG blk, Sd_store SDCMD write] @ map (Sd_store SDDATA) vs @
      [Sd_store SDARG blk, Sd_store SDCMD read] @ replicate (length vs) (Sd_load SDDATA)) d = Inr (vs, d') \<and>
    map_option fst (sd_fp d') =
      Some (take (512 * unat blk) f @ concat (map word_bytes vs) @ drop (512 * unat blk + 4 * length vs) f)"
proof -
  let ?p = "512 * unat blk" and ?bs = "concat (map word_bytes vs)"
  let ?f = "file_write f ?p ?bs"
  obtain d1 where d1: "sd_driver cfg base [Sd_store SDARG blk, Sd_store SDCMD write] d = Inr ([], d1)"
    "sd_transferring base True f ?p d1" using sd_start[of base d f p "write" True] assms by auto
  obtain d2 where d2: "sd_driver cfg base (map (Sd_store SDDATA) vs) d1 = Inr ([], d2)"
    "sd_transferring base True ?f (?p + 4 * length vs) d2" using sd_put_words[OF d1(2) assms(4)] by blast
  obtain d3 where d3: "sd_driver cfg base [Sd_store SDARG blk, Sd_store SDCMD read] d2 = Inr ([], d3)"
    "sd_transferring base False ?f ?p d3"
    using sd_start[of base d2 ?f "?p + 4 * length vs" "read" False cfg blk] d2(2) assms(6)
    unfolding sd_transferring_def by auto
  have "drop ?p ?f = ?bs @ drop (length ?bs) (drop ?p ?f)"
    using file_write_read[of ?bs ?p f] by (metis append_take_drop_id)
  from sd_get_words[OF d3(2) this] obtain d4 where
    d4: "sd_driver cfg base (replicate (length vs) (Sd_load SDDATA)) d3 = Inr (vs, d4)"
    "sd_transferring base False ?f (?p + 4 * length vs) d4" by blast
  have "length ?bs = 4 * length vs" by (induction vs) simp_all
  then have "?f = take ?p f @ ?bs @ drop (?p + 4 * length vs) f"
    using assms(4) by (simp add: file_write_def)
  moreover have "sd_driver cfg base ([Sd_store SDARG blk, Sd_store SDCMD write] @ map (Sd_store SDDATA) vs @
      [Sd_store SDARG blk, Sd_store SDCMD read] @ replicate (length vs) (Sd_load SDDATA)) d = Inr (vs, d4)"
    unfolding sd_driver_append using d1(1) d2(1) d3(1) d4(1) by (simp add: bind_res_def)
  ultimately show ?thesis using d4(2) by (auto simp: sd_transferring_def)
qed

theorem sdcard_roundtrip_witness:
  "\<exists>d'. sd_driver default_config 0xa3000000 ([Sd_store SDARG 0, Sd_store SDCMD 0x59] @ map (Sd_store SDDATA) [1, 0xdeadbeef] @
      [Sd_store SDARG 0, Sd_store SDCMD 0x52] @ replicate (length [1, 0xdeadbeef :: u32]) (Sd_load SDDATA))
      (dev0\<lparr>sd_fp := Some ([], 0), mmio_maps := [\<lparr>name = ''sdhci'', low = 0xa3000000, high = 0xa3000000 + 0x80 - 1,
         space = sd_base dev0, callback = Some Sdcard_handler\<rparr>]\<rparr>) = Inr ([1, 0xdeadbeef], d') \<and>
    map_option fst (sd_fp d') = Some (take (512 * unat (0 :: u32)) [] @ concat (map word_bytes [1, 0xdeadbeef]) @
      drop (512 * unat (0 :: u32) + 4 * length [1, 0xdeadbeef :: u32]) [])"
  by (rule sdcard_roundtrip) (simp_all add: sd_ready_def dev0_def sd_regs IO_SPACE_MAX_def map_inside_def)

theorem add_mmio_map_owner_witness:
  "maps_ok (dev0\<lparr>mmio_maps := [\<lparr>name = ''rtc'', low = 0xa0000048, high = 0xa000004f, space = 0, callback = None\<rparr>]\<rparr>) \<and>
    find_map [\<lparr>name = ''rtc'', low = 0xa0000048, high = 0xa000004f, space = 0, callback = None\<rparr>] 0xa000004c =
      (if 0xa0000048 \<le> (0xa000004c :: u32) \<and> (0xa000004c :: u32) \<le> 0xa0000048 + 8 - 1
       then Some \<lparr>name = ''rtc'', low = 0xa0000048, high = 0xa0000048 + 8 - 1, space = 0, callback = None\<rparr>
       else find_map [] 0xa000004c)"
  using add_mmio_map_owner[where d = dev0 and addr = "0xa0000048" and len = 8 and cfg = default_config
    and nm = "''rtc''" and sp = 0 and cb = None and a = "0xa000004c" and d' =
    "dev0\<lparr>mmio_maps := [\<lparr>name = ''rtc'', low = 0xa0000048, high = 0xa000004f, space = 0, callback = None\<rparr>]\<rparr>"]
  by (simp add: add_mmio_map_Inr in_pmem_def default_config_def dev0_def maps_ok_def maps_disjoint_def NR_MAP_def)

end
