(* ===== verification/Memory.thy ===== *)
theory Memory
  imports Device_Proofs
begin

text \<open>
  Guest memory (\<open>nemu/src/memory\<close>): physical accesses go to the array \<open>pmem\<close> or, outside it, to the
  devices; virtual accesses are physical ones.  The interface \<open>memory_if\<close> states what a client may
  rely on inside a valid range; the bulk copies are verified from it, and physical memory is shown
  to provide it.
\<close>

section \<open>Definitions\<close>

record mem =
  pmem :: bytes
  devs :: dev

definition guest_to_host :: "config \<Rightarrow> u32 \<Rightarrow> nat" where
  "guest_to_host cfg paddr = unat (paddr - CONFIG_MBASE cfg)"

definition host_to_guest :: "config \<Rightarrow> nat \<Rightarrow> u32" where
  "host_to_guest cfg haddr = of_nat haddr + CONFIG_MBASE cfg"

definition pmem_read :: "config \<Rightarrow> u32 \<Rightarrow> nat \<Rightarrow> mem \<Rightarrow> u32 res" where
  "pmem_read cfg addr len m =
     host_read (CONFIG_RT_CHECK cfg) (unat (CONFIG_MSIZE cfg)) (pmem m) (guest_to_host cfg addr) len"

definition pmem_write :: "config \<Rightarrow> u32 \<Rightarrow> nat \<Rightarrow> u32 \<Rightarrow> mem \<Rightarrow> mem res" where
  "pmem_write cfg addr len data m = bind_res
     (host_write (CONFIG_RT_CHECK cfg) (unat (CONFIG_MSIZE cfg)) (pmem m) (guest_to_host cfg addr) len data)
     (\<lambda>p. Inr (m\<lparr>pmem := p\<rparr>))"

definition out_of_bound :: "'a res" where
  "out_of_bound = Inl (Panic ''address is out of bound of pmem'')"

definition paddr_read :: "config \<Rightarrow> u32 \<Rightarrow> nat \<Rightarrow> mem \<Rightarrow> (u32 \<times> mem) res" where
  "paddr_read cfg addr len m =
     (if in_pmem cfg addr then bind_res (pmem_read cfg addr len m) (\<lambda>v. Inr (v, m))
      else if CONFIG_DEVICE cfg then
        bind_res (mmio_read cfg (run_handler cfg) addr len (devs m)) (\<lambda>(v, d). Inr (v, m\<lparr>devs := d\<rparr>))
      else out_of_bound)"

definition paddr_write :: "config \<Rightarrow> u32 \<Rightarrow> nat \<Rightarrow> u32 \<Rightarrow> mem \<Rightarrow> mem res" where
  "paddr_write cfg addr len data m =
     (if in_pmem cfg addr then pmem_write cfg addr len data m
      else if CONFIG_DEVICE cfg then
        bind_res (mmio_write cfg (run_handler cfg) addr len data (devs m)) (\<lambda>d. Inr (m\<lparr>devs := d\<rparr>))
      else out_of_bound)"

text \<open>Bulk copies, byte by byte, over any pair of access functions.\<close>

fun copy_to :: "(u32 \<Rightarrow> nat \<Rightarrow> u32 \<Rightarrow> 's \<Rightarrow> 's res) \<Rightarrow> u32 \<Rightarrow> u8 list \<Rightarrow> 's \<Rightarrow> 's res" where
  "copy_to wr addr [] m = Inr m"
| "copy_to wr addr (b # buf) m = bind_res (wr addr 1 (ucast b) m) (copy_to wr (addr + 1) buf)"

fun copy_from :: "(u32 \<Rightarrow> nat \<Rightarrow> 's \<Rightarrow> (u32 \<times> 's) res) \<Rightarrow> u32 \<Rightarrow> nat \<Rightarrow> 's \<Rightarrow> (u8 list \<times> 's) res" where
  "copy_from rd addr 0 m = Inr ([], m)"
| "copy_from rd addr (Suc n) m = bind_res (rd addr 1 m) (\<lambda>(v, m).
     bind_res (copy_from rd (addr + 1) n m) (\<lambda>(bs, m). Inr (ucast v # bs, m)))"

definition copy_to_paddr :: "config \<Rightarrow> u32 \<Rightarrow> u8 list \<Rightarrow> mem \<Rightarrow> mem res" where
  "copy_to_paddr cfg addr buf m = copy_to (paddr_write cfg) addr buf m"

definition copy_from_paddr :: "config \<Rightarrow> u32 \<Rightarrow> nat \<Rightarrow> mem \<Rightarrow> (u8 list \<times> mem) res" where
  "copy_from_paddr cfg addr n m = copy_from (paddr_read cfg) addr n m"

definition vaddr_ifetch :: "config \<Rightarrow> u32 \<Rightarrow> nat \<Rightarrow> mem \<Rightarrow> (u32 \<times> mem) res" where
  "vaddr_ifetch cfg addr len m = paddr_read cfg addr len m"

definition vaddr_read :: "config \<Rightarrow> u32 \<Rightarrow> nat \<Rightarrow> mem \<Rightarrow> (u32 \<times> mem) res" where
  "vaddr_read cfg addr len m = paddr_read cfg addr len m"

definition vaddr_write :: "config \<Rightarrow> u32 \<Rightarrow> nat \<Rightarrow> u32 \<Rightarrow> mem \<Rightarrow> mem res" where
  "vaddr_write cfg addr len data m = paddr_write cfg addr len data m"

section \<open>The memory interface\<close>

text \<open>\<open>valid a n\<close>: the \<open>n\<close> bytes from \<open>a\<close> on are memory.  Offsets are distances from a base, so that a
  range never wraps.\<close>

locale memory_if =
  fixes off :: "u32 \<Rightarrow> nat" and limit :: nat
    and rd :: "u32 \<Rightarrow> nat \<Rightarrow> 's \<Rightarrow> (u32 \<times> 's) res" and wr :: "u32 \<Rightarrow> nat \<Rightarrow> u32 \<Rightarrow> 's \<Rightarrow> 's res"
  assumes off_succ: "off a + 1 < limit \<Longrightarrow> off (a + 1) = off a + 1"
    and rd_total: "access_len n \<Longrightarrow> off a + n \<le> limit \<Longrightarrow> \<exists>v. rd a n s = Inr (v, s)"
    and wr_total: "access_len n \<Longrightarrow> off a + n \<le> limit \<Longrightarrow> \<exists>s'. wr a n v s = Inr s'"
    and rd_wr_same: "access_len n \<Longrightarrow> off a + n \<le> limit \<Longrightarrow> wr a n v s = Inr s' \<Longrightarrow> rd a n s' = Inr (take_bit (8 * n) v, s')"
    and rd_wr_other: "access_len n \<Longrightarrow> off a + n \<le> limit \<Longrightarrow> wr a n v s = Inr s' \<Longrightarrow>
      access_len k \<Longrightarrow> off b + k \<le> limit \<Longrightarrow> off b + k \<le> off a \<or> off a + n \<le> off b \<Longrightarrow>
      rd b k s = Inr (w, s) \<Longrightarrow> rd b k s' = Inr (w, s')"
begin

lemma access_len_1 [simp]: "access_len (Suc 0)"
  by (simp add: access_len_def)

lemma copy_to_other:
  assumes "off a + length bs \<le> limit" and "copy_to wr a bs s = Inr s'" and "access_len k" and "off b + k \<le> limit"
    and "off b + k \<le> off a \<or> off a + length bs \<le> off b" and "rd b k s = Inr (w, s)"
  shows "rd b k s' = Inr (w, s')"
  using assms
proof (induction bs arbitrary: a s)
  case (Cons c cs)
  from Cons.prems(2) obtain s1 where s1: "wr a 1 (ucast c) s = Inr s1" "copy_to wr (a + 1) cs s1 = Inr s'"
    by (auto simp: res_simps)
  have r1: "rd b k s1 = Inr (w, s1)"
    using Cons.prems by (intro rd_wr_other[OF _ _ s1(1)]) auto
  show ?case
  proof (cases cs)
    case Nil then show ?thesis using s1 r1 by simp
  next
    case (Cons c' cs')
    then have "off (a + 1) = off a + 1" using Cons.prems(1) by (intro off_succ) simp
    then show ?thesis using Cons.IH[OF _ s1(2)] Cons.prems r1 by auto
  qed
qed simp

lemma copy_to_total: "off a + length bs \<le> limit \<Longrightarrow> \<exists>s'. copy_to wr a bs s = Inr s'"
proof (induction bs arbitrary: a s)
  case (Cons c cs)
  obtain s1 where "wr a 1 (ucast c) s = Inr s1" using wr_total[of 1 a] Cons.prems by auto
  moreover have "\<exists>s'. copy_to wr (a + 1) cs s1 = Inr s'"
  proof (cases cs)
    case (Cons c' cs')
    then have "off (a + 1) = off a + 1" using Cons.prems(1) by (intro off_succ) simp
    then show ?thesis using Cons.IH Cons.prems by auto
  qed simp
  ultimately show ?case by simp
qed simp

lemma copy_roundtrip:
  assumes "off a + length bs \<le> limit"
  shows "\<exists>s'. copy_to wr a bs s = Inr s' \<and> copy_from rd a (length bs) s' = Inr (bs, s')"
  using assms
proof (induction bs arbitrary: a s)
  case (Cons c cs)
  obtain s1 where s1: "wr a 1 (ucast c) s = Inr s1" using wr_total[of 1 a] Cons.prems by auto
  have r1: "rd a 1 s1 = Inr (take_bit 8 (ucast c), s1)" using rd_wr_same[of 1 a] s1 Cons.prems by auto
  have c: "ucast (take_bit 8 (ucast c) :: u32) = c"
    by (rule bit_word_eqI) (auto simp: bit_ucast_iff bit_take_bit_iff)
  show ?case
  proof (cases cs)
    case Nil
    then show ?thesis using s1 r1 c by simp
  next
    case (Cons c' cs')
    then have o: "off (a + 1) = off a + 1" using Cons.prems(1) by (intro off_succ) simp
    then obtain s' where s': "copy_to wr (a + 1) cs s1 = Inr s'" "copy_from rd (a + 1) (length cs) s' = Inr (cs, s')"
      using Cons.IH[of "a + 1" s1] Cons.prems by auto
    have "rd a 1 s' = Inr (take_bit 8 (ucast c), s')"
      using Cons.prems o r1 by (intro copy_to_other[OF _ s'(1)]) auto
    then show ?thesis using s1 s' c by simp
  qed
qed simp

end

section \<open>Physical memory provides the interface\<close>

lemma in_pmem_off: "in_pmem cfg a \<longleftrightarrow> guest_to_host cfg a < unat (CONFIG_MSIZE cfg)"
  by (simp add: in_pmem_def guest_to_host_def word_less_nat_alt)

lemma add_diff_eq_word: "a + 1 - b = a - b + (1 :: u32)"
  by simp

lemma guest_to_host_succ:
  assumes "guest_to_host cfg a + 1 < unat (CONFIG_MSIZE cfg)"
  shows "guest_to_host cfg (a + 1) = guest_to_host cfg a + 1"
proof -
  have "unat (a - CONFIG_MBASE cfg) + unat (1 :: u32) < 2 ^ LENGTH(32)"
    using assms unat_u32_less[of "CONFIG_MSIZE cfg"] by (simp add: guest_to_host_def)
  then have "unat (a - CONFIG_MBASE cfg + 1) = unat (a - CONFIG_MBASE cfg) + 1"
    by (subst unat_add_no_wrap) simp_all
  moreover have "a + 1 - CONFIG_MBASE cfg = a - CONFIG_MBASE cfg + 1" by (rule add_diff_eq_word)
  ultimately show ?thesis by (simp only: guest_to_host_def)
qed

lemma guest_to_host_add:
  assumes "guest_to_host cfg a + k < unat (CONFIG_MSIZE cfg)"
  shows "guest_to_host cfg (a + of_nat k) = guest_to_host cfg a + k"
proof -
  have k: "k < 2 ^ 32" "unat (a - CONFIG_MBASE cfg) + k < 2 ^ 32"
    using assms unat_u32_less[of "CONFIG_MSIZE cfg"] by (simp_all add: guest_to_host_def)
  have "unat (a - CONFIG_MBASE cfg + of_nat k) = unat (a - CONFIG_MBASE cfg) + k"
    using k by (subst unat_add_no_wrap) (simp_all add: unat_of_nat_u32)
  moreover have "a + of_nat k - CONFIG_MBASE cfg = a - CONFIG_MBASE cfg + of_nat k" by simp
  ultimately show ?thesis by (simp only: guest_to_host_def)
qed

lemma paddr_read_pmem:
  assumes "access_len n" and "guest_to_host cfg a + n \<le> unat (CONFIG_MSIZE cfg)"
  shows "paddr_read cfg a n m = Inr (read_le (pmem m) (guest_to_host cfg a) n, m)"
proof -
  have "in_pmem cfg a" using assms by (auto simp: in_pmem_off access_len_def)
  moreover have "pmem_read cfg a n m = Inr (read_le (pmem m) (guest_to_host cfg a) n)"
    unfolding pmem_read_def using assms by (simp only: host_read_eq_Inr)
  ultimately show ?thesis by (simp add: paddr_read_def)
qed

lemma paddr_write_pmem:
  assumes "access_len n" and "guest_to_host cfg a + n \<le> unat (CONFIG_MSIZE cfg)"
  shows "paddr_write cfg a n v m = Inr (m\<lparr>pmem := write_le (pmem m) (guest_to_host cfg a) n v\<rparr>)"
proof -
  have "in_pmem cfg a" using assms by (auto simp: in_pmem_off access_len_def)
  moreover have "host_write (CONFIG_RT_CHECK cfg) (unat (CONFIG_MSIZE cfg)) (pmem m) (guest_to_host cfg a) n v =
      Inr (write_le (pmem m) (guest_to_host cfg a) n v)"
    using assms by (simp only: host_write_eq_Inr)
  ultimately show ?thesis by (simp add: paddr_write_def pmem_write_def)
qed

interpretation paddr: memory_if "guest_to_host cfg" "unat (CONFIG_MSIZE cfg)" "paddr_read cfg" "paddr_write cfg" for cfg
  by unfold_locales
     (auto simp: guest_to_host_succ paddr_read_pmem paddr_write_pmem read_write_le_same
        intro!: read_write_le_disjoint simp del: read_le.simps write_le.simps)

section \<open>Properties\<close>

text \<open>A block copied into guest memory is read back unchanged, wherever in physical memory it is
  put; both copies return.\<close>

theorem copy_paddr_roundtrip:
  assumes "guest_to_host cfg addr + length buf \<le> unat (CONFIG_MSIZE cfg)"
  shows "\<exists>m'. copy_to_paddr cfg addr buf m = Inr m' \<and> copy_from_paddr cfg addr (length buf) m' = Inr (buf, m')"
  unfolding copy_to_paddr_def copy_from_paddr_def by (rule paddr.copy_roundtrip[OF assms])

theorem copy_paddr_roundtrip_witness:
  "\<exists>m'. copy_to_paddr default_config 0x80000010 [1, 2, 3] \<lparr>pmem = (\<lambda>_. 0), devs = dev0\<rparr> = Inr m' \<and>
     copy_from_paddr default_config 0x80000010 (length [1, 2, 3 :: u8]) m' = Inr ([1, 2, 3], m')"
  by (rule copy_paddr_roundtrip) (simp add: guest_to_host_def default_config_def)

text \<open>An access that starts in the last bytes of physical memory is let through although it leaves the
  array: only its first address is checked.\<close>

theorem paddr_read_past_end:
  "in_pmem default_config 0x87fffffe \<and>
   (\<exists>msg. paddr_read default_config 0x87fffffe 4 m = Inl (Undefined msg))"
  by (simp add: in_pmem_def paddr_read_def pmem_read_def host_read_def guest_to_host_def default_config_def)

end
