(* ===== verification/Libc.thy ===== *)
theory Libc
  imports Prelude
begin

text \<open>
  The parts of the C library the debugger relies on: \<open>strtol\<close> (and \<open>strtoll\<close>) with 64-bit results,
  \<open>strtok\<close> with a blank as the only separator.
\<close>

section \<open>Number conversion\<close>

definition is_space :: "char \<Rightarrow> bool" where
  "is_space c \<longleftrightarrow> c \<in> {CHR '' '', CHR 0x09, CHR 0x0A, CHR 0x0B, CHR 0x0C, CHR 0x0D}"

definition digit_val :: "char \<Rightarrow> nat" where
  "digit_val c = (let n = of_char c :: nat in
     if 48 \<le> n \<and> n \<le> 57 then n - 48
     else if 97 \<le> n \<and> n \<le> 122 then n - 87
     else if 65 \<le> n \<and> n \<le> 90 then n - 55
     else 36)"

definition is_digit :: "nat \<Rightarrow> char \<Rightarrow> bool" where
  "is_digit base c \<longleftrightarrow> digit_val c < base"

definition digits_val :: "nat \<Rightarrow> string \<Rightarrow> nat" where
  "digits_val base ds = foldl (\<lambda>x c. x * base + digit_val c) 0 ds"

definition LONG_MAX :: int where "LONG_MAX = 2 ^ 63 - 1"
definition LONG_MIN :: int where "LONG_MIN = - (2 ^ 63)"

fun opt_sign :: "string \<Rightarrow> bool \<times> string" where
  "opt_sign (c # s) = (if c = CHR ''-'' then (True, s) else if c = CHR ''+'' then (False, s) else (False, c # s))"
| "opt_sign [] = (False, [])"

fun opt_0x :: "nat \<Rightarrow> string \<Rightarrow> string" where
  "opt_0x base (z # x # d # s) =
     (if base = 16 \<and> z = CHR ''0'' \<and> (x = CHR ''x'' \<or> x = CHR ''X'') \<and> is_digit 16 d then d # s else z # x # d # s)"
| "opt_0x base s = s"

text \<open>The value, saturated to \<open>long\<close>, and the rest of the string; \<open>None\<close> when \<open>endptr\<close> is the start.\<close>

definition strtol :: "nat \<Rightarrow> string \<Rightarrow> (int \<times> string) option" where
  "strtol base s = (let
     (neg, s) = opt_sign (dropWhile is_space s);
     s = opt_0x base s;
     ds = takeWhile (is_digit base) s;
     v = (if neg then - int (digits_val base ds) else int (digits_val base ds))
   in if ds = [] then None else Some (max LONG_MIN (min LONG_MAX v), dropWhile (is_digit base) s))"

section \<open>Tokens separated by blanks\<close>

text \<open>The first token of a string and what follows its terminator; the terminating blank is consumed.\<close>

definition strtok :: "string \<Rightarrow> (string \<times> string) option" where
  "strtok s = (let s = dropWhile (\<lambda>c. c = CHR '' '') s in
     if s = [] then None else Some (takeWhile (\<lambda>c. c \<noteq> CHR '' '') s, tl (dropWhile (\<lambda>c. c \<noteq> CHR '' '') s)))"

section \<open>Lemmas\<close>

lemma strtol_decimal:
  assumes "ds \<noteq> []" and "list_all (is_digit 10) ds" and "int (digits_val 10 ds) \<le> LONG_MAX"
  shows "strtol 10 ds = Some (int (digits_val 10 ds), [])"
proof -
  obtain d ds' where ds: "ds = d # ds'" using assms(1) by (cases ds) auto
  have d: "is_digit 10 d" using assms(2) ds by simp
  then have "\<not> is_space d" "d \<noteq> CHR ''-''" "d \<noteq> CHR ''+''"
    by (auto simp: is_digit_def is_space_def digit_val_def Let_def)
  then have s: "opt_sign (dropWhile is_space ds) = (False, ds)" by (simp add: ds)
  have o: "opt_0x 10 ds = ds" by (cases "(10 :: nat, ds)" rule: opt_0x.cases) auto
  have t: "takeWhile (is_digit 10) ds = ds" "dropWhile (is_digit 10) ds = []"
    using assms(2) by (auto simp: list_all_iff takeWhile_eq_all_conv)
  have m: "max LONG_MIN (min LONG_MAX (int (digits_val 10 ds))) = int (digits_val 10 ds)"
    using assms(3) by (simp add: LONG_MIN_def)
  show ?thesis unfolding strtol_def s Let_def prod.case o t using assms(1) m by simp
qed

end
