(* ===== verification/Riscv.thy ===== *)
theory Riscv
  imports Memory Pattern Libc "HOL-Library.Signed_Division"
begin

text \<open>
  The RISC-V guest (\<open>nemu/src/isa/riscv32\<close>): processor state, operand decoding, the instruction
  table of \<open>decode_exec\<close> with every execute body, the trap and CSR helpers, the decoders used by
  the tracers, and the initialisation with the built-in image.  The word size is 32 bits.

  An instruction table is the list of its \<open>INSTPAT\<close> lines in order; a table entry names its
  operation and its operand format, and the execute bodies are the cases of \<open>exec_body\<close>.
\<close>

section \<open>State\<close>

record CPU_state =
  gpr :: "nat \<Rightarrow> u32"
  cpu_pc :: u32
  csr :: "nat \<Rightarrow> u32"
  priv_level :: u8

record nemu =
  cpu :: CPU_state
  memory :: mem
  nstate :: run_state
  halt_pc :: u32
  halt_ret :: u32

text \<open>The static state at program start: zeroed globals, \<open>nemu_state\<close> stopped.\<close>

definition nemu_boot :: nemu where
  "nemu_boot = \<lparr>cpu = \<lparr>gpr = (\<lambda>_. 0), cpu_pc = 0, csr = (\<lambda>_. 0), priv_level = 0\<rparr>,
     memory = \<lparr>pmem = (\<lambda>_. 0), devs = dev0\<rparr>, nstate = NEMU_STOP, halt_pc = 0, halt_ret = 0\<rparr>"

record Decode =
  s_pc :: u32
  snpc :: u32
  dnpc :: u32
  inst :: u32

definition CSR_mstatus :: nat where "CSR_mstatus = 0x300"
definition CSR_mtvec :: nat where "CSR_mtvec = 0x305"
definition CSR_mepc :: nat where "CSR_mepc = 0x341"
definition CSR_mcause :: nat where "CSR_mcause = 0x342"
definition CSR_mtval :: nat where "CSR_mtval = 0x343"
definition CSR_mcycle :: nat where "CSR_mcycle = 0xb00"
definition CSR_mcycleh :: nat where "CSR_mcycleh = 0xb80"
definition CSR_mvendorid :: nat where "CSR_mvendorid = 0xf11"
definition CSR_marchid :: nat where "CSR_marchid = 0xf12"

lemmas csr_idx = CSR_mstatus_def CSR_mtvec_def CSR_mepc_def CSR_mcause_def CSR_mtval_def CSR_mcycle_def
  CSR_mcycleh_def CSR_mvendorid_def CSR_marchid_def

definition PRIV_LEVEL_M :: u8 where "PRIV_LEVEL_M = 3"

section \<open>Register access\<close>

definition nr_gpr :: "config \<Rightarrow> nat" where
  "nr_gpr cfg = (if CONFIG_RVE cfg then 16 else 32)"

definition check_reg_idx :: "config \<Rightarrow> nat \<Rightarrow> nat res" where
  "check_reg_idx cfg idx =
     (if idx < nr_gpr cfg then Inr idx
      else if CONFIG_RT_CHECK cfg then Inl (Assert_fail ''check_reg_idx'')
      else Inl (Undefined ''register index out of bounds''))"

definition R_get :: "config \<Rightarrow> nat \<Rightarrow> nemu \<Rightarrow> u32 res" where
  "R_get cfg i st = bind_res (check_reg_idx cfg i) (\<lambda>i. Inr (gpr (cpu st) i))"

definition R_set :: "config \<Rightarrow> nat \<Rightarrow> u32 \<Rightarrow> nemu \<Rightarrow> nemu res" where
  "R_set cfg i v st = bind_res (check_reg_idx cfg i) (\<lambda>i.
     Inr (st\<lparr>cpu := (cpu st)\<lparr>gpr := (gpr (cpu st))(i := v)\<rparr>\<rparr>))"

definition check_csr_idx :: "config \<Rightarrow> nat \<Rightarrow> nat res" where
  "check_csr_idx cfg idx =
     (if idx < 4096 then Inr idx
      else if CONFIG_RT_CHECK cfg then Inl (Assert_fail ''check_csr_idx'')
      else Inl (Undefined ''CSR index out of bounds''))"

definition csr_get :: "config \<Rightarrow> nat \<Rightarrow> nemu \<Rightarrow> u32 res" where
  "csr_get cfg i st = bind_res (check_csr_idx cfg i) (\<lambda>i. Inr (csr (cpu st) i))"

definition csr_set :: "config \<Rightarrow> nat \<Rightarrow> u32 \<Rightarrow> nemu \<Rightarrow> nemu res" where
  "csr_set cfg i v st = bind_res (check_csr_idx cfg i) (\<lambda>i.
     Inr (st\<lparr>cpu := (cpu st)\<lparr>csr := (csr (cpu st))(i := v)\<rparr>\<rparr>))"

section \<open>Memory access of an instruction\<close>

definition Mr :: "config \<Rightarrow> u32 \<Rightarrow> nat \<Rightarrow> nemu \<Rightarrow> (u32 \<times> nemu) res" where
  "Mr cfg addr len st = bind_res (vaddr_read cfg addr len (memory st)) (\<lambda>(v, m). Inr (v, st\<lparr>memory := m\<rparr>))"

definition Mw :: "config \<Rightarrow> u32 \<Rightarrow> nat \<Rightarrow> u32 \<Rightarrow> nemu \<Rightarrow> nemu res" where
  "Mw cfg addr len data st = bind_res (vaddr_write cfg addr len data (memory st)) (\<lambda>m. Inr (st\<lparr>memory := m\<rparr>))"

definition inst_fetch :: "config \<Rightarrow> u32 \<Rightarrow> nat \<Rightarrow> nemu \<Rightarrow> (u32 \<times> u32 \<times> nemu) res" where
  "inst_fetch cfg pc len st = bind_res (vaddr_ifetch cfg pc len (memory st)) (\<lambda>(i, m).
     Inr (i, pc + of_nat len, st\<lparr>memory := m\<rparr>))"

section \<open>Traps\<close>

definition set_nemu_state :: "run_state \<Rightarrow> u32 \<Rightarrow> u32 \<Rightarrow> nemu \<Rightarrow> nemu" where
  "set_nemu_state s pc ret st = st\<lparr>memory := (memory st)\<lparr>devs := difftest_skip_ref (devs (memory st))\<rparr>,
     nstate := s, halt_pc := pc, halt_ret := ret\<rparr>"

text \<open>\<open>invalid_inst\<close> fetches two words for its message before it aborts.\<close>

definition invalid_inst :: "config \<Rightarrow> u32 \<Rightarrow> nemu \<Rightarrow> nemu res" where
  "invalid_inst cfg thispc st =
     bind_res (inst_fetch cfg thispc 4 st) (\<lambda>(_, pc, st).
     bind_res (inst_fetch cfg pc 4 st) (\<lambda>(_, _, st).
     Inr (set_nemu_state NEMU_ABORT thispc (- 1) st)))"

definition NEMUTRAP :: "u32 \<Rightarrow> u32 \<Rightarrow> nemu \<Rightarrow> nemu" where
  "NEMUTRAP thispc code st = set_nemu_state NEMU_END thispc code st"

definition isa_raise_intr :: "config \<Rightarrow> u32 \<Rightarrow> u32 \<Rightarrow> nemu \<Rightarrow> (u32 \<times> nemu) res" where
  "isa_raise_intr cfg NO epc st =
     bind_res (csr_set cfg CSR_mepc epc st) (\<lambda>st.
     bind_res (csr_set cfg CSR_mtval epc st) (\<lambda>st.
     bind_res (csr_set cfg CSR_mcause NO st) (\<lambda>st.
     bind_res (csr_get cfg CSR_mtvec st) (\<lambda>v. Inr (v, st)))))"

definition riscv_ecall :: "config \<Rightarrow> u32 \<Rightarrow> nemu \<Rightarrow> (u32 \<times> nemu) res" where
  "riscv_ecall cfg epc st = isa_raise_intr cfg (ucast (priv_level (cpu st)) + 8) epc st"

definition riscv_mret :: "config \<Rightarrow> nemu \<Rightarrow> u32 res" where
  "riscv_mret cfg st = csr_get cfg CSR_mepc st"

section \<open>Division\<close>

definition SWORD_MIN :: int where
  "SWORD_MIN = - (2 ^ 31)"

definition riscv_div :: "u32 \<Rightarrow> u32 \<Rightarrow> u32" where
  "riscv_div src1 src2 =
     (if src2 = 0 then - 1
      else if sint src1 = SWORD_MIN \<and> sint src2 = - 1 then src1
      else word_of_int (sint src1 sdiv sint src2))"

definition riscv_divu :: "u32 \<Rightarrow> u32 \<Rightarrow> u32" where
  "riscv_divu src1 src2 = (if src2 = 0 then - 1 else src1 div src2)"

definition riscv_rem :: "u32 \<Rightarrow> u32 \<Rightarrow> u32" where
  "riscv_rem src1 src2 =
     (if src2 = 0 then src1
      else if sint src1 = SWORD_MIN \<and> sint src2 = - 1 then 0
      else word_of_int (sint src1 smod sint src2))"

definition riscv_remu :: "u32 \<Rightarrow> u32 \<Rightarrow> u32" where
  "riscv_remu src1 src2 = (if src2 = 0 then src1 else src1 mod src2)"

section \<open>CSR instructions\<close>

definition riscv_csrrwi :: "config \<Rightarrow> nat \<Rightarrow> u32 \<Rightarrow> nat \<Rightarrow> nemu \<Rightarrow> nemu res" where
  "riscv_csrrwi cfg c val rd st = bind_res (csr_get cfg c st) (\<lambda>oldval.
     bind_res (csr_set cfg c val st) (R_set cfg rd oldval))"

definition riscv_csrrsi :: "config \<Rightarrow> nat \<Rightarrow> u32 \<Rightarrow> nat \<Rightarrow> nemu \<Rightarrow> nemu res" where
  "riscv_csrrsi cfg c val rd st = bind_res (csr_get cfg c st) (\<lambda>oldval.
     bind_res (csr_set cfg c (oldval OR val) st) (R_set cfg rd oldval))"

definition riscv_csrrci :: "config \<Rightarrow> nat \<Rightarrow> u32 \<Rightarrow> nat \<Rightarrow> nemu \<Rightarrow> nemu res" where
  "riscv_csrrci cfg c val rd st = bind_res (csr_get cfg c st) (\<lambda>oldval.
     bind_res (csr_set cfg c (oldval AND NOT val) st) (R_set cfg rd oldval))"

definition riscv_csrrw :: "config \<Rightarrow> nat \<Rightarrow> nat \<Rightarrow> nat \<Rightarrow> nemu \<Rightarrow> nemu res" where
  "riscv_csrrw cfg c rs1 rd st = bind_res (R_get cfg rs1 st) (\<lambda>v. riscv_csrrwi cfg c v rd st)"

definition riscv_csrrs :: "config \<Rightarrow> nat \<Rightarrow> nat \<Rightarrow> nat \<Rightarrow> nemu \<Rightarrow> nemu res" where
  "riscv_csrrs cfg c rs1 rd st = bind_res (R_get cfg rs1 st) (\<lambda>v. riscv_csrrsi cfg c v rd st)"

definition riscv_csrrc :: "config \<Rightarrow> nat \<Rightarrow> nat \<Rightarrow> nat \<Rightarrow> nemu \<Rightarrow> nemu res" where
  "riscv_csrrc cfg c rs1 rd st = bind_res (R_get cfg rs1 st) (\<lambda>v. riscv_csrrci cfg c v rd st)"

section \<open>Operands\<close>

datatype rv_type = TYPE_R | TYPE_I | TYPE_S | TYPE_B | TYPE_U | TYPE_J | TYPE_CSR | TYPE_CSR_IMM | TYPE_N

record operands =
  o_rd :: nat
  o_rs1 :: nat
  o_rs2 :: nat
  o_csr :: nat
  src1 :: u32
  src2 :: u32
  imm :: u32

abbreviation ibits :: "u32 \<Rightarrow> nat \<Rightarrow> nat \<Rightarrow> u64" where
  "ibits i hi lo \<equiv> BITS (ucast i) hi lo"

definition immI :: "u32 \<Rightarrow> u32" where
  "immI i = ucast (SEXT (ibits i 31 20) 12)"

definition immU :: "u32 \<Rightarrow> u32" where
  "immU i = ucast (push_bit 12 (SEXT (ibits i 31 12) 20))"

definition immS :: "u32 \<Rightarrow> u32" where
  "immS i = ucast (push_bit 5 (SEXT (ibits i 31 25) 7) OR ibits i 11 7)"

definition immB :: "u32 \<Rightarrow> u32" where
  "immB i = ucast (push_bit 12 (SEXT (ibits i 31 31) 1) OR push_bit 11 (ibits i 7 7) OR
     push_bit 5 (ibits i 30 25) OR push_bit 1 (ibits i 11 8))"

definition immJ :: "u32 \<Rightarrow> u32" where
  "immJ i = ucast (push_bit 20 (SEXT (ibits i 31 31) 1) OR push_bit 12 (ibits i 19 12) OR
     push_bit 11 (ibits i 20 20) OR push_bit 1 (ibits i 30 21))"

definition immCSR :: "u32 \<Rightarrow> u32" where
  "immCSR i = ucast (ibits i 19 15)"

definition decode_operand :: "config \<Rightarrow> u32 \<Rightarrow> rv_type \<Rightarrow> nemu \<Rightarrow> operands res" where
  "decode_operand cfg i type st = (let
     ops = \<lparr>o_rd = unat (ibits i 11 7), o_rs1 = unat (ibits i 19 15), o_rs2 = unat (ibits i 24 20), o_csr = 0,
            src1 = 0, src2 = 0, imm = 0\<rparr>;
     src1R = (\<lambda>ops. bind_res (R_get cfg (o_rs1 ops) st) (\<lambda>v. Inr (ops\<lparr>src1 := v\<rparr>)));
     src2R = (\<lambda>ops. bind_res (R_get cfg (o_rs2 ops) st) (\<lambda>v. Inr (ops\<lparr>src2 := v\<rparr>)));
     CSRAddr = (\<lambda>ops. ops\<lparr>o_csr := unat (ibits i 31 20)\<rparr>)
   in case type of
     TYPE_R \<Rightarrow> bind_res (src1R ops) src2R
   | TYPE_I \<Rightarrow> bind_res (src1R ops) (\<lambda>ops. Inr (ops\<lparr>imm := immI i\<rparr>))
   | TYPE_S \<Rightarrow> bind_res (src1R ops) (\<lambda>ops. bind_res (src2R ops) (\<lambda>ops. Inr (ops\<lparr>imm := immS i\<rparr>)))
   | TYPE_B \<Rightarrow> bind_res (src1R ops) (\<lambda>ops. bind_res (src2R ops) (\<lambda>ops. Inr (ops\<lparr>imm := immB i\<rparr>)))
   | TYPE_U \<Rightarrow> Inr (ops\<lparr>imm := immU i\<rparr>)
   | TYPE_J \<Rightarrow> Inr (ops\<lparr>imm := immJ i\<rparr>)
   | TYPE_CSR \<Rightarrow> bind_res (src1R ops) (\<lambda>ops. Inr (CSRAddr ops))
   | TYPE_CSR_IMM \<Rightarrow> Inr (CSRAddr (ops\<lparr>imm := immCSR i\<rparr>))
   | TYPE_N \<Rightarrow> Inr ops)"

section \<open>The instruction table\<close>

datatype rv_op =
    LUI | AUIPC | JAL | JALR | BEQ | BNE | BLT | BGE | BLTU | BGEU | LB | LH | LW | LBU | LHU | SB | SH | SW
  | ADDI | SLTI | SLTIU | XORI | ORI | ANDI | SLLI | SRLI | SRAI | ADD | SUB | SLL | SLT | SLTU | XOR_op | SRL | SRA
  | OR_op | AND_op | FENCE | ECALL | EBREAK | MUL | MULH | MULHSU | MULHU | DIV | DIVU | REM | REMU
  | CSRRW | CSRRS | CSRRC | CSRRWI | CSRRSI | CSRRCI | MRET | FENCE_I | INV

definition rv_table :: "(string \<times> rv_op \<times> rv_type) list" where
  "rv_table = [
    (''??????? ????? ????? ??? ????? 01101 11'', LUI, TYPE_U),
    (''??????? ????? ????? ??? ????? 00101 11'', AUIPC, TYPE_U),
    (''??????? ????? ????? ??? ????? 11011 11'', JAL, TYPE_J),
    (''??????? ????? ????? 000 ????? 11001 11'', JALR, TYPE_I),
    (''??????? ????? ????? 000 ????? 11000 11'', BEQ, TYPE_B),
    (''??????? ????? ????? 001 ????? 11000 11'', BNE, TYPE_B),
    (''??????? ????? ????? 100 ????? 11000 11'', BLT, TYPE_B),
    (''??????? ????? ????? 101 ????? 11000 11'', BGE, TYPE_B),
    (''??????? ????? ????? 110 ????? 11000 11'', BLTU, TYPE_B),
    (''??????? ????? ????? 111 ????? 11000 11'', BGEU, TYPE_B),
    (''??????? ????? ????? 000 ????? 00000 11'', LB, TYPE_I),
    (''??????? ????? ????? 001 ????? 00000 11'', LH, TYPE_I),
    (''??????? ????? ????? 010 ????? 00000 11'', LW, TYPE_I),
    (''??????? ????? ????? 100 ????? 00000 11'', LBU, TYPE_I),
    (''??????? ????? ????? 101 ????? 00000 11'', LHU, TYPE_I),
    (''??????? ????? ????? 000 ????? 01000 11'', SB, TYPE_S),
    (''??????? ????? ????? 001 ????? 01000 11'', SH, TYPE_S),
    (''??????? ????? ????? 010 ????? 01000 11'', SW, TYPE_S),
    (''??????? ????? ????? 000 ????? 00100 11'', ADDI, TYPE_I),
    (''??????? ????? ????? 010 ????? 00100 11'', SLTI, TYPE_I),
    (''??????? ????? ????? 011 ????? 00100 11'', SLTIU, TYPE_I),
    (''??????? ????? ????? 100 ????? 00100 11'', XORI, TYPE_I),
    (''??????? ????? ????? 110 ????? 00100 11'', ORI, TYPE_I),
    (''??????? ????? ????? 111 ????? 00100 11'', ANDI, TYPE_I),
    (''0000000 ????? ????? 001 ????? 00100 11'', SLLI, TYPE_I),
    (''0000000 ????? ????? 101 ????? 00100 11'', SRLI, TYPE_I),
    (''0100000 ????? ????? 101 ????? 00100 11'', SRAI, TYPE_I),
    (''0000000 ????? ????? 000 ????? 01100 11'', ADD, TYPE_R),
    (''0100000 ????? ????? 000 ????? 01100 11'', SUB, TYPE_R),
    (''0000000 ????? ????? 001 ????? 01100 11'', SLL, TYPE_R),
    (''0000000 ????? ????? 010 ????? 01100 11'', SLT, TYPE_R),
    (''0000000 ????? ????? 011 ????? 01100 11'', SLTU, TYPE_R),
    (''0000000 ????? ????? 100 ????? 01100 11'', XOR_op, TYPE_R),
    (''0000000 ????? ????? 101 ????? 01100 11'', SRL, TYPE_R),
    (''0100000 ????? ????? 101 ????? 01100 11'', SRA, TYPE_R),
    (''0000000 ????? ????? 110 ????? 01100 11'', OR_op, TYPE_R),
    (''0000000 ????? ????? 111 ????? 01100 11'', AND_op, TYPE_R),
    (''??????? ????? ????? 000 ????? 00011 11'', FENCE, TYPE_N),
    (''0000000 00000 00000 000 00000 11100 11'', ECALL, TYPE_N),
    (''0000000 00001 00000 000 00000 11100 11'', EBREAK, TYPE_N),
    (''0000001 ????? ????? 000 ????? 01100 11'', MUL, TYPE_R),
    (''0000001 ????? ????? 001 ????? 01100 11'', MULH, TYPE_R),
    (''0000001 ????? ????? 010 ????? 01100 11'', MULHSU, TYPE_R),
    (''0000001 ????? ????? 011 ????? 01100 11'', MULHU, TYPE_R),
    (''0000001 ????? ????? 100 ????? 01100 11'', DIV, TYPE_R),
    (''0000001 ????? ????? 101 ????? 01100 11'', DIVU, TYPE_R),
    (''0000001 ????? ????? 110 ????? 01100 11'', REM, TYPE_R),
    (''0000001 ????? ????? 111 ????? 01100 11'', REMU, TYPE_R),
    (''??????? ????? ????? 001 ????? 11100 11'', CSRRW, TYPE_CSR),
    (''??????? ????? ????? 010 ????? 11100 11'', CSRRS, TYPE_CSR),
    (''??????? ????? ????? 011 ????? 11100 11'', CSRRC, TYPE_CSR),
    (''??????? ????? ????? 101 ????? 11100 11'', CSRRWI, TYPE_CSR_IMM),
    (''??????? ????? ????? 110 ????? 11100 11'', CSRRSI, TYPE_CSR_IMM),
    (''??????? ????? ????? 111 ????? 11100 11'', CSRRCI, TYPE_CSR_IMM),
    (''0011000 00010 00000 000 00000 11100 11'', MRET, TYPE_N),
    (''??????? ????? ????? 001 ????? 00011 11'', FENCE_I, TYPE_N),
    (''??????? ????? ????? ??? ????? ????? ??'', INV, TYPE_N)]"

text \<open>The chain of \<open>INSTPAT\<close> lines: the first pattern that matches.\<close>

fun instpat_select :: "(string \<times> 'a) list \<Rightarrow> u64 \<Rightarrow> 'a option res" where
  "instpat_select [] i = Inr None"
| "instpat_select ((pat, x) # tab) i = bind_res (INSTPAT pat i) (\<lambda>b. if b then Inr (Some x) else instpat_select tab i)"

section \<open>Execute bodies\<close>

definition set_rd :: "config \<Rightarrow> operands \<Rightarrow> u32 \<Rightarrow> Decode \<Rightarrow> nemu \<Rightarrow> (Decode \<times> nemu) res" where
  "set_rd cfg ops v s st = bind_res (R_set cfg (o_rd ops) v st) (\<lambda>st. Inr (s, st))"

definition branch :: "operands \<Rightarrow> bool \<Rightarrow> Decode \<Rightarrow> nemu \<Rightarrow> (Decode \<times> nemu) res" where
  "branch ops c s st = Inr (if c then s\<lparr>dnpc := s_pc s + imm ops\<rparr> else s, st)"

definition load_op :: "config \<Rightarrow> operands \<Rightarrow> nat \<Rightarrow> (u32 \<Rightarrow> u32) \<Rightarrow> Decode \<Rightarrow> nemu \<Rightarrow> (Decode \<times> nemu) res" where
  "load_op cfg ops len f s st = bind_res (Mr cfg (src1 ops + imm ops) len st) (\<lambda>(v, st). set_rd cfg ops (f v) s st)"

definition store_op :: "config \<Rightarrow> operands \<Rightarrow> nat \<Rightarrow> Decode \<Rightarrow> nemu \<Rightarrow> (Decode \<times> nemu) res" where
  "store_op cfg ops len s st = bind_res (Mw cfg (src1 ops + imm ops) len (src2 ops) st) (\<lambda>st. Inr (s, st))"

definition on_state :: "nemu res \<Rightarrow> Decode \<Rightarrow> (Decode \<times> nemu) res" where
  "on_state r s = bind_res r (\<lambda>st. Inr (s, st))"

definition exec_body :: "config \<Rightarrow> rv_op \<Rightarrow> operands \<Rightarrow> Decode \<Rightarrow> nemu \<Rightarrow> (Decode \<times> nemu) res" where
  "exec_body cfg op ops s st = (let x = src1 ops; y = src2 ops; i = imm ops in case op of
     LUI \<Rightarrow> set_rd cfg ops i s st
   | AUIPC \<Rightarrow> set_rd cfg ops (s_pc s + i) s st
   | JAL \<Rightarrow> set_rd cfg ops (s_pc s + 4) (s\<lparr>dnpc := s_pc s + i\<rparr>) st
   | JALR \<Rightarrow> set_rd cfg ops (s_pc s + 4) (s\<lparr>dnpc := (x + i) AND NOT 1\<rparr>) st
   | BEQ \<Rightarrow> branch ops (x = y) s st
   | BNE \<Rightarrow> branch ops (x \<noteq> y) s st
   | BLT \<Rightarrow> branch ops (sint x < sint y) s st
   | BGE \<Rightarrow> branch ops (sint x \<ge> sint y) s st
   | BLTU \<Rightarrow> branch ops (x < y) s st
   | BGEU \<Rightarrow> branch ops (x \<ge> y) s st
   | LB \<Rightarrow> load_op cfg ops 1 (\<lambda>v. ucast (SEXT (ucast v) 8)) s st
   | LH \<Rightarrow> load_op cfg ops 2 (\<lambda>v. ucast (SEXT (ucast v) 16)) s st
   | LW \<Rightarrow> load_op cfg ops 4 (\<lambda>v. v) s st
   | LBU \<Rightarrow> load_op cfg ops 1 (\<lambda>v. v) s st
   | LHU \<Rightarrow> load_op cfg ops 2 (\<lambda>v. v) s st
   | SB \<Rightarrow> store_op cfg ops 1 s st
   | SH \<Rightarrow> store_op cfg ops 2 s st
   | SW \<Rightarrow> store_op cfg ops 4 s st
   | ADDI \<Rightarrow> set_rd cfg ops (x + i) s st
   | SLTI \<Rightarrow> set_rd cfg ops (if sint x < sint i then 1 else 0) s st
   | SLTIU \<Rightarrow> set_rd cfg ops (if x < i then 1 else 0) s st
   | XORI \<Rightarrow> set_rd cfg ops (x XOR i) s st
   | ORI \<Rightarrow> set_rd cfg ops (x OR i) s st
   | ANDI \<Rightarrow> set_rd cfg ops (x AND i) s st
   | SLLI \<Rightarrow> set_rd cfg ops (push_bit (unat (i AND 0x1f)) x) s st
   | SRLI \<Rightarrow> set_rd cfg ops (drop_bit (unat (i AND 0x1f)) x) s st
   | SRAI \<Rightarrow> set_rd cfg ops (signed_drop_bit (unat (i AND 0x1f)) x) s st
   | ADD \<Rightarrow> set_rd cfg ops (x + y) s st
   | SUB \<Rightarrow> set_rd cfg ops (x - y) s st
   | SLL \<Rightarrow> set_rd cfg ops (push_bit (unat (y AND 0x1f)) x) s st
   | SLT \<Rightarrow> set_rd cfg ops (if sint x < sint y then 1 else 0) s st
   | SLTU \<Rightarrow> set_rd cfg ops (if x < y then 1 else 0) s st
   | XOR_op \<Rightarrow> set_rd cfg ops (x XOR y) s st
   | SRL \<Rightarrow> set_rd cfg ops (drop_bit (unat (y AND 0x1f)) x) s st
   | SRA \<Rightarrow> set_rd cfg ops (signed_drop_bit (unat (y AND 0x1f)) x) s st
   | OR_op \<Rightarrow> set_rd cfg ops (x OR y) s st
   | AND_op \<Rightarrow> set_rd cfg ops (x AND y) s st
   | FENCE \<Rightarrow> Inl (Panic ''RISCV32: Instruction fence is not implemented'')
   | ECALL \<Rightarrow> bind_res (riscv_ecall cfg (s_pc s) st) (\<lambda>(v, st). Inr (s\<lparr>dnpc := v\<rparr>, st))
   | EBREAK \<Rightarrow> bind_res (R_get cfg 10 st) (\<lambda>a0. Inr (s, NEMUTRAP (s_pc s) a0 st))
   | MUL \<Rightarrow> set_rd cfg ops (ucast ((scast x :: u64) * scast y)) s st
   | MULH \<Rightarrow> set_rd cfg ops (ucast (signed_drop_bit 32 ((scast x :: u64) * scast y))) s st
   | MULHSU \<Rightarrow> set_rd cfg ops (ucast (drop_bit 32 ((scast x :: u64) * ucast y))) s st
   | MULHU \<Rightarrow> set_rd cfg ops (ucast (drop_bit 32 ((ucast x :: u64) * ucast y))) s st
   | DIV \<Rightarrow> set_rd cfg ops (riscv_div x y) s st
   | DIVU \<Rightarrow> set_rd cfg ops (riscv_divu x y) s st
   | REM \<Rightarrow> set_rd cfg ops (riscv_rem x y) s st
   | REMU \<Rightarrow> set_rd cfg ops (riscv_remu x y) s st
   | CSRRW \<Rightarrow> on_state (riscv_csrrw cfg (o_csr ops) (o_rs1 ops) (o_rd ops) st) s
   | CSRRS \<Rightarrow> on_state (riscv_csrrs cfg (o_csr ops) (o_rs1 ops) (o_rd ops) st) s
   | CSRRC \<Rightarrow> on_state (riscv_csrrc cfg (o_csr ops) (o_rs1 ops) (o_rd ops) st) s
   | CSRRWI \<Rightarrow> on_state (riscv_csrrwi cfg (o_csr ops) i (o_rd ops) st) s
   | CSRRSI \<Rightarrow> on_state (riscv_csrrsi cfg (o_csr ops) i (o_rd ops) st) s
   | CSRRCI \<Rightarrow> on_state (riscv_csrrci cfg (o_csr ops) i (o_rd ops) st) s
   | MRET \<Rightarrow> bind_res (riscv_mret cfg st) (\<lambda>v. Inr (s\<lparr>dnpc := v\<rparr>, st))
   | FENCE_I \<Rightarrow> Inr (s, st)
   | INV \<Rightarrow> bind_res (invalid_inst cfg (s_pc s) st) (\<lambda>st. Inr (s, st)))"

definition decode_exec :: "config \<Rightarrow> Decode \<Rightarrow> nemu \<Rightarrow> (Decode \<times> nemu) res" where
  "decode_exec cfg s st = (let s = s\<lparr>dnpc := snpc s\<rparr> in
     bind_res
       (bind_res (instpat_select rv_table (ucast (inst s))) (\<lambda>e. case e of
          None \<Rightarrow> Inr (s, st)
        | Some (op, type) \<Rightarrow> bind_res (decode_operand cfg (inst s) type st) (\<lambda>ops. exec_body cfg op ops s st)))
       (\<lambda>(s, st). bind_res (R_set cfg 0 0 st) (\<lambda>st. Inr (s, st))))"

definition isa_exec_once :: "config \<Rightarrow> Decode \<Rightarrow> nemu \<Rightarrow> (Decode \<times> nemu) res" where
  "isa_exec_once cfg s st = bind_res (inst_fetch cfg (snpc s) 4 st) (\<lambda>(i, pc, st).
     decode_exec cfg (s\<lparr>inst := i, snpc := pc\<rparr>) st)"

section \<open>Decoders of the tracers\<close>

definition ldstr_table :: "(string \<times> bool \<times> rv_type) list" where
  "ldstr_table = [
    (''??????? ????? ????? 000 ????? 00000 11'', True, TYPE_I),
    (''??????? ????? ????? 001 ????? 00000 11'', True, TYPE_I),
    (''??????? ????? ????? 010 ????? 00000 11'', True, TYPE_I),
    (''??????? ????? ????? 100 ????? 00000 11'', True, TYPE_I),
    (''??????? ????? ????? 101 ????? 00000 11'', True, TYPE_I),
    (''??????? ????? ????? 000 ????? 01000 11'', False, TYPE_S),
    (''??????? ????? ????? 001 ????? 01000 11'', False, TYPE_S),
    (''??????? ????? ????? 010 ????? 01000 11'', False, TYPE_S)]"

text \<open>\<open>None\<close> is the result 1, failed to decode.\<close>

definition isa_decode_ldstr :: "config \<Rightarrow> u32 \<Rightarrow> nemu \<Rightarrow> (bool \<times> u32) option res" where
  "isa_decode_ldstr cfg i st = bind_res (instpat_select ldstr_table (ucast i)) (\<lambda>e. case e of
     None \<Rightarrow> Inr None
   | Some (is_read, type) \<Rightarrow> bind_res (decode_operand cfg i type st) (\<lambda>ops. Inr (Some (is_read, src1 ops + imm ops))))"

definition branch_table :: "(string \<times> rv_op \<times> rv_type) list" where
  "branch_table = [
    (''??????? ????? ????? 000 ????? 11000 11'', BEQ, TYPE_B),
    (''??????? ????? ????? 001 ????? 11000 11'', BNE, TYPE_B),
    (''??????? ????? ????? 100 ????? 11000 11'', BLT, TYPE_B),
    (''??????? ????? ????? 101 ????? 11000 11'', BGE, TYPE_B),
    (''??????? ????? ????? 110 ????? 11000 11'', BLTU, TYPE_B),
    (''??????? ????? ????? 111 ????? 11000 11'', BGEU, TYPE_B),
    (''??????? ????? ????? ??? ????? 11011 11'', JAL, TYPE_J),
    (''??????? ????? ????? 000 ????? 11001 11'', JALR, TYPE_I)]"

text \<open>The results \<open>target_addr\<close>, \<open>is_uncond\<close> and \<open>taken\<close>.\<close>

definition branch_result :: "rv_op \<Rightarrow> operands \<Rightarrow> u32 \<Rightarrow> u32 \<times> bool \<times> bool" where
  "branch_result op ops pc = (let x = src1 ops; y = src2 ops; i = imm ops in case op of
     BEQ \<Rightarrow> (pc + i, False, x = y)
   | BNE \<Rightarrow> (pc + i, False, x \<noteq> y)
   | BLT \<Rightarrow> (pc + i, False, sint x < sint y)
   | BGE \<Rightarrow> (pc + i, False, sint x \<ge> sint y)
   | BLTU \<Rightarrow> (pc + i, False, x < y)
   | BGEU \<Rightarrow> (pc + i, False, x \<ge> y)
   | JAL \<Rightarrow> (pc + i, True, True)
   | _ \<Rightarrow> ((x + i) AND NOT 1, True, True))"

definition isa_decode_branch :: "config \<Rightarrow> u32 \<Rightarrow> u32 \<Rightarrow> nemu \<Rightarrow> (u32 \<times> bool \<times> bool) option res" where
  "isa_decode_branch cfg pc i st = bind_res (instpat_select branch_table (ucast i)) (\<lambda>e. case e of
     None \<Rightarrow> Inr None
   | Some (op, type) \<Rightarrow> bind_res (decode_operand cfg i type st) (\<lambda>ops. Inr (Some (branch_result op ops pc))))"

text \<open>\<open>ftrace_search\<close> is the symbol table lookup of \<open>elf.c\<close>: the name and the entry address of the function
  that contains an address.  The lines printed to the buffer are values of a datatype.\<close>

datatype ftrace_line = Call u32 string u32 | Tail u32 string u32 | Ret u32 string

definition ftrace_dump ::
  "(u32 \<Rightarrow> (string \<times> u32) option) \<Rightarrow> Decode \<Rightarrow> nat \<Rightarrow> nat \<Rightarrow> u32 \<Rightarrow> ftrace_line option" where
  "ftrace_dump ftrace_search s rd rs1 im = (let
     is_call = (rd = 1 \<or> (rd = 0 \<and> rs1 \<noteq> 1));
     is_ret = (rd = 0 \<and> rs1 = 1 \<and> im = 0)
   in if \<not> is_call \<and> \<not> is_ret then None
      else if is_call \<and> is_ret then None
      else if is_call then
        (case ftrace_search (dnpc s) of
           None \<Rightarrow> None
         | Some (callee, entry_addr) \<Rightarrow>
             if dnpc s \<noteq> entry_addr then None
             else Some (if rd = 1 then Call (s_pc s) callee entry_addr else Tail (s_pc s) callee entry_addr))
      else
        (case ftrace_search (s_pc s) of None \<Rightarrow> None | Some (callee, _) \<Rightarrow> Some (Ret (s_pc s) callee)))"

definition ftrace_table :: "(string \<times> rv_type) list" where
  "ftrace_table = [
    (''??????? ????? ????? ??? ????? 11011 11'', TYPE_J),
    (''??????? ????? ????? 000 ????? 11001 11'', TYPE_I)]"

definition isa_ftrace_dump ::
  "config \<Rightarrow> (u32 \<Rightarrow> (string \<times> u32) option) \<Rightarrow> Decode \<Rightarrow> nemu \<Rightarrow> ftrace_line option res" where
  "isa_ftrace_dump cfg ftrace_search s st = bind_res (instpat_select ftrace_table (ucast (inst s))) (\<lambda>e. case e of
     None \<Rightarrow> Inr None
   | Some type \<Rightarrow> bind_res (decode_operand cfg (inst s) type st) (\<lambda>ops.
       Inr (ftrace_dump ftrace_search s (o_rd ops) (o_rs1 ops) (imm ops))))"

section \<open>Registers by name, initialisation, comparison\<close>

definition regs :: "string list" where
  "regs = [''zero'', ''ra'', ''sp'', ''gp'', ''tp'', ''t0'', ''t1'', ''t2'', ''s0'', ''s1'', ''a0'',
     ''a1'', ''a2'', ''a3'', ''a4'', ''a5'', ''a6'', ''a7'', ''s2'', ''s3'', ''s4'', ''s5'',
     ''s6'', ''s7'', ''s8'', ''s9'', ''s10'', ''s11'', ''t3'', ''t4'', ''t5'', ''t6'']"

fun reg_index :: "string \<Rightarrow> nat \<Rightarrow> string list \<Rightarrow> nat option" where
  "reg_index s i [] = None"
| "reg_index s i (r # rs) = (if s = r then Some i else reg_index s (i + 1) rs)"

text \<open>\<open>None\<close> is \<open>*success = false\<close>.\<close>

definition isa_reg_str2val :: "config \<Rightarrow> string \<Rightarrow> nemu \<Rightarrow> u32 option res" where
  "isa_reg_str2val cfg s st =
     (if s = ''pc'' then Inr (Some (cpu_pc (cpu st)))
      else case s of
        c # t \<Rightarrow>
          if c = CHR ''x'' \<or> c = CHR ''X'' then
            (case strtol 10 t of
               None \<Rightarrow> Inr None
             | Some (n, _) \<Rightarrow> let idx = (word_of_int n :: u32) in
                 if idx \<ge> 32 then Inr None
                 else bind_res (R_get cfg (unat idx) st) (\<lambda>v. Inr (Some v)))
          else (case reg_index s 0 regs of
                  None \<Rightarrow> Inr None
                | Some i \<Rightarrow> bind_res (R_get cfg i st) (\<lambda>v. Inr (Some v)))
      | [] \<Rightarrow> Inr None)"

text \<open>\<open>csr_names\<close>: the non-null entries in index order.\<close>

definition csr_names :: "(nat \<times> string) list" where
  "csr_names = [(CSR_mstatus, ''mstatus''), (CSR_mtvec, ''mtvec''), (CSR_mepc, ''mepc''), (CSR_mcause, ''mcause''),
     (CSR_mtval, ''mtval''), (CSR_mcycle, ''mcycle''), (CSR_mcycleh, ''mcycleh''), (CSR_mvendorid, ''mvendorid''),
     (CSR_marchid, ''marchid'')]"

fun csr_index :: "string \<Rightarrow> (nat \<times> string) list \<Rightarrow> nat option" where
  "csr_index s [] = None"
| "csr_index s ((i, n) # ns) = (if s = n then Some i else csr_index s ns)"

definition isa_csr_str2val :: "config \<Rightarrow> string \<Rightarrow> nemu \<Rightarrow> u32 option res" where
  "isa_csr_str2val cfg s st = (case csr_index s csr_names of
     None \<Rightarrow> Inr None
   | Some i \<Rightarrow> bind_res (csr_get cfg i st) (\<lambda>v. Inr (Some v)))"

definition img :: "u32 list" where
  "img = [0x00000297, 0x00028823, 0x0102c503, 0x00100073, 0xdeadbeef]"

definition restart :: "config \<Rightarrow> CPU_state \<Rightarrow> CPU_state" where
  "restart cfg c = c\<lparr>cpu_pc := RESET_VECTOR cfg, gpr := (gpr c)(0 := 0),
     csr := (csr c)(CSR_mstatus := 0x1800, CSR_mcycle := 0, CSR_mcycleh := 0,
       CSR_mvendorid := 0x79737978, CSR_marchid := 25100251),
     priv_level := PRIV_LEVEL_M\<rparr>"

fun store_words :: "bytes \<Rightarrow> nat \<Rightarrow> u32 list \<Rightarrow> bytes" where
  "store_words sp p [] = sp"
| "store_words sp p (w # ws) = store_words (write_le sp p 4 w) (p + 4) ws"

definition init_isa :: "config \<Rightarrow> nemu \<Rightarrow> nemu" where
  "init_isa cfg st = st\<lparr>memory := (memory st)\<lparr>pmem := store_words (pmem (memory st)) (guest_to_host cfg (RESET_VECTOR cfg)) img\<rparr>,
     cpu := restart cfg (cpu st)\<rparr>"

definition isa_difftest_checkregs :: "CPU_state \<Rightarrow> CPU_state \<Rightarrow> bool" where
  "isa_difftest_checkregs ref_r c \<longleftrightarrow> list_all (\<lambda>i. gpr ref_r i = gpr c i) [0..<32] \<and> cpu_pc ref_r = cpu_pc c"

end
