(* ===== verification/Riscv_Decode.thy ===== *)
theory Riscv_Decode
  imports Riscv
begin

text \<open>
  The instruction table of \<open>decode_exec\<close> against the RISC-V opcode map: the chain of pattern
  strings selects exactly the instruction the manual's opcode, funct3 and funct7 fields name.
\<close>

section \<open>Patterns as lists of fixed bits\<close>

fun pat_conds :: "nat \<Rightarrow> string \<Rightarrow> (nat \<times> bool) list" where
  "pat_conds i [] = []"
| "pat_conds i (c # cs) = (if c = CHR ''?'' then pat_conds (Suc i) cs else (i, c = CHR ''1'') # pat_conds (Suc i) cs)"

lemma pat_conds_iff:
  "list_all (\<lambda>(i, b). bit x i = b) (pat_conds k q) \<longleftrightarrow>
   (\<forall>i<length q. q ! i = CHR ''?'' \<or> (bit x (k + i) \<longleftrightarrow> q ! i = CHR ''1''))"
proof (induction q arbitrary: k)
  case (Cons c q)
  show ?case unfolding length_Cons All_less_Suc2 using Cons.IH[of "Suc k"] by auto
qed simp

lemma pattern_spec_conds: "pattern_spec pat x \<longleftrightarrow> list_all (\<lambda>(i, b). bit x i = b) (pat_conds 0 (pattern_bits pat))"
  by (simp add: pattern_spec_def pat_conds_iff Let_def)

text \<open>An equation on a field as conditions on its bits.\<close>

fun field_conds :: "nat \<Rightarrow> nat \<Rightarrow> nat \<Rightarrow> (nat \<times> bool) list" where
  "field_conds lo 0 v = []"
| "field_conds lo (Suc n) v = (lo, odd v) # field_conds (Suc lo) n (v div 2)"

lemma field_conds_iff:
  "v < 2 ^ n \<Longrightarrow> list_all (\<lambda>(i, b). bit x i = b) (field_conds lo n v) \<longleftrightarrow> unat (x :: u64) div 2 ^ lo mod 2 ^ n = v"
proof (induction n arbitrary: lo v)
  case (Suc n)
  let ?y = "unat x div 2 ^ lo"
  have "bit x lo \<longleftrightarrow> bit (unat x) lo" using bit_imp_le_length[of x lo] by (auto simp: bit_unsigned_iff)
  then have "bit x lo \<longleftrightarrow> odd ?y" by (simp add: bit_iff_odd)
  moreover have "v div 2 < 2 ^ n" using Suc.prems by (simp add: less_mult_imp_div_less)
  then have "list_all (\<lambda>(i, b). bit x i = b) (field_conds (Suc lo) n (v div 2)) \<longleftrightarrow> ?y div 2 mod 2 ^ n = v div 2"
    using Suc.IH[of "v div 2" "Suc lo"] by (simp add: div_mult2_eq [symmetric] mult.commute)
  moreover have "?y mod 2 ^ Suc n = 2 * (?y div 2 mod 2 ^ n) + ?y mod 2"
    using mod_mult2_eq[of ?y 2 "2 ^ n"] by simp
  ultimately show ?case by (auto simp: odd_iff_mod_2_eq_one)
qed simp

section \<open>The segments of a pattern\<close>

text \<open>The patterns of the table have seven segments, separated by blanks.\<close>

definition seg :: "nat \<Rightarrow> string \<Rightarrow> u64 \<Rightarrow> bool" where
  "seg lo s x \<longleftrightarrow> list_all (\<lambda>(i, b). bit x i = b) (pat_conds lo (rev s))"

definition seg_ok :: "nat \<Rightarrow> string \<Rightarrow> bool" where
  "seg_ok n s \<longleftrightarrow> length s = n \<and> list_all (\<lambda>c. c = CHR ''0'' \<or> c = CHR ''1'' \<or> c = CHR ''?'') s"

definition pat7 :: "string \<Rightarrow> string \<Rightarrow> string \<Rightarrow> string \<Rightarrow> string \<Rightarrow> string \<Rightarrow> string \<Rightarrow> string" where
  "pat7 a b c d e f g = a @ '' '' @ b @ '' '' @ c @ '' '' @ d @ '' '' @ e @ '' '' @ f @ '' '' @ g"

lemma seg_ok_char: "seg_ok n s \<Longrightarrow> c \<in> set s \<Longrightarrow> c = CHR ''0'' \<or> c = CHR ''1'' \<or> c = CHR ''?''"
  by (simp add: seg_ok_def list_all_iff)

lemma seg_ok_filter:
  assumes "seg_ok n s"
  shows "filter (\<lambda>c. c \<noteq> CHR '' '') s = s"
proof (rule filter_True, rule ballI)
  fix c assume "c \<in> set s"
  then have "c = CHR ''0'' \<or> c = CHR ''1'' \<or> c = CHR ''?''" by (rule seg_ok_char[OF assms])
  then show "c \<noteq> CHR '' ''" by (elim disjE) simp_all
qed

lemma pat_conds_append: "pat_conds i (p @ q) = pat_conds i p @ pat_conds (i + length p) q"
  by (induction p arbitrary: i) auto

lemma INSTPAT_segments:
  assumes "seg_ok 7 a" "seg_ok 5 b" "seg_ok 5 c" "seg_ok 3 d" "seg_ok 5 e" "seg_ok 5 f" "seg_ok 2 g"
  shows "INSTPAT (pat7 a b c d e f g) x =
    Inr (seg 25 a x \<and> seg 20 b x \<and> seg 15 c x \<and> seg 12 d x \<and> seg 7 e x \<and> seg 2 f x \<and> seg 0 g x)"
proof -
  have len: "length a = 7" "length b = 5" "length c = 5" "length d = 3" "length e = 5" "length f = 5" "length g = 2"
    using assms by (simp_all add: seg_ok_def)
  have "set (pat7 a b c d e f g) \<subseteq> {CHR '' '', CHR ''0'', CHR ''1'', CHR ''?''}"
    using assms[THEN seg_ok_char] unfolding pat7_def by (simp add: subset_iff)
  then have "pattern_valid (pat7 a b c d e f g)"
    using len by (simp add: pattern_valid_def pat7_def)
  moreover have "pattern_bits (pat7 a b c d e f g) = rev g @ rev f @ rev e @ rev d @ rev c @ rev b @ rev a"
    using assms[THEN seg_ok_filter] by (simp add: pattern_bits_def pat7_def)
  then have "pattern_spec (pat7 a b c d e f g) x \<longleftrightarrow>
      seg 25 a x \<and> seg 20 b x \<and> seg 15 c x \<and> seg 12 d x \<and> seg 7 e x \<and> seg 2 f x \<and> seg 0 g x"
    using len by (simp add: pattern_spec_conds pat_conds_append seg_def conj_ac numeral_2_eq_2)
  ultimately show ?thesis by (simp add: INSTPAT_correct)
qed

text \<open>Don't-care segments and binary numbers.\<close>

lemma seg_any: "list_all (\<lambda>c. c = CHR ''?'') s \<Longrightarrow> seg lo s x"
proof -
  have "list_all (\<lambda>c. c = CHR ''?'') q \<Longrightarrow> pat_conds lo q = []" for q
    by (induction q arbitrary: lo) auto
  then show "list_all (\<lambda>c. c = CHR ''?'') s \<Longrightarrow> seg lo s x" by (simp add: seg_def list_all_iff)
qed

fun binr :: "string \<Rightarrow> nat" where
  "binr [] = 0"
| "binr (c # q) = (if c = CHR ''1'' then 1 else 0) + 2 * binr q"

lemma binr_less: "binr q < 2 ^ length q"
  by (induction q) auto

lemma pat_conds_binary: "list_all (\<lambda>c. c \<noteq> CHR ''?'') q \<Longrightarrow> pat_conds lo q = field_conds lo (length q) (binr q)"
  by (induction q arbitrary: lo) auto

lemma seg_binary:
  "list_all (\<lambda>c. c \<noteq> CHR ''?'') s \<Longrightarrow> seg lo s x \<longleftrightarrow> unat x div 2 ^ lo mod 2 ^ length s = binr (rev s)"
  using pat_conds_binary[of "rev s" lo] field_conds_iff[OF binr_less[of "rev s"], of x lo]
  by (simp add: seg_def list_all_iff)

lemma segs_ok:
  "seg_ok 2 ''11''"
  "seg_ok 2 ''??''"
  "seg_ok 3 ''000''"
  "seg_ok 3 ''001''"
  "seg_ok 3 ''010''"
  "seg_ok 3 ''011''"
  "seg_ok 3 ''100''"
  "seg_ok 3 ''101''"
  "seg_ok 3 ''110''"
  "seg_ok 3 ''111''"
  "seg_ok 3 ''???''"
  "seg_ok 5 ''00000''"
  "seg_ok 5 ''00001''"
  "seg_ok 5 ''00010''"
  "seg_ok 5 ''00011''"
  "seg_ok 5 ''00100''"
  "seg_ok 5 ''00101''"
  "seg_ok 5 ''01000''"
  "seg_ok 5 ''01100''"
  "seg_ok 5 ''01101''"
  "seg_ok 5 ''11000''"
  "seg_ok 5 ''11001''"
  "seg_ok 5 ''11011''"
  "seg_ok 5 ''11100''"
  "seg_ok 5 ''?????''"
  "seg_ok 7 ''0000000''"
  "seg_ok 7 ''0000001''"
  "seg_ok 7 ''0011000''"
  "seg_ok 7 ''0100000''"
  "seg_ok 7 ''???????''"
  by (simp_all add: seg_ok_def)

lemma seg_values:
  "seg 0 ''11'' x = (unat x div 2 ^ 0 mod 2 ^ 2 = 3)"
  "seg 0 ''??'' x = (True)"
  "seg 2 ''00000'' x = (unat x div 2 ^ 2 mod 2 ^ 5 = 0)"
  "seg 2 ''00011'' x = (unat x div 2 ^ 2 mod 2 ^ 5 = 3)"
  "seg 2 ''00100'' x = (unat x div 2 ^ 2 mod 2 ^ 5 = 4)"
  "seg 2 ''00101'' x = (unat x div 2 ^ 2 mod 2 ^ 5 = 5)"
  "seg 2 ''01000'' x = (unat x div 2 ^ 2 mod 2 ^ 5 = 8)"
  "seg 2 ''01100'' x = (unat x div 2 ^ 2 mod 2 ^ 5 = 12)"
  "seg 2 ''01101'' x = (unat x div 2 ^ 2 mod 2 ^ 5 = 13)"
  "seg 2 ''11000'' x = (unat x div 2 ^ 2 mod 2 ^ 5 = 24)"
  "seg 2 ''11001'' x = (unat x div 2 ^ 2 mod 2 ^ 5 = 25)"
  "seg 2 ''11011'' x = (unat x div 2 ^ 2 mod 2 ^ 5 = 27)"
  "seg 2 ''11100'' x = (unat x div 2 ^ 2 mod 2 ^ 5 = 28)"
  "seg 2 ''?????'' x = (True)"
  "seg 7 ''00000'' x = (unat x div 2 ^ 7 mod 2 ^ 5 = 0)"
  "seg 7 ''?????'' x = (True)"
  "seg 12 ''000'' x = (unat x div 2 ^ 12 mod 2 ^ 3 = 0)"
  "seg 12 ''001'' x = (unat x div 2 ^ 12 mod 2 ^ 3 = 1)"
  "seg 12 ''010'' x = (unat x div 2 ^ 12 mod 2 ^ 3 = 2)"
  "seg 12 ''011'' x = (unat x div 2 ^ 12 mod 2 ^ 3 = 3)"
  "seg 12 ''100'' x = (unat x div 2 ^ 12 mod 2 ^ 3 = 4)"
  "seg 12 ''101'' x = (unat x div 2 ^ 12 mod 2 ^ 3 = 5)"
  "seg 12 ''110'' x = (unat x div 2 ^ 12 mod 2 ^ 3 = 6)"
  "seg 12 ''111'' x = (unat x div 2 ^ 12 mod 2 ^ 3 = 7)"
  "seg 12 ''???'' x = (True)"
  "seg 15 ''00000'' x = (unat x div 2 ^ 15 mod 2 ^ 5 = 0)"
  "seg 15 ''?????'' x = (True)"
  "seg 20 ''00000'' x = (unat x div 2 ^ 20 mod 2 ^ 5 = 0)"
  "seg 20 ''00001'' x = (unat x div 2 ^ 20 mod 2 ^ 5 = 1)"
  "seg 20 ''00010'' x = (unat x div 2 ^ 20 mod 2 ^ 5 = 2)"
  "seg 20 ''?????'' x = (True)"
  "seg 25 ''0000000'' x = (unat x div 2 ^ 25 mod 2 ^ 7 = 0)"
  "seg 25 ''0000001'' x = (unat x div 2 ^ 25 mod 2 ^ 7 = 1)"
  "seg 25 ''0011000'' x = (unat x div 2 ^ 25 mod 2 ^ 7 = 24)"
  "seg 25 ''0100000'' x = (unat x div 2 ^ 25 mod 2 ^ 7 = 32)"
  "seg 25 ''???????'' x = (True)"
  by (simp_all add: seg_any seg_binary) linarith+

section \<open>The tables by segments\<close>

lemma rv_table_segments: "rv_table = [
    (pat7 ''???????'' ''?????'' ''?????'' ''???'' ''?????'' ''01101'' ''11'', LUI, TYPE_U),
    (pat7 ''???????'' ''?????'' ''?????'' ''???'' ''?????'' ''00101'' ''11'', AUIPC, TYPE_U),
    (pat7 ''???????'' ''?????'' ''?????'' ''???'' ''?????'' ''11011'' ''11'', JAL, TYPE_J),
    (pat7 ''???????'' ''?????'' ''?????'' ''000'' ''?????'' ''11001'' ''11'', JALR, TYPE_I),
    (pat7 ''???????'' ''?????'' ''?????'' ''000'' ''?????'' ''11000'' ''11'', BEQ, TYPE_B),
    (pat7 ''???????'' ''?????'' ''?????'' ''001'' ''?????'' ''11000'' ''11'', BNE, TYPE_B),
    (pat7 ''???????'' ''?????'' ''?????'' ''100'' ''?????'' ''11000'' ''11'', BLT, TYPE_B),
    (pat7 ''???????'' ''?????'' ''?????'' ''101'' ''?????'' ''11000'' ''11'', BGE, TYPE_B),
    (pat7 ''???????'' ''?????'' ''?????'' ''110'' ''?????'' ''11000'' ''11'', BLTU, TYPE_B),
    (pat7 ''???????'' ''?????'' ''?????'' ''111'' ''?????'' ''11000'' ''11'', BGEU, TYPE_B),
    (pat7 ''???????'' ''?????'' ''?????'' ''000'' ''?????'' ''00000'' ''11'', LB, TYPE_I),
    (pat7 ''???????'' ''?????'' ''?????'' ''001'' ''?????'' ''00000'' ''11'', LH, TYPE_I),
    (pat7 ''???????'' ''?????'' ''?????'' ''010'' ''?????'' ''00000'' ''11'', LW, TYPE_I),
    (pat7 ''???????'' ''?????'' ''?????'' ''100'' ''?????'' ''00000'' ''11'', LBU, TYPE_I),
    (pat7 ''???????'' ''?????'' ''?????'' ''101'' ''?????'' ''00000'' ''11'', LHU, TYPE_I),
    (pat7 ''???????'' ''?????'' ''?????'' ''000'' ''?????'' ''01000'' ''11'', SB, TYPE_S),
    (pat7 ''???????'' ''?????'' ''?????'' ''001'' ''?????'' ''01000'' ''11'', SH, TYPE_S),
    (pat7 ''???????'' ''?????'' ''?????'' ''010'' ''?????'' ''01000'' ''11'', SW, TYPE_S),
    (pat7 ''???????'' ''?????'' ''?????'' ''000'' ''?????'' ''00100'' ''11'', ADDI, TYPE_I),
    (pat7 ''???????'' ''?????'' ''?????'' ''010'' ''?????'' ''00100'' ''11'', SLTI, TYPE_I),
    (pat7 ''???????'' ''?????'' ''?????'' ''011'' ''?????'' ''00100'' ''11'', SLTIU, TYPE_I),
    (pat7 ''???????'' ''?????'' ''?????'' ''100'' ''?????'' ''00100'' ''11'', XORI, TYPE_I),
    (pat7 ''???????'' ''?????'' ''?????'' ''110'' ''?????'' ''00100'' ''11'', ORI, TYPE_I),
    (pat7 ''???????'' ''?????'' ''?????'' ''111'' ''?????'' ''00100'' ''11'', ANDI, TYPE_I),
    (pat7 ''0000000'' ''?????'' ''?????'' ''001'' ''?????'' ''00100'' ''11'', SLLI, TYPE_I),
    (pat7 ''0000000'' ''?????'' ''?????'' ''101'' ''?????'' ''00100'' ''11'', SRLI, TYPE_I),
    (pat7 ''0100000'' ''?????'' ''?????'' ''101'' ''?????'' ''00100'' ''11'', SRAI, TYPE_I),
    (pat7 ''0000000'' ''?????'' ''?????'' ''000'' ''?????'' ''01100'' ''11'', ADD, TYPE_R),
    (pat7 ''0100000'' ''?????'' ''?????'' ''000'' ''?????'' ''01100'' ''11'', SUB, TYPE_R),
    (pat7 ''0000000'' ''?????'' ''?????'' ''001'' ''?????'' ''01100'' ''11'', SLL, TYPE_R),
    (pat7 ''0000000'' ''?????'' ''?????'' ''010'' ''?????'' ''01100'' ''11'', SLT, TYPE_R),
    (pat7 ''0000000'' ''?????'' ''?????'' ''011'' ''?????'' ''01100'' ''11'', SLTU, TYPE_R),
    (pat7 ''0000000'' ''?????'' ''?????'' ''100'' ''?????'' ''01100'' ''11'', XOR_op, TYPE_R),
    (pat7 ''0000000'' ''?????'' ''?????'' ''101'' ''?????'' ''01100'' ''11'', SRL, TYPE_R),
    (pat7 ''0100000'' ''?????'' ''?????'' ''101'' ''?????'' ''01100'' ''11'', SRA, TYPE_R),
    (pat7 ''0000000'' ''?????'' ''?????'' ''110'' ''?????'' ''01100'' ''11'', OR_op, TYPE_R),
    (pat7 ''0000000'' ''?????'' ''?????'' ''111'' ''?????'' ''01100'' ''11'', AND_op, TYPE_R),
    (pat7 ''???????'' ''?????'' ''?????'' ''000'' ''?????'' ''00011'' ''11'', FENCE, TYPE_N),
    (pat7 ''0000000'' ''00000'' ''00000'' ''000'' ''00000'' ''11100'' ''11'', ECALL, TYPE_N),
    (pat7 ''0000000'' ''00001'' ''00000'' ''000'' ''00000'' ''11100'' ''11'', EBREAK, TYPE_N),
    (pat7 ''0000001'' ''?????'' ''?????'' ''000'' ''?????'' ''01100'' ''11'', MUL, TYPE_R),
    (pat7 ''0000001'' ''?????'' ''?????'' ''001'' ''?????'' ''01100'' ''11'', MULH, TYPE_R),
    (pat7 ''0000001'' ''?????'' ''?????'' ''010'' ''?????'' ''01100'' ''11'', MULHSU, TYPE_R),
    (pat7 ''0000001'' ''?????'' ''?????'' ''011'' ''?????'' ''01100'' ''11'', MULHU, TYPE_R),
    (pat7 ''0000001'' ''?????'' ''?????'' ''100'' ''?????'' ''01100'' ''11'', DIV, TYPE_R),
    (pat7 ''0000001'' ''?????'' ''?????'' ''101'' ''?????'' ''01100'' ''11'', DIVU, TYPE_R),
    (pat7 ''0000001'' ''?????'' ''?????'' ''110'' ''?????'' ''01100'' ''11'', REM, TYPE_R),
    (pat7 ''0000001'' ''?????'' ''?????'' ''111'' ''?????'' ''01100'' ''11'', REMU, TYPE_R),
    (pat7 ''???????'' ''?????'' ''?????'' ''001'' ''?????'' ''11100'' ''11'', CSRRW, TYPE_CSR),
    (pat7 ''???????'' ''?????'' ''?????'' ''010'' ''?????'' ''11100'' ''11'', CSRRS, TYPE_CSR),
    (pat7 ''???????'' ''?????'' ''?????'' ''011'' ''?????'' ''11100'' ''11'', CSRRC, TYPE_CSR),
    (pat7 ''???????'' ''?????'' ''?????'' ''101'' ''?????'' ''11100'' ''11'', CSRRWI, TYPE_CSR_IMM),
    (pat7 ''???????'' ''?????'' ''?????'' ''110'' ''?????'' ''11100'' ''11'', CSRRSI, TYPE_CSR_IMM),
    (pat7 ''???????'' ''?????'' ''?????'' ''111'' ''?????'' ''11100'' ''11'', CSRRCI, TYPE_CSR_IMM),
    (pat7 ''0011000'' ''00010'' ''00000'' ''000'' ''00000'' ''11100'' ''11'', MRET, TYPE_N),
    (pat7 ''???????'' ''?????'' ''?????'' ''001'' ''?????'' ''00011'' ''11'', FENCE_I, TYPE_N),
    (pat7 ''???????'' ''?????'' ''?????'' ''???'' ''?????'' ''?????'' ''??'', INV, TYPE_N)]"
  by (simp add: rv_table_def pat7_def)

lemma ldstr_table_segments: "ldstr_table = [
    (pat7 ''???????'' ''?????'' ''?????'' ''000'' ''?????'' ''00000'' ''11'', True, TYPE_I),
    (pat7 ''???????'' ''?????'' ''?????'' ''001'' ''?????'' ''00000'' ''11'', True, TYPE_I),
    (pat7 ''???????'' ''?????'' ''?????'' ''010'' ''?????'' ''00000'' ''11'', True, TYPE_I),
    (pat7 ''???????'' ''?????'' ''?????'' ''100'' ''?????'' ''00000'' ''11'', True, TYPE_I),
    (pat7 ''???????'' ''?????'' ''?????'' ''101'' ''?????'' ''00000'' ''11'', True, TYPE_I),
    (pat7 ''???????'' ''?????'' ''?????'' ''000'' ''?????'' ''01000'' ''11'', False, TYPE_S),
    (pat7 ''???????'' ''?????'' ''?????'' ''001'' ''?????'' ''01000'' ''11'', False, TYPE_S),
    (pat7 ''???????'' ''?????'' ''?????'' ''010'' ''?????'' ''01000'' ''11'', False, TYPE_S)]"
  by (simp add: ldstr_table_def pat7_def)

lemma branch_table_segments: "branch_table = [
    (pat7 ''???????'' ''?????'' ''?????'' ''000'' ''?????'' ''11000'' ''11'', BEQ, TYPE_B),
    (pat7 ''???????'' ''?????'' ''?????'' ''001'' ''?????'' ''11000'' ''11'', BNE, TYPE_B),
    (pat7 ''???????'' ''?????'' ''?????'' ''100'' ''?????'' ''11000'' ''11'', BLT, TYPE_B),
    (pat7 ''???????'' ''?????'' ''?????'' ''101'' ''?????'' ''11000'' ''11'', BGE, TYPE_B),
    (pat7 ''???????'' ''?????'' ''?????'' ''110'' ''?????'' ''11000'' ''11'', BLTU, TYPE_B),
    (pat7 ''???????'' ''?????'' ''?????'' ''111'' ''?????'' ''11000'' ''11'', BGEU, TYPE_B),
    (pat7 ''???????'' ''?????'' ''?????'' ''???'' ''?????'' ''11011'' ''11'', JAL, TYPE_J),
    (pat7 ''???????'' ''?????'' ''?????'' ''000'' ''?????'' ''11001'' ''11'', JALR, TYPE_I)]"
  by (simp add: branch_table_def pat7_def)

section \<open>The opcode map\<close>

text \<open>The fields of an instruction word.\<close>

definition quadrant :: "u32 \<Rightarrow> nat" where "quadrant i = unat i div 2 ^ 0 mod 2 ^ 2"
definition major :: "u32 \<Rightarrow> nat" where "major i = unat i div 2 ^ 2 mod 2 ^ 5"
definition funct3 :: "u32 \<Rightarrow> nat" where "funct3 i = unat i div 2 ^ 12 mod 2 ^ 3"
definition funct7 :: "u32 \<Rightarrow> nat" where "funct7 i = unat i div 2 ^ 25 mod 2 ^ 7"

definition op_at :: "(nat \<times> rv_op) list \<Rightarrow> nat \<Rightarrow> rv_op" where
  "op_at ops k = (case map_of ops k of None \<Rightarrow> INV | Some op \<Rightarrow> op)"

definition jalr_map :: "(nat \<times> rv_op) list" where "jalr_map = [(0, JALR)]"
definition branch_map :: "(nat \<times> rv_op) list" where "branch_map = [(0, BEQ), (1, BNE), (4, BLT), (5, BGE), (6, BLTU), (7, BGEU)]"
definition load_map :: "(nat \<times> rv_op) list" where "load_map = [(0, LB), (1, LH), (2, LW), (4, LBU), (5, LHU)]"
definition store_map :: "(nat \<times> rv_op) list" where "store_map = [(0, SB), (1, SH), (2, SW)]"
definition shl_map :: "(nat \<times> rv_op) list" where "shl_map = [(0, SLLI)]"
definition shr_map :: "(nat \<times> rv_op) list" where "shr_map = [(0, SRLI), (32, SRAI)]"
definition imm_map :: "(nat \<times> rv_op) list" where "imm_map = [(0, ADDI), (2, SLTI), (3, SLTIU), (4, XORI), (6, ORI), (7, ANDI)]"
definition op_map :: "(nat \<times> rv_op) list" where "op_map = [(0, ADD), (1, SLL), (2, SLT), (3, SLTU), (4, XOR_op), (5, SRL), (6, OR_op), (7, AND_op)]"
definition alt_map :: "(nat \<times> rv_op) list" where "alt_map = [(0, SUB), (5, SRA)]"
definition mul_map :: "(nat \<times> rv_op) list" where "mul_map = [(0, MUL), (1, MULH), (2, MULHSU), (3, MULHU), (4, DIV), (5, DIVU), (6, REM), (7, REMU)]"
definition fence_map :: "(nat \<times> rv_op) list" where "fence_map = [(0, FENCE), (1, FENCE_I)]"
definition system_map :: "(nat \<times> rv_op) list" where "system_map = [(0x00000073, ECALL), (0x00100073, EBREAK), (0x30200073, MRET)]"
definition csr_map :: "(nat \<times> rv_op) list" where "csr_map = [(1, CSRRW), (2, CSRRS), (3, CSRRC), (5, CSRRWI), (6, CSRRSI), (7, CSRRCI)]"

lemmas maps_def = jalr_map_def branch_map_def load_map_def store_map_def shl_map_def shr_map_def imm_map_def op_map_def alt_map_def mul_map_def fence_map_def system_map_def csr_map_def

text \<open>The manual's opcode map for the implemented extensions.\<close>

definition rv_manual :: "u32 \<Rightarrow> rv_op" where
  "rv_manual i = (let f3 = funct3 i; f7 = funct7 i; maj = major i in
     if quadrant i \<noteq> 3 then INV
     else if maj = 13 then LUI
     else if maj = 5 then AUIPC
     else if maj = 27 then JAL
     else if maj = 25 then op_at jalr_map f3
     else if maj = 24 then op_at branch_map f3
     else if maj = 0 then op_at load_map f3
     else if maj = 8 then op_at store_map f3
     else if maj = 4 then
       (if f3 = 1 then op_at shl_map f7
        else if f3 = 5 then op_at shr_map f7
        else op_at imm_map f3)
     else if maj = 12 then
       (if f7 = 0 then op_at op_map f3
        else if f7 = 32 then op_at alt_map f3
        else if f7 = 1 then op_at mul_map f3
        else INV)
     else if maj = 3 then op_at fence_map f3
     else if maj = 28 then
       (if f3 = 0 then op_at system_map (unat i)
        else op_at csr_map f3)
     else INV)"

definition type_of :: "rv_op \<Rightarrow> rv_type" where
  "type_of op =
     (if op \<in> {LUI, AUIPC} then TYPE_U else if op = JAL then TYPE_J
      else if op \<in> {JALR, LB, LH, LW, LBU, LHU, ADDI, SLTI, SLTIU, XORI, ORI, ANDI, SLLI, SRLI, SRAI} then TYPE_I
      else if op \<in> {BEQ, BNE, BLT, BGE, BLTU, BGEU} then TYPE_B
      else if op \<in> {SB, SH, SW} then TYPE_S
      else if op \<in> {CSRRW, CSRRS, CSRRC} then TYPE_CSR
      else if op \<in> {CSRRWI, CSRRSI, CSRRCI} then TYPE_CSR_IMM
      else if op \<in> {FENCE, ECALL, EBREAK, MRET, FENCE_I, INV} then TYPE_N
      else TYPE_R)"

lemma unat_ucast_u64: "unat (ucast (i :: u32) :: u64) = unat i"
  using unat_u32_less[of i] by (simp add: unsigned_ucast_eq take_bit_eq_mod)

text \<open>A word is determined by its seven fields.\<close>

lemma word_fields:
  fixes n :: nat
  assumes "n < 2 ^ 32"
  shows "n = n mod 4 + 4 * (n div 4 mod 32) + 128 * (n div 128 mod 32) + 4096 * (n div 4096 mod 8) +
    32768 * (n div 32768 mod 32) + 1048576 * (n div 1048576 mod 32) + 33554432 * (n div 33554432 mod 128)"
proof -
  have st: "n div 2 ^ a = n div 2 ^ a mod 2 ^ b + 2 ^ b * (n div 2 ^ (a + b))" for a b
    by (simp add: power_add div_mult2_eq)
  have "n = n mod 4 + 4 * (n div 4)" by simp
  moreover have "n div 4 = n div 4 mod 32 + 32 * (n div 128)" using st[of 2 5] by simp
  moreover have "n div 128 = n div 128 mod 32 + 32 * (n div 4096)" using st[of 7 5] by simp
  moreover have "n div 4096 = n div 4096 mod 8 + 8 * (n div 32768)" using st[of 12 3] by simp
  moreover have "n div 32768 = n div 32768 mod 32 + 32 * (n div 1048576)" using st[of 15 5] by simp
  moreover have "n div 1048576 = n div 1048576 mod 32 + 32 * (n div 33554432)" using st[of 20 5] by simp
  moreover have "n div 33554432 = n div 33554432 mod 128" using assms by simp
  ultimately show ?thesis by linarith
qed

definition full_fields :: "nat \<Rightarrow> nat \<Rightarrow> nat \<Rightarrow> bool" where
  "full_fields f7 f5 n \<longleftrightarrow> n div 2 ^ 25 mod 2 ^ 7 = f7 \<and> n div 2 ^ 20 mod 2 ^ 5 = f5 \<and> n div 2 ^ 15 mod 2 ^ 5 = 0 \<and>
     n div 2 ^ 12 mod 2 ^ 3 = 0 \<and> n div 2 ^ 7 mod 2 ^ 5 = 0 \<and> n div 2 ^ 2 mod 2 ^ 5 = 28 \<and> n div 2 ^ 0 mod 2 ^ 2 = 3"

lemma full_fields_value: "n < 2 ^ 32 \<Longrightarrow> full_fields f7 f5 n \<Longrightarrow> n = 115 + 1048576 * f5 + 33554432 * f7"
proof -
  assume n: "n < 2 ^ 32" and f: "full_fields f7 f5 n"
  have "n mod 4 = 3" "n div 4 mod 32 = 28" "n div 128 mod 32 = 0" "n div 4096 mod 8 = 0"
    "n div 32768 mod 32 = 0" "n div 1048576 mod 32 = f5" "n div 33554432 mod 128 = f7"
    using f by (simp_all add: full_fields_def)
  then show ?thesis using word_fields[OF n] by linarith
qed

lemma full_fields_system:
  assumes "n < 2 ^ 32"
  shows "full_fields 0 0 n \<longleftrightarrow> n = 0x00000073" "full_fields 0 1 n \<longleftrightarrow> n = 0x00100073" "full_fields 24 2 n \<longleftrightarrow> n = 0x30200073"
  using full_fields_value[OF assms, of 0 0] full_fields_value[OF assms, of 0 1] full_fields_value[OF assms, of 24 2]
  by (auto simp: full_fields_def)

lemma op_at_Cons: "op_at ((k, op) # ops) j = (if j = k then op else op_at ops j)"
  by (simp add: op_at_def)

lemma op_at_Nil: "op_at [] j = INV"
  by (simp add: op_at_def)

lemma less_8_cases: "f < 8 \<Longrightarrow> f = 0 \<or> f = 1 \<or> f = 2 \<or> f = 3 \<or> f = 4 \<or> f = 5 \<or> f = 6 \<or> f = (7 :: nat)"
  by presburger

text \<open>The selection, on the fields of the word alone.\<close>

lemmas select_unfold = rv_table_segments instpat_select.simps INSTPAT_segments segs_ok seg_values bind_res_Inr
  simp_thms if_True if_False unat_ucast_u64

lemmas f_fold = quadrant_def[symmetric] major_def[symmetric] funct3_def[symmetric] funct7_def[symmetric]

lemmas manual_unfold = rv_manual_def maps_def Let_def op_at_Cons op_at_Nil

lemma funct3_less: "funct3 i < 8"
  by (simp add: funct3_def)

lemma select_nested: "instpat_select rv_table (ucast i) = (
    if major i = 13 \<and> quadrant i = 3 then Inr (Some (LUI, TYPE_U)) else
    if major i = 5 \<and> quadrant i = 3 then Inr (Some (AUIPC, TYPE_U)) else
    if major i = 27 \<and> quadrant i = 3 then Inr (Some (JAL, TYPE_J)) else
    if funct3 i = 0 \<and> major i = 25 \<and> quadrant i = 3 then Inr (Some (JALR, TYPE_I)) else
    if funct3 i = 0 \<and> major i = 24 \<and> quadrant i = 3 then Inr (Some (BEQ, TYPE_B)) else
    if funct3 i = 1 \<and> major i = 24 \<and> quadrant i = 3 then Inr (Some (BNE, TYPE_B)) else
    if funct3 i = 4 \<and> major i = 24 \<and> quadrant i = 3 then Inr (Some (BLT, TYPE_B)) else
    if funct3 i = 5 \<and> major i = 24 \<and> quadrant i = 3 then Inr (Some (BGE, TYPE_B)) else
    if funct3 i = 6 \<and> major i = 24 \<and> quadrant i = 3 then Inr (Some (BLTU, TYPE_B)) else
    if funct3 i = 7 \<and> major i = 24 \<and> quadrant i = 3 then Inr (Some (BGEU, TYPE_B)) else
    if funct3 i = 0 \<and> major i = 0 \<and> quadrant i = 3 then Inr (Some (LB, TYPE_I)) else
    if funct3 i = 1 \<and> major i = 0 \<and> quadrant i = 3 then Inr (Some (LH, TYPE_I)) else
    if funct3 i = 2 \<and> major i = 0 \<and> quadrant i = 3 then Inr (Some (LW, TYPE_I)) else
    if funct3 i = 4 \<and> major i = 0 \<and> quadrant i = 3 then Inr (Some (LBU, TYPE_I)) else
    if funct3 i = 5 \<and> major i = 0 \<and> quadrant i = 3 then Inr (Some (LHU, TYPE_I)) else
    if funct3 i = 0 \<and> major i = 8 \<and> quadrant i = 3 then Inr (Some (SB, TYPE_S)) else
    if funct3 i = 1 \<and> major i = 8 \<and> quadrant i = 3 then Inr (Some (SH, TYPE_S)) else
    if funct3 i = 2 \<and> major i = 8 \<and> quadrant i = 3 then Inr (Some (SW, TYPE_S)) else
    if funct3 i = 0 \<and> major i = 4 \<and> quadrant i = 3 then Inr (Some (ADDI, TYPE_I)) else
    if funct3 i = 2 \<and> major i = 4 \<and> quadrant i = 3 then Inr (Some (SLTI, TYPE_I)) else
    if funct3 i = 3 \<and> major i = 4 \<and> quadrant i = 3 then Inr (Some (SLTIU, TYPE_I)) else
    if funct3 i = 4 \<and> major i = 4 \<and> quadrant i = 3 then Inr (Some (XORI, TYPE_I)) else
    if funct3 i = 6 \<and> major i = 4 \<and> quadrant i = 3 then Inr (Some (ORI, TYPE_I)) else
    if funct3 i = 7 \<and> major i = 4 \<and> quadrant i = 3 then Inr (Some (ANDI, TYPE_I)) else
    if funct7 i = 0 \<and> funct3 i = 1 \<and> major i = 4 \<and> quadrant i = 3 then Inr (Some (SLLI, TYPE_I)) else
    if funct7 i = 0 \<and> funct3 i = 5 \<and> major i = 4 \<and> quadrant i = 3 then Inr (Some (SRLI, TYPE_I)) else
    if funct7 i = 32 \<and> funct3 i = 5 \<and> major i = 4 \<and> quadrant i = 3 then Inr (Some (SRAI, TYPE_I)) else
    if funct7 i = 0 \<and> funct3 i = 0 \<and> major i = 12 \<and> quadrant i = 3 then Inr (Some (ADD, TYPE_R)) else
    if funct7 i = 32 \<and> funct3 i = 0 \<and> major i = 12 \<and> quadrant i = 3 then Inr (Some (SUB, TYPE_R)) else
    if funct7 i = 0 \<and> funct3 i = 1 \<and> major i = 12 \<and> quadrant i = 3 then Inr (Some (SLL, TYPE_R)) else
    if funct7 i = 0 \<and> funct3 i = 2 \<and> major i = 12 \<and> quadrant i = 3 then Inr (Some (SLT, TYPE_R)) else
    if funct7 i = 0 \<and> funct3 i = 3 \<and> major i = 12 \<and> quadrant i = 3 then Inr (Some (SLTU, TYPE_R)) else
    if funct7 i = 0 \<and> funct3 i = 4 \<and> major i = 12 \<and> quadrant i = 3 then Inr (Some (XOR_op, TYPE_R)) else
    if funct7 i = 0 \<and> funct3 i = 5 \<and> major i = 12 \<and> quadrant i = 3 then Inr (Some (SRL, TYPE_R)) else
    if funct7 i = 32 \<and> funct3 i = 5 \<and> major i = 12 \<and> quadrant i = 3 then Inr (Some (SRA, TYPE_R)) else
    if funct7 i = 0 \<and> funct3 i = 6 \<and> major i = 12 \<and> quadrant i = 3 then Inr (Some (OR_op, TYPE_R)) else
    if funct7 i = 0 \<and> funct3 i = 7 \<and> major i = 12 \<and> quadrant i = 3 then Inr (Some (AND_op, TYPE_R)) else
    if funct3 i = 0 \<and> major i = 3 \<and> quadrant i = 3 then Inr (Some (FENCE, TYPE_N)) else
    if funct7 i = 0 \<and> unat i div 2 ^ 20 mod 2 ^ 5 = 0 \<and> unat i div 2 ^ 15 mod 2 ^ 5 = 0 \<and> funct3 i = 0 \<and> unat i div 2 ^ 7 mod 2 ^ 5 = 0 \<and> major i = 28 \<and> quadrant i = 3 then Inr (Some (ECALL, TYPE_N)) else
    if funct7 i = 0 \<and> unat i div 2 ^ 20 mod 2 ^ 5 = 1 \<and> unat i div 2 ^ 15 mod 2 ^ 5 = 0 \<and> funct3 i = 0 \<and> unat i div 2 ^ 7 mod 2 ^ 5 = 0 \<and> major i = 28 \<and> quadrant i = 3 then Inr (Some (EBREAK, TYPE_N)) else
    if funct7 i = 1 \<and> funct3 i = 0 \<and> major i = 12 \<and> quadrant i = 3 then Inr (Some (MUL, TYPE_R)) else
    if funct7 i = 1 \<and> funct3 i = 1 \<and> major i = 12 \<and> quadrant i = 3 then Inr (Some (MULH, TYPE_R)) else
    if funct7 i = 1 \<and> funct3 i = 2 \<and> major i = 12 \<and> quadrant i = 3 then Inr (Some (MULHSU, TYPE_R)) else
    if funct7 i = 1 \<and> funct3 i = 3 \<and> major i = 12 \<and> quadrant i = 3 then Inr (Some (MULHU, TYPE_R)) else
    if funct7 i = 1 \<and> funct3 i = 4 \<and> major i = 12 \<and> quadrant i = 3 then Inr (Some (DIV, TYPE_R)) else
    if funct7 i = 1 \<and> funct3 i = 5 \<and> major i = 12 \<and> quadrant i = 3 then Inr (Some (DIVU, TYPE_R)) else
    if funct7 i = 1 \<and> funct3 i = 6 \<and> major i = 12 \<and> quadrant i = 3 then Inr (Some (REM, TYPE_R)) else
    if funct7 i = 1 \<and> funct3 i = 7 \<and> major i = 12 \<and> quadrant i = 3 then Inr (Some (REMU, TYPE_R)) else
    if funct3 i = 1 \<and> major i = 28 \<and> quadrant i = 3 then Inr (Some (CSRRW, TYPE_CSR)) else
    if funct3 i = 2 \<and> major i = 28 \<and> quadrant i = 3 then Inr (Some (CSRRS, TYPE_CSR)) else
    if funct3 i = 3 \<and> major i = 28 \<and> quadrant i = 3 then Inr (Some (CSRRC, TYPE_CSR)) else
    if funct3 i = 5 \<and> major i = 28 \<and> quadrant i = 3 then Inr (Some (CSRRWI, TYPE_CSR_IMM)) else
    if funct3 i = 6 \<and> major i = 28 \<and> quadrant i = 3 then Inr (Some (CSRRSI, TYPE_CSR_IMM)) else
    if funct3 i = 7 \<and> major i = 28 \<and> quadrant i = 3 then Inr (Some (CSRRCI, TYPE_CSR_IMM)) else
    if funct7 i = 24 \<and> unat i div 2 ^ 20 mod 2 ^ 5 = 2 \<and> unat i div 2 ^ 15 mod 2 ^ 5 = 0 \<and> funct3 i = 0 \<and> unat i div 2 ^ 7 mod 2 ^ 5 = 0 \<and> major i = 28 \<and> quadrant i = 3 then Inr (Some (MRET, TYPE_N)) else
    if funct3 i = 1 \<and> major i = 3 \<and> quadrant i = 3 then Inr (Some (FENCE_I, TYPE_N)) else
    Inr (Some (INV, TYPE_N)))"
  by (simp only: select_unfold f_fold)

lemma full_fields_fold:
  "funct7 i = a \<and> unat i div 2 ^ 20 mod 2 ^ 5 = b \<and> unat i div 2 ^ 15 mod 2 ^ 5 = 0 \<and> funct3 i = 0 \<and>
   unat i div 2 ^ 7 mod 2 ^ 5 = 0 \<and> major i = 28 \<and> quadrant i = 3 \<longleftrightarrow> full_fields a b (unat i)"
  by (simp only: full_fields_def f_fold)

lemmas select_fields = select_nested[unfolded full_fields_fold full_fields_system[OF unat_u32_less]]

lemma system_fields:
  "unat i \<in> {0x73, 0x00100073, 0x30200073} \<Longrightarrow> quadrant i = 3 \<and> major i = 28 \<and> funct3 i = 0"
  by (auto simp: quadrant_def major_def funct3_def)

text \<open>Outside the three system instructions, by the value of funct3.\<close>

definition not_system :: "u32 \<Rightarrow> bool" where
  "not_system i \<longleftrightarrow> unat i \<noteq> 0x73 \<and> unat i \<noteq> 0x00100073 \<and> unat i \<noteq> 0x30200073"

lemma not_systemD: "not_system i \<Longrightarrow> unat i \<noteq> 0x73" "not_system i \<Longrightarrow> unat i \<noteq> 0x00100073"
  "not_system i \<Longrightarrow> unat i \<noteq> 0x30200073"
  by (simp_all add: not_system_def)

lemmas by_fields = select_fields not_systemD manual_unfold type_of_def

lemma select_control:
  assumes "not_system i" "quadrant i = 3" "major i \<in> {13, 5, 27, 25, 24, 3}"
  shows "instpat_select rv_table (ucast i) = Inr (Some (rv_manual i, type_of (rv_manual i)))"
  using assms(3) by (elim insertE emptyE) (simp_all add: by_fields assms(1,2))

lemma select_memory:
  assumes "not_system i" "quadrant i = 3" "major i \<in> {0, 8}"
  shows "instpat_select rv_table (ucast i) = Inr (Some (rv_manual i, type_of (rv_manual i)))"
  using assms(3) by (elim insertE emptyE) (simp_all add: by_fields assms(1,2))

lemma select_op_imm:
  assumes "not_system i" "quadrant i = 3" "major i = 4"
  shows "instpat_select rv_table (ucast i) = Inr (Some (rv_manual i, type_of (rv_manual i)))"
  by (simp add: by_fields assms)

lemma select_op:
  assumes "not_system i" "quadrant i = 3" "major i = 12"
  shows "instpat_select rv_table (ucast i) = Inr (Some (rv_manual i, type_of (rv_manual i)))"
  by (simp add: by_fields assms)

lemma select_csr:
  assumes "not_system i" "quadrant i = 3" "major i = 28" "funct3 i \<noteq> 0"
  shows "instpat_select rv_table (ucast i) = Inr (Some (rv_manual i, type_of (rv_manual i)))"
  by (simp add: by_fields assms)

lemma select_system:
  assumes "quadrant i = 3" "major i = 28" "funct3 i = 0"
  shows "instpat_select rv_table (ucast i) = Inr (Some (rv_manual i, type_of (rv_manual i)))"
  by (simp add: select_fields manual_unfold type_of_def assms)

lemma select_reserved:
  assumes "not_system i" "quadrant i \<noteq> 3 \<or> major i \<notin> {13, 5, 27, 25, 24, 0, 8, 4, 12, 3, 28}"
  shows "instpat_select rv_table (ucast i) = Inr (Some (rv_manual i, type_of (rv_manual i)))"
  using assms(2) by (elim disjE) (simp_all add: by_fields assms(1))

lemma select_manual: "instpat_select rv_table (ucast i) = Inr (Some (rv_manual i, type_of (rv_manual i)))"
proof (cases "quadrant i = 3 \<and> major i = 28 \<and> funct3 i = 0")
  case False
  then have "not_system i" using system_fields[of i] by (auto simp: not_system_def)
  then show ?thesis
    using False select_control select_memory select_op_imm select_op select_csr select_reserved[of i] by blast
qed (use select_system in blast)

section \<open>The decoders of the tracers\<close>

definition branch_ops :: "rv_op list" where
  "branch_ops = [BEQ, BNE, BLT, BGE, BLTU, BGEU, JAL, JALR]"

definition load_ops :: "rv_op list" where
  "load_ops = [LB, LH, LW, LBU, LHU]"

definition store_ops :: "rv_op list" where
  "store_ops = [SB, SH, SW]"

lemmas aux_unfold = instpat_select.simps INSTPAT_segments segs_ok seg_values bind_res_Inr simp_thms if_True if_False
  unat_ucast_u64 f_fold

lemma manual_quadrant: "quadrant i \<noteq> 3 \<Longrightarrow> rv_manual i = INV"
  by (simp add: rv_manual_def)

lemma op_at_range: "op_at ops k \<in> insert INV (snd ` set ops)"
  by (auto simp: op_at_def dest: map_of_SomeD split: option.splits) (metis image_eqI map_of_SomeD snd_conv)

lemma op_at_outside: "INV \<notin> S \<Longrightarrow> S \<inter> snd ` set ops = {} \<Longrightarrow> op_at ops k \<notin> S"
  using op_at_range[of ops k] unfolding insert_iff disjoint_iff by (elim disjE) (simp, metis)

lemma manual_branch:
  assumes "quadrant i \<noteq> 3 \<or> major i \<notin> {24, 25, 27}"
  shows "rv_manual i \<notin> set branch_ops"
proof -
  define S where "S = set branch_ops"
  have c: "INV \<notin> S" "LUI \<notin> S" "AUIPC \<notin> S" by (simp_all add: S_def branch_ops_def)
  have m: "op_at m k \<notin> S" if "m \<in> {load_map, store_map, shl_map, shr_map, imm_map, op_map, alt_map, mul_map, fence_map, system_map, csr_map}" for m k
    by (rule op_at_outside[OF c(1)]) (use that in \<open>auto simp: S_def branch_ops_def maps_def\<close>)
  show ?thesis using assms c m unfolding S_def[symmetric] rv_manual_def Let_def by auto
qed

lemma manual_load:
  assumes "quadrant i \<noteq> 3 \<or> major i \<notin> {0, 8}"
  shows "rv_manual i \<notin> set load_ops" "rv_manual i \<notin> set store_ops"
proof -
  define S where "S = set load_ops \<union> set store_ops"
  have c: "INV \<notin> S" "LUI \<notin> S" "AUIPC \<notin> S" "JAL \<notin> S" by (simp_all add: S_def load_ops_def store_ops_def)
  have m: "op_at m k \<notin> S" if "m \<in> {jalr_map, branch_map, shl_map, shr_map, imm_map, op_map, alt_map, mul_map, fence_map, system_map, csr_map}" for m k
    by (rule op_at_outside[OF c(1)]) (use that in \<open>auto simp: S_def load_ops_def store_ops_def maps_def\<close>)
  have "rv_manual i \<notin> S" using assms c m unfolding rv_manual_def Let_def by auto
  then show "rv_manual i \<notin> set load_ops" "rv_manual i \<notin> set store_ops" by (auto simp: S_def)
qed

lemma branch_select:
  "instpat_select branch_table (ucast i) =
    Inr (if rv_manual i \<in> set branch_ops then Some (rv_manual i, type_of (rv_manual i)) else None)"
proof (cases "quadrant i = 3 \<and> major i \<in> {24, 25, 27}")
  case True
  then have q: "quadrant i = 3" and m: "major i \<in> {24, 25, 27}" by auto
  from m show ?thesis unfolding branch_table_segments
    by (elim insertE emptyE) (simp_all only: aux_unfold, simp_all add: q manual_unfold type_of_def branch_ops_def)
next
  case False
  then have n: "rv_manual i \<notin> set branch_ops" by (intro manual_branch) auto
  from False have "quadrant i \<noteq> 3 \<or> (major i \<noteq> 24 \<and> major i \<noteq> 25 \<and> major i \<noteq> 27)" by auto
  then show ?thesis using n unfolding branch_table_segments
    by (elim disjE conjE) (simp_all only: aux_unfold)
qed

definition ldstr_entry :: "rv_op \<Rightarrow> (bool \<times> rv_type) option" where
  "ldstr_entry op = (if op \<in> set load_ops then Some (True, TYPE_I) else if op \<in> set store_ops then Some (False, TYPE_S) else None)"

lemma ldstr_select: "instpat_select ldstr_table (ucast i) = Inr (ldstr_entry (rv_manual i))"
proof (cases "quadrant i = 3 \<and> major i \<in> {0, 8}")
  case True
  then have q: "quadrant i = 3" and m: "major i \<in> {0, 8}" by auto
  from m show ?thesis unfolding ldstr_table_segments
    by (elim insertE emptyE) (simp_all only: aux_unfold, simp_all add: q manual_unfold ldstr_entry_def load_ops_def store_ops_def)
next
  case False
  then have n: "rv_manual i \<notin> set load_ops" "rv_manual i \<notin> set store_ops" by (intro manual_load; auto)+
  from False have "quadrant i \<noteq> 3 \<or> (major i \<noteq> 0 \<and> major i \<noteq> 8)" by auto
  then show ?thesis using n unfolding ldstr_table_segments ldstr_entry_def
    by (elim disjE conjE) (simp_all only: aux_unfold)
qed

section \<open>Property\<close>

text \<open>C1: for every instruction word, the chain of pattern strings of \<open>decode_exec\<close> selects the operation and
  the operand format that the opcode map of the RISC-V manual gives; a word outside the map is \<open>inv\<close>.\<close>

theorem decode_matches_manual:
  "instpat_select rv_table (ucast i) = Inr (Some (rv_manual i, type_of (rv_manual i)))"
  by (rule select_manual)

end
