(* ===== verification/Riscv_Proofs.thy ===== *)
theory Riscv_Proofs
  imports Riscv_Decode
begin

text \<open>
  Properties of the RISC-V interpreter: the hard-wired zero register, the agreement of the tracers'
  decoders with execution, the arithmetic of the M extension, the immediate encodings and the
  trap entry and return.
\<close>

section \<open>One instruction\<close>

text \<open>\<open>decode_exec\<close> through the opcode map.\<close>

lemma decode_exec_manual:
  "decode_exec cfg s st = bind_res (bind_res (decode_operand cfg (inst s) (type_of (rv_manual (inst s))) st)
       (\<lambda>ops. exec_body cfg (rv_manual (inst s)) ops (s\<lparr>dnpc := snpc s\<rparr>) st))
     (\<lambda>(s, st). bind_res (R_set cfg 0 0 st) (\<lambda>st. Inr (s, st)))"
  by (simp add: decode_exec_def Let_def select_manual)

lemma R_set_0: "R_set cfg 0 v st = Inr (st\<lparr>cpu := (cpu st)\<lparr>gpr := (gpr (cpu st))(0 := v)\<rparr>\<rparr>)"
  by (simp add: R_set_def check_reg_idx_def nr_gpr_def)

lemma decode_exec_zero: "decode_exec cfg s st = Inr (s', st') \<Longrightarrow> gpr (cpu st') 0 = 0"
  by (auto simp: decode_exec_manual res_simps R_set_0)

section \<open>What a body leaves alone\<close>

lemma R_set_memory: "R_set cfg i v st = Inr st' \<Longrightarrow> memory st' = memory st \<and> nstate st' = nstate st"
  by (auto simp: R_set_def res_simps)

lemma csr_set_memory: "csr_set cfg i v st = Inr st' \<Longrightarrow> memory st' = memory st \<and> nstate st' = nstate st"
  by (auto simp: csr_set_def res_simps)

lemma set_rd_frame: "set_rd cfg ops v s st = Inr (s', st') \<Longrightarrow> s' = s \<and> memory st' = memory st \<and> nstate st' = nstate st"
  by (auto simp: set_rd_def res_simps dest: R_set_memory)

lemma csr_ops_frame:
  "riscv_csrrwi cfg c v rd st = Inr st' \<Longrightarrow> memory st' = memory st \<and> nstate st' = nstate st"
  "riscv_csrrsi cfg c v rd st = Inr st' \<Longrightarrow> memory st' = memory st \<and> nstate st' = nstate st"
  "riscv_csrrci cfg c v rd st = Inr st' \<Longrightarrow> memory st' = memory st \<and> nstate st' = nstate st"
  "riscv_csrrw cfg c rs rd st = Inr st' \<Longrightarrow> memory st' = memory st \<and> nstate st' = nstate st"
  "riscv_csrrs cfg c rs rd st = Inr st' \<Longrightarrow> memory st' = memory st \<and> nstate st' = nstate st"
  "riscv_csrrc cfg c rs rd st = Inr st' \<Longrightarrow> memory st' = memory st \<and> nstate st' = nstate st"
  by (auto simp: riscv_csrrwi_def riscv_csrrsi_def riscv_csrrci_def riscv_csrrw_def riscv_csrrs_def riscv_csrrc_def
      res_simps dest!: csr_set_memory R_set_memory)

section \<open>Control transfer\<close>

definition other_control :: "rv_op list" where
  "other_control = [ECALL, MRET]"

lemma exec_body_dnpc:
  assumes "exec_body cfg op ops s st = Inr (s', st')" and "op \<notin> set other_control"
  shows "s' = s\<lparr>dnpc := (if op \<in> set branch_ops \<and> snd (snd (branch_result op ops (s_pc s)))
     then fst (branch_result op ops (s_pc s)) else dnpc s)\<rparr>"
  using assms
  by (cases op) (auto simp: exec_body_def Let_def branch_ops_def other_control_def branch_result_def branch_def
      load_op_def store_op_def on_state_def res_simps dest!: set_rd_frame)

section \<open>Memory effects\<close>

definition access_size :: "rv_op \<Rightarrow> nat" where
  "access_size op = (if op \<in> {LB, LBU, SB} then 1 else if op \<in> {LH, LHU, SH} then 2 else 4)"

lemma exec_body_load:
  assumes "op \<in> set load_ops" and "exec_body cfg op ops s st = Inr (s', st')"
  shows "\<exists>v. vaddr_read cfg (src1 ops + imm ops) (access_size op) (memory st) = Inr (v, memory st')"
proof -
  obtain f where "load_op cfg ops (access_size op) f s st = Inr (s', st')"
    using assms by (auto simp: load_ops_def exec_body_def access_size_def Let_def)
  then show ?thesis by (auto simp: load_op_def Mr_def res_simps dest!: set_rd_frame)
qed

lemma exec_body_store:
  assumes "op \<in> set store_ops" and "exec_body cfg op ops s st = Inr (s', st')"
  shows "vaddr_write cfg (src1 ops + imm ops) (access_size op) (src2 ops) (memory st) = Inr (memory st')"
proof -
  have "store_op cfg ops (access_size op) s st = Inr (s', st')"
    using assms by (auto simp: store_ops_def exec_body_def access_size_def Let_def)
  then show ?thesis by (auto simp: store_op_def Mw_def res_simps)
qed

lemma inst_fetch_pmem: "inst_fetch cfg pc len st = Inr (i, pc', st') \<Longrightarrow> pmem (memory st') = pmem (memory st)"
  by (auto simp: inst_fetch_def vaddr_ifetch_def paddr_read_def res_simps out_of_bound_def split: if_splits)

lemma invalid_inst_pmem: "invalid_inst cfg pc st = Inr st' \<Longrightarrow> pmem (memory st') = pmem (memory st)"
  by (auto simp: invalid_inst_def set_nemu_state_def res_simps dest!: inst_fetch_pmem)

lemma isa_raise_intr_memory: "isa_raise_intr cfg n epc st = Inr (v, st') \<Longrightarrow> memory st' = memory st"
  by (auto simp: isa_raise_intr_def res_simps dest!: csr_set_memory)

lemma exec_body_other:
  assumes "op \<notin> set load_ops" "op \<notin> set store_ops" and "exec_body cfg op ops s st = Inr (s', st')"
  shows "pmem (memory st') = pmem (memory st)"
  using assms
  by (cases op) (auto simp: exec_body_def Let_def load_ops_def store_ops_def branch_def on_state_def NEMUTRAP_def set_nemu_state_def
      riscv_ecall_def res_simps dest!: set_rd_frame csr_ops_frame invalid_inst_pmem isa_raise_intr_memory)

section \<open>Properties of one instruction\<close>

lemma decode_exec_cases:
  assumes "decode_exec cfg s st = Inr (s', st')"
  obtains ops st1 where "decode_operand cfg (inst s) (type_of (rv_manual (inst s))) st = Inr ops"
    and "exec_body cfg (rv_manual (inst s)) ops (s\<lparr>dnpc := snpc s\<rparr>) st = Inr (s', st1)" and "R_set cfg 0 0 st1 = Inr st'"
  using assms by (auto simp: decode_exec_manual res_simps)

text \<open>C2: the decoder of the branch tracer agrees with execution.  On a branch or jump it reports the target and
  whether the branch is taken, and execution continues at the target when taken and at the next instruction
  otherwise; on every other instruction but \<open>ecall\<close> and \<open>mret\<close> it reports nothing and execution continues at the
  next instruction.\<close>

theorem decode_branch_sound:
  assumes "decode_exec cfg s st = Inr (s', st')"
  shows "\<exists>r. isa_decode_branch cfg (s_pc s) (inst s) st = Inr r \<and>
    (case r of Some (target, uncond, taken) \<Rightarrow> dnpc s' = (if taken then target else snpc s) \<and> (uncond \<longrightarrow> taken)
     | None \<Rightarrow> rv_manual (inst s) \<notin> set other_control \<longrightarrow> dnpc s' = snpc s)"
proof -
  let ?op = "rv_manual (inst s)"
  from assms obtain ops st1 where ops: "decode_operand cfg (inst s) (type_of ?op) st = Inr ops"
    and ex: "exec_body cfg ?op ops (s\<lparr>dnpc := snpc s\<rparr>) st = Inr (s', st1)" by (rule decode_exec_cases)
  note d = exec_body_dnpc[OF ex]
  show ?thesis
  proof (cases "?op \<in> set branch_ops")
    case True
    then have "?op \<notin> set other_control" by (auto simp: branch_ops_def other_control_def)
    then have "dnpc s' = (if snd (snd (branch_result ?op ops (s_pc s))) then fst (branch_result ?op ops (s_pc s)) else snpc s)"
      using d True by simp
    moreover have "fst (snd (branch_result ?op ops (s_pc s))) \<Longrightarrow> snd (snd (branch_result ?op ops (s_pc s)))"
      by (auto simp: branch_result_def Let_def split: rv_op.splits)
    moreover have "isa_decode_branch cfg (s_pc s) (inst s) st = Inr (Some (branch_result ?op ops (s_pc s)))"
      using True ops by (simp add: isa_decode_branch_def branch_select)
    ultimately show ?thesis by (auto split: prod.splits)
  next
    case False
    then show ?thesis using d by (simp add: isa_decode_branch_def branch_select)
  qed
qed

text \<open>C3: the decoder of the memory tracer agrees with execution.  Where it reports a load from an address, the
  instruction reads memory there and changes memory no further; where it reports a store, the instruction writes
  memory there; where it reports nothing, the guest's memory is unchanged.\<close>

theorem decode_ldstr_sound:
  assumes "decode_exec cfg s st = Inr (s', st')"
  shows "\<exists>r. isa_decode_ldstr cfg (inst s) st = Inr r \<and>
    (case r of
       Some (is_read, a) \<Rightarrow>
         (if is_read then \<exists>v. vaddr_read cfg a (access_size (rv_manual (inst s))) (memory st) = Inr (v, memory st')
          else \<exists>v. vaddr_write cfg a (access_size (rv_manual (inst s))) v (memory st) = Inr (memory st'))
     | None \<Rightarrow> pmem (memory st') = pmem (memory st))"
proof -
  let ?op = "rv_manual (inst s)"
  from assms obtain ops st1 where ops: "decode_operand cfg (inst s) (type_of ?op) st = Inr ops"
    and ex: "exec_body cfg ?op ops (s\<lparr>dnpc := snpc s\<rparr>) st = Inr (s', st1)" and z: "R_set cfg 0 0 st1 = Inr st'"
    by (rule decode_exec_cases)
  have m: "memory st' = memory st1" using R_set_memory[OF z] by simp
  consider (load) "?op \<in> set load_ops" | (store) "?op \<in> set store_ops" "?op \<notin> set load_ops"
    | (other) "?op \<notin> set load_ops" "?op \<notin> set store_ops" by blast
  then show ?thesis
  proof cases
    case load
    then have "type_of ?op = TYPE_I" by (auto simp: load_ops_def type_of_def)
    then show ?thesis using load ops exec_body_load[OF load ex] m
      by (auto simp: isa_decode_ldstr_def ldstr_select ldstr_entry_def)
  next
    case store
    then have "type_of ?op = TYPE_S" by (auto simp: store_ops_def type_of_def)
    then show ?thesis using store ops exec_body_store[OF store(1) ex] m
      by (auto simp: isa_decode_ldstr_def ldstr_select ldstr_entry_def)
  next
    case other
    then show ?thesis using exec_body_other[OF other ex] m
      by (simp add: isa_decode_ldstr_def ldstr_select ldstr_entry_def)
  qed
qed

section \<open>Multiplication and division\<close>

lemma scast_mul_int: "(scast x :: u64) * scast y = word_of_int (sint (x :: u32) * sint (y :: u32))"
  by (metis scast_eq wi_hom_mult)

lemma scast_ucast_mul_int: "(scast x :: u64) * ucast y = word_of_int (sint (x :: u32) * uint (y :: u32))"
  by (metis scast_eq ucast_eq wi_hom_mult)

lemma ucast_mul_int: "(ucast x :: u64) * ucast y = word_of_int (uint (x :: u32) * uint (y :: u32))"
  by (metis ucast_eq wi_hom_mult)

lemma high_half: "(ucast (drop_bit 32 (word_of_int n :: u64)) :: u32) = word_of_int (n div 2 ^ 32)"
  unfolding drop_bit_eq_div [symmetric] by (rule bit_word_eqI) (auto simp: bit_simps)

lemma high_half_signed: "(ucast (signed_drop_bit 32 (word_of_int n :: u64)) :: u32) = word_of_int (n div 2 ^ 32)"
  unfolding drop_bit_eq_div [symmetric] by (rule bit_word_eqI) (auto simp: bit_simps min_def)

text \<open>The multiplications deliver the halves of the exact product: \<open>mul\<close> the low word, \<open>mulh\<close>, \<open>mulhsu\<close> and
  \<open>mulhu\<close> the high word of the signed, signed-by-unsigned and unsigned product.\<close>

theorem mul_halves:
  "exec_body cfg MUL ops s st = set_rd cfg ops (src1 ops * src2 ops) s st \<and>
   exec_body cfg MULH ops s st = set_rd cfg ops (word_of_int (sint (src1 ops) * sint (src2 ops) div 2 ^ 32)) s st \<and>
   exec_body cfg MULHSU ops s st = set_rd cfg ops (word_of_int (sint (src1 ops) * uint (src2 ops) div 2 ^ 32)) s st \<and>
   exec_body cfg MULHU ops s st = set_rd cfg ops (word_of_int (uint (src1 ops) * uint (src2 ops) div 2 ^ 32)) s st"
proof -
  have u: "(ucast (word_of_int n :: u64) :: u32) = word_of_int n" for n
    by (rule bit_word_eqI) (simp add: bit_simps)
  have "(ucast ((scast (src1 ops) :: u64) * scast (src2 ops)) :: u32) = src1 ops * src2 ops"
    unfolding scast_mul_int u by (simp add: wi_hom_mult [symmetric])
  then have "exec_body cfg MUL ops s st = set_rd cfg ops (src1 ops * src2 ops) s st"
    by (simp only: exec_body_def Let_def rv_op.case)
  moreover have "exec_body cfg MULH ops s st = set_rd cfg ops (word_of_int (sint (src1 ops) * sint (src2 ops) div 2 ^ 32)) s st"
    by (simp only: exec_body_def Let_def rv_op.case scast_mul_int high_half_signed)
  moreover have "exec_body cfg MULHSU ops s st = set_rd cfg ops (word_of_int (sint (src1 ops) * uint (src2 ops) div 2 ^ 32)) s st"
    by (simp only: exec_body_def Let_def rv_op.case scast_ucast_mul_int high_half)
  moreover have "exec_body cfg MULHU ops s st = set_rd cfg ops (word_of_int (uint (src1 ops) * uint (src2 ops) div 2 ^ 32)) s st"
    by (simp only: exec_body_def Let_def rv_op.case ucast_mul_int high_half)
  ultimately show ?thesis by blast
qed

lemma word_int_mult_add: "word_of_int a * y + word_of_int b = word_of_int (a * sint y + b)"
  by (simp flip: wi_hom_add wi_hom_mult)

lemma sint_bounds_u32: "- (2 ^ 31) \<le> sint (x :: u32)" "sint (x :: u32) < 2 ^ 31"
  using sint_greater_eq[of x] sint_less[of x] by simp_all

lemma sint_smod:
  assumes "y \<noteq> (0 :: u32)"
  shows "sint (word_of_int (sint (x :: u32) smod sint y) :: u32) = sint x smod sint y"
proof -
  have "sint y \<noteq> 0" using assms by (metis signed_0 signed_word_eqI)
  then have "sint x smod sint y \<in> {- \<bar>sint y\<bar> + 1 .. \<bar>sint y\<bar> - 1}" by (rule smod_int_range)
  then show ?thesis using sint_bounds_u32[of y] by (auto simp: sint_sbintrunc' intro!: signed_take_bit_int_eq_self)
qed

lemma sint_eq_0_iff: "sint (y :: u32) = 0 \<longleftrightarrow> y = 0"
  by (metis signed_0 signed_word_eqI)

lemma sint_sdiv:
  assumes "\<not> (sint x = SWORD_MIN \<and> sint y = - 1)"
  shows "sint (word_of_int (sint (x :: u32) sdiv sint (y :: u32)) :: u32) = sint x sdiv sint y"
proof -
  have r: "- \<bar>sint x\<bar> \<le> sint x sdiv sint y" "sint x sdiv sint y \<le> \<bar>sint x\<bar>"
    using sdiv_int_range[of "sint x" "sint y"] by simp_all
  have "sint x sdiv sint y \<noteq> 2 ^ 31"
  proof
    assume q: "sint x sdiv sint y = 2 ^ 31"
    then have x: "sint x = - (2 ^ 31)" using r(2) sint_bounds_u32[of x] by auto
    then have "sint y = - 1" using q int_sdiv_negated_is_minus1[of "sint x" "sint y"] by simp
    then show False using assms x by (simp add: SWORD_MIN_def)
  qed
  then have "- (2 ^ 31) \<le> sint x sdiv sint y" "sint x sdiv sint y < 2 ^ 31"
    using r sint_bounds_u32[of x] by auto
  then show ?thesis by (auto simp: sint_sbintrunc' intro!: signed_take_bit_int_eq_self)
qed

text \<open>The three cases of a signed division, and the two of an unsigned one.\<close>

lemma riscv_div_zero: "riscv_div x 0 = - 1" "riscv_rem x 0 = x" "riscv_divu x 0 = - 1" "riscv_remu x 0 = x"
  by (simp_all add: riscv_div_def riscv_rem_def riscv_divu_def riscv_remu_def)

lemma riscv_div_overflow:
  assumes "sint x = SWORD_MIN" and "sint y = - 1"
  shows "riscv_div x y = x" and "riscv_rem x y = 0"
  using assms by (auto simp: riscv_div_def riscv_rem_def)

lemma riscv_div_regular:
  assumes "y \<noteq> 0" and "\<not> (sint x = SWORD_MIN \<and> sint y = - 1)"
  shows "sint (riscv_div x y) = sint x sdiv sint y" and "sint (riscv_rem x y) = sint x smod sint y"
  using assms sint_sdiv[OF assms(2)] sint_smod[OF assms(1), of x] by (auto simp: riscv_div_def riscv_rem_def)

lemma smod_bounds:
  assumes "(b :: int) \<noteq> 0"
  shows "\<bar>a smod b\<bar> < \<bar>b\<bar>" and "a smod b = 0 \<or> sgn (a smod b) = sgn a"
proof -
  have m: "0 \<le> \<bar>a\<bar> mod \<bar>b\<bar>" "\<bar>a\<bar> mod \<bar>b\<bar> < \<bar>b\<bar>" using assms by simp_all
  then show "\<bar>a smod b\<bar> < \<bar>b\<bar>" by (auto simp: smod_int_alt_def abs_mult sgn_if)
  have "\<bar>a\<bar> mod \<bar>b\<bar> = 0 \<or> sgn (\<bar>a\<bar> mod \<bar>b\<bar>) = 1" using m(1) by (simp add: sgn_1_pos) linarith
  then show "a smod b = 0 \<or> sgn (a smod b) = sgn a" by (auto simp: smod_int_alt_def sgn_mult)
qed

text \<open>C6: the four division instructions write the quotient and remainder of the manual to the destination
  register, on every pair of operands. By zero the quotient has all bits set and the remainder is the dividend;
  on signed overflow the quotient is the dividend and the remainder 0. Everywhere else the division equation holds
  over the integers, with a remainder smaller than the divisor in magnitude and of the sign of the dividend, which
  determines both.\<close>

theorem div_rem_correct:
  "\<exists>q r uq ur.
     exec_body cfg DIV ops s st = set_rd cfg ops q s st \<and> exec_body cfg REM ops s st = set_rd cfg ops r s st \<and>
     exec_body cfg DIVU ops s st = set_rd cfg ops uq s st \<and> exec_body cfg REMU ops s st = set_rd cfg ops ur s st \<and>
     (if src2 ops = 0 then sint q = - 1 \<and> r = src1 ops
      else if sint (src1 ops) = - (2 ^ 31) \<and> sint (src2 ops) = - 1 then q = src1 ops \<and> r = 0
      else sint q * sint (src2 ops) + sint r = sint (src1 ops) \<and> \<bar>sint r\<bar> < \<bar>sint (src2 ops)\<bar> \<and>
        (sint r = 0 \<or> sgn (sint r) = sgn (sint (src1 ops)))) \<and>
     (if src2 ops = 0 then unat uq = 2 ^ 32 - 1 \<and> ur = src1 ops
      else unat uq * unat (src2 ops) + unat ur = unat (src1 ops) \<and> unat ur < unat (src2 ops))"
proof -
  let ?x = "src1 ops" and ?y = "src2 ops"
  have "if ?y = 0 then sint (riscv_div ?x ?y) = - 1 \<and> riscv_rem ?x ?y = ?x
      else if sint ?x = - (2 ^ 31) \<and> sint ?y = - 1 then riscv_div ?x ?y = ?x \<and> riscv_rem ?x ?y = 0
      else sint (riscv_div ?x ?y) * sint ?y + sint (riscv_rem ?x ?y) = sint ?x \<and> \<bar>sint (riscv_rem ?x ?y)\<bar> < \<bar>sint ?y\<bar> \<and>
        (sint (riscv_rem ?x ?y) = 0 \<or> sgn (sint (riscv_rem ?x ?y)) = sgn (sint ?x))"
    using smod_bounds[of "sint ?y" "sint ?x"] riscv_div_regular[of ?y ?x]
    by (simp add: riscv_div_zero riscv_div_overflow SWORD_MIN_def sint_eq_0_iff sdiv_mult_smod_eq)
  moreover have "if ?y = 0 then unat (riscv_divu ?x ?y) = 2 ^ 32 - 1 \<and> riscv_remu ?x ?y = ?x
      else unat (riscv_divu ?x ?y) * unat ?y + unat (riscv_remu ?x ?y) = unat ?x \<and> unat (riscv_remu ?x ?y) < unat ?y"
    by (simp add: riscv_divu_def riscv_remu_def unat_div unat_mod unat_gt_0 unsigned_minus_1_eq_mask mask_eq_exp_minus_1)
  ultimately show ?thesis
    by (intro exI[of _ "riscv_div ?x ?y"] exI[of _ "riscv_rem ?x ?y"] exI[of _ "riscv_divu ?x ?y"] exI[of _ "riscv_remu ?x ?y"])
      (simp add: exec_body_def)
qed

section \<open>Immediates\<close>

text \<open>Where an assembler places an immediate, per format, and the immediates a format can hold.\<close>

definition place_imm :: "rv_type \<Rightarrow> u32 \<Rightarrow> u32" where
  "place_imm t v = (case t of
     TYPE_I \<Rightarrow> push_bit 20 v
   | TYPE_S \<Rightarrow> push_bit 25 (take_bit 7 (drop_bit 5 v)) OR push_bit 7 (take_bit 5 v)
   | TYPE_B \<Rightarrow> push_bit 31 (drop_bit 12 v) OR push_bit 25 (take_bit 6 (drop_bit 5 v)) OR
       push_bit 8 (take_bit 4 (drop_bit 1 v)) OR push_bit 7 (of_bool (bit v 11))
   | TYPE_U \<Rightarrow> v
   | TYPE_J \<Rightarrow> push_bit 31 (drop_bit 20 v) OR push_bit 21 (take_bit 10 (drop_bit 1 v)) OR
       push_bit 20 (of_bool (bit v 11)) OR push_bit 12 (take_bit 8 (drop_bit 12 v))
   | _ \<Rightarrow> 0)"

definition imm_bits :: "rv_type \<Rightarrow> nat \<Rightarrow> bool" where
  "imm_bits t n \<longleftrightarrow> (case t of TYPE_I \<Rightarrow> 20 \<le> n | TYPE_S \<Rightarrow> 25 \<le> n \<or> (7 \<le> n \<and> n < 12)
     | TYPE_B \<Rightarrow> 25 \<le> n \<or> (7 \<le> n \<and> n < 12) | _ \<Rightarrow> 12 \<le> n)"

definition imm_ok :: "rv_type \<Rightarrow> u32 \<Rightarrow> bool" where
  "imm_ok t v \<longleftrightarrow> (case t of
     TYPE_I \<Rightarrow> signed_take_bit 11 v = v
   | TYPE_S \<Rightarrow> signed_take_bit 11 v = v
   | TYPE_B \<Rightarrow> signed_take_bit 12 v = v \<and> \<not> bit v 0
   | TYPE_U \<Rightarrow> take_bit 12 v = 0
   | TYPE_J \<Rightarrow> signed_take_bit 20 v = v \<and> \<not> bit v 0
   | _ \<Rightarrow> False)"

lemma signed_take_bit_eqD:
  assumes "signed_take_bit k v = (v :: u32)" and "k \<le> n" and "n < 32"
  shows "bit v n = bit v k"
proof -
  have "bit v n = bit (signed_take_bit k v) n" by (simp only: assms(1))
  also have "\<dots> = bit v k" using assms(2,3) by (simp add: bit_signed_take_bit_iff min_absorb1 bit_simps)
  finally show ?thesis .
qed

lemma bit_mult_2: "bit (x * 2) n \<longleftrightarrow> 0 < n \<and> n < LENGTH('a) \<and> bit (x :: 'a::len word) (n - 1)"
proof -
  have "bit (x * 2) n = bit (push_bit 1 x) n" by simp
  also have "\<dots> \<longleftrightarrow> 0 < n \<and> n < LENGTH('a) \<and> bit x (n - 1)" unfolding bit_push_bit_iff by auto
  finally show ?thesis .
qed

lemma bit_imm:
  assumes "n < 32"
  shows "bit (immI i) n \<longleftrightarrow> bit i (20 + min n 11)"
    and "bit (immS i) n \<longleftrightarrow> bit i (if n < 5 then 7 + n else 20 + min n 11)"
    and "bit (immB i) n \<longleftrightarrow> 0 < n \<and> bit i (if n < 5 then 7 + n else if n < 11 then 20 + n else if n = 11 then 7 else 31)"
    and "bit (immU i) n \<longleftrightarrow> 12 \<le> n \<and> bit i n"
    and "bit (immJ i) n \<longleftrightarrow> 0 < n \<and> bit i (if n < 11 then 20 + n else if n = 11 then 20 else if n < 20 then n else 31)"
  subgoal using assms by (auto simp: immI_def bit_simps)
  subgoal using assms by (simp add: immS_def bit_simps min_def) auto
  subgoal using assms by (simp add: immB_def bit_simps min_def bit_mult_2) auto
  subgoal using assms by (simp add: immU_def bit_simps min_def) auto
  subgoal using assms by (simp add: immJ_def bit_simps min_def bit_mult_2) auto
  done

lemma bit_place:
  assumes "n < 32"
  shows "bit (place_imm TYPE_I v) n \<longleftrightarrow> 20 \<le> n \<and> bit v (n - 20)"
    and "bit (place_imm TYPE_S v) n \<longleftrightarrow> (if n < 7 then False else if n < 12 then bit v (n - 7) else 25 \<le> n \<and> bit v (n - 20))"
    and "bit (place_imm TYPE_B v) n \<longleftrightarrow> (if n < 7 then False else if n = 7 then bit v 11 else if n < 12 then bit v (n - 7)
      else if n < 25 then False else if n < 31 then bit v (n - 20) else bit v 12)"
    and "bit (place_imm TYPE_U v) n \<longleftrightarrow> bit v n"
    and "bit (place_imm TYPE_J v) n \<longleftrightarrow> (if n < 12 then False else if n < 20 then bit v n else if n = 20 then bit v 11
      else if n < 31 then bit v (n - 20) else bit v 20)"
  subgoal using assms by (auto simp: place_imm_def bit_simps)
  subgoal using assms by (auto simp: place_imm_def bit_simps)
  subgoal using assms Suc_diff_le[of 8 n] by (simp add: place_imm_def bit_simps) auto
  subgoal by (simp add: place_imm_def)
  subgoal using assms Suc_diff_le[of 21 n] by (simp add: place_imm_def bit_simps) auto
  done

lemma sign_extended: "signed_take_bit k v = (v :: u32) \<Longrightarrow> n < 32 \<Longrightarrow> bit v n = bit v (min n k)"
  using signed_take_bit_eqD[of k v n] by (cases "k \<le> n") (auto simp: min_def)

lemma place_or:
  "(\<And>n. n < 32 \<Longrightarrow> imm_bits t n \<Longrightarrow> \<not> bit r n) \<Longrightarrow> n < 32 \<Longrightarrow> imm_bits t n \<Longrightarrow>
   bit (place_imm t v OR r) n = bit (place_imm t v) n"
  by (simp add: bit_or_iff)

lemma immI_place:
  assumes ok: "imm_ok TYPE_I v" and r: "\<And>n. n < 32 \<Longrightarrow> imm_bits TYPE_I n \<Longrightarrow> \<not> bit r n"
  shows "immI (place_imm TYPE_I v OR r) = v"
proof (rule bit_word_eqI)
  fix n assume n: "n < LENGTH(32)"
  have q: "k < 32 \<Longrightarrow> imm_bits TYPE_I k \<Longrightarrow> bit (place_imm TYPE_I v OR r) k = bit (place_imm TYPE_I v) k" for k
    by (rule place_or[OF r])
  have v: "bit v n = bit v (min n 11)" using ok n by (intro sign_extended) (simp_all add: imm_ok_def)
  show "bit (immI (place_imm TYPE_I v OR r)) n = bit v n"
    unfolding v using n ok
    by (cases "n < 11") (simp_all add: bit_imm bit_place q[unfolded imm_bits_def rv_type.case] imm_ok_def min_def)
qed

lemma immS_place:
  assumes ok: "imm_ok TYPE_S v" and r: "\<And>n. n < 32 \<Longrightarrow> imm_bits TYPE_S n \<Longrightarrow> \<not> bit r n"
  shows "immS (place_imm TYPE_S v OR r) = v"
proof (rule bit_word_eqI)
  fix n assume n: "n < LENGTH(32)"
  have q: "k < 32 \<Longrightarrow> imm_bits TYPE_S k \<Longrightarrow> bit (place_imm TYPE_S v OR r) k = bit (place_imm TYPE_S v) k" for k
    by (rule place_or[OF r])
  have v: "bit v n = bit v (min n 11)" using ok n by (intro sign_extended) (simp_all add: imm_ok_def)
  show "bit (immS (place_imm TYPE_S v OR r)) n = bit v n"
    unfolding v using n ok
    by (cases "n < 5"; cases "n < 11") (simp_all add: bit_imm bit_place q[unfolded imm_bits_def rv_type.case] imm_ok_def min_def)
qed

lemma immB_place:
  assumes ok: "imm_ok TYPE_B v" and r: "\<And>n. n < 32 \<Longrightarrow> imm_bits TYPE_B n \<Longrightarrow> \<not> bit r n"
  shows "immB (place_imm TYPE_B v OR r) = v"
proof (rule bit_word_eqI)
  fix n assume n: "n < LENGTH(32)"
  have q: "k < 32 \<Longrightarrow> imm_bits TYPE_B k \<Longrightarrow> bit (place_imm TYPE_B v OR r) k = bit (place_imm TYPE_B v) k" for k
    by (rule place_or[OF r])
  have v: "bit v n = bit v (min n 12)" using ok n by (intro sign_extended) (simp_all add: imm_ok_def)
  show "bit (immB (place_imm TYPE_B v OR r)) n = bit v n"
    unfolding v using n ok
    by (cases "n = 0"; cases "n < 5"; cases "n < 11"; cases "n = 11"; cases "n = 12") (simp_all add: bit_imm bit_place q[unfolded imm_bits_def rv_type.case] imm_ok_def min_def)
qed

lemma immJ_place:
  assumes ok: "imm_ok TYPE_J v" and r: "\<And>n. n < 32 \<Longrightarrow> imm_bits TYPE_J n \<Longrightarrow> \<not> bit r n"
  shows "immJ (place_imm TYPE_J v OR r) = v"
proof (rule bit_word_eqI)
  fix n assume n: "n < LENGTH(32)"
  have q: "k < 32 \<Longrightarrow> imm_bits TYPE_J k \<Longrightarrow> bit (place_imm TYPE_J v OR r) k = bit (place_imm TYPE_J v) k" for k
    by (rule place_or[OF r])
  have v: "bit v n = bit v (min n 20)" using ok n by (intro sign_extended) (simp_all add: imm_ok_def)
  show "bit (immJ (place_imm TYPE_J v OR r)) n = bit v n"
    unfolding v using n ok
    by (cases "n = 0"; cases "n < 11"; cases "n = 11"; cases "n < 20"; cases "n = 20") (simp_all add: bit_imm bit_place q[unfolded imm_bits_def rv_type.case] imm_ok_def min_def)
qed

lemma immU_place:
  assumes ok: "imm_ok TYPE_U v" and r: "\<And>n. n < 32 \<Longrightarrow> imm_bits TYPE_U n \<Longrightarrow> \<not> bit r n"
  shows "immU (place_imm TYPE_U v OR r) = v"
proof (rule bit_word_eqI)
  fix n assume n: "n < LENGTH(32)"
  have q: "k < 32 \<Longrightarrow> imm_bits TYPE_U k \<Longrightarrow> bit (place_imm TYPE_U v OR r) k = bit (place_imm TYPE_U v) k" for k
    by (rule place_or[OF r])
  have "take_bit 12 v = 0" using ok by (simp add: imm_ok_def)
  then have "n < 12 \<Longrightarrow> \<not> bit v n" using bit_take_bit_iff[of 12 v n] by simp
  then show "bit (immU (place_imm TYPE_U v OR r)) n = bit v n"
    using n by (cases "n < 12") (simp_all add: bit_imm bit_place q[unfolded imm_bits_def rv_type.case])
qed

text \<open>C5: assembling and decoding an immediate are inverse for the formats I, S, B, U and J: an instruction
  that carries a representable immediate in the places its format prescribes, whatever its other bits, decodes to
  that immediate.\<close>

theorem imm_roundtrip:
  assumes "imm_ok t v" and "list_all (\<lambda>n. \<not> (imm_bits t n \<and> bit r n)) [0..<32]"
    and "decode_operand cfg (place_imm t v OR r) t st = Inr ops"
  shows "imm ops = v"
proof -
  have r: "n < 32 \<Longrightarrow> imm_bits t n \<Longrightarrow> \<not> bit r n" for n using assms(2) by (auto simp: list_all_iff)
  show ?thesis using assms(1,3) r
    by (cases t) (auto simp: decode_operand_def Let_def res_simps immI_place immS_place immB_place immU_place immJ_place imm_ok_def [of TYPE_R]
        imm_ok_def [of TYPE_CSR] imm_ok_def [of TYPE_CSR_IMM] imm_ok_def [of TYPE_N])
qed

section \<open>Traps\<close>

lemmas field_defs = quadrant_def major_def funct3_def funct7_def

lemma manual_ecall: "rv_manual 0x73 = ECALL"
  by (simp add: manual_unfold field_defs)

lemma manual_mret: "rv_manual 0x30200073 = MRET"
  by (simp add: manual_unfold field_defs)

lemma decode_exec_ecall:
  assumes "inst s = 0x73"
  shows "decode_exec cfg s st = Inr (s\<lparr>dnpc := csr (cpu st) CSR_mtvec\<rparr>,
    st\<lparr>cpu := (cpu st)\<lparr>gpr := (gpr (cpu st))(0 := 0), csr := (csr (cpu st))
      (CSR_mepc := s_pc s, CSR_mtval := s_pc s, CSR_mcause := ucast (priv_level (cpu st)) + 8)\<rparr>\<rparr>)"
  by (simp add: decode_exec_manual assms manual_ecall type_of_def decode_operand_def exec_body_def riscv_ecall_def
      isa_raise_intr_def csr_set_def csr_get_def check_csr_idx_def csr_idx R_set_0)

lemma decode_exec_mret:
  assumes "inst s = 0x30200073"
  shows "decode_exec cfg s st = Inr (s\<lparr>dnpc := csr (cpu st) CSR_mepc\<rparr>,
    st\<lparr>cpu := (cpu st)\<lparr>gpr := (gpr (cpu st))(0 := 0)\<rparr>\<rparr>)"
  by (simp add: decode_exec_manual assms manual_mret type_of_def decode_operand_def exec_body_def riscv_mret_def
      csr_get_def check_csr_idx_def csr_idx R_set_0)

text \<open>C4: the trap protocol.  \<open>ecall\<close> at \<open>pc\<close> enters the handler at \<open>mtvec\<close> with \<open>pc\<close> in \<open>mepc\<close> and the
  environment-call code of the current privilege level in \<open>mcause\<close>, and leaves the registers and memory alone; a
  handler that advances \<open>mepc\<close> by four and executes \<open>mret\<close> resumes behind the \<open>ecall\<close>.\<close>

theorem trap_roundtrip:
  assumes "inst s = 0x73" and "inst sr = 0x30200073" and "gpr (cpu st) 0 = 0"
  shows "\<exists>s1 st1. decode_exec cfg s st = Inr (s1, st1) \<and> dnpc s1 = csr (cpu st) CSR_mtvec \<and>
    csr (cpu st1) CSR_mepc = s_pc s \<and> csr (cpu st1) CSR_mcause = ucast (priv_level (cpu st)) + 8 \<and>
    gpr (cpu st1) = gpr (cpu st) \<and> memory st1 = memory st \<and>
    (csr (cpu str) CSR_mepc = csr (cpu st1) CSR_mepc + 4 \<longrightarrow>
      (\<exists>s3 st3. decode_exec cfg sr str = Inr (s3, st3) \<and> dnpc s3 = s_pc s + 4 \<and> memory st3 = memory str))"
  using assms(3) by (simp add: decode_exec_ecall[OF assms(1)] decode_exec_mret[OF assms(2)] csr_idx fun_upd_idem)

theorem trap_roundtrip_witness:
  "\<exists>s1 st1. decode_exec default_config \<lparr>s_pc = 0x80000010, snpc = 0x80000014, dnpc = 0, inst = 0x73\<rparr> nemu_boot = Inr (s1, st1) \<and>
    dnpc s1 = 0 \<and> csr (cpu st1) CSR_mepc = 0x80000010"
  using trap_roundtrip[where s = "\<lparr>s_pc = 0x80000010, snpc = 0x80000014, dnpc = 0, inst = 0x73\<rparr>"
      and sr = "\<lparr>s_pc = 0, snpc = 4, dnpc = 0, inst = 0x30200073\<rparr>" and st = nemu_boot and str = nemu_boot and cfg = default_config]
  by (auto simp: nemu_boot_def)

section \<open>Witnesses\<close>

text \<open>A taken \<open>beq x0, x0, +8\<close> and a store \<open>sb x0, 16(x5)\<close>.\<close>

lemma manual_examples: "rv_manual 0x00000463 = BEQ" "rv_manual 0x00028823 = SB"
  by (simp_all add: manual_unfold field_defs)

lemma beq_step:
  "decode_exec default_config \<lparr>s_pc = 0x80000000, snpc = 0x80000004, dnpc = 0, inst = 0x00000463\<rparr> nemu_boot =
    Inr (\<lparr>s_pc = 0x80000000, snpc = 0x80000004, dnpc = 0x80000008, inst = 0x00000463\<rparr>, nemu_boot)"
  by (simp add: decode_exec_manual manual_examples type_of_def decode_operand_def exec_body_def branch_def R_set_0 R_get_def
      check_reg_idx_def nr_gpr_def default_config_def unat_BITS immB_def BITS_def BITMASK_def SEXT_def nemu_boot_def Let_def fun_upd_idem)

lemma sb_step:
  "\<exists>st'. decode_exec default_config \<lparr>s_pc = 0x80000004, snpc = 0x80000008, dnpc = 0, inst = 0x00028823\<rparr>
     (nemu_boot\<lparr>cpu := (cpu nemu_boot)\<lparr>gpr := (\<lambda>_. 0)(5 := 0x80000000)\<rparr>\<rparr>) =
    Inr (\<lparr>s_pc = 0x80000004, snpc = 0x80000008, dnpc = 0x80000008, inst = 0x00028823\<rparr>, st')"
  by (simp add: decode_exec_manual manual_examples type_of_def decode_operand_def exec_body_def store_op_def Mw_def
      vaddr_write_def paddr_write_def pmem_write_def host_write_def guest_to_host_def in_pmem_def R_set_0 R_get_def
      check_reg_idx_def nr_gpr_def default_config_def unat_BITS immS_def BITS_def BITMASK_def SEXT_def nemu_boot_def Let_def)

lemmas eval_operand = type_of_def decode_operand_def R_get_def check_reg_idx_def nr_gpr_def default_config_def unat_BITS
  immB_def immS_def BITS_def BITMASK_def SEXT_def nemu_boot_def Let_def

theorem decode_branch_sound_witness:
  "\<exists>s' st'. decode_exec default_config \<lparr>s_pc = 0x80000000, snpc = 0x80000004, dnpc = 0, inst = 0x00000463\<rparr> nemu_boot = Inr (s', st') \<and>
    isa_decode_branch default_config 0x80000000 0x00000463 nemu_boot = Inr (Some (0x80000008, False, True)) \<and> dnpc s' = 0x80000008"
proof -
  have "isa_decode_branch default_config 0x80000000 0x00000463 nemu_boot = Inr (Some (0x80000008, False, True))"
    unfolding isa_decode_branch_def branch_select by (simp add: manual_examples branch_ops_def branch_result_def eval_operand)
  then show ?thesis using decode_branch_sound[OF beq_step] by (simp add: beq_step)
qed

theorem decode_ldstr_sound_witness:
  "\<exists>st' :: nemu. isa_decode_ldstr default_config 0x00028823 (nemu_boot\<lparr>cpu := (cpu nemu_boot)\<lparr>gpr := (\<lambda>_. 0)(5 := 0x80000000)\<rparr>\<rparr>) =
      Inr (Some (False, 0x80000010)) \<and> (\<exists>v. vaddr_write default_config 0x80000010 1 v (memory nemu_boot) = Inr (memory st'))"
proof -
  obtain st' where st': "decode_exec default_config \<lparr>s_pc = 0x80000004, snpc = 0x80000008, dnpc = 0, inst = 0x00028823\<rparr>
     (nemu_boot\<lparr>cpu := (cpu nemu_boot)\<lparr>gpr := (\<lambda>_. 0)(5 := 0x80000000)\<rparr>\<rparr>) =
    Inr (\<lparr>s_pc = 0x80000004, snpc = 0x80000008, dnpc = 0x80000008, inst = 0x00028823\<rparr>, st')" using sb_step by blast
  have "isa_decode_ldstr default_config 0x00028823 (nemu_boot\<lparr>cpu := (cpu nemu_boot)\<lparr>gpr := (\<lambda>_. 0)(5 := 0x80000000)\<rparr>\<rparr>) =
      Inr (Some (False, 0x80000010))"
    unfolding isa_decode_ldstr_def ldstr_select by (simp add: manual_examples ldstr_entry_def load_ops_def store_ops_def eval_operand)
  then show ?thesis using decode_ldstr_sound[OF st'] by - (rule exI[of _ st'], simp add: manual_examples access_size_def)
qed

theorem imm_roundtrip_witness:
  "\<exists>ops. decode_operand default_config (place_imm TYPE_J (- 8) OR 0x6f) TYPE_J nemu_boot = Inr ops \<and> imm ops = - 8"
proof -
  obtain ops where d: "decode_operand default_config (place_imm TYPE_J (- 8) OR 0x6f) TYPE_J nemu_boot = Inr ops"
    by (simp add: decode_operand_def Let_def)
  moreover have "imm ops = - 8"
    by (rule imm_roundtrip[OF _ _ d]) (simp_all add: imm_ok_def imm_bits_def upt_rec)
  ultimately show ?thesis by blast
qed

end
