(* ===== verification/Sdb_Expr.thy ===== *)
theory Sdb_Expr
  imports Riscv
begin

text \<open>
  The expression evaluator of the debugger (\<open>nemu/src/monitor/sdb/expr.c\<close>): the lexical rules and the
  tokenizer, the disambiguation of unary operators, the search for the dominant operator, evaluation and
  the syntax check.

  The token array is a list and a range \<open>p..q\<close> of it is the list of its tokens; \<open>p > q\<close> is the empty list.
  The result \<open>None\<close> of the evaluator is \<open>*success = false\<close>.  Evaluation may read a device, so it returns
  the state as well.
\<close>

section \<open>Token types\<close>

datatype token_type =
    TK_NOTYPE | TK_NUM | TK_REG | TK_BINARY_OP_BEGIN | TK_EQ | TK_NE | TK_LE | TK_LT | TK_GE | TK_GT
  | TK_ADD | TK_SUB | TK_MUL | TK_DIV | TK_REM | TK_AND | TK_OR | TK_XOR | TK_SHL | TK_LSHR | TK_ASHR
  | TK_LAND | TK_LOR | TK_BINARY_OP_END | TK_UNARY_BEGIN | TK_UNARY_NOT | TK_UNARY_LNOT
  | TK_UNARY_MINUS | TK_UNARY_DEREF | TK_UNARY_END | TK_LPAR | TK_RPAR

text \<open>The order of the enumeration; the range markers are compared with it.\<close>

definition tk_pos :: "token_type \<Rightarrow> nat" where
  "tk_pos t = (case t of
     TK_NOTYPE \<Rightarrow> 0 | TK_NUM \<Rightarrow> 1 | TK_REG \<Rightarrow> 2 | TK_BINARY_OP_BEGIN \<Rightarrow>
     3 | TK_EQ \<Rightarrow> 4 | TK_NE \<Rightarrow> 5 | TK_LE \<Rightarrow> 6 | TK_LT \<Rightarrow> 7 | TK_GE
     \<Rightarrow> 8 | TK_GT \<Rightarrow> 9 | TK_ADD \<Rightarrow> 10 | TK_SUB \<Rightarrow> 11 | TK_MUL
     \<Rightarrow> 12 | TK_DIV \<Rightarrow> 13 | TK_REM \<Rightarrow> 14 | TK_AND \<Rightarrow> 15 | TK_OR
     \<Rightarrow> 16 | TK_XOR \<Rightarrow> 17 | TK_SHL \<Rightarrow> 18 | TK_LSHR \<Rightarrow> 19 | TK_ASHR
     \<Rightarrow> 20 | TK_LAND \<Rightarrow> 21 | TK_LOR \<Rightarrow> 22 | TK_BINARY_OP_END \<Rightarrow> 23 |
     TK_UNARY_BEGIN \<Rightarrow> 24 | TK_UNARY_NOT \<Rightarrow> 25 | TK_UNARY_LNOT \<Rightarrow> 26 |
     TK_UNARY_MINUS \<Rightarrow> 27 | TK_UNARY_DEREF \<Rightarrow> 28 | TK_UNARY_END \<Rightarrow> 29 | TK_LPAR
     \<Rightarrow> 30 | TK_RPAR \<Rightarrow> 31)"

lemma tk_pos_inject: "tk_pos t = tk_pos u \<Longrightarrow> t = u"
  by (cases t; simp add: tk_pos_def split: token_type.splits)

instantiation token_type :: linorder
begin

definition less_eq_token_type :: "token_type \<Rightarrow> token_type \<Rightarrow> bool" where
  "less_eq_token_type t u \<longleftrightarrow> tk_pos t \<le> tk_pos u"

definition less_token_type :: "token_type \<Rightarrow> token_type \<Rightarrow> bool" where
  "less_token_type t u \<longleftrightarrow> tk_pos t < tk_pos u"

instance
  by standard (auto simp: less_eq_token_type_def less_token_type_def dest: tk_pos_inject)

end

definition is_binary_token :: "token_type \<Rightarrow> bool" where
  "is_binary_token i \<longleftrightarrow> i > TK_BINARY_OP_BEGIN \<and> i < TK_BINARY_OP_END"

definition is_unary_token :: "token_type \<Rightarrow> bool" where
  "is_unary_token i \<longleftrightarrow> i > TK_UNARY_BEGIN \<and> i < TK_UNARY_END"

section \<open>Lexical rules\<close>

text \<open>The rules are concatenations of character classes, taken once, repeatedly or optionally.  In each of
  them neighbouring classes are disjoint, so the longest match, which \<open>regexec\<close> returns, is the greedy one.\<close>

datatype mult = One | Plus | Opt

type_synonym regex = "((char \<Rightarrow> bool) \<times> mult) list"

fun match_len :: "regex \<Rightarrow> string \<Rightarrow> nat option" where
  "match_len [] s = Some 0"
| "match_len ((p, One) # r) s =
     (case s of [] \<Rightarrow> None | c # s' \<Rightarrow> if p c then map_option Suc (match_len r s') else None)"
| "match_len ((p, Plus) # r) s = (let n = length (takeWhile p s) in
     if n = 0 then None else map_option (\<lambda>m. n + m) (match_len r (drop n s)))"
| "match_len ((p, Opt) # r) s =
     (case s of [] \<Rightarrow> match_len r s | c # s' \<Rightarrow> if p c then map_option Suc (match_len r s') else match_len r s)"

definition lit :: "string \<Rightarrow> regex" where
  "lit s = map (\<lambda>c. ((\<lambda>x. x = c), One)) s"

definition in_chars :: "string \<Rightarrow> char \<Rightarrow> bool" where
  "in_chars cs c \<longleftrightarrow> c \<in> set cs"

definition is_ident :: "char \<Rightarrow> bool" where
  "is_ident c \<longleftrightarrow> is_digit 36 c \<or> c = CHR ''_''"

definition re_blank :: regex where "re_blank = [(in_chars [CHR '' '', CHR 0x09, CHR 0x0A], Plus)]"
definition re_hex :: regex where
  "re_hex = [(in_chars ''0'', One), (in_chars ''xX'', One), (is_digit 16, Plus), (in_chars ''uU'', Opt)]"
definition re_dec :: regex where "re_dec = [(is_digit 10, Plus), (in_chars ''uU'', Opt)]"
definition re_reg :: regex where "re_reg = [(in_chars ''$'', One), (is_ident, Plus)]"

definition rules :: "(regex \<times> token_type) list" where
  "rules = [(re_blank, TK_NOTYPE),
     (lit ''&&'', TK_LAND), (lit ''||'', TK_LOR),
     (lit ''>>>'', TK_ASHR), (lit ''>>'', TK_LSHR), (lit ''<<'', TK_SHL),
     (lit ''=='', TK_EQ), (lit ''!='', TK_NE), (lit ''<='', TK_LE), (lit ''>='', TK_GE), (lit ''<'', TK_LT), (lit ''>'', TK_GT),
     (lit ''!'', TK_UNARY_LNOT), (lit ''~'', TK_UNARY_NOT), (lit ''&'', TK_AND), (lit ''|'', TK_OR), (lit ''^'', TK_XOR),
     (lit ''+'', TK_ADD), (lit ''-'', TK_SUB), (lit ''*'', TK_MUL), (lit ''/'', TK_DIV), (lit ''%'', TK_REM),
     (lit ''('', TK_LPAR), (lit '')'', TK_RPAR),
     (re_hex, TK_NUM), (re_dec, TK_NUM), (re_reg, TK_REG)]"

record Token =
  t_type :: token_type
  t_str :: "string option"

fun first_rule :: "(regex \<times> token_type) list \<Rightarrow> string \<Rightarrow> (nat \<times> token_type) option" where
  "first_rule [] e = None"
| "first_rule ((r, t) # rs) e = (case match_len r e of Some n \<Rightarrow> Some (n, t) | None \<Rightarrow> first_rule rs e)"

text \<open>Every rule consumes a character, so the tokenizer makes progress.\<close>

lemma match_len_pos: "m = One \<or> m = Plus \<Longrightarrow> match_len ((p, m) # r) s = Some n \<Longrightarrow> 0 < n"
  by (auto simp: Let_def split: list.splits if_splits)

lemma first_rule_pos:
  "first_rule rs e = Some (n, t) \<Longrightarrow> list_all (\<lambda>(r, t). \<exists>p m r'. r = (p, m) # r' \<and> m \<noteq> Opt) rs \<Longrightarrow> 0 < n"
proof (induction rs)
  case (Cons x rs)
  then show ?case
    by (cases x) (auto split: option.splits dest: match_len_pos[rotated] simp del: match_len.simps intro: mult.exhaust)
qed simp

lemma rules_progress: "first_rule rules e = Some (n, t) \<Longrightarrow> 0 < n"
  by (erule first_rule_pos) (simp add: rules_def lit_def re_blank_def re_hex_def re_dec_def re_reg_def)

text \<open>\<open>None\<close> is the syntax error.  The growth of the array by doubling is not observable.\<close>

function make_token :: "string \<Rightarrow> Token list option" where
  "make_token e = (if e = [] then Some [] else case first_rule rules e of
     None \<Rightarrow> None
   | Some (n, t) \<Rightarrow>
       if t = TK_NOTYPE then make_token (drop n e)
       else map_option (Cons \<lparr>t_type = t, t_str = (if t = TK_NUM \<or> t = TK_REG then Some (take n e) else None)\<rparr>)
              (make_token (drop n e)))"
  by pat_completeness auto
termination
  by (relation "measure length") (auto dest: rules_progress)

declare make_token.simps [simp del]

section \<open>Unary operators\<close>

definition expecting_an_expr :: "token_type \<Rightarrow> bool" where
  "expecting_an_expr i \<longleftrightarrow> is_binary_token i \<or> is_unary_token i \<or> i = TK_LPAR"

definition has_unary :: "token_type \<Rightarrow> bool" where
  "has_unary i \<longleftrightarrow> i = TK_MUL \<or> i = TK_SUB"

definition to_unary :: "token_type \<Rightarrow> token_type" where
  "to_unary i = (if i = TK_MUL then TK_UNARY_DEREF else TK_UNARY_MINUS)"

text \<open>The loop carries the type of the previous token, as already rewritten; \<open>None\<close> at the start.\<close>

fun match_unary_loop :: "token_type option \<Rightarrow> Token list \<Rightarrow> Token list" where
  "match_unary_loop prev [] = []"
| "match_unary_loop prev (t # ts) = (let
     t' = (if has_unary (t_type t) \<and> (case prev of None \<Rightarrow> True | Some p \<Rightarrow> expecting_an_expr p)
           then t\<lparr>t_type := to_unary (t_type t)\<rparr> else t)
   in t' # match_unary_loop (Some (t_type t')) ts)"

definition match_unary_tokens :: "Token list \<Rightarrow> Token list" where
  "match_unary_tokens ts = match_unary_loop None ts"

section \<open>Structure of a range\<close>

text \<open>The result and \<open>*invalid_expr\<close>.\<close>

fun paren_loop :: "int \<Rightarrow> Token list \<Rightarrow> bool \<times> bool" where
  "paren_loop cnt [] = (cnt = 0, False)"
| "paren_loop cnt (t # ts) =
     (if t_type t = TK_LPAR then paren_loop (cnt + 1) ts
      else if t_type t = TK_RPAR then
        (if cnt - 1 = 0 \<and> ts \<noteq> [] then (False, False)
         else if cnt - 1 < 0 then (False, True)
         else paren_loop (cnt - 1) ts)
      else paren_loop cnt ts)"

definition check_parentheses :: "Token list \<Rightarrow> bool \<times> bool" where
  "check_parentheses ts =
     (if t_type (hd ts) \<noteq> TK_LPAR \<or> t_type (last ts) \<noteq> TK_RPAR then (False, False) else paren_loop 0 ts)"

definition get_precedence :: "token_type \<Rightarrow> int res" where
  "get_precedence i =
     (if i \<in> {TK_UNARY_NOT, TK_UNARY_LNOT, TK_UNARY_MINUS, TK_UNARY_DEREF} then Inr 100
      else if i \<in> {TK_MUL, TK_DIV, TK_REM} then Inr 90
      else if i \<in> {TK_ADD, TK_SUB} then Inr 80
      else if i \<in> {TK_SHL, TK_LSHR, TK_ASHR} then Inr 70
      else if i \<in> {TK_LE, TK_GE, TK_LT, TK_GT} then Inr 60
      else if i \<in> {TK_EQ, TK_NE} then Inr 50
      else if i = TK_AND then Inr 40
      else if i = TK_XOR then Inr 30
      else if i = TK_OR then Inr 20
      else if i = TK_LAND then Inr 10
      else if i = TK_LOR then Inr 0
      else Inl (Panic ''unexpected token''))"

definition INT_MAX :: int where "INT_MAX = 2 ^ 31 - 1"

fun dominant_loop :: "nat \<Rightarrow> int \<Rightarrow> nat option \<Rightarrow> int \<Rightarrow> Token list \<Rightarrow> nat option res" where
  "dominant_loop i min_prec idx paren [] = Inr idx"
| "dominant_loop i min_prec idx paren (t # ts) =
     (if t_type t = TK_LPAR then dominant_loop (Suc i) min_prec idx (paren + 1) ts
      else if t_type t = TK_RPAR then dominant_loop (Suc i) min_prec idx (paren - 1) ts
      else if paren > 0 then dominant_loop (Suc i) min_prec idx paren ts
      else if is_binary_token (t_type t) \<or> is_unary_token (t_type t) then
        bind_res (get_precedence (t_type t)) (\<lambda>prec.
          if prec \<le> min_prec then dominant_loop (Suc i) prec (Some i) paren ts
          else dominant_loop (Suc i) min_prec idx paren ts)
      else dominant_loop (Suc i) min_prec idx paren ts)"

definition find_dominant_operator :: "Token list \<Rightarrow> nat option res" where
  "find_dominant_operator ts = dominant_loop 0 INT_MAX None 0 ts"

lemma dominant_loop_range:
  "dominant_loop i m idx paren ts = Inr (Some k) \<Longrightarrow> idx = Some k \<or> (i \<le> k \<and> k < i + length ts)"
  by (induction ts arbitrary: i m idx paren) (fastforce simp: res_simps split: if_splits)+

lemma find_dominant_range: "find_dominant_operator ts = Inr (Some k) \<Longrightarrow> k < length ts"
  by (auto simp: find_dominant_operator_def dest: dominant_loop_range)

section \<open>Evaluation\<close>

definition of_truth :: "bool \<Rightarrow> u32" where
  "of_truth b = (if b then 1 else 0)"

definition eval_num :: "string \<Rightarrow> u32 option" where
  "eval_num s = (let base16 = (hd s = CHR ''0'' \<and> length s > 1 \<and> (s ! 1 = CHR ''x'' \<or> s ! 1 = CHR ''X'')) in
     map_option (\<lambda>(v, _). word_of_int v) (strtol (if base16 then 16 else 10) s))"

definition eval_leaf :: "config \<Rightarrow> Token \<Rightarrow> nemu \<Rightarrow> u32 option res" where
  "eval_leaf cfg t st = (case t_str t of
     None \<Rightarrow> Inr None
   | Some s \<Rightarrow>
       if t_type t = TK_NUM then Inr (eval_num s)
       else if t_type t = TK_REG then bind_res (isa_reg_str2val cfg (tl s) st) (\<lambda>r. case r of
         Some v \<Rightarrow> Inr (Some v)
       | None \<Rightarrow> isa_csr_str2val cfg (tl s) st)
       else Inr None)"

definition eval_unary :: "config \<Rightarrow> token_type \<Rightarrow> u32 \<Rightarrow> nemu \<Rightarrow> (u32 option \<times> nemu) res" where
  "eval_unary cfg op val st =
     (if op = TK_UNARY_NOT then Inr (Some (NOT val), st)
      else if op = TK_UNARY_LNOT then Inr (Some (of_truth (val = 0)), st)
      else if op = TK_UNARY_MINUS then Inr (Some (ucast (- (ucast val :: u64))), st)
      else if op = TK_UNARY_DEREF then bind_res (Mr cfg val 4 st) (\<lambda>(v, st). Inr (Some v, st))
      else Inl (Panic ''unexpected unary operator''))"

text \<open>A shift by the word size or more is undefined; the code does not guard against it.\<close>

definition eval_shift :: "u32 \<Rightarrow> u32 \<Rightarrow> u32 option res" where
  "eval_shift n v = (if n < 32 then Inr (Some v) else Inl (Undefined ''shift count''))"

definition eval_binary :: "token_type \<Rightarrow> u32 \<Rightarrow> u32 \<Rightarrow> u32 option res" where
  "eval_binary op a b =
     (if op = TK_EQ then Inr (Some (of_truth (a = b)))
      else if op = TK_NE then Inr (Some (of_truth (a \<noteq> b)))
      else if op = TK_LE then Inr (Some (of_truth (a \<le> b)))
      else if op = TK_LT then Inr (Some (of_truth (a < b)))
      else if op = TK_GE then Inr (Some (of_truth (a \<ge> b)))
      else if op = TK_GT then Inr (Some (of_truth (a > b)))
      else if op = TK_ADD then Inr (Some (a + b))
      else if op = TK_SUB then Inr (Some (a - b))
      else if op = TK_MUL then Inr (Some (a * b))
      else if op = TK_AND then Inr (Some (a AND b))
      else if op = TK_OR then Inr (Some (a OR b))
      else if op = TK_XOR then Inr (Some (a XOR b))
      else if op = TK_SHL then eval_shift b (push_bit (unat b) a)
      else if op = TK_LSHR then eval_shift b (drop_bit (unat b) a)
      else if op = TK_LAND then Inr (Some (of_truth (a \<noteq> 0 \<and> b \<noteq> 0)))
      else if op = TK_LOR then Inr (Some (of_truth (a \<noteq> 0 \<or> b \<noteq> 0)))
      else if op = TK_ASHR then eval_shift b (signed_drop_bit (unat b) a)
      else if op = TK_DIV then Inr (if b = 0 then None else Some (a div b))
      else if op = TK_REM then Inr (if b = 0 then None else Some (a mod b))
      else Inl (Panic ''unexpected binary operator''))"

function eval :: "config \<Rightarrow> Token list \<Rightarrow> nemu \<Rightarrow> (u32 option \<times> nemu) res" where
  "eval cfg ts st =
     (if ts = [] then Inr (None, st)
      else if length ts = 1 then bind_res (eval_leaf cfg (hd ts) st) (\<lambda>v. Inr (v, st))
      else case check_parentheses ts of
        (True, _) \<Rightarrow> eval cfg (butlast (tl ts)) st
      | (False, True) \<Rightarrow> Inr (None, st)
      | (False, False) \<Rightarrow> bind_res (find_dominant_operator ts) (\<lambda>dom. case dom of
          None \<Rightarrow> Inr (None, st)
        | Some op \<Rightarrow>
            if is_unary_token (t_type (ts ! op)) then
              bind_res (eval cfg (drop (Suc op) ts) st) (\<lambda>(v, st). case v of
                None \<Rightarrow> Inr (None, st)
              | Some val \<Rightarrow> eval_unary cfg (t_type (ts ! op)) val st)
            else if \<not> is_binary_token (t_type (ts ! op)) then Inl (Assert_fail ''Bad find_dominant_operator'')
            else
              bind_res (eval cfg (take op ts) st) (\<lambda>(v1, st). case v1 of
                None \<Rightarrow> Inr (None, st)
              | Some val1 \<Rightarrow> bind_res (eval cfg (drop (Suc op) ts) st) (\<lambda>(v2, st). case v2 of
                  None \<Rightarrow> Inr (None, st)
                | Some val2 \<Rightarrow> bind_res (eval_binary (t_type (ts ! op)) val1 val2) (\<lambda>v. Inr (v, st))))))"
  by pat_completeness auto
termination
  by (relation "measure (\<lambda>(cfg, ts, st). length ts)") (auto dest: find_dominant_range)

declare eval.simps [simp del]

definition expr :: "config \<Rightarrow> string \<Rightarrow> nemu \<Rightarrow> (u32 option \<times> nemu) res" where
  "expr cfg e st = (case make_token e of
     None \<Rightarrow> Inr (None, st)
   | Some ts \<Rightarrow> eval cfg (match_unary_tokens ts) st)"

function syntax_check_impl :: "Token list \<Rightarrow> bool res" where
  "syntax_check_impl ts =
     (if ts = [] then Inr False
      else if length ts = 1 then Inr True
      else case check_parentheses ts of
        (True, _) \<Rightarrow> syntax_check_impl (butlast (tl ts))
      | (False, True) \<Rightarrow> Inr False
      | (False, False) \<Rightarrow> bind_res (find_dominant_operator ts) (\<lambda>dom. case dom of
          None \<Rightarrow> Inr False
        | Some op \<Rightarrow>
            if is_unary_token (t_type (ts ! op)) then syntax_check_impl (drop (Suc op) ts)
            else bind_res (syntax_check_impl (take op ts)) (\<lambda>b.
              if b then syntax_check_impl (drop (Suc op) ts) else Inr False)))"
  by pat_completeness auto
termination
  by (relation "measure length") (auto dest: find_dominant_range)

declare syntax_check_impl.simps [simp del]

definition syntax_check :: "string \<Rightarrow> bool res" where
  "syntax_check e = (case make_token e of
     None \<Rightarrow> Inr False
   | Some ts \<Rightarrow> syntax_check_impl (match_unary_tokens ts))"

end
