(* ===== verification/Sdb_Expr_Proofs.thy ===== *)
theory Sdb_Expr_Proofs
  imports Sdb_Expr
begin

text \<open>
  The evaluator against the expressions of C: their operators with their meaning on integers, their levels of
  precedence, and the text with the fewest parentheses, none of which refers to the evaluator.  Evaluating the text of
  an expression gives its value.  The proof goes over trees of the evaluator's own tokens.
\<close>

section \<open>Expressions of C\<close>

datatype c_unop = C_not | C_lnot | C_neg | C_deref

datatype c_binop = C_mul | C_div | C_rem | C_add | C_sub | C_shl | C_shr | C_sar | C_lt | C_gt | C_le | C_ge | C_eq | C_ne
  | C_and | C_xor | C_or | C_land | C_lor

text \<open>A number is written in base 16 or 10, with or without the suffix \<open>u\<close>; a general purpose register by its
  ABI name; any other name is left to the register tables of the ISA.\<close>

datatype c_expr = C_num bool bool nat | C_reg nat | C_pc | C_name string | C_un c_unop c_expr | C_bin c_binop c_expr c_expr

text \<open>The meaning of the operators: modulo \<open>2\<^sup>3\<^sup>2\<close>, unsigned but for the arithmetic shift.  Division by zero
  has no value; a shift by 32 or more is undefined.  Both operands of \<open>&&\<close> and \<open>||\<close> are evaluated.\<close>

definition c_shift :: "u32 \<Rightarrow> int \<Rightarrow> u32 option res" where
  "c_shift n v = (if uint n < 32 then Inr (Some (word_of_int v)) else Inl (Undefined ''shift count''))"

definition c_bool :: "bool \<Rightarrow> u32 option res" where
  "c_bool b = Inr (Some (if b then 1 else 0))"

fun c_binary :: "c_binop \<Rightarrow> u32 \<Rightarrow> u32 \<Rightarrow> u32 option res" where
  "c_binary C_mul x y = Inr (Some (word_of_int (uint x * uint y)))"
| "c_binary C_div x y = Inr (if y = 0 then None else Some (word_of_int (uint x div uint y)))"
| "c_binary C_rem x y = Inr (if y = 0 then None else Some (word_of_int (uint x mod uint y)))"
| "c_binary C_add x y = Inr (Some (word_of_int (uint x + uint y)))"
| "c_binary C_sub x y = Inr (Some (word_of_int (uint x - uint y)))"
| "c_binary C_shl x y = c_shift y (uint x * 2 ^ unat y)"
| "c_binary C_shr x y = c_shift y (uint x div 2 ^ unat y)"
| "c_binary C_sar x y = c_shift y (sint x div 2 ^ unat y)"
| "c_binary C_lt x y = c_bool (uint x < uint y)"
| "c_binary C_gt x y = c_bool (uint x > uint y)"
| "c_binary C_le x y = c_bool (uint x \<le> uint y)"
| "c_binary C_ge x y = c_bool (uint x \<ge> uint y)"
| "c_binary C_eq x y = c_bool (uint x = uint y)"
| "c_binary C_ne x y = c_bool (uint x \<noteq> uint y)"
| "c_binary C_and x y = Inr (Some (word_of_int (uint x AND uint y)))"
| "c_binary C_xor x y = Inr (Some (word_of_int (uint x XOR uint y)))"
| "c_binary C_or x y = Inr (Some (word_of_int (uint x OR uint y)))"
| "c_binary C_land x y = c_bool (uint x \<noteq> 0 \<and> uint y \<noteq> 0)"
| "c_binary C_lor x y = c_bool (uint x \<noteq> 0 \<or> uint y \<noteq> 0)"

fun c_unary :: "config \<Rightarrow> c_unop \<Rightarrow> u32 \<Rightarrow> nemu \<Rightarrow> (u32 option \<times> nemu) res" where
  "c_unary cfg C_not x st = Inr (Some (word_of_int (- uint x - 1)), st)"
| "c_unary cfg C_lnot x st = Inr (Some (if uint x = 0 then 1 else 0), st)"
| "c_unary cfg C_neg x st = Inr (Some (word_of_int (- uint x)), st)"
| "c_unary cfg C_deref x st = bind_res (vaddr_read cfg x 4 (memory st)) (\<lambda>(v, m). Inr (Some v, st\<lparr>memory := m\<rparr>))"

fun c_value :: "config \<Rightarrow> c_expr \<Rightarrow> nemu \<Rightarrow> (u32 option \<times> nemu) res" where
  "c_value cfg (C_num hex u n) st = Inr (Some (word_of_int (int n)), st)"
| "c_value cfg (C_reg i) st = Inr (Some (gpr (cpu st) i), st)"
| "c_value cfg C_pc st = Inr (Some (cpu_pc (cpu st)), st)"
| "c_value cfg (C_name s) st = bind_res (isa_reg_str2val cfg s st) (\<lambda>r. case r of Some v \<Rightarrow> Inr (Some v, st)
     | None \<Rightarrow> bind_res (isa_csr_str2val cfg s st) (\<lambda>v. Inr (v, st)))"
| "c_value cfg (C_un op e) st = bind_res (c_value cfg e st) (\<lambda>(v, st). case v of
     None \<Rightarrow> Inr (None, st) | Some x \<Rightarrow> c_unary cfg op x st)"
| "c_value cfg (C_bin op a b) st = bind_res (c_value cfg a st) (\<lambda>(v, st). case v of
     None \<Rightarrow> Inr (None, st)
   | Some x \<Rightarrow> bind_res (c_value cfg b st) (\<lambda>(w, st). case w of
       None \<Rightarrow> Inr (None, st) | Some y \<Rightarrow> bind_res (c_binary op x y) (\<lambda>v. Inr (v, st))))"

text \<open>The levels of precedence, from \<open>||\<close> up to the atoms, and the text: a left operand of a lower level and a
  right operand of the same or a lower level stand in parentheses, and so does every operand of a prefix operator that
  is not an atom.  A blank ends each token.\<close>

fun c_level :: "c_binop \<Rightarrow> nat" where
  "c_level C_lor = 1" | "c_level C_land = 2" | "c_level C_or = 3" | "c_level C_xor = 4" | "c_level C_and = 5"
| "c_level C_eq = 6" | "c_level C_ne = 6"
| "c_level C_lt = 7" | "c_level C_gt = 7" | "c_level C_le = 7" | "c_level C_ge = 7"
| "c_level C_shl = 8" | "c_level C_shr = 8" | "c_level C_sar = 8"
| "c_level C_add = 9" | "c_level C_sub = 9"
| "c_level C_mul = 10" | "c_level C_div = 10" | "c_level C_rem = 10"

fun c_expr_level :: "c_expr \<Rightarrow> nat" where
  "c_expr_level (C_bin op a b) = c_level op"
| "c_expr_level (C_un op e) = 11"
| "c_expr_level e = 12"

fun c_binary_text :: "c_binop \<Rightarrow> string" where
  "c_binary_text C_lor = ''||''" | "c_binary_text C_land = ''&&''" | "c_binary_text C_or = ''|''" | "c_binary_text C_xor = ''^''"
| "c_binary_text C_and = ''&''" | "c_binary_text C_eq = ''==''" | "c_binary_text C_ne = ''!=''"
| "c_binary_text C_lt = ''<''" | "c_binary_text C_gt = ''>''" | "c_binary_text C_le = ''<=''" | "c_binary_text C_ge = ''>=''"
| "c_binary_text C_shl = ''<<''" | "c_binary_text C_shr = ''>>''" | "c_binary_text C_sar = ''>>>''"
| "c_binary_text C_add = ''+''" | "c_binary_text C_sub = ''-''"
| "c_binary_text C_mul = ''*''" | "c_binary_text C_div = ''/''" | "c_binary_text C_rem = ''%''"

fun c_unary_text :: "c_unop \<Rightarrow> string" where
  "c_unary_text C_not = ''~''" | "c_unary_text C_lnot = ''!''" | "c_unary_text C_neg = ''-''" | "c_unary_text C_deref = ''*''"

definition abi_names :: "string list" where
  "abi_names = [''zero'', ''ra'', ''sp'', ''gp'', ''tp'', ''t0'', ''t1'', ''t2'', ''s0'', ''s1'',
     ''a0'', ''a1'', ''a2'', ''a3'', ''a4'', ''a5'', ''a6'', ''a7'',
     ''s2'', ''s3'', ''s4'', ''s5'', ''s6'', ''s7'', ''s8'', ''s9'', ''s10'', ''s11'', ''t3'', ''t4'', ''t5'', ''t6'']"

fun numeral_text :: "nat \<Rightarrow> nat \<Rightarrow> string" where
  "numeral_text b n = (if n < b \<or> b < 2 then [''0123456789abcdef'' ! (n mod 16)]
     else numeral_text b (n div b) @ [''0123456789abcdef'' ! (n mod b)])"

declare numeral_text.simps [simp del]

definition in_parens :: "bool \<Rightarrow> string \<Rightarrow> string" where
  "in_parens b s = (if b then ''( '' @ s @ '') '' else s)"

fun c_text :: "c_expr \<Rightarrow> string" where
  "c_text (C_num hex u n) = (if hex then ''0x'' @ numeral_text 16 n else numeral_text 10 n) @ (if u then ''u'' else []) @ '' ''"
| "c_text (C_reg i) = ''$'' @ abi_names ! i @ '' ''"
| "c_text C_pc = ''$pc ''"
| "c_text (C_name s) = ''$'' @ s @ '' ''"
| "c_text (C_un op e) = c_unary_text op @ '' '' @ in_parens (c_expr_level e < 12) (c_text e)"
| "c_text (C_bin op a b) = in_parens (c_expr_level a < c_level op) (c_text a) @ c_binary_text op @ '' '' @
     in_parens (c_expr_level b \<le> c_level op) (c_text b)"

text \<open>Numbers fit a \<open>long\<close>; a register exists; a name is one or more letters, digits and underscores.\<close>

fun c_ok :: "config \<Rightarrow> c_expr \<Rightarrow> bool" where
  "c_ok cfg (C_num hex u n) = (n < 2 ^ 63)"
| "c_ok cfg (C_reg i) = (i < (if CONFIG_RVE cfg then 16 else 32))"
| "c_ok cfg C_pc = True"
| "c_ok cfg (C_name s) = (s \<noteq> [] \<and> list_all (\<lambda>c. c \<in> set ''0123456789ABCDEFGHIJKLMNOPQRSTUVWXYZabcdefghijklmnopqrstuvwxyz_'') s)"
| "c_ok cfg (C_un op e) = c_ok cfg e"
| "c_ok cfg (C_bin op a b) = (c_ok cfg a \<and> c_ok cfg b)"

section \<open>Expression trees\<close>

datatype ast = Lit string | RegRef string | Unop token_type ast | Binop token_type ast ast

definition number_ok :: "string \<Rightarrow> bool" where
  "number_ok s \<longleftrightarrow> match_len re_hex s = Some (length s) \<or> (match_len re_hex s = None \<and> match_len re_dec s = Some (length s))"

definition reg_ok :: "string \<Rightarrow> bool" where
  "reg_ok s \<longleftrightarrow> match_len re_reg s = Some (length s)"

fun ast_ok :: "ast \<Rightarrow> bool" where
  "ast_ok (Lit s) = number_ok s"
| "ast_ok (RegRef s) = reg_ok s"
| "ast_ok (Unop op e) = (is_unary_token op \<and> ast_ok e)"
| "ast_ok (Binop op a b) = (is_binary_token op \<and> ast_ok a \<and> ast_ok b)"

text \<open>The value of a tree: operands from left to right, the first failure ends the evaluation.\<close>

fun aval :: "config \<Rightarrow> ast \<Rightarrow> nemu \<Rightarrow> (u32 option \<times> nemu) res" where
  "aval cfg (Lit s) st = Inr (eval_num s, st)"
| "aval cfg (RegRef s) st = bind_res (eval_leaf cfg \<lparr>t_type = TK_REG, t_str = Some s\<rparr> st) (\<lambda>v. Inr (v, st))"
| "aval cfg (Unop op e) st = bind_res (aval cfg e st) (\<lambda>(v, st). case v of
     None \<Rightarrow> Inr (None, st) | Some x \<Rightarrow> eval_unary cfg op x st)"
| "aval cfg (Binop op a b) st = bind_res (aval cfg a st) (\<lambda>(v, st). case v of
     None \<Rightarrow> Inr (None, st)
   | Some x \<Rightarrow> bind_res (aval cfg b st) (\<lambda>(w, st). case w of
       None \<Rightarrow> Inr (None, st) | Some y \<Rightarrow> bind_res (eval_binary op x y) (\<lambda>v. Inr (v, st))))"

section \<open>The printed form\<close>

definition prec :: "token_type \<Rightarrow> int" where
  "prec op = (case get_precedence op of Inr n \<Rightarrow> n | Inl _ \<Rightarrow> 0)"

fun ast_prec :: "ast \<Rightarrow> int" where
  "ast_prec (Unop op e) = 100"
| "ast_prec (Binop op a b) = prec op"
| "ast_prec e = 101"

abbreviation tok :: "token_type \<Rightarrow> Token" where
  "tok t \<equiv> \<lparr>t_type = t, t_str = None\<rparr>"

definition paren :: "bool \<Rightarrow> Token list \<Rightarrow> Token list" where
  "paren b ts = (if b then tok TK_LPAR # ts @ [tok TK_RPAR] else ts)"

text \<open>Left operands of the same precedence and right operands of a higher one need no parentheses; the
  operand of a unary operator is an atom or parenthesised.\<close>

fun toks :: "ast \<Rightarrow> Token list" where
  "toks (Lit s) = [\<lparr>t_type = TK_NUM, t_str = Some s\<rparr>]"
| "toks (RegRef s) = [\<lparr>t_type = TK_REG, t_str = Some s\<rparr>]"
| "toks (Unop op e) = tok op # paren (ast_prec e < 101) (toks e)"
| "toks (Binop op a b) = paren (ast_prec a < prec op) (toks a) @ tok op # paren (ast_prec b < prec op + 1) (toks b)"

section \<open>Classification of tokens\<close>

lemmas token_class = is_binary_token_def is_unary_token_def less_token_type_def tk_pos_def

lemma unary_cases:
  assumes "is_unary_token op"
  obtains "op = TK_UNARY_NOT" | "op = TK_UNARY_LNOT" | "op = TK_UNARY_MINUS" | "op = TK_UNARY_DEREF"
  using assms by (cases op) (simp_all add: token_class)

lemma get_precedence_unary: "is_unary_token op \<Longrightarrow> get_precedence op = Inr 100"
  by (erule unary_cases) (simp_all add: get_precedence_def)

lemma get_precedence_binary: "is_binary_token op \<Longrightarrow> get_precedence op = Inr (prec op) \<and> prec op \<le> 90"
  by (cases op) (simp_all add: token_class get_precedence_def prec_def)

lemma operator_not_paren:
  "is_unary_token op \<or> is_binary_token op \<Longrightarrow> op \<noteq> TK_LPAR \<and> op \<noteq> TK_RPAR"
  by (cases op) (simp_all add: token_class)

lemma binary_not_unary: "is_binary_token op \<Longrightarrow> \<not> is_unary_token op"
  by (cases op) (simp_all add: token_class)

lemma leaf_not_operator [simp]:
  "\<not> is_binary_token TK_NUM" "\<not> is_unary_token TK_NUM" "\<not> is_binary_token TK_REG" "\<not> is_unary_token TK_REG"
  by (simp_all add: token_class)

lemma toks_ne [simp]: "toks e \<noteq> []"
  by (cases e) (simp_all add: paren_def)

lemma paren_ne [simp]: "paren c (toks e) \<noteq> []"
  by (simp add: paren_def)

lemma ast_prec_le: "ast_ok e \<Longrightarrow> ast_prec e \<le> 101"
  by (cases e) (auto dest: get_precedence_binary)

section \<open>Scanning a printed tree\<close>

lemma dominant_inside:
  "ast_ok e \<Longrightarrow> 0 < p \<Longrightarrow> dominant_loop i m idx p (toks e @ rest) = dominant_loop (i + length (toks e)) m idx p rest"
proof (induction e arbitrary: i p rest)
  case (Unop op e)
  then show ?case using operator_not_paren[of op] by (auto simp: paren_def)
next
  case (Binop op a b)
  then show ?case using operator_not_paren[of op] by (auto simp: paren_def add.assoc)
qed simp_all

lemma dominant_paren:
  "ast_ok e \<Longrightarrow> dominant_loop i m idx 0 (paren True (toks e) @ rest) = dominant_loop (i + length (toks e) + 2) m idx 0 rest"
  using dominant_inside[of e 1] by (simp add: paren_def)

fun dom_pos :: "ast \<Rightarrow> nat" where
  "dom_pos (Binop op a b) = length (paren (ast_prec a < prec op) (toks a))"
| "dom_pos e = 0"

lemma dominant_outside:
  "ast_ok e \<Longrightarrow> dominant_loop i m idx 0 (toks e @ rest) =
    (if ast_prec e \<le> m \<and> ast_prec e \<le> 100 then dominant_loop (i + length (toks e)) (ast_prec e) (Some (i + dom_pos e)) 0 rest
     else dominant_loop (i + length (toks e)) m idx 0 rest)"
proof (induction e arbitrary: i m idx rest)
  case (Unop op e)
  have op: "is_unary_token op" "op \<noteq> TK_LPAR" "op \<noteq> TK_RPAR" using Unop.prems operator_not_paren[of op] by auto
  have e: "dominant_loop i m idx 0 (paren (ast_prec e < 101) (toks e) @ rest) =
      dominant_loop (i + length (paren (ast_prec e < 101) (toks e))) m idx 0 rest" for i m idx
    using Unop dominant_paren[of e] ast_prec_le[of e] by (cases "ast_prec e < 101") (auto simp: paren_def)
  show ?case using op by (simp add: get_precedence_unary e)
next
  case (Binop op a b)
  let ?P = "prec op" and ?a = "paren (ast_prec a < prec op) (toks a)" and ?b = "paren (ast_prec b < prec op + 1) (toks b)"
  have op: "is_binary_token op" "op \<noteq> TK_LPAR" "op \<noteq> TK_RPAR" "get_precedence op = Inr ?P" "?P \<le> 90"
    using Binop.prems operator_not_paren[of op] get_precedence_binary[of op] by auto
  have a: "\<exists>m' idx'. (?P \<le> m \<longrightarrow> ?P \<le> m') \<and> (\<not> ?P \<le> m \<longrightarrow> m' = m \<and> idx' = idx) \<and>
      dominant_loop i m idx 0 (?a @ rest) = dominant_loop (i + length ?a) m' idx' 0 rest" for rest
  proof (cases "ast_prec a < ?P")
    case True
    then have "dominant_loop i m idx 0 (?a @ rest) = dominant_loop (i + length ?a) m idx 0 rest"
      using Binop.prems dominant_paren[of a i m idx rest] by (simp add: paren_def)
    then show ?thesis by auto
  next
    case False
    show ?thesis
    proof (cases "ast_prec a \<le> m \<and> ast_prec a \<le> 100")
      case True
      then show ?thesis using Binop.IH(1)[of i m idx rest] Binop.prems False
        by (intro exI[of _ "ast_prec a"] exI[of _ "Some (i + dom_pos a)"]) (simp add: paren_def)
    next
      case no: False
      then show ?thesis using Binop.IH(1)[of i m idx rest] Binop.prems False
        by (intro exI[of _ m] exI[of _ idx]) (auto simp: paren_def)
    qed
  qed
  have b: "dominant_loop j m' idx' 0 (?b @ rest) = dominant_loop (j + length ?b) m' idx' 0 rest" if "m' \<le> ?P" for j m' idx'
  proof (cases "ast_prec b < ?P + 1")
    case True
    then show ?thesis using Binop.prems dominant_paren[of b j m' idx' rest] by (simp add: paren_def)
  next
    case False
    then have "\<not> ast_prec b \<le> m'" using that by simp
    then show ?thesis using Binop.IH(2)[of j m' idx' rest] Binop.prems False by (simp add: paren_def)
  qed
  obtain m' idx' where m': "?P \<le> m \<longrightarrow> ?P \<le> m'" "\<not> ?P \<le> m \<longrightarrow> m' = m \<and> idx' = idx"
    and da: "dominant_loop i m idx 0 (?a @ tok op # ?b @ rest) = dominant_loop (i + length ?a) m' idx' 0 (tok op # ?b @ rest)"
    using a[of "tok op # ?b @ rest"] by blast
  show ?case using op m' b da by (cases "?P \<le> m") (simp_all add: add.assoc)
qed simp_all

lemma find_dominant_toks:
  "ast_ok e \<Longrightarrow> ast_prec e \<le> 100 \<Longrightarrow> find_dominant_operator (toks e) = Inr (Some (dom_pos e))"
  using dominant_outside[of e 0 INT_MAX None "[]"] by (simp add: find_dominant_operator_def INT_MAX_def)

section \<open>Parentheses of a printed tree\<close>

lemma paren_inside: "ast_ok e \<Longrightarrow> 0 < c \<Longrightarrow> paren_loop c (toks e @ rest) = paren_loop c rest"
proof (induction e arbitrary: c rest)
  case (Unop op e)
  then show ?case using operator_not_paren[of op] by (auto simp: paren_def)
next
  case (Binop op a b)
  then show ?case using operator_not_paren[of op] by (auto simp: paren_def)
qed simp_all

lemma paren_outside: "ast_ok e \<Longrightarrow> t_type (hd (toks e)) = TK_LPAR \<Longrightarrow> paren_loop 0 (toks e @ rest) = (False, False)"
proof (induction e arbitrary: rest)
  case (Unop op e)
  then show ?case using operator_not_paren[of op] by simp
next
  case (Binop op a b)
  show ?case
  proof (cases "ast_prec a < prec op")
    case True
    then show ?thesis using Binop.prems by (simp add: paren_def paren_inside)
  next
    case False
    then have "t_type (hd (toks a)) = TK_LPAR" using Binop.prems by (simp add: paren_def hd_append)
    then show ?thesis using Binop.IH(1) Binop.prems False by (simp add: paren_def)
  qed
qed simp_all

lemma check_parentheses_toks: "ast_ok e \<Longrightarrow> check_parentheses (toks e) = (False, False)"
  using paren_outside[of e "[]"] by (simp add: check_parentheses_def)

lemma check_parentheses_paren: "ast_ok e \<Longrightarrow> check_parentheses (tok TK_LPAR # toks e @ [tok TK_RPAR]) = (True, False)"
  by (simp add: check_parentheses_def paren_inside)

lemma eval_paren: "ast_ok e \<Longrightarrow> eval cfg (paren b (toks e)) st = eval cfg (toks e) st"
  by (cases b) (simp_all add: paren_def eval.simps[of cfg "_ # _ @ _"] check_parentheses_paren butlast_append)

section \<open>Evaluation of a printed tree\<close>

lemma eval_operator:
  assumes "ast_ok e" and "ast_prec e \<le> 100"
  shows "eval cfg (toks e) st = (let ts = toks e; op = dom_pos e in
    if is_unary_token (t_type (ts ! op)) then
      bind_res (eval cfg (drop (Suc op) ts) st) (\<lambda>(v, st). case v of
        None \<Rightarrow> Inr (None, st) | Some val \<Rightarrow> eval_unary cfg (t_type (ts ! op)) val st)
    else if \<not> is_binary_token (t_type (ts ! op)) then Inl (Assert_fail ''Bad find_dominant_operator'')
    else bind_res (eval cfg (take op ts) st) (\<lambda>(v1, st). case v1 of
        None \<Rightarrow> Inr (None, st)
      | Some val1 \<Rightarrow> bind_res (eval cfg (drop (Suc op) ts) st) (\<lambda>(v2, st). case v2 of
          None \<Rightarrow> Inr (None, st)
        | Some val2 \<Rightarrow> bind_res (eval_binary (t_type (ts ! op)) val1 val2) (\<lambda>v. Inr (v, st)))))"
proof -
  have "length (toks e) \<noteq> 1" using assms by (cases e) (auto simp: paren_def)
  then show ?thesis unfolding eval.simps[of cfg "toks e" st] Let_def
    by (simp only: toks_ne if_False check_parentheses_toks[OF assms(1)] prod.case bool.case find_dominant_toks[OF assms]
        bind_res_Inr option.case)
qed

lemma eval_toks: "ast_ok e \<Longrightarrow> eval cfg (toks e) st = aval cfg e st"
proof (induction e arbitrary: st)
  case (Lit s)
  then show ?case by (simp add: eval.simps eval_leaf_def)
next
  case (RegRef s)
  then show ?case by (simp add: eval.simps)
next
  case (Unop op e)
  then show ?case by (subst eval_operator) (simp_all add: eval_paren cong: option.case_cong)
next
  case (Binop op a b)
  then have op: "is_binary_token op" "\<not> is_unary_token op" "prec op \<le> 100"
    using binary_not_unary[of op] get_precedence_binary[of op] by auto
  have "eval cfg (toks (Binop op a b)) st = bind_res (eval cfg (toks a) st) (\<lambda>(v1, st). case v1 of
        None \<Rightarrow> Inr (None, st)
      | Some val1 \<Rightarrow> bind_res (eval cfg (toks b) st) (\<lambda>(v2, st). case v2 of
          None \<Rightarrow> Inr (None, st)
        | Some val2 \<Rightarrow> bind_res (eval_binary op val1 val2) (\<lambda>v. Inr (v, st))))"
    using Binop.prems op by (subst eval_operator) (simp_all add: eval_paren nth_append Let_def cong: option.case_cong)
  then show ?case using Binop by (simp cong: option.case_cong)
qed

section \<open>From text to tokens\<close>

definition op_text :: "token_type \<Rightarrow> string" where
  "op_text t = (case t of
     TK_EQ \<Rightarrow> ''=='' | TK_NE \<Rightarrow> ''!='' | TK_LE \<Rightarrow> ''<='' | TK_LT \<Rightarrow> ''<'' | TK_GE \<Rightarrow> ''>='' | TK_GT \<Rightarrow> ''>''
   | TK_ADD \<Rightarrow> ''+'' | TK_SUB \<Rightarrow> ''-'' | TK_MUL \<Rightarrow> ''*'' | TK_DIV \<Rightarrow> ''/'' | TK_REM \<Rightarrow> ''%''
   | TK_AND \<Rightarrow> ''&'' | TK_OR \<Rightarrow> ''|'' | TK_XOR \<Rightarrow> ''^'' | TK_SHL \<Rightarrow> ''<<'' | TK_LSHR \<Rightarrow> ''>>'' | TK_ASHR \<Rightarrow> ''>>>''
   | TK_LAND \<Rightarrow> ''&&'' | TK_LOR \<Rightarrow> ''||'' | TK_UNARY_NOT \<Rightarrow> ''~'' | TK_UNARY_LNOT \<Rightarrow> ''!''
   | TK_UNARY_MINUS \<Rightarrow> ''-'' | TK_UNARY_DEREF \<Rightarrow> ''*'' | TK_LPAR \<Rightarrow> ''('' | TK_RPAR \<Rightarrow> '')'' | _ \<Rightarrow> [])"

definition tok_text :: "Token \<Rightarrow> string" where
  "tok_text t = (case t_str t of Some s \<Rightarrow> s | None \<Rightarrow> op_text (t_type t))"

text \<open>Tokens separated by blanks.\<close>

definition text_of :: "Token list \<Rightarrow> string" where
  "text_of ts = concat (map (\<lambda>t. tok_text t @ '' '') ts)"

text \<open>The lexer does not tell unary from binary operators.\<close>

definition lexed :: "Token \<Rightarrow> Token" where
  "lexed t = t\<lparr>t_type := (if t_type t = TK_UNARY_MINUS then TK_SUB else if t_type t = TK_UNARY_DEREF then TK_MUL else t_type t)\<rparr>"

definition tok_ok :: "Token \<Rightarrow> bool" where
  "tok_ok t \<longleftrightarrow> (case t_str t of
     None \<Rightarrow> is_unary_token (t_type t) \<or> is_binary_token (t_type t) \<or> t_type t = TK_LPAR \<or> t_type t = TK_RPAR
   | Some s \<Rightarrow> (t_type t = TK_NUM \<and> number_ok s) \<or> (t_type t = TK_REG \<and> reg_ok s))"

lemma match_len_blank:
  "list_all (\<lambda>(p, m). \<not> p (CHR '' '')) r \<Longrightarrow> match_len r (s @ CHR '' '' # rest) = match_len r s"
proof (induction r s rule: match_len.induct)
  case (2 p r s)
  then show ?case by (cases s) auto
next
  case (3 p r s)
  have t: "takeWhile p (s @ CHR '' '' # rest) = takeWhile p s"
    using 3(2) by (induction s) auto
  show ?case
  proof (cases "length (takeWhile p s) = 0")
    case False
    have "length (takeWhile p s) \<le> length s" by (rule length_takeWhile_le)
    then show ?thesis using 3(1)[OF refl False] 3(2) by (simp add: t Let_def)
  qed (simp add: t Let_def)
next
  case (4 p r s)
  then show ?case by (cases s) auto
qed simp

lemma match_len_bound: "match_len r s = Some n \<Longrightarrow> n \<le> length s"
proof (induction r s arbitrary: n rule: match_len.induct)
  case (3 p r s)
  let ?k = "length (takeWhile p s)"
  obtain m where "match_len r (drop ?k s) = Some m" "n = ?k + m" and "?k \<noteq> 0" using 3(2) by (auto simp: Let_def split: if_splits)
  then have "m \<le> length (drop ?k s)" using 3(1)[OF refl] by simp
  then show ?case using \<open>n = ?k + m\<close> length_takeWhile_le[of p s] by simp
qed (fastforce split: list.splits if_splits)+

lemmas rule_defs = rules_def lit_def re_blank_def in_chars_def

lemma first_rule_op:
  "is_unary_token t \<or> is_binary_token t \<or> t = TK_LPAR \<or> t = TK_RPAR \<Longrightarrow>
   first_rule rules (op_text t @ CHR '' '' # rest) = Some (length (op_text t), t_type (lexed (tok t)))"
  by (cases t) (simp_all add: token_class op_text_def rule_defs lexed_def)

lemma digit_not_symbol:
  assumes "is_digit 10 d"
  shows "d \<noteq> CHR '' ''" "d \<noteq> CHR 0x09" "d \<noteq> CHR 0x0A" "d \<noteq> CHR ''&''" "d \<noteq> CHR ''|''" "d \<noteq> CHR ''>''" "d \<noteq> CHR ''<''"
    "d \<noteq> CHR ''=''" "d \<noteq> CHR ''!''" "d \<noteq> CHR ''~''" "d \<noteq> CHR ''^''" "d \<noteq> CHR ''+''" "d \<noteq> CHR ''-''" "d \<noteq> CHR ''*''"
    "d \<noteq> CHR ''/''" "d \<noteq> CHR ''%''" "d \<noteq> CHR ''(''" "d \<noteq> CHR '')''"
  using assms by (auto simp: is_digit_def digit_val_def Let_def)

lemma number_head: "number_ok s \<Longrightarrow> s \<noteq> [] \<and> is_digit 10 (hd s)"
  by (cases s) (auto simp: number_ok_def re_hex_def re_dec_def in_chars_def is_digit_def digit_val_def Let_def split: if_splits)

lemma re_blank_free:
  "list_all (\<lambda>(p, m). \<not> p (CHR '' '')) re_hex" "list_all (\<lambda>(p, m). \<not> p (CHR '' '')) re_dec" "list_all (\<lambda>(p, m). \<not> p (CHR '' '')) re_reg"
  by (simp_all add: re_hex_def re_dec_def re_reg_def in_chars_def is_digit_def digit_val_def is_ident_def)

lemma first_rule_num:
  assumes "number_ok s"
  shows "first_rule rules (s @ CHR '' '' # rest) = Some (length s, TK_NUM)"
proof -
  obtain d s' where s: "s = d # s'" "is_digit 10 d" using number_head[OF assms] by (cases s) auto
  note n = digit_not_symbol[OF s(2)]
  have "first_rule rules (s @ CHR '' '' # rest) = first_rule [(re_hex, TK_NUM), (re_dec, TK_NUM), (re_reg, TK_REG)] (s @ CHR '' '' # rest)"
    using n by (simp add: s(1) rule_defs)
  also have "\<dots> = Some (length s, TK_NUM)"
    using assms by (auto simp: match_len_blank[OF re_blank_free(1)] match_len_blank[OF re_blank_free(2)] number_ok_def)
  finally show ?thesis .
qed

lemma first_rule_reg:
  assumes "reg_ok s"
  shows "first_rule rules (s @ CHR '' '' # rest) = Some (length s, TK_REG)"
proof -
  obtain s' where s: "s = CHR ''$'' # s'" using assms by (cases s) (auto simp: reg_ok_def re_reg_def in_chars_def split: if_splits)
  have "first_rule rules (s @ CHR '' '' # rest) = first_rule [(re_reg, TK_REG)] (s @ CHR '' '' # rest)"
    by (simp add: s rule_defs re_hex_def re_dec_def is_digit_def digit_val_def)
  also have "\<dots> = Some (length s, TK_REG)"
    using assms by (simp add: match_len_blank[OF re_blank_free(3)] reg_ok_def)
  finally show ?thesis .
qed

lemma make_token_blank: "make_token (CHR '' '' # s) = make_token s"
proof -
  have blank: "first_rule rules (CHR '' '' # s) = Some (Suc (length (takeWhile (in_chars [CHR '' '', CHR 0x09, CHR 0x0A]) s)), TK_NOTYPE)"
    by (simp add: rules_def re_blank_def in_chars_def)
  let ?k = "length (takeWhile (in_chars [CHR '' '', CHR 0x09, CHR 0x0A]) s)"
  have "make_token (CHR '' '' # s) = make_token (drop ?k s)"
    unfolding make_token.simps[of "CHR '' '' # s"] blank by simp
  also have "\<dots> = make_token s"
  proof (cases "?k = 0")
    case False
    then have "s \<noteq> []" by auto
    moreover have "first_rule rules s = Some (?k, TK_NOTYPE)" using False by (simp add: rules_def re_blank_def Let_def)
    ultimately show ?thesis unfolding make_token.simps[of s] by simp
  qed simp
  finally show ?thesis .
qed

lemma make_token_one:
  assumes "tok_ok t"
  shows "make_token (tok_text t @ CHR '' '' # s) = map_option (Cons (lexed t)) (make_token s)"
proof -
  have r: "first_rule rules (tok_text t @ CHR '' '' # s) = Some (length (tok_text t), t_type (lexed t))"
  proof (cases "t_str t")
    case None
    then show ?thesis using assms first_rule_op[of "t_type t" s] by (simp add: tok_ok_def tok_text_def lexed_def)
  next
    case (Some x)
    then show ?thesis using assms first_rule_num[of x s] first_rule_reg[of x s]
      by (auto simp: tok_ok_def tok_text_def lexed_def)
  qed
  have ne: "t_type (lexed t) \<noteq> TK_NOTYPE" using assms by (auto simp: tok_ok_def lexed_def token_class split: option.splits)
  have str: "t_str t = (if t_type (lexed t) = TK_NUM \<or> t_type (lexed t) = TK_REG then Some (tok_text t) else None)"
    using assms by (auto simp: tok_ok_def lexed_def tok_text_def token_class split: option.splits)
  have e: "\<lparr>t_type = t_type (lexed t), t_str = (if t_type (lexed t) = TK_NUM \<or> t_type (lexed t) = TK_REG then Some (tok_text t) else None)\<rparr> = lexed t"
    unfolding str[symmetric] by (simp add: lexed_def)
  have td: "take (length (tok_text t)) (tok_text t @ CHR '' '' # s) = tok_text t"
    "drop (length (tok_text t)) (tok_text t @ CHR '' '' # s) = CHR '' '' # s" by simp_all
  show ?thesis unfolding make_token.simps[of "tok_text t @ CHR '' '' # s"] r
    by (simp only: option.case prod.case ne if_False append_is_Nil_conv list.distinct simp_thms td e make_token_blank)
qed

lemma make_token_text: "list_all tok_ok ts \<Longrightarrow> make_token (text_of ts) = Some (map lexed ts)"
proof (induction ts)
  case Nil then show ?case by (simp add: text_of_def make_token.simps)
next
  case (Cons t ts)
  then show ?case using make_token_one[of t "text_of ts"] by (simp add: text_of_def)
qed

section \<open>Unary operators of a printed tree\<close>

definition expects :: "token_type option \<Rightarrow> bool" where
  "expects prev \<longleftrightarrow> (case prev of None \<Rightarrow> True | Some p \<Rightarrow> expecting_an_expr p)"

definition ends_expr :: "Token list \<Rightarrow> bool" where
  "ends_expr ts \<longleftrightarrow> t_type (last ts) \<in> {TK_NUM, TK_REG, TK_RPAR}"

lemma toks_ends: "ends_expr (toks e)"
  by (induction e) (auto simp: ends_expr_def paren_def)

lemma operator_expects: "is_unary_token op \<or> is_binary_token op \<Longrightarrow> expects (Some op)"
  by (auto simp: expects_def expecting_an_expr_def)

lemma match_unary_paren:
  assumes "\<And>prev rest. expects prev \<Longrightarrow>
      match_unary_loop prev (map lexed (toks e) @ rest) = toks e @ match_unary_loop (Some (t_type (last (toks e)))) rest"
    and "expects prev"
  shows "match_unary_loop prev (map lexed (paren c (toks e)) @ rest) =
    paren c (toks e) @ match_unary_loop (Some (t_type (last (paren c (toks e))))) rest"
proof -
  have "lexed (tok TK_LPAR) = tok TK_LPAR" "lexed (tok TK_RPAR) = tok TK_RPAR" by (simp_all add: lexed_def)
  moreover have "expects (Some TK_LPAR)" "\<not> has_unary TK_LPAR" "\<not> has_unary TK_RPAR"
    by (simp_all add: expects_def expecting_an_expr_def has_unary_def)
  ultimately show ?thesis using assms by (simp add: paren_def Let_def)
qed

lemma match_unary_toks:
  "ast_ok e \<Longrightarrow> expects prev \<Longrightarrow>
   match_unary_loop prev (map lexed (toks e) @ rest) = toks e @ match_unary_loop (Some (t_type (last (toks e)))) rest"
proof (induction e arbitrary: prev rest)
  case (Unop op e)
  have op: "match_unary_loop prev (lexed (tok op) # ts) = tok op # match_unary_loop (Some op) ts" for ts
    using Unop.prems by (auto elim!: unary_cases simp: lexed_def has_unary_def to_unary_def expects_def Let_def)
  have "expects (Some op)" using Unop.prems operator_expects by simp
  then show ?case using Unop match_unary_paren[of e "Some op"] by (simp add: op del: match_unary_loop.simps)
next
  case (Binop op a b)
  have ne: "\<not> expects (Some (t_type (last (paren c (toks a)))))" for c
    using toks_ends[of a] by (auto simp: ends_expr_def paren_def expects_def expecting_an_expr_def token_class)
  have bin: "lexed (tok op) = tok op" using Binop.prems by (auto simp: lexed_def token_class)
  have op: "match_unary_loop (Some (t_type (last (paren c (toks a))))) (lexed (tok op) # ts) = tok op # match_unary_loop (Some op) ts" for c ts
    using ne[of c] by (simp add: bin expects_def Let_def)
  have "expects (Some op)" using Binop.prems operator_expects by simp
  then show ?case using Binop match_unary_paren[of a prev] match_unary_paren[of b "Some op"]
    by (simp add: op del: match_unary_loop.simps)
qed (simp_all add: lexed_def has_unary_def)

lemma toks_ok: "ast_ok e \<Longrightarrow> list_all tok_ok (toks e)"
  by (induction e) (auto simp: tok_ok_def paren_def)

section \<open>Expressions of C as trees\<close>

fun un_token :: "c_unop \<Rightarrow> token_type" where
  "un_token C_not = TK_UNARY_NOT" | "un_token C_lnot = TK_UNARY_LNOT" | "un_token C_neg = TK_UNARY_MINUS"
| "un_token C_deref = TK_UNARY_DEREF"

fun bin_token :: "c_binop \<Rightarrow> token_type" where
  "bin_token C_mul = TK_MUL" | "bin_token C_div = TK_DIV" | "bin_token C_rem = TK_REM" | "bin_token C_add = TK_ADD"
| "bin_token C_sub = TK_SUB" | "bin_token C_shl = TK_SHL" | "bin_token C_shr = TK_LSHR" | "bin_token C_sar = TK_ASHR"
| "bin_token C_lt = TK_LT" | "bin_token C_gt = TK_GT" | "bin_token C_le = TK_LE" | "bin_token C_ge = TK_GE"
| "bin_token C_eq = TK_EQ" | "bin_token C_ne = TK_NE" | "bin_token C_and = TK_AND" | "bin_token C_xor = TK_XOR"
| "bin_token C_or = TK_OR" | "bin_token C_land = TK_LAND" | "bin_token C_lor = TK_LOR"

definition num_text :: "bool \<Rightarrow> bool \<Rightarrow> nat \<Rightarrow> string" where
  "num_text hex u n = (if hex then ''0x'' @ numeral_text 16 n else numeral_text 10 n) @ (if u then ''u'' else [])"

fun ast_of :: "c_expr \<Rightarrow> ast" where
  "ast_of (C_num hex u n) = Lit (num_text hex u n)"
| "ast_of (C_reg i) = RegRef (CHR ''$'' # abi_names ! i)"
| "ast_of C_pc = RegRef ''$pc''"
| "ast_of (C_name s) = RegRef (CHR ''$'' # s)"
| "ast_of (C_un op e) = Unop (un_token op) (ast_of e)"
| "ast_of (C_bin op a b) = Binop (bin_token op) (ast_of a) (ast_of b)"

text \<open>The evaluator's table of precedences is that of the levels.\<close>

lemma prec_level: "prec (bin_token op) = 10 * (int (c_level op) - 1)"
  by (cases op) (simp_all add: prec_def get_precedence_def)

lemma c_level_range: "1 \<le> c_level op \<and> c_level op \<le> 10"
  by (cases op) simp_all

lemma c_level_small: "c_level op \<noteq> 12" "c_level op < 12"
  using c_level_range[of op] by auto

lemma ast_prec_level: "ast_prec (ast_of e) = (if c_expr_level e = 12 then 101 else 10 * (int (c_expr_level e) - 1))"
  by (cases e) (simp_all add: prec_level c_level_small)

lemma c_expr_level_range: "c_expr_level e \<le> 12"
  by (cases e) (simp_all add: less_imp_le c_level_small)

lemma left_parens: "ast_prec (ast_of e) < prec (bin_token op) \<longleftrightarrow> c_expr_level e < c_level op"
  using c_level_range[of op] c_expr_level_range[of e] by (auto simp: ast_prec_level prec_level)

lemma right_parens: "ast_prec (ast_of e) < prec (bin_token op) + 1 \<longleftrightarrow> c_expr_level e \<le> c_level op"
  using c_level_range[of op] c_expr_level_range[of e] by (auto simp: ast_prec_level prec_level)

lemma unary_parens: "ast_prec (ast_of e) < 101 \<longleftrightarrow> c_expr_level e < 12"
  using c_expr_level_range[of e] by (auto simp: ast_prec_level)

lemma text_of_simps: "text_of [] = []" "text_of (t # ts) = tok_text t @ '' '' @ text_of ts" "text_of (ts @ us) = text_of ts @ text_of us"
  by (simp_all add: text_of_def)

lemma text_paren: "text_of (paren b ts) = in_parens b (text_of ts)"
  by (simp add: paren_def in_parens_def text_of_simps tok_text_def op_text_def)

lemma op_token_text: "op_text (bin_token op) = c_binary_text op" "op_text (un_token u) = c_unary_text u"
  by (cases op; simp add: op_text_def) (cases u; simp add: op_text_def)

lemma text_ast: "text_of (toks (ast_of e)) = c_text e"
  by (induction e) (simp_all add: text_of_simps text_paren left_parens right_parens[simplified] unary_parens op_token_text tok_text_def num_text_def)

section \<open>Numbers and names\<close>

lemma digit_char:
  assumes "k < 16"
  shows "digit_val (''0123456789abcdef'' ! k) = k"
proof -
  have "k \<in> set [0..<16]" using assms by simp
  then show ?thesis by (auto simp: upt_rec digit_val_def)
qed

lemma digits_val_append: "digits_val b (ds @ [c]) = digits_val b ds * b + digit_val c"
  by (simp add: digits_val_def)

lemma numeral_text:
  assumes "2 \<le> b" and "b \<le> 16"
  shows "numeral_text b n \<noteq> [] \<and> list_all (is_digit b) (numeral_text b n) \<and> digits_val b (numeral_text b n) = n"
  using assms
proof (induction b n rule: numeral_text.induct)
  case (1 b n)
  show ?case
  proof (cases "n < b")
    case True
    then show ?thesis using 1(2,3) digit_char[of n] by (subst (1 2 3) numeral_text.simps) (simp add: is_digit_def digits_val_def)
  next
    case False
    have m: "n mod b < 16" "n mod b < b" using 1(2,3) mod_less_divisor[of b n] by linarith+
    have "numeral_text b n = numeral_text b (n div b) @ [''0123456789abcdef'' ! (n mod b)]"
      using False 1(2) by (subst numeral_text.simps) simp
    then show ?thesis using 1(1) 1(2,3) False m digit_char[OF m(1)] by (simp add: is_digit_def digits_val_append)
  qed
qed

lemma suffix_no_digit: "\<not> is_digit 16 (CHR ''u'')" "\<not> is_digit 10 (CHR ''u'')" "\<not> is_digit 10 (CHR ''x'')"
  by (simp_all add: is_digit_def digit_val_def)

lemma takeWhile_digits:
  "list_all p ds \<Longrightarrow> rest = [] \<or> \<not> p (hd rest) \<Longrightarrow> takeWhile p (ds @ rest) = ds \<and> dropWhile p (ds @ rest) = rest"
  by (induction ds) (cases rest; auto)+

lemma strtol_digits:
  assumes "ds \<noteq> []" and "list_all (is_digit b) ds" and "b = 10 \<or> b = 16" and "digits_val b ds < 2 ^ 63"
    and "rest = [] \<or> \<not> is_digit b (hd rest)"
  shows "strtol b ((if b = 16 then ''0x'' else []) @ ds @ rest) = Some (int (digits_val b ds), rest)"
proof -
  let ?s = "(if b = 16 then ''0x'' else []) @ ds @ rest"
  obtain d ds' where ds: "ds = d # ds'" using assms(1) by (cases ds) auto
  have d: "is_digit b d" using assms(2) ds by simp
  have "b \<noteq> 16 \<Longrightarrow> \<not> is_space d \<and> d \<noteq> CHR ''-'' \<and> d \<noteq> CHR ''+''"
    using d assms(3) by (auto simp: is_digit_def is_space_def digit_val_def Let_def)
  then have s: "opt_sign (dropWhile is_space ?s) = (False, ?s)" by (auto simp: ds is_space_def)
  have o: "opt_0x b ?s = ds @ rest"
  proof (cases "b = 16")
    case True
    then show ?thesis using d by (simp add: ds)
  next
    case False
    then show ?thesis by (cases "(b, ds @ rest)" rule: opt_0x.cases) auto
  qed
  have t: "takeWhile (is_digit b) (ds @ rest) = ds" "dropWhile (is_digit b) (ds @ rest) = rest"
    using takeWhile_digits[of "is_digit b" ds rest] assms(2,5) by auto
  have m: "max LONG_MIN (min LONG_MAX (int (digits_val b ds))) = int (digits_val b ds)"
    using assms(4) by (simp add: LONG_MIN_def LONG_MAX_def)
  show ?thesis unfolding strtol_def s Let_def prod.case o t using assms(1) m by simp
qed

lemma match_len_suffix:
  assumes "ds \<noteq> []" and "list_all p ds" and "q (CHR ''u'')" and "\<not> p (CHR ''u'')"
  shows "match_len [(p, Plus), (q, Opt)] (ds @ (if u then ''u'' else [])) = Some (length ds + of_bool u)"
proof -
  let ?r = "if u then ''u'' else []"
  have t: "takeWhile p (ds @ ?r) = ds" using takeWhile_digits[of p ds ?r] assms(2,4) by auto
  show ?thesis using assms(1,3) by (simp add: t Let_def)
qed

lemma number_ok_text: "number_ok (num_text hex u n)"
proof (cases hex)
  case True
  let ?ds = "numeral_text 16 n"
  have d: "?ds \<noteq> []" "list_all (is_digit 16) ?ds" using numeral_text[of 16 n] by simp_all
  have "match_len [(is_digit 16, Plus), (in_chars ''uU'', Opt)] (?ds @ (if u then ''u'' else [])) = Some (length ?ds + of_bool u)"
    by (rule match_len_suffix) (use d suffix_no_digit in \<open>simp_all add: in_chars_def\<close>)
  then show ?thesis using True by (simp add: number_ok_def num_text_def re_hex_def in_chars_def del: match_len.simps(3))
next
  case False
  let ?ds = "numeral_text 10 n"
  have d: "?ds \<noteq> []" "list_all (is_digit 10) ?ds" using numeral_text[of 10 n] by simp_all
  have m: "match_len re_dec (num_text hex u n) = Some (length (num_text hex u n))"
    using match_len_suffix[of ?ds "is_digit 10" "in_chars ''uU''" u] d suffix_no_digit False
    by (simp add: num_text_def re_dec_def in_chars_def del: match_len.simps(3))
  have "match_len re_hex (num_text hex u n) = None"
  proof -
    obtain c cs where c: "?ds = c # cs" using d(1) by (cases ?ds) auto
    have "\<not> in_chars ''xX'' (hd (cs @ (if u then ''u'' else [])))" if "cs @ (if u then ''u'' else []) \<noteq> []"
      using d(2) that by (cases cs) (auto simp: c in_chars_def is_digit_def digit_val_def split: if_splits)
    then show ?thesis using False by (cases "cs @ (if u then ''u'' else [])") (auto simp: num_text_def c re_hex_def)
  qed
  then show ?thesis using m by (simp add: number_ok_def)
qed

lemma eval_num_text:
  assumes "n < 2 ^ 63"
  shows "eval_num (num_text hex u n) = Some (word_of_int (int n))"
proof -
  let ?b = "if hex then 16 else 10 :: nat"
  let ?ds = "numeral_text ?b n" and ?r = "if u then ''u'' else []"
  have d: "?ds \<noteq> []" "list_all (is_digit ?b) ?ds" "digits_val ?b ?ds = n" using numeral_text[of ?b n] by simp_all
  have "?r = [] \<or> \<not> is_digit ?b (hd ?r)" using suffix_no_digit by simp
  then have "strtol ?b ((if ?b = 16 then ''0x'' else []) @ ?ds @ ?r) = Some (int n, ?r)"
    using strtol_digits[of ?ds ?b ?r] d assms by simp
  then have st: "strtol ?b (num_text hex u n) = Some (int n, ?r)" by (cases hex) (simp_all add: num_text_def)
  have "(hd (num_text hex u n) = CHR ''0'' \<and> length (num_text hex u n) > 1 \<and>
      (num_text hex u n ! 1 = CHR ''x'' \<or> num_text hex u n ! 1 = CHR ''X'')) = hex"
  proof (cases hex)
    case False
    obtain c cs where c: "?ds = c # cs" using d(1) by (cases ?ds) auto
    have "(cs @ ?r) ! 0 \<noteq> CHR ''x'' \<and> (cs @ ?r) ! 0 \<noteq> CHR ''X''" if "cs @ ?r \<noteq> []"
    proof (cases cs)
      case (Cons x xs)
      then have "is_digit 10 x" using d(2) False c by simp
      then show ?thesis using Cons by (auto simp: is_digit_def digit_val_def)
    qed (use that in \<open>simp split: if_splits\<close>)
    then show ?thesis using False c by (cases "cs @ ?r") (auto simp: num_text_def)
  qed (simp add: num_text_def)
  then show ?thesis unfolding eval_num_def by (simp only: Let_def st option.map prod.case)
qed

lemma ident_chars:
  "list_all (\<lambda>c. c \<in> set ''0123456789ABCDEFGHIJKLMNOPQRSTUVWXYZabcdefghijklmnopqrstuvwxyz_'') s \<Longrightarrow> list_all is_ident s"
  by (induction s) (auto simp: is_ident_def is_digit_def digit_val_def)

lemma reg_ok_ident: "s \<noteq> [] \<Longrightarrow> list_all is_ident s \<Longrightarrow> reg_ok (CHR ''$'' # s)"
proof -
  assume "s \<noteq> []" "list_all is_ident s"
  moreover from this have "takeWhile is_ident s = s" by (simp add: takeWhile_eq_all_conv list_all_iff)
  ultimately show ?thesis by (simp add: reg_ok_def re_reg_def in_chars_def Let_def del: takeWhile_eq_all_conv)
qed

lemma abi_name_ident: "i < 32 \<Longrightarrow> abi_names ! i \<noteq> [] \<and> list_all is_ident (abi_names ! i)"
proof -
  have "list_all (\<lambda>s. s \<noteq> [] \<and> list_all is_ident s) abi_names"
    by (simp add: abi_names_def is_ident_def is_digit_def digit_val_def)
  moreover assume "i < 32"
  ultimately show ?thesis by (simp add: list_all_length abi_names_def)
qed

lemma reg_index_nth: "distinct rs \<Longrightarrow> i < length rs \<Longrightarrow> reg_index (rs ! i) k rs = Some (k + i)"
proof (induction rs arbitrary: i k)
  case (Cons r rs)
  then show ?case by (cases i) (auto simp: in_set_conv_nth)
qed simp

lemma regs_names: "regs = abi_names" "length regs = 32" "distinct regs"
  "list_all (\<lambda>s. s \<noteq> ''pc'' \<and> s \<noteq> [] \<and> hd s \<noteq> CHR ''x'' \<and> hd s \<noteq> CHR ''X'') regs"
  by (simp_all add: regs_def abi_names_def)

lemma abi_name_reg:
  assumes "i < (if CONFIG_RVE cfg then 16 else 32)"
  shows "isa_reg_str2val cfg (abi_names ! i) st = Inr (Some (gpr (cpu st) i))"
proof -
  have i: "i < length regs" using assms regs_names(2) by (simp split: if_splits)
  then have n: "regs ! i \<noteq> ''pc''" "regs ! i \<noteq> []" "hd (regs ! i) \<noteq> CHR ''x''" "hd (regs ! i) \<noteq> CHR ''X''"
    using regs_names(4) by (simp_all add: list_all_length)
  then obtain c t where ct: "regs ! i = c # t" by (cases "regs ! i") auto
  have "R_get cfg i st = Inr (gpr (cpu st) i)" using assms by (simp add: R_get_def check_reg_idx_def nr_gpr_def)
  moreover have "reg_index (regs ! i) 0 regs = Some i" using reg_index_nth[OF regs_names(3) i, of 0] by simp
  ultimately show ?thesis using n ct by (auto simp: isa_reg_str2val_def regs_names(1)[symmetric])
qed

lemma c_ok_ast: "c_ok cfg e \<Longrightarrow> ast_ok (ast_of e)"
proof (induction e)
  case (C_reg i)
  then show ?case using abi_name_ident[of i] by (simp add: reg_ok_ident split: if_splits)
next
  case (C_un op e)
  then show ?case by (cases op) (simp_all add: token_class)
next
  case (C_bin op a b)
  then show ?case by (cases op) (simp_all add: token_class)
qed (simp_all add: number_ok_text reg_ok_ident ident_chars is_ident_def is_digit_def digit_val_def)

section \<open>The operators\<close>

lemma shift_words:
  "word_of_int (uint x * 2 ^ n) = push_bit n (x :: u32)" "word_of_int (uint x div 2 ^ n) = drop_bit n x"
  "word_of_int (sint x div 2 ^ n) = signed_drop_bit n x"
proof -
  have "word_of_int (push_bit n (uint x)) = push_bit n x" by (rule bit_word_eqI) (auto simp: bit_simps)
  then show "word_of_int (uint x * 2 ^ n) = push_bit n x" by (simp only: push_bit_eq_mult)
  have "word_of_int (drop_bit n (uint x)) = drop_bit n x" by (rule bit_word_eqI) (auto simp: bit_simps)
  then show "word_of_int (uint x div 2 ^ n) = drop_bit n x" by (simp only: drop_bit_eq_div)
  have "word_of_int (drop_bit n (sint x)) = signed_drop_bit n x"
  proof (rule bit_word_eqI)
    fix k assume k: "k < LENGTH(32)"
    have "bit (word_of_int (drop_bit n (sint x)) :: u32) k = bit x (min 31 (n + k))"
      using k by (simp add: bit_word_of_int_iff bit_drop_bit_eq sint_uint bit_signed_take_bit_iff bit_uint_iff min.commute min_less_iff_disj)
    moreover have "bit (signed_drop_bit n x) k = bit x (if 32 - n \<le> k then 31 else n + k)"
      using k by (simp add: bit_signed_drop_bit_iff)
    moreover have "min 31 (n + k) = (if 32 - n \<le> k then 31 else n + k)" by simp
    ultimately show "bit (word_of_int (drop_bit n (sint x)) :: u32) k = bit (signed_drop_bit n x) k" by simp
  qed
  then show "word_of_int (sint x div 2 ^ n) = signed_drop_bit n x" by (simp only: drop_bit_eq_div)
qed

lemma bit_words:
  "word_of_int (uint x AND uint y) = (x AND y :: u32)" "word_of_int (uint x OR uint y) = (x OR y :: u32)"
  "word_of_int (uint x XOR uint y) = (x XOR y :: u32)"
  by (rule bit_word_eqI; auto simp: bit_simps)+

text \<open>A name, as the token spells it.\<close>

lemma eval_leaf_name: "eval_leaf cfg \<lparr>t_type = TK_REG, t_str = Some (CHR ''$'' # s)\<rparr> st =
    bind_res (isa_reg_str2val cfg s st) (\<lambda>r. case r of Some v \<Rightarrow> Inr (Some v) | None \<Rightarrow> isa_csr_str2val cfg s st)"
  by (simp add: eval_leaf_def)

lemma pc_value: "isa_reg_str2val cfg ''pc'' st = Inr (Some (cpu_pc (cpu st)))"
  by (simp add: isa_reg_str2val_def)

lemma c_binary_eval: "eval_binary (bin_token op) x y = c_binary op x y"
proof -
  have z: "uint v = 0 \<longleftrightarrow> v = 0" for v :: u32 by (simp add: word_uint_eq_iff)
  have n: "uint y < 32 \<longleftrightarrow> y < 32" by (simp add: word_less_def)
  note i = shift_words bit_words word_div_def[symmetric] word_mod_def[symmetric] word_add_def[symmetric] word_sub_wi[symmetric]
    word_mult_def[symmetric] word_less_def[symmetric] word_le_def[symmetric] word_uint_eq_iff[symmetric] z n
  show ?thesis
    by (cases op) (simp_all only: bin_token.simps c_binary.simps c_shift_def c_bool_def i, simp_all add: eval_binary_def eval_shift_def of_truth_def)
qed

lemma c_unary_eval: "eval_unary cfg (un_token op) x st = c_unary cfg op x st"
proof (cases op)
  case C_not
  have "NOT x = - x - 1" by (simp add: not_eq_complement)
  then show ?thesis by (simp add: C_not eval_unary_def)
next
  case C_lnot
  have "uint x = 0 \<longleftrightarrow> x = 0" by (metis uint_0_iff)
  then show ?thesis by (simp add: C_lnot eval_unary_def of_truth_def)
next
  case C_neg
  have u: "(ucast (word_of_int k :: u64) :: u32) = word_of_int k" for k
    by (rule bit_word_eqI) (simp add: bit_simps)
  have "- (ucast x :: u64) = word_of_int (- uint x)" by (simp add: wi_hom_neg[symmetric] unsigned_of_int)
  then have "(ucast (- (ucast x :: u64)) :: u32) = word_of_int (- uint x)" by (simp only: u)
  then have "(ucast (- (ucast x :: u64)) :: u32) = - x" by simp
  then show ?thesis by (simp add: C_neg eval_unary_def)
next
  case C_deref
  then show ?thesis by (simp add: eval_unary_def Mr_def bind_res_assoc case_prod_unfold)
qed

lemma c_value_aval: "c_ok cfg e \<Longrightarrow> aval cfg (ast_of e) st = c_value cfg e st"
proof (induction e arbitrary: st)
  case (C_num hex u n)
  then show ?case by (simp add: eval_num_text)
next
  case (C_reg i)
  then have "isa_reg_str2val cfg (abi_names ! i) st = Inr (Some (gpr (cpu st) i))" by (intro abi_name_reg) simp
  then show ?case by (simp add: eval_leaf_name del: isa_reg_str2val_def)
next
  case C_pc
  show ?case by (simp add: eval_leaf_name pc_value)
next
  case (C_name s)
  have "(\<lambda>r. bind_res (case r of Some v \<Rightarrow> Inr (Some v) | None \<Rightarrow> isa_csr_str2val cfg s st) (\<lambda>v. Inr (v, st))) =
      case_option (bind_res (isa_csr_str2val cfg s st) (\<lambda>v. Inr (v, st))) (\<lambda>v. Inr (Some v, st))"
    by (rule ext) (simp split: option.split)
  then show ?case by (simp add: eval_leaf_name bind_res_assoc)
next
  case (C_un op e)
  then show ?case by (simp add: c_unary_eval cong: option.case_cong)
next
  case (C_bin op a b)
  then show ?case by (simp add: c_binary_eval cong: option.case_cong)
qed

section \<open>Properties\<close>

text \<open>C14: the debugger evaluates expressions of C. The text of an expression over numbers, registers and the
  prefix and binary operators, written with a blank after each token and with as few parentheses as C's levels of precedence and
  left associativity allow, evaluates to its value modulo \<open>2\<^sup>3\<^sup>2\<close>; division by zero and unknown names fail, a shift by 32 or more is
  undefined, and a fault of the guest memory is the same fault. One kind of text is excluded: the operand of a prefix
  operator stands in parentheses unless it is a number or a register, so a prefix operator directly in front of another
  is not covered. Unlike in C both operands of \<open>&&\<close> and \<open>||\<close> are always evaluated.\<close>

theorem expr_correct:
  assumes "c_ok cfg e"
  shows "expr cfg (c_text e) st = c_value cfg e st"
proof -
  have ok: "ast_ok (ast_of e)" using assms by (rule c_ok_ast)
  have "match_unary_tokens (map lexed (toks (ast_of e))) = toks (ast_of e)"
    using match_unary_toks[OF ok, of None "[]"] by (simp add: match_unary_tokens_def expects_def)
  then have "expr cfg (text_of (toks (ast_of e))) st = aval cfg (ast_of e) st"
    using ok by (simp add: expr_def make_token_text[OF toks_ok[OF ok]] eval_toks)
  then show ?thesis using c_value_aval[OF assms] by (simp add: text_ast)
qed

lemma strtol_digit: "is_digit 10 d \<Longrightarrow> strtol 10 [d] = Some (int (digit_val d), [])"
  using strtol_decimal[of "[d]"] by (simp add: digits_val_def LONG_MAX_def is_digit_def)

lemma eval_num_digit: "is_digit 10 d \<Longrightarrow> eval_num [d] = Some (of_nat (digit_val d))"
  by (simp add: eval_num_def strtol_digit)

theorem expr_correct_witness:
  "expr default_config ''1 + 2 * ( 3 - ! 0x2au ) - $sp '' (nemu_boot\<lparr>cpu := (cpu nemu_boot)\<lparr>gpr := (\<lambda>_. 5)\<rparr>\<rparr>) =
    Inr (Some 2, nemu_boot\<lparr>cpu := (cpu nemu_boot)\<lparr>gpr := (\<lambda>_. 5)\<rparr>\<rparr>)"
proof -
  let ?e = "C_bin C_sub (C_bin C_add (C_num False False 1) (C_bin C_mul (C_num False False 2)
      (C_bin C_sub (C_num False False 3) (C_un C_lnot (C_num True True 42))))) (C_reg 2)"
  let ?st = "nemu_boot\<lparr>cpu := (cpu nemu_boot)\<lparr>gpr := (\<lambda>_. 5)\<rparr>\<rparr>"
  have "c_ok default_config ?e" by simp
  then have "expr default_config (c_text ?e) ?st = c_value default_config ?e ?st" by (rule expr_correct)
  moreover have "c_text ?e = ''1 + 2 * ( 3 - ! 0x2au ) - $sp ''"
    by (simp add: in_parens_def abi_names_def numeral_text.simps)
  moreover have "c_value default_config ?e ?st = Inr (Some 2, ?st)" by simp
  ultimately show ?thesis by simp
qed

lemma nested_unary:
  "expr cfg ''!!5'' st = Inr (Some 0, st) \<and> expr cfg ''3 !5'' st = Inr (Some 0, st) \<and>
   c_value cfg (C_un C_lnot (C_un C_lnot (C_num False False 5))) st = Inr (Some 1, st)"
proof -
  have d: "is_digit 10 (CHR ''5'')" "is_digit 10 (CHR ''3'')" "is_digit 16 (CHR ''5'')" by (simp_all add: is_digit_def digit_val_def)
  have v: "digit_val (CHR ''5'') = 5" by (simp add: digit_val_def)
  have b: "\<not> is_digit 10 (CHR ''!'')" "\<not> is_digit 10 (CHR '' '')" by (simp_all add: is_digit_def digit_val_def)
  have "make_token ''5'' = Some [\<lparr>t_type = TK_NUM, t_str = Some ''5''\<rparr>]"
    by (subst make_token.simps) (simp add: rule_defs re_hex_def re_dec_def d make_token.simps[of "[]"])
  then have n: "make_token ''!5'' = Some [tok TK_UNARY_LNOT, \<lparr>t_type = TK_NUM, t_str = Some ''5''\<rparr>]"
    by (subst make_token.simps) (simp add: rule_defs)
  then have "make_token ''!!5'' = Some [tok TK_UNARY_LNOT, tok TK_UNARY_LNOT, \<lparr>t_type = TK_NUM, t_str = Some ''5''\<rparr>]"
    by (subst make_token.simps) (simp add: rule_defs)
  moreover from n have "make_token ''3 !5'' = Some [\<lparr>t_type = TK_NUM, t_str = Some ''3''\<rparr>, tok TK_UNARY_LNOT, \<lparr>t_type = TK_NUM, t_str = Some ''5''\<rparr>]"
    by (subst make_token.simps) (simp add: rule_defs re_hex_def re_dec_def d b make_token_blank)
  moreover have "eval cfg [x, tok TK_UNARY_LNOT, \<lparr>t_type = TK_NUM, t_str = Some ''5''\<rparr>] st = Inr (Some 0, st)"
    if "t_type x \<in> {TK_NUM, TK_UNARY_LNOT}" for x
    using that by (subst eval.simps) (auto simp: check_parentheses_def find_dominant_operator_def token_class get_precedence_def INT_MAX_def
        eval.simps[of cfg "[\<lparr>t_type = TK_NUM, t_str = Some ''5''\<rparr>]"] eval_leaf_def eval_num_digit d v eval_unary_def of_truth_def)
  ultimately show ?thesis
    by (simp add: expr_def match_unary_tokens_def has_unary_def eval_num_digit d v eval_unary_def of_truth_def)
qed

text \<open>A chain of unary operators loses all but the last: \<open>!!5\<close> evaluates to 0 where the grammar gives 1,
  because the dominant operator of operators of equal precedence is the rightmost and what stands before a unary
  operator is dropped; for the same reason \<open>3 !5\<close> is accepted.\<close>

theorem nested_unary_dropped:
  "expr cfg ''!!5'' st = Inr (Some 0, st) \<and> expr cfg ''3 !5'' st = Inr (Some 0, st) \<and>
   c_value cfg (C_un C_lnot (C_un C_lnot (C_num False False 5))) st = Inr (Some 1, st)"
  by (rule nested_unary)

lemma eval_Some_cases:
  assumes "eval cfg ts st = Inr (Some v, st')"
  obtains (leaf) "length ts = 1"
  | (par) "length ts \<noteq> 1" "ts \<noteq> []" "check_parentheses ts = (True, False) \<or> check_parentheses ts = (True, True)"
      "eval cfg (butlast (tl ts)) st = Inr (Some v, st')"
  | (una) oi w st1 where "length ts \<noteq> 1" "ts \<noteq> []" "check_parentheses ts = (False, False)" "find_dominant_operator ts = Inr (Some oi)"
      "is_unary_token (t_type (ts ! oi))" "eval cfg (drop (Suc oi) ts) st = Inr (Some w, st1)"
  | (bin) oi w1 st1 w2 st2 where "length ts \<noteq> 1" "ts \<noteq> []" "check_parentheses ts = (False, False)" "find_dominant_operator ts = Inr (Some oi)"
      "\<not> is_unary_token (t_type (ts ! oi))" "eval cfg (take oi ts) st = Inr (Some w1, st1)" "eval cfg (drop (Suc oi) ts) st1 = Inr (Some w2, st2)"
proof -
  have ne: "ts \<noteq> []" using assms by (auto simp: eval.simps)
  show ?thesis
  proof (cases "length ts = 1")
    case True then show ?thesis by (rule leaf)
  next
    case False
    note e = assms[unfolded eval.simps[of cfg ts st], simplified ne False if_False]
    consider "check_parentheses ts = (True, False)" | "check_parentheses ts = (True, True)" | "check_parentheses ts = (False, True)"
      | "check_parentheses ts = (False, False)" by (cases "check_parentheses ts") auto
    then show ?thesis
    proof cases
      case 4
      obtain oi where oi: "find_dominant_operator ts = Inr (Some oi)" using e 4 by (auto simp: res_simps split: option.splits)
      show ?thesis
      proof (cases "is_unary_token (t_type (ts ! oi))")
        case True
        then show ?thesis using e 4 oi False ne una[of oi] by (auto simp: res_simps split: option.splits)
      next
        case nu: False
        then show ?thesis using e 4 oi False ne bin[of oi] by (auto simp: res_simps split: option.splits if_splits)
      qed
    qed (use e par False ne in auto)
  qed
qed

lemma eval_syntax: "eval cfg ts st = Inr (Some v, st') \<Longrightarrow> syntax_check_impl ts = Inr True"
proof (induction "length ts" arbitrary: ts st v st' rule: less_induct)
  case less
  from less.prems show ?case
  proof (cases rule: eval_Some_cases)
    case leaf
    then show ?thesis by (subst syntax_check_impl.simps) auto
  next
    case par
    then have "syntax_check_impl (butlast (tl ts)) = Inr True" using less.hyps by (cases ts) auto
    then show ?thesis using par by (subst syntax_check_impl.simps) auto
  next
    case (una oi w st1)
    then have "syntax_check_impl (drop (Suc oi) ts) = Inr True" using less.hyps by (cases ts) auto
    then show ?thesis using una by (subst syntax_check_impl.simps) auto
  next
    case (bin oi w1 st1 w2 st2)
    then have "syntax_check_impl (drop (Suc oi) ts) = Inr True" "syntax_check_impl (take oi ts) = Inr True"
      using less.hyps[of "drop (Suc oi) ts"] less.hyps[of "take oi ts"] find_dominant_range[of ts oi] by (cases ts; auto)+
    then show ?thesis using bin by (subst syntax_check_impl.simps) auto
  qed
qed

lemma expr_syntax: "expr cfg e st = Inr (Some v, st') \<Longrightarrow> syntax_check e = Inr True"
  by (auto simp: expr_def syntax_check_def eval_syntax split: option.splits)

text \<open>A number of one digit, for examples.\<close>

lemma expr_digit:
  assumes "is_digit 10 d"
  shows "expr cfg [d] st = Inr (Some (of_nat (digit_val d)), st)"
proof -
  note n = digit_not_symbol[OF assms]
  have "first_rule rules [d] = Some (1, TK_NUM)"
    using n assms by (cases "d = CHR ''0''") (simp_all add: rule_defs re_hex_def re_dec_def)
  then have "make_token [d] = Some [\<lparr>t_type = TK_NUM, t_str = Some [d]\<rparr>]"
    by (subst make_token.simps) (simp add: make_token.simps[of "[]"])
  then show ?thesis
    by (simp add: expr_def match_unary_tokens_def has_unary_def eval.simps eval_leaf_def eval_num_digit assms)
qed

text \<open>C15: the syntax check accepts every expression that evaluation can succeed on, so a watchpoint is refused
  only for text that never has a value.\<close>

theorem syntax_check_complete:
  assumes "expr cfg e st = Inr (Some v, st')"
  shows "syntax_check e = Inr True"
  using assms by (rule expr_syntax)

theorem syntax_check_complete_witness:
  "syntax_check ''!!5'' = Inr True"
  using syntax_check_complete[of default_config "''!!5''" nemu_boot 0 nemu_boot] nested_unary by simp

end
