(* ===== verification/Pool.thy ===== *)
theory Pool
  imports Prelude
begin

text \<open>
  The node pools of the debugger.  \<open>watchpoint.c\<close> and \<open>breakpoint.c\<close> contain the same operations on an array
  of nodes threaded by two linked lists, \<open>head\<close> (in use) and \<open>free_\<close> (here \<open>freelist\<close>); one polymorphic record stands for both,
  its payload for the fields of a node other than \<open>next\<close>.  A pointer to a node is its index in the array.

  The pool is shown to refine a pair of lists of numbers, and the interface \<open>slot_allocator\<close> states what a
  client may rely on.
\<close>

section \<open>Definitions\<close>

record 'a pool =
  nexts :: "nat option list"
  nodes :: "'a list"
  head :: "nat option"
  freelist :: "nat option"

definition init_pool :: "nat \<Rightarrow> (nat \<Rightarrow> 'a) \<Rightarrow> 'a pool" where
  "init_pool n f = \<lparr>nexts = map (\<lambda>i. if i = n - 1 then None else Some (Suc i)) [0..<n], nodes = map f [0..<n],
     head = None, freelist = (if n = 0 then None else Some 0)\<rparr>"

definition new_node :: "string \<Rightarrow> 'a pool \<Rightarrow> (nat \<times> 'a pool) res" where
  "new_node msg P = (case freelist P of
     None \<Rightarrow> Inl (Assert_fail msg)
   | Some p \<Rightarrow> Inr (p, P\<lparr>freelist := nexts P ! p, nexts := (nexts P)[p := head P], head := Some p\<rparr>))"

text \<open>The loop of \<open>free_wp\<close> and \<open>free_bp\<close> that looks for the predecessor; the list has at most as many nodes as
  the array, which bounds the loop.\<close>

fun find_pred :: "nat \<Rightarrow> nat option list \<Rightarrow> nat option \<Rightarrow> nat \<Rightarrow> nat option" where
  "find_pred 0 nx p i = None"
| "find_pred (Suc fuel) nx None i = None"
| "find_pred (Suc fuel) nx (Some p) i = (if nx ! p = Some i then Some p else find_pred fuel nx (nx ! p) i)"

definition free_node :: "string \<Rightarrow> nat \<Rightarrow> 'a pool \<Rightarrow> 'a pool res" where
  "free_node msg i P =
     (if head P = Some i then
        Inr (P\<lparr>head := nexts P ! i, nexts := (nexts P)[i := freelist P], freelist := Some i\<rparr>)
      else case find_pred (length (nexts P)) (nexts P) (head P) i of
        Some p \<Rightarrow> Inr (P\<lparr>nexts := (nexts P)[p := nexts P ! i, i := freelist P], freelist := Some i\<rparr>)
      | None \<Rightarrow> Inl (Panic msg))"

text \<open>The nodes of a list in order; the \<open>for\<close> loops over a list visit them.\<close>

fun chain_list :: "nat \<Rightarrow> nat option list \<Rightarrow> nat option \<Rightarrow> nat list" where
  "chain_list 0 nx p = []"
| "chain_list (Suc fuel) nx None = []"
| "chain_list (Suc fuel) nx (Some p) = p # chain_list fuel nx (nx ! p)"

definition active :: "'a pool \<Rightarrow> nat list" where
  "active P = chain_list (length (nexts P)) (nexts P) (head P)"

definition avail :: "'a pool \<Rightarrow> nat list" where
  "avail P = chain_list (length (nexts P)) (nexts P) (freelist P)"

section \<open>Chains\<close>

fun is_chain :: "nat option list \<Rightarrow> nat option \<Rightarrow> nat list \<Rightarrow> bool" where
  "is_chain nx s [] \<longleftrightarrow> s = None"
| "is_chain nx s (p # ps) \<longleftrightarrow> s = Some p \<and> p < length nx \<and> is_chain nx (nx ! p) ps"

definition pool_inv :: "'a pool \<Rightarrow> bool" where
  "pool_inv P \<longleftrightarrow> is_chain (nexts P) (head P) (active P) \<and> is_chain (nexts P) (freelist P) (avail P) \<and>
     distinct (active P @ avail P) \<and> set (active P @ avail P) = {..<length (nexts P)} \<and> length (nodes P) = length (nexts P)"

lemma chain_list_eq: "is_chain nx s ps \<Longrightarrow> length ps \<le> fuel \<Longrightarrow> chain_list fuel nx s = ps"
proof (induction ps arbitrary: s fuel)
  case (Cons p ps)
  then show ?case by (cases fuel) auto
next
  case Nil
  then show ?case by (cases fuel) auto
qed

lemma chain_update: "i \<notin> set ps \<Longrightarrow> is_chain (nx[i := x]) s ps \<longleftrightarrow> is_chain nx s ps"
  by (induction ps arbitrary: s) auto

lemma distinct_bounded_length: "distinct xs \<Longrightarrow> set xs \<subseteq> {..<n} \<Longrightarrow> length xs \<le> n"
  by (metis card_lessThan card_mono distinct_card finite_lessThan)

lemma chain_bound: "is_chain nx s ps \<Longrightarrow> set ps \<subseteq> {..<length nx}"
  by (induction ps arbitrary: s) auto

text \<open>The lists determine the invariant.\<close>

lemma pool_invI:
  assumes "is_chain (nexts P) (head P) as" and "is_chain (nexts P) (freelist P) fs" and "distinct (as @ fs)"
    and "set (as @ fs) = {..<length (nexts P)}" and "length (nodes P) = length (nexts P)"
  shows "pool_inv P \<and> active P = as \<and> avail P = fs"
proof -
  have "length as \<le> length (nexts P)" "length fs \<le> length (nexts P)"
    using assms by (auto intro!: distinct_bounded_length)
  then have "active P = as" "avail P = fs"
    using assms(1,2) chain_list_eq unfolding active_def avail_def by blast+
  then show ?thesis using assms by (simp add: pool_inv_def)
qed

lemma pool_inv_active:
  assumes "pool_inv P" and "i \<in> set (active P)"
  shows "i < length (nexts P)"
proof -
  have "i \<in> set (active P @ avail P)" using assms(2) by simp
  moreover have "set (active P @ avail P) = {..<length (nexts P)}" using assms(1) by (simp only: pool_inv_def)
  ultimately have "i \<in> {..<length (nexts P)}" by (simp only:)
  then show ?thesis by simp
qed

lemma find_pred_chain:
  assumes "is_chain nx s ps" and "distinct ps" and "length ps \<le> fuel"
  shows "find_pred fuel nx s i = (if i \<in> set (tl ps) then Some (last (takeWhile (\<lambda>p. p \<noteq> i) ps)) else None)"
  using assms
proof (induction ps arbitrary: s fuel)
  case Nil
  then show ?case by (cases fuel) auto
next
  case (Cons p ps)
  then obtain fuel' where f: "fuel = Suc fuel'" by (cases fuel) auto
  have s: "s = Some p" and c: "is_chain nx (nx ! p) ps" using Cons.prems by auto
  have IH: "find_pred fuel' nx (nx ! p) i = (if i \<in> set (tl ps) then Some (last (takeWhile (\<lambda>p. p \<noteq> i) ps)) else None)"
    using Cons.IH[OF c] Cons.prems f by simp
  show ?case
  proof (cases ps)
    case Nil
    then have "nx ! p = None" using c by simp
    then show ?thesis using f s Nil by (cases fuel') auto
  next
    case (Cons q qs)
    then have q: "nx ! p = Some q" using c by simp
    then show ?thesis using f s IH Cons Cons.prems q by (auto simp: takeWhile_eq_Nil_iff)
  qed
qed

lemma chain_split:
  "is_chain nx s (xs @ p # i # ys) \<Longrightarrow> nx ! p = Some i"
  by (induction xs arbitrary: s) auto

lemma chain_remove:
  assumes "is_chain nx s (xs @ p # i # ys)" and "distinct (xs @ p # i # ys)"
  shows "is_chain (nx[p := nx ! i]) s (xs @ p # ys)"
  using assms
proof (induction xs arbitrary: s)
  case Nil
  then have "is_chain nx (nx ! i) ys" by simp
  then show ?case using Nil by (simp add: chain_update)
qed auto

section \<open>The operations on lists\<close>

lemma init_chain:
  assumes "length nx = n" and "\<And>i. i < n \<Longrightarrow> nx ! i = (if i = n - 1 then None else Some (Suc i))"
  shows "is_chain nx (if k < n then Some k else None) [k..<n]"
proof (induction "n - k" arbitrary: k)
  case (Suc d)
  then have k: "k < n" by simp
  have "is_chain nx (if Suc k < n then Some (Suc k) else None) [Suc k..<n]" using Suc by simp
  moreover have "(if Suc k < n then Some (Suc k) else None) = nx ! k" using k assms(2) by auto
  ultimately show ?case using k assms(1) by (simp add: upt_conv_Cons)
qed simp

lemma init_pool_lists: "pool_inv (init_pool n f) \<and> active (init_pool n f) = [] \<and> avail (init_pool n f) = [0..<n]"
proof (rule pool_invI)
  show "is_chain (nexts (init_pool n f)) (freelist (init_pool n f)) [0..<n]"
  proof -
    have "is_chain (nexts (init_pool n f)) (if 0 < n then Some 0 else None) [0..<n]"
      by (rule init_chain) (simp_all add: init_pool_def)
    then show ?thesis by (simp add: init_pool_def split: if_splits)
  qed
qed (auto simp: init_pool_def)

lemma init_pool_fields:
  "length (nexts (init_pool n f)) = n" "nodes (init_pool n f) = map f [0..<n]"
  by (simp_all add: init_pool_def)

lemma new_node_lists:
  assumes "pool_inv P" and "avail P = p # fs"
  shows "\<exists>P'. new_node msg P = Inr (p, P') \<and> pool_inv P' \<and> active P' = p # active P \<and> avail P' = fs \<and> nodes P' = nodes P"
proof -
  let ?P = "P\<lparr>freelist := nexts P ! p, nexts := (nexts P)[p := head P], head := Some p\<rparr>"
  have f: "freelist P = Some p" and c: "is_chain (nexts P) (nexts P ! p) fs" "p < length (nexts P)" "p \<notin> set fs" "p \<notin> set (active P)"
    "is_chain (nexts P) (head P) (active P)"
    using assms by (auto simp: pool_inv_def)
  have "pool_inv ?P \<and> active ?P = p # active P \<and> avail ?P = fs"
    using assms c by (intro pool_invI) (auto simp: pool_inv_def chain_update)
  then show ?thesis using f by (simp add: new_node_def)
qed

lemma new_node_full: "pool_inv P \<Longrightarrow> avail P = [] \<Longrightarrow> new_node msg P = Inl (Assert_fail msg)"
  by (auto simp: new_node_def pool_inv_def)

lemma free_node_lists:
  assumes "pool_inv P" and "i \<in> set (active P)"
  shows "\<exists>P'. free_node msg i P = Inr P' \<and> pool_inv P' \<and> active P' = remove1 i (active P) \<and> avail P' = i # avail P \<and> nodes P' = nodes P"
proof -
  have inv: "is_chain (nexts P) (head P) (active P)" "is_chain (nexts P) (freelist P) (avail P)" "distinct (active P)" "distinct (avail P)"
    "set (active P) \<inter> set (avail P) = {}" "set (active P) \<union> set (avail P) = {..<length (nexts P)}" "length (nodes P) = length (nexts P)"
    using assms(1) by (auto simp: pool_inv_def)
  have i: "i < length (nexts P)" "i \<notin> set (avail P)" using assms(2) inv by auto
  show ?thesis
  proof (cases "head P = Some i")
    case True
    then obtain as where as: "active P = i # as" using inv(1) assms(2) by (cases "active P") auto
    let ?P = "P\<lparr>head := nexts P ! i, nexts := (nexts P)[i := freelist P], freelist := Some i\<rparr>"
    have "pool_inv ?P \<and> active ?P = as \<and> avail ?P = i # avail P"
      using inv i as by (intro pool_invI) (auto simp: chain_update)
    then show ?thesis using True as by (simp add: free_node_def)
  next
    case False
    have "active P \<noteq> []" using assms(2) by auto
    then obtain h t where ht: "active P = h # t" "i \<in> set t" using False inv(1) assms(2) by (cases "active P") auto
    obtain us ys where us: "active P = us @ i # ys" "i \<notin> set us" using split_list_first[OF assms(2)] by blast
    have "us \<noteq> []" using us ht inv(3) by (cases us) auto
    then obtain xs p where xs: "us = xs @ [p]" by (metis rev_exhaust)
    have act: "active P = xs @ p # i # ys" using us xs by simp
    have len: "length (active P) \<le> length (nexts P)" using inv by (intro distinct_bounded_length) auto
    have "takeWhile (\<lambda>p. p \<noteq> i) (us @ i # ys) = us" using us(2) by (induction us) auto
    then have "takeWhile (\<lambda>p. p \<noteq> i) (active P) = us" using us(1) by simp
    then have fp: "find_pred (length (nexts P)) (nexts P) (head P) i = Some p"
      using find_pred_chain[OF inv(1,3) len, of i] ht xs by simp
    let ?P = "P\<lparr>nexts := (nexts P)[p := nexts P ! i, i := freelist P], freelist := Some i\<rparr>"
    have d: "distinct (xs @ p # i # ys)" using inv(3) act by simp
    have "is_chain ((nexts P)[p := nexts P ! i]) (head P) (xs @ p # ys)"
      using chain_remove inv(1) act d by metis
    moreover have "p \<notin> set (avail P)" using inv(5) act by auto
    moreover have "remove1 i (active P) = xs @ p # ys" using act d by (simp add: remove1_append)
    ultimately have "pool_inv ?P \<and> active ?P = remove1 i (active P) \<and> avail ?P = i # avail P"
      using inv i d act by (intro pool_invI) (auto simp: chain_update)
    then show ?thesis using False fp by (simp add: free_node_def)
  qed
qed

lemma free_node_inactive:
  assumes "pool_inv P" and "i \<notin> set (active P)"
  shows "free_node msg i P = Inl (Panic msg)"
proof -
  have inv: "is_chain (nexts P) (head P) (active P)" "distinct (active P)" "set (active P) \<subseteq> {..<length (nexts P)}"
    using assms(1) by (auto simp: pool_inv_def)
  have "head P \<noteq> Some i" using inv(1) assms(2) by (cases "active P") auto
  moreover have "i \<notin> set (tl (active P))" using assms(2) by (cases "active P") auto
  ultimately show ?thesis
    using find_pred_chain[OF inv(1,2) distinct_bounded_length[OF inv(2,3)], of i] by (simp add: free_node_def)
qed

lemma set_nodes_inv [simp]:
  "pool_inv (P\<lparr>nodes := (nodes P)[i := x]\<rparr>) = pool_inv P" "active (P\<lparr>nodes := ns\<rparr>) = active P" "avail (P\<lparr>nodes := ns\<rparr>) = avail P"
  by (simp_all add: pool_inv_def active_def avail_def)

section \<open>The interface\<close>

text \<open>A component that hands out numbers below a limit and takes them back.  \<open>used\<close> are the numbers handed out,
  the latest first, \<open>unused\<close> those that will be handed out next, in this order.\<close>

locale slot_allocator =
  fixes inv :: "'s \<Rightarrow> bool" and used :: "'s \<Rightarrow> nat list" and unused :: "'s \<Rightarrow> nat list" and limit :: nat
    and alloc :: "'s \<Rightarrow> (nat \<times> 's) res" and release :: "nat \<Rightarrow> 's \<Rightarrow> 's res"
  assumes partition: "inv s \<Longrightarrow> distinct (used s @ unused s) \<and> set (used s @ unused s) = {..<limit}"
    and alloc_ok: "inv s \<Longrightarrow> unused s = i # us \<Longrightarrow> \<exists>s'. alloc s = Inr (i, s') \<and> inv s' \<and> used s' = i # used s \<and> unused s' = us"
    and alloc_full: "inv s \<Longrightarrow> unused s = [] \<Longrightarrow> \<exists>e. alloc s = Inl e"
    and release_ok: "inv s \<Longrightarrow> i \<in> set (used s) \<Longrightarrow> \<exists>s'. release i s = Inr s' \<and> inv s' \<and> used s' = remove1 i (used s) \<and> unused s' = i # unused s"
    and release_bad: "inv s \<Longrightarrow> i \<notin> set (used s) \<Longrightarrow> \<exists>e. release i s = Inl e"
begin

lemma alloc_step:
  assumes "inv s" and "alloc s = Inr (i, s')"
  shows "inv s' \<and> i < limit \<and> i \<notin> set (used s) \<and> used s' = i # used s"
proof (cases "unused s")
  case Nil
  then show ?thesis using alloc_full[OF assms(1)] assms(2) by auto
next
  case (Cons j us)
  then show ?thesis using alloc_ok[OF assms(1) Cons] partition[OF assms(1)] assms(2) by auto
qed

lemma release_step:
  assumes "inv s" and "release i s = Inr s'"
  shows "inv s' \<and> i \<in> set (used s) \<and> used s' = remove1 i (used s)"
  using release_ok[OF assms(1), of i] release_bad[OF assms(1), of i] assms(2) by (cases "i \<in> set (used s)") auto

text \<open>Allocation succeeds exactly while fewer than \<open>limit\<close> numbers are in use.\<close>

lemma alloc_succeeds_iff: "inv s \<Longrightarrow> (\<exists>r. alloc s = Inr r) \<longleftrightarrow> length (used s) < limit"
proof -
  assume i: "inv s"
  have "length (used s @ unused s) = limit"
    using partition[OF i] distinct_card[of "used s @ unused s"] by simp
  then show ?thesis using alloc_ok[OF i] alloc_full[OF i] by (cases "unused s") auto
qed

text \<open>Sequences of operations: \<open>None\<close> allocates, \<open>Some i\<close> releases \<open>i\<close>.\<close>

fun run :: "nat option list \<Rightarrow> 's \<Rightarrow> 's res" where
  "run [] s = Inr s"
| "run (None # os) s = bind_res (alloc s) (\<lambda>(i, s). run os s)"
| "run (Some i # os) s = bind_res (release i s) (run os)"

lemma run_inv: "inv s \<Longrightarrow> run os s = Inr s' \<Longrightarrow> inv s' \<and> distinct (used s') \<and> set (used s') \<subseteq> {..<limit}"
proof (induction os s rule: run.induct)
  case (1 s)
  then show ?case using partition[of s] by auto
next
  case (2 os s)
  then obtain i s1 where "alloc s = Inr (i, s1)" "run os s1 = Inr s'" by (auto simp: res_simps)
  then show ?case using 2 alloc_step[of s i s1] by blast
next
  case (3 i os s)
  then obtain s1 where "release i s = Inr s1" "run os s1 = Inr s'" by (auto simp: res_simps)
  then show ?case using 3 release_step[of s i s1] by blast
qed

end

text \<open>A pool of nodes is such an allocator.\<close>

lemma new_node_length: "new_node m P = Inr (i, P') \<Longrightarrow> length (nexts P') = length (nexts P)"
  by (auto simp: new_node_def split: option.splits)

lemma free_node_length: "free_node m i P = Inr P' \<Longrightarrow> length (nexts P') = length (nexts P)"
  by (auto simp: free_node_def split: option.splits if_splits)

interpretation node_pool: slot_allocator "\<lambda>P. pool_inv P \<and> length (nexts P) = n" active avail n "new_node m" "free_node m'" for n m m'
proof (unfold_locales, goal_cases)
  case (1 s)
  then show ?case by (auto simp: pool_inv_def)
next
  case (2 s i us)
  then obtain s' where "new_node m s = Inr (i, s')" "pool_inv s'" "active s' = i # active s" "avail s' = us"
    using new_node_lists[of s i us m] by blast
  then show ?case using 2 new_node_length[of m s i s'] by auto
next
  case (3 s)
  then show ?case using new_node_full[of s m] by auto
next
  case (4 s i)
  then obtain s' where "free_node m' i s = Inr s'" "pool_inv s'" "active s' = remove1 i (active s)" "avail s' = i # avail s"
    using free_node_lists[of s i m'] by blast
  then show ?case using 4 free_node_length[of m' i s s'] by auto
next
  case (5 s i)
  then show ?case using free_node_inactive[of s i m'] by auto
qed

end
