(* ===== verification/Sdb_Points.thy ===== *)
theory Sdb_Points
  imports Sdb_Expr_Proofs Pool "HOL-Library.Multiset"
begin

text \<open>
  Watchpoints and breakpoints of the debugger (\<open>nemu/src/monitor/sdb/watchpoint.c\<close> and \<open>breakpoint.c\<close>) over
  the node pools.  The pointer \<open>expr\<close> of a watchpoint to a heap string is null, live or dangling, because
  \<open>free_wp\<close> releases the string without clearing the pointer.
\<close>

section \<open>Definitions\<close>

datatype heap_str = NullPtr | Live string | Freed

record WP =
  wp_NO :: nat
  wp_expr :: heap_str
  last_val :: u32
  last_val_valid :: bool

record BP =
  bp_NO :: nat
  bp_addr :: u32

definition NR_WP :: nat where "NR_WP = 32"
definition NR_BP :: nat where "NR_BP = 32"

definition init_wp_pool :: "WP pool" where
  "init_wp_pool = init_pool NR_WP (\<lambda>i. \<lparr>wp_NO = i, wp_expr = NullPtr, last_val = 0, last_val_valid = False\<rparr>)"

definition init_bp_pool :: "BP pool" where
  "init_bp_pool = init_pool NR_BP (\<lambda>i. \<lparr>bp_NO = NR_WP + i, bp_addr = 0\<rparr>)"

definition set_node :: "nat \<Rightarrow> 'a \<Rightarrow> 'a pool \<Rightarrow> 'a pool" where
  "set_node i x P = P\<lparr>nodes := (nodes P)[i := x]\<rparr>"

definition new_wp :: "WP pool \<Rightarrow> (nat \<times> WP pool) res" where
  "new_wp = new_node ''No more watchpoints available''"

definition free_wp :: "nat \<Rightarrow> WP pool \<Rightarrow> WP pool res" where
  "free_wp i P =
     (if \<not> i < length (nodes P) then Inl (Undefined ''watchpoint index'')
      else let w = nodes P ! i in case wp_expr w of
        Freed \<Rightarrow> Inl (Undefined ''double free'')
      | Live e \<Rightarrow> free_node ''Watchpoint not found'' i (set_node i (w\<lparr>wp_expr := Freed\<rparr>) P)
      | NullPtr \<Rightarrow> free_node ''Watchpoint not found'' i P)"

definition stop_if_running :: "nemu \<Rightarrow> nemu" where
  "stop_if_running st = (if nstate st = NEMU_RUNNING then st\<lparr>nstate := NEMU_STOP\<rparr> else st)"

text \<open>\<open>expr\<close> returns 0 when it fails.\<close>

definition wp_update_one :: "config \<Rightarrow> nat \<Rightarrow> WP pool \<Rightarrow> nemu \<Rightarrow> (WP pool \<times> nemu) res" where
  "wp_update_one cfg i P st = (let w = nodes P ! i in case wp_expr w of
     Live e \<Rightarrow> bind_res (expr cfg e st) (\<lambda>(v, st).
       if \<not> last_val_valid w then
         Inr (set_node i (w\<lparr>last_val := (case v of Some x \<Rightarrow> x | None \<Rightarrow> 0), last_val_valid := (v \<noteq> None)\<rparr>) P, st)
       else case v of
         None \<Rightarrow> Inr (P, st)
       | Some curr_val \<Rightarrow>
           if last_val w \<noteq> curr_val then Inr (set_node i (w\<lparr>last_val := curr_val\<rparr>) P, stop_if_running st)
           else Inr (P, st))
   | _ \<Rightarrow> Inl (Undefined ''expression of a free watchpoint''))"

fun wp_update_list :: "config \<Rightarrow> nat list \<Rightarrow> WP pool \<Rightarrow> nemu \<Rightarrow> (WP pool \<times> nemu) res" where
  "wp_update_list cfg [] P st = Inr (P, st)"
| "wp_update_list cfg (i # is) P st = bind_res (wp_update_one cfg i P st) (\<lambda>(P, st). wp_update_list cfg is P st)"

definition wp_update :: "config \<Rightarrow> WP pool \<Rightarrow> nemu \<Rightarrow> (WP pool \<times> nemu) res" where
  "wp_update cfg P st = wp_update_list cfg (active P) P st"

text \<open>The watchpoints in the order \<open>wp_display\<close> prints them.\<close>

definition wp_display :: "WP pool \<Rightarrow> WP list" where
  "wp_display P = map ((!) (nodes P)) (rev (active P))"

definition wp_create :: "config \<Rightarrow> string \<Rightarrow> WP pool \<Rightarrow> nemu \<Rightarrow> (WP pool \<times> nemu) res" where
  "wp_create cfg e P st = bind_res (syntax_check e) (\<lambda>ok.
     if \<not> ok then Inr (P, st)
     else bind_res (new_wp P) (\<lambda>(p, P).
       wp_update_one cfg p (set_node p ((nodes P ! p)\<lparr>wp_expr := Live e, last_val_valid := False, last_val := 0\<rparr>) P) st))"

definition wp_delete :: "nat \<Rightarrow> WP pool \<Rightarrow> WP pool res" where
  "wp_delete NO P = free_wp NO P"

definition new_bp :: "BP pool \<Rightarrow> (nat \<times> BP pool) res" where
  "new_bp = new_node ''No more breakpoints available''"

definition free_bp :: "nat \<Rightarrow> BP pool \<Rightarrow> BP pool res" where
  "free_bp i P = free_node ''Breakpoint not found'' i P"

definition bp_update_one :: "nat \<Rightarrow> BP pool \<Rightarrow> nemu \<Rightarrow> nemu" where
  "bp_update_one i P st = (if cpu_pc (cpu st) = bp_addr (nodes P ! i) then stop_if_running st else st)"

definition bp_update :: "BP pool \<Rightarrow> nemu \<Rightarrow> nemu" where
  "bp_update P st = fold (\<lambda>i. bp_update_one i P) (active P) st"

definition bp_display :: "BP pool \<Rightarrow> BP list" where
  "bp_display P = map ((!) (nodes P)) (rev (active P))"

definition bp_create :: "u32 \<Rightarrow> BP pool \<Rightarrow> nemu \<Rightarrow> (BP pool \<times> nemu) res" where
  "bp_create addr P st = bind_res (new_bp P) (\<lambda>(p, P).
     let P = set_node p ((nodes P ! p)\<lparr>bp_addr := addr\<rparr>) P in Inr (P, bp_update_one p P st))"

definition bp_delete :: "nat \<Rightarrow> BP pool \<Rightarrow> BP pool res" where
  "bp_delete NO P = free_bp NO P"

section \<open>Invariants\<close>

definition wp_inv :: "WP pool \<Rightarrow> bool" where
  "wp_inv P \<longleftrightarrow> pool_inv P \<and> length (nexts P) = NR_WP \<and> list_all (\<lambda>i. wp_NO (nodes P ! i) = i) [0..<NR_WP] \<and>
     list_all (\<lambda>i. \<exists>e. wp_expr (nodes P ! i) = Live e) (active P)"

definition bp_inv :: "BP pool \<Rightarrow> bool" where
  "bp_inv P \<longleftrightarrow> pool_inv P \<and> length (nexts P) = NR_BP \<and> list_all (\<lambda>i. bp_NO (nodes P ! i) = NR_WP + i) [0..<NR_BP]"

lemma set_node_simps [simp]:
  "pool_inv (set_node i x P) = pool_inv P" "active (set_node i x P) = active P" "avail (set_node i x P) = avail P"
  "nexts (set_node i x P) = nexts P" "length (nodes (set_node i x P)) = length (nodes P)"
  by (simp_all add: set_node_def)

lemma nodes_set_node: "nodes (set_node i x P) = (nodes P)[i := x]"
  by (simp add: set_node_def)

lemma wp_inv_init: "wp_inv init_wp_pool"
  by (simp add: wp_inv_def init_wp_pool_def list_all_iff init_pool_lists init_pool_fields)

lemma bp_inv_init: "bp_inv init_bp_pool"
  by (simp add: bp_inv_def init_bp_pool_def list_all_iff init_pool_lists init_pool_fields)

lemma wp_inv_nodes: "wp_inv P \<Longrightarrow> length (nodes P) = NR_WP"
  by (simp add: wp_inv_def pool_inv_def)

lemma wp_inv_active: "wp_inv P \<Longrightarrow> i \<in> set (active P) \<Longrightarrow> i < NR_WP"
  using pool_inv_active[of P i] by (simp add: wp_inv_def)

text \<open>Writing back a node under its own number, with a live expression.\<close>

lemma wp_inv_set_node:
  assumes "wp_inv P" and "wp_NO x = i" and "i \<in> set (active P) \<Longrightarrow> \<exists>e. wp_expr x = Live e"
  shows "wp_inv (set_node i x P)"
proof -
  have l: "length (nodes P) = NR_WP" by (rule wp_inv_nodes[OF assms(1)])
  have "wp_NO (nodes (set_node i x P) ! k) = k" if "k < NR_WP" for k
    using assms(1,2) l that by (cases "k = i") (auto simp: wp_inv_def list_all_iff nodes_set_node)
  moreover have "\<exists>e. wp_expr (nodes (set_node i x P) ! k) = Live e" if "k \<in> set (active P)" for k
    using assms(1,3) l that wp_inv_active[OF assms(1) that] by (cases "k = i") (auto simp: wp_inv_def list_all_iff nodes_set_node)
  ultimately show ?thesis using assms(1) by (simp add: wp_inv_def list_all_iff)
qed

lemma wp_update_one_inv:
  assumes "wp_inv P" and "i \<in> set (active P)" and "wp_update_one cfg i P st = Inr (P', st')"
  shows "wp_inv P' \<and> active P' = active P"
proof -
  obtain e where e: "wp_expr (nodes P ! i) = Live e" using assms(1,2) by (auto simp: wp_inv_def list_all_iff)
  have n: "wp_NO (nodes P ! i) = i" using assms(1) wp_inv_active[OF assms(1,2)] by (auto simp: wp_inv_def list_all_iff)
  have upd: "wp_inv (set_node i ((nodes P ! i)\<lparr>last_val := v, last_val_valid := b\<rparr>) P)" for v b
    using assms(1) e n by (intro wp_inv_set_node) auto
  have upd': "wp_inv (set_node i ((nodes P ! i)\<lparr>last_val := v\<rparr>) P)" for v
    using assms(1) e n by (intro wp_inv_set_node) auto
  show ?thesis using assms(1,3) upd upd' e
    by (auto simp: wp_update_one_def Let_def res_simps split: if_splits option.splits)
qed

lemma wp_update_inv:
  assumes "wp_inv P" and "wp_update cfg P st = Inr (P', st')"
  shows "wp_inv P' \<and> active P' = active P"
proof -
  have "set is \<subseteq> set (active P) \<Longrightarrow> wp_inv P \<Longrightarrow> wp_update_list cfg is P st = Inr (P', st') \<Longrightarrow> wp_inv P' \<and> active P' = active P" for "is" P st
  proof (induction "is" arbitrary: P st)
    case (Cons i "is")
    then obtain P1 st1 where 1: "wp_update_one cfg i P st = Inr (P1, st1)" "wp_update_list cfg is P1 st1 = Inr (P', st')"
      by (auto simp: res_simps)
    then have "wp_inv P1 \<and> active P1 = active P" using Cons.prems wp_update_one_inv[of P i] by auto
    then show ?case using Cons.IH[of P1 st1] Cons.prems 1(2) by simp
  qed simp
  then show ?thesis using assms by (auto simp: wp_update_def)
qed

lemma wp_create_inv:
  assumes "wp_inv P" and "wp_create cfg e P st = Inr (P', st')"
  shows "wp_inv P'"
proof (cases "syntax_check e = Inr True")
  case False
  then show ?thesis using assms by (cases "syntax_check e") (auto simp: wp_create_def)
next
  case True
  then obtain p P1 where p: "new_wp P = Inr (p, P1)"
    and u: "wp_update_one cfg p (set_node p ((nodes P1 ! p)\<lparr>wp_expr := Live e, last_val_valid := False, last_val := 0\<rparr>) P1) st = Inr (P', st')"
    using assms(2) by (auto simp: wp_create_def res_simps)
  have i: "pool_inv P \<and> length (nexts P) = NR_WP" using assms(1) by (simp add: wp_inv_def)
  have a: "pool_inv P1 \<and> length (nexts P1) = NR_WP" "p < NR_WP" "p \<notin> set (active P)" "active P1 = p # active P"
    using node_pool.alloc_step[OF i p[unfolded new_wp_def]] by auto
  have n: "nodes P1 = nodes P" using p by (auto simp: new_wp_def new_node_def split: option.splits)
  let ?x = "(nodes P1 ! p)\<lparr>wp_expr := Live e, last_val_valid := False, last_val := 0\<rparr>"
  have "wp_inv (set_node p ?x P1)"
    using assms(1) a n wp_inv_nodes[OF assms(1)]
    by (auto simp: wp_inv_def list_all_iff nodes_set_node nth_list_update)
  then show ?thesis using wp_update_one_inv[OF _ _ u] a by simp
qed

lemma wp_delete_active:
  assumes "wp_inv P" and "i \<in> set (active P)"
  shows "\<exists>P'. wp_delete i P = Inr P' \<and> wp_inv P' \<and> active P' = remove1 i (active P) \<and> wp_expr (nodes P' ! i) = Freed"
proof -
  obtain e where e: "wp_expr (nodes P ! i) = Live e" using assms by (auto simp: wp_inv_def list_all_iff)
  let ?P = "set_node i ((nodes P ! i)\<lparr>wp_expr := Freed\<rparr>) P"
  have i: "i < NR_WP" using wp_inv_active[OF assms] .
  have "pool_inv ?P" "i \<in> set (active ?P)" using assms by (auto simp: wp_inv_def)
  then obtain P' where P': "free_node ''Watchpoint not found'' i ?P = Inr P'" "pool_inv P'" "active P' = remove1 i (active P)" "nodes P' = nodes ?P"
    using free_node_lists[of ?P i "''Watchpoint not found''"] by auto
  have d: "distinct (active P)" using assms(1) by (simp add: wp_inv_def pool_inv_def)
  have "wp_inv P'"
    using P' assms(1) d i wp_inv_nodes[OF assms(1)] free_node_length[OF P'(1)]
    by (auto simp: wp_inv_def list_all_iff nodes_set_node nth_list_update)
  then show ?thesis using P' e i wp_inv_nodes[OF assms(1)]
    by (auto simp: wp_delete_def free_wp_def Let_def nodes_set_node)
qed

lemma wp_delete_inactive:
  assumes "wp_inv P" and "i \<notin> set (active P)"
  shows "\<exists>e. wp_delete i P = Inl e"
proof -
  have "pool_inv (set_node i x P)" "pool_inv P" for x using assms(1) by (simp_all add: wp_inv_def)
  then show ?thesis using assms(2)
    by (auto simp: wp_delete_def free_wp_def Let_def free_node_inactive split: heap_str.splits)
qed

lemma wp_delete_inv: "wp_inv P \<Longrightarrow> wp_delete i P = Inr P' \<Longrightarrow> wp_inv P'"
  using wp_delete_active[of P i] wp_delete_inactive[of P i] by (cases "i \<in> set (active P)") auto

section \<open>Reachable pools\<close>

inductive wp_reach :: "config \<Rightarrow> WP pool \<Rightarrow> bool" for cfg where
  start: "wp_reach cfg init_wp_pool"
| create: "wp_reach cfg P \<Longrightarrow> wp_create cfg e P st = Inr (P', st') \<Longrightarrow> wp_reach cfg P'"
| delete: "wp_reach cfg P \<Longrightarrow> wp_delete i P = Inr P' \<Longrightarrow> wp_reach cfg P'"
| update: "wp_reach cfg P \<Longrightarrow> wp_update cfg P st = Inr (P', st') \<Longrightarrow> wp_reach cfg P'"

lemma wp_reach_inv: "wp_reach cfg P \<Longrightarrow> wp_inv P"
  by (induction rule: wp_reach.induct) (auto intro: wp_inv_init wp_create_inv wp_delete_inv dest: wp_update_inv)

lemma map_NO_active: "wp_inv P \<Longrightarrow> map (\<lambda>i. wp_NO (nodes P ! i)) (active P) = active P"
  by (rule map_idI) (auto simp: wp_inv_def list_all_iff dest: pool_inv_active)

lemma active_distinct: "wp_inv P \<Longrightarrow> distinct (active P)"
  by (simp add: wp_inv_def pool_inv_def)

lemma active_length: "wp_inv P \<Longrightarrow> length (active P) \<le> NR_WP"
  using wp_inv_active[of P] distinct_bounded_length[of "active P" NR_WP] by (auto simp: active_distinct)

lemma wp_display_NO: "wp_inv P \<Longrightarrow> map wp_NO (wp_display P) = rev (active P)"
  using map_NO_active[of P] by (simp add: wp_display_def rev_map [symmetric] comp_def)

text \<open>C16: whatever sequence of watchpoints is set, deleted and checked, the debugger lists at most 32 watchpoints with
  pairwise different numbers, each with an intact expression, and a listed number is the one that deletes it.\<close>

theorem watchpoints_consistent:
  assumes "wp_reach cfg P"
  shows "length (wp_display P) \<le> 32 \<and> distinct (map wp_NO (wp_display P)) \<and>
    list_all (\<lambda>w. \<exists>e P'. wp_expr w = Live e \<and> wp_delete (wp_NO w) P = Inr P' \<and>
      mset (map wp_NO (wp_display P')) = mset (map wp_NO (wp_display P)) - {#wp_NO w#}) (wp_display P)"
proof -
  have inv: "wp_inv P" using assms by (rule wp_reach_inv)
  have "length (wp_display P) \<le> 32" using active_length[OF inv] by (simp add: wp_display_def NR_WP_def)
  moreover have "distinct (map wp_NO (wp_display P))"
    using inv by (simp add: wp_display_NO active_distinct)
  moreover have "\<exists>e P'. wp_expr w = Live e \<and> wp_delete (wp_NO w) P = Inr P' \<and>
      mset (map wp_NO (wp_display P')) = mset (map wp_NO (wp_display P)) - {#wp_NO w#}" if w: "w \<in> set (wp_display P)" for w
  proof -
    obtain i where i: "i \<in> set (active P)" "w = nodes P ! i" using w by (auto simp: wp_display_def)
    obtain e where e: "wp_expr w = Live e" using i inv by (auto simp: wp_inv_def list_all_iff)
    have n: "wp_NO w = i" using i inv pool_inv_active[of P i] by (auto simp: wp_inv_def list_all_iff)
    obtain P' where P': "wp_delete i P = Inr P'" "wp_inv P'" "active P' = remove1 i (active P)"
      using wp_delete_active[OF inv i(1)] by auto
    moreover have "mset (map wp_NO (wp_display P')) = mset (map wp_NO (wp_display P)) - {#i#}"
      unfolding wp_display_NO[OF inv] wp_display_NO[OF P'(2)] P'(3) by simp
    ultimately show ?thesis using e n by auto
  qed
  ultimately show ?thesis by (simp add: list_all_iff)
qed

section \<open>Detection of changes\<close>

lemma wp_update_list_detects:
  assumes "wp_inv P" and "distinct is" and "set is \<subseteq> set (active P)"
    and "\<And>i. i \<in> set is \<Longrightarrow> last_val_valid (nodes P ! i)"
    and "\<And>i e x. i \<in> set is \<Longrightarrow> wp_expr (nodes P ! i) = Live e \<Longrightarrow> expr cfg e (st\<lparr>nstate := x\<rparr>) = Inr (Some (val i), st\<lparr>nstate := x\<rparr>)"
  shows "\<exists>P'. wp_update_list cfg is P st = Inr (P', st\<lparr>nstate := (if nstate st = NEMU_RUNNING \<and> (\<exists>i\<in>set is. last_val (nodes P ! i) \<noteq> val i)
       then NEMU_STOP else nstate st)\<rparr>) \<and>
    (\<forall>i\<in>set is. last_val (nodes P' ! i) = val i) \<and> (\<forall>i. i \<notin> set is \<longrightarrow> nodes P' ! i = nodes P ! i)"
  using assms
proof (induction "is" arbitrary: P st)
  case Nil
  then show ?case by simp
next
  case (Cons i "is")
  obtain e where e: "wp_expr (nodes P ! i) = Live e" using Cons.prems(1,3) by (auto simp: wp_inv_def list_all_iff)
  have ev: "expr cfg e st = Inr (Some (val i), st)" using Cons.prems(5)[of i e "nstate st"] e by simp
  define st1 where "st1 = (if last_val (nodes P ! i) \<noteq> val i then stop_if_running st else st)"
  define P1 where "P1 = (if last_val (nodes P ! i) \<noteq> val i then set_node i ((nodes P ! i)\<lparr>last_val := val i\<rparr>) P else P)"
  have one: "wp_update_one cfg i P st = Inr (P1, st1)"
    using Cons.prems(4)[of i] e ev by (simp add: wp_update_one_def Let_def st1_def P1_def)
  have inv: "wp_inv P1" "active P1 = active P" using wp_update_one_inv[OF Cons.prems(1) _ one] Cons.prems(3) by auto
  have i: "i < length (nodes P)" using Cons.prems(1,3) wp_inv_active[of P i] wp_inv_nodes[of P] by simp
  have same: "k \<noteq> i \<Longrightarrow> nodes P1 ! k = nodes P ! k" for k by (simp add: P1_def nodes_set_node)
  have lv: "last_val (nodes P1 ! i) = val i" using i by (simp add: P1_def nodes_set_node)
  have st: "st1\<lparr>nstate := x\<rparr> = st\<lparr>nstate := x\<rparr>" for x by (simp add: st1_def stop_if_running_def)
  have n1: "nstate st1 = (if last_val (nodes P ! i) \<noteq> val i \<and> nstate st = NEMU_RUNNING then NEMU_STOP else nstate st)"
    by (simp add: st1_def stop_if_running_def)
  have ni: "k \<in> set is \<Longrightarrow> k \<noteq> i" for k using Cons.prems(2) by auto
  have s: "k \<in> set is \<Longrightarrow> nodes P1 ! k = nodes P ! k" for k using same ni by blast
  have "\<exists>P'. wp_update_list cfg is P1 st1 = Inr (P', st1\<lparr>nstate := (if nstate st1 = NEMU_RUNNING \<and> (\<exists>k\<in>set is. last_val (nodes P1 ! k) \<noteq> val k)
       then NEMU_STOP else nstate st1)\<rparr>) \<and>
    (\<forall>k\<in>set is. last_val (nodes P' ! k) = val k) \<and> (\<forall>k. k \<notin> set is \<longrightarrow> nodes P' ! k = nodes P1 ! k)"
  proof (rule Cons.IH[OF inv(1)])
    show "distinct is" "set is \<subseteq> set (active P1)" using Cons.prems(2,3) inv(2) by simp_all
    fix k assume k: "k \<in> set is"
    show "expr cfg e' (st1\<lparr>nstate := x\<rparr>) = Inr (Some (val k), st1\<lparr>nstate := x\<rparr>)" if "wp_expr (nodes P1 ! k) = Live e'" for e' x
      unfolding st using Cons.prems(5)[of k e' x] k that s[OF k] by simp
    show "last_val_valid (nodes P1 ! k)" using Cons.prems(4)[of k] k s[OF k] by simp
  qed
  then obtain P' where P': "wp_update_list cfg is P1 st1 = Inr (P', st1\<lparr>nstate := (if nstate st1 = NEMU_RUNNING \<and> (\<exists>k\<in>set is. last_val (nodes P1 ! k) \<noteq> val k)
       then NEMU_STOP else nstate st1)\<rparr>)" "\<forall>k\<in>set is. last_val (nodes P' ! k) = val k" "\<forall>k. k \<notin> set is \<longrightarrow> nodes P' ! k = nodes P1 ! k"
    by blast
  have ex: "(\<exists>k\<in>set is. last_val (nodes P1 ! k) \<noteq> val k) = (\<exists>k\<in>set is. last_val (nodes P ! k) \<noteq> val k)" using s by simp
  have ns: "st1\<lparr>nstate := (if nstate st1 = NEMU_RUNNING \<and> (\<exists>k\<in>set is. last_val (nodes P1 ! k) \<noteq> val k) then NEMU_STOP else nstate st1)\<rparr> =
      st\<lparr>nstate := (if nstate st = NEMU_RUNNING \<and> (\<exists>k\<in>set (i # is). last_val (nodes P ! k) \<noteq> val k) then NEMU_STOP else nstate st)\<rparr>"
    unfolding ex st n1 by (cases "nstate st = NEMU_RUNNING"; cases "last_val (nodes P ! i) = val i") simp_all
  have "wp_update_list cfg (i # is) P st = wp_update_list cfg is P1 st1" by (simp add: one)
  then have "wp_update_list cfg (i # is) P st =
      Inr (P', st\<lparr>nstate := (if nstate st = NEMU_RUNNING \<and> (\<exists>k\<in>set (i # is). last_val (nodes P ! k) \<noteq> val k) then NEMU_STOP else nstate st)\<rparr>)"
    unfolding P'(1) ns .
  moreover have "last_val (nodes P' ! i) = val i" using P'(3) lv Cons.prems(2) by simp
  then have "\<forall>k\<in>set (i # is). last_val (nodes P' ! k) = val k" using P'(2) by simp
  moreover have "\<forall>k. k \<notin> set (i # is) \<longrightarrow> nodes P' ! k = nodes P ! k" using P'(3) same by simp
  ultimately show ?case by blast
qed

text \<open>C17: checking the watchpoints after an instruction stops a running emulator exactly when the value of one of
  them differs from its recorded value, records all current values and changes nothing else of the machine, for
  watchpoints whose expressions have been evaluated before and can be evaluated without side effects.\<close>

theorem wp_update_detects:
  assumes "wp_reach cfg P" and "list_all (\<lambda>w. last_val_valid w) (wp_display P)"
    and "\<And>w e x. w \<in> set (wp_display P) \<Longrightarrow> wp_expr w = Live e \<Longrightarrow>
      expr cfg e (st\<lparr>nstate := x\<rparr>) = Inr (Some (val (wp_NO w)), st\<lparr>nstate := x\<rparr>)"
  shows "\<exists>P'. wp_update cfg P st = Inr (P', st\<lparr>nstate := (if nstate st = NEMU_RUNNING \<and>
       (\<exists>w\<in>set (wp_display P). last_val w \<noteq> val (wp_NO w)) then NEMU_STOP else nstate st)\<rparr>) \<and>
    list_all (\<lambda>w. last_val w = val (wp_NO w)) (wp_display P')"
proof -
  have inv: "wp_inv P" using assms(1) by (rule wp_reach_inv)
  have no: "i \<in> set (active P) \<Longrightarrow> wp_NO (nodes P ! i) = i" for i
    using inv pool_inv_active[of P i] by (auto simp: wp_inv_def list_all_iff)
  have d: "distinct (active P)" using inv by (simp add: wp_inv_def pool_inv_def)
  have disp: "set (wp_display P) = (!) (nodes P) ` set (active P)" by (simp add: wp_display_def)
  have "\<exists>P'. wp_update_list cfg (active P) P st = Inr (P', st\<lparr>nstate := (if nstate st = NEMU_RUNNING \<and>
       (\<exists>i\<in>set (active P). last_val (nodes P ! i) \<noteq> val i) then NEMU_STOP else nstate st)\<rparr>) \<and>
    (\<forall>i\<in>set (active P). last_val (nodes P' ! i) = val i) \<and> (\<forall>i. i \<notin> set (active P) \<longrightarrow> nodes P' ! i = nodes P ! i)"
  proof (intro wp_update_list_detects[OF inv d] subset_refl)
    fix i assume i: "i \<in> set (active P)"
    then show "last_val_valid (nodes P ! i)" using assms(2) by (simp add: list_all_iff disp)
    show "expr cfg e (st\<lparr>nstate := x\<rparr>) = Inr (Some (val i), st\<lparr>nstate := x\<rparr>)" if "wp_expr (nodes P ! i) = Live e" for e x
      using assms(3)[of "nodes P ! i" e x] i that no[OF i] by (simp add: disp)
  qed
  then obtain P' where P': "wp_update cfg P st = Inr (P', st\<lparr>nstate := (if nstate st = NEMU_RUNNING \<and>
       (\<exists>i\<in>set (active P). last_val (nodes P ! i) \<noteq> val i) then NEMU_STOP else nstate st)\<rparr>)"
    and v: "\<forall>i\<in>set (active P). last_val (nodes P' ! i) = val i" unfolding wp_update_def by blast
  have inv': "wp_inv P'" "active P' = active P" using wp_update_inv[OF inv P'] by auto
  have "i \<in> set (active P) \<Longrightarrow> wp_NO (nodes P' ! i) = i" for i
    using inv' pool_inv_active[of P' i] by (auto simp: wp_inv_def list_all_iff)
  then have "list_all (\<lambda>w. last_val w = val (wp_NO w)) (wp_display P')" using v inv' by (auto simp: list_all_iff wp_display_def)
  moreover have "(\<exists>w\<in>set (wp_display P). last_val w \<noteq> val (wp_NO w)) = (\<exists>i\<in>set (active P). last_val (nodes P ! i) \<noteq> val i)"
    using no by (auto simp: disp)
  ultimately show ?thesis using P' by auto
qed

section \<open>Examples\<close>

definition wp5 :: "WP pool" where
  "wp5 = set_node 0 \<lparr>wp_NO = 0, wp_expr = Live ''5'', last_val = 5, last_val_valid = True\<rparr>
     (init_wp_pool\<lparr>freelist := Some 1, nexts := (nexts init_wp_pool)[0 := None], head := Some 0\<rparr>)"

lemma expr_5: "expr cfg ''5'' st = Inr (Some 5, st)"
  using expr_digit[of "CHR ''5''" cfg st] by (simp add: is_digit_def digit_val_def)

lemma create_wp5: "wp_create cfg ''5'' init_wp_pool st = Inr (wp5, st)"
  by (simp add: wp_create_def expr_syntax[OF expr_5] new_wp_def new_node_def wp_update_one_def init_wp_pool_def init_pool_def
      NR_WP_def wp5_def set_node_def expr_5 upt_rec)

lemma display_wp5: "wp_display wp5 = [\<lparr>wp_NO = 0, wp_expr = Live ''5'', last_val = 5, last_val_valid = True\<rparr>]"
  by (simp add: wp_display_def active_def wp5_def set_node_def init_wp_pool_def init_pool_def NR_WP_def upt_rec)

lemma reach_wp5: "wp_reach cfg wp5"
  by (rule wp_reach.create[OF wp_reach.start create_wp5[of cfg nemu_boot]])

theorem watchpoints_consistent_witness:
  "length (wp_display wp5) \<le> 32 \<and> list_all (\<lambda>w. \<exists>P'. wp_delete (wp_NO w) wp5 = Inr P') (wp_display wp5)"
  using watchpoints_consistent[OF reach_wp5[of default_config]] by (auto simp: list_all_iff)

theorem wp_update_detects_witness:
  "\<exists>P'. wp_update default_config wp5 nemu_boot = Inr (P', nemu_boot) \<and> list_all (\<lambda>w. last_val w = 5) (wp_display P')"
proof -
  have "list_all (\<lambda>w. last_val_valid w) (wp_display wp5)" by (simp add: display_wp5)
  moreover have "expr default_config e (nemu_boot\<lparr>nstate := x\<rparr>) = Inr (Some 5, nemu_boot\<lparr>nstate := x\<rparr>)"
    if "w \<in> set (wp_display wp5)" "wp_expr w = Live e" for w e x using that by (auto simp: display_wp5 expr_5)
  ultimately obtain P' where "wp_update default_config wp5 nemu_boot = Inr (P', nemu_boot\<lparr>nstate := (if nstate nemu_boot = NEMU_RUNNING \<and>
       (\<exists>w\<in>set (wp_display wp5). last_val w \<noteq> 5) then NEMU_STOP else nstate nemu_boot)\<rparr>)" "list_all (\<lambda>w. last_val w = 5) (wp_display P')"
    using wp_update_detects[OF reach_wp5, where st = nemu_boot and val = "\<lambda>_. 5"] by blast
  then show ?thesis by (simp add: nemu_boot_def)
qed

section \<open>Deletion\<close>

text \<open>Deleting a watchpoint twice frees its expression string twice: \<open>free_wp\<close> releases the string before it
  looks whether the watchpoint is in use and leaves the pointer dangling.\<close>

theorem wp_delete_twice:
  assumes "wp_reach cfg P" and "w \<in> set (wp_display P)"
  shows "\<exists>P'. wp_delete (wp_NO w) P = Inr P' \<and> wp_delete (wp_NO w) P' = Inl (Undefined ''double free'')"
proof -
  have inv: "wp_inv P" using assms(1) by (rule wp_reach_inv)
  obtain i where i: "i \<in> set (active P)" "w = nodes P ! i" using assms(2) by (auto simp: wp_display_def)
  have n: "wp_NO w = i" using i inv pool_inv_active[of P i] by (auto simp: wp_inv_def list_all_iff)
  obtain P' where P': "wp_delete i P = Inr P'" "wp_inv P'" "wp_expr (nodes P' ! i) = Freed"
    using wp_delete_active[OF inv i(1)] by auto
  have "i < length (nodes P')" using wp_inv_active[OF inv i(1)] wp_inv_nodes[OF P'(2)] by simp
  then show ?thesis using P' n by (simp add: wp_delete_def free_wp_def Let_def)
qed

theorem wp_delete_twice_witness:
  "\<exists>P'. wp_delete 0 wp5 = Inr P' \<and> wp_delete 0 P' = Inl (Undefined ''double free'')"
  using wp_delete_twice[OF reach_wp5[of default_config]] by (simp add: display_wp5)

text \<open>Breakpoints.\<close>

lemma new_bp_inv:
  assumes "bp_inv P" and "bp_create a P st = Inr (P', st')"
  shows "bp_inv P'"
proof -
  obtain p P1 where p: "new_bp P = Inr (p, P1)" and P': "P' = set_node p ((nodes P1 ! p)\<lparr>bp_addr := a\<rparr>) P1"
    using assms(2) by (auto simp: bp_create_def res_simps Let_def)
  have i: "pool_inv P \<and> length (nexts P) = NR_BP" using assms(1) by (simp add: bp_inv_def)
  have a: "pool_inv P1 \<and> length (nexts P1) = NR_BP" "p < NR_BP"
    using node_pool.alloc_step[OF i p[unfolded new_bp_def]] by auto
  have n: "nodes P1 = nodes P" using p by (auto simp: new_bp_def new_node_def split: option.splits)
  have l: "length (nodes P) = NR_BP" using assms(1) by (simp add: bp_inv_def pool_inv_def)
  have "bp_NO (nodes P' ! k) = NR_WP + k" if "k < NR_BP" for k
    using assms(1) that l a(2) n by (cases "k = p") (auto simp: P' nodes_set_node bp_inv_def list_all_iff)
  then show ?thesis using a by (simp add: bp_inv_def P' list_all_iff)
qed

inductive bp_reach :: "BP pool \<Rightarrow> bool" where
  start: "bp_reach init_bp_pool"
| create: "bp_reach P \<Longrightarrow> bp_create a P st = Inr (P', st') \<Longrightarrow> bp_reach P'"

lemma bp_reach_inv: "bp_reach P \<Longrightarrow> bp_inv P"
  by (induction rule: bp_reach.induct) (auto intro: bp_inv_init new_bp_inv)

text \<open>No breakpoint can be deleted by the number it is listed under: the numbers start at \<open>NR_WP\<close> but
  \<open>bp_delete\<close> uses the number as an index of the pool, so the attempt ends in the panic of \<open>free_bp\<close>.\<close>

theorem bp_delete_fails:
  assumes "bp_reach P" and "b \<in> set (bp_display P)"
  shows "bp_delete (bp_NO b) P = Inl (Panic ''Breakpoint not found'')"
proof -
  have inv: "bp_inv P" using assms(1) by (rule bp_reach_inv)
  obtain i where i: "i \<in> set (active P)" "b = nodes P ! i" using assms(2) by (auto simp: bp_display_def)
  have n: "bp_NO b = NR_WP + i" using i inv pool_inv_active[of P i] by (auto simp: bp_inv_def list_all_iff)
  have "bp_NO b \<notin> set (active P)" using n inv pool_inv_active[of P "bp_NO b"] by (auto simp: bp_inv_def NR_WP_def NR_BP_def)
  then show ?thesis using inv by (simp add: bp_delete_def free_bp_def free_node_inactive bp_inv_def)
qed

theorem bp_delete_fails_witness:
  "\<exists>P. bp_create 0x80000010 init_bp_pool nemu_boot = Inr (P, nemu_boot) \<and> bp_delete 32 P = Inl (Panic ''Breakpoint not found'')"
proof -
  obtain P where P: "bp_create 0x80000010 init_bp_pool nemu_boot = Inr (P, nemu_boot)" "\<lparr>bp_NO = 32, bp_addr = 0x80000010\<rparr> \<in> set (bp_display P)"
    by (simp add: bp_create_def new_bp_def new_node_def init_bp_pool_def init_pool_def NR_BP_def NR_WP_def upt_rec bp_update_one_def
        bp_display_def active_def set_node_def nemu_boot_def Let_def)
  show ?thesis using P(1) bp_delete_fails[OF bp_reach.create[OF bp_reach.start P(1)] P(2)] by auto
qed

text \<open>Checking the breakpoints stops a running emulator exactly when the program counter is at one of them.\<close>

theorem bp_update_stops:
  "bp_update P st = st\<lparr>nstate := (if nstate st = NEMU_RUNNING \<and> (\<exists>b\<in>set (bp_display P). bp_addr b = cpu_pc (cpu st))
     then NEMU_STOP else nstate st)\<rparr>"
proof -
  have "fold (\<lambda>i. bp_update_one i P) is st = st\<lparr>nstate := (if nstate st = NEMU_RUNNING \<and>
      (\<exists>i\<in>set is. bp_addr (nodes P ! i) = cpu_pc (cpu st)) then NEMU_STOP else nstate st)\<rparr>" for "is"
    by (induction "is" arbitrary: st) (auto simp: bp_update_one_def stop_if_running_def)
  then show ?thesis by (simp add: bp_update_def bp_display_def)
qed

end
