(* ===== verification/Elf.thy ===== *)
theory Elf
  imports Prelude "HOL-Library.Sublist"
begin

text \<open>
  The symbol table of the function tracer (\<open>nemu/src/utils/elf.c\<close>): the table with its lookups by address and by
  name, and the reader that fills it from the sections of a 32-bit little-endian ELF file.  The file is the list of
  its bytes.  The reader is compared with the layout of the format, given by byte offsets.
\<close>

section \<open>The table\<close>

record ftrace_sym_t =
  sym_addr :: u32
  sym_size :: u32
  sym_name :: string

definition FTRACE_TABLE_MAXSIZE :: nat where "FTRACE_TABLE_MAXSIZE = 8192"

definition ftrace_table_push :: "u32 \<Rightarrow> u32 \<Rightarrow> string \<Rightarrow> ftrace_sym_t list \<Rightarrow> ftrace_sym_t list res" where
  "ftrace_table_push addr sz nm tab =
     assert_res ''ftrace table is full'' (length tab < FTRACE_TABLE_MAXSIZE)
     (assert_res ''name is too long'' (length nm < 128)
        (Inr (tab @ [\<lparr>sym_addr = addr, sym_size = sz, sym_name = nm\<rparr>])))"

definition sym_contains :: "u32 \<Rightarrow> ftrace_sym_t \<Rightarrow> bool" where
  "sym_contains pc s \<longleftrightarrow> pc \<ge> sym_addr s \<and> pc < sym_addr s + sym_size s"

fun ftrace_search :: "ftrace_sym_t list \<Rightarrow> u32 \<Rightarrow> (string \<times> u32) option" where
  "ftrace_search [] pc = None"
| "ftrace_search (s # tab) pc = (if sym_contains pc s then Some (sym_name s, sym_addr s) else ftrace_search tab pc)"

fun ftrace_get_address_of :: "ftrace_sym_t list \<Rightarrow> string \<Rightarrow> u32" where
  "ftrace_get_address_of [] nm = 0"
| "ftrace_get_address_of (s # tab) nm = (if sym_name s = nm then sym_addr s else ftrace_get_address_of tab nm)"

section \<open>Reading a file\<close>

fun le :: "u8 list \<Rightarrow> nat" where
  "le [] = 0"
| "le (b # bs) = unat b + 256 * le bs"

definition field :: "u8 list \<Rightarrow> nat \<Rightarrow> nat \<Rightarrow> nat" where
  "field bs off n = le (take n (drop off bs))"

definition read_chunk :: "u8 list \<Rightarrow> nat \<Rightarrow> nat \<Rightarrow> u8 list res" where
  "read_chunk f off sz = assert_res ''read fail'' (off + sz \<le> length f) (Inr (take sz (drop off f)))"

text \<open>Element \<open>i\<close> of an array of \<open>sz\<close>-byte structures that starts at the beginning of a heap chunk.\<close>

definition element :: "u8 list \<Rightarrow> nat \<Rightarrow> nat \<Rightarrow> u8 list res" where
  "element chunk off sz =
     (if off + sz \<le> length chunk then Inr (take sz (drop off chunk)) else Inl (Undefined ''read beyond a heap block''))"

definition c_string :: "u8 list \<Rightarrow> nat \<Rightarrow> string res" where
  "c_string chunk off = (let s = takeWhile (\<lambda>b. b \<noteq> 0) (drop off chunk) in
     if off + length s < length chunk then Inr (map (\<lambda>b. char_of (unat b)) s)
     else Inl (Undefined ''unterminated string''))"

definition STT_FUNC :: nat where "STT_FUNC = 2"
definition SHN_UNDEF :: nat where "SHN_UNDEF = 0"
definition SHT_SYMTAB :: nat where "SHT_SYMTAB = 2"
definition SHT_DYNSYM :: nat where "SHT_DYNSYM = 11"

fun read_syms :: "u8 list \<Rightarrow> u8 list \<Rightarrow> nat \<Rightarrow> nat \<Rightarrow> nat \<Rightarrow> ftrace_sym_t list \<Rightarrow> ftrace_sym_t list res" where
  "read_syms sec strtab sz_ent si 0 tab = Inr tab"
| "read_syms sec strtab sz_ent si (Suc n) tab =
     bind_res (element sec (si * sz_ent) 16) (\<lambda>sym.
     bind_res
       (if field sym 12 1 mod 16 = STT_FUNC \<and> field sym 14 2 \<noteq> SHN_UNDEF then
          bind_res (c_string strtab (field sym 0 4)) (\<lambda>nm.
            ftrace_table_push (of_nat (field sym 4 4)) (of_nat (field sym 8 4)) nm tab)
        else Inr tab)
       (read_syms sec strtab sz_ent (Suc si) n))"

definition read_section :: "u8 list \<Rightarrow> u8 list \<Rightarrow> u8 list \<Rightarrow> ftrace_sym_t list \<Rightarrow> ftrace_sym_t list res" where
  "read_section f shdrs sh tab =
     (if field sh 4 4 = SHT_SYMTAB \<or> field sh 4 4 = SHT_DYNSYM then
        let sz_ent = field sh 36 4; sh_size = field sh 20 4 in
        if sz_ent = 0 then Inl (Undefined ''division by zero'')
        else
          bind_res (read_chunk f (field sh 16 4) sh_size) (\<lambda>sec.
          bind_res (element shdrs (field sh 24 4 * 40) 40) (\<lambda>str.
          bind_res (read_chunk f (field str 16 4) (field str 20 4)) (\<lambda>strtab.
            read_syms sec strtab sz_ent 0 (sh_size div sz_ent) tab)))
      else Inr tab)"

fun read_sections :: "u8 list \<Rightarrow> u8 list \<Rightarrow> nat \<Rightarrow> nat \<Rightarrow> ftrace_sym_t list \<Rightarrow> ftrace_sym_t list res" where
  "read_sections f shdrs i 0 tab = Inr tab"
| "read_sections f shdrs i (Suc n) tab =
     bind_res (element shdrs (i * 40) 40) (\<lambda>sh.
     bind_res (read_section f shdrs sh tab) (read_sections f shdrs (Suc i) n))"

definition elf_ident :: "u8 list" where "elf_ident = [0x7f, 0x45, 0x4c, 0x46]"

text \<open>The argument is \<open>None\<close> when no file is given and \<open>Some None\<close> when it can not be opened.\<close>

definition init_ftrace :: "u8 list option option \<Rightarrow> ftrace_sym_t list \<Rightarrow> ftrace_sym_t list res" where
  "init_ftrace arg tab = (case arg of
     None \<Rightarrow> Inr tab
   | Some None \<Rightarrow> Inl (Assert_fail ''Can not open'')
   | Some (Some f) \<Rightarrow>
       assert_res ''read elf ident fail'' (16 \<le> length f)
       (assert_res ''not an ELF file'' (take 4 f = elf_ident)
       (assert_res ''Unsupported ELF class'' (f ! 4 = 1)
       (assert_res ''Unsupported ELF endian'' (f ! 5 = 1)
       (assert_res ''read ehdr failed'' (52 \<le> length f)
       (assert_res ''todo: SHN_LORESERVE'' (0 < field f 48 2)
          (bind_res (read_chunk f (field f 32 4) (field f 46 2 * field f 48 2)) (\<lambda>shdrs.
             read_sections f shdrs 0 (field f 48 2) tab))))))))"

section \<open>Lookups\<close>

lemma search_append: "ftrace_search tab pc \<noteq> None \<Longrightarrow> ftrace_search (tab @ ts) pc = ftrace_search tab pc"
  by (induction tab) auto

text \<open>The symbols read all satisfy the bounds of the table.\<close>

definition tab_ok :: "ftrace_sym_t list \<Rightarrow> bool" where
  "tab_ok tab \<longleftrightarrow> length tab \<le> FTRACE_TABLE_MAXSIZE \<and> list_all (\<lambda>s. length (sym_name s) < 128) tab"

lemma bind_res_InrD: "bind_res r f = Inr y \<Longrightarrow> \<exists>x. r = Inr x \<and> f x = Inr y"
  by (cases r) (auto simp: bind_res_def)

text \<open>A relation every step of the reading keeps: the table stays well formed and only grows at its end.\<close>

definition tab_step :: "ftrace_sym_t list \<Rightarrow> ftrace_sym_t list \<Rightarrow> bool" where
  "tab_step tab tab' \<longleftrightarrow> (tab_ok tab \<longrightarrow> tab_ok tab') \<and> prefix tab tab'"

lemma tab_step_refl [simp]: "tab_step tab tab"
  by (simp add: tab_step_def)

lemma tab_step_trans: "tab_step a b \<Longrightarrow> tab_step b c \<Longrightarrow> tab_step a c"
  by (auto simp: tab_step_def)

lemma push_step: "ftrace_table_push a n nm tab = Inr tab' \<Longrightarrow> tab_step tab tab'"
  by (auto simp: ftrace_table_push_def assert_res_def tab_ok_def tab_step_def split: if_splits)

lemma read_syms_step: "read_syms sec str sz si n tab = Inr tab' \<Longrightarrow> tab_step tab tab'"
proof (induction n arbitrary: si tab)
  case (Suc n)
  obtain sym tabx where x: "(if field sym 12 1 mod 16 = STT_FUNC \<and> field sym 14 2 \<noteq> SHN_UNDEF then
          bind_res (c_string str (field sym 0 4)) (\<lambda>nm.
            ftrace_table_push (of_nat (field sym 4 4)) (of_nat (field sym 8 4)) nm tab)
        else Inr tab) = Inr tabx" and r: "read_syms sec str sz (Suc si) n tabx = Inr tab'"
    using Suc.prems by (auto dest!: bind_res_InrD)
  have "tab_step tab tabx" using x by (auto split: if_splits dest!: bind_res_InrD intro: push_step)
  then show ?case using Suc.IH[OF r] by (rule tab_step_trans)
qed simp

lemma read_section_step: "read_section f shdrs sh tab = Inr tab' \<Longrightarrow> tab_step tab tab'"
  by (auto simp: read_section_def Let_def split: if_splits dest!: bind_res_InrD intro: read_syms_step)

lemma read_sections_step: "read_sections f shdrs i n tab = Inr tab' \<Longrightarrow> tab_step tab tab'"
  by (induction n arbitrary: i tab) (auto dest!: bind_res_InrD intro: tab_step_trans read_section_step)

lemma init_ftrace_step: "init_ftrace arg tab = Inr tab' \<Longrightarrow> tab_step tab tab'"
  by (auto simp: init_ftrace_def assert_res_def split: option.splits if_splits dest!: bind_res_InrD intro: read_sections_step)

text \<open>Whatever the file: the table stays within its bounds and a lookup that succeeded gives the same result.\<close>

theorem init_ftrace_keeps:
  assumes "init_ftrace arg tab = Inr tab'"
  shows "(tab_ok tab \<longrightarrow> tab_ok tab') \<and> (ftrace_search tab pc \<noteq> None \<longrightarrow> ftrace_search tab' pc = ftrace_search tab pc)"
  using init_ftrace_step[OF assms] search_append by (auto simp: tab_step_def prefix_def)

section \<open>The symbols of a file\<close>

text \<open>The layout of a 32-bit little-endian ELF file, by byte offsets: the header has the position of the section
  headers at 32 and their number at 48; a section header of 40 bytes has the type at 4, the position at 16, the size at
  20, the linked section at 24 and the size of an entry at 36; a symbol of a section of type 2 (\<open>SHT_SYMTAB\<close>) or 11
  (\<open>SHT_DYNSYM\<close>) has the position of its name in the linked section at 0, the address at 4, the size at 8, the type in
  the low four bits at 12 and the section it is defined in at 14.  The function symbols (type 2) that are defined (in
  a section other than 0), in the order of the file:\<close>

definition elf_nat :: "u8 list \<Rightarrow> nat \<Rightarrow> nat \<Rightarrow> nat" where
  "elf_nat f p n = (\<Sum>k<n. unat (f ! (p + k)) * 256 ^ k)"

definition elf_string :: "u8 list \<Rightarrow> nat \<Rightarrow> string" where
  "elf_string f p = map (\<lambda>b. char_of (unat b)) (takeWhile (\<lambda>b. b \<noteq> 0) (drop p f))"

definition elf_shdr :: "u8 list \<Rightarrow> nat \<Rightarrow> nat" where
  "elf_shdr f i = elf_nat f 32 4 + 40 * i"

definition elf_strtab :: "u8 list \<Rightarrow> nat \<Rightarrow> nat" where
  "elf_strtab f i = elf_shdr f (elf_nat f (elf_shdr f i + 24) 4)"

definition elf_functions :: "u8 list \<Rightarrow> nat \<Rightarrow> nat list" where
  "elf_functions f i = (let p = elf_nat f (elf_shdr f i + 16) 4; sz = elf_nat f (elf_shdr f i + 20) 4; ent = elf_nat f (elf_shdr f i + 36) 4 in
     filter (\<lambda>q. elf_nat f (q + 12) 1 mod 16 = 2 \<and> elf_nat f (q + 14) 2 \<noteq> 0) (map (\<lambda>k. p + k * ent) [0..<sz div ent]))"

definition elf_is_symtab :: "u8 list \<Rightarrow> nat \<Rightarrow> bool" where
  "elf_is_symtab f i \<longleftrightarrow> elf_nat f (elf_shdr f i + 4) 4 \<in> {2, 11}"

definition elf_symbol :: "u8 list \<Rightarrow> nat \<Rightarrow> nat \<Rightarrow> ftrace_sym_t" where
  "elf_symbol f i q = \<lparr>sym_addr = of_nat (elf_nat f (q + 4) 4), sym_size = of_nat (elf_nat f (q + 8) 4),
     sym_name = elf_string f (elf_nat f (elf_strtab f i + 16) 4 + elf_nat f q 4)\<rparr>"

definition elf_section_symbols :: "u8 list \<Rightarrow> nat \<Rightarrow> ftrace_sym_t list" where
  "elf_section_symbols f i = (if elf_is_symtab f i then map (elf_symbol f i) (elf_functions f i) else [])"

definition elf_symbols :: "u8 list \<Rightarrow> ftrace_sym_t list" where
  "elf_symbols f = concat (map (elf_section_symbols f) [0..<elf_nat f 48 2])"

text \<open>Files the reader is made for: the right kind, with its parts within the file, symbols of at least 16 bytes, and
  function names that end within their section after fewer than 128 characters.\<close>

definition elf_symtab_ok :: "u8 list \<Rightarrow> nat \<Rightarrow> bool" where
  "elf_symtab_ok f i \<longleftrightarrow> 16 \<le> elf_nat f (elf_shdr f i + 36) 4 \<and>
     elf_nat f (elf_shdr f i + 16) 4 + elf_nat f (elf_shdr f i + 20) 4 \<le> length f \<and>
     elf_nat f (elf_shdr f i + 24) 4 < elf_nat f 48 2 \<and>
     elf_nat f (elf_strtab f i + 16) 4 + elf_nat f (elf_strtab f i + 20) 4 \<le> length f \<and>
     list_all (\<lambda>q. length (sym_name (elf_symbol f i q)) < 128 \<and>
       elf_nat f q 4 + length (sym_name (elf_symbol f i q)) < elf_nat f (elf_strtab f i + 20) 4) (elf_functions f i)"

definition elf_ok :: "u8 list \<Rightarrow> bool" where
  "elf_ok f \<longleftrightarrow> 52 \<le> length f \<and> take 6 f = [0x7f, 0x45, 0x4c, 0x46, 1, 1] \<and> 0 < elf_nat f 48 2 \<and> elf_nat f 46 2 = 40 \<and>
     elf_nat f 32 4 + 40 * elf_nat f 48 2 \<le> length f \<and>
     list_all (\<lambda>i. elf_is_symtab f i \<longrightarrow> elf_symtab_ok f i) [0..<elf_nat f 48 2]"

lemma elf_nat_Suc: "elf_nat f p (Suc n) = unat (f ! p) + 256 * elf_nat f (Suc p) n"
  unfolding elf_nat_def sum.lessThan_Suc_shift by (simp add: sum_distrib_left ac_simps)

lemma slice_slice: "q + n \<le> sz \<Longrightarrow> take n (drop q (take sz (drop p f))) = take n (drop (p + q) f)"
  by (simp add: drop_take min_absorb1 add.commute)

lemma le_take: "p + n \<le> length f \<Longrightarrow> le (take n (drop p f)) = elf_nat f p n"
proof (induction n arbitrary: p)
  case (Suc n)
  then have d: "drop p f = f ! p # drop (Suc p) f" by (simp add: Cons_nth_drop_Suc)
  have "le (take n (drop (Suc p) f)) = elf_nat f (Suc p) n" using Suc by simp
  then show ?case by (simp add: d elf_nat_Suc)
qed (simp add: elf_nat_def)

lemma field_file: "p + n \<le> length f \<Longrightarrow> field f p n = elf_nat f p n"
  by (simp add: field_def le_take)

lemma field_slice: "p + sz \<le> length f \<Longrightarrow> q + n \<le> sz \<Longrightarrow> field (take sz (drop p f)) q n = elf_nat f (p + q) n"
  by (simp add: field_def slice_slice le_take)

lemma element_slice:
  "p + n \<le> length f \<Longrightarrow> q + sz \<le> n \<Longrightarrow> element (take n (drop p f)) q sz = Inr (take sz (drop (p + q) f))"
  by (simp add: element_def slice_slice)

lemma takeWhile_take: "length (takeWhile P xs) < n \<Longrightarrow> takeWhile P (take n xs) = takeWhile P xs"
  by (induction xs arbitrary: n) (auto simp: take_Cons split: nat.split)

lemma c_string_slice:
  assumes "p + n \<le> length f" and "q + length (elf_string f (p + q)) < n"
  shows "c_string (take n (drop p f)) q = Inr (elf_string f (p + q))"
proof -
  have "takeWhile (\<lambda>b. b \<noteq> 0) (drop q (take n (drop p f))) = takeWhile (\<lambda>b. b \<noteq> 0) (drop (p + q) f)"
    using takeWhile_take[of "\<lambda>b. b \<noteq> 0" "drop (p + q) f" "n - q"] assms(2) by (simp add: drop_take elf_string_def add.commute)
  then show ?thesis using assms by (simp add: c_string_def elf_string_def Let_def)
qed

lemma push_ok:
  assumes "length tab < 8192" and "length nm < 128"
  shows "ftrace_table_push a n nm tab = Inr (tab @ [\<lparr>sym_addr = a, sym_size = n, sym_name = nm\<rparr>])"
  using assms by (simp add: ftrace_table_push_def FTRACE_TABLE_MAXSIZE_def assert_res_def)

lemma read_syms_file:
  assumes "p + sz \<le> length f" and "sp + ss \<le> length f" and "16 \<le> ent"
    and "sp = elf_nat f (elf_strtab f i + 16) 4"
    and "(si + n) * ent \<le> sz"
    and "qs = filter (\<lambda>q. elf_nat f (q + 12) 1 mod 16 = 2 \<and> elf_nat f (q + 14) 2 \<noteq> 0) (map (\<lambda>k. p + k * ent) [si..<si + n])"
    and "list_all (\<lambda>q. length (sym_name (elf_symbol f i q)) < 128 \<and> elf_nat f q 4 + length (sym_name (elf_symbol f i q)) < ss) qs"
    and "length tab + length qs \<le> 8192"
  shows "read_syms (take sz (drop p f)) (take ss (drop sp f)) ent si n tab = Inr (tab @ map (elf_symbol f i) qs)"
  using assms(5-)
proof (induction n arbitrary: si tab qs)
  case (Suc n)
  let ?P = "\<lambda>q. elf_nat f (q + 12) 1 mod 16 = 2 \<and> elf_nat f (q + 14) 2 \<noteq> 0" and ?q = "p + si * ent"
  define qs' where "qs' = filter ?P (map (\<lambda>k. p + k * ent) [Suc si..<Suc (si + n)])"
  have u: "[si..<si + Suc n] = si # [Suc si..<Suc (si + n)]" by (simp add: upt_conv_Cons del: upt_Suc)
  have qs: "qs = (if ?P ?q then ?q # qs' else qs')" using Suc.prems(2) unfolding u qs'_def by simp
  have "si * ent + ent \<le> (si + Suc n) * ent" by (simp add: algebra_simps)
  then have room: "si * ent + 16 \<le> sz" using Suc.prems(1) assms(3) by linarith
  have e: "element (take sz (drop p f)) (si * ent) 16 = Inr (take 16 (drop ?q f))"
    using element_slice[OF assms(1) room] by simp
  have q16: "?q + 16 \<le> length f" using room assms(1) by linarith
  have fl: "field (take 16 (drop ?q f)) 12 1 = elf_nat f (?q + 12) 1" "field (take 16 (drop ?q f)) 14 2 = elf_nat f (?q + 14) 2"
    "field (take 16 (drop ?q f)) 0 4 = elf_nat f ?q 4" "field (take 16 (drop ?q f)) 4 4 = elf_nat f (?q + 4) 4"
    "field (take 16 (drop ?q f)) 8 4 = elf_nat f (?q + 8) 4"
    using field_slice[OF q16] by simp_all
  have IH: "read_syms (take sz (drop p f)) (take ss (drop sp f)) ent (Suc si) n tab' = Inr (tab' @ map (elf_symbol f i) qs')"
    if "length tab' + length qs' \<le> 8192" for tab'
    using Suc.IH[of "Suc si" qs' tab'] Suc.prems(1,3) that qs by (simp add: qs'_def split: if_splits)
  show ?case
  proof (cases "?P ?q")
    case True
    then have nm: "length (sym_name (elf_symbol f i ?q)) < 128" "elf_nat f ?q 4 + length (sym_name (elf_symbol f i ?q)) < ss"
      using Suc.prems(3) qs by auto
    have "c_string (take ss (drop sp f)) (elf_nat f ?q 4) = Inr (sym_name (elf_symbol f i ?q))"
      using c_string_slice[OF assms(2), of "elf_nat f ?q 4"] nm(2) by (simp add: elf_symbol_def assms(4))
    moreover have "length tab < 8192" using Suc.prems(4) qs True by simp
    then have "ftrace_table_push (of_nat (elf_nat f (?q + 4) 4)) (of_nat (elf_nat f (?q + 8) 4)) (sym_name (elf_symbol f i ?q)) tab =
        Inr (tab @ [elf_symbol f i ?q])" using push_ok[OF _ nm(1)] by (simp add: elf_symbol_def)
    ultimately have "read_syms (take sz (drop p f)) (take ss (drop sp f)) ent si (Suc n) tab =
        read_syms (take sz (drop p f)) (take ss (drop sp f)) ent (Suc si) n (tab @ [elf_symbol f i ?q])"
      using e True by (simp add: fl STT_FUNC_def SHN_UNDEF_def del: One_nat_def)
    then show ?thesis using IH[of "tab @ [elf_symbol f i ?q]"] Suc.prems(4) qs True by simp
  next
    case False
    then have q: "qs = qs'" using qs by (simp only: if_False)
    have "\<not> (field (take 16 (drop ?q f)) 12 1 mod 16 = STT_FUNC \<and> field (take 16 (drop ?q f)) 14 2 \<noteq> SHN_UNDEF)"
      unfolding fl STT_FUNC_def SHN_UNDEF_def using False .
    then have "read_syms (take sz (drop p f)) (take ss (drop sp f)) ent si (Suc n) tab =
        read_syms (take sz (drop p f)) (take ss (drop sp f)) ent (Suc si) n tab"
      unfolding read_syms.simps e bind_res_Inr by (simp only: if_False bind_res_Inr)
    then show ?thesis using IH[of tab] Suc.prems(4) unfolding q by simp
  qed
qed simp

lemma read_section_file:
  assumes ok: "elf_ok f" and i: "i < elf_nat f 48 2"
    and t: "length tab + length (elf_section_symbols f i) \<le> 8192"
  shows "read_section f (take (40 * elf_nat f 48 2) (drop (elf_nat f 32 4) f)) (take 40 (drop (elf_shdr f i) f)) tab =
    Inr (tab @ elf_section_symbols f i)"
proof -
  let ?s = "elf_shdr f i" and ?n = "elf_nat f 48 2"
  have whole: "elf_nat f 32 4 + 40 * ?n \<le> length f" using ok by (simp add: elf_ok_def)
  have hdr: "elf_shdr f j + 40 \<le> length f" if "j < ?n" for j
  proof -
    have "40 * j + 40 \<le> 40 * ?n" using that by simp
    then show ?thesis using whole by (simp add: elf_shdr_def)
  qed
  note fl = field_slice[OF hdr[OF i]]
  show ?thesis
  proof (cases "elf_is_symtab f i")
    case False
    then show ?thesis using fl[of 4 4] by (simp add: read_section_def elf_section_symbols_def elf_is_symtab_def SHT_SYMTAB_def SHT_DYNSYM_def)
  next
    case True
    then have s: "elf_symtab_ok f i" using ok i by (simp add: elf_ok_def list_all_iff)
    let ?p = "elf_nat f (?s + 16) 4" and ?sz = "elf_nat f (?s + 20) 4" and ?l = "elf_nat f (?s + 24) 4" and ?ent = "elf_nat f (?s + 36) 4"
    let ?sp = "elf_nat f (elf_strtab f i + 16) 4" and ?ss = "elf_nat f (elf_strtab f i + 20) 4"
    have b: "?p + ?sz \<le> length f" "?sp + ?ss \<le> length f" "16 \<le> ?ent" "?l < ?n" using s by (simp_all add: elf_symtab_ok_def)
    have l40: "?l * 40 + 40 \<le> 40 * ?n" using b(4) by simp
    have str: "element (take (40 * ?n) (drop (elf_nat f 32 4) f)) (?l * 40) 40 = Inr (take 40 (drop (elf_strtab f i) f))"
      using element_slice[OF whole l40] by (simp add: elf_strtab_def elf_shdr_def mult.commute)
    have lf: "field (take 40 (drop (elf_strtab f i) f)) 16 4 = ?sp" "field (take 40 (drop (elf_strtab f i) f)) 20 4 = ?ss"
      using field_slice[OF hdr[OF b(4)]] by (simp_all add: elf_strtab_def)
    have "read_syms (take ?sz (drop ?p f)) (take ?ss (drop ?sp f)) ?ent 0 (?sz div ?ent) tab =
      Inr (tab @ map (elf_symbol f i) (elf_functions f i))"
    proof (rule read_syms_file[OF b(1,2,3) refl])
      show "list_all (\<lambda>q. length (sym_name (elf_symbol f i q)) < 128 \<and> elf_nat f q 4 + length (sym_name (elf_symbol f i q)) < ?ss) (elf_functions f i)"
        using s by (simp add: elf_symtab_ok_def)
    qed (use t True in \<open>simp_all add: elf_functions_def elf_section_symbols_def Let_def\<close>)
    moreover have "?ent \<noteq> 0" using b(3) by simp
    ultimately show ?thesis using True b(1,2) str lf fl[of 4 4] fl[of 36 4] fl[of 20 4] fl[of 16 4] fl[of 24 4]
      by (simp add: read_section_def elf_section_symbols_def elf_is_symtab_def SHT_SYMTAB_def SHT_DYNSYM_def read_chunk_def assert_res_def Let_def)
  qed
qed

lemma read_sections_file:
  assumes ok: "elf_ok f" and "i + n = elf_nat f 48 2"
    and "ss = concat (map (elf_section_symbols f) [i..<i + n])"
    and "length tab + length ss \<le> 8192"
  shows "read_sections f (take (40 * elf_nat f 48 2) (drop (elf_nat f 32 4) f)) i n tab = Inr (tab @ ss)"
  using assms(2-)
proof (induction n arbitrary: i tab ss)
  case (Suc n)
  let ?one = "elf_section_symbols f i"
  define rest where "rest = concat (map (elf_section_symbols f) [Suc i..<Suc (i + n)])"
  have u: "[i..<i + Suc n] = i # [Suc i..<Suc (i + n)]" by (simp add: upt_conv_Cons del: upt_Suc)
  have ss: "ss = ?one @ rest" using Suc.prems(2) unfolding u rest_def by simp
  have i: "i < elf_nat f 48 2" using Suc.prems(1) by simp
  have "i * 40 + 40 \<le> 40 * elf_nat f 48 2" using i by simp
  moreover have whole: "elf_nat f 32 4 + 40 * elf_nat f 48 2 \<le> length f" using ok by (simp add: elf_ok_def)
  ultimately have e: "element (take (40 * elf_nat f 48 2) (drop (elf_nat f 32 4) f)) (i * 40) 40 = Inr (take 40 (drop (elf_shdr f i) f))"
    using element_slice by (simp add: elf_shdr_def mult.commute)
  have "length tab + length ?one \<le> 8192" using Suc.prems(3) ss by simp
  note one = read_section_file[OF ok i this]
  have "read_sections f (take (40 * elf_nat f 48 2) (drop (elf_nat f 32 4) f)) (Suc i) n (tab @ ?one) = Inr ((tab @ ?one) @ rest)"
    using Suc.prems(1,3) ss by (intro Suc.IH) (simp_all add: rest_def del: upt_Suc)
  then show ?case using ss e one by simp
qed simp

lemma ftrace_search_find: "ftrace_search tab pc = map_option (\<lambda>s. (sym_name s, sym_addr s)) (find (sym_contains pc) tab)"
  by (induction tab) auto

lemma sym_contains_nat:
  "sym_contains pc = (\<lambda>s. unat (sym_addr s) \<le> unat pc \<and> unat pc < (unat (sym_addr s) + unat (sym_size s)) mod 2 ^ 32)"
  by (simp add: fun_eq_iff sym_contains_def word_le_nat_alt word_less_nat_alt unat_word_ariths)

section \<open>Properties\<close>

text \<open>C19: the function tracer knows the functions of the program. Reading a 32-bit little-endian ELF file adds, for each
  symbol table and dynamic symbol table in the order of the file, its defined function symbols in their order, with
  their addresses, sizes and names, behind the entries the table has, as long as these fit its 8192 places; a lookup by
  address then returns the first entry whose address is not above it and whose end, computed modulo \<open>2\<^sup>3\<^sup>2\<close>, is, so
  that a function that ends at the top of the address space is never found.\<close>

theorem init_ftrace_table:
  assumes "elf_ok f" and "length tab + length (elf_symbols f) \<le> 8192"
  shows "init_ftrace (Some (Some f)) tab = Inr (tab @ elf_symbols f) \<and>
    ftrace_search (tab @ elf_symbols f) pc = map_option (\<lambda>s. (sym_name s, sym_addr s))
      (find (\<lambda>s. unat (sym_addr s) \<le> unat pc \<and> unat pc < (unat (sym_addr s) + unat (sym_size s)) mod 2 ^ 32) (tab @ elf_symbols f))"
proof
  have f: "52 \<le> length f" "take 6 f = [0x7f, 0x45, 0x4c, 0x46, 1, 1]" "0 < elf_nat f 48 2" "elf_nat f 46 2 = 40"
    "elf_nat f 32 4 + 40 * elf_nat f 48 2 \<le> length f" using assms(1) by (simp_all add: elf_ok_def)
  have "take 4 f = take 4 (take 6 f)" "f ! 4 = take 6 f ! 4" "f ! 5 = take 6 f ! 5" by (simp_all add: take_take del: f)
  then have id: "take 4 f = elf_ident" "f ! 4 = 1" "f ! 5 = 1" unfolding f(2) by (simp_all add: elf_ident_def)
  have fl: "field f 48 2 = elf_nat f 48 2" "field f 46 2 = elf_nat f 46 2" "field f 32 4 = elf_nat f 32 4"
    using f(1) by (simp_all add: field_file)
  have "read_sections f (take (40 * elf_nat f 48 2) (drop (elf_nat f 32 4) f)) 0 (elf_nat f 48 2) tab = Inr (tab @ elf_symbols f)"
    by (rule read_sections_file[OF assms(1) _ _ assms(2)]) (simp_all add: elf_symbols_def)
  then show "init_ftrace (Some (Some f)) tab = Inr (tab @ elf_symbols f)"
    using f id by (simp add: init_ftrace_def assert_res_def read_chunk_def fl)
qed (simp add: ftrace_search_find sym_contains_nat)

text \<open>An ELF file with one function symbol \<open>f\<close> of 16 bytes at the reset vector.\<close>

definition elf_example :: "u8 list" where
  "elf_example = [127, 69, 76, 70, 1, 1, 0, 0, 0, 0, 0, 0, 0, 0, 0, 0, 2, 0, 243, 0, 1, 0, 0, 0, 0, 0, 0, 128, 0, 0, 0, 0, 52, 0, 0, 0, 0, 0, 0, 0, 52, 0, 0, 0, 0, 0, 40, 0, 2, 0, 0, 0,
     0, 0, 0, 0, 2, 0, 0, 0, 0, 0, 0, 0, 0, 0, 0, 0, 132, 0, 0, 0, 16, 0, 0, 0, 1, 0, 0, 0, 0, 0, 0, 0, 0, 0, 0, 0, 16, 0, 0, 0,
     0, 0, 0, 0, 3, 0, 0, 0, 0, 0, 0, 0, 0, 0, 0, 0, 148, 0, 0, 0, 2, 0, 0, 0, 0, 0, 0, 0, 0, 0, 0, 0, 0, 0, 0, 0, 0, 0, 0, 0,
     0, 0, 0, 0, 0, 0, 0, 128, 16, 0, 0, 0, 18, 0, 1, 0, 102, 0]"

lemma elf_nat_numeral: "elf_nat f p 0 = 0" "elf_nat f p 1 = unat (f ! p)" "elf_nat f p (Suc 0) = unat (f ! p)"
  "elf_nat f p (numeral k) = unat (f ! p) + 256 * elf_nat f (Suc p) (pred_numeral k)"
  by (simp add: elf_nat_def, simp add: elf_nat_def, simp add: elf_nat_def) (simp only: numeral_eq_Suc elf_nat_Suc)

lemma elf_example_header: "elf_nat elf_example 48 2 = 2" "elf_nat elf_example 46 2 = 40" "elf_nat elf_example 32 4 = 52"
  "length elf_example = 150"
  by (simp_all add: elf_example_def elf_nat_numeral)

lemma elf_example_nat:
  "elf_nat elf_example 56 4 = 2" "elf_nat elf_example 68 4 = 132" "elf_nat elf_example 72 4 = 16" "elf_nat elf_example 76 4 = 1"
  "elf_nat elf_example 88 4 = 16" "elf_nat elf_example 96 4 = 3" "elf_nat elf_example 108 4 = 148" "elf_nat elf_example 112 4 = 2"
  "elf_nat elf_example 132 4 = 0" "elf_nat elf_example 136 4 = 0x80000000" "elf_nat elf_example 140 4 = 16"
  "elf_nat elf_example 144 1 = 18" "elf_nat elf_example 146 2 = 1"
  "elf_string elf_example 148 = ''f''"
  by (simp_all add: elf_example_def elf_nat_numeral elf_string_def) (simp add: char_of_def bit_iff_odd)

lemma elf_example_sections: "elf_is_symtab elf_example 0" "\<not> elf_is_symtab elf_example 1" "elf_functions elf_example 0 = [132]"
  "elf_symbol elf_example 0 132 = \<lparr>sym_addr = 0x80000000, sym_size = 16, sym_name = ''f''\<rparr>"
  by (simp_all add: elf_is_symtab_def elf_functions_def elf_symbol_def elf_strtab_def elf_shdr_def elf_example_header elf_example_nat
      upt_rec[of 0 1] del: One_nat_def)

theorem init_ftrace_table_witness:
  "init_ftrace (Some (Some elf_example)) [] = Inr [\<lparr>sym_addr = 0x80000000, sym_size = 16, sym_name = ''f''\<rparr>] \<and>
    ftrace_search [\<lparr>sym_addr = 0x80000000, sym_size = 16, sym_name = ''f''\<rparr>] 0x8000000f = Some (''f'', 0x80000000)"
proof -
  have y: "elf_symbols elf_example = [\<lparr>sym_addr = 0x80000000, sym_size = 16, sym_name = ''f''\<rparr>]"
    by (simp add: elf_symbols_def elf_section_symbols_def elf_example_header elf_example_sections upt_rec elf_example_sections(2)[simplified])
  have "take 6 elf_example = [0x7f, 0x45, 0x4c, 0x46, 1, 1]" by (simp add: elf_example_def)
  then have "elf_ok elf_example"
    by (simp add: elf_ok_def elf_symtab_ok_def elf_example_header elf_example_sections elf_strtab_def elf_shdr_def elf_example_nat
        upt_rec elf_example_sections(2)[simplified])
  then show ?thesis using init_ftrace_table[of elf_example "[]" "0x8000000f"] by (simp add: y)
qed

end
