(* ===== verification/Cpu.thy ===== *)
theory Cpu
  imports Sdb_Points Elf
begin

text \<open>
  The execution loop of the emulator (\<open>nemu/src/cpu/cpu-exec.c\<close>) with the tracers it runs after every
  instruction, differential testing against a reference (\<open>cpu/difftest/dut.c\<close>), the emulator's own reference
  interface (\<open>cpu/difftest/ref.c\<close>) and its exit status (\<open>utils/state.c\<close>).

  The record \<open>emu\<close> holds the machine of the instruction set with the static variables of these files; \<open>refst\<close> is
  the state of the reference, of any type.  The record \<open>host\<close> holds what the program does not define: the
  disassembler library, the host clock and the pending window events at the time an instruction has been executed,
  and the functions the reference's shared object exports.
\<close>

section \<open>State\<close>

record ringbuf_t =
  rb_buf :: "nat \<Rightarrow> string"
  rptr :: nat
  wptr :: nat

datatype log_line = Itrace string | Ftrace ftrace_line | Iring string bool | Nemu_end run_state u32 u32 | Ended
  | Stat u64 u64 "u64 option" | Regs CPU_state | Msg string | Val u32 | Mem_word u32 u32 | Wp_list "WP list"
  | Bp_list "(BP \<times> (string \<times> u32) option) list"

record 'r emu =
  core :: nemu
  wps :: "WP pool"
  bps :: "BP pool"
  g_nr_guest_inst :: u64
  g_timer :: u64
  g_print_step :: bool
  g_iringbuf :: ringbuf_t
  ftrace_syms :: "ftrace_sym_t list"
  log_fp :: "log_line list"
  out :: "log_line list"
  refst :: 'r

record 'r host =
  cs_disasm :: "u64 \<Rightarrow> u8 list \<Rightarrow> (string \<times> string) list"
  clock :: "u64 \<Rightarrow> u64"
  events :: "u64 \<Rightarrow> sdl_event list"
  ref_difftest_memcpy_to_ref :: "u32 \<Rightarrow> u8 list \<Rightarrow> 'r \<Rightarrow> 'r res"
  ref_difftest_regcpy_to_ref :: "CPU_state \<Rightarrow> 'r \<Rightarrow> 'r"
  ref_difftest_regcpy_to_dut :: "'r \<Rightarrow> CPU_state"
  ref_difftest_exec :: "u64 \<Rightarrow> 'r \<Rightarrow> 'r res"
  ref_difftest_init :: "int \<Rightarrow> 'r \<Rightarrow> 'r res"

abbreviation set_core :: "nemu \<Rightarrow> 'r emu \<Rightarrow> 'r emu" where
  "set_core st e \<equiv> e\<lparr>core := st\<rparr>"

abbreviation pc_of :: "'r emu \<Rightarrow> u32" where
  "pc_of e \<equiv> cpu_pc (cpu (core e))"

abbreviation state_of :: "'r emu \<Rightarrow> run_state" where
  "state_of e \<equiv> nstate (core e)"

section \<open>log.c\<close>

definition log_enable :: "config \<Rightarrow> 'r emu \<Rightarrow> bool" where
  "log_enable cfg e \<longleftrightarrow> CONFIG_TRACE cfg \<and> g_nr_guest_inst e \<ge> CONFIG_TRACE_START cfg \<and> g_nr_guest_inst e \<le> CONFIG_TRACE_END cfg"

definition log_write :: "config \<Rightarrow> log_line \<Rightarrow> 'r emu \<Rightarrow> 'r emu" where
  "log_write cfg l e = (if log_enable cfg e then e\<lparr>log_fp := log_fp e @ [l]\<rparr> else e)"

definition print_line :: "log_line \<Rightarrow> 'r emu \<Rightarrow> 'r emu" where
  "print_line l e = e\<lparr>out := out e @ [l]\<rparr>"

definition Log :: "config \<Rightarrow> log_line \<Rightarrow> 'r emu \<Rightarrow> 'r emu" where
  "Log cfg l e = log_write cfg l (print_line l e)"

section \<open>disasm.c and the instruction ring buffer\<close>

text \<open>The host's \<open>%0nx\<close>.\<close>

fun hex_fixed :: "nat \<Rightarrow> nat \<Rightarrow> string" where
  "hex_fixed 0 x = []"
| "hex_fixed (Suc n) x = hex_fixed n (x div 16) @ [''0123456789abcdef'' ! (x mod 16)]"

definition FMT_WORD :: "u32 \<Rightarrow> string" where
  "FMT_WORD w = ''0x'' @ hex_fixed 8 (unat w)"

text \<open>\<open>snprintf\<close> keeps at most \<open>size - 1\<close> characters; a negative remaining size is beyond the buffer.\<close>

definition disassemble :: "(u64 \<Rightarrow> u8 list \<Rightarrow> (string \<times> string) list) \<Rightarrow> int \<Rightarrow> u64 \<Rightarrow> u8 list \<Rightarrow> string res" where
  "disassemble cs sz pc code = (case cs pc code of
     [(mnemonic, op_str)] \<Rightarrow>
       if sz \<le> int (length mnemonic) then Inl (Undefined ''disassembly buffer'')
       else Inr (take (nat sz - 1) (mnemonic @ (if op_str = [] then [] else char_of (9 :: nat) # op_str)))
   | _ \<Rightarrow> Inl (Assert_fail ''count == 1''))"

definition inst_bytes :: "u32 \<Rightarrow> u8 list" where
  "inst_bytes i = map (\<lambda>k. ucast (drop_bit (8 * k) i)) [0..<4]"

definition disasm_and_dump ::
  "(u64 \<Rightarrow> u8 list \<Rightarrow> (string \<times> string) list) \<Rightarrow> u32 \<Rightarrow> u32 \<Rightarrow> u32 \<Rightarrow> nat \<Rightarrow> string res" where
  "disasm_and_dump cs pc npc i bufsz = (let ilen = unat (npc - pc) in
     if ilen > 4 then Inl (Undefined ''instruction bytes'')
     else let
       code = take ilen (inst_bytes i);
       p = FMT_WORD pc @ '':'' @ concat (map (\<lambda>b. '' '' @ hex_fixed 2 (unat b)) (rev code)) @ replicate ((4 - ilen) * 3 + 1) (CHR '' '')
     in bind_res (disassemble cs (int bufsz - int (length p)) (ucast pc) code) (\<lambda>text. Inr (p @ text)))"

definition IRINGBUF_SZ :: nat where "IRINGBUF_SZ = 16"
definition LOGBUF_SZ :: nat where "LOGBUF_SZ = 128"

definition ringbuf_put :: "string \<Rightarrow> ringbuf_t \<Rightarrow> ringbuf_t" where
  "ringbuf_put text rb = (let
     rb = rb\<lparr>rb_buf := (rb_buf rb)(wptr rb := text)\<rparr>;
     rb = rb\<lparr>wptr := (wptr rb + 1) mod IRINGBUF_SZ\<rparr>
   in if wptr rb = rptr rb then rb\<lparr>rptr := (rptr rb + 1) mod IRINGBUF_SZ\<rparr> else rb)"

definition iringbuf_push :: "'r host \<Rightarrow> u32 \<Rightarrow> u32 \<Rightarrow> 'r emu \<Rightarrow> 'r emu res" where
  "iringbuf_push h pc i e = bind_res (disasm_and_dump (cs_disasm h) pc (pc + 4) i LOGBUF_SZ) (\<lambda>text.
     Inr (e\<lparr>g_iringbuf := ringbuf_put text (g_iringbuf e)\<rparr>))"

definition iringbuf_update :: "config \<Rightarrow> 'r host \<Rightarrow> u32 \<Rightarrow> 'r emu \<Rightarrow> 'r emu res" where
  "iringbuf_update cfg h pc e = bind_res (vaddr_ifetch cfg pc 4 (memory (core e))) (\<lambda>(i, m).
     iringbuf_push h pc i (set_core ((core e)\<lparr>memory := m\<rparr>) e))"

text \<open>The loop visits each of the 16 slots at most once; the marked line is the one before the write position.\<close>

fun display_loop :: "nat \<Rightarrow> nat \<Rightarrow> ringbuf_t \<Rightarrow> log_line list" where
  "display_loop 0 i rb = []"
| "display_loop (Suc fuel) i rb =
     (if i = wptr rb then []
      else Iring (rb_buf rb i) (int i = int (wptr rb) - 1) # display_loop fuel ((i + 1) mod IRINGBUF_SZ) rb)"

definition iringbuf_display :: "ringbuf_t \<Rightarrow> log_line list" where
  "iringbuf_display rb = display_loop IRINGBUF_SZ (rptr rb) rb"

section \<open>dut.c\<close>

abbreviation dut_devs :: "'r emu \<Rightarrow> dev" where
  "dut_devs e \<equiv> devs (memory (core e))"

definition set_devs :: "(dev \<Rightarrow> dev) \<Rightarrow> 'r emu \<Rightarrow> 'r emu" where
  "set_devs f e = set_core ((core e)\<lparr>memory := (memory (core e))\<lparr>devs := f (dut_devs e)\<rparr>\<rparr>) e"

fun ref_steps :: "'r host \<Rightarrow> nat \<Rightarrow> 'r \<Rightarrow> 'r res" where
  "ref_steps h 0 r = Inr r"
| "ref_steps h (Suc n) r = bind_res (ref_difftest_exec h 1 r) (ref_steps h n)"

definition difftest_skip_dut :: "'r host \<Rightarrow> int \<Rightarrow> int \<Rightarrow> 'r emu \<Rightarrow> 'r emu res" where
  "difftest_skip_dut h nr_ref nr_dut e =
     (let e = set_devs (\<lambda>d. d\<lparr>skip_dut_nr_inst := skip_dut_nr_inst d + nr_dut\<rparr>) e in
      bind_res (ref_steps h (nat nr_ref) (refst e)) (\<lambda>r. Inr (e\<lparr>refst := r\<rparr>)))"

text \<open>The first argument says whether the shared object is given and exports the interface; the image is the bytes
  \<open>img_size\<close> from the reset vector on.\<close>

definition init_difftest :: "config \<Rightarrow> 'r host \<Rightarrow> bool \<Rightarrow> nat \<Rightarrow> int \<Rightarrow> 'r emu \<Rightarrow> 'r emu res" where
  "init_difftest cfg h so img_size port e =
     assert_res ''ref_so_file'' so
       (let image = map (\<lambda>i. pmem (memory (core e)) (guest_to_host cfg (RESET_VECTOR cfg) + i)) [0..<img_size] in
        bind_res (ref_difftest_init h port (refst e)) (\<lambda>r.
        bind_res (ref_difftest_memcpy_to_ref h (RESET_VECTOR cfg) image r) (\<lambda>r.
        Inr (e\<lparr>refst := ref_difftest_regcpy_to_ref h (cpu (core e)) r\<rparr>))))"

definition checkregs :: "config \<Rightarrow> CPU_state \<Rightarrow> u32 \<Rightarrow> 'r emu \<Rightarrow> 'r emu" where
  "checkregs cfg ref_r pc e =
     (if isa_difftest_checkregs ref_r (cpu (core e)) then e
      else let e = set_core ((core e)\<lparr>nstate := NEMU_ABORT, halt_pc := pc\<rparr>) e;
               e = print_line (Regs (cpu (core e))) e
        in if CONFIG_ITRACE cfg then e\<lparr>out := out e @ iringbuf_display (g_iringbuf e)\<rparr> else e)"

definition difftest_step :: "config \<Rightarrow> 'r host \<Rightarrow> u32 \<Rightarrow> u32 \<Rightarrow> 'r emu \<Rightarrow> 'r emu res" where
  "difftest_step cfg h pc npc e =
     (if skip_dut_nr_inst (dut_devs e) > 0 then
        let ref_r = ref_difftest_regcpy_to_dut h (refst e) in
        if cpu_pc ref_r = npc then Inr (checkregs cfg ref_r npc (set_devs (\<lambda>d. d\<lparr>skip_dut_nr_inst := 0\<rparr>) e))
        else let e = set_devs (\<lambda>d. d\<lparr>skip_dut_nr_inst := skip_dut_nr_inst d - 1\<rparr>) e in
          if skip_dut_nr_inst (dut_devs e) = 0 then Inl (Panic ''can not catch up with ref.pc'') else Inr e
      else if is_skip_ref (dut_devs e) then
        Inr (set_devs (\<lambda>d. d\<lparr>is_skip_ref := False\<rparr>) (e\<lparr>refst := ref_difftest_regcpy_to_ref h (cpu (core e)) (refst e)\<rparr>))
      else bind_res (ref_difftest_exec h 1 (refst e)) (\<lambda>r.
        Inr (checkregs cfg (ref_difftest_regcpy_to_dut h r) pc (e\<lparr>refst := r\<rparr>))))"

section \<open>cpu-exec.c\<close>

definition MAX_INST_TO_PRINT :: u64 where "MAX_INST_TO_PRINT = 10"

definition trace_ftrace :: "config \<Rightarrow> Decode \<Rightarrow> 'r emu \<Rightarrow> 'r emu res" where
  "trace_ftrace cfg s e = bind_res (isa_ftrace_dump cfg (ftrace_search (ftrace_syms e)) s (core e)) (\<lambda>l. Inr (case l of
     None \<Rightarrow> e
   | Some l \<Rightarrow> let e = log_write cfg (Ftrace l) e in if g_print_step e then print_line (Ftrace l) e else e))"

definition trace_itrace :: "config \<Rightarrow> string \<Rightarrow> 'r emu \<Rightarrow> 'r emu" where
  "trace_itrace cfg logbuf e = (let e = log_write cfg (Itrace logbuf) e
     in if g_print_step e then print_line (Itrace logbuf) e else e)"

text \<open>The condition of the instruction tracer is the default \<open>true\<close>.\<close>

definition trace_and_difftest :: "config \<Rightarrow> 'r host \<Rightarrow> Decode \<Rightarrow> string \<Rightarrow> u32 \<Rightarrow> 'r emu \<Rightarrow> 'r emu res" where
  "trace_and_difftest cfg h s logbuf npc e =
     (let e = (if CONFIG_ITRACE cfg then trace_itrace cfg logbuf e else e) in
      bind_res (when_res (CONFIG_FTRACE cfg) (trace_ftrace cfg s) e) (\<lambda>e.
      bind_res (when_res (CONFIG_DIFFTEST cfg) (difftest_step cfg h (s_pc s) npc) e) (\<lambda>e.
      bind_res (when_res (CONFIG_WATCHPOINT cfg)
        (\<lambda>e. bind_res (wp_update cfg (wps e) (core e)) (\<lambda>(P, st). Inr (e\<lparr>wps := P, core := st\<rparr>))) e) (\<lambda>e.
      Inr (if CONFIG_BREAKPOINT cfg then set_core (bp_update (bps e) (core e)) e else e)))))"

text \<open>The local \<open>Decode\<close> is not initialised; \<open>dnpc\<close> and \<open>inst\<close> are written before they are read.\<close>

definition exec_once :: "config \<Rightarrow> 'r host \<Rightarrow> u32 \<Rightarrow> 'r emu \<Rightarrow> (Decode \<times> string \<times> 'r emu) res" where
  "exec_once cfg h pc e =
     bind_res (when_res (CONFIG_ITRACE cfg) (iringbuf_update cfg h pc) e) (\<lambda>e.
     bind_res (isa_exec_once cfg \<lparr>s_pc = pc, snpc = pc, dnpc = 0, inst = 0\<rparr> (core e)) (\<lambda>(s, st).
     let e = set_core (st\<lparr>cpu := (cpu st)\<lparr>cpu_pc := dnpc s\<rparr>\<rparr>) e in
     bind_res (if CONFIG_ITRACE cfg then disasm_and_dump (cs_disasm h) (s_pc s) (snpc s) (inst s) LOGBUF_SZ else Inr []) (\<lambda>logbuf.
     Inr (s, logbuf, e))))"

definition emu_device_update :: "config \<Rightarrow> 'r host \<Rightarrow> 'r emu \<Rightarrow> 'r emu res" where
  "emu_device_update cfg h e = (let now = g_nr_guest_inst e; d = (dut_devs e)\<lparr>host_clock := clock h now\<rparr> in
     bind_res (device_update cfg (events h now) (state_of e) d) (\<lambda>(ns, d).
     Inr (set_core ((core e)\<lparr>memory := (memory (core e))\<lparr>devs := d\<rparr>, nstate := ns\<rparr>) e)))"

definition exec_traced :: "config \<Rightarrow> 'r host \<Rightarrow> 'r emu \<Rightarrow> 'r emu res" where
  "exec_traced cfg h e = bind_res (exec_once cfg h (pc_of e) e) (\<lambda>(s, logbuf, e).
     let e = e\<lparr>g_nr_guest_inst := g_nr_guest_inst e + 1\<rparr> in trace_and_difftest cfg h s logbuf (pc_of e) e)"

fun execute :: "config \<Rightarrow> 'r host \<Rightarrow> nat \<Rightarrow> 'r emu \<Rightarrow> 'r emu res" where
  "execute cfg h 0 e = Inr e"
| "execute cfg h (Suc n) e = bind_res (exec_traced cfg h e) (\<lambda>e.
     if state_of e \<noteq> NEMU_RUNNING then Inr e
     else bind_res (when_res (CONFIG_DEVICE cfg) (emu_device_update cfg h) e) (execute cfg h n))"

definition statistic :: "config \<Rightarrow> 'r emu \<Rightarrow> 'r emu" where
  "statistic cfg e = Log cfg (Stat (g_timer e) (g_nr_guest_inst e)
     (if g_timer e > 0 then Some (g_nr_guest_inst e * 1000000 div g_timer e) else None)) e"

definition assert_fail_msg :: "config \<Rightarrow> 'r emu \<Rightarrow> 'r emu" where
  "assert_fail_msg cfg e = (let
     e = (if CONFIG_ITRACE cfg then e\<lparr>out := out e @ iringbuf_display (g_iringbuf e)\<rparr> else e);
     e = print_line (Regs (cpu (core e))) e
   in statistic cfg e)"

definition emu_get_time :: "'r host \<Rightarrow> 'r emu \<Rightarrow> u64 \<times> 'r emu" where
  "emu_get_time h e = (case get_time ((dut_devs e)\<lparr>host_clock := clock h (g_nr_guest_inst e)\<rparr>) of
     (t, d) \<Rightarrow> (t, set_devs (\<lambda>_. d) e))"

definition finish_exec :: "config \<Rightarrow> 'r emu \<Rightarrow> 'r emu" where
  "finish_exec cfg e = (case state_of e of
     NEMU_RUNNING \<Rightarrow> set_core ((core e)\<lparr>nstate := NEMU_STOP\<rparr>) e
   | NEMU_STOP \<Rightarrow> e
   | NEMU_QUIT \<Rightarrow> statistic cfg e
   | ns \<Rightarrow> statistic cfg (Log cfg (Nemu_end ns (halt_ret (core e)) (halt_pc (core e))) e))"

definition ended :: "run_state \<Rightarrow> bool" where
  "ended ns \<longleftrightarrow> ns = NEMU_END \<or> ns = NEMU_ABORT \<or> ns = NEMU_QUIT"

definition cpu_exec :: "config \<Rightarrow> 'r host \<Rightarrow> u64 \<Rightarrow> 'r emu \<Rightarrow> 'r emu res" where
  "cpu_exec cfg h n e = (let e = e\<lparr>g_print_step := (n < MAX_INST_TO_PRINT)\<rparr> in
     if ended (state_of e) then Inr (print_line Ended e)
     else let e = set_core ((core e)\<lparr>nstate := NEMU_RUNNING\<rparr>) e in
       case emu_get_time h e of (timer_start, e) \<Rightarrow>
       bind_res (execute cfg h (unat n) e) (\<lambda>e.
       case emu_get_time h e of (timer_end, e) \<Rightarrow>
       Inr (finish_exec cfg (e\<lparr>g_timer := g_timer e + (timer_end - timer_start)\<rparr>))))"

section \<open>state.c\<close>

definition is_exit_status_bad :: "nemu \<Rightarrow> bool" where
  "is_exit_status_bad st \<longleftrightarrow> \<not> ((nstate st = NEMU_END \<and> halt_ret st = 0) \<or> nstate st = NEMU_QUIT)"

section \<open>ref.c\<close>

definition difftest_memcpy_to_ref :: "config \<Rightarrow> u32 \<Rightarrow> u8 list \<Rightarrow> 'r emu \<Rightarrow> 'r emu res" where
  "difftest_memcpy_to_ref cfg addr buf e = bind_res (copy_to_paddr cfg addr buf (memory (core e))) (\<lambda>m.
     Inr (set_core ((core e)\<lparr>memory := m\<rparr>) e))"

definition difftest_memcpy_to_dut :: "config \<Rightarrow> u32 \<Rightarrow> nat \<Rightarrow> 'r emu \<Rightarrow> (u8 list \<times> 'r emu) res" where
  "difftest_memcpy_to_dut cfg addr n e = bind_res (copy_from_paddr cfg addr n (memory (core e))) (\<lambda>(buf, m).
     Inr (buf, set_core ((core e)\<lparr>memory := m\<rparr>) e))"

text \<open>\<open>csr_name\<close> always returns an array of the table, so that every register is copied; the privilege level is not
  part of the context that is exchanged.\<close>

definition difftest_regcpy_to_ref :: "CPU_state \<Rightarrow> 'r emu \<Rightarrow> 'r emu" where
  "difftest_regcpy_to_ref ctx e = (let c = cpu (core e) in
     set_core ((core e)\<lparr>cpu := c\<lparr>cpu_pc := cpu_pc ctx,
       gpr := (\<lambda>i. if i < 32 then gpr ctx i else gpr c i),
       csr := (\<lambda>i. if i < 4096 then csr ctx i else csr c i)\<rparr>\<rparr>) e)"

definition difftest_regcpy_to_dut :: "'r emu \<Rightarrow> CPU_state" where
  "difftest_regcpy_to_dut e = cpu (core e)"

definition difftest_exec :: "config \<Rightarrow> 'r host \<Rightarrow> u64 \<Rightarrow> 'r emu \<Rightarrow> 'r emu res" where
  "difftest_exec cfg h n e = cpu_exec cfg h n e"

definition difftest_raise_intr :: "u32 \<Rightarrow> 'r emu \<Rightarrow> 'r emu res" where
  "difftest_raise_intr NO e = Inl (Assert_fail ''0'')"

text \<open>\<open>init_mem\<close> fills the memory with a random byte when \<open>CONFIG_MEM_RANDOM\<close> is set; the byte is an argument.\<close>

definition init_mem :: "config \<Rightarrow> u8 option \<Rightarrow> mem \<Rightarrow> mem" where
  "init_mem cfg rnd m = (case rnd of None \<Rightarrow> m
     | Some b \<Rightarrow> m\<lparr>pmem := (\<lambda>i. if i < unat (CONFIG_MSIZE cfg) then b else pmem m i)\<rparr>)"

definition difftest_init :: "config \<Rightarrow> u8 option \<Rightarrow> (string \<Rightarrow> u8) \<Rightarrow> u8 list option \<Rightarrow> 'r emu \<Rightarrow> 'r emu res" where
  "difftest_init cfg rnd sdl sd_img e = (let
     st = (core e)\<lparr>memory := init_mem cfg rnd (memory (core e))\<rparr>;
     st = init_isa cfg st
   in bind_res (init_device cfg sdl sd_img (devs (memory st))) (\<lambda>d.
      Inr (set_core (st\<lparr>memory := (memory st)\<lparr>devs := d\<rparr>\<rparr>) e)))"

record branch_entry =
  br_pc :: u32
  br_target :: u32
  br_uncond :: bool
  br_taken :: bool

record tracesim_batch =
  i_stream :: "u32 list"
  d_stream :: "(bool \<times> u32) list"
  b_stream :: "branch_entry list"

definition difftest_tracesim_init :: "'r emu \<Rightarrow> 'r emu" where
  "difftest_tracesim_init e = set_devs (\<lambda>d. d\<lparr>in_difftest_tracesim := True\<rparr>) e"

definition push_ldstr :: "(bool \<times> u32) option \<Rightarrow> tracesim_batch \<Rightarrow> tracesim_batch" where
  "push_ldstr ld batch = (case ld of None \<Rightarrow> batch | Some x \<Rightarrow> batch\<lparr>d_stream := d_stream batch @ [x]\<rparr>)"

definition push_branch :: "u32 \<Rightarrow> (u32 \<times> bool \<times> bool) option \<Rightarrow> tracesim_batch \<Rightarrow> tracesim_batch" where
  "push_branch pc br batch = (case br of None \<Rightarrow> batch | Some (target, is_uncond, taken) \<Rightarrow>
     batch\<lparr>b_stream := b_stream batch @ [\<lparr>br_pc = pc, br_target = target, br_uncond = is_uncond, br_taken = taken\<rparr>]\<rparr>)"

definition tracesim_record :: "config \<Rightarrow> tracesim_batch \<Rightarrow> 'r emu \<Rightarrow> (tracesim_batch \<times> 'r emu) res" where
  "tracesim_record cfg batch e = (let pc = pc_of e; batch = batch\<lparr>i_stream := i_stream batch @ [pc]\<rparr> in
     bind_res (vaddr_ifetch cfg pc 4 (memory (core e))) (\<lambda>(i, m).
     let e = set_core ((core e)\<lparr>memory := m\<rparr>) e in
     bind_res (isa_decode_ldstr cfg i (core e)) (\<lambda>ld.
     bind_res (isa_decode_branch cfg pc i (core e)) (\<lambda>br.
     Inr (push_branch pc br (push_ldstr ld batch), e)))))"

fun tracesim_loop :: "config \<Rightarrow> 'r host \<Rightarrow> nat \<Rightarrow> tracesim_batch \<Rightarrow> 'r emu \<Rightarrow> (tracesim_batch \<times> 'r emu) res" where
  "tracesim_loop cfg h 0 batch e = Inr (batch, e)"
| "tracesim_loop cfg h (Suc n) batch e =
     bind_res (tracesim_record cfg batch e) (\<lambda>(batch, e).
     bind_res (cpu_exec cfg h 1 e) (\<lambda>e.
     if ended (state_of e) then Inr (batch, e) else tracesim_loop cfg h n batch e))"

definition difftest_tracesim_step :: "config \<Rightarrow> 'r host \<Rightarrow> u32 \<Rightarrow> 'r emu \<Rightarrow> (tracesim_batch \<times> 'r emu) res" where
  "difftest_tracesim_step cfg h tracesim_batch_size e =
     tracesim_loop cfg h (unat tracesim_batch_size) \<lparr>i_stream = [], d_stream = [], b_stream = []\<rparr> e"

end
