(* ===== verification/Frame.thy ===== *)
theory Frame
  imports Cpu Riscv_Proofs
begin

text \<open>
  What the parts of the execution loop leave alone: device handlers and memory accesses do not make the differential
  test wait, debugger expressions change memory only through the devices they read, and checking the points changes
  nothing of the machine but its run state.
\<close>

section \<open>Devices\<close>

definition no_wait :: "dev \<Rightarrow> bool" where
  "no_wait d \<longleftrightarrow> skip_dut_nr_inst d = 0"

lemma set_reg32_skip [simp]: "skip_dut_nr_inst (set_reg32 b i v d) = skip_dut_nr_inst d"
  by (simp add: set_reg32_def)

lemma prepare_rw_skip [simp]: "skip_dut_nr_inst (prepare_rw w d) = skip_dut_nr_inst d"
  by (simp add: prepare_rw_def set_sd_reg_def Let_def)

lemma sdcard_cmd_skip: "sdcard_handle_cmd c d = Inr d' \<Longrightarrow> skip_dut_nr_inst d' = skip_dut_nr_inst d"
  by (auto simp: sdcard_handle_cmd_def set_sd_reg_def Let_def split: if_splits)

lemma sd_transfer_skip [simp]: "skip_dut_nr_inst (sd_transfer d) = skip_dut_nr_inst d"
  by (simp add: sd_transfer_def set_sd_reg_def Let_def split: option.splits)

lemma run_handler_skip: "run_handler cfg h off len w d = Inr d' \<Longrightarrow> skip_dut_nr_inst d' = skip_dut_nr_inst d"
  by (cases h)
    (auto simp: run_handler_def serial_io_handler_def serial_putc_def serial_getc_def rtc_io_handler_def get_time_def
      i8042_data_io_handler_def key_dequeue_def audio_io_handler_def sdcard_io_handler_def set_sd_reg_def
      uart_io_handler_def res_simps Let_def
      split: if_splits prod.splits list.splits dest!: sdcard_cmd_skip)

lemma no_wait_handler: "no_wait d \<Longrightarrow> run_handler cfg h off len w d = Inr d' \<Longrightarrow> no_wait d'"
  using run_handler_skip by (simp add: no_wait_def)

lemma no_wait_find: "no_wait d \<Longrightarrow> find_mapid_by_addr ms a d = (mo, d') \<Longrightarrow> no_wait d'"
  by (auto simp: find_mapid_by_addr_def difftest_skip_ref_def no_wait_def split: option.splits)

lemma no_wait_mmio_read: "no_wait d \<Longrightarrow> mmio_read cfg (run_handler cfg) a n d = Inr (v, d') \<Longrightarrow> no_wait d'"
  by (auto simp: mmio_read_def fetch_mmio_map_def map_read_def invoke_callback_def res_simps Let_def
      split: prod.splits if_splits option.splits dest: no_wait_find no_wait_handler)

lemma no_wait_upd [simp]: "no_wait (d\<lparr>io_space := sp\<rparr>) = no_wait d"
  by (simp add: no_wait_def)

lemma no_wait_io_space: "no_wait d \<Longrightarrow> run_handler cfg h off len w (d\<lparr>io_space := sp\<rparr>) = Inr d' \<Longrightarrow> no_wait d'"
  using no_wait_handler[of "d\<lparr>io_space := sp\<rparr>"] by simp

lemma no_wait_mmio_write: "no_wait d \<Longrightarrow> mmio_write cfg (run_handler cfg) a n v d = Inr d' \<Longrightarrow> no_wait d'"
  by (auto simp: mmio_write_def fetch_mmio_map_def map_write_def invoke_callback_def res_simps Let_def
      split: prod.splits if_splits option.splits dest: no_wait_find no_wait_io_space)

lemma no_wait_paddr_read: "no_wait (devs m) \<Longrightarrow> paddr_read cfg a n m = Inr (v, m') \<Longrightarrow> no_wait (devs m')"
  by (auto simp: paddr_read_def out_of_bound_def res_simps split: if_splits dest: no_wait_mmio_read)

lemma no_wait_paddr_write: "no_wait (devs m) \<Longrightarrow> paddr_write cfg a n v m = Inr m' \<Longrightarrow> no_wait (devs m')"
  by (auto simp: paddr_write_def pmem_write_def out_of_bound_def res_simps split: if_splits dest: no_wait_mmio_write)

section \<open>Instructions\<close>

abbreviation quiet :: "nemu \<Rightarrow> bool" where
  "quiet st \<equiv> no_wait (devs (memory st))"

lemma quiet_fetch: "quiet st \<Longrightarrow> inst_fetch cfg pc n st = Inr (i, pc', st') \<Longrightarrow> quiet st'"
  by (auto simp: inst_fetch_def vaddr_ifetch_def res_simps dest: no_wait_paddr_read)

lemma quiet_Mr: "quiet st \<Longrightarrow> Mr cfg a n st = Inr (v, st') \<Longrightarrow> quiet st'"
  by (auto simp: Mr_def vaddr_read_def res_simps dest: no_wait_paddr_read)

lemma quiet_Mw: "quiet st \<Longrightarrow> Mw cfg a n v st = Inr st' \<Longrightarrow> quiet st'"
  by (auto simp: Mw_def vaddr_write_def res_simps dest: no_wait_paddr_write)

lemma quiet_set_state: "quiet (set_nemu_state ns pc ret st)"
  by (simp add: set_nemu_state_def difftest_skip_ref_def no_wait_def)

lemma quiet_set_rd: "quiet st \<Longrightarrow> set_rd cfg ops v s st = Inr (s', st') \<Longrightarrow> quiet st'"
  using set_rd_frame by simp

lemma quiet_load: "quiet st \<Longrightarrow> load_op cfg ops n f s st = Inr (s', st') \<Longrightarrow> quiet st'"
  by (auto simp: load_op_def res_simps dest: quiet_Mr quiet_set_rd)

lemma quiet_store: "quiet st \<Longrightarrow> store_op cfg ops n s st = Inr (s', st') \<Longrightarrow> quiet st'"
  by (auto simp: store_op_def res_simps dest: quiet_Mw)

lemma quiet_invalid: "invalid_inst cfg pc st = Inr st' \<Longrightarrow> quiet st'"
  by (auto simp: invalid_inst_def res_simps quiet_set_state)

lemma quiet_exec_body: "quiet st \<Longrightarrow> exec_body cfg op ops s st = Inr (s', st') \<Longrightarrow> quiet st'"
  by (cases op)
    (auto simp: exec_body_def Let_def branch_def on_state_def riscv_ecall_def NEMUTRAP_def res_simps quiet_set_state
      dest: quiet_set_rd quiet_load quiet_store quiet_invalid dest!: isa_raise_intr_memory csr_ops_frame)

lemma quiet_exec: "quiet st \<Longrightarrow> isa_exec_once cfg s st = Inr (s', st') \<Longrightarrow> quiet st'"
  by (auto simp: isa_exec_once_def decode_exec_def Let_def res_simps split: option.splits
      dest!: R_set_memory) (metis quiet_fetch quiet_exec_body)+

lemma exec_body_pc: "exec_body cfg op ops s st = Inr (s', st') \<Longrightarrow> s_pc s' = s_pc s"
  by (cases op)
    (auto simp: exec_body_def Let_def branch_def on_state_def load_op_def store_op_def res_simps dest!: set_rd_frame)

lemma isa_exec_once_pc: "isa_exec_once cfg s st = Inr (s', st') \<Longrightarrow> s_pc s' = s_pc s"
  by (auto simp: isa_exec_once_def decode_exec_def Let_def res_simps split: option.splits dest!: exec_body_pc)

section \<open>Debugger expressions\<close>

text \<open>An expression changes the machine only by the memory reads it makes.\<close>

definition read_rel :: "config \<Rightarrow> nemu \<Rightarrow> nemu \<Rightarrow> bool" where
  "read_rel cfg = (\<lambda>st st'. \<exists>a v. Mr cfg a 4 st = Inr (v, st'))\<^sup>*\<^sup>*"

lemma eval_unary_reads: "eval_unary cfg op x st = Inr (v, st') \<Longrightarrow> read_rel cfg st st'"
  by (auto simp: eval_unary_def read_rel_def res_simps split: if_splits)

lemma read_rel_trans: "read_rel cfg a b \<Longrightarrow> read_rel cfg b c \<Longrightarrow> read_rel cfg a c"
  unfolding read_rel_def by (rule rtranclp_trans)

lemma read_rel_refl [simp]: "read_rel cfg a a"
  by (simp add: read_rel_def)

lemma eval_reads: "eval cfg ts st = Inr (v, st') \<Longrightarrow> read_rel cfg st st'"
proof (induction "length ts" arbitrary: ts st v st' rule: less_induct)
  case less
  have IH: "eval cfg us st = Inr (v, st') \<Longrightarrow> length us < length ts \<Longrightarrow> read_rel cfg st st'" for us st v st'
    using less.hyps by blast
  consider "ts = []" | "length ts = 1" | "ts \<noteq> []" "length ts \<noteq> 1" by blast
  then show ?case
  proof cases
    case 3
    obtain p q where c: "check_parentheses ts = (p, q)" by force
    show ?thesis
    proof (cases "p \<or> q")
      case True
      then show ?thesis using less.prems 3 c IH[of "butlast (tl ts)" st v st']
        by (cases p) (auto simp: eval.simps[of cfg ts])
    next
      case False
      then obtain dom where dom: "find_dominant_operator ts = Inr dom"
        using less.prems 3 c by (auto simp: eval.simps[of cfg ts] res_simps)
      show ?thesis
      proof (cases dom)
        case None
        then show ?thesis using less.prems 3 c dom False by (auto simp: eval.simps[of cfg ts])
      next
        case (Some k)
        have k: "k < length ts" using dom Some find_dominant_range by blast
        then show ?thesis using less.prems 3 c dom False Some IH[of "drop (Suc k) ts"] IH[of "take k ts"]
          by (auto simp: eval.simps[of cfg ts] res_simps split: if_splits option.splits
              dest!: eval_unary_reads) (blast intro: read_rel_trans)+
      qed
    qed
  next
    case 1
    then show ?thesis using less.prems by (simp add: eval.simps)
  next
    case 2
    then have "ts \<noteq> []" by auto
    then show ?thesis using less.prems 2 by (auto simp: eval.simps[of cfg ts] bind_res_eq_Inr)
  qed
qed

lemma expr_reads: "expr cfg e st = Inr (v, st') \<Longrightarrow> read_rel cfg st st'"
  by (auto simp: expr_def eval_reads split: option.splits)

section \<open>Points\<close>

text \<open>Checking the points reads memory and may stop the machine.\<close>

definition point_step :: "config \<Rightarrow> nemu \<Rightarrow> nemu \<Rightarrow> bool" where
  "point_step cfg st st' \<longleftrightarrow> (\<exists>a v. Mr cfg a 4 st = Inr (v, st')) \<or> st' = stop_if_running st"

abbreviation point_rel :: "config \<Rightarrow> nemu \<Rightarrow> nemu \<Rightarrow> bool" where
  "point_rel cfg \<equiv> (point_step cfg)\<^sup>*\<^sup>*"

lemma read_point: "read_rel cfg st st' \<Longrightarrow> point_rel cfg st st'"
  unfolding read_rel_def by (erule rtranclp_mono[THEN predicate2D, rotated]) (force simp: point_step_def)

lemma stop_point: "point_rel cfg st (stop_if_running st)"
  by (rule r_into_rtranclp) (simp add: point_step_def)

lemma wp_update_one_point: "wp_update_one cfg i P st = Inr (P', st') \<Longrightarrow> point_rel cfg st st'"
  by (auto simp: wp_update_one_def Let_def res_simps split: heap_str.splits option.splits if_splits
      dest!: expr_reads read_point intro: rtranclp_trans[OF _ stop_point])

lemma wp_update_list_point: "wp_update_list cfg is P st = Inr (P', st') \<Longrightarrow> point_rel cfg st st'"
  by (induction "is" arbitrary: P st)
    (auto simp: res_simps intro: rtranclp_trans wp_update_one_point)

lemma wp_update_point: "wp_update cfg P st = Inr (P', st') \<Longrightarrow> point_rel cfg st st'"
  by (simp add: wp_update_def wp_update_list_point)

lemma bp_update_point: "point_rel cfg st (bp_update P st)"
proof -
  have "point_rel cfg st (fold (\<lambda>i. bp_update_one i P) is st)" for "is"
    by (induction "is" arbitrary: st) (auto simp: bp_update_one_def intro: rtranclp_trans[OF stop_point])
  then show ?thesis by (simp add: bp_update_def)
qed

lemma point_rel_frame:
  "point_rel cfg st st' \<Longrightarrow> quiet st \<Longrightarrow>
   cpu st' = cpu st \<and> quiet st' \<and> (nstate st' = nstate st \<or> nstate st = NEMU_RUNNING \<and> nstate st' = NEMU_STOP)
   \<and> halt_pc st' = halt_pc st \<and> halt_ret st' = halt_ret st"
proof (induction rule: rtranclp_induct)
  case (step y z)
  have y: "cpu y = cpu st" "quiet y" "nstate y = nstate st \<or> nstate st = NEMU_RUNNING \<and> nstate y = NEMU_STOP"
    "halt_pc y = halt_pc st" "halt_ret y = halt_ret st" using step by auto
  have "cpu z = cpu y \<and> quiet z \<and> (nstate z = nstate y \<or> nstate y = NEMU_RUNNING \<and> nstate z = NEMU_STOP)
    \<and> halt_pc z = halt_pc y \<and> halt_ret z = halt_ret y"
    using step.hyps(2) y(2) unfolding point_step_def
    by (auto simp: stop_if_running_def dest: quiet_Mr split: if_splits) (auto simp: Mr_def res_simps)
  then show ?case using y by auto
qed simp

section \<open>The periodic update\<close>

lemma send_key_no_wait: "send_key ns k b d = Inr d' \<Longrightarrow> no_wait d \<Longrightarrow> no_wait d'"
  by (auto simp: send_key_def key_enqueue_def assert_res_def no_wait_def Let_def split: if_splits)

lemma poll_events_frame:
  "poll_events cfg evs ns d = Inr (ns', d') \<Longrightarrow> no_wait d \<Longrightarrow> no_wait d' \<and> (ns' = ns \<or> ns' = NEMU_QUIT)"
proof (induction cfg evs ns d rule: poll_events.induct)
  case (3 cfg k down evs st d)
  then show ?case by (cases "CONFIG_HAS_KEYBOARD cfg") (auto simp: res_simps dest: send_key_no_wait)
qed auto

lemma device_update_frame:
  "device_update cfg evs ns d = Inr (ns', d') \<Longrightarrow> no_wait d \<Longrightarrow> no_wait d' \<and> (ns' = ns \<or> ns' = NEMU_QUIT)"
  by (auto simp: device_update_def get_time_def Let_def no_wait_def vga_update_screen_def
      split: if_splits dest!: poll_events_frame)

lemma emu_update_frame:
  assumes "emu_device_update cfg h e = Inr e'" "quiet (core e)"
  shows "quiet (core e') \<and> cpu (core e') = cpu (core e) \<and> refst e' = refst e
    \<and> (state_of e' = state_of e \<or> state_of e' = NEMU_QUIT) \<and> g_nr_guest_inst e' = g_nr_guest_inst e"
proof -
  let ?d = "(dut_devs e)\<lparr>host_clock := clock h (g_nr_guest_inst e)\<rparr>"
  obtain ns d where u: "device_update cfg (events h (g_nr_guest_inst e)) (state_of e) ?d = Inr (ns, d)"
    and e': "e' = set_core ((core e)\<lparr>memory := (memory (core e))\<lparr>devs := d\<rparr>, nstate := ns\<rparr>) e"
    using assms(1) by (auto simp: emu_device_update_def Let_def res_simps)
  have "no_wait ?d" using assms(2) by (simp add: no_wait_def)
  then show ?thesis using device_update_frame[OF u] e' by simp
qed

section \<open>Traces\<close>

lemma log_write_frame [simp]:
  "core (log_write cfg l e) = core e" "refst (log_write cfg l e) = refst e"
  "g_nr_guest_inst (log_write cfg l e) = g_nr_guest_inst e" "wps (log_write cfg l e) = wps e" "bps (log_write cfg l e) = bps e"
  "g_timer (log_write cfg l e) = g_timer e"
  by (simp_all add: log_write_def)

lemma print_line_frame [simp]:
  "core (print_line l e) = core e" "refst (print_line l e) = refst e"
  "g_nr_guest_inst (print_line l e) = g_nr_guest_inst e" "wps (print_line l e) = wps e" "bps (print_line l e) = bps e"
  "g_timer (print_line l e) = g_timer e"
  by (simp_all add: print_line_def)

lemma trace_itrace_frame [simp]:
  "core (trace_itrace cfg l e) = core e" "refst (trace_itrace cfg l e) = refst e"
  "g_nr_guest_inst (trace_itrace cfg l e) = g_nr_guest_inst e" "wps (trace_itrace cfg l e) = wps e"
  "bps (trace_itrace cfg l e) = bps e"
  by (simp_all add: trace_itrace_def Let_def)

lemma trace_ftrace_frame:
  "trace_ftrace cfg s e = Inr e' \<Longrightarrow> core e' = core e \<and> refst e' = refst e \<and> g_nr_guest_inst e' = g_nr_guest_inst e
     \<and> wps e' = wps e \<and> bps e' = bps e"
  by (auto simp: trace_ftrace_def res_simps Let_def split: option.splits)

lemma Log_frame [simp]: "core (Log cfg l e) = core e" "refst (Log cfg l e) = refst e"
  "g_nr_guest_inst (Log cfg l e) = g_nr_guest_inst e" "wps (Log cfg l e) = wps e" "bps (Log cfg l e) = bps e"
  by (simp_all add: Log_def)

lemma statistic_frame [simp]: "core (statistic cfg e) = core e" "refst (statistic cfg e) = refst e"
  "g_nr_guest_inst (statistic cfg e) = g_nr_guest_inst e" "wps (statistic cfg e) = wps e" "bps (statistic cfg e) = bps e"
  by (simp_all add: statistic_def)

lemma get_time_frame:
  "emu_get_time h e = (t, e') \<Longrightarrow> cpu (core e') = cpu (core e) \<and> refst e' = refst e \<and> state_of e' = state_of e
     \<and> g_nr_guest_inst e' = g_nr_guest_inst e \<and> quiet (core e') = quiet (core e) \<and> halt_pc (core e') = halt_pc (core e)
     \<and> halt_ret (core e') = halt_ret (core e) \<and> pmem (memory (core e')) = pmem (memory (core e))
     \<and> wps e' = wps e \<and> bps e' = bps e \<and> is_skip_ref (dut_devs e') = is_skip_ref (dut_devs e)
     \<and> skip_dut_nr_inst (dut_devs e') = skip_dut_nr_inst (dut_devs e)"
  by (auto simp: emu_get_time_def get_time_def Let_def set_devs_def no_wait_def split: prod.splits if_splits)

text \<open>What follows an instruction: traces, the comparison, then the points.\<close>

lemma trace_parts:
  assumes "trace_and_difftest cfg h s logbuf npc e = Inr e'"
  shows "\<exists>ea eb. core ea = core e \<and> refst ea = refst e \<and> g_nr_guest_inst ea = g_nr_guest_inst e
    \<and> when_res (CONFIG_DIFFTEST cfg) (difftest_step cfg h (s_pc s) npc) ea = Inr eb
    \<and> point_rel cfg (core eb) (core e') \<and> refst e' = refst eb \<and> g_nr_guest_inst e' = g_nr_guest_inst eb"
proof -
  define ez where "ez = (if CONFIG_ITRACE cfg then trace_itrace cfg logbuf e else e)"
  let ?w = "\<lambda>e. bind_res (wp_update cfg (wps e) (core e)) (\<lambda>(P, st). Inr (e\<lparr>wps := P, core := st\<rparr>))"
  obtain ea eb ec where a: "when_res (CONFIG_FTRACE cfg) (trace_ftrace cfg s) ez = Inr ea"
    and b: "when_res (CONFIG_DIFFTEST cfg) (difftest_step cfg h (s_pc s) npc) ea = Inr eb" and c: "when_res (CONFIG_WATCHPOINT cfg) ?w eb = Inr ec"
    and e': "e' = (if CONFIG_BREAKPOINT cfg then set_core (bp_update (bps ec) (core ec)) ec else ec)"
    using assms unfolding trace_and_difftest_def ez_def[symmetric] Let_def by (auto simp: res_simps)
  have "core ea = core e \<and> refst ea = refst e \<and> g_nr_guest_inst ea = g_nr_guest_inst e"
    using a by (auto simp: when_res_def ez_def split: if_splits dest: trace_ftrace_frame)
  moreover have "point_rel cfg (core eb) (core ec) \<and> refst ec = refst eb \<and> g_nr_guest_inst ec = g_nr_guest_inst eb"
    using c by (auto simp: when_res_def res_simps split: if_splits dest: wp_update_point)
  moreover have "point_rel cfg (core ec) (core e') \<and> refst e' = refst ec \<and> g_nr_guest_inst e' = g_nr_guest_inst ec"
    by (simp add: e' bp_update_point)
  ultimately show ?thesis using b by (metis rtranclp_trans)
qed

text \<open>The parts of a call of \<open>cpu_exec\<close> on a program that has not ended.\<close>

definition start_exec :: "u64 \<Rightarrow> 'r emu \<Rightarrow> 'r emu" where
  "start_exec n e = set_core ((core e)\<lparr>nstate := NEMU_RUNNING\<rparr>) (e\<lparr>g_print_step := (n < MAX_INST_TO_PRINT)\<rparr>)"

lemma cpu_exec_parts:
  assumes "cpu_exec cfg h n e = Inr e'" "\<not> ended (state_of e)"
  shows "\<exists>t ea eb t' ec. emu_get_time h (start_exec n e) = (t, ea) \<and> execute cfg h (unat n) ea = Inr eb
    \<and> emu_get_time h eb = (t', ec) \<and> e' = finish_exec cfg (ec\<lparr>g_timer := g_timer ec + (t' - t)\<rparr>)"
proof -
  obtain t ea where a: "emu_get_time h (start_exec n e) = (t, ea)" by force
  have *: "bind_res (execute cfg h (unat n) ea) (\<lambda>e. case emu_get_time h e of (timer_end, e) \<Rightarrow>
       Inr (finish_exec cfg (e\<lparr>g_timer := g_timer e + (timer_end - t)\<rparr>))) = Inr e'"
    using assms a unfolding start_exec_def by (simp add: cpu_exec_def Let_def)
  obtain eb where b: "execute cfg h (unat n) ea = Inr eb" using * by (auto simp: res_simps)
  obtain t' ec where c: "emu_get_time h eb = (t', ec)" by force
  show ?thesis using a b c * by auto
qed

lemma finish_exec_frame [simp]:
  "cpu (core (finish_exec cfg e)) = cpu (core e)" "memory (core (finish_exec cfg e)) = memory (core e)"
  "halt_pc (core (finish_exec cfg e)) = halt_pc (core e)" "halt_ret (core (finish_exec cfg e)) = halt_ret (core e)"
  "refst (finish_exec cfg e) = refst e" "g_nr_guest_inst (finish_exec cfg e) = g_nr_guest_inst e"
  "wps (finish_exec cfg e) = wps e" "bps (finish_exec cfg e) = bps e"
  "state_of (finish_exec cfg e) = (if state_of e = NEMU_RUNNING then NEMU_STOP else state_of e)"
  by (simp_all add: finish_exec_def split: run_state.split)

end
