(* ===== verification/Difftest.thy ===== *)
theory Difftest
  imports Frame
begin

text \<open>
  Differential testing: as long as the emulator keeps running under a reference whose registers can be set, the
  reference is in lock-step with it: it executes one instruction for each that is compared, is given the registers after
  each that is not, and the registers agree after every one; a disagreement stops the emulator.  The emulator's own reference
  interface is shown to provide what is assumed.
\<close>

section \<open>The interface of a reference\<close>

definition agree :: "'r host \<Rightarrow> 'r emu \<Rightarrow> bool" where
  "agree h e \<longleftrightarrow> isa_difftest_checkregs (ref_difftest_regcpy_to_dut h (refst e)) (cpu (core e))"

lemma checkregs_frame:
  "quiet (core (checkregs cfg c pc e)) = quiet (core e)" "cpu (core (checkregs cfg c pc e)) = cpu (core e)"
  "refst (checkregs cfg c pc e) = refst e" "g_nr_guest_inst (checkregs cfg c pc e) = g_nr_guest_inst e"
  "state_of (checkregs cfg c pc e) = (if isa_difftest_checkregs c (cpu (core e)) then state_of e else NEMU_ABORT)"
  "halt_pc (core (checkregs cfg c pc e)) = (if isa_difftest_checkregs c (cpu (core e)) then halt_pc (core e) else pc)"
  by (simp_all add: checkregs_def print_line_def Let_def)

lemma exec_once_quiet:
  assumes "exec_once cfg h pc e = Inr (s, logbuf, e')" "quiet (core e)"
  shows "quiet (core e') \<and> refst e' = refst e \<and> g_nr_guest_inst e' = g_nr_guest_inst e \<and> s_pc s = pc"
proof -
  obtain ea st where a: "when_res (CONFIG_ITRACE cfg) (iringbuf_update cfg h pc) e = Inr ea"
    and x: "isa_exec_once cfg \<lparr>s_pc = pc, snpc = pc, dnpc = 0, inst = 0\<rparr> (core ea) = Inr (s, st)"
    and e': "e' = set_core (st\<lparr>cpu := (cpu st)\<lparr>cpu_pc := dnpc s\<rparr>\<rparr>) ea"
    using assms(1) by (auto simp: exec_once_def Let_def res_simps)
  have "quiet (core ea) \<and> refst ea = refst e \<and> g_nr_guest_inst ea = g_nr_guest_inst e"
    using a assms(2) by (auto simp: when_res_def iringbuf_update_def iringbuf_push_def vaddr_ifetch_def res_simps
        split: if_splits dest: no_wait_paddr_read)
  then show ?thesis using x e' quiet_exec[OF _ x] isa_exec_once_pc[OF x] by auto
qed

locale reference =
  fixes h :: "'r host"
  assumes regcpy: "isa_difftest_checkregs (ref_difftest_regcpy_to_dut h (ref_difftest_regcpy_to_ref h c r)) c"
begin

lemma difftest_step_agree:
  assumes step: "difftest_step cfg h pc npc e = Inr e'" and q: "quiet (core e)"
  shows "quiet (core e') \<and> cpu (core e') = cpu (core e) \<and> g_nr_guest_inst e' = g_nr_guest_inst e
    \<and> (if agree h e' then state_of e' = state_of e else state_of e' = NEMU_ABORT \<and> halt_pc (core e') = pc)"
proof (cases "is_skip_ref (dut_devs e)")
  case True
  then show ?thesis using step q regcpy by (auto simp: difftest_step_def no_wait_def set_devs_def agree_def)
next
  case False
  then obtain r where "e' = checkregs cfg (ref_difftest_regcpy_to_dut h r) pc (e\<lparr>refst := r\<rparr>)"
    using step q by (auto simp: difftest_step_def no_wait_def res_simps)
  then show ?thesis using q by (simp add: checkregs_frame agree_def)
qed

lemma after_difftest_agree:
  assumes "trace_and_difftest cfg h s logbuf npc e = Inr e'" "CONFIG_DIFFTEST cfg" "quiet (core e)"
  shows "quiet (core e') \<and> cpu (core e') = cpu (core e) \<and> g_nr_guest_inst e' = g_nr_guest_inst e
    \<and> (\<not> agree h e' \<longrightarrow> state_of e' = NEMU_ABORT \<and> halt_pc (core e') = s_pc s)"
proof -
  obtain ea eb where a: "core ea = core e" "refst ea = refst e" "g_nr_guest_inst ea = g_nr_guest_inst e"
    and b: "difftest_step cfg h (s_pc s) npc ea = Inr eb"
    and p: "point_rel cfg (core eb) (core e')" "refst e' = refst eb" "g_nr_guest_inst e' = g_nr_guest_inst eb"
    using trace_parts[OF assms(1)] assms(2) by (auto simp: when_res_def)
  have eb: "quiet (core eb)" "cpu (core eb) = cpu (core e)" "g_nr_guest_inst eb = g_nr_guest_inst e"
    "if agree h eb then state_of eb = state_of e else state_of eb = NEMU_ABORT \<and> halt_pc (core eb) = s_pc s"
    using difftest_step_agree[OF b] assms(3) a by auto
  have f: "cpu (core e') = cpu (core eb)" "quiet (core e')" "halt_pc (core e') = halt_pc (core eb)"
    "state_of e' = state_of eb \<or> state_of eb = NEMU_RUNNING \<and> state_of e' = NEMU_STOP"
    using point_rel_frame[OF p(1) eb(1)] by auto
  have "agree h e' = agree h eb" using f(1) p(2) by (simp add: agree_def)
  then show ?thesis using f eb p(3) by (auto split: if_splits)
qed

lemma exec_traced_agree:
  assumes "exec_traced cfg h e = Inr e'" "CONFIG_DIFFTEST cfg" "quiet (core e)"
  shows "quiet (core e') \<and> g_nr_guest_inst e' = g_nr_guest_inst e + 1
    \<and> (\<not> agree h e' \<longrightarrow> state_of e' = NEMU_ABORT \<and> halt_pc (core e') = pc_of e)"
  using assms by (auto simp: exec_traced_def Let_def res_simps dest!: exec_once_quiet after_difftest_agree)

lemma execute_agree:
  assumes "execute cfg h n e = Inr e'" "CONFIG_DIFFTEST cfg" "quiet (core e)" "agree h e"
  shows "agree h e' \<or> state_of e' = NEMU_ABORT"
  using assms
proof (induction n arbitrary: e)
  case (Suc n)
  obtain ea where a: "exec_traced cfg h e = Inr ea" and r: "(if state_of ea \<noteq> NEMU_RUNNING then Inr ea
     else bind_res (when_res (CONFIG_DEVICE cfg) (emu_device_update cfg h) ea) (execute cfg h n)) = Inr e'"
    using Suc.prems(1) by (auto simp: res_simps)
  have f: "quiet (core ea)" "\<not> agree h ea \<longrightarrow> state_of ea = NEMU_ABORT"
    using exec_traced_agree[OF a Suc.prems(2,3)] by auto
  show ?case
  proof (cases "state_of ea = NEMU_RUNNING")
    case True
    obtain eb where b: "when_res (CONFIG_DEVICE cfg) (emu_device_update cfg h) ea = Inr eb" "execute cfg h n eb = Inr e'"
      using r True by (auto simp: res_simps)
    have "quiet (core eb) \<and> cpu (core eb) = cpu (core ea) \<and> refst eb = refst ea"
      using b(1) f(1) by (auto simp: when_res_def split: if_splits dest: emu_update_frame)
    then show ?thesis using Suc.IH[OF b(2) Suc.prems(2)] f(2) True by (auto simp: agree_def)
  qed (use r f in auto)
qed simp

lemma cpu_exec_agree:
  assumes x: "cpu_exec cfg h n e = Inr e'" and c: "CONFIG_DIFFTEST cfg" and e: "quiet (core e)" "agree h e"
  shows "agree h e' \<or> state_of e' = NEMU_ABORT"
proof (cases "ended (state_of e)")
  case True
  then show ?thesis using x e(2) by (auto simp: cpu_exec_def Let_def agree_def)
next
  case False
  obtain t ea eb t' ec where a: "emu_get_time h (start_exec n e) = (t, ea)" and b: "execute cfg h (unat n) ea = Inr eb"
    and c': "emu_get_time h eb = (t', ec)" and e': "e' = finish_exec cfg (ec\<lparr>g_timer := g_timer ec + (t' - t)\<rparr>)"
    using cpu_exec_parts[OF x False] by blast
  have "quiet (core ea)" "agree h ea" using get_time_frame[OF a] e by (auto simp: start_exec_def agree_def)
  from execute_agree[OF b c this] show ?thesis using get_time_frame[OF c'] by (auto simp: e' agree_def)
qed

lemma init_agree: "init_difftest cfg h so n port e = Inr e' \<Longrightarrow> agree h e' \<and> core e' = core e"
  by (auto simp: init_difftest_def assert_res_def res_simps agree_def regcpy Let_def split: if_splits)

end

section \<open>Which instructions are not compared\<close>

text \<open>An access to a device, and an instruction that is not compared: it is fetched from a device, loads from one or
  stores to one, traps, or is invalid.\<close>

definition device_at :: "config \<Rightarrow> dev \<Rightarrow> u32 \<Rightarrow> bool" where
  "device_at cfg d a \<longleftrightarrow> \<not> in_pmem cfg a \<and> list_ex (\<lambda>m. map_inside m a) (mmio_maps d)"

definition not_compared :: "config \<Rightarrow> nemu \<Rightarrow> bool" where
  "not_compared cfg st \<longleftrightarrow> device_at cfg (devs (memory st)) (cpu_pc (cpu st)) \<or>
     (case paddr_read cfg (cpu_pc (cpu st)) 4 (memory st) of Inl _ \<Rightarrow> False
      | Inr (i, _) \<Rightarrow> rv_manual i \<in> {EBREAK, INV} \<or>
          (case isa_decode_ldstr cfg i st of Inr (Some (_, a)) \<Rightarrow> device_at cfg (devs (memory st)) a | _ \<Rightarrow> False))"

lemma find_map_ex: "find_map ms a \<noteq> None \<longleftrightarrow> list_ex (\<lambda>m. map_inside m a) ms"
  by (induction ms) auto

lemma run_handler_flag: "run_handler cfg h off len w d = Inr d' \<Longrightarrow> is_skip_ref d' = is_skip_ref d"
proof -
  have r: "is_skip_ref (set_reg32 b i v d) = is_skip_ref d" "is_skip_ref (prepare_rw w d) = is_skip_ref d"
    "is_skip_ref (sd_transfer d) = is_skip_ref d" for b i v w d
    by (simp_all add: set_reg32_def prepare_rw_def sd_transfer_def set_sd_reg_def Let_def split: option.splits)
  have c: "is_skip_ref d' = is_skip_ref d" if "sdcard_handle_cmd c d = Inr d'" for c d d'
    using that by (auto simp: sdcard_handle_cmd_def set_sd_reg_def Let_def r split: if_splits)
  assume "run_handler cfg h off len w d = Inr d'"
  then show ?thesis
    by (cases h)
      (auto simp: run_handler_def serial_io_handler_def serial_putc_def serial_getc_def rtc_io_handler_def get_time_def
        i8042_data_io_handler_def key_dequeue_def audio_io_handler_def sdcard_io_handler_def set_sd_reg_def
        uart_io_handler_def res_simps Let_def r
        split: if_splits prod.splits list.splits dest!: c)
qed

lemma find_mapid_flag:
  "find_mapid_by_addr ms a d = (mo, d') \<Longrightarrow> is_skip_ref d' = (is_skip_ref d \<or> list_ex (\<lambda>m. map_inside m a) ms)"
  unfolding find_map_ex[symmetric]
  by (auto simp: find_mapid_by_addr_def difftest_skip_ref_def split: option.splits)

lemma mmio_read_flag:
  assumes "mmio_read cfg (run_handler cfg) a n d = Inr (v, d')"
  shows "is_skip_ref d' = (is_skip_ref d \<or> list_ex (\<lambda>m. map_inside m a) (mmio_maps d))"
proof -
  obtain mo d1 where f: "find_mapid_by_addr (mmio_maps d) a d = (mo, d1)" by force
  then have "map_read cfg (run_handler cfg) a n mo d1 = Inr (v, d')" using assms by (simp add: mmio_read_def fetch_mmio_map_def)
  then have "is_skip_ref d' = is_skip_ref d1"
    by (auto simp: map_read_def invoke_callback_def res_simps Let_def split: if_splits option.splits dest: run_handler_flag)
  then show ?thesis using find_mapid_flag[OF f] by simp
qed

lemma run_handler_flag_space: "run_handler cfg h off len w (d\<lparr>io_space := sp\<rparr>) = Inr d' \<Longrightarrow> is_skip_ref d' = is_skip_ref d"
  using run_handler_flag[of cfg h off len w "d\<lparr>io_space := sp\<rparr>" d'] by simp

lemma mmio_write_flag:
  assumes "mmio_write cfg (run_handler cfg) a n v d = Inr d'"
  shows "is_skip_ref d' = (is_skip_ref d \<or> list_ex (\<lambda>m. map_inside m a) (mmio_maps d))"
proof -
  obtain mo d1 where f: "find_mapid_by_addr (mmio_maps d) a d = (mo, d1)" by force
  then have "map_write cfg (run_handler cfg) a n v mo d1 = Inr d'" using assms by (simp add: mmio_write_def fetch_mmio_map_def)
  then have "is_skip_ref d' = is_skip_ref d1"
    by (auto simp: map_write_def invoke_callback_def res_simps Let_def split: if_splits option.splits dest: run_handler_flag_space)
  then show ?thesis using find_mapid_flag[OF f] by simp
qed

lemma paddr_read_flag:
  "paddr_read cfg a n m = Inr (v, m') \<Longrightarrow> is_skip_ref (devs m') = (is_skip_ref (devs m) \<or> device_at cfg (devs m) a)"
  by (auto simp: paddr_read_def out_of_bound_def res_simps device_at_def split: if_splits dest: mmio_read_flag)

lemma paddr_write_flag:
  "paddr_write cfg a n v m = Inr m' \<Longrightarrow> is_skip_ref (devs m') = (is_skip_ref (devs m) \<or> device_at cfg (devs m) a)"
  by (auto simp: paddr_write_def pmem_write_def out_of_bound_def res_simps device_at_def split: if_splits dest: mmio_write_flag)

lemma paddr_read_plain: "paddr_read cfg a n m = Inr (v, m') \<Longrightarrow> \<not> device_at cfg (devs m) a \<Longrightarrow> m' = m"
  unfolding device_at_def find_map_ex[symmetric]
  by (auto simp: paddr_read_def out_of_bound_def mmio_read_def fetch_mmio_map_def find_mapid_by_addr_def map_read_def check_bound_def
      res_simps split: if_splits)

abbreviation flagged :: "nemu \<Rightarrow> bool" where
  "flagged st \<equiv> is_skip_ref (devs (memory st))"

lemma exec_body_flag:
  assumes "exec_body cfg op ops s st = Inr (s', st')"
  shows "flagged st' \<longleftrightarrow> flagged st \<or> op \<in> {EBREAK, INV} \<or>
    op \<in> set (load_ops @ store_ops) \<and> device_at cfg (devs (memory st)) (src1 ops + imm ops)"
proof -
  consider (load) "op \<in> set load_ops" | (store) "op \<in> set store_ops" | (trap) "op \<in> {EBREAK, INV}"
    | (other) "op \<notin> set load_ops" "op \<notin> set store_ops" "op \<notin> {EBREAK, INV}" by blast
  then show ?thesis
  proof cases
    case load
    then have "op \<notin> {EBREAK, INV}" by (auto simp: load_ops_def)
    then show ?thesis using load exec_body_load[OF load assms] by (auto simp: vaddr_read_def dest: paddr_read_flag)
  next
    case store
    then have "op \<notin> {EBREAK, INV}" by (auto simp: store_ops_def)
    then show ?thesis using store exec_body_store[OF store assms] by (auto simp: vaddr_write_def dest: paddr_write_flag)
  next
    case trap
    then show ?thesis using assms
      by (auto simp: exec_body_def Let_def on_state_def NEMUTRAP_def invalid_inst_def set_nemu_state_def difftest_skip_ref_def res_simps)
  next
    case other
    then have "memory st' = memory st" using assms
      by (cases op) (auto simp: exec_body_def Let_def load_ops_def store_ops_def branch_def on_state_def riscv_ecall_def res_simps
          dest!: set_rd_frame csr_ops_frame isa_raise_intr_memory)
    then show ?thesis using other by simp
  qed
qed

lemma decode_operand_mem: "decode_operand cfg i t (st\<lparr>memory := m\<rparr>) = decode_operand cfg i t st"
  by (simp add: decode_operand_def R_get_def Let_def)

lemma ldstr_entry_cases: "op \<in> set (load_ops @ store_ops) \<longleftrightarrow> (\<exists>r. ldstr_entry op = Some (r, type_of op))"
  "op \<notin> set (load_ops @ store_ops) \<longleftrightarrow> ldstr_entry op = None"
  by (auto simp: ldstr_entry_def load_ops_def store_ops_def type_of_def)

lemma ldstr_device:
  assumes "decode_operand cfg i (type_of (rv_manual i)) st = Inr ops"
  shows "(case isa_decode_ldstr cfg i st of Inr (Some (_, a)) \<Rightarrow> P a | _ \<Rightarrow> False) \<longleftrightarrow>
    rv_manual i \<in> set (load_ops @ store_ops) \<and> P (src1 ops + imm ops)"
proof (cases "ldstr_entry (rv_manual i)")
  case None
  then show ?thesis using ldstr_entry_cases(2)[of "rv_manual i"] by (simp add: isa_decode_ldstr_def ldstr_select)
next
  case (Some p)
  then have m: "rv_manual i \<in> set (load_ops @ store_ops)" using ldstr_entry_cases(2)[of "rv_manual i"] by (cases "rv_manual i \<in> set (load_ops @ store_ops)") simp_all
  then obtain r where "ldstr_entry (rv_manual i) = Some (r, type_of (rv_manual i))" using ldstr_entry_cases(1) by blast
  then show ?thesis using m assms by (simp add: isa_decode_ldstr_def ldstr_select)
qed

text \<open>Executing an instruction raises the flag exactly when it is one of these.\<close>

lemma exec_once_flag:
  assumes "exec_once cfg h (pc_of e) e = Inr (s, logbuf, e')" "\<not> flagged (core e)"
  shows "flagged (core e') \<longleftrightarrow> not_compared cfg (core e)"
proof -
  let ?pc = "pc_of e" and ?d = "device_at cfg (dut_devs e) (pc_of e)"
  obtain ea st where a: "when_res (CONFIG_ITRACE cfg) (iringbuf_update cfg h ?pc) e = Inr ea"
    and x: "isa_exec_once cfg \<lparr>s_pc = ?pc, snpc = ?pc, dnpc = 0, inst = 0\<rparr> (core ea) = Inr (s, st)"
    and e': "e' = set_core (st\<lparr>cpu := (cpu st)\<lparr>cpu_pc := dnpc s\<rparr>\<rparr>) ea"
    using assms(1) by (auto simp: exec_once_def Let_def res_simps)
  have ea: "cpu (core ea) = cpu (core e)" "\<not> ?d \<Longrightarrow> core ea = core e" "?d \<Longrightarrow> core ea = core e \<or> flagged (core ea)"
    using a assms(2) by (auto simp: when_res_def iringbuf_update_def iringbuf_push_def vaddr_ifetch_def res_simps
        split: if_splits dest: paddr_read_flag paddr_read_plain)
  obtain i m where f: "paddr_read cfg ?pc 4 (memory (core ea)) = Inr (i, m)"
    and d: "decode_exec cfg \<lparr>s_pc = ?pc, snpc = ?pc + 4, dnpc = 0, inst = i\<rparr> ((core ea)\<lparr>memory := m\<rparr>) = Inr (s, st)"
    using x by (auto simp: isa_exec_once_def inst_fetch_def vaddr_ifetch_def res_simps)
  obtain ops st1 where ops: "decode_operand cfg i (type_of (rv_manual i)) (core ea) = Inr ops"
    and b: "exec_body cfg (rv_manual i) ops \<lparr>s_pc = ?pc, snpc = ?pc + 4, dnpc = ?pc + 4, inst = i\<rparr> ((core ea)\<lparr>memory := m\<rparr>) = Inr (s, st1)"
    and z: "R_set cfg 0 0 st1 = Inr st"
    using d by (auto elim!: decode_exec_cases simp: decode_operand_mem)
  have fl: "flagged (core e') \<longleftrightarrow> is_skip_ref (devs m) \<or> rv_manual i \<in> {EBREAK, INV} \<or>
    rv_manual i \<in> set (load_ops @ store_ops) \<and> device_at cfg (devs m) (src1 ops + imm ops)"
    using exec_body_flag[OF b] R_set_memory[OF z] by (simp add: e')
  show ?thesis
  proof (cases ?d)
    case True
    then have "is_skip_ref (devs m)" using ea(3) paddr_read_flag[OF f] by auto
    then show ?thesis using fl True by (simp add: not_compared_def)
  next
    case False
    then have c: "core ea = core e" by (rule ea(2))
    have m: "m = memory (core e)" using paddr_read_plain[OF f] False by (simp add: c)
    show ?thesis unfolding fl using ldstr_device[OF ops] f assms(2) False by (simp add: not_compared_def c m)
  qed
qed

section \<open>The emulator as a reference\<close>

text \<open>The functions \<open>ref.c\<close> exports, of an emulator built with \<open>cfgr\<close> and run on a host \<open>hr\<close>, seen by a device under
  test on the host \<open>hdut\<close>.\<close>

definition nemu_host :: "config \<Rightarrow> 'q host \<Rightarrow> u8 option \<Rightarrow> (string \<Rightarrow> u8) \<Rightarrow> u8 list option \<Rightarrow> 'r host \<Rightarrow> 'q emu host" where
  "nemu_host cfgr hr rnd sdl sd_img hdut = \<lparr>cs_disasm = cs_disasm hdut, clock = clock hdut, events = events hdut,
     ref_difftest_memcpy_to_ref = difftest_memcpy_to_ref cfgr, ref_difftest_regcpy_to_ref = difftest_regcpy_to_ref,
     ref_difftest_regcpy_to_dut = difftest_regcpy_to_dut, ref_difftest_exec = difftest_exec cfgr hr,
     ref_difftest_init = (\<lambda>port. difftest_init cfgr rnd sdl sd_img)\<rparr>"

interpretation nemu: reference "nemu_host cfgr hr rnd sdl sd_img hdut" for cfgr hr rnd sdl sd_img hdut
  by unfold_locales
    (simp add: nemu_host_def difftest_regcpy_to_dut_def difftest_regcpy_to_ref_def isa_difftest_checkregs_def Let_def list_all_iff)

section \<open>The run and its comparison\<close>

text \<open>The instructions a run executes: for each, whether it is to be compared and the registers it leaves.\<close>

fun dut_run :: "config \<Rightarrow> 'r host \<Rightarrow> nat \<Rightarrow> 'r emu \<Rightarrow> (bool \<times> CPU_state) list" where
  "dut_run cfg h 0 e = []"
| "dut_run cfg h (Suc n) e = (case exec_traced cfg h e of Inl _ \<Rightarrow> []
   | Inr ea \<Rightarrow> (\<not> not_compared cfg (core e), cpu (core ea)) #
       (if state_of ea \<noteq> NEMU_RUNNING then []
        else case when_res (CONFIG_DEVICE cfg) (emu_device_update cfg h) ea of Inl _ \<Rightarrow> [] | Inr eb \<Rightarrow> dut_run cfg h n eb))"

text \<open>The reference beside such a run: for an instruction that is compared it executes one of its own, and the
  registers must agree, those of the last instruction apart; for any other it is given the registers.\<close>

fun lockstep :: "'r host \<Rightarrow> (bool \<times> CPU_state) list \<Rightarrow> 'r \<Rightarrow> 'r res" where
  "lockstep h [] r = Inr r"
| "lockstep h ((compared, c) # cs) r =
     bind_res (if compared then ref_difftest_exec h 1 r else Inr (ref_difftest_regcpy_to_ref h c r)) (\<lambda>r.
       if cs = [] \<or> isa_difftest_checkregs (ref_difftest_regcpy_to_dut h r) c then lockstep h cs r
       else Inl (Panic ''divergence''))"

lemma checkregs_flag: "flagged (core (checkregs cfg c pc e)) = flagged (core e)" "wps (checkregs cfg c pc e) = wps e"
  by (simp_all add: checkregs_def print_line_def Let_def)

lemma difftest_step_ref:
  assumes "difftest_step cfg h pc npc e = Inr e'" "quiet (core e)"
  shows "(if flagged (core e) then refst e' = ref_difftest_regcpy_to_ref h (cpu (core e)) (refst e)
      else ref_difftest_exec h 1 (refst e) = Inr (refst e')) \<and> \<not> flagged (core e') \<and> cpu (core e') = cpu (core e)
    \<and> wps e' = wps e"
  using assms by (auto simp: difftest_step_def no_wait_def set_devs_def res_simps checkregs_frame checkregs_flag split: if_splits)

lemma stop_flag [simp]: "flagged (stop_if_running st) = flagged st" "cpu (stop_if_running st) = cpu st"
  by (simp_all add: stop_if_running_def)

lemma bp_flag [simp]: "flagged (bp_update P st) = flagged st" "cpu (bp_update P st) = cpu st"
proof -
  have "flagged (fold (\<lambda>i. bp_update_one i P) is st) = flagged st \<and> cpu (fold (\<lambda>i. bp_update_one i P) is st) = cpu st" for "is"
    by (induction "is" arbitrary: st) (simp_all add: bp_update_one_def)
  then show "flagged (bp_update P st) = flagged st" "cpu (bp_update P st) = cpu st" by (simp_all add: bp_update_def)
qed

lemma no_watch: "active P = [] \<Longrightarrow> wp_update cfg P st = Inr (P, st)"
  by (simp add: wp_update_def)

lemma after_difftest_ref:
  assumes "trace_and_difftest cfg h s logbuf npc e = Inr e'" "CONFIG_DIFFTEST cfg" "quiet (core e)" "active (wps e) = []"
  shows "(if flagged (core e) then refst e' = ref_difftest_regcpy_to_ref h (cpu (core e)) (refst e)
      else ref_difftest_exec h 1 (refst e) = Inr (refst e')) \<and> \<not> flagged (core e') \<and> cpu (core e') = cpu (core e)
    \<and> wps e' = wps e"
proof -
  define ez where "ez = (if CONFIG_ITRACE cfg then trace_itrace cfg logbuf e else e)"
  let ?w = "\<lambda>e. bind_res (wp_update cfg (wps e) (core e)) (\<lambda>(P, st). Inr (e\<lparr>wps := P, core := st\<rparr>))"
  obtain ea eb ec where a: "when_res (CONFIG_FTRACE cfg) (trace_ftrace cfg s) ez = Inr ea"
    and b: "difftest_step cfg h (s_pc s) npc ea = Inr eb" and c: "when_res (CONFIG_WATCHPOINT cfg) ?w eb = Inr ec"
    and e': "e' = (if CONFIG_BREAKPOINT cfg then set_core (bp_update (bps ec) (core ec)) ec else ec)"
    using assms(1,2) unfolding trace_and_difftest_def ez_def[symmetric] Let_def by (auto simp: res_simps when_res_def)
  have ea: "core ea = core e" "refst ea = refst e" "wps ea = wps e"
    using a by (auto simp: when_res_def ez_def split: if_splits dest: trace_ftrace_frame)
  have eb: "(if flagged (core ea) then refst eb = ref_difftest_regcpy_to_ref h (cpu (core ea)) (refst ea)
      else ref_difftest_exec h 1 (refst ea) = Inr (refst eb)) \<and> \<not> flagged (core eb) \<and> cpu (core eb) = cpu (core ea) \<and> wps eb = wps ea"
    using difftest_step_ref[OF b] assms(3) ea by (auto split: if_splits)
  then have "ec = eb" using c assms(4) ea(3) by (auto simp: when_res_def no_watch split: if_splits)
  then show ?thesis using eb ea by (auto simp: e' split: if_splits)
qed

lemma exec_once_wps: "exec_once cfg h pc e = Inr (s, logbuf, e') \<Longrightarrow> wps e' = wps e"
  by (auto simp: exec_once_def when_res_def iringbuf_update_def iringbuf_push_def res_simps Let_def split: if_splits)

lemma exec_traced_ref:
  assumes "exec_traced cfg h e = Inr e'" "CONFIG_DIFFTEST cfg" "quiet (core e)" "active (wps e) = []" "\<not> flagged (core e)"
  shows "(if not_compared cfg (core e) then refst e' = ref_difftest_regcpy_to_ref h (cpu (core e')) (refst e)
      else ref_difftest_exec h 1 (refst e) = Inr (refst e')) \<and> \<not> flagged (core e') \<and> wps e' = wps e"
proof -
  obtain s logbuf ea where a: "exec_once cfg h (pc_of e) e = Inr (s, logbuf, ea)"
    and b: "trace_and_difftest cfg h s logbuf (pc_of ea) (ea\<lparr>g_nr_guest_inst := g_nr_guest_inst ea + 1\<rparr>) = Inr e'"
    using assms(1) by (auto simp: exec_traced_def Let_def res_simps)
  have ea: "quiet (core ea)" "refst ea = refst e" "wps ea = wps e" "flagged (core ea) = not_compared cfg (core e)"
    using exec_once_quiet[OF a assms(3)] exec_once_wps[OF a] exec_once_flag[OF a assms(5)] by auto
  then show ?thesis using after_difftest_ref[OF b assms(2)] ea assms(4) by (auto split: if_splits)
qed

lemma poll_events_flag: "poll_events cfg evs ns d = Inr (ns', d') \<Longrightarrow> is_skip_ref d' = is_skip_ref d"
proof (induction cfg evs ns d rule: poll_events.induct)
  case (3 cfg k down evs st d)
  have s: "is_skip_ref d1 = is_skip_ref d" if "send_key st k down d = Inr d1" for d1
    using that by (auto simp: send_key_def key_enqueue_def assert_res_def Let_def split: if_splits)
  then show ?case using 3 by (cases "CONFIG_HAS_KEYBOARD cfg") (auto simp: res_simps)
qed auto

lemma emu_update_flag:
  assumes "emu_device_update cfg h e = Inr e'"
  shows "flagged (core e') = flagged (core e) \<and> wps e' = wps e"
proof -
  let ?d = "(dut_devs e)\<lparr>host_clock := clock h (g_nr_guest_inst e)\<rparr>"
  obtain ns d where u: "device_update cfg (events h (g_nr_guest_inst e)) (state_of e) ?d = Inr (ns, d)"
    and e': "e' = set_core ((core e)\<lparr>memory := (memory (core e))\<lparr>devs := d\<rparr>, nstate := ns\<rparr>) e"
    using assms by (auto simp: emu_device_update_def Let_def res_simps)
  have "is_skip_ref d = is_skip_ref ?d"
    using u by (auto simp: device_update_def get_time_def Let_def vga_update_screen_def set_reg32_def split: if_splits dest!: poll_events_flag)
  then show ?thesis by (simp add: e')
qed

text \<open>The reference's state at the end of a run is that of the reference run in lock-step.\<close>

context reference
begin

lemma execute_lockstep:
  assumes "execute cfg h n e = Inr e'" "CONFIG_DIFFTEST cfg" "quiet (core e)" "active (wps e) = []" "\<not> flagged (core e)"
  shows "lockstep h (dut_run cfg h n e) (refst e) = Inr (refst e')"
  using assms
proof (induction n arbitrary: e)
  case (Suc n)
  obtain ea where a: "exec_traced cfg h e = Inr ea" and r: "(if state_of ea \<noteq> NEMU_RUNNING then Inr ea
     else bind_res (when_res (CONFIG_DEVICE cfg) (emu_device_update cfg h) ea) (execute cfg h n)) = Inr e'"
    using Suc.prems(1) by (auto simp: res_simps)
  have f: "(if not_compared cfg (core e) then refst ea = ref_difftest_regcpy_to_ref h (cpu (core ea)) (refst e)
      else ref_difftest_exec h 1 (refst e) = Inr (refst ea))" "\<not> flagged (core ea)" "wps ea = wps e" "quiet (core ea)"
    "\<not> agree h ea \<longrightarrow> state_of ea = NEMU_ABORT"
    using exec_traced_ref[OF a Suc.prems(2-5)] exec_traced_agree[OF a Suc.prems(2,3)] by auto
  show ?case
  proof (cases "state_of ea = NEMU_RUNNING")
    case True
    obtain eb where b: "when_res (CONFIG_DEVICE cfg) (emu_device_update cfg h) ea = Inr eb" "execute cfg h n eb = Inr e'"
      using r True by (auto simp: res_simps)
    have eb: "quiet (core eb)" "refst eb = refst ea" "\<not> flagged (core eb)" "wps eb = wps ea"
      using b(1) f(2,4) emu_update_frame[of cfg h ea eb] emu_update_flag[of cfg h ea eb]
      by (auto simp: when_res_def split: if_splits)
    have "lockstep h (dut_run cfg h n eb) (refst ea) = Inr (refst e')"
      using Suc.IH[OF b(2) Suc.prems(2) eb(1)] eb f(3) Suc.prems(4) by simp
    moreover have "isa_difftest_checkregs (ref_difftest_regcpy_to_dut h (refst ea)) (cpu (core ea))"
      using f(5) True by (auto simp: agree_def)
    ultimately show ?thesis using f(1) True a b(1) by (auto simp: res_simps split: if_splits)
  qed (use r f(1) a in \<open>auto split: if_splits\<close>)
qed simp

end

section \<open>Properties\<close>

text \<open>C11: differential testing runs the reference in lock-step and lets no divergence pass. From the
  initialisation on, the reference executes one instruction for each instruction of the emulator that accesses no
  device and does not trap, and its registers and program counter agree with those of the emulator after each of
  them but the last; for the others it is given the registers. After the last instruction they agree too, or the
  emulator has been aborted. The law about the reference is that registers read back as they were set; no watchpoint
  is set, as its expression may read a device.\<close>

theorem difftest_no_divergence:
  assumes "\<And>c r. isa_difftest_checkregs (ref_difftest_regcpy_to_dut h (ref_difftest_regcpy_to_ref h c r)) c"
    and "CONFIG_DIFFTEST cfg" and "skip_dut_nr_inst (dut_devs e) = 0" and "\<not> is_skip_ref (dut_devs e)"
    and "active (wps e) = []" and "\<not> ended (state_of e)"
    and "init_difftest cfg h so img_size port e = Inr ea" and "cpu_exec cfg h n ea = Inr eb"
  shows "lockstep h (dut_run cfg h (unat n) (snd (emu_get_time h (start_exec n ea)))) (refst ea) = Inr (refst eb) \<and>
    (isa_difftest_checkregs (ref_difftest_regcpy_to_dut h (refst eb)) (cpu (core eb)) \<or> state_of eb = NEMU_ABORT)"
proof -
  have r: "reference h" using assms(1) by (rule reference.intro)
  have ea: "agree h ea" "core ea = core e" using reference.init_agree[OF r assms(7)] by auto
  have "wps ea = wps e" using assms(7) by (auto simp: init_difftest_def assert_res_def res_simps Let_def split: if_splits)
  note ea = ea this
  have fin: "isa_difftest_checkregs (ref_difftest_regcpy_to_dut h (refst eb)) (cpu (core eb)) \<or> state_of eb = NEMU_ABORT"
    using reference.cpu_exec_agree[OF r assms(8,2)] ea assms(3) by (simp add: agree_def no_wait_def)
  obtain t e1 e2 t' e3 where a: "emu_get_time h (start_exec n ea) = (t, e1)" and b: "execute cfg h (unat n) e1 = Inr e2"
    and c: "emu_get_time h e2 = (t', e3)" and eb: "eb = finish_exec cfg (e3\<lparr>g_timer := g_timer e3 + (t' - t)\<rparr>)"
    using cpu_exec_parts[OF assms(8)] assms(6) ea(2) by auto
  have e1: "refst e1 = refst ea" "wps e1 = wps ea" "\<not> flagged (core e1)" "quiet (core e1)"
    using get_time_frame[OF a] ea assms(3,4) by (auto simp: start_exec_def no_wait_def)
  have "lockstep h (dut_run cfg h (unat n) e1) (refst e1) = Inr (refst e2)"
    using reference.execute_lockstep[OF r b assms(2) e1(4) _ e1(3)] e1(2) ea(3) assms(5) by simp
  moreover have "refst eb = refst e2" using get_time_frame[OF c] by (simp add: eb)
  ultimately show ?thesis using fin a e1(1) by simp
qed

end
