(* ===== verification/Boot.thy ===== *)
theory Boot
  imports Frame
begin

text \<open>
  The built-in image (\<open>isa/riscv32/init.c\<close>) run from reset: its four instructions end the program with a good trap
  under every host clock and whatever the disassembler prints.
\<close>

section \<open>The instructions of the image\<close>

text \<open>Builds with the default memory layout and all 32 registers.\<close>

definition std_cfg :: "config \<Rightarrow> bool" where
  "std_cfg cfg \<longleftrightarrow> CONFIG_MBASE cfg = 0x80000000 \<and> CONFIG_MSIZE cfg = 0x8000000 \<and> CONFIG_PC_RESET_OFFSET cfg = 0 \<and> \<not> CONFIG_RVE cfg"

definition has_img :: "bytes \<Rightarrow> bool" where
  "has_img p \<longleftrightarrow> read_le p 0 4 = 0x297 \<and> read_le p 4 4 = 0x28823 \<and> read_le p 8 4 = 0x102c503 \<and> read_le p 12 4 = 0x100073"

lemma fetch_img:
  assumes "std_cfg cfg" "unat off < 16"
  shows "paddr_read cfg (0x80000000 + off) 4 m = Inr (read_le (pmem m) (unat off) 4, m)"
proof -
  have "guest_to_host cfg (0x80000000 + off) = unat off" using assms by (simp add: guest_to_host_def std_cfg_def)
  then show ?thesis using assms paddr_read_pmem[of 4 cfg "0x80000000 + off" m] by (simp add: access_len_def std_cfg_def)
qed

lemma manual_img: "rv_manual 0x297 = AUIPC" "rv_manual 0x28823 = SB" "rv_manual 0x102c503 = LBU" "rv_manual 0x100073 = EBREAK"
  by (simp_all add: manual_unfold field_defs)

lemmas run_defs = decode_exec_manual manual_img type_of_def decode_operand_def exec_body_def set_rd_def R_set_0 R_set_def
  R_get_def check_reg_idx_def nr_gpr_def unat_BITS immU_def immS_def immI_def BITS_def BITMASK_def SEXT_def Let_def

lemma img_auipc:
  "std_cfg cfg \<Longrightarrow> inst s = 0x297 \<Longrightarrow> decode_exec cfg s st = Inr (s\<lparr>dnpc := snpc s\<rparr>,
     st\<lparr>cpu := (cpu st)\<lparr>gpr := (gpr (cpu st))(5 := s_pc s, 0 := 0)\<rparr>\<rparr>)"
  by (simp add: run_defs std_cfg_def)

lemma img_sb:
  assumes "std_cfg cfg" "inst s = 0x28823" "gpr (cpu st) 5 = 0x80000000" "gpr (cpu st) 0 = 0"
  shows "decode_exec cfg s st = Inr (s\<lparr>dnpc := snpc s\<rparr>,
     st\<lparr>cpu := (cpu st)\<lparr>gpr := (gpr (cpu st))(0 := 0)\<rparr>, memory := (memory st)\<lparr>pmem := write_le (pmem (memory st)) 16 1 0\<rparr>\<rparr>)"
proof -
  have "paddr_write cfg 0x80000010 1 0 (memory st) = Inr ((memory st)\<lparr>pmem := write_le (pmem (memory st)) 16 1 0\<rparr>)"
    using assms(1) paddr_write_pmem[of 1 cfg "0x80000010" 0 "memory st"] by (simp add: access_len_def guest_to_host_def std_cfg_def)
  then show ?thesis using assms by (simp add: run_defs std_cfg_def store_op_def Mw_def vaddr_write_def del: write_le.simps)
qed

lemma img_lbu:
  assumes "std_cfg cfg" "inst s = 0x102c503" "gpr (cpu st) 5 = 0x80000000" "read_le (pmem (memory st)) 16 1 = 0"
  shows "decode_exec cfg s st = Inr (s\<lparr>dnpc := snpc s\<rparr>, st\<lparr>cpu := (cpu st)\<lparr>gpr := (gpr (cpu st))(10 := 0, 0 := 0)\<rparr>\<rparr>)"
proof -
  have "paddr_read cfg 0x80000010 1 (memory st) = Inr (0, memory st)"
    using assms(1,4) paddr_read_pmem[of 1 cfg "0x80000010" "memory st"] by (simp add: access_len_def guest_to_host_def std_cfg_def)
  then show ?thesis using assms by (simp add: run_defs std_cfg_def load_op_def Mr_def vaddr_read_def del: read_le.simps)
qed

lemma img_ebreak:
  "std_cfg cfg \<Longrightarrow> inst s = 0x100073 \<Longrightarrow> decode_exec cfg s st = Inr (s\<lparr>dnpc := snpc s\<rparr>,
     (NEMUTRAP (s_pc s) (gpr (cpu st) 10) st)\<lparr>cpu := (cpu st)\<lparr>gpr := (gpr (cpu st))(0 := 0)\<rparr>\<rparr>)"
  by (simp add: run_defs std_cfg_def NEMUTRAP_def set_nemu_state_def)

lemma has_img_stored: "has_img (store_words p 0 img)"
  unfolding has_img_def img_def
  by (simp add: read_write_le_disjoint read_write_le_same del: read_le.simps write_le.simps)

lemma has_img_sb: "has_img p \<Longrightarrow> has_img (write_le p 16 1 0) \<and> read_le (write_le p 16 1 0) 16 1 = 0"
  by (simp add: has_img_def read_write_le_disjoint read_write_le_same del: read_le.simps write_le.simps)

section \<open>Traces do not interfere\<close>

text \<open>What is asked of the disassembler: each of the four words of the image, a valid RV32I instruction, is
  disassembled at its address to one instruction with its own mnemonic. Nothing is asked for any other word, nor in
  a build without the instruction trace.\<close>

definition disassembles_img :: "config \<Rightarrow> 'r host \<Rightarrow> bool" where
  "disassembles_img cfg h \<longleftrightarrow> (CONFIG_ITRACE cfg \<longrightarrow>
     list_all (\<lambda>(pc, i, mnemonic). map fst (cs_disasm h pc (inst_bytes i)) = [mnemonic])
       [(0x80000000, 0x297, ''auipc''), (0x80000004, 0x28823, ''sb''), (0x80000008, 0x102c503, ''lbu''),
        (0x8000000c, 0x100073, ''ebreak'')])"

lemma length_hex_fixed [simp]: "length (hex_fixed n x) = n"
  by (induction n arbitrary: x) auto

lemma disasm_ok:
  assumes "map fst (cs_disasm h (ucast pc) (inst_bytes i)) = [m]" and "length m < 100"
  shows "\<exists>t. disasm_and_dump (cs_disasm h) pc (pc + 4) i LOGBUF_SZ = Inr t"
proof -
  obtain ops where "cs_disasm h (ucast pc) (take 4 (inst_bytes i)) = [(m, ops)]"
    using assms(1) by (auto simp: inst_bytes_def)
  then show ?thesis using assms(2)
    by (simp add: disasm_and_dump_def LOGBUF_SZ_def disassemble_def FMT_WORD_def inst_bytes_def upt_rec)
qed

text \<open>The \<open>k\<close>-th instruction of the image.\<close>

lemma disasm_img:
  assumes "disassembles_img cfg h" and "CONFIG_ITRACE cfg"
    and "(pc, i) \<in> {(0x80000000, 0x297), (0x80000004, 0x28823), (0x80000008, 0x102c503), (0x8000000c, 0x100073)}"
  shows "\<exists>t. disasm_and_dump (cs_disasm h) pc (pc + 4) i LOGBUF_SZ = Inr t"
proof -
  obtain m where "map fst (cs_disasm h (ucast pc) (inst_bytes i)) = [m]" "length m < 100"
    using assms by (auto simp: disassembles_img_def)
  then show ?thesis by (rule disasm_ok)
qed

lemma ftrace_table_segments: "ftrace_table = [
    (pat7 ''???????'' ''?????'' ''?????'' ''???'' ''?????'' ''11011'' ''11'', TYPE_J),
    (pat7 ''???????'' ''?????'' ''?????'' ''000'' ''?????'' ''11001'' ''11'', TYPE_I)]"
  by (simp add: ftrace_table_def pat7_def)

lemma ftrace_ok: "std_cfg cfg \<Longrightarrow> \<exists>l. isa_ftrace_dump cfg f s st = Inr l"
proof -
  assume c: "std_cfg cfg"
  have idx: "unat (BITS x 19 15 :: u64) < 32" for x :: u64
    by (simp add: unat_BITS)
  have "instpat_select ftrace_table (ucast (inst s)) \<in> {Inr None, Inr (Some TYPE_J), Inr (Some TYPE_I)}"
    unfolding ftrace_table_segments by (simp only: aux_unfold) simp
  then show ?thesis using c idx[of "ucast (inst s)"]
    by (elim insertE emptyE) (auto simp: isa_ftrace_dump_def decode_operand_def R_get_def check_reg_idx_def nr_gpr_def std_cfg_def Let_def)
qed

lemma traced_step:
  assumes c: "std_cfg cfg" "\<not> CONFIG_DIFFTEST cfg" and h: "CONFIG_ITRACE cfg \<Longrightarrow> \<exists>t. disasm_and_dump (cs_disasm h) (pc_of e) (pc_of e + 4) i LOGBUF_SZ = Inr t"
    and l: "active (wps e) = []" "active (bps e) = []"
    and f: "paddr_read cfg (pc_of e) 4 (memory (core e)) = Inr (i, memory (core e))"
    and x: "decode_exec cfg \<lparr>s_pc = pc_of e, snpc = pc_of e + 4, dnpc = 0, inst = i\<rparr> (core e) =
      Inr (\<lparr>s_pc = pc_of e, snpc = pc_of e + 4, dnpc = d, inst = i\<rparr>, st)"
  shows "\<exists>e'. exec_traced cfg h e = Inr e' \<and> core e' = st\<lparr>cpu := (cpu st)\<lparr>cpu_pc := d\<rparr>\<rparr>
    \<and> g_nr_guest_inst e' = g_nr_guest_inst e + 1 \<and> wps e' = wps e \<and> bps e' = bps e"
proof -
  let ?s = "\<lparr>s_pc = pc_of e, snpc = pc_of e + 4, dnpc = d, inst = i\<rparr>"
  have once: "\<exists>ea t. exec_once cfg h (pc_of e) e = Inr (?s, t, ea) \<and> core ea = st\<lparr>cpu := (cpu st)\<lparr>cpu_pc := d\<rparr>\<rparr>
    \<and> g_nr_guest_inst ea = g_nr_guest_inst e \<and> wps ea = wps e \<and> bps ea = bps e"
  proof (cases "CONFIG_ITRACE cfg")
    case True
    then obtain t where "disasm_and_dump (cs_disasm h) (pc_of e) (pc_of e + 4) i LOGBUF_SZ = Inr t" using h by blast
    then show ?thesis using f x by (simp add: exec_once_def when_res_def iringbuf_update_def iringbuf_push_def vaddr_ifetch_def
        isa_exec_once_def inst_fetch_def Let_def)
  next
    case False
    then show ?thesis using f x by (simp add: exec_once_def when_res_def vaddr_ifetch_def
        isa_exec_once_def inst_fetch_def Let_def)
  qed
  then obtain ea t where a: "exec_once cfg h (pc_of e) e = Inr (?s, t, ea)" "core ea = st\<lparr>cpu := (cpu st)\<lparr>cpu_pc := d\<rparr>\<rparr>"
    "g_nr_guest_inst ea = g_nr_guest_inst e" "wps ea = wps e" "bps ea = bps e" by blast
  define eb where "eb = (if CONFIG_ITRACE cfg then trace_itrace cfg t (ea\<lparr>g_nr_guest_inst := g_nr_guest_inst ea + 1\<rparr>)
    else ea\<lparr>g_nr_guest_inst := g_nr_guest_inst ea + 1\<rparr>)"
  have b: "core eb = core ea" "g_nr_guest_inst eb = g_nr_guest_inst e + 1" "wps eb = wps e" "bps eb = bps e"
    using a by (auto simp: eb_def)
  obtain ec where c': "when_res (CONFIG_FTRACE cfg) (trace_ftrace cfg ?s) eb = Inr ec"
    using ftrace_ok[OF c(1), of "ftrace_search (ftrace_syms eb)" ?s "core eb"]
    by (cases "CONFIG_FTRACE cfg") (auto simp: when_res_def trace_ftrace_def)
  have f: "core ec = core eb" "g_nr_guest_inst ec = g_nr_guest_inst eb" "wps ec = wps eb" "bps ec = bps eb"
    using c' by (auto simp: when_res_def split: if_splits dest!: trace_ftrace_frame)
  have w: "wp_update cfg (wps ec) st' = Inr (wps ec, st')" "bp_update (bps ec) st' = st'" for st'
    using l f b by (simp_all add: wp_update_def bp_update_def)
  have "trace_and_difftest cfg h ?s t (pc_of ea) (ea\<lparr>g_nr_guest_inst := g_nr_guest_inst ea + 1\<rparr>) = Inr ec"
    unfolding trace_and_difftest_def Let_def eb_def[symmetric] using c' c(2) w by (simp add: when_res_def)
  then show ?thesis using a f b by (simp add: exec_traced_def Let_def)
qed

section \<open>The run\<close>

definition idle :: "'r host \<Rightarrow> bool" where
  "idle h \<longleftrightarrow> (\<forall>k. events h k = [])"

definition still :: "'r emu \<Rightarrow> 'r emu \<Rightarrow> bool" where
  "still e e' \<longleftrightarrow> cpu (core e') = cpu (core e) \<and> pmem (memory (core e')) = pmem (memory (core e)) \<and> state_of e' = state_of e
     \<and> g_nr_guest_inst e' = g_nr_guest_inst e \<and> wps e' = wps e \<and> bps e' = bps e"

lemma idle_update: "idle h \<Longrightarrow> \<exists>e'. when_res b (emu_device_update cfg h) e = Inr e' \<and> still e e'"
  by (auto simp: when_res_def emu_device_update_def device_update_def idle_def get_time_def still_def Let_def)

lemma execute_step:
  assumes "exec_traced cfg h e = Inr ea" "state_of ea = NEMU_RUNNING" "idle h"
  shows "\<exists>eb. execute cfg h (Suc n) e = execute cfg h n eb \<and> still ea eb"
  using assms idle_update[of h "CONFIG_DEVICE cfg" cfg ea] by auto

text \<open>The program at its \<open>k\<close>-th instruction.\<close>

definition at_inst :: "u32 \<Rightarrow> 'r emu \<Rightarrow> bool" where
  "at_inst k e \<longleftrightarrow> pc_of e = 0x80000000 + 4 * k \<and> has_img (pmem (memory (core e))) \<and> gpr (cpu (core e)) 0 = 0
     \<and> (0 < k \<longrightarrow> gpr (cpu (core e)) 5 = 0x80000000) \<and> (1 < k \<longrightarrow> read_le (pmem (memory (core e))) 16 1 = 0)
     \<and> (2 < k \<longrightarrow> gpr (cpu (core e)) 10 = 0)
     \<and> state_of e = NEMU_RUNNING \<and> active (wps e) = [] \<and> active (bps e) = []"

lemma at_inst_still: "at_inst k e \<Longrightarrow> still e e' \<Longrightarrow> at_inst k e'"
  by (simp add: at_inst_def still_def)

lemma at_inst_step:
  assumes c: "std_cfg cfg" "\<not> CONFIG_DIFFTEST cfg" and h: "disassembles_img cfg h" and a: "at_inst k e" and k: "k = 0 \<or> k = 1 \<or> k = 2"
  shows "\<exists>e'. exec_traced cfg h e = Inr e' \<and> at_inst (k + 1) e' \<and> g_nr_guest_inst e' = g_nr_guest_inst e + 1"
proof -
  have l: "active (wps e) = []" "active (bps e) = []" using a by (auto simp: at_inst_def)
  have off: "unat (4 * k) < 16" using k by auto
  have f: "paddr_read cfg (pc_of e) 4 (memory (core e)) = Inr (read_le (pmem (memory (core e))) (unat (4 * k)) 4, memory (core e))"
    using fetch_img[OF c(1) off] a by (simp add: at_inst_def)
  have t: "\<exists>t. disasm_and_dump (cs_disasm h) (pc_of e) (pc_of e + 4) (read_le (pmem (memory (core e))) (unat (4 * k)) 4) LOGBUF_SZ = Inr t"
    if "CONFIG_ITRACE cfg"
    using k a by (intro disasm_img[OF h that]) (auto simp: at_inst_def has_img_def simp del: read_le.simps)
  note step = traced_step[OF c t l f]
  show ?thesis using k
  proof (elim disjE)
    assume k: "k = 0"
    show ?thesis using step[of "pc_of e + 4"] a img_auipc[OF c(1)] unfolding k
      by (fastforce simp: at_inst_def has_img_def simp del: read_le.simps)
  next
    assume k: "k = 1"
    show ?thesis using step[of "pc_of e + 4"] a img_sb[OF c(1)] has_img_sb[of "pmem (memory (core e))"] unfolding k
      by (fastforce simp: at_inst_def has_img_def simp del: read_le.simps write_le.simps)
  next
    assume k: "k = 2"
    show ?thesis using step[of "pc_of e + 4"] a img_lbu[OF c(1)] unfolding k
      by (fastforce simp: at_inst_def has_img_def simp del: read_le.simps)
  qed
qed

lemma at_inst_end:
  assumes c: "std_cfg cfg" "\<not> CONFIG_DIFFTEST cfg" and h: "disassembles_img cfg h" and a: "at_inst 3 e"
  shows "\<exists>e'. exec_traced cfg h e = Inr e' \<and> state_of e' = NEMU_END \<and> halt_ret (core e') = 0 \<and> halt_pc (core e') = 0x8000000c
    \<and> g_nr_guest_inst e' = g_nr_guest_inst e + 1"
proof -
  have l: "active (wps e) = []" "active (bps e) = []" using a by (auto simp: at_inst_def)
  have f: "paddr_read cfg (pc_of e) 4 (memory (core e)) = Inr (0x100073, memory (core e))"
    using fetch_img[OF c(1), of 12 "memory (core e)"] a by (simp add: at_inst_def has_img_def del: read_le.simps)
  have t: "\<exists>t. disasm_and_dump (cs_disasm h) (pc_of e) (pc_of e + 4) 0x100073 LOGBUF_SZ = Inr t" if "CONFIG_ITRACE cfg"
    using a by (intro disasm_img[OF h that]) (simp add: at_inst_def)
  show ?thesis using traced_step[OF c t l f, of "pc_of e + 4"] a img_ebreak[OF c(1)]
    by (fastforce simp: at_inst_def NEMUTRAP_def set_nemu_state_def)
qed

lemma run_img:
  assumes c: "std_cfg cfg" "\<not> CONFIG_DIFFTEST cfg" and h: "disassembles_img cfg h" "idle h" and a: "at_inst 0 e"
  shows "\<exists>e'. execute cfg h (n + 4) e = Inr e' \<and> state_of e' = NEMU_END \<and> halt_ret (core e') = 0 \<and> halt_pc (core e') = 0x8000000c
    \<and> g_nr_guest_inst e' = g_nr_guest_inst e + 4"
proof -
  have step: "\<exists>e'. execute cfg h (Suc m) e = execute cfg h m e' \<and> at_inst (k + 1) e' \<and> g_nr_guest_inst e' = g_nr_guest_inst e + 1"
    if at: "at_inst k e" "k = 0 \<or> k = 1 \<or> k = 2" for k m e
  proof -
    obtain ea where x: "exec_traced cfg h e = Inr ea" "at_inst (k + 1) ea" "g_nr_guest_inst ea = g_nr_guest_inst e + 1"
      using at_inst_step[OF c h(1) at] by blast
    have "state_of ea = NEMU_RUNNING" using x(2) by (simp add: at_inst_def)
    then obtain eb where b: "execute cfg h (Suc m) e = execute cfg h m eb" "still ea eb"
      using execute_step[OF x(1) _ h(2)] by blast
    have "g_nr_guest_inst eb = g_nr_guest_inst e + 1" using b(2) x(3) by (simp add: still_def)
    then show ?thesis using b(1) at_inst_still[OF x(2) b(2)] by blast
  qed
  obtain ea where ea: "execute cfg h (n + 4) e = execute cfg h (n + 3) ea" "at_inst 1 ea" "g_nr_guest_inst ea = g_nr_guest_inst e + 1"
    using step[OF a, of "n + 3"] by (auto simp: numeral_eq_Suc)
  obtain eb where eb: "execute cfg h (n + 3) ea = execute cfg h (n + 2) eb" "at_inst 2 eb" "g_nr_guest_inst eb = g_nr_guest_inst ea + 1"
    using step[OF ea(2), of "n + 2"] by (auto simp: numeral_eq_Suc)
  obtain ec where ec: "execute cfg h (n + 2) eb = execute cfg h (Suc n) ec" "at_inst 3 ec" "g_nr_guest_inst ec = g_nr_guest_inst eb + 1"
    using step[OF eb(2), of "Suc n"] by (auto simp: numeral_eq_Suc)
  show ?thesis using at_inst_end[OF c h(1) ec(2)] ea eb ec by auto
qed

text \<open>The emulator after initialisation, for any contents of memory and any devices.\<close>

definition boot_emu :: "config \<Rightarrow> bytes \<Rightarrow> dev \<Rightarrow> 'r \<Rightarrow> 'r emu" where
  "boot_emu cfg p d r = \<lparr>core = init_isa cfg (nemu_boot\<lparr>memory := \<lparr>pmem = p, devs = d\<rparr>\<rparr>), wps = init_wp_pool, bps = init_bp_pool,
     g_nr_guest_inst = 0, g_timer = 0, g_print_step = False, g_iringbuf = \<lparr>rb_buf = (\<lambda>_. []), rptr = 0, wptr = 0\<rparr>,
     ftrace_syms = [], log_fp = [], out = [], refst = r\<rparr>"

lemma boot_at_inst:
  assumes "std_cfg cfg" "cpu (core e) = cpu (core (boot_emu cfg p d r))" "state_of e = NEMU_RUNNING"
    "pmem (memory (core e)) = pmem (memory (core (boot_emu cfg p d r)))" "wps e = init_wp_pool" "bps e = init_bp_pool"
  shows "at_inst 0 e"
proof -
  have "guest_to_host cfg (RESET_VECTOR cfg) = 0"
    using assms(1) by (simp add: guest_to_host_def RESET_VECTOR_def PMEM_LEFT_def std_cfg_def)
  then have "has_img (pmem (memory (core e)))" using assms has_img_stored[of p] by (simp add: boot_emu_def init_isa_def)
  moreover have "active (wps e) = []" "active (bps e) = []"
    using assms by (simp_all add: init_wp_pool_def init_bp_pool_def init_pool_lists)
  ultimately show ?thesis using assms
    by (simp add: at_inst_def boot_emu_def init_isa_def restart_def RESET_VECTOR_def PMEM_LEFT_def std_cfg_def nemu_boot_def)
qed

lemma run_ready:
  assumes c: "std_cfg cfg" "\<not> CONFIG_DIFFTEST cfg" "disassembles_img cfg h" "idle h" and n: "\<not> ended (state_of e)"
    and e: "cpu (core e) = cpu (core (boot_emu cfg p d r))" "pmem (memory (core e)) = pmem (memory (core (boot_emu cfg p d r)))"
      "wps e = init_wp_pool" "bps e = init_bp_pool"
  shows "\<exists>e'. cpu_exec cfg h (- 1) e = Inr e' \<and> state_of e' = NEMU_END \<and> halt_ret (core e') = 0
    \<and> halt_pc (core e') = 0x8000000c \<and> g_nr_guest_inst e' = g_nr_guest_inst e + 4"
proof -
  obtain t ea where a: "emu_get_time h (start_exec (- 1) e) = (t, ea)" by force
  note f = get_time_frame[OF a]
  have "at_inst 0 ea" using f e by (intro boot_at_inst[OF c(1)]) (auto simp: start_exec_def)
  from run_img[OF c this, of "2 ^ 64 - 5"] obtain eb where b: "execute cfg h (2 ^ 64 - 5 + 4) ea = Inr eb" "state_of eb = NEMU_END"
    "halt_ret (core eb) = 0" "halt_pc (core eb) = 0x8000000c" "g_nr_guest_inst eb = g_nr_guest_inst ea + 4" by blast
  obtain t' ec where g: "emu_get_time h eb = (t', ec)" by force
  have u: "unat (- 1 :: u64) = 2 ^ 64 - 5 + 4" by (simp add: unsigned_minus_1_eq_mask mask_eq_exp_minus_1)
  have "cpu_exec cfg h (- 1) e = Inr (finish_exec cfg (ec\<lparr>g_timer := g_timer ec + (t' - t)\<rparr>))"
    using a b(1) g n unfolding cpu_exec_def u start_exec_def by (simp add: Let_def del: add_diff_assoc2)
  then show ?thesis using b f get_time_frame[OF g] by (auto simp: start_exec_def)
qed

lemma run_boot:
  assumes "std_cfg cfg" "\<not> CONFIG_DIFFTEST cfg" "disassembles_img cfg h" "idle h"
  shows "\<exists>e'. cpu_exec cfg h (- 1) (boot_emu cfg p d r) = Inr e' \<and> state_of e' = NEMU_END \<and> halt_ret (core e') = 0
    \<and> halt_pc (core e') = 0x8000000c \<and> g_nr_guest_inst e' = 4 \<and> \<not> is_exit_status_bad (core e')"
  using run_ready[OF assms, of "boot_emu cfg p d r" p d r]
  by (auto simp: is_exit_status_bad_def ended_def boot_emu_def init_isa_def nemu_boot_def)

text \<open>C10: a program run ends.  From reset, with any memory contents and any devices, the built-in image executes four
  instructions and ends with a good trap, so that the exit status is good, for every host clock, as long as no window
  event arrives. Of the disassembler a build with the instruction trace needs that it knows the four RV32I
  instructions of the image; a build without it asks nothing.\<close>

theorem builtin_image_good_trap:
  assumes "std_cfg cfg" "\<not> CONFIG_DIFFTEST cfg" "disassembles_img cfg h" "idle h"
  shows "\<exists>e'. cpu_exec cfg h (- 1) (boot_emu cfg p d r) = Inr e' \<and> state_of e' = NEMU_END \<and> halt_ret (core e') = 0
    \<and> halt_pc (core e') = 0x8000000c \<and> g_nr_guest_inst e' = 4 \<and> \<not> is_exit_status_bad (core e')"
  by (rule run_boot[OF assms])

text \<open>A host whose disassembler knows four instructions and fails on every other word, whose clock is the instruction count, and a reference without state.\<close>

definition quiet_host :: "unit host" where
  "quiet_host = \<lparr>cs_disasm = (\<lambda>_ code. if code = inst_bytes 0x297 then [(''auipc'', ''t0, 0'')]
       else if code = inst_bytes 0x28823 then [(''sb'', ''zero, 0x10(t0)'')]
       else if code = inst_bytes 0x102c503 then [(''lbu'', ''a0, 0x10(t0)'')]
       else if code = inst_bytes 0x100073 then [(''ebreak'', [])] else []), clock = (\<lambda>k. k), events = (\<lambda>_. []),
     ref_difftest_memcpy_to_ref = (\<lambda>_ _. Inr), ref_difftest_regcpy_to_ref = (\<lambda>_ r. r),
     ref_difftest_regcpy_to_dut = (\<lambda>_. cpu nemu_boot), ref_difftest_exec = (\<lambda>_. Inr), ref_difftest_init = (\<lambda>_. Inr)\<rparr>"

lemma quiet_host_ok: "disassembles_img cfg quiet_host" "idle quiet_host"
  by (simp_all add: quiet_host_def disassembles_img_def idle_def inst_bytes_def upt_rec)

theorem builtin_image_good_trap_witness:
  "\<exists>e'. cpu_exec default_config quiet_host (- 1) (boot_emu default_config (\<lambda>_. 0) dev0 ()) = Inr e' \<and> state_of e' = NEMU_END
    \<and> halt_ret (core e') = 0"
  using builtin_image_good_trap[of default_config quiet_host "\<lambda>_. 0" dev0 "()"] quiet_host_ok
  by (auto simp: std_cfg_def default_config_def)

end
