(* ===== verification/Difftest_Self.thy ===== *)
theory Difftest_Self
  imports Difftest Boot
begin

text \<open>
  Differential testing of the emulator against itself: two machines that differ in their devices only execute an
  instruction alike when the build has no devices, so that the comparison never reports a mismatch.
\<close>

section \<open>Related computations\<close>

lemma rel_bind:
  "rel_sum (=) R x y \<Longrightarrow> (\<And>a b. R a b \<Longrightarrow> rel_sum (=) S (f a) (g b)) \<Longrightarrow> rel_sum (=) S (bind_res x f) (bind_res y g)"
  by (cases x; cases y) auto

lemma rel_bind_eq:
  "x = y \<Longrightarrow> (\<And>a. rel_sum (=) S (f a) (g a)) \<Longrightarrow> rel_sum (=) S (bind_res x f) (bind_res y g)"
  by (cases y) (auto simp: bind_res_def)

lemma rel_Inr: "rel_sum (=) R (Inr a) y \<Longrightarrow> \<exists>b. y = Inr b \<and> R a b"
  by (cases y) auto

text \<open>Configurations of the same instruction set and memory, without devices.\<close>

definition same_isa :: "config \<Rightarrow> config \<Rightarrow> bool" where
  "same_isa cfg cfg' \<longleftrightarrow> CONFIG_RVE cfg' = CONFIG_RVE cfg \<and> CONFIG_RT_CHECK cfg' = CONFIG_RT_CHECK cfg
     \<and> CONFIG_MBASE cfg' = CONFIG_MBASE cfg \<and> CONFIG_MSIZE cfg' = CONFIG_MSIZE cfg
     \<and> \<not> CONFIG_DEVICE cfg \<and> \<not> CONFIG_DEVICE cfg'"

text \<open>Machines that differ in their devices only.\<close>

definition same :: "nemu \<Rightarrow> nemu \<Rightarrow> bool" where
  "same st st' \<longleftrightarrow> cpu st' = cpu st \<and> pmem (memory st') = pmem (memory st) \<and> nstate st' = nstate st
     \<and> halt_pc st' = halt_pc st \<and> halt_ret st' = halt_ret st"

abbreviation same_s :: "Decode \<times> nemu \<Rightarrow> Decode \<times> nemu \<Rightarrow> bool" where
  "same_s \<equiv> rel_prod (=) same"

abbreviation same_v :: "u32 \<times> nemu \<Rightarrow> u32 \<times> nemu \<Rightarrow> bool" where
  "same_v \<equiv> rel_prod (=) same"

section \<open>Instructions\<close>

lemma same_reg_idx: "same_isa cfg cfg' \<Longrightarrow> check_reg_idx cfg' i = check_reg_idx cfg i"
  by (simp add: same_isa_def check_reg_idx_def nr_gpr_def)

lemma same_csr_idx: "same_isa cfg cfg' \<Longrightarrow> check_csr_idx cfg' i = check_csr_idx cfg i"
  by (simp add: same_isa_def check_csr_idx_def)

lemma same_R_get: "same_isa cfg cfg' \<Longrightarrow> same st st' \<Longrightarrow> R_get cfg' i st' = R_get cfg i st"
  by (simp add: R_get_def same_reg_idx same_def)

lemma same_csr_get: "same_isa cfg cfg' \<Longrightarrow> same st st' \<Longrightarrow> csr_get cfg' i st' = csr_get cfg i st"
  by (simp add: csr_get_def same_csr_idx same_def)

lemma same_R_set: "same_isa cfg cfg' \<Longrightarrow> same st st' \<Longrightarrow> rel_sum (=) same (R_set cfg i v st) (R_set cfg' i v st')"
  unfolding R_set_def by (rule rel_bind_eq) (auto simp: same_reg_idx same_def)

lemma same_csr_set: "same_isa cfg cfg' \<Longrightarrow> same st st' \<Longrightarrow> rel_sum (=) same (csr_set cfg i v st) (csr_set cfg' i v st')"
  unfolding csr_set_def by (rule rel_bind_eq) (auto simp: same_csr_idx same_def)

lemma same_mem_read:
  assumes "same_isa cfg cfg'" "pmem m' = pmem m"
  shows "rel_sum (=) (rel_prod (=) (\<lambda>a b. a = m \<and> b = m')) (paddr_read cfg a n m) (paddr_read cfg' a n m')"
proof -
  have "in_pmem cfg' a = in_pmem cfg a" "pmem_read cfg' a n m' = pmem_read cfg a n m"
    using assms by (simp_all add: same_isa_def in_pmem_def pmem_read_def guest_to_host_def)
  then show ?thesis using assms(1)
    by (cases "pmem_read cfg a n m") (auto simp: paddr_read_def out_of_bound_def same_isa_def)
qed

lemma same_Mr: "same_isa cfg cfg' \<Longrightarrow> same st st' \<Longrightarrow> rel_sum (=) same_v (Mr cfg a n st) (Mr cfg' a n st')"
  unfolding Mr_def vaddr_read_def by (rule rel_bind[OF same_mem_read]) (auto simp: same_def)

lemma same_fetch:
  "same_isa cfg cfg' \<Longrightarrow> same st st' \<Longrightarrow>
   rel_sum (=) (rel_prod (=) (rel_prod (=) same)) (inst_fetch cfg pc n st) (inst_fetch cfg' pc n st')"
  unfolding inst_fetch_def vaddr_ifetch_def by (rule rel_bind[OF same_mem_read]) (auto simp: same_def)

lemma same_Mw: "same_isa cfg cfg' \<Longrightarrow> same st st' \<Longrightarrow> rel_sum (=) same (Mw cfg a n v st) (Mw cfg' a n v st')"
proof -
  assume c: "same_isa cfg cfg'" and s: "same st st'"
  have "in_pmem cfg' a = in_pmem cfg a" "guest_to_host cfg' a = guest_to_host cfg a"
    using c by (simp_all add: same_isa_def in_pmem_def guest_to_host_def)
  then show ?thesis using c s unfolding Mw_def vaddr_write_def paddr_write_def pmem_write_def
    by (cases "host_write (CONFIG_RT_CHECK cfg) (unat (CONFIG_MSIZE cfg)) (pmem (memory st)) (guest_to_host cfg a) n v")
      (auto simp: same_isa_def same_def out_of_bound_def)
qed

lemma same_set_rd: "same_isa cfg cfg' \<Longrightarrow> same st st' \<Longrightarrow> rel_sum (=) same_s (set_rd cfg ops v s st) (set_rd cfg' ops v s st')"
  unfolding set_rd_def by (rule rel_bind[OF same_R_set]) auto

lemma same_load: "same_isa cfg cfg' \<Longrightarrow> same st st' \<Longrightarrow> rel_sum (=) same_s (load_op cfg ops n f s st) (load_op cfg' ops n f s st')"
  unfolding load_op_def by (rule rel_bind[OF same_Mr]) (auto intro: same_set_rd)

lemma same_store: "same_isa cfg cfg' \<Longrightarrow> same st st' \<Longrightarrow> rel_sum (=) same_s (store_op cfg ops n s st) (store_op cfg' ops n s st')"
  unfolding store_op_def by (rule rel_bind[OF same_Mw]) auto

lemma same_set_state: "same st st' \<Longrightarrow> same (set_nemu_state ns pc ret st) (set_nemu_state ns pc ret st')"
  by (simp add: set_nemu_state_def same_def)

lemma same_invalid: "same_isa cfg cfg' \<Longrightarrow> same st st' \<Longrightarrow> rel_sum (=) same (invalid_inst cfg pc st) (invalid_inst cfg' pc st')"
  unfolding invalid_inst_def
  by (rule rel_bind[OF same_fetch]) (auto intro!: rel_bind[OF same_fetch] same_set_state)

lemma same_csrrwi:
  "same_isa cfg cfg' \<Longrightarrow> same st st' \<Longrightarrow> rel_sum (=) same (riscv_csrrwi cfg c v rd st) (riscv_csrrwi cfg' c v rd st')"
  "same_isa cfg cfg' \<Longrightarrow> same st st' \<Longrightarrow> rel_sum (=) same (riscv_csrrsi cfg c v rd st) (riscv_csrrsi cfg' c v rd st')"
  "same_isa cfg cfg' \<Longrightarrow> same st st' \<Longrightarrow> rel_sum (=) same (riscv_csrrci cfg c v rd st) (riscv_csrrci cfg' c v rd st')"
  unfolding riscv_csrrwi_def riscv_csrrsi_def riscv_csrrci_def
  by (rule rel_bind_eq, simp add: same_csr_get, rule rel_bind[OF same_csr_set], assumption+, rule same_R_set, assumption+)+

lemma same_csrr:
  "same_isa cfg cfg' \<Longrightarrow> same st st' \<Longrightarrow> rel_sum (=) same (riscv_csrrw cfg c rs rd st) (riscv_csrrw cfg' c rs rd st')"
  "same_isa cfg cfg' \<Longrightarrow> same st st' \<Longrightarrow> rel_sum (=) same (riscv_csrrs cfg c rs rd st) (riscv_csrrs cfg' c rs rd st')"
  "same_isa cfg cfg' \<Longrightarrow> same st st' \<Longrightarrow> rel_sum (=) same (riscv_csrrc cfg c rs rd st) (riscv_csrrc cfg' c rs rd st')"
  unfolding riscv_csrrw_def riscv_csrrs_def riscv_csrrc_def
  by (rule rel_bind_eq, simp add: same_R_get, rule same_csrrwi, assumption+)+

lemma same_on_state: "rel_sum (=) same x y \<Longrightarrow> rel_sum (=) same_s (on_state x s) (on_state y s)"
  unfolding on_state_def by (erule rel_bind) simp

lemma same_ecall: "same_isa cfg cfg' \<Longrightarrow> same st st' \<Longrightarrow> rel_sum (=) same_v (riscv_ecall cfg pc st) (riscv_ecall cfg' pc st')"
proof -
  assume c: "same_isa cfg cfg'" and s: "same st st'"
  then have "priv_level (cpu st') = priv_level (cpu st)" by (simp add: same_def)
  then show ?thesis unfolding riscv_ecall_def isa_raise_intr_def
    by (simp only:) (rule rel_bind[OF same_csr_set[OF c s]], rule rel_bind[OF same_csr_set[OF c]], assumption,
      rule rel_bind[OF same_csr_set[OF c]], assumption, rule rel_bind_eq, simp add: same_csr_get[OF c], simp)
qed

lemma same_exec_body:
  assumes "same_isa cfg cfg'" "same st st'"
  shows "rel_sum (=) same_s (exec_body cfg op ops s st) (exec_body cfg' op ops s st')"
proof (cases op)
  case ECALL
  then show ?thesis by (simp add: exec_body_def Let_def) (rule rel_bind[OF same_ecall[OF assms]], auto)
next
  case EBREAK
  then show ?thesis using assms
    by (auto simp: exec_body_def Let_def NEMUTRAP_def same_R_get intro!: rel_bind_eq same_set_state)
next
  case MRET
  then show ?thesis using assms by (auto simp: exec_body_def Let_def riscv_mret_def same_csr_get intro!: rel_bind_eq)
next
  case INV
  then show ?thesis by (simp add: exec_body_def Let_def) (rule rel_bind[OF same_invalid[OF assms]], auto)
qed (use assms in \<open>auto simp: exec_body_def Let_def branch_def
  intro!: same_set_rd same_load same_store same_on_state same_csrr same_csrrwi\<close>)

lemma same_decode_operand:
  "same_isa cfg cfg' \<Longrightarrow> same st st' \<Longrightarrow> decode_operand cfg' i t st' = decode_operand cfg i t st"
  by (simp add: decode_operand_def same_R_get)

lemma same_exec:
  assumes "same_isa cfg cfg'" "same st st'"
  shows "rel_sum (=) same_s (isa_exec_once cfg s st) (isa_exec_once cfg' s st')"
proof -
  have d: "rel_sum (=) same_s (decode_exec cfg s st) (decode_exec cfg' s st')" if "same st st'" for s st st'
    unfolding decode_exec_def Let_def
  proof (rule rel_bind[where R = same_s])
    show "rel_sum (=) same_s
      (bind_res (instpat_select rv_table (ucast (inst (s\<lparr>dnpc := snpc s\<rparr>)))) (\<lambda>e. case e of None \<Rightarrow> Inr (s\<lparr>dnpc := snpc s\<rparr>, st)
        | Some (op, type) \<Rightarrow> bind_res (decode_operand cfg (inst (s\<lparr>dnpc := snpc s\<rparr>)) type st)
            (\<lambda>ops. exec_body cfg op ops (s\<lparr>dnpc := snpc s\<rparr>) st)))
      (bind_res (instpat_select rv_table (ucast (inst (s\<lparr>dnpc := snpc s\<rparr>)))) (\<lambda>e. case e of None \<Rightarrow> Inr (s\<lparr>dnpc := snpc s\<rparr>, st')
        | Some (op, type) \<Rightarrow> bind_res (decode_operand cfg' (inst (s\<lparr>dnpc := snpc s\<rparr>)) type st')
            (\<lambda>ops. exec_body cfg' op ops (s\<lparr>dnpc := snpc s\<rparr>) st')))"
      using assms(1) that by (auto intro!: rel_bind_eq same_exec_body simp: same_decode_operand split: option.splits)
  next
    fix a b assume "same_s a b"
    then show "rel_sum (=) same_s (case a of (s, st) \<Rightarrow> bind_res (R_set cfg 0 0 st) (\<lambda>st. Inr (s, st)))
      (case b of (s, st) \<Rightarrow> bind_res (R_set cfg' 0 0 st) (\<lambda>st. Inr (s, st)))"
      using rel_bind[OF same_R_set[OF assms(1)]] by (cases a; cases b) (simp add: R_set_0 same_def)
  qed
  show ?thesis unfolding isa_exec_once_def by (rule rel_bind[OF same_fetch[OF assms]]) (auto intro: d)
qed

text \<open>Without devices an instruction leaves the device state alone unless it ends the program.\<close>

definition plain :: "nemu \<Rightarrow> nemu \<Rightarrow> bool" where
  "plain st st' \<longleftrightarrow> devs (memory st') = devs (memory st) \<and> nstate st' = nstate st
     \<or> nstate st' = NEMU_END \<or> nstate st' = NEMU_ABORT \<and> halt_ret st' = - 1"

lemma read_plain: "\<not> CONFIG_DEVICE cfg \<Longrightarrow> paddr_read cfg a n m = Inr (v, m') \<Longrightarrow> m' = m"
  by (auto simp: paddr_read_def out_of_bound_def res_simps split: if_splits)

lemma write_plain: "\<not> CONFIG_DEVICE cfg \<Longrightarrow> paddr_write cfg a n v m = Inr m' \<Longrightarrow> devs m' = devs m"
  by (auto simp: paddr_write_def pmem_write_def out_of_bound_def res_simps split: if_splits)

lemma Mr_plain: "\<not> CONFIG_DEVICE cfg \<Longrightarrow> Mr cfg a n st = Inr (v, st') \<Longrightarrow> st' = st"
  by (auto simp: Mr_def vaddr_read_def res_simps dest: read_plain)

lemma fetch_plain: "\<not> CONFIG_DEVICE cfg \<Longrightarrow> inst_fetch cfg pc n st = Inr (i, pc', st') \<Longrightarrow> st' = st"
  by (auto simp: inst_fetch_def vaddr_ifetch_def res_simps dest: read_plain)

lemma raise_plain: "isa_raise_intr cfg n epc st = Inr (v, st') \<Longrightarrow> memory st' = memory st \<and> nstate st' = nstate st"
  by (auto simp: isa_raise_intr_def res_simps dest!: csr_set_memory)

lemma plain_refl [simp]: "plain st st"
  by (simp add: plain_def)

lemma plain_keep: "memory st' = memory st \<and> nstate st' = nstate st \<Longrightarrow> plain st st'"
  by (simp add: plain_def)

lemma plain_set_rd: "set_rd cfg ops v s st = Inr (s', st') \<Longrightarrow> plain st st'"
  using set_rd_frame by (auto intro: plain_keep)

lemma plain_load: "\<not> CONFIG_DEVICE cfg \<Longrightarrow> load_op cfg ops n f s st = Inr (s', st') \<Longrightarrow> plain st st'"
  by (auto simp: load_op_def res_simps dest!: Mr_plain dest: plain_set_rd)

lemma plain_store: "\<not> CONFIG_DEVICE cfg \<Longrightarrow> store_op cfg ops n s st = Inr (s', st') \<Longrightarrow> plain st st'"
  by (auto simp: store_op_def Mw_def vaddr_write_def res_simps plain_def dest: write_plain)

lemma plain_invalid: "invalid_inst cfg pc st = Inr st' \<Longrightarrow> plain sta st'"
  by (auto simp: invalid_inst_def set_nemu_state_def res_simps plain_def)

lemma exec_body_plain:
  "\<not> CONFIG_DEVICE cfg \<Longrightarrow> exec_body cfg op ops s st = Inr (s', st') \<Longrightarrow> plain st st'"
  by (cases op)
    (auto simp: exec_body_def Let_def branch_def on_state_def riscv_ecall_def NEMUTRAP_def set_nemu_state_def res_simps
      intro: plain_keep dest: plain_set_rd plain_load plain_store plain_invalid
      dest!: raise_plain csr_ops_frame[THEN plain_keep] simp: plain_keep, auto simp: plain_def)

lemma exec_plain:
  assumes "\<not> CONFIG_DEVICE cfg" "isa_exec_once cfg s st = Inr (s', st')"
  shows "plain st st'"
proof -
  obtain i pc where f: "inst_fetch cfg (snpc s) 4 st = Inr (i, pc, st)" and d: "decode_exec cfg (s\<lparr>inst := i, snpc := pc\<rparr>) st = Inr (s', st')"
    using assms fetch_plain[OF assms(1)] by (auto simp: isa_exec_once_def res_simps) metis
  have r: "plain st ba \<Longrightarrow> plain st (ba\<lparr>cpu := c\<rparr>)" for ba c by (simp add: plain_def)
  show ?thesis using d unfolding decode_exec_def Let_def R_set_0
    by (auto simp: res_simps split: option.splits dest: exec_body_plain[OF assms(1)] intro!: r)
qed

section \<open>A step of the reference\<close>

definition lone :: "'q emu \<Rightarrow> bool" where
  "lone r \<longleftrightarrow> active (wps r) = [] \<and> active (bps r) = []"

definition ref_config :: "config \<Rightarrow> bool" where
  "ref_config cfg \<longleftrightarrow> \<not> CONFIG_ITRACE cfg \<and> \<not> CONFIG_FTRACE cfg \<and> \<not> CONFIG_DIFFTEST cfg \<and> \<not> CONFIG_DEVICE cfg"

lemma lone_update: "lone r \<Longrightarrow> wp_update cfg (wps r) st = Inr (wps r, st) \<and> bp_update (bps r) st = st"
  by (simp add: lone_def wp_update_def bp_update_def)

lemma ref_exec_traced:
  assumes "ref_config cfg" "lone r" "isa_exec_once cfg \<lparr>s_pc = pc_of r, snpc = pc_of r, dnpc = 0, inst = 0\<rparr> (core r) = Inr (s, st)"
  shows "exec_traced cfg hr r = Inr (r\<lparr>core := st\<lparr>cpu := (cpu st)\<lparr>cpu_pc := dnpc s\<rparr>\<rparr>, g_nr_guest_inst := g_nr_guest_inst r + 1\<rparr>)"
  using assms lone_update[OF assms(2)]
  by (simp add: exec_traced_def exec_once_def trace_and_difftest_def when_res_def ref_config_def Let_def)

lemma ref_step:
  assumes c: "ref_config cfg" and l: "lone r" and n: "\<not> ended (state_of r)"
    and run: "\<And>d. \<exists>st. isa_exec_once cfg \<lparr>s_pc = pc_of r, snpc = pc_of r, dnpc = 0, inst = 0\<rparr>
        ((core r)\<lparr>nstate := NEMU_RUNNING, memory := (memory (core r))\<lparr>devs := d\<rparr>\<rparr>) = Inr (s, st) \<and> same stx st"
  shows "\<exists>r'. cpu_exec cfg hr 1 r = Inr r' \<and> cpu (core r') = (cpu stx)\<lparr>cpu_pc := dnpc s\<rparr>
    \<and> pmem (memory (core r')) = pmem (memory stx) \<and> halt_pc (core r') = halt_pc stx \<and> halt_ret (core r') = halt_ret stx
    \<and> state_of r' = (if nstate stx = NEMU_RUNNING then NEMU_STOP else nstate stx) \<and> lone r'"
proof -
  define ra where "ra = set_core ((core r)\<lparr>nstate := NEMU_RUNNING\<rparr>) (r\<lparr>g_print_step := (1 < MAX_INST_TO_PRINT)\<rparr>)"
  obtain t rb where b: "emu_get_time hr ra = (t, rb)" by force
  obtain d where rb: "rb = set_devs (\<lambda>_. d) ra" using b by (auto simp: emu_get_time_def split: prod.splits)
  obtain st where x: "isa_exec_once cfg \<lparr>s_pc = pc_of rb, snpc = pc_of rb, dnpc = 0, inst = 0\<rparr> (core rb) = Inr (s, st)"
    and st: "same stx st" using run[of d] unfolding rb ra_def set_devs_def by auto
  define rc where "rc = rb\<lparr>core := st\<lparr>cpu := (cpu st)\<lparr>cpu_pc := dnpc s\<rparr>\<rparr>, g_nr_guest_inst := g_nr_guest_inst rb + 1\<rparr>"
  have "lone rb" using l by (simp add: rb ra_def set_devs_def lone_def)
  then have ex: "execute cfg hr (Suc 0) rb = Inr rc"
    using ref_exec_traced[OF c _ x] c by (simp add: rc_def when_res_def ref_config_def)
  obtain t' rd where d': "emu_get_time hr rc = (t', rd)" by force
  have "cpu_exec cfg hr 1 r = Inr (finish_exec cfg (rd\<lparr>g_timer := g_timer rd + (t' - t)\<rparr>))"
    using n b ex d' by (simp add: cpu_exec_def Let_def ra_def)
  moreover have "lone rc" using \<open>lone rb\<close> by (simp add: rc_def lone_def)
  ultimately show ?thesis using get_time_frame[OF d'] st
    by (cases "nstate st") (auto simp: finish_exec_def rc_def same_def lone_def)
qed

section \<open>The emulator tested against itself\<close>

text \<open>Selection from an updated state, for a reference that is an emulator too.\<close>

lemma emu_upd:
  "core (e\<lparr>refst := r\<rparr>) = core e" "wps (e\<lparr>refst := r\<rparr>) = wps e" "bps (e\<lparr>refst := r\<rparr>) = bps e" "refst (e\<lparr>refst := r\<rparr>) = r"
  "core (e\<lparr>g_nr_guest_inst := n\<rparr>) = core e" "refst (e\<lparr>g_nr_guest_inst := n\<rparr>) = refst e"
  "core (e\<lparr>g_timer := t\<rparr>) = core e" "refst (e\<lparr>g_timer := t\<rparr>) = refst e"
  "core (e\<lparr>g_print_step := b\<rparr>) = core e" "refst (e\<lparr>g_print_step := b\<rparr>) = refst e"
  "core (e\<lparr>core := st\<rparr>) = st" "refst (e\<lparr>core := st\<rparr>) = refst e"
  by simp_all

definition sync :: "'q emu emu \<Rightarrow> bool" where
  "sync e \<longleftrightarrow> same (core e) ((core (refst e))\<lparr>nstate := state_of e\<rparr>) \<and> \<not> ended (state_of (refst e)) \<and> lone (refst e)
     \<and> \<not> is_skip_ref (dut_devs e) \<and> skip_dut_nr_inst (dut_devs e) = 0"

lemma point_rel_memory: "point_rel cfg st st' \<Longrightarrow> \<not> CONFIG_DEVICE cfg \<Longrightarrow> memory st' = memory st"
  by (induction rule: rtranclp_induct) (auto simp: point_step_def stop_if_running_def dest: Mr_plain)

text \<open>The state before the comparison: \<open>stx\<close> is the machine after the instruction, the reference has not run it.\<close>

lemma self_ref_step:
  assumes cfg: "same_isa cfg cfgr" "ref_config cfgr"
    and r: "same (core e) ((core (refst ea))\<lparr>nstate := NEMU_RUNNING\<rparr>)" "\<not> ended (state_of (refst ea))" "lone (refst ea)"
    and x: "isa_exec_once cfg \<lparr>s_pc = pc_of e, snpc = pc_of e, dnpc = 0, inst = 0\<rparr> (core e) = Inr (s, stx)"
    and ea: "core ea = stx\<lparr>cpu := (cpu stx)\<lparr>cpu_pc := dnpc s\<rparr>\<rparr>" and q: "quiet (core ea)"
    and skip: "\<not> is_skip_ref (dut_devs ea)"
  shows "\<exists>r'. difftest_step cfg (nemu_host cfgr hr rnd sdl sd_img hdut) pc npc ea = Inr (ea\<lparr>refst := r'\<rparr>)
    \<and> (state_of ea = NEMU_RUNNING \<longrightarrow> sync (ea\<lparr>refst := r'\<rparr>))"
proof -
  have pc: "pc_of (refst ea) = pc_of e" using r(1) by (simp add: same_def)
  have "\<exists>st. isa_exec_once cfgr \<lparr>s_pc = pc_of (refst ea), snpc = pc_of (refst ea), dnpc = 0, inst = 0\<rparr>
      ((core (refst ea))\<lparr>nstate := NEMU_RUNNING, memory := (memory (core (refst ea)))\<lparr>devs := d\<rparr>\<rparr>) = Inr (s, st) \<and> same stx st" for d
  proof -
    have "same (core e) ((core (refst ea))\<lparr>nstate := NEMU_RUNNING, memory := (memory (core (refst ea)))\<lparr>devs := d\<rparr>\<rparr>)"
      using r(1) by (simp add: same_def)
    from same_exec[OF cfg(1) this, of "\<lparr>s_pc = pc_of e, snpc = pc_of e, dnpc = 0, inst = 0\<rparr>"]
    show ?thesis unfolding pc x by (auto dest!: rel_Inr)
  qed
  from ref_step[OF cfg(2) r(3,2) this] obtain r' where r': "difftest_exec cfgr hr 1 (refst ea) = Inr r'"
    "cpu (core r') = cpu (core ea)" "pmem (memory (core r')) = pmem (memory stx)" "halt_pc (core r') = halt_pc stx"
    "halt_ret (core r') = halt_ret stx" "state_of r' = (if nstate stx = NEMU_RUNNING then NEMU_STOP else nstate stx)" "lone r'"
    unfolding difftest_exec_def ea by auto
  have "isa_difftest_checkregs (cpu (core ea)) (cpu (core ea))" by (simp add: isa_difftest_checkregs_def list_all_iff)
  then have "difftest_step cfg (nemu_host cfgr hr rnd sdl sd_img hdut) pc npc ea = Inr (ea\<lparr>refst := r'\<rparr>)" using q skip r'(1,2)
    by (simp add: difftest_step_def no_wait_def nemu_host_def difftest_regcpy_to_dut_def checkregs_def emu_upd)
  moreover have "state_of ea = NEMU_RUNNING \<longrightarrow> sync (ea\<lparr>refst := r'\<rparr>)"
    using r' q skip ea by (auto simp: sync_def same_def no_wait_def ended_def emu_upd)
  ultimately show ?thesis by blast
qed

lemma self_step:
  assumes cfg: "same_isa cfg cfgr" "ref_config cfgr"
    and r: "same (core e) ((core (refst ea))\<lparr>nstate := NEMU_RUNNING\<rparr>)" "\<not> ended (state_of (refst ea))" "lone (refst ea)"
    and x: "isa_exec_once cfg \<lparr>s_pc = pc_of e, snpc = pc_of e, dnpc = 0, inst = 0\<rparr> (core e) = Inr (s, stx)"
    and ea: "core ea = stx\<lparr>cpu := (cpu stx)\<lparr>cpu_pc := dnpc s\<rparr>\<rparr>" and q: "quiet (core ea)"
    and step: "difftest_step cfg (nemu_host cfgr hr rnd sdl sd_img hdut) pc npc ea = Inr eb"
  shows "same (core ea) (core eb) \<and> skip_dut_nr_inst (dut_devs eb) = 0
    \<and> (\<not> is_skip_ref (dut_devs ea) \<and> state_of ea = NEMU_RUNNING \<longrightarrow> sync eb)"
proof (cases "is_skip_ref (dut_devs ea)")
  case True
  then show ?thesis using step q by (auto simp: difftest_step_def no_wait_def set_devs_def same_def emu_upd)
next
  case False
  then show ?thesis using self_ref_step[OF cfg r x ea q False, of hr rnd sdl sd_img hdut pc npc] step q
    by (auto simp: emu_upd same_def no_wait_def)
qed

lemma exec_once_plain:
  assumes nd: "\<not> CONFIG_DEVICE cfg" and x: "exec_once cfg h (pc_of e) e = Inr (s, logbuf, e')"
  shows "\<exists>st. isa_exec_once cfg \<lparr>s_pc = pc_of e, snpc = pc_of e, dnpc = 0, inst = 0\<rparr> (core e) = Inr (s, st)
    \<and> core e' = st\<lparr>cpu := (cpu st)\<lparr>cpu_pc := dnpc s\<rparr>\<rparr> \<and> refst e' = refst e"
proof -
  obtain ea st where a: "when_res (CONFIG_ITRACE cfg) (iringbuf_update cfg h (pc_of e)) e = Inr ea"
    and i: "isa_exec_once cfg \<lparr>s_pc = pc_of e, snpc = pc_of e, dnpc = 0, inst = 0\<rparr> (core ea) = Inr (s, st)"
    and e': "e' = set_core (st\<lparr>cpu := (cpu st)\<lparr>cpu_pc := dnpc s\<rparr>\<rparr>) ea"
    using x by (auto simp: exec_once_def Let_def res_simps)
  have "core ea = core e \<and> refst ea = refst e"
    using a read_plain[OF nd] by (fastforce simp: when_res_def iringbuf_update_def iringbuf_push_def vaddr_ifetch_def res_simps
        split: if_splits)
  then show ?thesis using i e' by auto
qed

lemma self_traced:
  assumes cfg: "same_isa cfg cfgr" "ref_config cfgr" "CONFIG_DIFFTEST cfg"
    and e: "state_of e = NEMU_RUNNING" "sync e"
    and x: "exec_traced cfg (nemu_host cfgr hr rnd sdl sd_img hdut) e = Inr e'"
  shows "sync e' \<and> (state_of e' = NEMU_RUNNING \<or> state_of e' = NEMU_STOP) \<or> state_of e' = NEMU_END
    \<or> state_of e' = NEMU_ABORT \<and> halt_ret (core e') = - 1"
proof -
  let ?h = "nemu_host cfgr hr rnd sdl sd_img hdut"
  have nd: "\<not> CONFIG_DEVICE cfg" using cfg(1) by (simp add: same_isa_def)
  obtain s logbuf ea where a: "exec_once cfg ?h (pc_of e) e = Inr (s, logbuf, ea)"
    and t: "trace_and_difftest cfg ?h s logbuf (pc_of ea) (ea\<lparr>g_nr_guest_inst := g_nr_guest_inst ea + 1\<rparr>) = Inr e'"
    using x by (auto simp: exec_traced_def Let_def res_simps)
  obtain st where i: "isa_exec_once cfg \<lparr>s_pc = pc_of e, snpc = pc_of e, dnpc = 0, inst = 0\<rparr> (core e) = Inr (s, st)"
    and ea: "core ea = st\<lparr>cpu := (cpu st)\<lparr>cpu_pc := dnpc s\<rparr>\<rparr>" "refst ea = refst e"
    using exec_once_plain[OF nd a] by blast
  obtain eb ec where b: "core eb = core ea" "refst eb = refst ea" and d: "difftest_step cfg ?h (s_pc s) (pc_of ea) eb = Inr ec"
    and p: "point_rel cfg (core ec) (core e')" "refst e' = refst ec"
    using trace_parts[OF t] cfg(3) by (auto simp: emu_upd when_res_def)
  have q: "quiet (core eb)" using quiet_exec[OF _ i] e(2) b ea by (simp add: sync_def no_wait_def)
  have "same (core e) ((core (refst eb))\<lparr>nstate := NEMU_RUNNING\<rparr>)" "\<not> ended (state_of (refst eb))" "lone (refst eb)"
    using e b ea by (auto simp: sync_def)
  from self_step[OF cfg(1,2) this i _ q d] have c: "same (core eb) (core ec)" "skip_dut_nr_inst (dut_devs ec) = 0"
    "\<not> is_skip_ref (dut_devs eb) \<and> state_of eb = NEMU_RUNNING \<longrightarrow> sync ec" using b(1) ea(1) by auto
  have f: "cpu (core e') = cpu (core ec)" "state_of e' = state_of ec \<or> state_of ec = NEMU_RUNNING \<and> state_of e' = NEMU_STOP"
    "halt_pc (core e') = halt_pc (core ec)" "halt_ret (core e') = halt_ret (core ec)" "memory (core e') = memory (core ec)"
    using point_rel_frame[OF p(1)] point_rel_memory[OF p(1) nd] c(2) by (auto simp: no_wait_def)
  have ns: "nstate st = state_of ec" "halt_ret st = halt_ret (core ec)" using c(1) b(1) ea(1) by (auto simp: same_def)
  consider "devs (memory st) = dut_devs e" "nstate st = NEMU_RUNNING" | "nstate st = NEMU_END" | "nstate st = NEMU_ABORT" "halt_ret st = - 1"
    using exec_plain[OF nd i] e(1) by (auto simp: plain_def)
  then show ?thesis
  proof cases
    case 1
    then have "sync ec" using c(3) e(2) b(1) ea(1) by (simp add: sync_def)
    then have "sync e'" using f p(2) by (auto simp: sync_def same_def)
    then show ?thesis using f(2) ns 1 by auto
  qed (use f ns in auto)
qed

lemma self_execute:
  assumes cfg: "same_isa cfg cfgr" "ref_config cfgr" "CONFIG_DIFFTEST cfg"
  shows "state_of e = NEMU_RUNNING \<Longrightarrow> sync e \<Longrightarrow> execute cfg (nemu_host cfgr hr rnd sdl sd_img hdut) n e = Inr e' \<Longrightarrow>
    sync e' \<and> (state_of e' = NEMU_RUNNING \<or> state_of e' = NEMU_STOP) \<or> state_of e' = NEMU_END
    \<or> state_of e' = NEMU_ABORT \<and> halt_ret (core e') = - 1"
proof (induction n arbitrary: e)
  case (Suc n)
  let ?h = "nemu_host cfgr hr rnd sdl sd_img hdut"
  have nd: "\<not> CONFIG_DEVICE cfg" using cfg(1) by (simp add: same_isa_def)
  obtain ea where a: "exec_traced cfg ?h e = Inr ea"
    and r: "(if state_of ea \<noteq> NEMU_RUNNING then Inr ea else execute cfg ?h n ea) = Inr e'"
    using Suc.prems(3) nd by (auto simp: res_simps when_res_def cong: if_cong)
  show ?case using self_traced[OF cfg Suc.prems(1,2) a] r Suc.IH[of ea] by (auto split: if_splits)
qed auto

lemma self_cpu_exec:
  assumes cfg: "same_isa cfg cfgr" "ref_config cfgr" "CONFIG_DIFFTEST cfg" and e: "sync e" "\<not> ended (state_of e)"
    and x: "cpu_exec cfg (nemu_host cfgr hr rnd sdl sd_img hdut) n e = Inr e'"
  shows "state_of e' = NEMU_STOP \<and> sync e' \<or> state_of e' = NEMU_END \<or> state_of e' = NEMU_ABORT \<and> halt_ret (core e') = - 1"
proof -
  let ?h = "nemu_host cfgr hr rnd sdl sd_img hdut"
  obtain t ea eb t' ec where a: "emu_get_time ?h (start_exec n e) = (t, ea)" and b: "execute cfg ?h (unat n) ea = Inr eb"
    and c: "emu_get_time ?h eb = (t', ec)" and e': "e' = finish_exec cfg (ec\<lparr>g_timer := g_timer ec + (t' - t)\<rparr>)"
    using cpu_exec_parts[OF x e(2)] by blast
  have "state_of ea = NEMU_RUNNING" "sync ea"
    using get_time_frame[OF a] e(1) by (auto simp: start_exec_def sync_def same_def emu_upd)
  from self_execute[OF cfg this b] show ?thesis
    using get_time_frame[OF c] unfolding e' by (auto simp: emu_upd sync_def same_def)
qed

section \<open>Properties\<close>

text \<open>C12: a build without devices that is tested against itself is never reported: however many instructions it runs, it
  stops with reference and device still in the same state, or the program ends, or it aborts on an invalid
  instruction (exit code -1), never on a mismatch.\<close>

theorem self_difftest_silent:
  assumes "same_isa cfg cfgr" "ref_config cfgr" "CONFIG_DIFFTEST cfg" "sync e" "\<not> ended (state_of e)"
    and "cpu_exec cfg (nemu_host cfgr hr rnd sdl sd_img hdut) n e = Inr e'"
  shows "state_of e' = NEMU_STOP \<and> sync e' \<or> state_of e' = NEMU_END \<or> state_of e' = NEMU_ABORT \<and> halt_ret (core e') = - 1"
  by (rule self_cpu_exec[OF assms])

text \<open>One instruction of the built-in image under test.\<close>

definition dut_cfg :: config where
  "dut_cfg = default_config\<lparr>CONFIG_DEVICE := False, CONFIG_DIFFTEST := True, CONFIG_ITRACE := False, CONFIG_FTRACE := False,
     CONFIG_WATCHPOINT := False, CONFIG_BREAKPOINT := False, CONFIG_HAS_SERIAL := False, CONFIG_HAS_TIMER := False,
     CONFIG_HAS_VGA := False, CONFIG_HAS_KEYBOARD := False, CONFIG_HAS_AUDIO := False\<rparr>"

definition ref_cfg :: config where
  "ref_cfg = dut_cfg\<lparr>CONFIG_DIFFTEST := False\<rparr>"

definition self_host :: "unit emu host" where
  "self_host = nemu_host ref_cfg quiet_host None (\<lambda>_. 0) None quiet_host"

definition dut0 :: "unit emu emu" where
  "dut0 = boot_emu dut_cfg (\<lambda>_. 0) dev0 (boot_emu ref_cfg (\<lambda>_. 0) dev0 ())"

lemma dut_cfg_ok: "same_isa dut_cfg ref_cfg" "ref_config ref_cfg" "CONFIG_DIFFTEST dut_cfg" "std_cfg dut_cfg" "\<not> CONFIG_DEVICE dut_cfg"
  by (simp_all add: same_isa_def ref_config_def std_cfg_def ref_cfg_def dut_cfg_def default_config_def)

lemma boot_emu_sel:
  "core (boot_emu cfg p d r) = init_isa cfg (nemu_boot\<lparr>memory := \<lparr>pmem = p, devs = d\<rparr>\<rparr>)" "refst (boot_emu cfg p d r) = r"
  "wps (boot_emu cfg p d r) = init_wp_pool" "bps (boot_emu cfg p d r) = init_bp_pool"
  by (simp_all add: boot_emu_def)

lemma dut0_sync: "sync dut0" "\<not> ended (state_of dut0)"
  by (simp_all add: sync_def dut0_def boot_emu_sel same_def lone_def init_wp_pool_def init_bp_pool_def init_pool_lists ended_def
      init_isa_def nemu_boot_def dev0_def restart_def ref_cfg_def dut_cfg_def RESET_VECTOR_def PMEM_LEFT_def guest_to_host_def)

lemma dut_run:
  assumes e: "sync e" "\<not> ended (state_of e)" "cpu (core e) = cpu (core dut0)" "pmem (memory (core e)) = pmem (memory (core dut0))"
    "wps e = init_wp_pool" "bps e = init_bp_pool"
  shows "\<exists>e'. cpu_exec dut_cfg self_host 1 e = Inr e'"
proof -
  obtain t ea where a: "emu_get_time self_host (start_exec 1 e) = (t, ea)" by force
  have "cpu (core ea) = cpu (core dut0)" "pmem (memory (core ea)) = pmem (memory (core dut0))" "state_of ea = NEMU_RUNNING"
    "wps ea = init_wp_pool" "bps ea = init_bp_pool" "sync ea"
    using get_time_frame[OF a] e by (auto simp: start_exec_def emu_upd sync_def same_def)
  then have at: "at_inst 0 ea" unfolding dut0_def by (intro boot_at_inst[OF dut_cfg_ok(4)]) auto
  have pc: "pc_of ea = 0x80000000" using at by (simp add: at_inst_def)
  have f: "inst_fetch dut_cfg (pc_of ea) 4 (core ea) = Inr (0x297, pc_of ea + 4, core ea)"
    using fetch_img[OF dut_cfg_ok(4), of 0 "memory (core ea)"] at
    by (simp add: inst_fetch_def vaddr_ifetch_def at_inst_def has_img_def del: read_le.simps)
  obtain s st where x: "isa_exec_once dut_cfg \<lparr>s_pc = pc_of ea, snpc = pc_of ea, dnpc = 0, inst = 0\<rparr> (core ea) = Inr (s, st)"
    "memory st = memory (core ea)"
    using f img_auipc[OF dut_cfg_ok(4), of "\<lparr>s_pc = pc_of ea, snpc = pc_of ea + 4, dnpc = 0, inst = 0x297\<rparr>" "core ea"]
    by (simp add: isa_exec_once_def)
  define eb where "eb = (set_core (st\<lparr>cpu := (cpu st)\<lparr>cpu_pc := dnpc s\<rparr>\<rparr>) ea)\<lparr>g_nr_guest_inst := g_nr_guest_inst ea + 1\<rparr>"
  have eb: "core eb = st\<lparr>cpu := (cpu st)\<lparr>cpu_pc := dnpc s\<rparr>\<rparr>" "refst eb = refst ea" by (simp_all add: eb_def emu_upd)
  have sy: "same (core ea) ((core (refst eb))\<lparr>nstate := NEMU_RUNNING\<rparr>)" "\<not> ended (state_of (refst eb))" "lone (refst eb)"
    "quiet (core eb)" "\<not> is_skip_ref (dut_devs eb)"
    using \<open>sync ea\<close> \<open>state_of ea = NEMU_RUNNING\<close> x(2) unfolding sync_def no_wait_def eb by simp_all
  have "\<exists>r'. difftest_step dut_cfg self_host (s_pc s) (pc_of eb) eb = Inr (eb\<lparr>refst := r'\<rparr>)"
    using self_ref_step[OF dut_cfg_ok(1,2) sy(1-3) x(1) eb(1) sy(4,5)] unfolding self_host_def by blast
  then obtain r' where r': "exec_traced dut_cfg self_host ea = Inr (eb\<lparr>refst := r'\<rparr>)"
    using x by (auto simp: exec_traced_def exec_once_def trace_and_difftest_def when_res_def Let_def eb_def dut_cfg_def)
  then have "\<exists>ec. execute dut_cfg self_host (Suc 0) ea = Inr ec" using dut_cfg_ok(5) by (simp add: when_res_def)
  then obtain ec where "execute dut_cfg self_host (unat 1) ea = Inr ec" by auto
  then show ?thesis using a e(2) unfolding start_exec_def
    by (cases "emu_get_time self_host ec") (simp add: cpu_exec_def Let_def emu_upd)
qed

lemma dut0_run: "\<exists>e'. cpu_exec dut_cfg self_host 1 dut0 = Inr e'"
  using dut_run[OF dut0_sync] by (auto simp: dut0_def boot_emu_sel)

theorem self_difftest_silent_witness:
  "\<exists>e'. cpu_exec dut_cfg self_host 1 dut0 = Inr e' \<and>
    (state_of e' = NEMU_STOP \<and> sync e' \<or> state_of e' = NEMU_END \<or> state_of e' = NEMU_ABORT \<and> halt_ret (core e') = - 1)"
  using dut0_run self_difftest_silent[OF dut_cfg_ok(1-3) dut0_sync] unfolding self_host_def by blast

text \<open>The same device with a reference that has not been initialised.\<close>

definition ref_raw :: "unit emu" where
  "ref_raw = (boot_emu ref_cfg (\<lambda>_. 0) dev0 ())\<lparr>core := nemu_boot\<rparr>"

definition dut1 :: "unit emu emu" where
  "dut1 = boot_emu dut_cfg (\<lambda>_. 0) dev0 ref_raw"

lemma raw_init: "difftest_init ref_cfg None (\<lambda>_. 0) None ref_raw = Inr (boot_emu ref_cfg (\<lambda>_. 0) dev0 ())"
  by (simp add: difftest_init_def init_mem_def ref_raw_def boot_emu_def init_isa_def init_device_def init_map_def when_res_def
      ref_cfg_def dut_cfg_def default_config_def dev0_def nemu_boot_def Let_def)

lemma regcpy_same: "cpu (core e) = c \<Longrightarrow> difftest_regcpy_to_ref c e = e"
  by (simp add: difftest_regcpy_to_ref_def Let_def)

lemma dut1_init: "init_difftest dut_cfg self_host True 0 0 dut1 = Inr dut0"
proof -
  have c: "cpu (core (boot_emu ref_cfg (\<lambda>_. 0) dev0 ())) = cpu (core dut1)"
    by (simp add: dut1_def boot_emu_sel init_isa_def restart_def ref_cfg_def dut_cfg_def RESET_VECTOR_def PMEM_LEFT_def)
  have "refst dut1 = ref_raw" "dut1\<lparr>refst := boot_emu ref_cfg (\<lambda>_. 0) dev0 ()\<rparr> = dut0"
    by (simp_all add: dut1_def dut0_def boot_emu_def)
  then show ?thesis using regcpy_same[OF c]
    by (simp add: init_difftest_def assert_res_def self_host_def nemu_host_def raw_init difftest_memcpy_to_ref_def copy_to_paddr_def Let_def)
qed

theorem difftest_no_divergence_witness:
  "\<exists>ea eb. init_difftest dut_cfg self_host True 0 0 dut1 = Inr ea \<and> cpu_exec dut_cfg self_host 1 ea = Inr eb \<and>
    lockstep self_host (dut_run dut_cfg self_host (unat (1 :: u64)) (snd (emu_get_time self_host (start_exec 1 ea)))) (refst ea) = Inr (refst eb) \<and>
    (isa_difftest_checkregs (ref_difftest_regcpy_to_dut self_host (refst eb)) (cpu (core eb)) \<or> state_of eb = NEMU_ABORT)"
proof -
  obtain eb where b: "cpu_exec dut_cfg self_host 1 dut0 = Inr eb"
    using dut0_run by blast
  have "skip_dut_nr_inst (dut_devs dut1) = 0" "\<not> is_skip_ref (dut_devs dut1)" "active (wps dut1) = []" "\<not> ended (state_of dut1)"
    by (simp_all add: dut1_def boot_emu_sel init_isa_def dev0_def init_wp_pool_def init_pool_lists ended_def nemu_boot_def)
  note x = difftest_no_divergence[OF nemu.regcpy dut_cfg_ok(3) this dut1_init[unfolded self_host_def] b[unfolded self_host_def],
    folded self_host_def]
  show ?thesis by (rule exI[of _ dut0], rule exI[of _ eb]) (intro conjI dut1_init b x[THEN conjunct1] x[THEN conjunct2])
qed

end
