(* ===== verification/Am_Ioe.thy ===== *)
theory Am_Ioe
  imports Memory
begin

text \<open>
  Device access of the bare-metal layer on the emulator (\<open>abstract-machine/am/src/platform/nemu\<close>): the drivers behind
  \<open>ioe_read\<close> and \<open>ioe_write\<close>, and \<open>putch\<close>.

  The drivers are guest code.  Their loads and stores through volatile pointers are the emulator's \<open>vaddr_read\<close> and
  \<open>vaddr_write\<close>, so that a driver runs against the model of its device.  The build is the one for \<open>riscv32\<close>, with the
  device registers at \<open>0xa0000000\<close>.
\<close>

section \<open>Volatile accesses (riscv/riscv.h)\<close>

definition inb :: "config \<Rightarrow> u32 \<Rightarrow> mem \<Rightarrow> (u8 \<times> mem) res" where
  "inb cfg addr m = bind_res (vaddr_read cfg addr 1 m) (\<lambda>(v, m). Inr (ucast v, m))"

definition inw :: "config \<Rightarrow> u32 \<Rightarrow> mem \<Rightarrow> (u16 \<times> mem) res" where
  "inw cfg addr m = bind_res (vaddr_read cfg addr 2 m) (\<lambda>(v, m). Inr (ucast v, m))"

definition inl :: "config \<Rightarrow> u32 \<Rightarrow> mem \<Rightarrow> (u32 \<times> mem) res" where
  "inl cfg addr m = vaddr_read cfg addr 4 m"

definition outb :: "config \<Rightarrow> u32 \<Rightarrow> u8 \<Rightarrow> mem \<Rightarrow> mem res" where
  "outb cfg addr data m = vaddr_write cfg addr 1 (ucast data) m"

definition outw :: "config \<Rightarrow> u32 \<Rightarrow> u16 \<Rightarrow> mem \<Rightarrow> mem res" where
  "outw cfg addr data m = vaddr_write cfg addr 2 (ucast data) m"

definition outl :: "config \<Rightarrow> u32 \<Rightarrow> u32 \<Rightarrow> mem \<Rightarrow> mem res" where
  "outl cfg addr data m = vaddr_write cfg addr 4 data m"

section \<open>Addresses (nemu.h)\<close>

definition DEVICE_BASE :: u32 where "DEVICE_BASE = 0xa0000000"
definition MMIO_BASE :: u32 where "MMIO_BASE = 0xa0000000"
definition AM_SERIAL_PORT :: u32 where "AM_SERIAL_PORT = DEVICE_BASE + 0x3f8"
definition KBD_ADDR :: u32 where "KBD_ADDR = DEVICE_BASE + 0x60"
definition RTC_ADDR :: u32 where "RTC_ADDR = DEVICE_BASE + 0x48"
definition VGACTL_ADDR :: u32 where "VGACTL_ADDR = DEVICE_BASE + 0x100"
definition AUDIO_ADDR :: u32 where "AUDIO_ADDR = DEVICE_BASE + 0x200"
definition FB_ADDR :: u32 where "FB_ADDR = MMIO_BASE + 0x1000000"
definition AUDIO_SBUF_ADDR :: u32 where "AUDIO_SBUF_ADDR = MMIO_BASE + 0x1200000"

lemmas am_addrs = DEVICE_BASE_def MMIO_BASE_def AM_SERIAL_PORT_def KBD_ADDR_def RTC_ADDR_def VGACTL_ADDR_def AUDIO_ADDR_def
  FB_ADDR_def AUDIO_SBUF_ADDR_def

section \<open>Serial port, timer and keyboard\<close>

definition putch :: "config \<Rightarrow> u8 \<Rightarrow> mem \<Rightarrow> mem res" where
  "putch cfg ch m = outb cfg AM_SERIAL_PORT ch m"

definition am_uart_rx :: "config \<Rightarrow> mem \<Rightarrow> (u8 \<times> mem) res" where
  "am_uart_rx cfg m = inb cfg AM_SERIAL_PORT m"

text \<open>The host's clock runs on between the two loads: it shows \<open>t\<close> at the second.\<close>

definition pass_time :: "u64 \<Rightarrow> mem \<Rightarrow> mem" where
  "pass_time t m = m\<lparr>devs := devs m\<lparr>host_clock := t\<rparr>\<rparr>"

definition am_timer_uptime :: "config \<Rightarrow> u64 \<Rightarrow> mem \<Rightarrow> (u64 \<times> mem) res" where
  "am_timer_uptime cfg t m = bind_res (inl cfg (RTC_ADDR + 4) m) (\<lambda>(rtc_hi, m).
     bind_res (inl cfg RTC_ADDR (pass_time t m)) (\<lambda>(rtc_lo, m).
     Inr (push_bit 32 (ucast rtc_hi) OR ucast rtc_lo, m)))"

record am_rtc =
  rtc_year :: u32
  rtc_month :: u32
  rtc_day :: u32
  rtc_hour :: u32
  rtc_minute :: u32
  rtc_second :: u32

definition am_timer_rtc :: am_rtc where
  "am_timer_rtc = \<lparr>rtc_year = 1900, rtc_month = 0, rtc_day = 0, rtc_hour = 0, rtc_minute = 0, rtc_second = 0\<rparr>"

definition AM_KEYDOWN_MASK :: u32 where
  "AM_KEYDOWN_MASK = 0x8000"

text \<open>The state of the key and its code.\<close>

definition am_input_keybrd :: "config \<Rightarrow> mem \<Rightarrow> ((bool \<times> u32) \<times> mem) res" where
  "am_input_keybrd cfg m = bind_res (inl cfg KBD_ADDR m) (\<lambda>(key, m).
     Inr ((key AND AM_KEYDOWN_MASK \<noteq> 0, key AND NOT AM_KEYDOWN_MASK), m))"

section \<open>Screen\<close>

definition SYNC_ADDR :: u32 where
  "SYNC_ADDR = VGACTL_ADDR + 4"

record am_gpu_config =
  gpu_present :: bool
  has_accel :: bool
  gpu_width :: u32
  gpu_height :: u32
  vmemsz :: u32

definition am_gpu_config :: "config \<Rightarrow> mem \<Rightarrow> (am_gpu_config \<times> mem) res" where
  "am_gpu_config cfg m = bind_res (inw cfg (VGACTL_ADDR + 2) m) (\<lambda>(w, m).
     bind_res (inw cfg VGACTL_ADDR m) (\<lambda>(h, m).
     Inr (\<lparr>gpu_present = True, has_accel = False, gpu_width = ucast w, gpu_height = ucast h, vmemsz = 0\<rparr>, m)))"

text \<open>Loops that count up from 0: \<open>for_upto f i n\<close> runs \<open>f i\<close>, \<open>f (i + 1)\<close> up to \<open>f (i + n - 1)\<close>.\<close>

fun for_upto :: "(nat \<Rightarrow> 's \<Rightarrow> 's res) \<Rightarrow> nat \<Rightarrow> nat \<Rightarrow> 's \<Rightarrow> 's res" where
  "for_upto f i 0 s = Inr s"
| "for_upto f i (Suc n) s = bind_res (f i s) (for_upto f (Suc i) n)"

definition am_gpu_init :: "config \<Rightarrow> mem \<Rightarrow> mem res" where
  "am_gpu_init cfg m = bind_res (am_gpu_config cfg m) (\<lambda>(gc, m).
     bind_res (for_upto (\<lambda>i. vaddr_write cfg (FB_ADDR + 4 * of_nat i) 4 (of_nat i)) 0 (nat (sint (gpu_width gc * gpu_height gc))) m)
     (outl cfg SYNC_ADDR 1))"

record am_fbdraw =
  fb_x :: u32
  fb_y :: u32
  pixels :: u32
  fb_w :: u32
  fb_h :: u32
  fb_sync :: bool

text \<open>Coordinates are \<open>int\<close>, whose overflow is not modelled: indices are computed in 32 bits.\<close>

definition draw_pixel :: "config \<Rightarrow> u32 \<Rightarrow> am_fbdraw \<Rightarrow> nat \<Rightarrow> nat \<Rightarrow> mem \<Rightarrow> mem res" where
  "draw_pixel cfg width ctl y x m =
     bind_res (vaddr_read cfg (pixels ctl + 4 * (of_nat y * fb_w ctl + of_nat x)) 4 m) (\<lambda>(p, m).
     vaddr_write cfg (FB_ADDR + 4 * ((fb_y ctl + of_nat y) * width + fb_x ctl + of_nat x)) 4 p m)"

definition am_gpu_fbdraw :: "config \<Rightarrow> am_fbdraw \<Rightarrow> mem \<Rightarrow> mem res" where
  "am_gpu_fbdraw cfg ctl m = bind_res (inw cfg (VGACTL_ADDR + 2) m) (\<lambda>(w, m).
     bind_res (for_upto (\<lambda>y. for_upto (draw_pixel cfg (ucast w) ctl y) 0 (nat (sint (fb_w ctl)))) 0 (nat (sint (fb_h ctl))) m) (\<lambda>m.
     if fb_sync ctl then outl cfg SYNC_ADDR 1 m else Inr m))"

section \<open>Audio\<close>

definition AUDIO_FREQ_ADDR :: u32 where "AUDIO_FREQ_ADDR = AUDIO_ADDR"
definition AUDIO_CHANNELS_ADDR :: u32 where "AUDIO_CHANNELS_ADDR = AUDIO_ADDR + 4"
definition AUDIO_SAMPLES_ADDR :: u32 where "AUDIO_SAMPLES_ADDR = AUDIO_ADDR + 8"
definition AUDIO_SBUF_SIZE_ADDR :: u32 where "AUDIO_SBUF_SIZE_ADDR = AUDIO_ADDR + 0xc"
definition AUDIO_INIT_ADDR :: u32 where "AUDIO_INIT_ADDR = AUDIO_ADDR + 0x10"
definition AUDIO_COUNT_ADDR :: u32 where "AUDIO_COUNT_ADDR = AUDIO_ADDR + 0x14"
definition AUDIO_WPTR_ADDR :: u32 where "AUDIO_WPTR_ADDR = AUDIO_ADDR + 0x18"

lemmas am_audio_addrs = AUDIO_FREQ_ADDR_def AUDIO_CHANNELS_ADDR_def AUDIO_SAMPLES_ADDR_def AUDIO_SBUF_SIZE_ADDR_def
  AUDIO_INIT_ADDR_def AUDIO_COUNT_ADDR_def AUDIO_WPTR_ADDR_def

definition am_audio_config :: "config \<Rightarrow> mem \<Rightarrow> ((bool \<times> u32) \<times> mem) res" where
  "am_audio_config cfg m = bind_res (inl cfg AUDIO_SBUF_SIZE_ADDR m) (\<lambda>(n, m). Inr ((True, n), m))"

definition am_audio_ctrl :: "config \<Rightarrow> u32 \<Rightarrow> u32 \<Rightarrow> u32 \<Rightarrow> mem \<Rightarrow> mem res" where
  "am_audio_ctrl cfg freq channels samples m = bind_res (outl cfg AUDIO_FREQ_ADDR freq m) (\<lambda>m.
     bind_res (outl cfg AUDIO_CHANNELS_ADDR channels m) (\<lambda>m.
     bind_res (outl cfg AUDIO_SAMPLES_ADDR samples m) (\<lambda>m.
     outl cfg AUDIO_INIT_ADDR 1 m)))"

definition am_audio_status :: "config \<Rightarrow> mem \<Rightarrow> (u32 \<times> mem) res" where
  "am_audio_status cfg m = inl cfg AUDIO_COUNT_ADDR m"

text \<open>While the driver waits, the host's audio thread takes bytes out of the buffer.  The lengths it asks for are a list,
  one for each round; when they run out the wait goes on for ever, which is \<open>None\<close>.\<close>

fun audio_wait :: "config \<Rightarrow> u32 \<Rightarrow> u32 \<Rightarrow> u32 list \<Rightarrow> mem \<Rightarrow> mem res option" where
  "audio_wait cfg sbuf_size len cbs m = (case inl cfg AUDIO_COUNT_ADDR m of
     Inl err \<Rightarrow> Some (Inl err)
   | Inr (count, m) \<Rightarrow> let freespace = sbuf_size - count in
       if freespace \<ge> len then Some (Inr m)
       else (case cbs of
         [] \<Rightarrow> None
       | n # cbs \<Rightarrow> (case sdl_audio_callback n (devs m) of
           Inl err \<Rightarrow> Some (Inl err)
         | Inr (_, d) \<Rightarrow> audio_wait cfg sbuf_size len cbs (m\<lparr>devs := d\<rparr>))))"

definition copy_byte :: "config \<Rightarrow> u32 \<Rightarrow> u32 \<Rightarrow> nat \<Rightarrow> mem \<Rightarrow> mem res" where
  "copy_byte cfg dst src i m = bind_res (inb cfg (src + of_nat i) m) (\<lambda>(b, m). outb cfg (dst + of_nat i) b m)"

definition audio_put :: "config \<Rightarrow> u32 \<Rightarrow> u32 \<Rightarrow> u32 \<Rightarrow> mem \<Rightarrow> mem res" where
  "audio_put cfg sbuf_size src len m =
     bind_res (inl cfg AUDIO_WPTR_ADDR m) (\<lambda>(wptr, m). let first_chunk = sbuf_size - wptr in
     bind_res
       (if len \<le> first_chunk then for_upto (copy_byte cfg (AUDIO_SBUF_ADDR + wptr) src) 0 (nat (sint len)) m
        else bind_res (for_upto (copy_byte cfg (AUDIO_SBUF_ADDR + wptr) src) 0 (unat first_chunk) m)
          (for_upto (copy_byte cfg AUDIO_SBUF_ADDR (src + first_chunk)) 0 (unat (len - first_chunk)))) (\<lambda>m.
     if sbuf_size = 0 then Inl (Undefined ''modulo by zero'')
     else outl cfg AUDIO_WPTR_ADDR ((wptr + len) mod sbuf_size) m))"

definition am_audio_play :: "config \<Rightarrow> u32 list \<Rightarrow> u32 \<Rightarrow> u32 \<Rightarrow> mem \<Rightarrow> mem res option" where
  "am_audio_play cfg cbs buf_start buf_end m = (let len = buf_end - buf_start in
     case inl cfg AUDIO_SBUF_SIZE_ADDR m of
       Inl err \<Rightarrow> Some (Inl err)
     | Inr (sbuf_size, m) \<Rightarrow> map_option (\<lambda>r. bind_res r (audio_put cfg sbuf_size buf_start len)) (audio_wait cfg sbuf_size len cbs m))"

section \<open>Dispatch (ioe.c)\<close>

datatype am_reg = AM_UART_CONFIG | AM_UART_RX | AM_TIMER_CONFIG | AM_TIMER_RTC | AM_TIMER_UPTIME | AM_INPUT_CONFIG | AM_INPUT_KEYBRD
  | AM_GPU_CONFIG | AM_GPU_STATUS | AM_GPU_FBDRAW | AM_AUDIO_CONFIG | AM_AUDIO_CTRL | AM_AUDIO_STATUS | AM_AUDIO_PLAY
  | AM_DISK_CONFIG | AM_DISK_STATUS | AM_DISK_BLKIO | AM_NET_CONFIG

text \<open>The buffer of a request, by its type.  A \<open>disk\<close> request leaves its buffer alone.\<close>

datatype am_buf = Buf_present bool | Buf_timer_config bool bool | Buf_rtc am_rtc | Buf_us u64 | Buf_key bool u32 | Buf_char u8
  | Buf_gpu_config am_gpu_config | Buf_ready bool | Buf_fbdraw am_fbdraw | Buf_audio_config bool u32 | Buf_audio_ctrl u32 u32 u32
  | Buf_count u32 | Buf_area u32 u32 | Buf_other

definition lut :: "(nat \<times> am_reg) list" where
  "lut = [(4, AM_TIMER_CONFIG), (5, AM_TIMER_RTC), (6, AM_TIMER_UPTIME), (7, AM_INPUT_CONFIG), (8, AM_INPUT_KEYBRD), (9, AM_GPU_CONFIG),
     (11, AM_GPU_FBDRAW), (10, AM_GPU_STATUS), (1, AM_UART_CONFIG), (3, AM_UART_RX), (14, AM_AUDIO_CONFIG), (15, AM_AUDIO_CTRL),
     (16, AM_AUDIO_STATUS), (17, AM_AUDIO_PLAY), (18, AM_DISK_CONFIG), (19, AM_DISK_STATUS), (20, AM_DISK_BLKIO), (21, AM_NET_CONFIG)]"

definition give :: "('a \<Rightarrow> am_buf) \<Rightarrow> ('a \<times> mem) res \<Rightarrow> (am_buf \<times> mem) res option" where
  "give f r = Some (bind_res r (\<lambda>(v, m). Inr (f v, m)))"

definition take_from :: "am_buf \<Rightarrow> mem res \<Rightarrow> (am_buf \<times> mem) res option" where
  "take_from buf r = Some (bind_res r (\<lambda>m. Inr (buf, m)))"

text \<open>A handler called with a buffer of another type reads it as its own.\<close>

definition wrong_type :: "(am_buf \<times> mem) res option" where
  "wrong_type = Some (Inl (Undefined ''buffer of another type''))"

definition ioe_call :: "config \<Rightarrow> u64 \<Rightarrow> u32 list \<Rightarrow> am_reg \<Rightarrow> am_buf \<Rightarrow> mem \<Rightarrow> (am_buf \<times> mem) res option" where
  "ioe_call cfg t cbs reg buf m = (case reg of
     AM_TIMER_CONFIG \<Rightarrow> Some (Inr (Buf_timer_config True True, m))
   | AM_TIMER_RTC \<Rightarrow> Some (Inr (Buf_rtc am_timer_rtc, m))
   | AM_TIMER_UPTIME \<Rightarrow> give Buf_us (am_timer_uptime cfg t m)
   | AM_INPUT_CONFIG \<Rightarrow> Some (Inr (Buf_present True, m))
   | AM_INPUT_KEYBRD \<Rightarrow> give (\<lambda>(down, code). Buf_key down code) (am_input_keybrd cfg m)
   | AM_GPU_CONFIG \<Rightarrow> give Buf_gpu_config (am_gpu_config cfg m)
   | AM_GPU_STATUS \<Rightarrow> Some (Inr (Buf_ready True, m))
   | AM_GPU_FBDRAW \<Rightarrow> (case buf of Buf_fbdraw ctl \<Rightarrow> take_from buf (am_gpu_fbdraw cfg ctl m) | _ \<Rightarrow> wrong_type)
   | AM_UART_CONFIG \<Rightarrow> Some (Inr (Buf_present False, m))
   | AM_UART_RX \<Rightarrow> give Buf_char (am_uart_rx cfg m)
   | AM_AUDIO_CONFIG \<Rightarrow> give (\<lambda>(p, n). Buf_audio_config p n) (am_audio_config cfg m)
   | AM_AUDIO_CTRL \<Rightarrow> (case buf of Buf_audio_ctrl f c s \<Rightarrow> take_from buf (am_audio_ctrl cfg f c s m) | _ \<Rightarrow> wrong_type)
   | AM_AUDIO_STATUS \<Rightarrow> give Buf_count (am_audio_status cfg m)
   | AM_AUDIO_PLAY \<Rightarrow> (case buf of
       Buf_area a b \<Rightarrow> map_option (\<lambda>r. bind_res r (\<lambda>m. Inr (buf, m))) (am_audio_play cfg cbs a b m) | _ \<Rightarrow> wrong_type)
   | AM_DISK_CONFIG \<Rightarrow> Some (Inr (Buf_present False, m))
   | AM_DISK_STATUS \<Rightarrow> Some (Inr (buf, m))
   | AM_DISK_BLKIO \<Rightarrow> Some (Inr (buf, m))
   | AM_NET_CONFIG \<Rightarrow> Some (Inr (Buf_present False, m)))"

text \<open>\<open>ioe_read\<close> and \<open>ioe_write\<close> are the same function; every other register of the table fails.\<close>

definition ioe_access :: "config \<Rightarrow> u64 \<Rightarrow> u32 list \<Rightarrow> int \<Rightarrow> am_buf \<Rightarrow> mem \<Rightarrow> (am_buf \<times> mem) res option" where
  "ioe_access cfg t cbs reg buf m =
     (if reg < 0 \<or> reg \<ge> 128 then Some (Inl (Undefined ''lut[reg]''))
      else case map_of lut (nat reg) of
        None \<Rightarrow> Some (Inl (Panic ''access nonexist register''))
      | Some r \<Rightarrow> ioe_call cfg t cbs r buf m)"

definition ioe_init :: "config \<Rightarrow> mem \<Rightarrow> (bool \<times> mem) res" where
  "ioe_init cfg m = bind_res (am_gpu_init cfg m) (\<lambda>m. Inr (True, m))"

end
