(* ===== verification/Sdb.thy ===== *)
theory Sdb
  imports Cpu
begin

text \<open>
  The debugger's command loop (\<open>nemu/src/monitor/sdb/sdb.c\<close>).

  The lines the user types are a list, whose end is the end of the input; \<open>readline\<close> starts every line at the end
  of the history, so that \<open>previous_history\<close> is the entry added last.  A handler returns the state and whether the
  loop goes on; arguments are \<open>None\<close> for a null pointer.
\<close>

section \<open>State\<close>

record 'r sdb =
  emu :: "'r emu"
  is_batch_mode :: bool
  history :: "string list"

abbreviation on_emu :: "('r emu \<Rightarrow> 'r emu) \<Rightarrow> 'r sdb \<Rightarrow> 'r sdb" where
  "on_emu f d \<equiv> d\<lparr>emu := f (emu d)\<rparr>"

definition say :: "log_line \<Rightarrow> 'r sdb \<Rightarrow> 'r sdb" where
  "say l d = d\<lparr>emu := print_line l (emu d)\<rparr>"

section \<open>Input\<close>

definition add_history :: "string \<Rightarrow> 'r sdb \<Rightarrow> 'r sdb" where
  "add_history s d = d\<lparr>history := history d @ [s]\<rparr>"

definition previous_history :: "'r sdb \<Rightarrow> string option" where
  "previous_history d = (if history d = [] then None else Some (last (history d)))"

definition rl_gets :: "string \<Rightarrow> 'r sdb \<Rightarrow> string \<times> 'r sdb" where
  "rl_gets line d =
     (if line \<noteq> [] then (line, add_history line d)
      else case previous_history d of None \<Rightarrow> (line, d) | Some prev \<Rightarrow> (prev, d))"

section \<open>Commands\<close>

definition continue :: "'r sdb \<Rightarrow> ('r sdb \<times> bool) res" where
  "continue d = Inr (d, True)"

definition run_cpu :: "config \<Rightarrow> 'r host \<Rightarrow> u64 \<Rightarrow> 'r sdb \<Rightarrow> ('r sdb \<times> bool) res" where
  "run_cpu cfg h n d = bind_res (cpu_exec cfg h n (emu d)) (\<lambda>e. continue (d\<lparr>emu := e\<rparr>))"

definition cmd_c :: "config \<Rightarrow> 'r host \<Rightarrow> string option \<Rightarrow> 'r sdb \<Rightarrow> ('r sdb \<times> bool) res" where
  "cmd_c cfg h args d = run_cpu cfg h (- 1) d"

definition cmd_q :: "string option \<Rightarrow> 'r sdb \<Rightarrow> ('r sdb \<times> bool) res" where
  "cmd_q args d = Inr (on_emu (\<lambda>e. set_core ((core e)\<lparr>nstate := NEMU_QUIT\<rparr>) e) d, False)"

definition cmd_si :: "config \<Rightarrow> 'r host \<Rightarrow> string option \<Rightarrow> 'r sdb \<Rightarrow> ('r sdb \<times> bool) res" where
  "cmd_si cfg h args d = (case args of
     None \<Rightarrow> run_cpu cfg h 1 d
   | Some s \<Rightarrow> (case strtol 10 s of
       None \<Rightarrow> continue (say (Msg ''si: Expected a number.'') d)
     | Some (n, _) \<Rightarrow> run_cpu cfg h (word_of_int n) d))"

definition bp_lines :: "'r emu \<Rightarrow> (BP \<times> (string \<times> u32) option) list" where
  "bp_lines e = map (\<lambda>b. (b, ftrace_search (ftrace_syms e) (bp_addr b))) (bp_display (bps e))"

definition cmd_info :: "string option \<Rightarrow> 'r sdb \<Rightarrow> ('r sdb \<times> bool) res" where
  "cmd_info args d = (case args of
     None \<Rightarrow> Inl (Undefined ''strcmp of a null pointer'')
   | Some s \<Rightarrow> continue (
       if s = ''r'' then say (Regs (cpu (core (emu d)))) d
       else if s = ''w'' then say (Wp_list (wp_display (wps (emu d)))) d
       else if s = ''b'' then say (Bp_list (bp_lines (emu d))) d
       else say (Msg (''info: Unknown subcommand '' @ s)) d))"

text \<open>The loop counter is a \<open>word_t\<close> and would wrap with a count of \<open>2 ^ 32\<close> or more; the walk has passed every
  address by then, an unmapped one among them, where \<open>vaddr_read\<close> panics.\<close>

fun x_loop :: "config \<Rightarrow> nat \<Rightarrow> u32 \<Rightarrow> u32 \<Rightarrow> 'r sdb \<Rightarrow> 'r sdb res" where
  "x_loop cfg 0 i res d = Inr d"
| "x_loop cfg (Suc n) i res d = bind_res (vaddr_read cfg (res + i * 4) 4 (memory (core (emu d)))) (\<lambda>(v, m).
     x_loop cfg n (i + 1) res
       (say (Mem_word (res + i * 4) v) (on_emu (\<lambda>e. set_core ((core e)\<lparr>memory := m\<rparr>) e) d)))"

definition sdb_expr :: "config \<Rightarrow> string \<Rightarrow> 'r sdb \<Rightarrow> (u32 option \<times> 'r sdb) res" where
  "sdb_expr cfg s d = bind_res (expr cfg s (core (emu d))) (\<lambda>(v, st). Inr (v, on_emu (set_core st) d))"

definition cmd_x :: "config \<Rightarrow> string option \<Rightarrow> 'r sdb \<Rightarrow> ('r sdb \<times> bool) res" where
  "cmd_x cfg args d = (case args of
     None \<Rightarrow> continue (say (Msg ''x: Expected two arguments.'') d)
   | Some s \<Rightarrow> (case strtol 10 s of
       None \<Rightarrow> continue (say (Msg ''x: Expected a number.'') d)
     | Some (n, endptr) \<Rightarrow> bind_res (sdb_expr cfg endptr d) (\<lambda>(v, d). case v of
         None \<Rightarrow> continue (say (Msg ''x: Failed to evaluate expression.'') d)
       | Some res \<Rightarrow> bind_res (x_loop cfg (unat (word_of_int n :: u64)) 0 res d) continue)))"

definition cmd_p :: "config \<Rightarrow> string option \<Rightarrow> 'r sdb \<Rightarrow> ('r sdb \<times> bool) res" where
  "cmd_p cfg args d = (case args of
     None \<Rightarrow> continue (say (Msg ''p: Expected an expression.'') d)
   | Some s \<Rightarrow> bind_res (sdb_expr cfg s d) (\<lambda>(v, d). continue (case v of
       None \<Rightarrow> say (Msg ''p: Failed to evaluate expression.'') d
     | Some res \<Rightarrow> say (Val res) d)))"

definition cmd_w :: "config \<Rightarrow> string option \<Rightarrow> 'r sdb \<Rightarrow> ('r sdb \<times> bool) res" where
  "cmd_w cfg args d = (case args of
     None \<Rightarrow> continue (say (Msg ''w: Expected an expression.'') d)
   | Some s \<Rightarrow> bind_res (wp_create cfg s (wps (emu d)) (core (emu d))) (\<lambda>(P, st).
       continue (on_emu (\<lambda>e. e\<lparr>wps := P, core := st\<rparr>) d)))"

definition cmd_d :: "string option \<Rightarrow> 'r sdb \<Rightarrow> ('r sdb \<times> bool) res" where
  "cmd_d args d = (case args of
     None \<Rightarrow> continue (say (Msg ''d: Expected an index.'') d)
   | Some s \<Rightarrow> (case strtol 10 s of
       None \<Rightarrow> continue (say (Msg ''d: Expected a number.'') d)
     | Some (v, _) \<Rightarrow> let n = sint (word_of_int v :: u32) in
         if n \<ge> 0 \<and> n < int NR_WP then
           bind_res (wp_delete (nat n) (wps (emu d))) (\<lambda>P. continue (on_emu (\<lambda>e. e\<lparr>wps := P\<rparr>) d))
         else if n \<ge> int NR_WP \<and> n < int NR_WP + int NR_BP then
           bind_res (bp_delete (nat n) (bps (emu d))) (\<lambda>P. continue (on_emu (\<lambda>e. e\<lparr>bps := P\<rparr>) d))
         else continue (say (Msg ''d: Invalid watchpoint/breakpoint index.'') d)))"

definition set_breakpoint :: "u32 \<Rightarrow> 'r sdb \<Rightarrow> ('r sdb \<times> bool) res" where
  "set_breakpoint addr d = bind_res (bp_create addr (bps (emu d)) (core (emu d))) (\<lambda>(P, st).
     continue (on_emu (\<lambda>e. e\<lparr>bps := P, core := st\<rparr>) d))"

definition cmd_b :: "string option \<Rightarrow> 'r sdb \<Rightarrow> ('r sdb \<times> bool) res" where
  "cmd_b args d = (case args of
     None \<Rightarrow> continue (say (Msg ''b: Expected an address/function.'') d)
   | Some s \<Rightarrow> (case strtol 16 s of
       None \<Rightarrow> let addr = ftrace_get_address_of (ftrace_syms (emu d)) s in
         if addr = 0 then continue (say (Msg (''b: Failed to find function '' @ s)) d) else set_breakpoint addr d
     | Some (given_addr, _) \<Rightarrow> set_breakpoint (word_of_int given_addr) d))"

datatype cmd = CMD_help | CMD_c | CMD_q | CMD_si | CMD_info | CMD_x | CMD_p | CMD_w | CMD_b | CMD_d | CMD_l

definition cmd_table :: "(string \<times> string \<times> cmd) list" where
  "cmd_table = [
     (''help'', ''Display information about all supported commands'', CMD_help),
     (''c'', ''Continue the execution of the program'', CMD_c),
     (''q'', ''Exit NEMU'', CMD_q),
     (''si'', ''Execute N instructions one by one and then pause. If N is omitted, the default is 1.'', CMD_si),
     (''info'', ''Print register status(r) or watchpoint information(w).'', CMD_info),
     (''x'', ''Display N consecutive 4-byte words in hexadecimal at given address.'', CMD_x),
     (''p'', ''Evaluate the expression.'', CMD_p),
     (''w'', ''Pause execution when the value of the expression changes.'', CMD_w),
     (''b'', ''Set a breakpoint at the given address/function.'', CMD_b),
     (''d'', ''Delete the watchpoint/breakpoint with index N.'', CMD_d),
     (''l'', '''', CMD_l)]"

text \<open>\<open>cmd_help\<close> takes the next token of the line.  The entry \<open>l\<close> of the table has an empty description and no handler.\<close>

definition help_line :: "string \<Rightarrow> string \<Rightarrow> string" where
  "help_line nm desc = nm @ '' - '' @ desc"

definition pad_name :: "string \<Rightarrow> string" where
  "pad_name nm = nm @ replicate (4 - length nm) (CHR '' '')"

definition cmd_help :: "string option \<Rightarrow> 'r sdb \<Rightarrow> ('r sdb \<times> bool) res" where
  "cmd_help args d = (case Option.bind args strtok of
     None \<Rightarrow> continue (fold (\<lambda>(nm, desc, c). say (Msg (help_line (pad_name nm) desc))) cmd_table d)
   | Some (arg, _) \<Rightarrow> (case map_of (map (\<lambda>(nm, desc, c). (nm, desc)) cmd_table) arg of
       Some desc \<Rightarrow> continue (say (Msg (help_line arg desc)) d)
     | None \<Rightarrow> continue (say (Msg (''Unknown command '' @ arg)) d)))"

definition handler :: "config \<Rightarrow> 'r host \<Rightarrow> cmd \<Rightarrow> string option \<Rightarrow> 'r sdb \<Rightarrow> ('r sdb \<times> bool) res" where
  "handler cfg h c args d = (case c of
     CMD_help \<Rightarrow> cmd_help args d | CMD_c \<Rightarrow> cmd_c cfg h args d | CMD_q \<Rightarrow> cmd_q args d | CMD_si \<Rightarrow> cmd_si cfg h args d
   | CMD_info \<Rightarrow> cmd_info args d | CMD_x \<Rightarrow> cmd_x cfg args d | CMD_p \<Rightarrow> cmd_p cfg args d | CMD_w \<Rightarrow> cmd_w cfg args d
   | CMD_b \<Rightarrow> cmd_b args d | CMD_d \<Rightarrow> cmd_d args d | CMD_l \<Rightarrow> Inl (Undefined ''call of a null handler''))"

definition find_cmd :: "string \<Rightarrow> cmd option" where
  "find_cmd s = map_of (map (\<lambda>(nm, desc, c). (nm, c)) cmd_table) s"

definition exec_line :: "config \<Rightarrow> 'r host \<Rightarrow> string \<Rightarrow> 'r sdb \<Rightarrow> ('r sdb \<times> bool) res" where
  "exec_line cfg h str d = (case strtok str of
     None \<Rightarrow> continue d
   | Some (cmd, rest) \<Rightarrow> let args = (if rest = [] then None else Some rest) in
       (case find_cmd cmd of
          Some c \<Rightarrow> handler cfg h c args d
        | None \<Rightarrow> continue (say (Msg (''Unknown command '' @ cmd)) d)))"

fun sdb_lines :: "config \<Rightarrow> 'r host \<Rightarrow> string list \<Rightarrow> 'r sdb \<Rightarrow> 'r sdb res" where
  "sdb_lines cfg h [] d = Inr d"
| "sdb_lines cfg h (line # lines) d = (case rl_gets line d of (str, d) \<Rightarrow>
     bind_res (exec_line cfg h str d) (\<lambda>(d, go_on). if go_on then sdb_lines cfg h lines d else Inr d))"

definition sdb_set_batch_mode :: "'r sdb \<Rightarrow> 'r sdb" where
  "sdb_set_batch_mode d = d\<lparr>is_batch_mode := True\<rparr>"

definition sdb_mainloop :: "config \<Rightarrow> 'r host \<Rightarrow> string list \<Rightarrow> 'r sdb \<Rightarrow> 'r sdb res" where
  "sdb_mainloop cfg h lines d =
     (if is_batch_mode d then bind_res (cmd_c cfg h None d) (\<lambda>(d, _). Inr d) else sdb_lines cfg h lines d)"

definition init_sdb :: "'r sdb \<Rightarrow> 'r sdb" where
  "init_sdb d = on_emu (\<lambda>e. e\<lparr>wps := init_wp_pool, bps := init_bp_pool\<rparr>) d"

end
