(* ===== verification/Monitor.thy ===== *)
theory Monitor
  imports Sdb
begin

text \<open>
  The monitor (\<open>nemu/src/monitor/monitor.c\<close>, \<open>utils/log.c\<close>) and \<open>main\<close> (\<open>nemu-main.c\<close>) of a native build: command
  line, image loading, the order of initialisation, and the exit status.

  What \<open>getopt_long\<close> returns is a list of options.  The record \<open>world\<close> holds the files of the host, whether a file
  can be written and a shared object can be loaded, and the values host libraries provide at start-up.
\<close>

section \<open>Arguments\<close>

datatype opt = Opt_b | Opt_p string | Opt_l string | Opt_d string | Opt_e string | Opt_image string | Opt_other

record cmdline =
  log_file :: "string option"
  diff_so_file :: "string option"
  img_file :: "string option"
  elf_file :: "string option"
  difftest_port :: int
  batch :: bool

definition no_args :: cmdline where
  "no_args = \<lparr>log_file = None, diff_so_file = None, img_file = None, elf_file = None, difftest_port = 1234, batch = False\<rparr>"

text \<open>\<open>None\<close> is the exit with the usage message.  \<open>sscanf\<close> leaves the port alone when it finds no number.\<close>

fun parse_args :: "opt list \<Rightarrow> cmdline \<Rightarrow> cmdline option" where
  "parse_args [] a = Some a"
| "parse_args (Opt_b # os) a = parse_args os (a\<lparr>batch := True\<rparr>)"
| "parse_args (Opt_p s # os) a = parse_args os
     (case strtol 10 s of None \<Rightarrow> a | Some (v, _) \<Rightarrow> a\<lparr>difftest_port := sint (word_of_int v :: u32)\<rparr>)"
| "parse_args (Opt_l s # os) a = parse_args os (a\<lparr>log_file := Some s\<rparr>)"
| "parse_args (Opt_d s # os) a = parse_args os (a\<lparr>diff_so_file := Some s\<rparr>)"
| "parse_args (Opt_e s # os) a = parse_args os (a\<lparr>elf_file := Some s\<rparr>)"
| "parse_args (Opt_image s # os) a = Some (a\<lparr>img_file := Some s\<rparr>)"
| "parse_args (Opt_other # os) a = None"

section \<open>Initialisation\<close>

record world =
  files :: "string \<Rightarrow> u8 list option"
  writable :: "string \<Rightarrow> bool"
  loadable :: "string \<Rightarrow> bool"
  mem_random :: "u8 option"
  sdl_keys :: "string \<Rightarrow> u8"
  sdcard_img :: "u8 list option"
  capstone :: bool

definition init_log :: "world \<Rightarrow> string option \<Rightarrow> 'a \<Rightarrow> 'a res" where
  "init_log w file x = (case file of None \<Rightarrow> Inr x | Some f \<Rightarrow> assert_res ''Can not open'' (writable w f) (Inr x))"

text \<open>\<open>fread\<close> reads the image as one element, so that it returns 0 for an empty file; its size is not checked against
  the memory.\<close>

definition load_img :: "config \<Rightarrow> world \<Rightarrow> string option \<Rightarrow> mem \<Rightarrow> (nat \<times> mem) res" where
  "load_img cfg w file m = (case file of
     None \<Rightarrow> Inr (4096, m)
   | Some f \<Rightarrow> (case files w f of
       None \<Rightarrow> Inl (Assert_fail ''Can not open'')
     | Some bs \<Rightarrow> let p = guest_to_host cfg (RESET_VECTOR cfg) in
         assert_res ''ret == 1'' (bs \<noteq> [])
           (if p + length bs > unat (CONFIG_MSIZE cfg) then Inl (Undefined ''image larger than memory'')
            else Inr (length bs, m\<lparr>pmem := store_bytes (pmem m) p bs\<rparr>))))"

text \<open>The static state at program start.\<close>

definition start_sdb :: "'r \<Rightarrow> 'r sdb" where
  "start_sdb r = \<lparr>emu = \<lparr>core = nemu_boot,
       wps = \<lparr>nexts = [], nodes = [], head = None, freelist = None\<rparr>, bps = \<lparr>nexts = [], nodes = [], head = None, freelist = None\<rparr>,
       g_nr_guest_inst = 0, g_timer = 0, g_print_step = False, g_iringbuf = \<lparr>rb_buf = (\<lambda>_. []), rptr = 0, wptr = 0\<rparr>,
       ftrace_syms = [], log_fp = [], out = [], refst = r\<rparr>, is_batch_mode = False, history = []\<rparr>"

definition init_ftrace_file :: "world \<Rightarrow> string option \<Rightarrow> 'r emu \<Rightarrow> 'r emu res" where
  "init_ftrace_file w f e = bind_res (init_ftrace (map_option (files w) f) (ftrace_syms e)) (\<lambda>tab. Inr (e\<lparr>ftrace_syms := tab\<rparr>))"

definition init_monitor :: "config \<Rightarrow> 'r host \<Rightarrow> world \<Rightarrow> cmdline \<Rightarrow> 'r sdb \<Rightarrow> 'r sdb res" where
  "init_monitor cfg h w a d = (let d = (if batch a then sdb_set_batch_mode d else d) in
     bind_res (init_log w (log_file a) (emu d)) (\<lambda>e.
     let e = set_core ((core e)\<lparr>memory := init_mem cfg (mem_random w) (memory (core e))\<rparr>) e in
     bind_res (when_res (CONFIG_DEVICE cfg) (init_device cfg (sdl_keys w) (sdcard_img w)) (dut_devs e)) (\<lambda>dv.
     let e = set_devs (\<lambda>_. dv) e; e = set_core (init_isa cfg (core e)) e in
     bind_res (load_img cfg w (img_file a) (memory (core e))) (\<lambda>(img_size, m).
     let e = set_core ((core e)\<lparr>memory := m\<rparr>) e in
     bind_res (when_res (CONFIG_DIFFTEST cfg)
       (init_difftest cfg h (case diff_so_file a of None \<Rightarrow> False | Some f \<Rightarrow> loadable w f) img_size (difftest_port a)) e) (\<lambda>e.
     let d = init_sdb (d\<lparr>emu := e\<rparr>) in
     bind_res (when_res (CONFIG_FTRACE cfg) (init_ftrace_file w (elf_file a)) (emu d)) (\<lambda>e.
     bind_res (when_res (CONFIG_ITRACE cfg) (\<lambda>e. assert_res ''dl_handle'' (capstone w) (Inr e)) e) (\<lambda>e.
     Inr (d\<lparr>emu := e\<rparr>))))))))"

definition engine_start :: "config \<Rightarrow> 'r host \<Rightarrow> string list \<Rightarrow> 'r sdb \<Rightarrow> 'r sdb res" where
  "engine_start cfg h lines d = sdb_mainloop cfg h lines d"

text \<open>The exit status; the usage message ends the program with 0.\<close>

definition nemu_main :: "config \<Rightarrow> 'r host \<Rightarrow> world \<Rightarrow> opt list \<Rightarrow> string list \<Rightarrow> 'r \<Rightarrow> nat res" where
  "nemu_main cfg h w opts lines r = (case parse_args opts no_args of
     None \<Rightarrow> Inr 0
   | Some a \<Rightarrow> bind_res (init_monitor cfg h w a (start_sdb r)) (\<lambda>d.
       bind_res (engine_start cfg h lines d) (\<lambda>d. Inr (if is_exit_status_bad (core (emu d)) then 1 else 0))))"

end
