(* ===== verification/Cpu_Proofs.thy ===== *)
theory Cpu_Proofs
  imports Boot
begin

text \<open>
  The execution loop: the instruction ring buffer, the run-state machine, splitting a run, the built-in image,
  differential testing and the streams of the trace simulation.
\<close>

section \<open>The instruction ring buffer\<close>

definition rb_inv :: "ringbuf_t \<Rightarrow> bool" where
  "rb_inv rb \<longleftrightarrow> rptr rb < IRINGBUF_SZ \<and> wptr rb < IRINGBUF_SZ"

definition rb_cont :: "ringbuf_t \<Rightarrow> string list" where
  "rb_cont rb = ring IRINGBUF_SZ (rb_buf rb) (rptr rb) (wptr rb)"

definition rb_empty :: ringbuf_t where
  "rb_empty = \<lparr>rb_buf = (\<lambda>_. []), rptr = 0, wptr = 0\<rparr>"

lemma rb_put_inv: "rb_inv rb \<Longrightarrow> rb_inv (ringbuf_put x rb)"
  by (auto simp: rb_inv_def ringbuf_put_def Let_def IRINGBUF_SZ_def)

definition last_n :: "nat \<Rightarrow> 'a list \<Rightarrow> 'a list" where
  "last_n n xs = drop (length xs - n) xs"

lemma rb_put_cont:
  assumes inv: "rb_inv rb"
  shows "rb_cont (ringbuf_put x rb) = last_n 15 (rb_cont rb @ [x])"
proof (cases "(wptr rb + 1) mod IRINGBUF_SZ = rptr rb")
  case False
  have "ring IRINGBUF_SZ ((rb_buf rb)(wptr rb := x)) (rptr rb) ((wptr rb + 1) mod IRINGBUF_SZ) = rb_cont rb @ [x]"
    using inv False unfolding rb_cont_def rb_inv_def by (intro ring_enq) auto
  moreover have "length (rb_cont rb) < 15"
    using inv False ring_full_iff[of "rptr rb" IRINGBUF_SZ "wptr rb"] ring_len_less[of IRINGBUF_SZ "rptr rb" "wptr rb"]
    by (auto simp: rb_cont_def rb_inv_def IRINGBUF_SZ_def)
  ultimately show ?thesis using False by (simp add: ringbuf_put_def Let_def rb_cont_def last_n_def)
next
  case True
  let ?n = IRINGBUF_SZ and ?q = "(rb_buf rb)(wptr rb := x)" and ?f = "(rptr rb + 1) mod IRINGBUF_SZ"
  have b: "rptr rb < ?n" "wptr rb < ?n" using inv by (auto simp: rb_inv_def)
  have len: "ring_len ?n (rptr rb) (wptr rb) = 15"
    using True b ring_full_iff[OF b] by (simp add: IRINGBUF_SZ_def)
  have d: "ring ?n (rb_buf rb) ?f (wptr rb) = tl (rb_cont rb)"
    using ring_drop[OF b, of 1] len unfolding rb_cont_def by (simp add: drop_Suc)
  have f: "?f < ?n" "(wptr rb + 1) mod ?n \<noteq> ?f"
    using b(1) True mod_succ[OF b(1)] by (auto simp: IRINGBUF_SZ_def split: if_splits)
  have "ring ?n ?q ?f (rptr rb) = tl (rb_cont rb) @ [x]"
    using ring_enq[OF f(1) b(2) f(2), of "rb_buf rb" x] unfolding d True .
  moreover have "last_n 15 (rb_cont rb @ [x]) = tl (rb_cont rb) @ [x]"
    using len by (simp add: last_n_def rb_cont_def drop_Suc)
  ultimately show ?thesis using True by (simp add: ringbuf_put_def Let_def rb_cont_def)
qed

lemma rb_puts: "rb_inv rb \<Longrightarrow> rb_inv (fold ringbuf_put xs rb) \<and> rb_cont (fold ringbuf_put xs rb) = last_n 15 (rb_cont rb @ xs)"
proof (induction xs arbitrary: rb)
  case Nil
  then show ?case using ring_len_less[of IRINGBUF_SZ "rptr rb" "wptr rb"]
    by (simp add: last_n_def rb_cont_def IRINGBUF_SZ_def)
next
  case (Cons x xs)
  have "last_n 15 (last_n 15 (ys @ [x]) @ xs) = last_n 15 (ys @ x # xs)" for ys :: "string list"
    by (auto simp: last_n_def intro!: arg_cong[where f = "\<lambda>k. drop k ys"])
  then show ?case using Cons by (simp add: rb_put_inv rb_put_cont)
qed

lemma display_ring:
  "i < IRINGBUF_SZ \<Longrightarrow> wptr rb < IRINGBUF_SZ \<Longrightarrow> ring_len IRINGBUF_SZ i (wptr rb) < fuel \<Longrightarrow>
   map (\<lambda>l. case l of Iring t _ \<Rightarrow> t | _ \<Rightarrow> []) (display_loop fuel i rb) = ring IRINGBUF_SZ (rb_buf rb) i (wptr rb)"
proof (induction fuel arbitrary: i)
  case (Suc fuel)
  show ?case
  proof (cases "i = wptr rb")
    case True
    then show ?thesis using Suc.prems ring_empty_iff[of i IRINGBUF_SZ "wptr rb" "rb_buf rb"] by simp
  next
    case False
    have deq: "ring IRINGBUF_SZ (rb_buf rb) i (wptr rb) = rb_buf rb i # ring IRINGBUF_SZ (rb_buf rb) ((i + 1) mod IRINGBUF_SZ) (wptr rb)"
      using Suc.prems False by (intro ring_deq)
    then have "ring_len IRINGBUF_SZ i (wptr rb) = Suc (ring_len IRINGBUF_SZ ((i + 1) mod IRINGBUF_SZ) (wptr rb))"
      by (metis length_Cons length_ring)
    then show ?thesis using Suc False deq by (simp add: IRINGBUF_SZ_def)
  qed
qed simp

definition shown_texts :: "ringbuf_t \<Rightarrow> string list" where
  "shown_texts rb = map (\<lambda>l. case l of Iring t _ \<Rightarrow> t | _ \<Rightarrow> []) (iringbuf_display rb)"

text \<open>C18: after any sequence of instructions has been recorded, the ring buffer displays the texts of the last 15 of
  them, oldest first, and all of them when there are fewer.\<close>

theorem iringbuf_shows_last: "shown_texts (fold ringbuf_put texts rb_empty) = last_n 15 texts"
proof -
  have e: "rb_inv rb_empty" "rb_cont rb_empty = []"
    by (simp_all add: rb_empty_def rb_inv_def rb_cont_def IRINGBUF_SZ_def ring_def ring_len_def)
  have "ring_len IRINGBUF_SZ i j < IRINGBUF_SZ" for i j by (rule ring_len_less) (simp add: IRINGBUF_SZ_def)
  then show ?thesis
    using rb_puts[OF e(1), of texts] e(2) unfolding shown_texts_def iringbuf_display_def
    by (simp add: display_ring rb_inv_def rb_cont_def)
qed

text \<open>The line marked as the most recent one.\<close>

definition marked :: "log_line \<Rightarrow> bool" where
  "marked l = (case l of Iring _ b \<Rightarrow> b | _ \<Rightarrow> False)"

lemma wptr_puts: "wptr rb < IRINGBUF_SZ \<Longrightarrow> wptr (fold ringbuf_put xs rb) = (wptr rb + length xs) mod IRINGBUF_SZ"
proof (induction xs arbitrary: rb)
  case (Cons x xs)
  have "wptr (ringbuf_put x rb) = (wptr rb + 1) mod IRINGBUF_SZ" by (simp add: ringbuf_put_def Let_def)
  then show ?case using Cons.IH[of "ringbuf_put x rb"] by (simp add: IRINGBUF_SZ_def mod_simps)
qed simp

lemma display_unmarked: "wptr rb = 0 \<Longrightarrow> \<not> list_ex marked (display_loop fuel i rb)"
  by (induction fuel arbitrary: i) (auto simp: marked_def)

lemma display_marked:
  "i < IRINGBUF_SZ \<Longrightarrow> wptr rb < IRINGBUF_SZ \<Longrightarrow> ring_len IRINGBUF_SZ i (wptr rb) < fuel \<Longrightarrow> i \<noteq> wptr rb \<Longrightarrow>
   wptr rb \<noteq> 0 \<Longrightarrow> list_ex marked (display_loop fuel i rb)"
proof (induction fuel arbitrary: i)
  case (Suc fuel)
  let ?j = "(i + 1) mod IRINGBUF_SZ"
  show ?case
  proof (cases "?j = wptr rb")
    case True
    then have "Suc i = wptr rb" using Suc.prems by (auto simp: IRINGBUF_SZ_def mod_Suc split: if_splits)
    then show ?thesis using Suc.prems by (auto simp: marked_def)
  next
    case False
    have "ring IRINGBUF_SZ (rb_buf rb) i (wptr rb) = rb_buf rb i # ring IRINGBUF_SZ (rb_buf rb) ?j (wptr rb)"
      using Suc.prems by (intro ring_deq)
    then have "ring_len IRINGBUF_SZ ?j (wptr rb) < fuel" using Suc.prems(3) by (metis length_Cons length_ring Suc_less_eq)
    moreover have "?j < IRINGBUF_SZ" by (simp add: IRINGBUF_SZ_def)
    ultimately have "list_ex marked (display_loop fuel ?j rb)" using Suc False by blast
    then show ?thesis using Suc.prems by simp
  qed
qed simp

text \<open> the display marks the most recent instruction except when the number of recorded instructions is a multiple
  of 16: then the write position is 0 and no line carries the marker.\<close>

theorem iringbuf_marker:
  "list_ex marked (iringbuf_display (fold ringbuf_put texts rb_empty)) \<longleftrightarrow> length texts mod 16 \<noteq> 0"
proof -
  let ?rb = "fold ringbuf_put texts rb_empty"
  have e: "rb_inv rb_empty" "rb_cont rb_empty = []"
    by (simp_all add: rb_empty_def rb_inv_def rb_cont_def IRINGBUF_SZ_def ring_def ring_len_def)
  have w: "wptr ?rb = length texts mod 16" using wptr_puts[of rb_empty texts] by (simp add: rb_empty_def IRINGBUF_SZ_def)
  have inv: "rptr ?rb < IRINGBUF_SZ" "wptr ?rb < IRINGBUF_SZ" and c: "rb_cont ?rb = last_n 15 texts"
    using rb_puts[OF e(1), of texts] e(2) by (auto simp: rb_inv_def)
  have "length texts mod 16 \<noteq> 0 \<Longrightarrow> rptr ?rb \<noteq> wptr ?rb"
    using c ring_empty_iff[OF inv, of "rb_buf ?rb"] unfolding rb_cont_def last_n_def
    by (cases "length texts = 0") (auto simp: drop_eq_Nil2 simp del: length_0_conv length_greater_0_conv)
  moreover have "ring_len IRINGBUF_SZ (rptr ?rb) (wptr ?rb) < IRINGBUF_SZ" by (rule ring_len_less) (simp add: IRINGBUF_SZ_def)
  ultimately show ?thesis
    using display_marked[OF inv] display_unmarked[of ?rb] w unfolding iringbuf_display_def by metis
qed

section \<open>Running\<close>

lemma checkregs_nr: "g_nr_guest_inst (checkregs cfg c pc e) = g_nr_guest_inst e"
  by (simp add: checkregs_def Let_def)

lemma difftest_step_nr: "difftest_step cfg h pc npc e = Inr e' \<Longrightarrow> g_nr_guest_inst e' = g_nr_guest_inst e"
  by (auto simp: difftest_step_def set_devs_def checkregs_nr Let_def res_simps split: if_splits)

lemma trace_frame_nr: "trace_and_difftest cfg h s logbuf npc e = Inr e' \<Longrightarrow> g_nr_guest_inst e' = g_nr_guest_inst e"
  by (drule trace_parts) (auto simp: when_res_def split: if_splits dest: difftest_step_nr)

lemma exec_once_nr: "exec_once cfg h pc e = Inr (s, logbuf, e') \<Longrightarrow> g_nr_guest_inst e' = g_nr_guest_inst e"
  by (auto simp: exec_once_def when_res_def iringbuf_update_def iringbuf_push_def Let_def res_simps split: if_splits)

lemma exec_traced_nr: "exec_traced cfg h e = Inr e' \<Longrightarrow> g_nr_guest_inst e' = g_nr_guest_inst e + 1"
  by (auto simp: exec_traced_def Let_def res_simps dest!: exec_once_nr trace_frame_nr)

lemma update_nr: "emu_device_update cfg h e = Inr e' \<Longrightarrow> g_nr_guest_inst e' = g_nr_guest_inst e"
  by (auto simp: emu_device_update_def Let_def res_simps)

lemma execute_nr:
  "execute cfg h n e = Inr e' \<Longrightarrow>
   \<exists>k\<le>n. g_nr_guest_inst e' = g_nr_guest_inst e + of_nat k \<and> (0 < n \<longrightarrow> 0 < k)"
proof (induction n arbitrary: e)
  case (Suc n)
  obtain ea where a: "exec_traced cfg h e = Inr ea" and r: "(if state_of ea \<noteq> NEMU_RUNNING then Inr ea
     else bind_res (when_res (CONFIG_DEVICE cfg) (emu_device_update cfg h) ea) (execute cfg h n)) = Inr e'"
    using Suc.prems by (auto simp: res_simps)
  show ?case
  proof (cases "state_of ea = NEMU_RUNNING")
    case False
    then show ?thesis using r exec_traced_nr[OF a] by (intro exI[of _ 1]) auto
  next
    case True
    obtain eb where b: "when_res (CONFIG_DEVICE cfg) (emu_device_update cfg h) ea = Inr eb" "execute cfg h n eb = Inr e'"
      using r True by (auto simp: res_simps)
    have "g_nr_guest_inst eb = g_nr_guest_inst e + 1"
      using b(1) exec_traced_nr[OF a] by (auto simp: when_res_def split: if_splits dest!: update_nr)
    moreover obtain k where "k \<le> n" "g_nr_guest_inst e' = g_nr_guest_inst eb + of_nat k"
      using Suc.IH[OF b(2)] by blast
    ultimately show ?thesis by (intro exI[of _ "Suc k"]) auto
  qed
qed auto

lemma cpu_exec_run:
  assumes "cpu_exec cfg h n e = Inr e'"
  shows "state_of e' \<noteq> NEMU_RUNNING \<and>
    (if ended (state_of e) then core e' = core e \<and> g_nr_guest_inst e' = g_nr_guest_inst e
     else \<exists>k\<le>unat n. g_nr_guest_inst e' = g_nr_guest_inst e + of_nat k \<and> (0 < n \<longrightarrow> 0 < k))"
proof (cases "ended (state_of e)")
  case True
  then show ?thesis using assms by (auto simp: cpu_exec_def Let_def ended_def)
next
  case False
  obtain t ea eb t' ec where a: "emu_get_time h (start_exec n e) = (t, ea)" and b: "execute cfg h (unat n) ea = Inr eb"
    and c: "emu_get_time h eb = (t', ec)" and e': "e' = finish_exec cfg (ec\<lparr>g_timer := g_timer ec + (t' - t)\<rparr>)"
    using cpu_exec_parts[OF assms False] by blast
  have f: "g_nr_guest_inst ea = g_nr_guest_inst e" "cpu (core ea) = cpu (core e)" "cpu (core e') = cpu (core eb)"
    "g_nr_guest_inst e' = g_nr_guest_inst eb" "state_of e' = (if state_of eb = NEMU_RUNNING then NEMU_STOP else state_of eb)"
    using get_time_frame[OF a] get_time_frame[OF c] by (auto simp: e' start_exec_def)
  then show ?thesis using execute_nr[OF b] False by (auto simp: unat_gt_0 word_gt_0_no)
qed

text \<open>C13: a call of \<open>cpu_exec\<close> never leaves the emulator running.  On a program that has ended it changes neither the
  machine nor the instruction count; otherwise it executes at least one and at most the requested number of
  instructions.\<close>

theorem cpu_exec_outcome:
  assumes "cpu_exec cfg h n e = Inr e'"
  shows "state_of e' \<noteq> NEMU_RUNNING \<and>
    (if ended (state_of e) then core e' = core e \<and> g_nr_guest_inst e' = g_nr_guest_inst e
     else \<exists>k\<le>unat n. g_nr_guest_inst e' = g_nr_guest_inst e + of_nat k \<and> (0 < n \<longrightarrow> 0 < k))"
  by (rule cpu_exec_run[OF assms])

theorem cpu_exec_outcome_witness:
  "\<exists>e' k. cpu_exec default_config quiet_host (- 1) (boot_emu default_config (\<lambda>_. 0) dev0 ()) = Inr e' \<and>
    state_of e' \<noteq> NEMU_RUNNING \<and> g_nr_guest_inst e' = of_nat k \<and> 0 < k"
proof -
  obtain e' where e': "cpu_exec default_config quiet_host (- 1) (boot_emu default_config (\<lambda>_. 0) dev0 ()) = Inr e'"
    using run_boot[of default_config quiet_host "\<lambda>_. 0" dev0 "()"] quiet_host_ok by (auto simp: std_cfg_def default_config_def)
  have "(0 :: u64) < - 1" by (simp add: word_gt_0)
  moreover have "\<not> ended (state_of (boot_emu default_config (\<lambda>_. 0) dev0 ()))" "g_nr_guest_inst (boot_emu default_config (\<lambda>_. 0) dev0 ()) = 0"
    by (simp_all add: boot_emu_def init_isa_def nemu_boot_def ended_def)
  ultimately show ?thesis using cpu_exec_outcome[OF e'] e' by auto
qed

lemma execute_add:
  "execute cfg h m e = Inr e' \<Longrightarrow> state_of e' = NEMU_RUNNING \<Longrightarrow> execute cfg h (m + n) e = execute cfg h n e'"
proof (induction m arbitrary: e)
  case (Suc m)
  obtain ea where a: "exec_traced cfg h e = Inr ea" and r: "(if state_of ea \<noteq> NEMU_RUNNING then Inr ea
     else bind_res (when_res (CONFIG_DEVICE cfg) (emu_device_update cfg h) ea) (execute cfg h m)) = Inr e'"
    using Suc.prems by (auto simp: res_simps)
  have run: "state_of ea = NEMU_RUNNING" using r Suc.prems(2) by (cases "state_of ea = NEMU_RUNNING") auto
  obtain eb where b: "when_res (CONFIG_DEVICE cfg) (emu_device_update cfg h) ea = Inr eb" "execute cfg h m eb = Inr e'"
    using r run by (auto simp: res_simps)
  then show ?case using Suc.IH[OF b(2) Suc.prems(2)] a run by simp
qed simp

section \<open>Trace simulation\<close>

definition batch_ok :: "tracesim_batch \<Rightarrow> bool" where
  "batch_ok b \<longleftrightarrow> length (d_stream b) \<le> length (i_stream b) \<and> subseq (map br_pc (b_stream b)) (i_stream b)"

lemma subseq_snoc: "subseq xs ys \<Longrightarrow> subseq xs (ys @ [y])" "subseq xs ys \<Longrightarrow> subseq (xs @ [y]) (ys @ [y])"
  by (auto intro: list_emb_append2)

lemma tracesim_record_ok:
  assumes "tracesim_record cfg b e = Inr (b', e')" "batch_ok b"
  shows "batch_ok b' \<and> i_stream b' = i_stream b @ [pc_of e] \<and> cpu (core e') = cpu (core e) \<and> state_of e' = state_of e
    \<and> g_nr_guest_inst e' = g_nr_guest_inst e"
proof -
  obtain ld br m where "b' = push_branch (pc_of e) br (push_ldstr ld (b\<lparr>i_stream := i_stream b @ [pc_of e]\<rparr>))"
    "e' = set_core ((core e)\<lparr>memory := m\<rparr>) e"
    using assms(1) by (auto simp: tracesim_record_def Let_def res_simps)
  then show ?thesis using assms(2)
    by (cases ld; cases br) (auto simp: push_branch_def push_ldstr_def batch_ok_def subseq_snoc)
qed

lemma cpu_exec_one:
  assumes "cpu_exec cfg h 1 e = Inr e'" "\<not> ended (state_of e)"
  shows "g_nr_guest_inst e' = g_nr_guest_inst e + 1"
proof -
  obtain k where "k \<le> 1" "g_nr_guest_inst e' = g_nr_guest_inst e + of_nat k" "0 < k"
    using cpu_exec_run[OF assms(1)] assms(2) by auto
  then show ?thesis by (cases "k = 1") auto
qed

lemma tracesim_loop_ok:
  "tracesim_loop cfg h n b e = Inr (b', e') \<Longrightarrow> batch_ok b \<Longrightarrow> \<not> ended (state_of e) \<Longrightarrow>
   \<exists>is. i_stream b' = i_stream b @ is \<and> length is \<le> n \<and> (0 < n \<longrightarrow> is \<noteq> [] \<and> hd is = pc_of e) \<and> batch_ok b'
     \<and> g_nr_guest_inst e' = g_nr_guest_inst e + of_nat (length is) \<and> (\<not> ended (state_of e') \<longrightarrow> length is = n)"
proof (induction n arbitrary: b e)
  case (Suc n)
  obtain ba ea eb where a: "tracesim_record cfg b e = Inr (ba, ea)" and x: "cpu_exec cfg h 1 ea = Inr eb"
    and r: "(if ended (state_of eb) then Inr (ba, eb) else tracesim_loop cfg h n ba eb) = Inr (b', e')"
    using Suc.prems(1) by (auto simp: res_simps)
  note f = tracesim_record_ok[OF a Suc.prems(2)]
  have nr: "g_nr_guest_inst eb = g_nr_guest_inst e + 1" using cpu_exec_one[OF x] f Suc.prems(3) by simp
  show ?case
  proof (cases "ended (state_of eb)")
    case True
    then show ?thesis using r f nr by (intro exI[of _ "[pc_of e]"]) auto
  next
    case False
    then obtain is' where "i_stream b' = i_stream ba @ is'" "length is' \<le> n" "batch_ok b'"
      "g_nr_guest_inst e' = g_nr_guest_inst eb + of_nat (length is')" "\<not> ended (state_of e') \<longrightarrow> length is' = n"
      using r f Suc.IH[of ba eb] by auto
    then show ?thesis using f nr by (intro exI[of _ "pc_of e # is'"]) auto
  qed
qed auto

text \<open>A batch of the trace simulation fits the buffers it is given: it holds one program counter for each executed
  instruction, starting with the current one, at most as many as the batch size and exactly as many unless the program
  ends; there are no more memory accesses than instructions, and the branch entries name instructions of the batch in
  order.\<close>

theorem tracesim_batch_bounds:
  assumes "difftest_tracesim_step cfg h sz e = Inr (b, e')" "\<not> ended (state_of e)" "0 < sz"
  shows "length (i_stream b) \<le> unat sz \<and> length (d_stream b) \<le> length (i_stream b) \<and> length (b_stream b) \<le> length (i_stream b)
    \<and> subseq (map br_pc (b_stream b)) (i_stream b) \<and> hd (i_stream b) = pc_of e
    \<and> g_nr_guest_inst e' = g_nr_guest_inst e + of_nat (length (i_stream b))
    \<and> (\<not> ended (state_of e') \<longrightarrow> length (i_stream b) = unat sz)"
proof -
  have "0 < unat sz" using assms(3) by (simp add: unat_gt_0)
  then show ?thesis
    using tracesim_loop_ok[OF assms(1)[unfolded difftest_tracesim_step_def] _ assms(2)]
    by (auto simp: batch_ok_def dest!: list_emb_length)
qed

lemma boot_step:
  assumes c: "std_cfg cfg" "\<not> CONFIG_DIFFTEST cfg" and h: "disassembles_img cfg h" "idle h" and n: "\<not> ended (state_of e)"
    and e: "cpu (core e) = cpu (core (boot_emu cfg p d r))" "pmem (memory (core e)) = pmem (memory (core (boot_emu cfg p d r)))"
      "wps e = init_wp_pool" "bps e = init_bp_pool"
  shows "\<exists>e'. cpu_exec cfg h 1 e = Inr e'"
proof -
  obtain t ea where a: "emu_get_time h (start_exec 1 e) = (t, ea)" by force
  have "at_inst 0 ea" using get_time_frame[OF a] e by (intro boot_at_inst[OF c(1)]) (auto simp: start_exec_def)
  then obtain eb where b: "exec_traced cfg h ea = Inr eb" "at_inst 1 eb" using at_inst_step[OF c h(1)] by force
  have "state_of eb = NEMU_RUNNING" using b(2) by (simp add: at_inst_def)
  then obtain ec where "execute cfg h (Suc 0) ea = Inr ec" using execute_step[OF b(1) _ h(2), of 0] by auto
  then show ?thesis using a n unfolding start_exec_def by (cases "emu_get_time h ec") (simp add: cpu_exec_def Let_def)
qed

lemma boot_record: "\<exists>b e'. tracesim_record default_config \<lparr>i_stream = [], d_stream = [], b_stream = []\<rparr>
    (boot_emu default_config (\<lambda>_. 0) dev0 ()) = Inr (b, e') \<and> core e' = core (boot_emu default_config (\<lambda>_. 0) dev0 ())
    \<and> wps e' = init_wp_pool \<and> bps e' = init_bp_pool"
proof -
  let ?e = "boot_emu default_config (\<lambda>_. 0) dev0 ()"
  have c: "std_cfg default_config" by (simp add: std_cfg_def default_config_def)
  have at: "at_inst 0 (set_core ((core ?e)\<lparr>nstate := NEMU_RUNNING\<rparr>) ?e)" by (rule boot_at_inst[OF c]) (auto simp: boot_emu_def)
  have "paddr_read default_config (pc_of ?e) 4 (memory (core ?e)) = Inr (0x297, memory (core ?e))"
    using fetch_img[OF c, of 0 "memory (core ?e)"] at by (simp add: at_inst_def has_img_def del: read_le.simps)
  moreover have "isa_decode_ldstr default_config 0x297 st = Inr None" "isa_decode_branch default_config pc 0x297 st = Inr None" for pc st
    unfolding isa_decode_ldstr_def isa_decode_branch_def ldstr_select branch_select
    by (simp_all add: manual_img ldstr_entry_def load_ops_def store_ops_def branch_ops_def)
  ultimately show ?thesis
    by (simp add: tracesim_record_def vaddr_ifetch_def Let_def push_branch_def push_ldstr_def) (simp add: boot_emu_def)
qed

theorem tracesim_batch_bounds_witness:
  "\<exists>b e'. difftest_tracesim_step default_config quiet_host 1 (boot_emu default_config (\<lambda>_. 0) dev0 ()) = Inr (b, e') \<and>
    length (i_stream b) \<le> 1 \<and> hd (i_stream b) = pc_of (boot_emu default_config (\<lambda>_. 0) dev0 ())"
proof -
  let ?e = "boot_emu default_config (\<lambda>_. 0) dev0 ()"
  have n: "\<not> ended (state_of ?e)" by (simp add: boot_emu_def init_isa_def nemu_boot_def ended_def)
  obtain b ea where r: "tracesim_record default_config \<lparr>i_stream = [], d_stream = [], b_stream = []\<rparr> ?e = Inr (b, ea)"
    and ea: "core ea = core ?e" "wps ea = init_wp_pool" "bps ea = init_bp_pool" using boot_record by blast
  obtain e' where "cpu_exec default_config quiet_host 1 ea = Inr e'"
    using boot_step[of default_config quiet_host ea "\<lambda>_. 0" dev0 "()"] quiet_host_ok ea n by (auto simp: std_cfg_def default_config_def)
  then have x: "difftest_tracesim_step default_config quiet_host 1 ?e = Inr (b, e')"
    using r by (simp add: difftest_tracesim_step_def)
  show ?thesis using tracesim_batch_bounds[OF x n] x by auto
qed

end
