(* ===== verification/Monitor_Proofs.thy ===== *)
theory Monitor_Proofs
  imports Monitor Cpu_Proofs
begin

text \<open>
  The whole program: from its command line through initialisation and the debugger to the exit status, and what
  every debugger session preserves.
\<close>

section \<open>Start-up with the built-in image\<close>

definition ready :: "config \<Rightarrow> 'r sdb \<Rightarrow> bool" where
  "ready cfg d \<longleftrightarrow> (\<exists>p dv. cpu (core (emu d)) = cpu (core (boot_emu cfg p dv ())) \<and>
     pmem (memory (core (emu d))) = pmem (memory (core (boot_emu cfg p dv ()))) \<and>
     wps (emu d) = init_wp_pool \<and> bps (emu d) = init_bp_pool \<and> state_of (emu d) = NEMU_STOP \<and> g_nr_guest_inst (emu d) = 0)"

lemma init_monitor_ready:
  assumes dev: "when_res (CONFIG_DEVICE cfg) (init_device cfg (sdl_keys w) (sdcard_img w)) dev0 = Inr dv"
    and c: "\<not> CONFIG_DIFFTEST cfg" and cs: "capstone w"
    and a: "log_file a = None" "img_file a = None" "elf_file a = None"
  shows "\<exists>d. init_monitor cfg h w a (start_sdb r) = Inr d \<and> ready cfg d \<and> is_batch_mode d = batch a"
proof -
  obtain p where m: "init_mem cfg (mem_random w) (memory nemu_boot) = \<lparr>pmem = p, devs = dev0\<rparr>"
    by (cases "mem_random w") (auto simp: init_mem_def nemu_boot_def)
  define e where "e = (emu (start_sdb r))\<lparr>core := init_isa cfg (nemu_boot\<lparr>memory := \<lparr>pmem = p, devs = dv\<rparr>\<rparr>),
    wps := init_wp_pool, bps := init_bp_pool\<rparr>"
  have "init_monitor cfg h w a (start_sdb r) = Inr ((start_sdb r)\<lparr>emu := e, is_batch_mode := batch a\<rparr>)"
    using dev c cs a by (cases "CONFIG_DEVICE cfg"; cases "batch a") (simp_all add: m init_monitor_def init_log_def when_res_def load_img_def init_sdb_def start_sdb_def set_devs_def
        init_ftrace_file_def init_ftrace_def assert_res_def sdb_set_batch_mode_def e_def Let_def)
  moreover have "ready cfg ((start_sdb r)\<lparr>emu := e, is_batch_mode := batch a\<rparr>)"
    unfolding ready_def by (intro exI[of _ p] exI[of _ dv])
      (simp add: e_def boot_emu_def start_sdb_def init_isa_def nemu_boot_def)
  ultimately show ?thesis by simp
qed

lemma ready_run:
  assumes "std_cfg cfg" "\<not> CONFIG_DIFFTEST cfg" "disassembles_img cfg h" "idle h" "ready cfg d"
  shows "\<exists>e. run_cpu cfg h (- 1) d = Inr (d\<lparr>emu := e\<rparr>, True) \<and> \<not> is_exit_status_bad (core e)"
proof -
  obtain p dv where r: "cpu (core (emu d)) = cpu (core (boot_emu cfg p dv ()))"
    "pmem (memory (core (emu d))) = pmem (memory (core (boot_emu cfg p dv ())))"
    "wps (emu d) = init_wp_pool" "bps (emu d) = init_bp_pool" "state_of (emu d) = NEMU_STOP"
    using assms(5) unfolding ready_def by blast
  have "cpu (core (boot_emu cfg p dv ())) = cpu (core (boot_emu cfg p dv r))"
    "pmem (memory (core (boot_emu cfg p dv ()))) = pmem (memory (core (boot_emu cfg p dv r)))" for r
    by (simp_all add: boot_emu_def)
  then show ?thesis using run_ready[OF assms(1-4), of "emu d" p dv] r
    by (fastforce simp: run_cpu_def continue_def is_exit_status_bad_def ended_def)
qed

lemma strtok_c: "strtok ''c'' = Some (''c'', [])" "strtok ''q'' = Some (''q'', [])"
  by (simp_all add: strtok_def)

lemma line_c: "exec_line cfg h ''c'' d = run_cpu cfg h (- 1) d" "exec_line cfg h ''q'' d = cmd_q None d"
  by (simp_all add: exec_line_def strtok_c find_cmd_def cmd_table_def handler_def cmd_c_def)

text \<open>C20: the program as a whole.  Started without an image, in batch mode or with the command \<open>c\<close> typed at its
  prompt, it runs the built-in image and returns 0; it returns 0 when it is left with \<open>q\<close>, and 1 when the input ends
  before the guest has. As for the built-in image alone, a build with the instruction trace needs a disassembler that
  knows the image's four instructions.\<close>

theorem main_exit_status:
  assumes "std_cfg cfg" "\<not> CONFIG_DIFFTEST cfg" "disassembles_img cfg h" "idle h" "capstone w"
    and "when_res (CONFIG_DEVICE cfg) (init_device cfg (sdl_keys w) (sdcard_img w)) dev0 = Inr dv"
  shows "nemu_main cfg h w [Opt_b] lines r = Inr 0 \<and> nemu_main cfg h w [] [''c''] r = Inr 0
    \<and> nemu_main cfg h w [] [''q''] r = Inr 0 \<and> nemu_main cfg h w [] [] r = Inr 1"
proof -
  obtain d where d: "init_monitor cfg h w (no_args\<lparr>batch := True\<rparr>) (start_sdb r) = Inr d" "ready cfg d" "is_batch_mode d"
    using init_monitor_ready[OF assms(6,2,5), of "no_args\<lparr>batch := True\<rparr>" h r] by (auto simp: no_args_def)
  obtain b where b: "init_monitor cfg h w no_args (start_sdb r) = Inr b" "ready cfg b" "\<not> is_batch_mode b"
    using init_monitor_ready[OF assms(6,2,5), of no_args h r] by (auto simp: no_args_def)
  obtain ed where ed: "run_cpu cfg h (- 1) d = Inr (d\<lparr>emu := ed\<rparr>, True)" "\<not> is_exit_status_bad (core ed)"
    using ready_run[OF assms(1-4) d(2)] by blast
  have "ready cfg (add_history ''c'' b)" using b(2) by (simp add: ready_def add_history_def)
  then obtain eb where eb: "run_cpu cfg h (- 1) (add_history ''c'' b) = Inr ((add_history ''c'' b)\<lparr>emu := eb\<rparr>, True)"
    "\<not> is_exit_status_bad (core eb)" using ready_run[OF assms(1-4)] by blast
  have q: "is_exit_status_bad (core (emu b))" using b(2) by (auto simp: ready_def is_exit_status_bad_def)
  have "nemu_main cfg h w [Opt_b] lines r = Inr 0"
    using d ed by (simp add: nemu_main_def engine_start_def sdb_mainloop_def cmd_c_def)
  moreover have "nemu_main cfg h w [] [''c''] r = Inr 0"
    using b eb by (simp add: nemu_main_def engine_start_def sdb_mainloop_def rl_gets_def line_c)
  moreover have "nemu_main cfg h w [] [''q''] r = Inr 0"
    using b by (simp add: nemu_main_def engine_start_def sdb_mainloop_def rl_gets_def line_c cmd_q_def is_exit_status_bad_def add_history_def)
  moreover have "nemu_main cfg h w [] [] r = Inr 1"
    using b q by (simp add: nemu_main_def engine_start_def sdb_mainloop_def)
  ultimately show ?thesis by blast
qed

definition plain_world :: world where
  "plain_world = \<lparr>files = (\<lambda>_. None), writable = (\<lambda>_. False), loadable = (\<lambda>_. False), mem_random = None, sdl_keys = (\<lambda>_. 0),
     sdcard_img = None, capstone = True\<rparr>"

lemma default_sel:
  "CONFIG_MBASE default_config = 0x80000000" "CONFIG_MSIZE default_config = 0x8000000" "CONFIG_PC_RESET_OFFSET default_config = 0" "CONFIG_DEVICE default_config = True" "CONFIG_RT_CHECK default_config = True" "CONFIG_RVE default_config = False" "CONFIG_DIFFTEST default_config = False" "CONFIG_TRACE default_config = True"
  "CONFIG_TRACE_START default_config = 0" "CONFIG_TRACE_END default_config = 10000" "CONFIG_ITRACE default_config =
  True" "CONFIG_FTRACE default_config = True" "CONFIG_WATCHPOINT default_config = True" "CONFIG_BREAKPOINT default_config = True" "CONFIG_HAS_PORT_IO default_config = False" "CONFIG_HAS_SERIAL default_config = True"
  "CONFIG_HAS_TIMER default_config = True" "CONFIG_HAS_VGA default_config = True" "CONFIG_HAS_KEYBOARD default_config
  = True" "CONFIG_HAS_AUDIO default_config = True" "CONFIG_HAS_SDCARD default_config = False" "CONFIG_HAS_YSYXSOC default_config = False" "CONFIG_VGA_SIZE_800x600 default_config = False" "CONFIG_VGA_SHOW_SCREEN default_config =
  True" "CONFIG_SERIAL_PORT default_config = 0x3f8" "CONFIG_SERIAL_MMIO default_config = 0xa00003f8" "CONFIG_RTC_PORT default_config = 0x48" "CONFIG_RTC_MMIO default_config = 0xa0000048" "CONFIG_I8042_DATA_PORT default_config = 0x60"
  "CONFIG_I8042_DATA_MMIO default_config = 0xa0000060" "CONFIG_VGA_CTL_PORT default_config = 0x100"
  "CONFIG_VGA_CTL_MMIO default_config = 0xa0000100" "CONFIG_FB_ADDR default_config = 0xa1000000"
  "CONFIG_AUDIO_CTL_PORT default_config = 0x200" "CONFIG_AUDIO_CTL_MMIO default_config = 0xa0000200" "CONFIG_SB_ADDR default_config = 0xa1200000" "CONFIG_SB_SIZE default_config = 0x10000" "CONFIG_SDCARD_CTL_MMIO default_config =
  0xa3000000" "CONFIG_MROM_BASE default_config = 0x20000000" "CONFIG_MROM_SIZE default_config = 0x1000"
  "CONFIG_SRAM_BASE default_config = 0x0f000000" "CONFIG_SRAM_SIZE default_config = 0x2000" "CONFIG_FLASH_BASE default_config = 0x30000000" "CONFIG_FLASH_SIZE default_config = 0x1000000" "CONFIG_PSRAM_BASE default_config =
  0x80000000" "CONFIG_PSRAM_SIZE default_config = 0x8000000" "CONFIG_SDRAM_BASE default_config = 0xa0000000"
  "CONFIG_SDRAM_SIZE default_config = 0x8000000" "CONFIG_UART_BASE default_config = 0x10000000" "CONFIG_UART_SIZE default_config = 0x1000"
  by (simp_all add: default_config_def)

lemma default_devices: "\<exists>dv. init_device default_config (\<lambda>_. 0) None dev0 = Inr dv"
  by (simp add: init_device_def when_res_def default_sel init_serial_def init_timer_def init_vga_def init_i8042_def init_audio_def
      add_io_map_def add_mmio_map_def new_space_def assert_res_def in_pmem_def overlaps_def init_map_def dev0_def clear_space_def
      NR_MAP_def IO_SPACE_MAX_def PAGE_SIZE_def screen_size_def screen_width_def screen_height_def set_reg32_def
      add_alarm_handle_def MAX_HANDLER_def init_keymap_def nr_reg_def Let_def del: init_keys.simps write_le.simps)

theorem main_exit_status_witness:
  "nemu_main default_config quiet_host plain_world [] [''c''] () = Inr 0 \<and> nemu_main default_config quiet_host plain_world [] [] () = Inr 1"
proof -
  obtain dv where "init_device default_config (\<lambda>_. 0) None dev0 = Inr dv" using default_devices by blast
  then show ?thesis using main_exit_status[of default_config quiet_host plain_world dv "[]" "()"] quiet_host_ok
    by (simp add: std_cfg_def default_config_def plain_world_def when_res_def)
qed

end
