(* ===== verification/Am_Ioe_Proofs.thy ===== *)
theory Am_Ioe_Proofs
  imports Am_Ioe Monitor_Proofs
begin

text \<open>
  The drivers of the bare-metal layer against the emulator's devices: when the devices are where the drivers look for
  them, the keyboard driver delivers the events of the window system in order, the clock is read without tearing, a
  rectangle drawn appears on the screen and nowhere else, and played samples reach the device's ring buffer.
\<close>

section \<open>Where the drivers find the devices\<close>

definition has_map :: "dev \<Rightarrow> u32 \<Rightarrow> u32 \<Rightarrow> nat \<Rightarrow> io_handler option \<Rightarrow> bool" where
  "has_map d lo len sp cb \<longleftrightarrow> (\<exists>nm. \<lparr>name = nm, low = lo, high = lo + len - 1, space = sp, callback = cb\<rparr> \<in> set (mmio_maps d)) \<and>
     sp + unat len \<le> IO_SPACE_MAX"

definition am_devs :: "config \<Rightarrow> dev \<Rightarrow> bool" where
  "am_devs cfg d \<longleftrightarrow> CONFIG_DEVICE cfg \<and> (\<forall>a \<ge> DEVICE_BASE. \<not> in_pmem cfg a) \<and> maps_ok d \<and>
     has_map d AM_SERIAL_PORT 8 (serial_base d) (Some Serial_handler) \<and>
     has_map d RTC_ADDR 8 (rtc_port_base d) (Some Rtc_handler) \<and>
     has_map d KBD_ADDR 4 (i8042_data_port_base d) (Some I8042_handler) \<and>
     has_map d VGACTL_ADDR 8 (vgactl_port_base d) None \<and>
     has_map d FB_ADDR (screen_size cfg) (vmem d) None \<and>
     has_map d AUDIO_ADDR 32 (audio_base d) (Some Audio_handler) \<and>
     has_map d AUDIO_SBUF_ADDR (CONFIG_SB_SIZE cfg) (sbuf d) None"

text \<open>A state that keeps the table and the bases keeps the devices.\<close>

definition same_maps :: "dev \<Rightarrow> dev \<Rightarrow> bool" where
  "same_maps d d' \<longleftrightarrow> mmio_maps d' = mmio_maps d \<and> serial_base d' = serial_base d \<and> rtc_port_base d' = rtc_port_base d \<and>
     i8042_data_port_base d' = i8042_data_port_base d \<and> vgactl_port_base d' = vgactl_port_base d \<and> vmem d' = vmem d \<and>
     audio_base d' = audio_base d \<and> sbuf d' = sbuf d"

lemma am_devs_same: "am_devs cfg d \<Longrightarrow> same_maps d d' \<Longrightarrow> am_devs cfg d'"
  by (simp add: am_devs_def same_maps_def has_map_def maps_ok_def)

lemma am_devs_D:
  assumes "am_devs cfg d"
  shows "CONFIG_DEVICE cfg" "\<And>a. DEVICE_BASE \<le> a \<Longrightarrow> \<not> in_pmem cfg a" "maps_disjoint (mmio_maps d)"
  using assms by (simp_all add: am_devs_def maps_ok_def)

text \<open>An access inside a region runs its handler on the offset and reads or writes its registers.\<close>

lemma has_map_no_wrap:
  assumes "am_devs cfg d" and "has_map d lo len sp cb" and "0 < unat len"
  shows "unat lo + unat len \<le> 2 ^ 32"
proof -
  have "lo \<le> lo + (len - 1)"
    using assms(1,2) by (force simp: am_devs_def maps_ok_def list_all_iff map_wf_def has_map_def add_diff_eq)
  then have "unat lo + unat (len - 1) < 2 ^ LENGTH(32)" by (simp only: no_olen_add_nat)
  moreover have "unat (len - 1) = unat len - 1" using assms(3) by (simp add: unat_minus_one unat_gt_0)
  ultimately show ?thesis using assms(3) by simp
qed

lemma find_has_map:
  assumes d: "am_devs cfg d" and h: "has_map d lo len sp cb" and k: "k < unat len"
  shows "\<exists>nm. find_map (mmio_maps d) (lo + of_nat k) = Some \<lparr>name = nm, low = lo, high = lo + len - 1, space = sp, callback = cb\<rparr>"
    and "unat (lo + of_nat k) = unat lo + k" and "lo + of_nat k \<le> lo + len - 1"
proof -
  have w: "unat lo + unat len \<le> 2 ^ 32" using has_map_no_wrap[OF d h] k by simp
  have uk: "unat (of_nat k :: u32) = k" using k unat_u32_less[of len] by (simp add: unat_of_nat_u32)
  then show e: "unat (lo + of_nat k) = unat lo + k" using w k by (subst unat_add_no_wrap) simp_all
  have "len \<noteq> 0" using k by auto
  then have "unat (len - 1) = unat len - 1" by (rule unat_minus_one)
  then have e1: "unat (lo + (len - 1)) = unat lo + unat len - 1" using w k by (subst unat_add_no_wrap) simp_all
  show le: "lo + of_nat k \<le> lo + len - 1"
    using e e1 k by (simp add: word_le_nat_alt add_diff_eq)
  obtain nm where "\<lparr>name = nm, low = lo, high = lo + len - 1, space = sp, callback = cb\<rparr> \<in> set (mmio_maps d)"
    using h by (auto simp: has_map_def)
  moreover have "lo \<le> lo + of_nat k" using e by (simp add: word_le_nat_alt)
  ultimately have "find_map (mmio_maps d) (lo + of_nat k) = Some \<lparr>name = nm, low = lo, high = lo + len - 1, space = sp, callback = cb\<rparr>"
    using am_devs_D(3)[OF d] le by (intro find_map_unique) (simp_all add: map_inside_def)
  then show "\<exists>nm. find_map (mmio_maps d) (lo + of_nat k) = Some \<lparr>name = nm, low = lo, high = lo + len - 1, space = sp, callback = cb\<rparr>"
    by blast
qed

lemma difftest_skip_ref_fields [simp]:
  "io_space (difftest_skip_ref d) = io_space d" "mmio_maps (difftest_skip_ref d) = mmio_maps d"
  "audio_base (difftest_skip_ref d) = audio_base d" "sbuf (difftest_skip_ref d) = sbuf d"
  "i8042_data_port_base (difftest_skip_ref d) = i8042_data_port_base d" "rtc_port_base (difftest_skip_ref d) = rtc_port_base d"
  "vgactl_port_base (difftest_skip_ref d) = vgactl_port_base d" "vmem (difftest_skip_ref d) = vmem d"
  "serial_base (difftest_skip_ref d) = serial_base d" "reg32 b i (difftest_skip_ref d) = reg32 b i d"
  "key_inv (difftest_skip_ref d) = key_inv d" "keys (difftest_skip_ref d) = keys d"
  "audio_ok (difftest_skip_ref d) = audio_ok d" "audio_ring (difftest_skip_ref d) = audio_ring d"
  "host_clock (difftest_skip_ref d) = host_clock d" "boot_time (difftest_skip_ref d) = boot_time d"
  by (simp_all add: difftest_skip_ref_def reg32_def key_inv_def keys_def audio_ok_def audio_ring_def Let_def)

lemma reg_read:
  assumes d: "am_devs cfg (devs m)" and h: "has_map (devs m) lo len sp cb" and lo: "DEVICE_BASE \<le> lo" and n: "access_len n"
    and k: "k + n \<le> unat len"
  shows "vaddr_read cfg (lo + of_nat k) n m =
    bind_res (invoke_callback (run_handler cfg) cb (of_nat k) n False (difftest_skip_ref (devs m))) (\<lambda>d.
    Inr (read_le (io_space d) (sp + k) n, m\<lparr>devs := d\<rparr>))"
proof -
  have n8: "1 \<le> n" "n \<le> 8" using n by (auto simp: access_len_def)
  then have k': "k < unat len" using k by simp
  note f = find_has_map[OF d h k']
  have "DEVICE_BASE \<le> lo + of_nat k" using lo f(2) by (simp add: word_le_nat_alt)
  moreover have "unat (of_nat k :: u32) = k" using k' unat_u32_less[of len] by (simp add: unat_of_nat_u32)
  moreover have "host_read (CONFIG_RT_CHECK cfg) IO_SPACE_MAX s (sp + k) n = Inr (read_le s (sp + k) n)" for s
    using n h k by (simp add: host_read_eq_Inr has_map_def)
  moreover have "lo \<le> lo + of_nat k" using f(2) by (simp add: word_le_nat_alt)
  ultimately show ?thesis
    using am_devs_D(1,2)[OF d] f(1,3) n8
    by (auto simp: vaddr_read_def paddr_read_def mmio_read_def fetch_mmio_map_def find_mapid_by_addr_def map_read_def
        check_bound_def Let_def bind_res_assoc)
qed

lemma reg_write:
  assumes d: "am_devs cfg (devs m)" and h: "has_map (devs m) lo len sp cb" and lo: "DEVICE_BASE \<le> lo" and n: "access_len n"
    and k: "k + n \<le> unat len"
  shows "vaddr_write cfg (lo + of_nat k) n v m =
    bind_res (invoke_callback (run_handler cfg) cb (of_nat k) n True
      (difftest_skip_ref (devs m)\<lparr>io_space := write_le (io_space (devs m)) (sp + k) n v\<rparr>)) (\<lambda>d.
    Inr (m\<lparr>devs := d\<rparr>))"
proof -
  have n8: "1 \<le> n" "n \<le> 8" using n by (auto simp: access_len_def)
  then have k': "k < unat len" using k by simp
  note f = find_has_map[OF d h k']
  have "DEVICE_BASE \<le> lo + of_nat k" using lo f(2) by (simp add: word_le_nat_alt)
  moreover have "unat (of_nat k :: u32) = k" using k' unat_u32_less[of len] by (simp add: unat_of_nat_u32)
  moreover have "host_write (CONFIG_RT_CHECK cfg) IO_SPACE_MAX s (sp + k) n v = Inr (write_le s (sp + k) n v)" for s
    using n h k by (simp add: host_write_eq_Inr has_map_def)
  moreover have "lo \<le> lo + of_nat k" using f(2) by (simp add: word_le_nat_alt)
  ultimately show ?thesis
    using am_devs_D(1,2)[OF d] f(1,3) n8
    by (auto simp: vaddr_write_def paddr_write_def mmio_write_def fetch_mmio_map_def find_mapid_by_addr_def map_write_def
        check_bound_def Let_def bind_res_assoc)
qed

section \<open>Keyboard\<close>

lemma read_le_4: "read_le (io_space d) (b + 4 * i) 4 = reg32 b i d"
  by (simp add: reg32_def)

lemma key_dequeue_skip [simp]: "key_dequeue (difftest_skip_ref d) = (fst (key_dequeue d), difftest_skip_ref (snd (key_dequeue d)))"
  by (simp add: key_dequeue_def difftest_skip_ref_def)

lemma keybrd_reads:
  assumes "am_devs cfg (devs m)"
  shows "am_input_keybrd cfg m = (let k = fst (key_dequeue (devs m)) in
    Inr ((k AND AM_KEYDOWN_MASK \<noteq> 0, k AND NOT AM_KEYDOWN_MASK),
      m\<lparr>devs := set_reg32 (i8042_data_port_base (snd (key_dequeue (devs m)))) 0 k (difftest_skip_ref (snd (key_dequeue (devs m))))\<rparr>))"
proof -
  have b: "i8042_data_port_base (snd (key_dequeue (devs m))) = i8042_data_port_base (devs m)" by (simp add: key_dequeue_def)
  have "inl cfg (KBD_ADDR + of_nat 0) m = Inr (fst (key_dequeue (devs m)),
      m\<lparr>devs := set_reg32 (i8042_data_port_base (devs m)) 0 (fst (key_dequeue (devs m))) (difftest_skip_ref (snd (key_dequeue (devs m))))\<rparr>)"
    using assms unfolding inl_def
    by (subst reg_read[where len = 4 and sp = "i8042_data_port_base (devs m)" and cb = "Some I8042_handler"])
       (simp_all add: am_devs_def am_addrs access_len_def invoke_callback_def run_handler_def i8042_data_io_handler_def b
          reg32_set_same read_le_4[where i = 0, simplified] del: read_le.simps)
  then show ?thesis by (simp add: am_input_keybrd_def Let_def b)
qed


definition am_key :: "u32 \<Rightarrow> bool \<times> u32" where
  "am_key k = (k AND AM_KEYDOWN_MASK \<noteq> 0, k AND NOT AM_KEYDOWN_MASK)"

text \<open>A program that polls the keyboard \<open>n\<close> times.\<close>

fun read_keys :: "config \<Rightarrow> nat \<Rightarrow> mem \<Rightarrow> ((bool \<times> u32) list \<times> mem) res" where
  "read_keys cfg 0 m = Inr ([], m)"
| "read_keys cfg (Suc n) m = bind_res (am_input_keybrd cfg m) (\<lambda>(k, m). bind_res (read_keys cfg n m) (\<lambda>(ks, m). Inr (k # ks, m)))"

lemma read_keys_deq:
  assumes "am_devs cfg (devs m)" and "deq_many key_dequeue n d = (ks, d')"
    and "d\<lparr>io_space := i, is_skip_ref := s, skip_dut_nr_inst := n'\<rparr> = devs m"
  shows "\<exists>m'. read_keys cfg n m = Inr (map am_key ks, m')"
  using assms
proof (induction n arbitrary: m d ks i s n')
  case (Suc n)
  obtain k d1 where k: "key_dequeue d = (k, d1)" by fastforce
  obtain ks' where ks: "deq_many key_dequeue n d1 = (ks', d')" "ks = k # ks'" using Suc.prems(2) k by (auto split: prod.splits)
  have k2: "key_dequeue (devs m) = (k, d1\<lparr>io_space := i, is_skip_ref := s, skip_dut_nr_inst := n'\<rparr>)"
    using k unfolding Suc.prems(3)[symmetric] by (auto simp: key_dequeue_def split: if_splits)
  obtain m1 where m1: "am_input_keybrd cfg m = Inr (am_key k, m1)" and
    d1: "devs m1 = set_reg32 (i8042_data_port_base d1) 0 k (difftest_skip_ref (d1\<lparr>io_space := i, is_skip_ref := s, skip_dut_nr_inst := n'\<rparr>))"
    using keybrd_reads[OF Suc.prems(1)] k2 by (simp add: am_key_def)
  have "same_maps d d1" using k by (auto simp: same_maps_def key_dequeue_def split: if_splits)
  then have "same_maps (devs m) (devs m1)"
    unfolding d1 Suc.prems(3)[symmetric] by (simp add: same_maps_def difftest_skip_ref_def set_reg32_def)
  then have "am_devs cfg (devs m1)" by (rule am_devs_same[OF Suc.prems(1)])
  moreover have "d1\<lparr>io_space := write_le i (i8042_data_port_base d1) 4 k, is_skip_ref := True, skip_dut_nr_inst := 0\<rparr> = devs m1"
    unfolding d1 by (simp add: difftest_skip_ref_def set_reg32_def)
  ultimately obtain m' where "read_keys cfg n m1 = Inr (map am_key ks', m')" using Suc.IH[OF _ ks(1)] by blast
  then show ?case using m1 ks(2) by simp
qed simp

lemma poll_events_maps: "poll_events cfg evs st d = Inr (st', d') \<Longrightarrow> same_maps d d'"
proof (induction evs st d arbitrary: st' d' rule: poll_events.induct)
  case (3 cfg k down evs st d)
  show ?case
  proof (cases "CONFIG_HAS_KEYBOARD cfg")
    case True
    then obtain d1 where d1: "send_key st k down d = Inr d1" "poll_events cfg evs st d1 = Inr (st', d')"
      using 3(3) by (auto simp: res_simps)
    have "same_maps d d1"
      using d1(1) by (auto simp: send_key_def key_enqueue_def Let_def res_simps same_maps_def split: if_splits)
    moreover have "same_maps d1 d'" using 3(1)[OF True] d1 by blast
    ultimately show ?thesis by (simp add: same_maps_def)
  qed (use 3 in simp)
qed (auto simp: same_maps_def)

lemma am_key_code:
  assumes "k AND AM_KEYDOWN_MASK = 0"
  shows "am_key (k OR (if down then KEYDOWN_MASK else 0)) = (down, k)"
proof -
  have b: "\<not> bit k 15" using arg_cong[OF assms, of "\<lambda>w. bit w 15"] by (simp add: AM_KEYDOWN_MASK_def bit_simps)
  define M :: u32 where "M = 0x8000"
  have m: "AM_KEYDOWN_MASK = M" "KEYDOWN_MASK = M" by (simp_all add: AM_KEYDOWN_MASK_def KEYDOWN_MASK_def M_def)
  have pM: "M = push_bit 15 1" by (simp add: M_def)
  have M: "bit M n \<longleftrightarrow> n = 15" for n
    unfolding pM bit_push_bit_iff by (auto simp: bit_1_iff)
  have "(k OR M) AND M = M" "(k OR M) AND NOT M = k" "k AND NOT M = k"
    using b by (auto intro!: bit_word_eqI simp: bit_and_iff bit_or_iff bit_not_iff M)
  moreover have "M \<noteq> 0" by (simp add: M_def)
  ultimately show ?thesis using assms unfolding am_key_def m by simp
qed

section \<open>Clock\<close>

text \<open>Time passes between the two loads.\<close>

lemma read_le_4_succ: "read_le (io_space d) (b + 4) 4 = reg32 b 1 d"
  by (simp add: reg32_def)

lemma rtc_reads:
  assumes "am_devs cfg (devs m)"
  shows "inl cfg (RTC_ADDR + 4) m = (case get_time (difftest_skip_ref (devs m)) of (us, d) \<Rightarrow>
      Inr (ucast (drop_bit 32 us), m\<lparr>devs := set_reg32 (rtc_port_base d) 1 (ucast (drop_bit 32 us)) (set_reg32 (rtc_port_base d) 0 (ucast us) d)\<rparr>))"
    and "inl cfg RTC_ADDR m = Inr (reg32 (rtc_port_base (devs m)) 0 (devs m), m\<lparr>devs := difftest_skip_ref (devs m)\<rparr>)"
proof -
  have b: "rtc_port_base (snd (get_time d)) = rtc_port_base d" for d by (simp add: get_time_def Let_def)
  have "inl cfg (RTC_ADDR + of_nat 4) m = (case get_time (difftest_skip_ref (devs m)) of (us, d) \<Rightarrow>
      Inr (ucast (drop_bit 32 us), m\<lparr>devs := set_reg32 (rtc_port_base d) 1 (ucast (drop_bit 32 us)) (set_reg32 (rtc_port_base d) 0 (ucast us) d)\<rparr>))"
    using assms b[of "difftest_skip_ref (devs m)"] unfolding inl_def
    by (subst reg_read[where len = 8 and sp = "rtc_port_base (devs m)" and cb = "Some Rtc_handler"])
       (auto simp: am_devs_def am_addrs access_len_def invoke_callback_def run_handler_def rtc_io_handler_def
          reg32_set_same read_le_4_succ simp del: read_le.simps split: prod.splits)
  then show "inl cfg (RTC_ADDR + 4) m = (case get_time (difftest_skip_ref (devs m)) of (us, d) \<Rightarrow>
      Inr (ucast (drop_bit 32 us), m\<lparr>devs := set_reg32 (rtc_port_base d) 1 (ucast (drop_bit 32 us)) (set_reg32 (rtc_port_base d) 0 (ucast us) d)\<rparr>))" by simp
  have "inl cfg (RTC_ADDR + of_nat 0) m = Inr (reg32 (rtc_port_base (devs m)) 0 (devs m), m\<lparr>devs := difftest_skip_ref (devs m)\<rparr>)"
    using assms unfolding inl_def
    by (subst reg_read[where len = 8 and sp = "rtc_port_base (devs m)" and cb = "Some Rtc_handler"])
       (auto simp: am_devs_def am_addrs access_len_def invoke_callback_def run_handler_def rtc_io_handler_def
          read_le_4[where i = 0, simplified] simp del: read_le.simps)
  then show "inl cfg RTC_ADDR m = Inr (reg32 (rtc_port_base (devs m)) 0 (devs m), m\<lparr>devs := difftest_skip_ref (devs m)\<rparr>)" by simp
qed

lemma word_halves: "push_bit 32 (ucast (ucast (drop_bit 32 us) :: u32)) OR ucast (ucast us :: u32) = (us :: u64)"
  by (rule bit_word_eqI) (auto simp: bit_simps)

section \<open>Loops\<close>

lemma sint_small: "unat (x :: u32) < 2 ^ 31 \<Longrightarrow> nat (sint x) = unat x"
proof -
  assume "unat x < 2 ^ 31"
  then have "\<not> bit x 31" using bit_imp_le_unat[of x 31] by (meson not_le)
  then have "sint x = uint x" by (simp add: sint_uint_msb)
  then show ?thesis by (simp only: unat_eq_nat_uint)
qed

lemma for_upto_inv:
  assumes "P i s" and "\<And>j s. i \<le> j \<Longrightarrow> j < i + n \<Longrightarrow> P j s \<Longrightarrow> \<exists>s'. f j s = Inr s' \<and> P (Suc j) s'"
  shows "\<exists>s'. for_upto f i n s = Inr s' \<and> P (i + n) s'"
  using assms
proof (induction n arbitrary: i s)
  case (Suc n)
  obtain s1 where s1: "f i s = Inr s1" "P (Suc i) s1" using Suc.prems(2)[of i s] Suc.prems(1) by auto
  have "\<exists>s'. for_upto f (Suc i) n s1 = Inr s' \<and> P (Suc i + n) s'"
    using Suc.prems(2) by (intro Suc.IH s1) auto
  then show ?case using s1 by simp
qed simp

section \<open>Audio\<close>

text \<open>Bytes stored one after the other into a ring.\<close>

fun store_ring :: "bytes \<Rightarrow> nat \<Rightarrow> nat \<Rightarrow> nat \<Rightarrow> u8 list \<Rightarrow> bytes" where
  "store_ring sp b n w [] = sp"
| "store_ring sp b n w (x # xs) = store_ring (sp(b + w := x)) b n ((w + 1) mod n) xs"

lemma store_ring_append:
  "w < n \<Longrightarrow> store_ring sp b n w (xs @ ys) = store_ring (store_ring sp b n w xs) b n ((w + length xs) mod n) ys"
proof (induction xs arbitrary: sp w)
  case (Cons x xs)
  have "((w + 1) mod n + length xs) mod n = (w + length (x # xs)) mod n" by (simp add: mod_add_left_eq)
  then show ?case using Cons.IH[of "(w + 1) mod n"] Cons.prems by simp
qed simp

lemma store_ring_chunk: "w + length xs \<le> n \<Longrightarrow> store_ring sp b n w xs = store_bytes sp (b + w) xs"
proof (induction xs arbitrary: sp w)
  case (Cons x xs)
  show ?case
  proof (cases "xs = []")
    case False
    then have "w + 1 < n" using Cons.prems by (cases xs) auto
    moreover have "store_ring (sp(b + w := x)) b n (w + 1) xs = store_bytes (sp(b + w := x)) (b + (w + 1)) xs"
      using Cons.prems by (intro Cons.IH) simp
    ultimately show ?thesis by simp
  qed simp
qed simp

lemma store_ring_other: "j < b \<or> b + n \<le> j \<Longrightarrow> w < n \<Longrightarrow> store_ring sp b n w xs j = sp j"
proof (induction xs arbitrary: sp w)
  case (Cons x xs)
  have "(w + 1) mod n < n" using Cons.prems by simp
  then have "store_ring (sp(b + w := x)) b n ((w + 1) mod n) xs j = (sp(b + w := x)) j" by (rule Cons.IH[OF Cons.prems(1)])
  then show ?case using Cons.prems by auto
qed simp

lemma ring_store_ring:
  assumes "f < n" and "w < n" and "ring_len n f w + length bs < n"
  shows "ring n (\<lambda>i. store_ring sp b n w bs (b + i)) f ((w + length bs) mod n) = ring n (\<lambda>i. sp (b + i)) f w @ bs"
  using assms
proof (induction bs arbitrary: sp w)
  case (Cons x xs)
  have ne: "(w + 1) mod n \<noteq> f" using Cons.prems ring_full_iff[OF Cons.prems(1,2)] by auto
  have "ring n (\<lambda>i. (sp(b + w := x)) (b + i)) f ((w + 1) mod n) = ring n (\<lambda>i. sp (b + i)) f w @ [x]"
    using ring_enq[OF Cons.prems(1,2) ne, of "\<lambda>i. sp (b + i)" x]
    by (simp add: fun_upd_def if_distrib cong: if_cong)
  moreover have "ring_len n f ((w + 1) mod n) + length xs < n"
    using Cons.prems ring_len_enq[OF Cons.prems(1,2) ne] by simp
  then have "ring n (\<lambda>i. store_ring (sp(b + w := x)) b n ((w + 1) mod n) xs (b + i)) f (((w + 1) mod n + length xs) mod n) =
      ring n (\<lambda>i. (sp(b + w := x)) (b + i)) f ((w + 1) mod n) @ xs"
    using Cons.prems by (intro Cons.IH) auto
  moreover have "((w + 1) mod n + length xs) mod n = (w + length (x # xs)) mod n" by (simp add: mod_add_left_eq)
  ultimately show ?case by simp
qed simp

lemma ring_store_full:
  assumes "f < n" and "w < n" and "ring_len n f w + k = n"
  shows "(w + k) mod n = f"
proof -
  have "(w + k) mod n = ((f + ring_len n f w) mod n + k) mod n" using ring_pos_end[OF assms(1,2)] by simp
  also have "\<dots> = (f + (ring_len n f w + k)) mod n" by (simp add: mod_add_left_eq add.assoc)
  finally show ?thesis using assms by simp
qed

lemma store_bytes_snoc: "store_bytes sp p (xs @ [x]) = (store_bytes sp p xs)(p + length xs := x)"
  by (induction xs arbitrary: sp p) auto

lemma u8_u32_u8: "ucast (ucast b :: u32) = (b :: u8)"
  by (rule bit_word_eqI) (auto simp: bit_simps)

text \<open>The copy loop.\<close>

lemma sbuf_copy:
  assumes d: "am_devs cfg (devs m)" and skip: "difftest_skip_ref (devs m) = devs m"
    and room: "w + length bs \<le> unat (CONFIG_SB_SIZE cfg)"
    and src: "guest_to_host cfg src + length bs \<le> unat (CONFIG_MSIZE cfg)"
    and bs: "\<And>i. i < length bs \<Longrightarrow> pmem m (guest_to_host cfg src + i) = bs ! i"
  shows "for_upto (copy_byte cfg (AUDIO_SBUF_ADDR + of_nat w) src) 0 (length bs) m =
    Inr (m\<lparr>devs := (devs m)\<lparr>io_space := store_bytes (io_space (devs m)) (sbuf (devs m) + w) bs\<rparr>\<rparr>)"
proof -
  let ?st = "\<lambda>i. m\<lparr>devs := (devs m)\<lparr>io_space := store_bytes (io_space (devs m)) (sbuf (devs m) + w) (take i bs)\<rparr>\<rparr>"
  have step: "copy_byte cfg (AUDIO_SBUF_ADDR + of_nat w) src i (?st i) = Inr (?st (Suc i))" if i: "i < length bs" for i
  proof -
    let ?d = "devs (?st i)"
    have "same_maps (devs m) ?d" by (simp add: same_maps_def)
    then have a: "am_devs cfg ?d" by (rule am_devs_same[OF d])
    have h: "has_map ?d AUDIO_SBUF_ADDR (CONFIG_SB_SIZE cfg) (sbuf (devs m)) None"
      using d by (simp add: am_devs_def has_map_def)
    have "difftest_skip_ref ((devs m)\<lparr>io_space := x\<rparr>) = (difftest_skip_ref (devs m))\<lparr>io_space := x\<rparr>" for x
      by (simp add: difftest_skip_ref_def)
    then have sk: "difftest_skip_ref ?d = ?d" using skip by simp
    have g: "guest_to_host cfg (src + of_nat i) = guest_to_host cfg src + i" using src i by (intro guest_to_host_add) simp
    have rd: "inb cfg (src + of_nat i) (?st i) = Inr (bs ! i, ?st i)"
      using src i bs[OF i] g
      by (simp add: inb_def vaddr_read_def paddr_read_pmem access_len_def u8_u32_u8)
    have "AUDIO_SBUF_ADDR + of_nat w + of_nat i = AUDIO_SBUF_ADDR + (of_nat (w + i) :: u32)" by (simp add: add.assoc)
    then have "outb cfg (AUDIO_SBUF_ADDR + of_nat w + of_nat i) (bs ! i) (?st i) = Inr (?st (Suc i))"
      unfolding outb_def using room i sk
      by (simp only:, subst reg_write[OF a h])
         (simp_all add: am_addrs access_len_def invoke_callback_def take_Suc_conv_app_nth store_bytes_snoc add.assoc u8_u32_u8)
    then show ?thesis using rd by (simp add: copy_byte_def)
  qed
  have "\<exists>s'. for_upto (copy_byte cfg (AUDIO_SBUF_ADDR + of_nat w) src) 0 (length bs) m = Inr s' \<and> s' = ?st (0 + length bs)"
    by (rule for_upto_inv[where P = "\<lambda>i s. s = ?st i"]) (use step in auto)
  then show ?thesis by simp
qed

text \<open>The registers the driver uses.\<close>

lemma audio_region: "am_devs cfg d \<Longrightarrow> has_map d AUDIO_ADDR 32 (audio_base d) (Some Audio_handler)"
  by (simp add: am_devs_def)

lemma audio_handler_plain:
  "run_handler cfg Audio_handler (of_nat (4 * reg_sbuf_size)) n False d = Inr d"
  "run_handler cfg Audio_handler (of_nat (4 * reg_wptr)) n w d = Inr d"
  by (simp_all add: run_handler_def audio_io_handler_def audio_regs)

lemma audio_reg_read:
  assumes "am_devs cfg (devs m)" and "i \<in> {reg_sbuf_size, reg_wptr}"
  shows "vaddr_read cfg (AUDIO_ADDR + of_nat (4 * i)) 4 m =
    Inr (reg32 (audio_base (devs m)) i (devs m), m\<lparr>devs := difftest_skip_ref (devs m)\<rparr>)"
proof -
  have "4 * i + 4 \<le> unat (32 :: u32)" "DEVICE_BASE \<le> AUDIO_ADDR" "access_len 4"
    using assms(2) by (auto simp: audio_regs am_addrs access_len_def)
  moreover have "run_handler cfg Audio_handler (of_nat (4 * i)) 4 False (difftest_skip_ref (devs m)) = Inr (difftest_skip_ref (devs m))"
    using assms(2) audio_handler_plain by blast
  ultimately show ?thesis
    by (subst reg_read[OF assms(1) audio_region[OF assms(1)]])
       (simp_all add: invoke_callback_def reg32_def del: read_le.simps of_nat_mult)
qed

definition queued :: "config \<Rightarrow> mem \<Rightarrow> u8 list \<Rightarrow> bytes \<Rightarrow> bool" where
  "queued cfg m q p \<longleftrightarrow> am_devs cfg (devs m) \<and> audio_ok (devs m) \<and> audio_ring (devs m) = q \<and> pmem m = p \<and>
     reg32 (audio_base (devs m)) reg_sbuf_size (devs m) = CONFIG_SB_SIZE cfg"

lemma set_reg32_maps: "same_maps d (set_reg32 b i v d)"
  by (simp add: same_maps_def set_reg32_def)

text \<open>A register that is not a position or the size does not matter.\<close>

lemma audio_other_reg:
  assumes "audio_ok d" and "i \<notin> {reg_sbuf_size, reg_wptr, reg_rptr}" and "i < nr_reg"
  shows "audio_ok (set_reg32 (audio_base d) i v d)" and "audio_ring (set_reg32 (audio_base d) i v d) = audio_ring d"
proof -
  have r: "reg32 (audio_base d) j (set_reg32 (audio_base d) i v d) = reg32 (audio_base d) j d" if "j \<in> {reg_sbuf_size, reg_wptr, reg_rptr}" for j
    using that assms(2) by (intro reg32_set_other) auto
  show "audio_ok (set_reg32 (audio_base d) i v d)" using assms(1) r by (simp add: audio_ok_def)
  show "audio_ring (set_reg32 (audio_base d) i v d) = audio_ring d"
    unfolding audio_ring_def set_reg32_fields
  proof (simp only: r insertI1 insertI2, rule ring_cong)
    show "0 < unat (reg32 (audio_base d) reg_sbuf_size d)" using assms(1) by (auto simp: audio_ok_def Let_def)
    fix k assume "k < unat (reg32 (audio_base d) reg_sbuf_size d)"
    then show "io_space (set_reg32 (audio_base d) i v d) (sbuf d + k) = io_space d (sbuf d + k)"
      using assms by (intro io_space_set_reg32_other) (auto simp: audio_ok_def Let_def)
  qed
qed

lemma count_reads:
  assumes "queued cfg m q p"
  shows "\<exists>m'. inl cfg AUDIO_COUNT_ADDR m = Inr (of_nat (length q), m') \<and> queued cfg m' q p"
proof -
  let ?d = "difftest_skip_ref (devs m)" and ?b = "audio_base (devs m)"
  have d: "am_devs cfg (devs m)" and ok: "audio_ok (devs m)" and sz: "reg32 ?b reg_sbuf_size (devs m) = CONFIG_SB_SIZE cfg"
    using assms by (simp_all add: queued_def)
  define c where "c = (reg32 ?b reg_wptr (devs m) + CONFIG_SB_SIZE cfg - reg32 ?b reg_rptr (devs m)) mod CONFIG_SB_SIZE cfg"
  have n: "unat (reg32 ?b reg_rptr (devs m)) < unat (CONFIG_SB_SIZE cfg)" "unat (reg32 ?b reg_wptr (devs m)) < unat (CONFIG_SB_SIZE cfg)"
    "unat (CONFIG_SB_SIZE cfg) \<le> 2 ^ 31"
    using ok sz by (simp_all add: audio_ok_def Let_def)
  then have w: "unat (reg32 ?b reg_wptr (devs m) + CONFIG_SB_SIZE cfg) = unat (reg32 ?b reg_wptr (devs m)) + unat (CONFIG_SB_SIZE cfg)"
    by (intro unat_add_no_wrap) simp
  have "unat (reg32 ?b reg_wptr (devs m) + CONFIG_SB_SIZE cfg - reg32 ?b reg_rptr (devs m)) =
      unat (reg32 ?b reg_wptr (devs m)) + unat (CONFIG_SB_SIZE cfg) - unat (reg32 ?b reg_rptr (devs m))"
    using n w by (subst unat_sub_no_wrap) (simp_all add: word_le_nat_alt)
  then have "unat c = length (audio_ring (devs m))"
    by (simp add: c_def unat_mod_distrib audio_ring_def ring_len_def sz)
  then have c: "c = of_nat (length q)" using assms by (metis queued_def word_nat_cases unat_of_nat_u32 of_nat_unat ucast_id)
  let ?m = "m\<lparr>devs := set_reg32 ?b reg_count c ?d\<rparr>"
  have "CONFIG_SB_SIZE cfg \<noteq> 0" using n by auto
  then have h: "run_handler cfg Audio_handler (of_nat (4 * reg_count)) 4 False ?d = Inr (set_reg32 ?b reg_count c ?d)"
    by (simp add: run_handler_def audio_io_handler_def audio_regs c_def)
  have r: "4 * reg_count + 4 \<le> unat (32 :: u32)" "DEVICE_BASE \<le> AUDIO_ADDR" "access_len 4"
    by (auto simp: audio_regs am_addrs access_len_def)
  have a: "AUDIO_COUNT_ADDR = AUDIO_ADDR + of_nat (4 * reg_count)" by (simp add: am_audio_addrs audio_regs)
  have "inl cfg AUDIO_COUNT_ADDR m = Inr (c, ?m)"
    unfolding inl_def a reg_read[OF d audio_region[OF d] r(2,3,1)]
    by (simp add: invoke_callback_def h read_le_4 reg32_set_same del: read_le.simps of_nat_mult)
  moreover have "queued cfg ?m q p"
  proof -
    have "am_devs cfg (set_reg32 ?b reg_count c ?d)"
      by (rule am_devs_same[OF d]) (simp add: same_maps_def set_reg32_def)
    moreover have "reg32 ?b reg_sbuf_size (set_reg32 ?b reg_count c ?d) = CONFIG_SB_SIZE cfg"
      using sz by (simp add: reg32_set_other audio_regs)
    ultimately show ?thesis
      using assms audio_other_reg[of ?d reg_count c] by (simp add: queued_def audio_regs)
  qed
  ultimately show ?thesis using c by blast
qed

text \<open>The wait: rounds of the audio thread until there is room.\<close>

fun wait_room :: "nat \<Rightarrow> nat \<Rightarrow> u32 list \<Rightarrow> u8 list \<Rightarrow> u8 list option" where
  "wait_room sz len [] q = (if len \<le> sz - length q then Some q else None)"
| "wait_room sz len (n # cbs) q = (if len \<le> sz - length q then Some q else wait_room sz len cbs (drop (unat n) q))"

lemma wait_room_Some: "wait_room sz len cbs q = Some q' \<Longrightarrow> len \<le> sz - length q'"
  by (induction cbs arbitrary: q) (auto split: if_splits)

text \<open>The wait ends once the audio thread has asked for as much as there is.\<close>

lemma wait_room_ends:
  assumes "len \<le> sz" and "length q \<le> (\<Sum>n \<leftarrow> cbs. unat n)"
  shows "\<exists>q'. wait_room sz len cbs q = Some q'"
  using assms
proof (induction cbs arbitrary: q)
  case (Cons n cbs)
  then show ?case by (cases "len \<le> sz - length q") auto
qed simp

lemma queued_callback:
  assumes "queued cfg m q p" and "sdl_audio_callback n (devs m) = Inr (bs, d')"
  shows "queued cfg (m\<lparr>devs := d'\<rparr>) (drop (unat n) q) p"
proof -
  have ok: "audio_ok (devs m)" and q: "audio_ring (devs m) = q" using assms(1) by (simp_all add: queued_def)
  obtain v where d': "d' = set_reg32 (audio_base (devs m)) reg_rptr v (devs m)"
    using assms(2) by (auto simp: sdl_audio_callback_def Let_def split: if_splits)
  have "am_devs cfg d'" unfolding d' using assms(1) by (intro am_devs_same[OF _ set_reg32_maps]) (simp add: queued_def)
  moreover have "reg32 (audio_base d') reg_sbuf_size d' = reg32 (audio_base (devs m)) reg_sbuf_size (devs m)"
    unfolding d' by (simp add: reg32_set_other audio_regs)
  ultimately show ?thesis
    using assms sdl_audio_plays[OF ok, of n] q by (auto simp: queued_def)
qed

lemma queued_length:
  assumes "queued cfg m q p"
  shows "length q < unat (CONFIG_SB_SIZE cfg)"
  using assms by (auto simp: queued_def audio_ring_def audio_ok_def Let_def intro!: ring_len_less)

lemma free_space:
  assumes "queued cfg m q p"
  shows "CONFIG_SB_SIZE cfg - of_nat (length q) \<ge> len \<longleftrightarrow> unat len \<le> unat (CONFIG_SB_SIZE cfg) - length q"
proof -
  have "unat (of_nat (length q) :: u32) = length q"
    using queued_length[OF assms] unat_u32_less[of "CONFIG_SB_SIZE cfg"] by (intro unat_of_nat_u32) simp
  then have "unat (CONFIG_SB_SIZE cfg - of_nat (length q)) = unat (CONFIG_SB_SIZE cfg) - length q"
    using queued_length[OF assms] by (subst unat_sub_no_wrap) (simp_all add: word_le_nat_alt)
  then show ?thesis by (simp add: word_le_nat_alt)
qed

lemma audio_waits:
  assumes "queued cfg m q p"
  shows "case wait_room (unat (CONFIG_SB_SIZE cfg)) (unat len) cbs q of
      None \<Rightarrow> audio_wait cfg (CONFIG_SB_SIZE cfg) len cbs m = None
    | Some q' \<Rightarrow> \<exists>m'. audio_wait cfg (CONFIG_SB_SIZE cfg) len cbs m = Some (Inr m') \<and> queued cfg m' q' p"
  using assms
proof (induction cbs arbitrary: m q)
  case Nil
  obtain m1 where m1: "inl cfg AUDIO_COUNT_ADDR m = Inr (of_nat (length q), m1)" "queued cfg m1 q p"
    using count_reads[OF Nil] by blast
  have "CONFIG_SB_SIZE cfg - of_nat (length q) \<ge> len \<longleftrightarrow> unat len \<le> unat (CONFIG_SB_SIZE cfg) - length q"
    by (rule free_space[OF Nil])
  then show ?case using m1 by (simp add: Let_def)
next
  case (Cons n cbs)
  obtain m1 where m1: "inl cfg AUDIO_COUNT_ADDR m = Inr (of_nat (length q), m1)" "queued cfg m1 q p"
    using count_reads[OF Cons.prems] by blast
  have fs: "CONFIG_SB_SIZE cfg - of_nat (length q) \<ge> len \<longleftrightarrow> unat len \<le> unat (CONFIG_SB_SIZE cfg) - length q"
    by (rule free_space[OF Cons.prems])
  obtain bs d' where d': "sdl_audio_callback n (devs m1) = Inr (bs, d')"
    using sdl_audio_plays[of "devs m1" n] m1(2) by (auto simp: queued_def)
  have step: "audio_wait cfg (CONFIG_SB_SIZE cfg) len (n # cbs) m =
      (if unat len \<le> unat (CONFIG_SB_SIZE cfg) - length q then Some (Inr m1)
       else audio_wait cfg (CONFIG_SB_SIZE cfg) len cbs (m1\<lparr>devs := d'\<rparr>))"
    using m1(1) fs d' by (simp add: Let_def)
  show ?case
    unfolding step using m1(2) Cons.IH[OF queued_callback[OF m1(2) d']] by simp
qed

text \<open>The two chunks are one run of the ring.\<close>

lemma put_chunks:
  assumes q: "queued cfg m q p" and skip: "difftest_skip_ref (devs m) = devs m"
    and w: "w < unat (CONFIG_SB_SIZE cfg)" and len: "length bs \<le> unat (CONFIG_SB_SIZE cfg)"
    and src: "guest_to_host cfg src + length bs \<le> unat (CONFIG_MSIZE cfg)"
    and bs: "\<And>i. i < length bs \<Longrightarrow> pmem m (guest_to_host cfg src + i) = bs ! i"
  defines "n1 \<equiv> unat (CONFIG_SB_SIZE cfg) - w"
  shows "(if length bs \<le> n1 then for_upto (copy_byte cfg (AUDIO_SBUF_ADDR + of_nat w) src) 0 (length bs) m
     else bind_res (for_upto (copy_byte cfg (AUDIO_SBUF_ADDR + of_nat w) src) 0 n1 m)
       (for_upto (copy_byte cfg AUDIO_SBUF_ADDR (src + of_nat n1)) 0 (length bs - n1))) =
    Inr (m\<lparr>devs := (devs m)\<lparr>io_space := store_ring (io_space (devs m)) (sbuf (devs m)) (unat (CONFIG_SB_SIZE cfg)) w bs\<rparr>\<rparr>)"
proof -
  have d: "am_devs cfg (devs m)" using q by (simp add: queued_def)
  let ?n = "unat (CONFIG_SB_SIZE cfg)"
  show ?thesis
  proof (cases "length bs \<le> n1")
    case True
    then have c: "w + length bs \<le> ?n" using w by (simp add: n1_def)
    show ?thesis using True sbuf_copy[OF d skip c src bs] store_ring_chunk[OF c] by simp
  next
    case False
    define xs ys where "xs = take n1 bs" and "ys = drop n1 bs"
    have bxy: "bs = xs @ ys" and lx: "length xs = n1" "length ys = length bs - n1" using False by (simp_all add: xs_def ys_def)
    have c1: "w + length xs \<le> ?n" using lx w by (simp add: n1_def)
    let ?m1 = "m\<lparr>devs := (devs m)\<lparr>io_space := store_bytes (io_space (devs m)) (sbuf (devs m) + w) xs\<rparr>\<rparr>"
    have l1: "for_upto (copy_byte cfg (AUDIO_SBUF_ADDR + of_nat w) src) 0 (length xs) m = Inr ?m1"
      using src bs lx False by (intro sbuf_copy[OF d skip c1]) (auto simp: xs_def)
    have d1: "am_devs cfg (devs ?m1)" by (rule am_devs_same[OF d]) (simp add: same_maps_def)
    have "difftest_skip_ref ((devs m)\<lparr>io_space := x\<rparr>) = (difftest_skip_ref (devs m))\<lparr>io_space := x\<rparr>" for x
      by (simp add: difftest_skip_ref_def)
    then have skip1: "difftest_skip_ref (devs ?m1) = devs ?m1" using skip by simp
    have c2: "0 + length ys \<le> ?n" using lx len by simp
    have g: "guest_to_host cfg (src + of_nat n1) = guest_to_host cfg src + n1"
      using src False by (intro guest_to_host_add) simp
    have l2: "for_upto (copy_byte cfg (AUDIO_SBUF_ADDR + of_nat 0) (src + of_nat n1)) 0 (length ys) ?m1 =
        Inr (?m1\<lparr>devs := (devs ?m1)\<lparr>io_space := store_bytes (io_space (devs ?m1)) (sbuf (devs ?m1) + 0) ys\<rparr>\<rparr>)"
      using src lx False bs[of "n1 + _"] by (intro sbuf_copy[OF d1 skip1 c2]) (auto simp: g ys_def add.assoc)
    have wr: "(w + n1) mod ?n = 0" using w by (simp add: n1_def)
    have "store_ring (io_space (devs m)) (sbuf (devs m)) ?n w bs =
        store_bytes (store_bytes (io_space (devs m)) (sbuf (devs m) + w) xs) (sbuf (devs m)) ys"
      unfolding bxy store_ring_append[OF w] lx(1) wr store_ring_chunk[OF c1] using store_ring_chunk[OF c2] by simp
    then show ?thesis using False l1 l2 lx by simp
  qed
qed

text \<open>Moving the write position over the stored bytes.\<close>

lemma audio_ring_stored:
  assumes ok: "audio_ok d" and room: "length (audio_ring d) + length bs \<le> n" and n: "n = unat (reg32 (audio_base d) reg_sbuf_size d)"
    and w: "w = unat (reg32 (audio_base d) reg_wptr d)" and v: "unat v = (w + length bs) mod n"
  defines "d' \<equiv> set_reg32 (audio_base d) reg_wptr v (d\<lparr>io_space := store_ring (io_space d) (sbuf d) n w bs\<rparr>)"
  shows "audio_ok d'" and "audio_ring d' = (if length (audio_ring d) + length bs = n then [] else audio_ring d @ bs)"
    and "reg32 (audio_base d) reg_sbuf_size d' = reg32 (audio_base d) reg_sbuf_size d"
proof -
  define f where "f = unat (reg32 (audio_base d) reg_rptr d)"
  have fw: "f < n" "w < n" "n \<le> 2 ^ 31" and apart: "sbuf d + n \<le> audio_base d \<or> audio_base d + 4 * nr_reg \<le> sbuf d"
    using ok by (simp_all add: audio_ok_def Let_def n w f_def)
  let ?s = "d\<lparr>io_space := store_ring (io_space d) (sbuf d) n w bs\<rparr>"
  have r0: "reg32 (audio_base d) i ?s = reg32 (audio_base d) i d" if "i < nr_reg" for i
    unfolding reg32_def using apart that fw by (intro read_le_cong) (auto intro!: store_ring_other)
  have base: "audio_base d' = audio_base d" "sbuf d' = sbuf d" by (simp_all add: d'_def)
  have r: "reg32 (audio_base d) reg_sbuf_size d' = reg32 (audio_base d) reg_sbuf_size d"
      "reg32 (audio_base d) reg_rptr d' = reg32 (audio_base d) reg_rptr d" "reg32 (audio_base d) reg_wptr d' = v"
    unfolding d'_def by (auto simp: reg32_set_same reg32_set_other audio_regs) (auto simp: r0 audio_regs)
  show "reg32 (audio_base d) reg_sbuf_size d' = reg32 (audio_base d) reg_sbuf_size d" by (rule r(1))
  show "audio_ok d'" using ok fw unfolding audio_ok_def Let_def base r v n[symmetric] by simp
  have "audio_ring d' = ring n (\<lambda>i. io_space d' (sbuf d + i)) f ((w + length bs) mod n)"
    unfolding audio_ring_def base r v n[symmetric] f_def ..
  also have "\<dots> = ring n (\<lambda>i. store_ring (io_space d) (sbuf d) n w bs (sbuf d + i)) f ((w + length bs) mod n)"
  proof (rule ring_cong)
    fix i assume "i < n"
    then have "io_space d' (sbuf d + i) = io_space ?s (sbuf d + i)"
      unfolding d'_def using apart by (intro io_space_set_reg32_other) (auto simp: audio_regs)
    then show "io_space d' (sbuf d + i) = store_ring (io_space d) (sbuf d) n w bs (sbuf d + i)" by simp
  qed (use fw in simp)
  finally have ar: "audio_ring d' = ring n (\<lambda>i. store_ring (io_space d) (sbuf d) n w bs (sbuf d + i)) f ((w + length bs) mod n)" .
  have old: "audio_ring d = ring n (\<lambda>i. io_space d (sbuf d + i)) f w" by (simp add: audio_ring_def n f_def w)
  show "audio_ring d' = (if length (audio_ring d) + length bs = n then [] else audio_ring d @ bs)"
  proof (cases "length (audio_ring d) + length bs = n")
    case True
    then have "(w + length bs) mod n = f" using fw by (intro ring_store_full) (simp_all add: old)
    then have "audio_ring d' = []" unfolding ar using fw by (simp add: ring_empty_iff)
    then show ?thesis using True by simp
  next
    case False
    then have "ring_len n f w + length bs < n" using room by (simp add: old)
    then show ?thesis using False ring_store_ring[OF fw(1,2)] unfolding ar old by simp
  qed
qed

lemma audio_put_eq:
  assumes q: "queued cfg m q p" and len: "length bs = unat len" and room: "unat len \<le> unat (CONFIG_SB_SIZE cfg) - length q"
    and src: "guest_to_host cfg src + length bs \<le> unat (CONFIG_MSIZE cfg)"
    and bs: "\<And>i. i < length bs \<Longrightarrow> p (guest_to_host cfg src + i) = bs ! i"
  defines "w \<equiv> reg32 (audio_base (devs m)) reg_wptr (devs m)" and "n \<equiv> unat (CONFIG_SB_SIZE cfg)"
    and "d1 \<equiv> difftest_skip_ref (devs m)"
  shows "\<exists>v. unat v = (unat w + length bs) mod n \<and> audio_put cfg (CONFIG_SB_SIZE cfg) src len m =
    Inr (m\<lparr>devs := set_reg32 (audio_base (devs m)) reg_wptr v (d1\<lparr>io_space := store_ring (io_space d1) (sbuf d1) n (unat w) bs\<rparr>)\<rparr>)"
proof -
  have d: "am_devs cfg (devs m)" and pm: "pmem m = p" using q by (simp_all add: queued_def)
  have n: "unat w < n" using q by (auto simp: queued_def audio_ok_def Let_def w_def n_def)
  have "has_map (devs m) AUDIO_SBUF_ADDR (CONFIG_SB_SIZE cfg) (sbuf (devs m)) None" using d by (simp add: am_devs_def)
  then have small: "n \<le> 2 ^ 29" by (simp add: has_map_def IO_SPACE_MAX_def n_def)
  let ?m1 = "m\<lparr>devs := d1\<rparr>"
  have a: "AUDIO_WPTR_ADDR = AUDIO_ADDR + of_nat (4 * reg_wptr)" by (simp add: am_audio_addrs audio_regs)
  have rd: "inl cfg AUDIO_WPTR_ADDR m = Inr (w, ?m1)"
    unfolding inl_def a w_def d1_def by (rule audio_reg_read[OF d]) simp
  have d1: "am_devs cfg (devs ?m1)" by (rule am_devs_same[OF d]) (simp add: same_maps_def d1_def)
  have q1: "queued cfg ?m1 q p" using q d1 by (simp add: queued_def d1_def)
  have skip1: "difftest_skip_ref (devs ?m1) = devs ?m1" by (simp add: difftest_skip_ref_def d1_def)
  define fc where "fc = CONFIG_SB_SIZE cfg - w"
  have fc: "unat fc = n - unat w" unfolding fc_def n_def using n by (intro unat_sub_no_wrap) (simp add: word_le_nat_alt n_def)
  have lle: "len \<le> fc \<longleftrightarrow> length bs \<le> n - unat w" by (simp add: word_le_nat_alt fc len)
  have l29: "unat len \<le> 2 ^ 29" using room small unfolding n_def by linarith
  have "(2 :: nat) ^ 29 < 2 ^ 31" by simp
  then have sl: "nat (sint len) = length bs" unfolding len using l29 by (intro sint_small) (rule le_less_trans)
  have rest: "unat (len - fc) = length bs - (n - unat w)" if "\<not> len \<le> fc"
    using that len fc by (subst unat_sub_no_wrap) simp_all
  have wn: "of_nat (unat w) = w" and fn: "of_nat (n - unat w) = fc" by (simp, simp add: fc[symmetric])
  have lenle: "length bs \<le> n" using room len unfolding n_def by linarith
  have pmbs: "\<And>i. i < length bs \<Longrightarrow> pmem ?m1 (guest_to_host cfg src + i) = bs ! i" using bs pm by simp
  let ?d2 = "d1\<lparr>io_space := store_ring (io_space d1) (sbuf d1) n (unat w) bs\<rparr>"
  note put = put_chunks[OF q1 skip1 n[unfolded n_def] lenle[unfolded n_def] src pmbs, folded n_def, unfolded wn fn]
  have chunks: "(if len \<le> fc then for_upto (copy_byte cfg (AUDIO_SBUF_ADDR + w) src) 0 (nat (sint len)) ?m1
      else bind_res (for_upto (copy_byte cfg (AUDIO_SBUF_ADDR + w) src) 0 (unat fc) ?m1)
        (for_upto (copy_byte cfg AUDIO_SBUF_ADDR (src + fc)) 0 (unat (len - fc)))) = Inr (m\<lparr>devs := ?d2\<rparr>)"
  proof (cases "len \<le> fc")
    case True
    then show ?thesis using put lle by (simp add: sl)
  next
    case False
    then show ?thesis using put lle rest[OF False] by (simp add: fc)
  qed
  define v where "v = (w + len) mod CONFIG_SB_SIZE cfg"
  have "unat w + unat len < 2 ^ LENGTH(32)" using n small l29 by simp
  then have v: "unat v = (unat w + length bs) mod n" by (simp add: v_def unat_mod_distrib len unat_add_no_wrap n_def)
  have d2: "am_devs cfg (devs (m\<lparr>devs := ?d2\<rparr>))" by (rule am_devs_same[OF d]) (simp add: same_maps_def d1_def)
  have r: "4 * reg_wptr + 4 \<le> unat (32 :: u32)" "DEVICE_BASE \<le> AUDIO_ADDR" "access_len 4"
    by (auto simp: audio_regs am_addrs access_len_def)
  have "difftest_skip_ref ?d2 = ?d2" by (simp add: d1_def difftest_skip_ref_def)
  then have "outl cfg AUDIO_WPTR_ADDR v (m\<lparr>devs := ?d2\<rparr>) = Inr (m\<lparr>devs := set_reg32 (audio_base (devs m)) reg_wptr v ?d2\<rparr>)"
    unfolding outl_def a reg_write[OF d2 audio_region[OF d2] r(2,3,1)]
    by (simp add: invoke_callback_def audio_handler_plain set_reg32_def d1_def del: of_nat_mult write_le.simps)
  moreover have "CONFIG_SB_SIZE cfg \<noteq> 0" using n unfolding n_def by auto
  ultimately have "audio_put cfg (CONFIG_SB_SIZE cfg) src len m = Inr (m\<lparr>devs := set_reg32 (audio_base (devs m)) reg_wptr v ?d2\<rparr>)"
    unfolding audio_put_def rd bind_res_Inr prod.case Let_def fc_def[symmetric] chunks v_def[symmetric] by simp
  then show ?thesis using v by blast
qed

lemma audio_puts:
  assumes q: "queued cfg m q p" and len: "length bs = unat len" and room: "unat len \<le> unat (CONFIG_SB_SIZE cfg) - length q"
    and src: "guest_to_host cfg src + length bs \<le> unat (CONFIG_MSIZE cfg)"
    and bs: "\<And>i. i < length bs \<Longrightarrow> p (guest_to_host cfg src + i) = bs ! i"
  shows "\<exists>m'. audio_put cfg (CONFIG_SB_SIZE cfg) src len m = Inr m' \<and>
    queued cfg m' (if length q + length bs = unat (CONFIG_SB_SIZE cfg) then [] else q @ bs) p"
proof -
  let ?n = "unat (CONFIG_SB_SIZE cfg)" and ?b = "audio_base (devs m)" and ?d1 = "difftest_skip_ref (devs m)"
  let ?w = "unat (reg32 ?b reg_wptr (devs m))"
  obtain v where v: "unat v = (?w + length bs) mod ?n" and put: "audio_put cfg (CONFIG_SB_SIZE cfg) src len m =
      Inr (m\<lparr>devs := set_reg32 ?b reg_wptr v (?d1\<lparr>io_space := store_ring (io_space ?d1) (sbuf ?d1) ?n ?w bs\<rparr>)\<rparr>)"
    using audio_put_eq[OF q len room src bs] by blast
  let ?d3 = "set_reg32 ?b reg_wptr v (?d1\<lparr>io_space := store_ring (io_space ?d1) (sbuf ?d1) ?n ?w bs\<rparr>)"
  have q': "am_devs cfg (devs m)" "audio_ok ?d1" "audio_ring ?d1 = q" "pmem m = p" "reg32 ?b reg_sbuf_size ?d1 = CONFIG_SB_SIZE cfg"
    using q by (simp_all add: queued_def)
  have "am_devs cfg ?d3" by (rule am_devs_same[OF q'(1)]) (simp add: same_maps_def set_reg32_def)
  moreover have "length (audio_ring ?d1) + length bs \<le> ?n" using q'(3) room len queued_length[OF q] by simp
  then have "audio_ok ?d3" "audio_ring ?d3 = (if length q + length bs = ?n then [] else q @ bs)"
    "reg32 ?b reg_sbuf_size ?d3 = CONFIG_SB_SIZE cfg"
    using audio_ring_stored[OF q'(2) _ _ _ v] q'(3,5) by simp_all
  ultimately show ?thesis unfolding put using q'(4) by (simp add: queued_def)
qed

section \<open>Screen\<close>

definition pixel :: "config \<Rightarrow> dev \<Rightarrow> nat \<Rightarrow> nat \<Rightarrow> u32" where
  "pixel cfg d x y = reg32 (vmem d) (y * unat (screen_width cfg) + x) d"

text \<open>The size register is set and its region lies apart from the video memory.\<close>

definition screen_ok :: "config \<Rightarrow> dev \<Rightarrow> bool" where
  "screen_ok cfg d \<longleftrightarrow> reg32 (vgactl_port_base d) 0 d = push_bit 16 (screen_width cfg) OR screen_height cfg \<and>
     (vmem d + unat (screen_size cfg) \<le> vgactl_port_base d \<or> vgactl_port_base d + 8 \<le> vmem d)"

lemma screen_dims:
  "unat (screen_size cfg) = 4 * (unat (screen_width cfg) * unat (screen_height cfg))" "unat (screen_width cfg) < 2 ^ 16"
  by (simp_all add: screen_size_def screen_width_def screen_height_def)

lemma row_inj:
  assumes "y * w + x = y' * w + x'" and "x < w" and "x' < (w :: nat)"
  shows "y = y' \<and> x = x'"
proof -
  have "(y * w + x) div w = (y' * w + x') div w" "(y * w + x) mod w = (y' * w + x') mod w" using assms(1) by simp_all
  then show ?thesis using assms(2,3) by simp
qed

lemma read_le_4_bytes:
  "read_le sp p 4 = push_bit 8 (push_bit 8 (push_bit 8 (ucast (sp (p + 3))) OR ucast (sp (p + 2))) OR ucast (sp (p + 1))) OR ucast (sp p)"
  by (simp add: numeral_eq_Suc)

lemma read_le_high: "read_le sp (b + 2) 2 = drop_bit 16 (read_le sp b 4)"
proof -
  have two: "read_le sp p 2 = push_bit 8 (ucast (sp (p + 1))) OR ucast (sp p)" for p by (simp add: numeral_eq_Suc)
  have "push_bit 8 (ucast w) OR ucast z =
      drop_bit 16 (push_bit 8 (push_bit 8 (push_bit 8 (ucast w) OR ucast z) OR ucast y) OR ucast x :: u32)" for x y z w :: u8
    by (rule bit_word_eqI) (auto simp: bit_drop_bit_eq bit_or_iff bit_push_bit_iff bit_ucast_iff dest: bit_imp_le_length)
  moreover have "b + 2 + 1 = b + 3" by simp
  ultimately show ?thesis unfolding two read_le_4_bytes by (simp only:)
qed

lemma width_reads:
  assumes "am_devs cfg (devs m)" and "screen_ok cfg (devs m)"
  shows "inw cfg (VGACTL_ADDR + 2) m = Inr (ucast (screen_width cfg), m\<lparr>devs := difftest_skip_ref (devs m)\<rparr>)"
proof -
  have h: "has_map (devs m) VGACTL_ADDR 8 (vgactl_port_base (devs m)) None" using assms(1) by (simp add: am_devs_def)
  have r: "DEVICE_BASE \<le> VGACTL_ADDR" "access_len 2" "2 + 2 \<le> unat (8 :: u32)" by (simp_all add: am_addrs access_len_def)
  have "vaddr_read cfg (VGACTL_ADDR + of_nat 2) 2 m = Inr (read_le (io_space (devs m)) (vgactl_port_base (devs m) + 2) 2,
      m\<lparr>devs := difftest_skip_ref (devs m)\<rparr>)"
    unfolding reg_read[OF assms(1) h r] by (simp add: invoke_callback_def del: read_le.simps)
  moreover have "ucast (drop_bit 16 (push_bit 16 (screen_width cfg) OR screen_height cfg)) = (ucast (screen_width cfg) :: u16)"
    by (simp add: screen_width_def screen_height_def)
  then have "ucast (read_le (io_space (devs m)) (vgactl_port_base (devs m) + 2) 2) = (ucast (screen_width cfg) :: u16)"
    unfolding read_le_high using assms(2) by (simp add: screen_ok_def reg32_def)
  ultimately show ?thesis by (simp add: inw_def)
qed

text \<open>What is drawn before the pixel in row \<open>Y\<close> and column \<open>X\<close> of the rectangle.\<close>

definition drawn :: "am_fbdraw \<Rightarrow> nat \<Rightarrow> nat \<Rightarrow> nat \<Rightarrow> nat \<Rightarrow> bool" where
  "drawn ctl Y X x y \<longleftrightarrow> unat (fb_x ctl) \<le> x \<and> x < unat (fb_x ctl) + unat (fb_w ctl) \<and> unat (fb_y ctl) \<le> y \<and>
     (y < unat (fb_y ctl) + Y \<or> y = unat (fb_y ctl) + Y \<and> x < unat (fb_x ctl) + X)"

definition source_pixel :: "config \<Rightarrow> am_fbdraw \<Rightarrow> mem \<Rightarrow> nat \<Rightarrow> nat \<Rightarrow> u32" where
  "source_pixel cfg ctl m x y = read_le (pmem m) (guest_to_host cfg (pixels ctl) + 4 * (y * unat (fb_w ctl) + x)) 4"

definition draw_inv :: "config \<Rightarrow> am_fbdraw \<Rightarrow> mem \<Rightarrow> nat \<Rightarrow> nat \<Rightarrow> mem \<Rightarrow> bool" where
  "draw_inv cfg ctl m Y X m' \<longleftrightarrow> pmem m' = pmem m \<and> same_maps (devs m) (devs m') \<and>
     reg32 (vgactl_port_base (devs m)) 1 (devs m') = reg32 (vgactl_port_base (devs m)) 1 (devs m) \<and>
     (\<forall>x < unat (screen_width cfg). \<forall>y < unat (screen_height cfg). pixel cfg (devs m') x y =
        (if drawn ctl Y X x y then source_pixel cfg ctl m (x - unat (fb_x ctl)) (y - unat (fb_y ctl)) else pixel cfg (devs m) x y))"

definition rect_ok :: "config \<Rightarrow> am_fbdraw \<Rightarrow> bool" where
  "rect_ok cfg ctl \<longleftrightarrow> unat (fb_x ctl) + unat (fb_w ctl) \<le> unat (screen_width cfg) \<and>
     unat (fb_y ctl) + unat (fb_h ctl) \<le> unat (screen_height cfg) \<and>
     guest_to_host cfg (pixels ctl) + 4 * (unat (fb_w ctl) * unat (fb_h ctl)) \<le> unat (CONFIG_MSIZE cfg)"

lemma index_bound: "y < h \<Longrightarrow> x < w \<Longrightarrow> y * w + x < w * (h :: nat)"
proof -
  assume "y < h" "x < w"
  then have "y * w + x < Suc y * w" by simp
  also have "\<dots> \<le> h * w" using \<open>y < h\<close> by (intro mult_le_mono1) simp
  finally show ?thesis by (simp add: mult.commute)
qed

lemma source_reads:
  assumes "rect_ok cfg ctl" and "y < unat (fb_h ctl)" and "x < unat (fb_w ctl)"
  shows "vaddr_read cfg (pixels ctl + 4 * (of_nat y * fb_w ctl + of_nat x)) 4 m = Inr (source_pixel cfg ctl m x y, m)"
proof -
  let ?k = "y * unat (fb_w ctl) + x"
  have k: "?k < unat (fb_w ctl) * unat (fb_h ctl)" by (rule index_bound[OF assms(2,3)])
  have "4 * (of_nat y * fb_w ctl + of_nat x) = (of_nat (4 * ?k) :: u32)" by simp
  moreover have "guest_to_host cfg (pixels ctl) + 4 * ?k + 4 \<le> unat (CONFIG_MSIZE cfg)" using assms(1) k by (simp add: rect_ok_def)
  moreover from this have "guest_to_host cfg (pixels ctl + of_nat (4 * ?k)) = guest_to_host cfg (pixels ctl) + 4 * ?k"
    by (intro guest_to_host_add) simp
  ultimately show ?thesis
    unfolding vaddr_read_def by (simp only:) (subst paddr_read_pmem, simp_all add: access_len_def source_pixel_def del: read_le.simps of_nat_mult of_nat_add)
qed

lemma draw_step:
  assumes d: "am_devs cfg (devs m)" and s: "screen_ok cfg (devs m)" and r: "rect_ok cfg ctl"
    and y: "y < unat (fb_h ctl)" and x: "x < unat (fb_w ctl)" and inv: "draw_inv cfg ctl m y x m'"
  shows "\<exists>m''. draw_pixel cfg (screen_width cfg) ctl y x m' = Inr m'' \<and> draw_inv cfg ctl m y (Suc x) m''"
proof -
  let ?W = "unat (screen_width cfg)" and ?px = "unat (fb_x ctl) + x" and ?py = "unat (fb_y ctl) + y"
  let ?k = "?py * ?W + ?px" and ?v = "source_pixel cfg ctl m x y"
  have dm: "same_maps (devs m) (devs m')" and pm: "pmem m' = pmem m" using inv by (simp_all add: draw_inv_def)
  have d': "am_devs cfg (devs m')" by (rule am_devs_same[OF d dm])
  have vm: "vmem (devs m') = vmem (devs m)" using dm by (simp add: same_maps_def)
  have p: "?px < ?W" "?py < unat (screen_height cfg)" using r x y by (simp_all add: rect_ok_def)
  have k: "?k < ?W * unat (screen_height cfg)" by (rule index_bound[OF p(2,1)])
  have h: "has_map (devs m') FB_ADDR (screen_size cfg) (vmem (devs m)) None" using d' vm by (simp add: am_devs_def)
  have b: "DEVICE_BASE \<le> FB_ADDR" "access_len 4" "4 * ?k + 4 \<le> unat (screen_size cfg)"
    using k by (simp_all add: am_addrs access_len_def screen_dims)
  let ?d = "set_reg32 (vmem (devs m)) ?k ?v (difftest_skip_ref (devs m'))"
  have "FB_ADDR + 4 * ((fb_y ctl + of_nat y) * screen_width cfg + fb_x ctl + of_nat x) = FB_ADDR + of_nat (4 * ?k)"
    by (simp add: algebra_simps)
  moreover have "vaddr_write cfg (FB_ADDR + of_nat (4 * ?k)) 4 ?v m' = Inr (m'\<lparr>devs := ?d\<rparr>)"
    unfolding reg_write[OF d' h b] by (simp add: invoke_callback_def set_reg32_def del: of_nat_mult write_le.simps)
  ultimately have dp: "draw_pixel cfg (screen_width cfg) ctl y x m' = Inr (m'\<lparr>devs := ?d\<rparr>)"
    unfolding draw_pixel_def source_reads[OF r y x] using pm by (simp only: source_pixel_def bind_res_Inr prod.case)
  have "same_maps (devs m) ?d" using dm by (simp add: same_maps_def set_reg32_def)
  moreover have "reg32 (vgactl_port_base (devs m)) 1 ?d = reg32 (vgactl_port_base (devs m)) 1 (devs m')"
    using s b(3) unfolding reg32_def set_reg32_def screen_ok_def
    by (auto simp del: read_le.simps write_le.simps intro!: read_write_le_disjoint)
  moreover have "pixel cfg ?d x' y' = (if x' = ?px \<and> y' = ?py then ?v else pixel cfg (devs m') x' y')"
    if "x' < ?W" for x' y'
  proof (cases "x' = ?px \<and> y' = ?py")
    case True
    have "vmem ?d = vmem (devs m)" by (simp add: set_reg32_def vm)
    then show ?thesis using True by (simp only: pixel_def reg32_set_same simp_thms if_True)
  next
    case False
    then have "y' * ?W + x' \<noteq> ?k" using row_inj[OF _ that p(1)] by blast
    moreover have "vmem ?d = vmem (devs m)" by (simp add: set_reg32_def vm)
    ultimately show ?thesis using False vm by (simp only: pixel_def if_False) (simp add: reg32_set_other)
  qed
  ultimately have "draw_inv cfg ctl m y (Suc x) (m'\<lparr>devs := ?d\<rparr>)"
    using inv pm x unfolding draw_inv_def by (auto simp: drawn_def)
  then show ?thesis using dp by blast
qed

lemma draw_row:
  assumes d: "am_devs cfg (devs m)" and s: "screen_ok cfg (devs m)" and r: "rect_ok cfg ctl" and y: "y < unat (fb_h ctl)"
    and inv: "draw_inv cfg ctl m y 0 m'"
  shows "\<exists>m''. for_upto (draw_pixel cfg (screen_width cfg) ctl y) 0 (unat (fb_w ctl)) m' = Inr m'' \<and> draw_inv cfg ctl m (Suc y) 0 m''"
proof -
  have "\<exists>m''. for_upto (draw_pixel cfg (screen_width cfg) ctl y) 0 (unat (fb_w ctl)) m' = Inr m'' \<and>
      draw_inv cfg ctl m y (0 + unat (fb_w ctl)) m''"
    by (rule for_upto_inv[where P = "draw_inv cfg ctl m y"]) (use inv draw_step[OF d s r y] in auto)
  moreover have "drawn ctl y (unat (fb_w ctl)) = drawn ctl (Suc y) 0" by (auto simp: drawn_def fun_eq_iff)
  ultimately show ?thesis by (simp add: draw_inv_def)
qed

lemma draw_all:
  assumes d: "am_devs cfg (devs m)" and s: "screen_ok cfg (devs m)" and r: "rect_ok cfg ctl" and inv: "draw_inv cfg ctl m 0 0 m'"
  shows "\<exists>m''. for_upto (\<lambda>y. for_upto (draw_pixel cfg (screen_width cfg) ctl y) 0 (unat (fb_w ctl))) 0 (unat (fb_h ctl)) m' = Inr m'' \<and>
    draw_inv cfg ctl m (unat (fb_h ctl)) 0 m''"
proof -
  have "\<exists>m''. for_upto (\<lambda>y. for_upto (draw_pixel cfg (screen_width cfg) ctl y) 0 (unat (fb_w ctl))) 0 (unat (fb_h ctl)) m' = Inr m'' \<and>
    draw_inv cfg ctl m (0 + unat (fb_h ctl)) 0 m''"
    by (rule for_upto_inv[where P = "\<lambda>y. draw_inv cfg ctl m y 0"]) (use inv draw_row[OF d s r] in auto)
  then show ?thesis by simp
qed

text \<open>The synchronisation request.\<close>

lemma sync_writes:
  assumes "am_devs cfg (devs m)"
  shows "outl cfg SYNC_ADDR v m = Inr (m\<lparr>devs := set_reg32 (vgactl_port_base (devs m)) 1 v (difftest_skip_ref (devs m))\<rparr>)"
proof -
  have h: "has_map (devs m) VGACTL_ADDR 8 (vgactl_port_base (devs m)) None" using assms by (simp add: am_devs_def)
  have r: "DEVICE_BASE \<le> VGACTL_ADDR" "access_len 4" "4 + 4 \<le> unat (8 :: u32)" by (simp_all add: am_addrs access_len_def)
  have a: "SYNC_ADDR = VGACTL_ADDR + of_nat 4" by (simp add: SYNC_ADDR_def)
  show ?thesis
    unfolding outl_def a reg_write[OF assms h r] by (simp add: invoke_callback_def set_reg32_def del: write_le.simps)
qed

section \<open>The default machine\<close>

text \<open>The devices as \<open>init_device\<close> leaves them in the default configuration.\<close>

definition default_space :: bytes where
  "default_space = write_le (\<lambda>i. if 499712 \<le> i \<and> i < 499744 then 0 else
     write_le (\<lambda>i. if 12288 \<le> i \<and> i < 492288 then 0 else write_le (\<lambda>_. 0) 8192 4 26214700 i) 495616 4 0 i) 499724 4 65536"

definition default_dev :: "(string \<Rightarrow> u8) \<Rightarrow> dev" where
  "default_dev sdl = dev0\<lparr>io_space := default_space, p_space := 569344,
     mmio_maps := [\<lparr>name = ''serial'', low = 0xa00003f8, high = 0xa00003ff, space = 0, callback = Some Serial_handler\<rparr>,
       \<lparr>name = ''rtc'', low = 0xa0000048, high = 0xa000004f, space = 4096, callback = Some Rtc_handler\<rparr>,
       \<lparr>name = ''vgactl'', low = 0xa0000100, high = 0xa0000107, space = 8192, callback = None\<rparr>,
       \<lparr>name = ''vmem'', low = 0xa1000000, high = 0xa10752ff, space = 12288, callback = None\<rparr>,
       \<lparr>name = ''keyboard'', low = 0xa0000060, high = 0xa0000063, space = 495616, callback = Some I8042_handler\<rparr>,
       \<lparr>name = ''audio'', low = 0xa0000200, high = 0xa000021f, space = 499712, callback = Some Audio_handler\<rparr>,
       \<lparr>name = ''audio-sbuf'', low = 0xa1200000, high = 0xa120ffff, space = 503808, callback = None\<rparr>],
     rtc_port_base := 4096, keymap := init_keys sdl 1 NEMU_KEYS (\<lambda>_. 0), i8042_data_port_base := 495616, vgactl_port_base := 8192,
     vmem := 12288, audio_base := 499712, sbuf := 503808, alarm_handlers := [Timer_intr]\<rparr>"

lemma default_init: "init_device default_config sdl None dev0 = Inr (default_dev sdl)"
  by (simp add: init_device_def when_res_def default_sel init_serial_def init_timer_def init_vga_def init_i8042_def init_audio_def
      add_io_map_def add_mmio_map_def new_space_def assert_res_def in_pmem_def overlaps_def init_map_def dev0_def clear_space_def
      NR_MAP_def IO_SPACE_MAX_def PAGE_SIZE_def screen_size_def screen_width_def screen_height_def set_reg32_def
      add_alarm_handle_def MAX_HANDLER_def init_keymap_def nr_reg_def Let_def default_dev_def default_space_def NEMU_KEY_NONE_def
      reg_sbuf_size_def cong: if_cong del: init_keys.simps write_le.simps)

lemma not_in_pmem_default: "0xa0000000 \<le> a \<Longrightarrow> \<not> in_pmem default_config a"
proof -
  assume a: "0xa0000000 \<le> a"
  then have "unat (a - 0x80000000) = unat a - 0x80000000"
    using word_le_nat_alt[of "0xa0000000" a] by (subst unat_sub_no_wrap) (simp_all add: word_le_nat_alt)
  then show ?thesis using a by (simp add: in_pmem_def default_sel word_less_nat_alt word_le_nat_alt)
qed

lemma default_am_devs: "am_devs default_config (default_dev sdl)"
  using not_in_pmem_default
  by (simp add: am_devs_def default_dev_def dev0_def has_map_def am_addrs maps_ok_def map_wf_def maps_disjoint_def overlaps_def
      NR_MAP_def IO_SPACE_MAX_def default_sel screen_size_def screen_width_def screen_height_def)

lemma default_regs:
  "reg32 499712 reg_sbuf_size (default_dev sdl) = 0x10000" "reg32 499712 reg_rptr (default_dev sdl) = 0"
  "reg32 499712 reg_wptr (default_dev sdl) = 0" "reg32 8192 0 (default_dev sdl) = 26214700"
  by (simp_all add: reg32_def default_dev_def default_space_def dev0_def audio_regs read_le_4_bytes write_le_4 drop_bit_eq_div
      del: read_le.simps write_le.simps)

section \<open>Properties\<close>

text \<open>C26: key events of the window system reach a program through the keyboard driver: after a burst of at most 1023
  events on mapped keys, polling the driver returns exactly those events in order, with key and direction, and then
  no key.\<close>

theorem keyboard_events_arrive:
  assumes "am_devs cfg d" and "CONFIG_HAS_KEYBOARD cfg" and "key_inv d" and "keys d = []" and "length evs < KEY_QUEUE_LEN"
    and "\<And>k down. (k, down) \<in> set evs \<Longrightarrow> keymap d k \<noteq> NEMU_KEY_NONE \<and> keymap d k AND AM_KEYDOWN_MASK = 0"
  shows "\<exists>d' m'. poll_events cfg (map (\<lambda>(k, down). SDL_KEY k down) evs) NEMU_RUNNING d = Inr (NEMU_RUNNING, d') \<and>
    read_keys cfg (length evs + n) \<lparr>pmem = p, devs = d'\<rparr> =
      Inr (map (\<lambda>(k, down). (down, keymap d k)) evs @ replicate n (False, 0), m')"
proof -
  let ?code = "\<lambda>(k, down). keymap d k OR (if down then KEYDOWN_MASK else 0)"
  obtain d1 d2 where d1: "enq_all key_enqueue (map ?code evs) d = Inr d1"
    and d2: "deq_many key_dequeue (length (map ?code evs) + n) d1 = (map ?code evs @ replicate n NEMU_KEY_NONE, d2)"
    using kbd.fifo[OF assms(3,4), of "map ?code evs" n] assms(5) by (auto simp: KEY_QUEUE_LEN_def)
  have poll: "poll_events cfg (map (\<lambda>(k, down). SDL_KEY k down) evs) NEMU_RUNNING d = Inr (NEMU_RUNNING, d1)"
    using assms(2,6) d1 by (intro poll_keys) auto
  have "am_devs cfg d1" by (rule am_devs_same[OF assms(1) poll_events_maps[OF poll]])
  then obtain m' where "read_keys cfg (length evs + n) \<lparr>pmem = p, devs = d1\<rparr> = Inr (map am_key (map ?code evs @ replicate n NEMU_KEY_NONE), m')"
    using read_keys_deq[where d = d1 and i = "io_space d1" and s = "is_skip_ref d1" and n' = "skip_dut_nr_inst d1"
      and m = "\<lparr>pmem = p, devs = d1\<rparr>"] d2 by fastforce
  moreover have "map am_key (map ?code evs) = map (\<lambda>(k, down). (down, keymap d k)) evs"
    using assms(6) by (auto simp: am_key_code)
  moreover have "am_key NEMU_KEY_NONE = (False, 0)" by (simp add: am_key_def NEMU_KEY_NONE_def)
  ultimately show ?thesis using poll by auto
qed

lemma default_keys: "key_inv (default_dev sdl)" "keys (default_dev sdl) = []"
  by (simp_all add: key_inv_def keys_def ring_def ring_len_def default_dev_def dev0_def KEY_QUEUE_LEN_def)

lemma default_keymap_A: "keymap (default_dev (\<lambda>s. if s = ''A'' then 4 else 0)) 4 = 43"
  by (simp add: default_dev_def NEMU_KEYS_def)

theorem keyboard_events_arrive_witness:
  "\<exists>d' m'. poll_events default_config (map (\<lambda>(k, down). SDL_KEY k down) [(4, True), (4, False)]) NEMU_RUNNING
      (default_dev (\<lambda>s. if s = ''A'' then 4 else 0)) = Inr (NEMU_RUNNING, d') \<and>
    read_keys default_config (length [(4 :: u8, True), (4, False)] + 1) \<lparr>pmem = \<lambda>_. 0, devs = d'\<rparr> =
      Inr (map (\<lambda>(k, down). (down, keymap (default_dev (\<lambda>s. if s = ''A'' then 4 else 0)) k)) [(4, True), (4, False)] @
        replicate 1 (False, 0), m')"
  by (rule keyboard_events_arrive[OF default_am_devs])
     (auto simp: default_keys default_sel KEY_QUEUE_LEN_def default_keymap_A NEMU_KEY_NONE_def AM_KEYDOWN_MASK_def)

text \<open>The driver reads the clock without tearing: whatever the clock shows by the time of the second load, both halves
  belong to the time of the first, counted from the first reading ever made.\<close>

theorem uptime_not_torn:
  assumes "am_devs cfg (devs m)"
  shows "\<exists>m'. am_timer_uptime cfg t m =
      Inr (if boot_time (devs m) = 0 then 0 else host_clock (devs m) - boot_time (devs m), m') \<and>
    boot_time (devs m') = (if boot_time (devs m) = 0 then host_clock (devs m) else boot_time (devs m)) \<and> am_devs cfg (devs m')"
proof -
  obtain us d where g: "get_time (difftest_skip_ref (devs m)) = (us, d)" by fastforce
  then have us: "us = (if boot_time (devs m) = 0 then 0 else host_clock (devs m) - boot_time (devs m))"
    "boot_time d = (if boot_time (devs m) = 0 then host_clock (devs m) else boot_time (devs m))"
    and same: "same_maps (devs m) d"
    by (auto simp: get_time_def Let_def same_maps_def)
  let ?d1 = "set_reg32 (rtc_port_base d) 1 (ucast (drop_bit 32 us)) (set_reg32 (rtc_port_base d) 0 (ucast us) d)"
  let ?m1 = "pass_time t (m\<lparr>devs := ?d1\<rparr>)"
  have dm1: "devs ?m1 = ?d1\<lparr>host_clock := t\<rparr>" by (simp add: pass_time_def)
  have "same_maps (devs m) (devs ?m1)" using same unfolding dm1 by (simp add: same_maps_def set_reg32_def)
  then have a1: "am_devs cfg (devs ?m1)" by (rule am_devs_same[OF assms])
  have lo: "reg32 (rtc_port_base (devs ?m1)) 0 (devs ?m1) = ucast us"
    unfolding dm1 using reg32_set_other[of 1 0 "rtc_port_base d" "ucast (drop_bit 32 us)" "set_reg32 (rtc_port_base d) 0 (ucast us) d"]
    by (simp add: reg32_set_same) (simp add: reg32_def set_reg32_def)
  have "am_timer_uptime cfg t m = Inr (us, ?m1\<lparr>devs := difftest_skip_ref (devs ?m1)\<rparr>)"
    unfolding am_timer_uptime_def rtc_reads(1)[OF assms] g prod.case bind_res_Inr rtc_reads(2)[OF a1] lo word_halves ..
  moreover have "boot_time (devs ?m1) = boot_time d" unfolding dm1 by (simp add: set_reg32_def)
  moreover have "am_devs cfg (difftest_skip_ref (devs ?m1))" by (rule am_devs_same[OF a1]) (simp add: same_maps_def)
  ultimately show ?thesis using us by simp
qed

theorem uptime_not_torn_witness:
  "\<exists>m'. am_timer_uptime default_config 0x300000000 \<lparr>pmem = \<lambda>_. 0, devs = default_dev (\<lambda>_. 0)\<lparr>boot_time := 1, host_clock := 0x200000000\<rparr>\<rparr> =
      Inr (0x1ffffffff, m') \<and> boot_time (devs m') = 1"
proof -
  have "am_devs default_config (default_dev (\<lambda>_. 0)\<lparr>boot_time := 1, host_clock := 0x200000000\<rparr>)"
    by (rule am_devs_same[OF default_am_devs]) (simp add: same_maps_def)
  then show ?thesis
    using uptime_not_torn[of default_config "\<lparr>pmem = \<lambda>_. 0, devs = default_dev (\<lambda>_. 0)\<lparr>boot_time := 1, host_clock := 0x200000000\<rparr>\<rparr>"
      "0x300000000"] by auto
qed

text \<open>C27: playing samples appends them to the ring buffer, whatever the audio thread takes out of it while the driver
  waits for room (the list \<open>cbs\<close> holds the lengths it asks for): they follow the samples not played yet, across the
  wrap.  The one exception is the play that fills the buffer exactly: then all samples in it are lost, since a full
  buffer and an empty one have equal positions.  The driver waits for ever exactly if the room never suffices.\<close>

theorem audio_play_queues:
  assumes "am_devs cfg (devs m)" and "audio_ok (devs m)"
    and "reg32 (audio_base (devs m)) reg_sbuf_size (devs m) = CONFIG_SB_SIZE cfg"
    and "guest_to_host cfg buf_start + unat (buf_end - buf_start) \<le> unat (CONFIG_MSIZE cfg)"
  shows "case wait_room (unat (CONFIG_SB_SIZE cfg)) (unat (buf_end - buf_start)) cbs (audio_ring (devs m)) of
      None \<Rightarrow> am_audio_play cfg cbs buf_start buf_end m = None
    | Some q \<Rightarrow> \<exists>m'. am_audio_play cfg cbs buf_start buf_end m = Some (Inr m') \<and> audio_ok (devs m') \<and>
        audio_ring (devs m') = (if length q + unat (buf_end - buf_start) = unat (CONFIG_SB_SIZE cfg) then []
          else q @ map (\<lambda>i. pmem m (guest_to_host cfg buf_start + i)) [0..<unat (buf_end - buf_start)])"
proof -
  let ?len = "buf_end - buf_start" and ?m1 = "m\<lparr>devs := difftest_skip_ref (devs m)\<rparr>"
  let ?bs = "map (\<lambda>i. pmem m (guest_to_host cfg buf_start + i)) [0..<unat ?len]"
  have "AUDIO_SBUF_SIZE_ADDR = AUDIO_ADDR + of_nat (4 * reg_sbuf_size)" by (simp add: am_audio_addrs audio_regs)
  then have rd: "inl cfg AUDIO_SBUF_SIZE_ADDR m = Inr (CONFIG_SB_SIZE cfg, ?m1)"
    unfolding inl_def using audio_reg_read[OF assms(1), of reg_sbuf_size] assms(3) by (simp del: of_nat_mult)
  have "am_devs cfg (devs ?m1)" by (rule am_devs_same[OF assms(1)]) (simp add: same_maps_def)
  then have q1: "queued cfg ?m1 (audio_ring (devs m)) (pmem m)" using assms by (simp add: queued_def)
  show ?thesis
  proof (cases "wait_room (unat (CONFIG_SB_SIZE cfg)) (unat ?len) cbs (audio_ring (devs m))")
    case None
    then show ?thesis using audio_waits[OF q1, of ?len cbs] rd by (simp add: am_audio_play_def Let_def)
  next
    case (Some q)
    then obtain m2 where m2: "audio_wait cfg (CONFIG_SB_SIZE cfg) ?len cbs ?m1 = Some (Inr m2)" "queued cfg m2 q (pmem m)"
      using audio_waits[OF q1, of ?len cbs] by auto
    obtain m3 where m3: "audio_put cfg (CONFIG_SB_SIZE cfg) buf_start ?len m2 = Inr m3"
        "queued cfg m3 (if length q + length ?bs = unat (CONFIG_SB_SIZE cfg) then [] else q @ ?bs) (pmem m)"
      using audio_puts[OF m2(2), of ?bs ?len buf_start] wait_room_Some[OF Some] assms(4) by auto
    then show ?thesis using Some m2(1) rd by (auto simp: am_audio_play_def Let_def queued_def)
  qed
qed

lemma default_audio: "audio_ok (default_dev sdl)" "audio_ring (default_dev sdl) = []"
  "reg32 (audio_base (default_dev sdl)) reg_sbuf_size (default_dev sdl) = CONFIG_SB_SIZE default_config"
  "audio_base (default_dev sdl) = 499712"
proof -
  have b: "audio_base (default_dev sdl) = 499712" "sbuf (default_dev sdl) = 503808" by (simp_all add: default_dev_def)
  show "audio_ok (default_dev sdl)" "audio_ring (default_dev sdl) = []"
    "reg32 (audio_base (default_dev sdl)) reg_sbuf_size (default_dev sdl) = CONFIG_SB_SIZE default_config"
    unfolding audio_ok_def audio_ring_def Let_def b default_regs by (simp_all add: default_sel nr_reg_def ring_def ring_len_def)
qed (simp add: default_dev_def)

theorem audio_play_queues_witness:
  "(\<exists>m'. am_audio_play default_config [] 0x80000000 0x80000003 \<lparr>pmem = (\<lambda>i. of_nat i), devs = default_dev (\<lambda>_. 0)\<rparr> = Some (Inr m') \<and>
     audio_ring (devs m') = [0, 1, 2]) \<and>
   (\<exists>m'. am_audio_play default_config [] 0x80000000 0x80010000 \<lparr>pmem = (\<lambda>i. of_nat i), devs = default_dev (\<lambda>_. 0)\<rparr> = Some (Inr m') \<and>
     audio_ring (devs m') = [])"
proof (rule conjI)
  note t = audio_play_queues[of default_config "\<lparr>pmem = (\<lambda>i. of_nat i), devs = default_dev (\<lambda>_. 0)\<rparr>"]
  show "\<exists>m'. am_audio_play default_config [] 0x80000000 0x80000003 \<lparr>pmem = (\<lambda>i. of_nat i), devs = default_dev (\<lambda>_. 0)\<rparr> = Some (Inr m') \<and>
     audio_ring (devs m') = [0, 1, 2]"
    using t[of "0x80000000" "0x80000003" "[]"]
    by (auto simp: default_am_devs default_audio default_regs guest_to_host_def default_sel upt_rec)
  show "\<exists>m'. am_audio_play default_config [] 0x80000000 0x80010000 \<lparr>pmem = (\<lambda>i. of_nat i), devs = default_dev (\<lambda>_. 0)\<rparr> = Some (Inr m') \<and>
     audio_ring (devs m') = []"
    using t[of "0x80000000" "0x80010000" "[]"]
    by (auto simp: default_am_devs default_audio default_regs guest_to_host_def default_sel)
qed

text \<open>C28: a rectangle inside the screen is drawn: every pixel of it shows the program's pixel of that row and column, every
  other pixel of the screen is what it was, and the screen is updated when the request says so and then only.\<close>

theorem fbdraw_draws:
  assumes "am_devs cfg (devs m)" and "screen_ok cfg (devs m)" and "rect_ok cfg ctl"
  shows "\<exists>m'. am_gpu_fbdraw cfg ctl m = Inr m' \<and> pmem m' = pmem m \<and>
    (\<forall>x < unat (screen_width cfg). \<forall>y < unat (screen_height cfg). pixel cfg (devs m') x y =
       (if unat (fb_x ctl) \<le> x \<and> x < unat (fb_x ctl) + unat (fb_w ctl) \<and> unat (fb_y ctl) \<le> y \<and> y < unat (fb_y ctl) + unat (fb_h ctl)
        then source_pixel cfg ctl m (x - unat (fb_x ctl)) (y - unat (fb_y ctl)) else pixel cfg (devs m) x y)) \<and>
    frames (vga_update_screen (devs m')) = frames (devs m') +
      (if fb_sync ctl \<or> reg32 (vgactl_port_base (devs m)) 1 (devs m) \<noteq> 0 then 1 else 0)"
proof -
  let ?m1 = "m\<lparr>devs := difftest_skip_ref (devs m)\<rparr>" and ?b = "vgactl_port_base (devs m)"
  have dims: "nat (sint (fb_w ctl)) = unat (fb_w ctl)" "nat (sint (fb_h ctl)) = unat (fb_h ctl)"
    using assms(3) by (auto intro!: sint_small simp: rect_ok_def screen_width_def screen_height_def split: if_splits)
  have "ucast (ucast (screen_width cfg) :: u16) = screen_width cfg" by (simp add: screen_width_def)
  moreover have "\<not> drawn ctl 0 0 x y" for x y by (auto simp: drawn_def)
  then have "draw_inv cfg ctl m 0 0 ?m1" by (simp add: draw_inv_def same_maps_def pixel_def)
  then obtain m2 where m2: "for_upto (\<lambda>y. for_upto (draw_pixel cfg (screen_width cfg) ctl y) 0 (unat (fb_w ctl))) 0 (unat (fb_h ctl)) ?m1 = Inr m2"
      and inv: "draw_inv cfg ctl m (unat (fb_h ctl)) 0 m2"
    using draw_all[OF assms] by blast
  have d2: "am_devs cfg (devs m2)" and b2: "vgactl_port_base (devs m2) = ?b"
    using inv am_devs_same[OF assms(1)] by (auto simp: draw_inv_def same_maps_def)
  define m3 where "m3 = (if fb_sync ctl then m2\<lparr>devs := set_reg32 ?b 1 1 (difftest_skip_ref (devs m2))\<rparr> else m2)"
  ultimately have draw: "am_gpu_fbdraw cfg ctl m = Inr m3"
    by (simp add: am_gpu_fbdraw_def width_reads[OF assms(1,2)] dims m2 sync_writes[OF d2] b2)
  have "vmem (devs m2) = vmem (devs m)" using inv by (simp add: draw_inv_def same_maps_def)
  then have pix: "pixel cfg (devs m3) x y = pixel cfg (devs m2) x y" if "x < unat (screen_width cfg)" "y < unat (screen_height cfg)" for x y
    using assms(2) index_bound[OF that(2,1)]
    unfolding m3_def pixel_def reg32_def set_reg32_def screen_ok_def screen_dims by (auto intro!: read_write_le_disjoint)
  have b3: "vgactl_port_base (devs m3) = ?b" using b2 by (simp add: m3_def set_reg32_def)
  have "reg32 ?b 1 (devs m3) = (if fb_sync ctl then 1 else reg32 ?b 1 (devs m))"
    using inv by (simp add: m3_def reg32_set_same draw_inv_def)
  then have "frames (vga_update_screen (devs m3)) = frames (devs m3) + (if fb_sync ctl \<or> reg32 ?b 1 (devs m) \<noteq> 0 then 1 else 0)"
    by (simp add: vga_update_screen_def b3 set_reg32_def)
  moreover have "pmem m3 = pmem m" using inv by (simp add: m3_def draw_inv_def)
  moreover have "drawn ctl (unat (fb_h ctl)) 0 x y \<longleftrightarrow> unat (fb_x ctl) \<le> x \<and> x < unat (fb_x ctl) + unat (fb_w ctl) \<and>
      unat (fb_y ctl) \<le> y \<and> y < unat (fb_y ctl) + unat (fb_h ctl)" for x y
    by (auto simp: drawn_def)
  ultimately show ?thesis using draw pix inv by (auto simp: draw_inv_def)
qed

lemma default_screen: "screen_ok default_config (default_dev sdl)"
proof -
  have b: "vgactl_port_base (default_dev sdl) = 8192" "vmem (default_dev sdl) = 12288" by (simp_all add: default_dev_def)
  show ?thesis unfolding screen_ok_def b default_regs by (simp add: screen_size_def screen_width_def screen_height_def default_sel)
qed

text \<open>A row of two pixels at the top left corner, the second of them the old one's neighbour.\<close>

theorem fbdraw_draws_witness:
  "\<exists>m'. am_gpu_fbdraw default_config \<lparr>fb_x = 1, fb_y = 0, pixels = 0x80000000, fb_w = 2, fb_h = 1, fb_sync = True\<rparr>
      \<lparr>pmem = (\<lambda>i. of_nat i), devs = default_dev (\<lambda>_. 0)\<rparr> = Inr m' \<and>
    pixel default_config (devs m') 1 0 = 0x03020100 \<and> pixel default_config (devs m') 2 0 = 0x07060504 \<and>
    pixel default_config (devs m') 3 0 = pixel default_config (default_dev (\<lambda>_. 0)) 3 0 \<and>
    frames (vga_update_screen (devs m')) = frames (devs m') + 1"
proof -
  let ?ctl = "\<lparr>fb_x = 1, fb_y = 0, pixels = 0x80000000, fb_w = 2, fb_h = 1, fb_sync = True\<rparr>"
  let ?m = "\<lparr>pmem = (\<lambda>i. of_nat i), devs = default_dev (\<lambda>_. 0)\<rparr>"
  have "rect_ok default_config ?ctl"
    by (simp add: rect_ok_def default_sel guest_to_host_def screen_width_def screen_height_def)
  moreover have "unat (screen_width default_config) = 400" "unat (screen_height default_config) = 300"
    by (simp_all add: screen_width_def screen_height_def default_sel)
  moreover have "source_pixel default_config ?ctl ?m 0 0 = 0x03020100" "source_pixel default_config ?ctl ?m 1 0 = 0x07060504"
    by (simp_all add: source_pixel_def guest_to_host_def default_sel read_le_4_bytes del: read_le.simps)
  ultimately show ?thesis
    using fbdraw_draws[of default_config ?m ?ctl] default_am_devs default_screen by fastforce
qed

end
