(* ===== verification/Am_Soc.thy ===== *)
theory Am_Soc
  imports Am_Ioe
begin

text \<open>
  The bare-metal layer on the two hardware platforms (\<open>abstract-machine/am/src/riscv/npc\<close> and \<open>ysyxsoc\<close>): clock, PS/2
  keyboard, screen and UART drivers, and their dispatch.

  The hardware is not part of the repository.  Its bus is a parameter: a record of a load and a store on the state of
  the hardware, which may change by itself at each of them.  The emulator's own access functions are one such bus.  A
  loop that polls the hardware may run for ever, which is the value \<open>None\<close>.
\<close>

section \<open>The bus\<close>

record 's bus =
  bus_load :: "u32 \<Rightarrow> nat \<Rightarrow> 's \<Rightarrow> (u32 \<times> 's) res"
  bus_store :: "u32 \<Rightarrow> nat \<Rightarrow> u32 \<Rightarrow> 's \<Rightarrow> 's res"

definition emulator_bus :: "config \<Rightarrow> mem bus" where
  "emulator_bus cfg = \<lparr>bus_load = vaddr_read cfg, bus_store = vaddr_write cfg\<rparr>"

section \<open>Key codes (amdev.h)\<close>

text \<open>Name, scan code and whether the code has the prefix \<open>0xE0\<close>; the key codes number the table from 1.\<close>

definition AM_KEY_TABLE :: "(string \<times> u8 \<times> bool) list" where
  "AM_KEY_TABLE =
    [(''ESCAPE'', 0x76, False), (''F1'', 0x5, False), (''F2'', 0x6, False), (''F3'', 0x4, False), (''F4'', 0x0c, False),
     (''F5'', 0x3, False), (''F6'', 0x0b, False), (''F7'', 0x83, False), (''F8'', 0x0a, False), (''F9'', 0x1, False),
     (''F10'', 0x9, False), (''F11'', 0x78, False), (''F12'', 0x7, False), (''GRAVE'', 0x0e, False), (''1'', 0x16, False),
     (''2'', 0x1e, False), (''3'', 0x26, False), (''4'', 0x25, False), (''5'', 0x2e, False), (''6'', 0x36, False),
     (''7'', 0x3d, False), (''8'', 0x3e, False), (''9'', 0x46, False), (''0'', 0x45, False), (''MINUS'', 0x4e, False),
     (''EQUALS'', 0x55, False), (''BACKSPACE'', 0x66, False), (''TAB'', 0x0d, False), (''LEFTBRACKET'', 0x54, False),
     (''RIGHTBRACKET'', 0x5b, False), (''BACKSLASH'', 0x5d, False), (''CAPSLOCK'', 0x58, False),
     (''SEMICOLON'', 0x4c, False), (''APOSTROPHE'', 0x52, False), (''RETURN'', 0x5a, False), (''LSHIFT'', 0x12, False),
     (''COMMA'', 0x41, False), (''PERIOD'', 0x49, False), (''SLASH'', 0x4a, False), (''RSHIFT'', 0x59, False),
     (''LCTRL'', 0x14, False), (''LALT'', 0x11, False), (''SPACE'', 0x29, False), (''A'', 0x1c, False),
     (''B'', 0x32, False), (''C'', 0x21, False), (''D'', 0x23, False), (''E'', 0x24, False), (''F'', 0x2b, False),
     (''G'', 0x34, False), (''H'', 0x33, False), (''I'', 0x43, False), (''J'', 0x3b, False), (''K'', 0x42, False),
     (''L'', 0x4b, False), (''M'', 0x3a, False), (''N'', 0x31, False), (''O'', 0x44, False), (''P'', 0x4d, False),
     (''Q'', 0x15, False), (''R'', 0x2d, False), (''S'', 0x1b, False), (''T'', 0x2c, False), (''U'', 0x3c, False),
     (''V'', 0x2a, False), (''W'', 0x1d, False), (''X'', 0x22, False), (''Y'', 0x35, False), (''Z'', 0x1a, False),
     (''APPLICATION'', 0x2f, True), (''RALT'', 0x11, True), (''RCTRL'', 0x14, True), (''UP'', 0x75, True),
     (''DOWN'', 0x72, True), (''LEFT'', 0x6b, True), (''RIGHT'', 0x74, True), (''INSERT'', 0x70, True),
     (''DELETE'', 0x71, True), (''HOME'', 0x6c, True), (''END'', 0x69, True), (''PAGEUP'', 0x7d, True),
     (''PAGEDOWN'', 0x7a, True)]"

definition AM_KEY_NONE :: u32 where
  "AM_KEY_NONE = 0"

definition AM_KEYS :: "string list" where
  "AM_KEYS = map fst AM_KEY_TABLE"

text \<open>The name a program knows a key code by.\<close>

definition am_key_name :: "u32 \<Rightarrow> string" where
  "am_key_name code = (if 0 < unat code \<and> unat code \<le> length AM_KEYS then AM_KEYS ! (unat code - 1) else ''NONE'')"

section \<open>PS/2 keyboard (ysyxsoc/ioe/input.c)\<close>

definition PS2_KEYBOARD_BASE :: u32 where
  "PS2_KEYBOARD_BASE = 0x10011000"

text \<open>The tables built from the entries of one kind; a later entry for the same scan code overrides.\<close>

fun key_entries :: "bool \<Rightarrow> u32 \<Rightarrow> (string \<times> u8 \<times> bool) list \<Rightarrow> (u8 \<Rightarrow> u32) \<Rightarrow> u8 \<Rightarrow> u32" where
  "key_entries ext code [] km = km"
| "key_entries ext code ((nm, sc, e) # ks) km = key_entries ext (code + 1) ks (if e = ext then km(sc := code) else km)"

definition ps2_keymap :: "u8 \<Rightarrow> u32" where
  "ps2_keymap = key_entries False 1 AM_KEY_TABLE (\<lambda>_. 0)"

definition ps2_keymap_ext :: "u8 \<Rightarrow> u32" where
  "ps2_keymap_ext = key_entries True 1 AM_KEY_TABLE (\<lambda>_. 0)"

text \<open>The static variables.\<close>

record ps2 =
  is_ext :: bool
  is_break :: bool

text \<open>The result is the state of the key and its code.\<close>

partial_function (option) soc_input_keybrd :: "'s bus \<Rightarrow> ps2 \<Rightarrow> 's \<Rightarrow> ((bool \<times> u32) \<times> ps2 \<times> 's) res option" where
  "soc_input_keybrd b k s = (case bus_load b PS2_KEYBOARD_BASE 1 s of
     Inl err \<Rightarrow> Some (Inl err)
   | Inr (v, s) \<Rightarrow> (let code = ucast v :: u8 in
       if code = 0 then Some (Inr ((False, AM_KEY_NONE), k, s))
       else if code = 0xF0 then soc_input_keybrd b (k\<lparr>is_break := True\<rparr>) s
       else if code = 0xE0 then soc_input_keybrd b (k\<lparr>is_ext := True\<rparr>) s
       else Some (Inr ((\<not> is_break k, if is_ext k then ps2_keymap_ext code else ps2_keymap code),
              \<lparr>is_ext = False, is_break = False\<rparr>, s))))"

section \<open>Clocks\<close>

definition read_mtime :: "u32 \<Rightarrow> 's bus \<Rightarrow> 's \<Rightarrow> (u64 \<times> 's) res" where
  "read_mtime mmio b s = bind_res (bus_load b mmio 4 s) (\<lambda>(lo, s).
     bind_res (bus_load b (mmio + 4) 4 s) (\<lambda>(hi, s). Inr (push_bit 32 (ucast hi) OR ucast lo, s)))"

definition npc_timer_uptime :: "'s bus \<Rightarrow> 's \<Rightarrow> (u64 \<times> 's) res" where
  "npc_timer_uptime b s = bind_res (read_mtime 0xa0000048 b s) (\<lambda>(mtime, s). Inr (mtime * 7, s))"

definition npc_timer_rtc :: "'s bus \<Rightarrow> 's \<Rightarrow> (am_rtc \<times> 's) res" where
  "npc_timer_rtc b s =
     bind_res (bus_load b (0xa0000048 + 8) 4 s) (\<lambda>(sec, s).
     bind_res (bus_load b (0xa0000048 + 12) 4 s) (\<lambda>(mi, s).
     bind_res (bus_load b (0xa0000048 + 16) 4 s) (\<lambda>(h, s).
     bind_res (bus_load b (0xa0000048 + 20) 4 s) (\<lambda>(d, s).
     bind_res (bus_load b (0xa0000048 + 24) 4 s) (\<lambda>(mo, s).
     bind_res (bus_load b (0xa0000048 + 28) 4 s) (\<lambda>(y, s).
     Inr (\<lparr>rtc_year = y, rtc_month = mo, rtc_day = d, rtc_hour = h, rtc_minute = mi, rtc_second = sec\<rparr>, s)))))))"

definition soc_timer_uptime :: "'s bus \<Rightarrow> 's \<Rightarrow> (u64 \<times> 's) res" where
  "soc_timer_uptime b s = bind_res (read_mtime 0x02000000 b s) (\<lambda>(mtime, s). Inr (mtime * 1, s))"

definition soc_timer_rtc :: am_rtc where
  "soc_timer_rtc = \<lparr>rtc_year = 1900, rtc_month = 0, rtc_day = 0, rtc_hour = 0, rtc_minute = 0, rtc_second = 0\<rparr>"

definition npc_input_keybrd :: "bool \<times> u32" where
  "npc_input_keybrd = (False, AM_KEY_NONE)"

section \<open>UART of ysyxSoC\<close>

definition UART_BASE :: u32 where "UART_BASE = 0x10000000"
definition UART_RXBUF :: u32 where "UART_RXBUF = 0"
definition UART_THR :: u32 where "UART_THR = 0"
definition UART_LCR :: u32 where "UART_LCR = 3"
definition AM_UART_LSR :: u32 where "AM_UART_LSR = 5"
definition UART_DIVISOR_LATCH_1 :: u32 where "UART_DIVISOR_LATCH_1 = 0"
definition UART_DIVISOR_LATCH_2 :: u32 where "UART_DIVISOR_LATCH_2 = 1"

lemmas uart_offsets = UART_BASE_def UART_RXBUF_def UART_THR_def UART_LCR_def AM_UART_LSR_def UART_DIVISOR_LATCH_1_def
  UART_DIVISOR_LATCH_2_def

definition bus_inb :: "'s bus \<Rightarrow> u32 \<Rightarrow> 's \<Rightarrow> (u8 \<times> 's) res" where
  "bus_inb b a s = bind_res (bus_load b a 1 s) (\<lambda>(v, s). Inr (ucast v, s))"

definition bus_outb :: "'s bus \<Rightarrow> u32 \<Rightarrow> u8 \<Rightarrow> 's \<Rightarrow> 's res" where
  "bus_outb b a v s = bus_store b a 1 (ucast v) s"

text \<open>Polls the line status until one of the bits of the mask is set.\<close>

partial_function (option) lsr_wait :: "'s bus \<Rightarrow> u8 \<Rightarrow> 's \<Rightarrow> 's res option" where
  "lsr_wait b flag s = (case bus_inb b (UART_BASE + AM_UART_LSR) s of
     Inl err \<Rightarrow> Some (Inl err)
   | Inr (v, s) \<Rightarrow> if v AND flag \<noteq> 0 then Some (Inr s) else lsr_wait b flag s)"

definition soc_putch :: "'s bus \<Rightarrow> u8 \<Rightarrow> 's \<Rightarrow> 's res option" where
  "soc_putch b ch s = map_option (\<lambda>r. bind_res r (bus_outb b (UART_BASE + UART_THR) ch)) (lsr_wait b (push_bit 5 1) s)"

definition soc_uart_tx :: "'s bus \<Rightarrow> u8 \<Rightarrow> 's \<Rightarrow> 's res option" where
  "soc_uart_tx b ch s = map_option (\<lambda>r. bind_res r (bus_outb b (UART_BASE + UART_THR) ch)) (lsr_wait b (push_bit 5 1) s)"

definition soc_uart_rx :: "'s bus \<Rightarrow> 's \<Rightarrow> (u8 \<times> 's) res option" where
  "soc_uart_rx b s = map_option (\<lambda>r. bind_res r (bus_inb b (UART_BASE + UART_RXBUF))) (lsr_wait b (push_bit 0 1) s)"

definition init_uart16550 :: "'s bus \<Rightarrow> 's \<Rightarrow> 's res" where
  "init_uart16550 b s =
     bind_res (bus_inb b (UART_BASE + UART_LCR) s) (\<lambda>(orignal_LCR, s).
     bind_res (bus_outb b (UART_BASE + UART_LCR) (orignal_LCR OR push_bit 7 1) s) (\<lambda>s.
     bind_res (bus_outb b (UART_BASE + UART_DIVISOR_LATCH_2) 0x00 s) (\<lambda>s.
     bind_res (bus_outb b (UART_BASE + UART_DIVISOR_LATCH_1) 0x01 s) (\<lambda>s.
     bus_outb b (UART_BASE + UART_LCR) orignal_LCR s))))"

section \<open>Welcome message\<close>

text \<open>The identification registers are arguments.  The digits go into an array of ten bytes, which holds every 32-bit
  number.\<close>

function marchid_digits :: "u32 \<Rightarrow> u8 list" where
  "marchid_digits n = (if n = 0 then [] else (48 + ucast (n mod 10)) # marchid_digits (n div 10))"
  by auto
termination
  by (relation "measure unat") (auto simp: unat_div_distrib unat_gt_0 intro!: div_less_dividend)

declare marchid_digits.simps [simp del]

fun soc_putstr :: "'s bus \<Rightarrow> u8 list \<Rightarrow> 's \<Rightarrow> 's res option" where
  "soc_putstr b [] s = Some (Inr s)"
| "soc_putstr b (c # cs) s = (case soc_putch b c s of
     None \<Rightarrow> None | Some (Inl err) \<Rightarrow> Some (Inl err) | Some (Inr s) \<Rightarrow> soc_putstr b cs s)"

definition chars :: "string \<Rightarrow> u8 list" where
  "chars str = map (\<lambda>c. of_nat (of_char c)) str"

definition welcome_msg :: "u32 \<Rightarrow> u32 \<Rightarrow> u8 list" where
  "welcome_msg mvendorid marchid = chars ''[trm]: '' @ map (\<lambda>i. ucast (drop_bit ((3 - i) * 8) mvendorid AND 0xFF)) [0..<4] @
     chars ''_'' @ rev (marchid_digits marchid) @ chars '' caozhanhao'' @ [10]"

definition print_welcome_msg :: "u32 \<Rightarrow> u32 \<Rightarrow> 's bus \<Rightarrow> 's \<Rightarrow> 's res option" where
  "print_welcome_msg mvendorid marchid b s =
     map_option (\<lambda>r. bind_res r (bus_store b (0x10002000 + 0x8) 4 0x25100251)) (soc_putstr b (welcome_msg mvendorid marchid) s)"

section \<open>Screen of ysyxSoC\<close>

definition VGA_WIDTH :: u32 where "VGA_WIDTH = 640"
definition VGA_HEIGHT :: u32 where "VGA_HEIGHT = 480"
definition VGA_FB_ADDR :: u32 where "VGA_FB_ADDR = 0x21000000"

definition soc_gpu_config :: am_gpu_config where
  "soc_gpu_config = \<lparr>gpu_present = True, has_accel = False, gpu_width = VGA_WIDTH, gpu_height = VGA_HEIGHT, vmemsz = 0x200000\<rparr>"

definition soc_draw_pixel :: "'s bus \<Rightarrow> am_fbdraw \<Rightarrow> nat \<Rightarrow> nat \<Rightarrow> 's \<Rightarrow> 's res" where
  "soc_draw_pixel b ctl y x s =
     bind_res (bus_load b (pixels ctl + 4 * (of_nat y * fb_w ctl + of_nat x)) 4 s) (\<lambda>(p, s).
     bus_store b (VGA_FB_ADDR + 4 * ((fb_y ctl + of_nat y) * VGA_WIDTH + fb_x ctl + of_nat x)) 4 p s)"

definition soc_gpu_fbdraw :: "'s bus \<Rightarrow> am_fbdraw \<Rightarrow> 's \<Rightarrow> 's res" where
  "soc_gpu_fbdraw b ctl s =
     for_upto (\<lambda>y. for_upto (soc_draw_pixel b ctl y) 0 (nat (sint (fb_w ctl)))) 0 (nat (sint (fb_h ctl))) s"

section \<open>Dispatch\<close>

text \<open>The platform's state: that of the hardware and the static variables of the keyboard driver.\<close>

definition npc_lut :: "(nat \<times> am_reg) list" where
  "npc_lut = [(4, AM_TIMER_CONFIG), (5, AM_TIMER_RTC), (6, AM_TIMER_UPTIME), (7, AM_INPUT_CONFIG), (8, AM_INPUT_KEYBRD),
     (1, AM_UART_CONFIG)]"

definition give_s :: "('a \<Rightarrow> am_buf) \<Rightarrow> ('a \<times> 's) res \<Rightarrow> (am_buf \<times> 's) res" where
  "give_s f r = bind_res r (\<lambda>(v, s). Inr (f v, s))"

definition npc_ioe_access :: "'s bus \<Rightarrow> int \<Rightarrow> am_buf \<Rightarrow> 's \<Rightarrow> (am_buf \<times> 's) res" where
  "npc_ioe_access b reg buf s =
     (if reg < 0 \<or> reg \<ge> 128 then Inl (Undefined ''lut[reg]'')
      else case map_of npc_lut (nat reg) of
        None \<Rightarrow> Inl (Panic ''access nonexist register'')
      | Some r \<Rightarrow> (case r of
          AM_TIMER_CONFIG \<Rightarrow> Inr (Buf_timer_config True True, s)
        | AM_TIMER_RTC \<Rightarrow> give_s Buf_rtc (npc_timer_rtc b s)
        | AM_TIMER_UPTIME \<Rightarrow> give_s Buf_us (npc_timer_uptime b s)
        | AM_INPUT_CONFIG \<Rightarrow> Inr (Buf_present True, s)
        | AM_INPUT_KEYBRD \<Rightarrow> Inr (Buf_key (fst npc_input_keybrd) (snd npc_input_keybrd), s)
        | _ \<Rightarrow> Inr (Buf_present False, s)))"

datatype soc_reg = Soc_uart_tx | Soc am_reg

definition soc_lut :: "(nat \<times> soc_reg) list" where
  "soc_lut = [(1, Soc AM_UART_CONFIG), (2, Soc_uart_tx), (3, Soc AM_UART_RX), (4, Soc AM_TIMER_CONFIG), (5, Soc AM_TIMER_RTC),
     (6, Soc AM_TIMER_UPTIME), (7, Soc AM_INPUT_CONFIG), (8, Soc AM_INPUT_KEYBRD), (9, Soc AM_GPU_CONFIG), (10, Soc AM_GPU_STATUS),
     (11, Soc AM_GPU_FBDRAW)]"

text \<open>Handlers that poll give an option; the others return at once.\<close>

definition soc_ioe_access :: "'s bus \<Rightarrow> int \<Rightarrow> am_buf \<Rightarrow> ps2 \<times> 's \<Rightarrow> (am_buf \<times> ps2 \<times> 's) res option" where
  "soc_ioe_access b reg buf st = (case st of (k, s) \<Rightarrow>
     if reg < 0 \<or> reg \<ge> 128 then Some (Inl (Undefined ''lut[reg]''))
     else case map_of soc_lut (nat reg) of
       None \<Rightarrow> Some (Inl (Panic ''access nonexist register''))
     | Some Soc_uart_tx \<Rightarrow> (case buf of
         Buf_char c \<Rightarrow> map_option (\<lambda>r. bind_res r (\<lambda>s. Inr (buf, k, s))) (soc_uart_tx b c s)
       | _ \<Rightarrow> Some (Inl (Undefined ''buffer of another type'')))
     | Some (Soc r) \<Rightarrow> (case r of
         AM_UART_CONFIG \<Rightarrow> Some (Inr (Buf_present True, k, s))
       | AM_UART_RX \<Rightarrow> map_option (\<lambda>r. bind_res r (\<lambda>(c, s). Inr (Buf_char c, k, s))) (soc_uart_rx b s)
       | AM_TIMER_CONFIG \<Rightarrow> Some (Inr (Buf_timer_config True True, k, s))
       | AM_TIMER_RTC \<Rightarrow> Some (Inr (Buf_rtc soc_timer_rtc, k, s))
       | AM_TIMER_UPTIME \<Rightarrow> Some (bind_res (soc_timer_uptime b s) (\<lambda>(us, s). Inr (Buf_us us, k, s)))
       | AM_INPUT_CONFIG \<Rightarrow> Some (Inr (Buf_present True, k, s))
       | AM_INPUT_KEYBRD \<Rightarrow> map_option (\<lambda>r. bind_res r (\<lambda>((down, code), k, s). Inr (Buf_key down code, k, s))) (soc_input_keybrd b k s)
       | AM_GPU_CONFIG \<Rightarrow> Some (Inr (Buf_gpu_config soc_gpu_config, k, s))
       | AM_GPU_STATUS \<Rightarrow> Some (Inr (Buf_ready True, k, s))
       | _ \<Rightarrow> (case buf of
           Buf_fbdraw ctl \<Rightarrow> Some (bind_res (soc_gpu_fbdraw b ctl s) (\<lambda>s. Inr (buf, k, s)))
         | _ \<Rightarrow> Some (Inl (Undefined ''buffer of another type'')))))"

end
