(* ===== verification/Am_Soc_Proofs.thy ===== *)
theory Am_Soc_Proofs
  imports Am_Soc
begin

text \<open>
  The hardware platforms' drivers: the PS/2 decoder inverts the keyboard's encoding however the bytes arrive, the key
  codes of the emulator and of the bare-metal layer differ for half of the keys, and the clock can be read torn.
\<close>

section \<open>Key codes of the emulator and of the bare-metal layer\<close>

lemma init_keys_other: "s \<notin> sdl ` set ks \<Longrightarrow> init_keys sdl code ks km s = km s"
  by (induction ks arbitrary: code km) auto

lemma init_keys_nth:
  assumes "inj_on sdl (set ks)" and "distinct ks" and "i < length ks"
  shows "init_keys sdl code ks km (sdl (ks ! i)) = code + of_nat i"
  using assms
proof (induction ks arbitrary: code km i)
  case (Cons k ks)
  show ?case
  proof (cases i)
    case 0
    have "sdl k \<notin> sdl ` set ks" using Cons.prems(1,2) by (auto simp: inj_on_def)
    then show ?thesis using 0 by (simp add: init_keys_other)
  next
    case (Suc j)
    have "inj_on sdl (set ks)" using Cons.prems(1) by (rule inj_on_subset) auto
    then show ?thesis using Suc Cons.IH[of j "code + 1"] Cons.prems by simp
  qed
qed simp

lemma nemu_keys: "distinct NEMU_KEYS" "length NEMU_KEYS = 82" "length AM_KEYS = 82"
  by (simp_all add: NEMU_KEYS_def AM_KEYS_def AM_KEY_TABLE_def)

lemma keys_compare: "map (\<lambda>i. NEMU_KEYS ! i = AM_KEYS ! i) [0..<82] = replicate 28 True @ replicate 42 False @ replicate 12 True"
  by code_simp

section \<open>PS/2\<close>

text \<open>A key event is the index of the key in the table and the direction.\<close>

definition ps2_bytes :: "nat \<times> bool \<Rightarrow> u8 list" where
  "ps2_bytes ev = (case ev of (i, down) \<Rightarrow> case AM_KEY_TABLE ! i of (nm, sc, ext) \<Rightarrow>
     (if ext then [0xE0] else []) @ (if down then [] else [0xF0]) @ [sc])"

definition ps2_event :: "nat \<times> bool \<Rightarrow> bool \<times> u32" where
  "ps2_event ev = (case ev of (i, down) \<Rightarrow> (down, of_nat (i + 1)))"

definition ps2_start :: ps2 where
  "ps2_start = \<lparr>is_ext = False, is_break = False\<rparr>"

text \<open>The meaning of a byte sequence.\<close>

fun ps2_decode :: "ps2 \<Rightarrow> u8 list \<Rightarrow> (bool \<times> u32) list" where
  "ps2_decode k [] = []"
| "ps2_decode k (c # cs) =
    (if c = 0 then ps2_decode k cs
     else if c = 0xF0 then ps2_decode (k\<lparr>is_break := True\<rparr>) cs
     else if c = 0xE0 then ps2_decode (k\<lparr>is_ext := True\<rparr>) cs
     else (\<not> is_break k, if is_ext k then ps2_keymap_ext c else ps2_keymap c) # ps2_decode ps2_start cs)"

lemma ps2_decode_filter: "ps2_decode k (filter (\<lambda>c. c \<noteq> 0) cs) = ps2_decode k cs"
  by (induction k cs rule: ps2_decode.induct) auto

lemma table_codes:
  "list_all (\<lambda>i. case AM_KEY_TABLE ! i of (nm, sc, ext) \<Rightarrow> sc \<noteq> 0 \<and> sc \<noteq> 0xE0 \<and> sc \<noteq> 0xF0 \<and>
     (if ext then ps2_keymap_ext sc else ps2_keymap sc) = of_nat (i + 1)) [0..<82]"
  by code_simp

lemma table_code:
  assumes "i < length AM_KEY_TABLE" and "AM_KEY_TABLE ! i = (nm, sc, ext)"
  shows "sc \<noteq> 0" "sc \<noteq> 0xE0" "sc \<noteq> 0xF0" "(if ext then ps2_keymap_ext sc else ps2_keymap sc) = of_nat (i + 1)"
proof -
  have "length AM_KEY_TABLE = 82" by (simp add: AM_KEY_TABLE_def)
  then have "i \<in> set [0..<82]" using assms(1) by simp
  then show "sc \<noteq> 0" "sc \<noteq> 0xE0" "sc \<noteq> 0xF0" "(if ext then ps2_keymap_ext sc else ps2_keymap sc) = of_nat (i + 1)"
    using table_codes assms(2) unfolding list_all_iff by fastforce+
qed

lemma ps2_decode_event:
  assumes "fst ev < length AM_KEY_TABLE"
  shows "ps2_decode ps2_start (ps2_bytes ev @ cs) = ps2_event ev # ps2_decode ps2_start cs"
proof -
  obtain i down nm sc ext where ev: "ev = (i, down)" "AM_KEY_TABLE ! i = (nm, sc, ext)" by (metis surj_pair)
  note t = table_code[OF _ ev(2)]
  show ?thesis using t assms ev by (cases ext; cases down) (auto simp: ps2_bytes_def ps2_event_def ps2_start_def)
qed

lemma ps2_decode_events:
  "list_all (\<lambda>ev. fst ev < length AM_KEY_TABLE) evs \<Longrightarrow> ps2_decode ps2_start (concat (map ps2_bytes evs)) = map ps2_event evs"
  by (induction evs) (auto simp: ps2_decode_event)

text \<open>A program that polls the driver \<open>n\<close> times.\<close>

fun soc_poll :: "'s bus \<Rightarrow> nat \<Rightarrow> ps2 \<Rightarrow> 's \<Rightarrow> ((bool \<times> u32) list \<times> ps2 \<times> 's) res option" where
  "soc_poll b 0 k s = Some (Inr ([], k, s))"
| "soc_poll b (Suc n) k s = (case soc_input_keybrd b k s of
     Some (Inr (ev, k, s)) \<Rightarrow> map_option (\<lambda>r. bind_res r (\<lambda>(evs, ks). Inr (ev # evs, ks))) (soc_poll b n k s)
   | Some (Inl err) \<Rightarrow> Some (Inl err) | None \<Rightarrow> None)"

text \<open>The keyboard controller: its data register gives the next byte received, 0 when there is none.\<close>

definition ps2_controller :: "'s bus \<Rightarrow> ('s \<Rightarrow> u8 list) \<Rightarrow> bool" where
  "ps2_controller b received \<longleftrightarrow> (\<forall>s. \<exists>s'. bus_load b PS2_KEYBOARD_BASE 1 s =
      Inr (case received s of [] \<Rightarrow> 0 | c # cs \<Rightarrow> ucast c, s') \<and> received s' = tl (received s))"

definition real_keys :: "(bool \<times> u32) list \<Rightarrow> (bool \<times> u32) list" where
  "real_keys evs = filter (\<lambda>(down, code). code \<noteq> AM_KEY_NONE) evs"

lemma keybrd_poll:
  assumes "ps2_controller b received"
  shows "\<exists>ev k' s'. soc_input_keybrd b k s = Some (Inr (ev, k', s')) \<and>
    real_keys [ev] @ real_keys (ps2_decode k' (received s')) = real_keys (ps2_decode k (received s)) \<and>
    length (received s') \<le> length (received s) - 1"
proof (induction "received s" arbitrary: k s)
  case Nil
  obtain s' where "bus_load b PS2_KEYBOARD_BASE 1 s = Inr (0, s')" "received s' = []"
    using assms Nil by (metis (no_types, lifting) list.sel(2) list.simps(4) ps2_controller_def)
  then show ?case using Nil by (subst soc_input_keybrd.simps) (simp add: real_keys_def AM_KEY_NONE_def)
next
  case (Cons c cs)
  obtain s' where s': "bus_load b PS2_KEYBOARD_BASE 1 s = Inr (ucast c, s')" "received s' = cs"
    using assms Cons(2) by (metis (no_types, lifting) list.sel(3) list.simps(5) ps2_controller_def)
  have u: "ucast (ucast c :: u32) = c" by (rule bit_word_eqI) (auto simp: bit_simps)
  consider "c = 0" | "c = 0xF0" | "c = 0xE0" | "c \<noteq> 0" "c \<noteq> 0xF0" "c \<noteq> 0xE0" by blast
  then show ?case
  proof cases
    case 1
    then show ?thesis using s' Cons(2)[symmetric] u by (subst soc_input_keybrd.simps) (simp add: real_keys_def AM_KEY_NONE_def)
  next
    case 2
    then show ?thesis
      using s' Cons(2)[symmetric] u Cons(1)[OF s'(2)[symmetric], of "k\<lparr>is_break := True\<rparr>"]
      by (subst soc_input_keybrd.simps) fastforce
  next
    case 3
    then show ?thesis
      using s' Cons(2)[symmetric] u Cons(1)[OF s'(2)[symmetric], of "k\<lparr>is_ext := True\<rparr>"]
      by (subst soc_input_keybrd.simps) fastforce
  next
    case 4
    then show ?thesis
      using s' Cons(2)[symmetric] u by (subst soc_input_keybrd.simps) (simp add: real_keys_def ps2_start_def Let_def)
  qed
qed

lemma keybrd_polls:
  assumes "ps2_controller b received"
  shows "length (received s) \<le> n \<Longrightarrow> \<exists>evs k' s'. soc_poll b n k s = Some (Inr (evs, k', s')) \<and>
    real_keys evs = real_keys (ps2_decode k (received s))"
proof (induction n arbitrary: k s)
  case (Suc n)
  obtain ev k1 s1 where e: "soc_input_keybrd b k s = Some (Inr (ev, k1, s1))"
      "real_keys [ev] @ real_keys (ps2_decode k1 (received s1)) = real_keys (ps2_decode k (received s))"
      "length (received s1) \<le> length (received s) - 1"
    using keybrd_poll[OF assms] by blast
  then have "length (received s1) \<le> n" using Suc.prems by linarith
  then obtain evs k' s' where "soc_poll b n k1 s1 = Some (Inr (evs, k', s'))" "real_keys evs = real_keys (ps2_decode k1 (received s1))"
    using Suc.IH by blast
  moreover have "real_keys (ev # evs) = real_keys [ev] @ real_keys evs" by (simp add: real_keys_def)
  ultimately show ?case using e by simp
qed (simp add: real_keys_def)

section \<open>Clocks\<close>

text \<open>The low half is read first: when the clock carries into the high half between the two loads, the value is off by
  the whole high half.\<close>

lemma read_mtime_torn:
  assumes "bus_load b mmio 4 s = Inr (ucast t1, s1)" and "bus_load b (mmio + 4) 4 s1 = Inr (ucast (drop_bit 32 t2), s2)"
  shows "read_mtime mmio b s = Inr ((t2 AND NOT (mask 32)) OR (t1 AND mask 32), s2)" and
    "drop_bit 32 t1 = drop_bit 32 t2 \<Longrightarrow> read_mtime mmio b s = Inr (t1, s2)"
proof -
  have "push_bit 32 (ucast (ucast (drop_bit 32 t2) :: u32)) OR ucast (ucast t1 :: u32) = (t2 AND NOT (mask 32)) OR (t1 AND mask 32 :: u64)"
    by (rule bit_word_eqI) (auto simp: bit_simps)
  then show r: "read_mtime mmio b s = Inr ((t2 AND NOT (mask 32)) OR (t1 AND mask 32), s2)"
    by (simp add: read_mtime_def assms)
  assume eq: "drop_bit 32 t1 = drop_bit 32 t2"
  have "bit t2 n = bit t1 n" if "32 \<le> n" for n
    using that arg_cong[OF eq, of "\<lambda>w. bit w (n - 32)"] by (simp add: bit_drop_bit_eq)
  then have "(t2 AND NOT (mask 32)) OR (t1 AND mask 32) = t1"
    by (intro bit_word_eqI) (auto simp: bit_simps)
  then show "read_mtime mmio b s = Inr (t1, s2)" using r by simp
qed

section \<open>Properties\<close>

text \<open>C32: half of the keys reach a program under a wrong name: the emulator numbers its keys in another order than the
  bare-metal layer since the latter's table was sorted by kind.  Right are the keys up to TAB and the last twelve; Q, for
  one, is reported as a bracket.\<close>

theorem key_names_differ:
  assumes "inj_on sdl (set NEMU_KEYS)" and "i < length NEMU_KEYS"
  shows "am_key_name (keymap (init_keymap sdl d) (sdl (NEMU_KEYS ! i))) = AM_KEYS ! i \<and>
    (AM_KEYS ! i = NEMU_KEYS ! i \<longleftrightarrow> i < 28 \<or> 70 \<le> i)"
proof
  have i: "i < 82" using assms(2) nemu_keys by simp
  have "unat (1 + of_nat i :: u32) = i + 1"
    using i by (simp add: unat_word_ariths unat_of_nat take_bit_eq_mod)
  then show "am_key_name (keymap (init_keymap sdl d) (sdl (NEMU_KEYS ! i))) = AM_KEYS ! i"
    using init_keys_nth[OF assms(1) nemu_keys(1) assms(2), of 1] i nemu_keys
    by (simp add: init_keymap_def am_key_name_def)
  have "(NEMU_KEYS ! i = AM_KEYS ! i) = (replicate 28 True @ replicate 42 False @ replicate 12 True) ! i"
    using arg_cong[OF keys_compare, of "\<lambda>xs. xs ! i"] i by simp
  also have "\<dots> \<longleftrightarrow> i < 28 \<or> 70 \<le> i" using i by (auto simp: nth_append)
  finally show "AM_KEYS ! i = NEMU_KEYS ! i \<longleftrightarrow> i < 28 \<or> 70 \<le> i" by metis
qed

theorem key_names_differ_witness:
  "am_key_name (keymap (init_keymap (\<lambda>k. of_nat (length (takeWhile (\<lambda>x. x \<noteq> k) NEMU_KEYS))) dev0) 28) = ''LEFTBRACKET'' \<and>
   NEMU_KEYS ! 28 = ''Q''"
proof -
  let ?sdl = "\<lambda>k. of_nat (length (takeWhile (\<lambda>x. x \<noteq> k) NEMU_KEYS)) :: u8"
  have "distinct (map ?sdl NEMU_KEYS)" by code_simp
  then have "inj_on ?sdl (set NEMU_KEYS)" by (simp add: distinct_map)
  moreover have "?sdl (NEMU_KEYS ! 28) = 28" "AM_KEYS ! 28 = ''LEFTBRACKET''" "NEMU_KEYS ! 28 = ''Q''" by code_simp+
  ultimately show ?thesis using key_names_differ[of ?sdl 28 dev0] nemu_keys by simp
qed

text \<open>C31: the PS/2 driver inverts the keyboard's encoding: from the bytes of a sequence of key presses and releases,
  however they are spread over the polls, a program that polls long enough gets exactly those events in order, each
  under the code of its key.\<close>

theorem ps2_roundtrip:
  assumes "ps2_controller b received" and "list_all (\<lambda>ev. fst ev < length AM_KEY_TABLE) evs"
    and "filter (\<lambda>c. c \<noteq> 0) (received s) = concat (map ps2_bytes evs)" and "length (received s) \<le> n"
  shows "\<exists>out k' s'. soc_poll b n ps2_start s = Some (Inr (out, k', s')) \<and> real_keys out = map ps2_event evs"
proof -
  obtain out k' s' where out: "soc_poll b n ps2_start s = Some (Inr (out, k', s'))"
      "real_keys out = real_keys (ps2_decode ps2_start (received s))"
    using keybrd_polls[OF assms(1,4)] by blast
  have "ps2_decode ps2_start (received s) = map ps2_event evs"
    using ps2_decode_events[OF assms(2)] assms(3) ps2_decode_filter by metis
  moreover have "snd (ps2_event ev) \<noteq> AM_KEY_NONE" if "ev \<in> set evs" for ev
  proof -
    have "fst ev < 82" using assms(2) that by (auto simp: list_all_iff AM_KEY_TABLE_def)
    then have "unat (of_nat (fst ev + 1) :: u32) = fst ev + 1" by (subst unat_of_nat) (simp add: take_bit_eq_mod)
    moreover have "snd (ps2_event ev) = of_nat (fst ev + 1)" by (simp add: ps2_event_def split: prod.splits)
    ultimately show ?thesis by (metis AM_KEY_NONE_def add_is_0 one_neq_zero unat_0)
  qed
  then have "real_keys (map ps2_event evs) = map ps2_event evs"
    unfolding real_keys_def by (intro filter_True) (auto simp: case_prod_beta)
  ultimately show ?thesis using out by auto
qed

text \<open>Press and release of the right control key, with an empty poll inside the second code.\<close>

theorem ps2_roundtrip_witness:
  "\<exists>out k' s'. soc_poll \<lparr>bus_load = (\<lambda>a n s. Inr (case s of [] \<Rightarrow> 0 | c # cs \<Rightarrow> ucast c, tl s)), bus_store = (\<lambda>a n v s. Inr s)\<rparr> 7
      ps2_start [0xE0, 0x14, 0xE0, 0, 0xF0, 0x14 :: u8] = Some (Inr (out, k', s')) \<and> real_keys out = map ps2_event [(71, True), (71, False)]"
proof (rule ps2_roundtrip[where received = "\<lambda>s. s"])
  have "AM_KEY_TABLE ! 71 = (''RCTRL'', 0x14, True)" by code_simp
  then show "filter (\<lambda>c. c \<noteq> 0) [0xE0, 0x14, 0xE0, 0, 0xF0, 0x14 :: u8] = concat (map ps2_bytes [(71, True), (71, False)])"
    by (simp add: ps2_bytes_def)
qed (simp_all add: ps2_controller_def AM_KEY_TABLE_def)

end
