(* ===== verification/Am_Cte.thy ===== *)
theory Am_Cte
  imports Riscv
begin

text \<open>
  Context switching of the bare-metal layer on RISC-V (\<open>abstract-machine/am/src/riscv/*/cte.c\<close>, which is the same file
  on the three platforms) with the trap code \<open>nemu/trap.S\<close>, on the emulator's processor.  The
  \<open>trap.S\<close> of the other two platforms differs in the size of the context and is not modelled.

  An assembly line is an instruction with its operands, executed by the emulator's \<open>exec_body\<close>; the C functions access
  the saved context through the emulator's memory.  The compiled C code may leave any values in the registers: they are
  an argument of the trap.
\<close>

section \<open>Contexts (am/include/arch/riscv.h, trap.S)\<close>

definition NR_REGS :: "config \<Rightarrow> nat" where
  "NR_REGS cfg = nr_gpr cfg"

definition GPR1 :: "config \<Rightarrow> nat" where
  "GPR1 cfg = (if CONFIG_RVE cfg then 15 else 17)"

text \<open>\<open>struct Context\<close> ends in \<open>pdir\<close>, which the trap code's frame leaves out.\<close>

definition sizeof_Context :: "config \<Rightarrow> nat" where
  "sizeof_Context cfg = (NR_REGS cfg + 4) * 4"

definition CONTEXT_SIZE :: "config \<Rightarrow> nat" where
  "CONTEXT_SIZE cfg = (NR_REGS cfg + 3) * 4"

definition OFFSET_CAUSE :: "config \<Rightarrow> nat" where
  "OFFSET_CAUSE cfg = (NR_REGS cfg + 0) * 4"

definition OFFSET_STATUS :: "config \<Rightarrow> nat" where
  "OFFSET_STATUS cfg = (NR_REGS cfg + 1) * 4"

definition OFFSET_EPC :: "config \<Rightarrow> nat" where
  "OFFSET_EPC cfg = (NR_REGS cfg + 2) * 4"

text \<open>The registers saved: all but \<open>x0\<close> and the stack pointer \<open>x2\<close>.\<close>

definition REGS :: "config \<Rightarrow> nat list" where
  "REGS cfg = 1 # [3..<NR_REGS cfg]"

section \<open>Assembly\<close>

record asm =
  a_op :: rv_op
  a_rd :: nat
  a_rs1 :: nat
  a_rs2 :: nat
  a_csr :: nat
  a_imm :: u32

text \<open>One line at address \<open>pc\<close>: the next address and the state.\<close>

definition asm_step :: "config \<Rightarrow> u32 \<Rightarrow> asm \<Rightarrow> nemu \<Rightarrow> (u32 \<times> nemu) res" where
  "asm_step cfg pc i st =
     bind_res (R_get cfg (a_rs1 i) st) (\<lambda>x. bind_res (R_get cfg (a_rs2 i) st) (\<lambda>y.
     bind_res (exec_body cfg (a_op i) \<lparr>o_rd = a_rd i, o_rs1 = a_rs1 i, o_rs2 = a_rs2 i, o_csr = a_csr i, src1 = x, src2 = y, imm = a_imm i\<rparr>
         \<lparr>s_pc = pc, snpc = pc + 4, dnpc = pc + 4, inst = 0\<rparr> st) (\<lambda>(s, st).
     bind_res (R_set cfg 0 0 st) (\<lambda>st. Inr (dnpc s, st)))))"

fun asm_run :: "config \<Rightarrow> u32 \<Rightarrow> asm list \<Rightarrow> nemu \<Rightarrow> (u32 \<times> nemu) res" where
  "asm_run cfg pc [] st = Inr (pc, st)"
| "asm_run cfg pc (i # is) st = bind_res (asm_step cfg pc i st) (\<lambda>(pc, st). asm_run cfg pc is st)"

definition ADDI_asm :: "nat \<Rightarrow> nat \<Rightarrow> u32 \<Rightarrow> asm" where
  "ADDI_asm rd rs1 i = \<lparr>a_op = ADDI, a_rd = rd, a_rs1 = rs1, a_rs2 = 0, a_csr = 0, a_imm = i\<rparr>"

definition STORE_asm :: "nat \<Rightarrow> nat \<Rightarrow> nat \<Rightarrow> asm" where
  "STORE_asm rs2 ofs rs1 = \<lparr>a_op = SW, a_rd = 0, a_rs1 = rs1, a_rs2 = rs2, a_csr = 0, a_imm = of_nat ofs\<rparr>"

definition LOAD_asm :: "nat \<Rightarrow> nat \<Rightarrow> nat \<Rightarrow> asm" where
  "LOAD_asm rd ofs rs1 = \<lparr>a_op = LW, a_rd = rd, a_rs1 = rs1, a_rs2 = 0, a_csr = 0, a_imm = of_nat ofs\<rparr>"

definition csrr_asm :: "nat \<Rightarrow> nat \<Rightarrow> asm" where
  "csrr_asm rd c = \<lparr>a_op = CSRRS, a_rd = rd, a_rs1 = 0, a_rs2 = 0, a_csr = c, a_imm = 0\<rparr>"

definition csrw_asm :: "nat \<Rightarrow> nat \<Rightarrow> asm" where
  "csrw_asm c rs1 = \<lparr>a_op = CSRRW, a_rd = 0, a_rs1 = rs1, a_rs2 = 0, a_csr = c, a_imm = 0\<rparr>"

definition LUI_asm :: "nat \<Rightarrow> u32 \<Rightarrow> asm" where
  "LUI_asm rd i = \<lparr>a_op = LUI, a_rd = rd, a_rs1 = 0, a_rs2 = 0, a_csr = 0, a_imm = i\<rparr>"

definition OR_asm :: "nat \<Rightarrow> nat \<Rightarrow> nat \<Rightarrow> asm" where
  "OR_asm rd rs1 rs2 = \<lparr>a_op = OR_op, a_rd = rd, a_rs1 = rs1, a_rs2 = rs2, a_csr = 0, a_imm = 0\<rparr>"

definition plain_asm :: "rv_op \<Rightarrow> asm" where
  "plain_asm opc = \<lparr>a_op = opc, a_rd = 0, a_rs1 = 0, a_rs2 = 0, a_csr = 0, a_imm = 0\<rparr>"

lemmas asm_defs = ADDI_asm_def STORE_asm_def LOAD_asm_def csrr_asm_def csrw_asm_def LUI_asm_def OR_asm_def plain_asm_def

abbreviation (input) "x_sp \<equiv> (2 :: nat)"
abbreviation (input) "x_t0 \<equiv> (5 :: nat)"
abbreviation (input) "x_t1 \<equiv> (6 :: nat)"
abbreviation (input) "x_t2 \<equiv> (7 :: nat)"
abbreviation (input) "x_a0 \<equiv> (10 :: nat)"

section \<open>trap.S\<close>

definition trap_entry :: "config \<Rightarrow> asm list" where
  "trap_entry cfg = [ADDI_asm x_sp x_sp (- of_nat (CONTEXT_SIZE cfg))] @
     map (\<lambda>n. STORE_asm n (n * 4) x_sp) (REGS cfg) @
     [csrr_asm x_t0 CSR_mcause, csrr_asm x_t1 CSR_mstatus, csrr_asm x_t2 CSR_mepc,
      STORE_asm x_t0 (OFFSET_CAUSE cfg) x_sp, STORE_asm x_t1 (OFFSET_STATUS cfg) x_sp, STORE_asm x_t2 (OFFSET_EPC cfg) x_sp,
      LUI_asm x_a0 (push_bit 17 1), OR_asm x_t1 x_t1 x_a0, csrw_asm CSR_mstatus x_t1, ADDI_asm x_a0 x_sp 0]"

definition trap_exit :: "config \<Rightarrow> asm list" where
  "trap_exit cfg = [ADDI_asm x_sp x_a0 0, LOAD_asm x_t1 (OFFSET_STATUS cfg) x_sp, LOAD_asm x_t2 (OFFSET_EPC cfg) x_sp,
      csrw_asm CSR_mstatus x_t1, csrw_asm CSR_mepc x_t2] @
     map (\<lambda>n. LOAD_asm n (n * 4) x_sp) (REGS cfg) @
     [ADDI_asm x_sp x_sp (of_nat (CONTEXT_SIZE cfg)), plain_asm MRET]"

section \<open>cte.c\<close>

datatype event = EVENT_NULL | EVENT_YIELD | EVENT_SYSCALL | EVENT_PAGEFAULT | EVENT_ERROR | EVENT_IRQ_TIMER | EVENT_IRQ_IODEV

text \<open>A handler takes the event and the address of the context, and returns that of the context to go on with.\<close>

type_synonym handler_fn = "event \<Rightarrow> u32 \<Rightarrow> nemu \<Rightarrow> (u32 \<times> nemu) res"

definition am_irq_handle :: "config \<Rightarrow> handler_fn option \<Rightarrow> u32 \<Rightarrow> nemu \<Rightarrow> (u32 \<times> nemu) res" where
  "am_irq_handle cfg user_handler c st = (case user_handler of
     None \<Rightarrow> Inr (c, st)
   | Some h \<Rightarrow>
       bind_res (Mr cfg (c + of_nat (OFFSET_CAUSE cfg)) 4 st) (\<lambda>(mcause, st).
       bind_res
         (if mcause = 8 + 3 then
            bind_res (Mr cfg (c + of_nat (GPR1 cfg * 4)) 4 st) (\<lambda>(g, st).
              if g = - 1 then
                bind_res (Mr cfg (c + of_nat (OFFSET_EPC cfg)) 4 st) (\<lambda>(mepc, st).
                bind_res (Mw cfg (c + of_nat (OFFSET_EPC cfg)) 4 (mepc + 4) st) (\<lambda>st. Inr (EVENT_YIELD, st)))
              else Inr (EVENT_ERROR, st))
          else Inr (EVENT_ERROR, st)) (\<lambda>(ev, st).
       bind_res (h ev c st) (\<lambda>(c, st). assert_res ''c != NULL'' (c \<noteq> 0) (Inr (c, st))))))"

text \<open>\<open>__am_asm_trap\<close> at address \<open>pc\<close>; \<open>rg\<close> are the registers after the call.\<close>

definition am_asm_trap :: "config \<Rightarrow> u32 \<Rightarrow> handler_fn option \<Rightarrow> (nat \<Rightarrow> u32) \<Rightarrow> nemu \<Rightarrow> (u32 \<times> nemu) res" where
  "am_asm_trap cfg pc user_handler rg st =
     bind_res (asm_run cfg pc (trap_entry cfg) st) (\<lambda>(pc, st).
     bind_res (R_get cfg x_a0 st) (\<lambda>a0.
     bind_res (am_irq_handle cfg user_handler a0 st) (\<lambda>(c, st).
     asm_run cfg (pc + 4) (trap_exit cfg) (st\<lparr>cpu := (cpu st)\<lparr>gpr := rg(0 := 0, x_a0 := c)\<rparr>\<rparr>))))"

text \<open>\<open>cte_init\<close> stores the address of the trap code and returns the new value of \<open>user_handler\<close>.\<close>

definition cte_init :: "config \<Rightarrow> u32 \<Rightarrow> handler_fn option \<Rightarrow> nemu \<Rightarrow> (bool \<times> handler_fn option \<times> nemu) res" where
  "cte_init cfg asm_trap h st = bind_res (csr_set cfg CSR_mtvec asm_trap st) (\<lambda>st. Inr (True, h, st))"

definition kcontext :: "config \<Rightarrow> u32 \<Rightarrow> u32 \<Rightarrow> u32 \<Rightarrow> u32 \<Rightarrow> nemu \<Rightarrow> (u32 \<times> nemu) res" where
  "kcontext cfg kstack_start kstack_end entry arg st = (let c = kstack_end - of_nat (sizeof_Context cfg) in
     bind_res (Mw cfg (c + of_nat (OFFSET_EPC cfg)) 4 entry st) (\<lambda>st.
     bind_res (Mw cfg (c + of_nat (OFFSET_STATUS cfg)) 4 0x1800 st) (\<lambda>st.
     bind_res (Mw cfg (c + of_nat (10 * 4)) 4 arg st) (\<lambda>st. Inr (c, st)))))"

text \<open>\<open>yield\<close> at address \<open>pc\<close>, and the trap it causes.  Execution goes on at \<open>mtvec\<close>, where the trap code must be.\<close>

definition yield_code :: "config \<Rightarrow> asm list" where
  "yield_code cfg = [ADDI_asm (GPR1 cfg) 0 (- 1), plain_asm ECALL]"

definition yield_am :: "config \<Rightarrow> u32 \<Rightarrow> u32 \<Rightarrow> handler_fn option \<Rightarrow> (nat \<Rightarrow> u32) \<Rightarrow> nemu \<Rightarrow> (u32 \<times> nemu) res" where
  "yield_am cfg pc asm_trap user_handler rg st =
     bind_res (asm_run cfg pc (yield_code cfg) st) (\<lambda>(target, st).
     if target = asm_trap then am_asm_trap cfg asm_trap user_handler rg st
     else Inl (Undefined ''no trap code at mtvec''))"

definition ienabled :: bool where
  "ienabled = False"

definition iset :: "bool \<Rightarrow> nemu \<Rightarrow> nemu" where
  "iset enable st = st"

end
