(* ===== verification/Am_Cte_Proofs.thy ===== *)
theory Am_Cte_Proofs
  imports Am_Cte Monitor_Proofs
begin

text \<open>
  Context switching: the trap code saves and restores every register of a thread, so that \<open>yield\<close> resumes exactly the
  context the handler chooses, and a context made by \<open>kcontext\<close> starts its function with its argument.
\<close>

section \<open>The words of a frame\<close>

text \<open>The frame at \<open>p\<close> lies in physical memory.\<close>

definition frame_ok :: "config \<Rightarrow> u32 \<Rightarrow> bool" where
  "frame_ok cfg p \<longleftrightarrow> guest_to_host cfg p + CONTEXT_SIZE cfg \<le> unat (CONFIG_MSIZE cfg)"

definition frame_word :: "config \<Rightarrow> nemu \<Rightarrow> u32 \<Rightarrow> nat \<Rightarrow> u32" where
  "frame_word cfg st p j = read_le (pmem (memory st)) (guest_to_host cfg p + j * 4) 4"

lemma frame_access:
  assumes "frame_ok cfg p" and "j < NR_REGS cfg + 3"
  shows "guest_to_host cfg (p + of_nat (j * 4)) = guest_to_host cfg p + j * 4"
    and "guest_to_host cfg p + j * 4 + 4 \<le> unat (CONFIG_MSIZE cfg)"
proof -
  show le: "guest_to_host cfg p + j * 4 + 4 \<le> unat (CONFIG_MSIZE cfg)" using assms by (simp add: frame_ok_def CONTEXT_SIZE_def)
  then show "guest_to_host cfg (p + of_nat (j * 4)) = guest_to_host cfg p + j * 4"
    by (intro guest_to_host_add) simp
qed

lemma frame_load:
  assumes "frame_ok cfg p" and "j < NR_REGS cfg + 3"
  shows "Mr cfg (p + of_nat (j * 4)) 4 st = Inr (frame_word cfg st p j, st)"
proof -
  note f = frame_access[OF assms]
  have "access_len 4" by (simp add: access_len_def)
  then have "paddr_read cfg (p + of_nat (j * 4)) 4 (memory st) = Inr (read_le (pmem (memory st)) (guest_to_host cfg p + j * 4) 4, memory st)"
    using paddr_read_pmem[of 4 cfg "p + of_nat (j * 4)" "memory st"] f by (simp only:)
  then show ?thesis by (simp add: Mr_def vaddr_read_def frame_word_def del: read_le.simps of_nat_mult)
qed

text \<open>A store into the frame changes one word.\<close>

definition frame_store :: "config \<Rightarrow> u32 \<Rightarrow> nat \<Rightarrow> u32 \<Rightarrow> nemu \<Rightarrow> nemu" where
  "frame_store cfg p j v st = st\<lparr>memory := (memory st)\<lparr>pmem := write_le (pmem (memory st)) (guest_to_host cfg p + j * 4) 4 v\<rparr>\<rparr>"

lemma frame_stores:
  assumes "frame_ok cfg p" and "j < NR_REGS cfg + 3"
  shows "Mw cfg (p + of_nat (j * 4)) 4 v st = Inr (frame_store cfg p j v st)"
proof -
  note f = frame_access[OF assms]
  have "access_len 4" by (simp add: access_len_def)
  then show ?thesis
    using paddr_write_pmem[of 4 cfg "p + of_nat (j * 4)" v "memory st"] f
    by (simp add: Mw_def vaddr_write_def frame_store_def del: write_le.simps of_nat_mult)
qed

lemma frame_word_store: "frame_word cfg (frame_store cfg p j v st) p i = (if i = j then v else frame_word cfg st p i)"
proof (cases "i = j")
  case True
  have "take_bit 32 v = v" by (rule bit_word_eqI) (auto simp: bit_take_bit_iff)
  then show ?thesis using True read_write_le_same[of "pmem (memory st)" "guest_to_host cfg p + j * 4" 4 v]
    by (simp add: frame_word_def frame_store_def del: read_le.simps write_le.simps)
next
  case False
  then have "guest_to_host cfg p + j * 4 + 4 \<le> guest_to_host cfg p + i * 4 \<or> guest_to_host cfg p + i * 4 + 4 \<le> guest_to_host cfg p + j * 4"
    by linarith
  then show ?thesis using False by (simp add: frame_word_def frame_store_def read_write_le_disjoint del: read_le.simps write_le.simps)
qed

lemma frame_store_fields [simp]: "cpu (frame_store cfg p j v st) = cpu st" "devs (memory (frame_store cfg p j v st)) = devs (memory st)"
  by (simp_all add: frame_store_def)

lemma frame_store_outside:
  "j < NR_REGS cfg + 3 \<Longrightarrow> i < guest_to_host cfg p \<or> guest_to_host cfg p + CONTEXT_SIZE cfg \<le> i \<Longrightarrow>
   pmem (memory (frame_store cfg p j v st)) i = pmem (memory st) i"
  unfolding frame_store_def by (simp add: CONTEXT_SIZE_def del: write_le.simps) (rule write_le_other, auto)

lemma frame_word_cong: "memory st' = memory st \<Longrightarrow> frame_word cfg st' p j = frame_word cfg st p j"
  by (simp add: frame_word_def)

section \<open>One line of assembly\<close>

definition set_gpr :: "nat \<Rightarrow> u32 \<Rightarrow> nemu \<Rightarrow> nemu" where
  "set_gpr r v st = st\<lparr>cpu := (cpu st)\<lparr>gpr := (gpr (cpu st))(r := v)\<rparr>\<rparr>"

definition set_csr :: "nat \<Rightarrow> u32 \<Rightarrow> nemu \<Rightarrow> nemu" where
  "set_csr c v st = st\<lparr>cpu := (cpu st)\<lparr>csr := (csr (cpu st))(c := v)\<rparr>\<rparr>"

lemma set_gpr_fields [simp]:
  "memory (set_gpr r v st) = memory st" "gpr (cpu (set_gpr r v st)) = (gpr (cpu st))(r := v)" "csr (cpu (set_gpr r v st)) = csr (cpu st)"
  "priv_level (cpu (set_gpr r v st)) = priv_level (cpu st)"
  by (simp_all add: set_gpr_def)

lemma set_csr_fields [simp]:
  "memory (set_csr r v st) = memory st" "csr (cpu (set_csr r v st)) = (csr (cpu st))(r := v)" "gpr (cpu (set_csr r v st)) = gpr (cpu st)"
  "priv_level (cpu (set_csr r v st)) = priv_level (cpu st)"
  by (simp_all add: set_csr_def)

text \<open>The zero register holds 0 between instructions.\<close>

definition x0_ok :: "nemu \<Rightarrow> bool" where
  "x0_ok st \<longleftrightarrow> gpr (cpu st) 0 = 0"

lemma x0_ok_set [simp]: "r \<noteq> 0 \<Longrightarrow> x0_ok (set_gpr r v st) = x0_ok st" "x0_ok (set_csr c v st) = x0_ok st"
  "x0_ok (frame_store cfg p j v st) = x0_ok st"
  by (simp_all add: x0_ok_def)

lemma set_gpr_x0 [simp]: "x0_ok st \<Longrightarrow> set_gpr 0 0 st = st"
  by (simp add: set_gpr_def x0_ok_def fun_upd_idem)

lemma R_get_ok: "i < nr_gpr cfg \<Longrightarrow> R_get cfg i st = Inr (gpr (cpu st) i)"
  by (simp add: R_get_def check_reg_idx_def)

lemma R_set_ok: "i < nr_gpr cfg \<Longrightarrow> R_set cfg i v st = Inr (set_gpr i v st)"
  by (simp add: R_set_def check_reg_idx_def set_gpr_def)

lemma R_set_x0: "x0_ok st \<Longrightarrow> R_set cfg 0 0 st = Inr st"
  by (simp add: R_set_0 x0_ok_def fun_upd_idem)

lemma csr_get_ok: "c < 4096 \<Longrightarrow> csr_get cfg c st = Inr (csr (cpu st) c)"
  by (simp add: csr_get_def check_csr_idx_def)

lemma csr_set_ok: "c < 4096 \<Longrightarrow> csr_set cfg c v st = Inr (set_csr c v st)"
  by (simp add: csr_set_def check_csr_idx_def set_csr_def)

lemma nr_gpr_16 [simp]: "i < 16 \<Longrightarrow> i < nr_gpr cfg"
  by (simp add: nr_gpr_def)

lemma nr_gpr_pos [simp]: "0 < nr_gpr cfg"
  by simp

lemma x0_gpr: "x0_ok st \<Longrightarrow> gpr (cpu st) 0 = 0"
  by (simp add: x0_ok_def)

lemma csr_idem: "set_csr c (csr (cpu st) c) st = st"
  by (simp add: set_csr_def fun_upd_idem)

named_theorems asm_steps \<open>what one line of assembly does\<close>

lemma step_ADDI [asm_steps]:
  "x0_ok st \<Longrightarrow> 0 < rd \<Longrightarrow> rd < nr_gpr cfg \<Longrightarrow> rs < nr_gpr cfg \<Longrightarrow>
   asm_step cfg pc (ADDI_asm rd rs i) st = Inr (pc + 4, set_gpr rd (gpr (cpu st) rs + i) st)"
  by (simp add: asm_step_def asm_defs exec_body_def set_rd_def R_get_ok R_set_ok R_set_x0)

lemma step_LUI [asm_steps]:
  "x0_ok st \<Longrightarrow> 0 < rd \<Longrightarrow> rd < nr_gpr cfg \<Longrightarrow> asm_step cfg pc (LUI_asm rd i) st = Inr (pc + 4, set_gpr rd i st)"
  by (simp add: asm_step_def asm_defs exec_body_def set_rd_def R_get_ok R_set_ok R_set_x0)

lemma step_OR [asm_steps]:
  "x0_ok st \<Longrightarrow> 0 < rd \<Longrightarrow> rd < nr_gpr cfg \<Longrightarrow> rs < nr_gpr cfg \<Longrightarrow> rs' < nr_gpr cfg \<Longrightarrow>
   asm_step cfg pc (OR_asm rd rs rs') st = Inr (pc + 4, set_gpr rd (gpr (cpu st) rs OR gpr (cpu st) rs') st)"
  by (simp add: asm_step_def asm_defs exec_body_def set_rd_def R_get_ok R_set_ok R_set_x0)

lemma step_csrr [asm_steps]:
  "x0_ok st \<Longrightarrow> 0 < rd \<Longrightarrow> rd < nr_gpr cfg \<Longrightarrow> c < 4096 \<Longrightarrow>
   asm_step cfg pc (csrr_asm rd c) st = Inr (pc + 4, set_gpr rd (csr (cpu st) c) st)"
  by (simp add: asm_step_def asm_defs exec_body_def on_state_def riscv_csrrs_def riscv_csrrsi_def R_get_ok R_set_ok R_set_x0
      csr_get_ok csr_set_ok csr_idem x0_gpr)

lemma set_gpr_0: "x0_ok st \<Longrightarrow> set_gpr 0 0 (set_gpr 0 v st) = st"
  by (simp add: set_gpr_def x0_ok_def fun_upd_idem)

lemma step_csrw [asm_steps]:
  "x0_ok st \<Longrightarrow> rs < nr_gpr cfg \<Longrightarrow> c < 4096 \<Longrightarrow>
   asm_step cfg pc (csrw_asm c rs) st = Inr (pc + 4, set_csr c (gpr (cpu st) rs) st)"
  by (simp add: asm_step_def asm_defs exec_body_def on_state_def riscv_csrrw_def riscv_csrrwi_def R_get_ok R_set_ok
      csr_get_ok csr_set_ok set_gpr_0)

lemma step_STORE [asm_steps]:
  "x0_ok st \<Longrightarrow> r < nr_gpr cfg \<Longrightarrow> b < nr_gpr cfg \<Longrightarrow> frame_ok cfg (gpr (cpu st) b) \<Longrightarrow> j < NR_REGS cfg + 3 \<Longrightarrow>
   asm_step cfg pc (STORE_asm r (j * 4) b) st = Inr (pc + 4, frame_store cfg (gpr (cpu st) b) j (gpr (cpu st) r) st)"
  by (simp add: asm_step_def asm_defs exec_body_def store_op_def R_get_ok frame_stores R_set_x0 del: of_nat_mult)

lemma step_LOAD [asm_steps]:
  "x0_ok st \<Longrightarrow> 0 < r \<Longrightarrow> r < nr_gpr cfg \<Longrightarrow> b < nr_gpr cfg \<Longrightarrow> frame_ok cfg (gpr (cpu st) b) \<Longrightarrow> j < NR_REGS cfg + 3 \<Longrightarrow>
   asm_step cfg pc (LOAD_asm r (j * 4) b) st = Inr (pc + 4, set_gpr r (frame_word cfg st (gpr (cpu st) b) j) st)"
  by (simp add: asm_step_def asm_defs exec_body_def load_op_def set_rd_def R_get_ok R_set_ok frame_load R_set_x0 del: of_nat_mult)

lemma step_ECALL [asm_steps]:
  "x0_ok st \<Longrightarrow> asm_step cfg pc (plain_asm ECALL) st = Inr (csr (cpu st) CSR_mtvec,
     set_csr CSR_mcause (ucast (priv_level (cpu st)) + 8) (set_csr CSR_mtval pc (set_csr CSR_mepc pc st)))"
  by (simp add: asm_step_def asm_defs exec_body_def riscv_ecall_def isa_raise_intr_def R_get_ok csr_set_ok csr_get_ok R_set_x0 csr_idx)

lemma step_MRET [asm_steps]:
  "x0_ok st \<Longrightarrow> asm_step cfg pc (plain_asm MRET) st = Inr (csr (cpu st) CSR_mepc, st)"
  by (simp add: asm_step_def asm_defs exec_body_def riscv_mret_def R_get_ok csr_get_ok R_set_x0 csr_idx)

section \<open>Blocks\<close>

lemma asm_run_append: "asm_run cfg pc (xs @ ys) st = bind_res (asm_run cfg pc xs st) (\<lambda>(pc, st). asm_run cfg pc ys st)"
proof (induction xs arbitrary: pc st)
  case (Cons x xs)
  then show ?case by (cases "asm_step cfg pc x st") auto
qed simp

text \<open>What the trap code may change of the frame at \<open>p\<close>: nothing outside it.\<close>

definition frame_only :: "config \<Rightarrow> u32 \<Rightarrow> nemu \<Rightarrow> nemu \<Rightarrow> bool" where
  "frame_only cfg p st st' \<longleftrightarrow> devs (memory st') = devs (memory st) \<and>
     (\<forall>i. i < guest_to_host cfg p \<or> guest_to_host cfg p + CONTEXT_SIZE cfg \<le> i \<longrightarrow> pmem (memory st') i = pmem (memory st) i)"

lemma frame_only_store: "frame_only cfg p st st' \<Longrightarrow> j < NR_REGS cfg + 3 \<Longrightarrow> frame_only cfg p st (frame_store cfg p j v st')"
  by (simp add: frame_only_def frame_store_outside)

lemma frame_only_memory: "memory st' = memory st'' \<Longrightarrow> frame_only cfg p st st' = frame_only cfg p st st''"
  by (simp add: frame_only_def)

lemma push_block:
  assumes "x0_ok st" and "gpr (cpu st) x_sp = p" and "frame_ok cfg p" and "set ns \<subseteq> {..<NR_REGS cfg}"
  shows "\<exists>st'. asm_run cfg pc (map (\<lambda>n. STORE_asm n (n * 4) x_sp) ns) st = Inr (pc + 4 * of_nat (length ns), st') \<and> cpu st' = cpu st \<and>
    (\<forall>j. frame_word cfg st' p j = (if j \<in> set ns then gpr (cpu st) j else frame_word cfg st p j)) \<and>
    (\<forall>st0. frame_only cfg p st0 st \<longrightarrow> frame_only cfg p st0 st')"
  using assms
proof (induction ns arbitrary: pc st)
  case (Cons n ns)
  let ?s = "frame_store cfg p n (gpr (cpu st) n) st"
  have n: "n < NR_REGS cfg" "n < nr_gpr cfg" using Cons.prems(4) by (simp_all add: NR_REGS_def)
  have "\<exists>st'. asm_run cfg (pc + 4) (map (\<lambda>n. STORE_asm n (n * 4) x_sp) ns) ?s = Inr (pc + 4 + 4 * of_nat (length ns), st') \<and> cpu st' = cpu ?s \<and>
    (\<forall>j. frame_word cfg st' p j = (if j \<in> set ns then gpr (cpu ?s) j else frame_word cfg ?s p j)) \<and>
    (\<forall>st0. frame_only cfg p st0 ?s \<longrightarrow> frame_only cfg p st0 st')"
    using Cons.prems by (intro Cons.IH) auto
  moreover have "asm_step cfg pc (STORE_asm n (n * 4) x_sp) st = Inr (pc + 4, ?s)"
    using Cons.prems n step_STORE[of st n cfg x_sp n pc] by simp
  ultimately show ?case using n by (auto simp: frame_word_store frame_only_store algebra_simps)
qed simp

lemma pop_block:
  assumes "x0_ok st" and "gpr (cpu st) x_sp = p" and "frame_ok cfg p" and "set ns \<subseteq> {1..<NR_REGS cfg} - {x_sp}"
  shows "\<exists>st'. asm_run cfg pc (map (\<lambda>n. LOAD_asm n (n * 4) x_sp) ns) st = Inr (pc + 4 * of_nat (length ns), st') \<and> memory st' = memory st \<and>
    csr (cpu st') = csr (cpu st) \<and> gpr (cpu st') = (\<lambda>i. if i \<in> set ns then frame_word cfg st p i else gpr (cpu st) i)"
  using assms
proof (induction ns arbitrary: pc st)
  case (Cons n ns)
  let ?s = "set_gpr n (frame_word cfg st p n) st"
  have n: "0 < n" "n < NR_REGS cfg" "n < nr_gpr cfg" "n \<noteq> x_sp" using Cons.prems(4) by (auto simp: NR_REGS_def)
  have "\<exists>st'. asm_run cfg (pc + 4) (map (\<lambda>n. LOAD_asm n (n * 4) x_sp) ns) ?s = Inr (pc + 4 + 4 * of_nat (length ns), st') \<and>
    memory st' = memory ?s \<and> csr (cpu st') = csr (cpu ?s) \<and>
    gpr (cpu st') = (\<lambda>i. if i \<in> set ns then frame_word cfg ?s p i else gpr (cpu ?s) i)"
    using Cons.prems n by (intro Cons.IH) auto
  moreover have "asm_step cfg pc (LOAD_asm n (n * 4) x_sp) st = Inr (pc + 4, ?s)"
    using Cons.prems n step_LOAD[of st n cfg x_sp n pc] by simp
  moreover have "frame_word cfg ?s p i = frame_word cfg st p i" for i by (rule frame_word_cong) simp
  ultimately show ?case by (auto simp: algebra_simps fun_eq_iff)
qed (simp add: fun_eq_iff)

lemma REGS_set: "set (REGS cfg) = {1..<NR_REGS cfg} - {x_sp}"
proof -
  have "16 \<le> NR_REGS cfg" by (simp add: NR_REGS_def nr_gpr_def)
  then show ?thesis by (auto simp: REGS_def)
qed

section \<open>Entry and exit\<close>

lemma trap_enters:
  assumes "x0_ok st" and "gpr (cpu st) x_sp = p + of_nat (CONTEXT_SIZE cfg)" and "frame_ok cfg p"
  shows "\<exists>pc' st'. asm_run cfg pc (trap_entry cfg) st = Inr (pc', st') \<and> gpr (cpu st') x_a0 = p \<and> x0_ok st' \<and> frame_only cfg p st st' \<and>
    (\<forall>j \<in> set (REGS cfg). frame_word cfg st' p j = gpr (cpu st) j) \<and>
    frame_word cfg st' p (NR_REGS cfg + 0) = csr (cpu st) CSR_mcause \<and>
    frame_word cfg st' p (NR_REGS cfg + 1) = csr (cpu st) CSR_mstatus \<and>
    frame_word cfg st' p (NR_REGS cfg + 2) = csr (cpu st) CSR_mepc"
proof -
  define j0 j1 j2 where j_def: "j0 = NR_REGS cfg + 0" "j1 = NR_REGS cfg + 1" "j2 = NR_REGS cfg + 2"
  have j: "j0 < NR_REGS cfg + 3" "j1 < NR_REGS cfg + 3" "j2 < NR_REGS cfg + 3" "j0 \<noteq> j1" "j0 \<noteq> j2" "j1 \<noteq> j2"
    "OFFSET_CAUSE cfg = j0 * 4" "OFFSET_STATUS cfg = j1 * 4" "OFFSET_EPC cfg = j2 * 4"
    by (simp_all add: j_def OFFSET_CAUSE_def OFFSET_STATUS_def OFFSET_EPC_def)
  have jr: "i \<noteq> j0" "i \<noteq> j1" "i \<noteq> j2" if "i \<in> set (REGS cfg)" for i using that by (auto simp: REGS_set j_def)
  let ?s1 = "set_gpr x_sp p st"
  have s1: "asm_step cfg pc (ADDI_asm x_sp x_sp (- of_nat (CONTEXT_SIZE cfg))) st = Inr (pc + 4, ?s1)"
    using assms(1,2) by (simp add: asm_steps)
  have "set (REGS cfg) \<subseteq> {..<NR_REGS cfg}" unfolding REGS_set by auto
  then obtain st2 where s2: "asm_run cfg (pc + 4) (map (\<lambda>n. STORE_asm n (n * 4) x_sp) (REGS cfg)) ?s1 =
        Inr (pc + 4 + 4 * of_nat (length (REGS cfg)), st2)" "cpu st2 = cpu ?s1"
      "\<And>j. frame_word cfg st2 p j = (if j \<in> set (REGS cfg) then gpr (cpu ?s1) j else frame_word cfg ?s1 p j)"
      "frame_only cfg p st st2"
    using push_block[of ?s1 p cfg "REGS cfg" "pc + 4"] assms frame_only_memory[of ?s1 st] by (auto simp: frame_only_def)
  have x2: "x0_ok st2" "gpr (cpu st2) x_sp = p" using assms(1) s2(2) by (simp_all add: x0_ok_def)
  let ?s3 = "set_gpr x_t2 (csr (cpu st) CSR_mepc) (set_gpr x_t1 (csr (cpu st) CSR_mstatus) (set_gpr x_t0 (csr (cpu st) CSR_mcause) st2))"
  let ?s4 = "frame_store cfg p j2 (csr (cpu st) CSR_mepc) (frame_store cfg p j1 (csr (cpu st) CSR_mstatus)
      (frame_store cfg p j0 (csr (cpu st) CSR_mcause) ?s3))"
  let ?ms = "csr (cpu st) CSR_mstatus OR push_bit 17 1"
  let ?s5 = "set_gpr x_a0 p (set_csr CSR_mstatus ?ms (set_gpr x_t1 ?ms (set_gpr x_a0 (push_bit 17 1) ?s4)))"
  have c2: "csr (cpu st2) = csr (cpu st)" using s2(2) by simp
  have tail: "\<exists>pc'. asm_run cfg pc0
     [csrr_asm x_t0 CSR_mcause, csrr_asm x_t1 CSR_mstatus, csrr_asm x_t2 CSR_mepc,
      STORE_asm x_t0 (j0 * 4) x_sp, STORE_asm x_t1 (j1 * 4) x_sp, STORE_asm x_t2 (j2 * 4) x_sp,
      LUI_asm x_a0 (push_bit 17 1), OR_asm x_t1 x_t1 x_a0, csrw_asm CSR_mstatus x_t1, ADDI_asm x_a0 x_sp 0] st2 = Inr (pc', ?s5)" for pc0
    using x2 assms(3) c2 j by (simp add: asm_steps csr_idx)
  then obtain pc' where run: "asm_run cfg pc (trap_entry cfg) st = Inr (pc', ?s5)"
    unfolding trap_entry_def asm_run_append using s1 s2(1) j(7-9) by auto
  have m5: "memory ?s5 = memory ?s4" by simp
  have w: "frame_word cfg ?s5 p j = frame_word cfg ?s4 p j" for j by (rule frame_word_cong) (rule m5)
  have w3: "frame_word cfg ?s3 p j = frame_word cfg st2 p j" for j by (rule frame_word_cong) simp
  have "frame_only cfg p st ?s3" using s2(4) by (simp add: frame_only_def)
  then have "frame_only cfg p st ?s4" by (intro frame_only_store j)
  then have "frame_only cfg p st ?s5" by (simp only: frame_only_memory[OF m5])
  moreover have "x0_ok ?s5" using x2 by simp
  moreover have "frame_word cfg ?s5 p j = gpr (cpu st) j" if "j \<in> set (REGS cfg)" for j
    using that jr[OF that] unfolding w frame_word_store w3 s2(3) by (auto simp: REGS_set)
  moreover have "frame_word cfg ?s5 p j0 = csr (cpu st) CSR_mcause" "frame_word cfg ?s5 p j1 = csr (cpu st) CSR_mstatus"
    "frame_word cfg ?s5 p j2 = csr (cpu st) CSR_mepc"
    unfolding w frame_word_store using j by simp_all
  moreover have "gpr (cpu ?s5) x_a0 = p" by simp
  ultimately show ?thesis using run unfolding j_def[symmetric] by blast
qed

text \<open>A saved context: the registers, the status and the address to go on at.\<close>

definition context_at :: "config \<Rightarrow> nemu \<Rightarrow> u32 \<Rightarrow> (nat \<Rightarrow> u32) \<Rightarrow> u32 \<Rightarrow> u32 \<Rightarrow> bool" where
  "context_at cfg st c rs status epc \<longleftrightarrow> frame_ok cfg c \<and> (\<forall>i \<in> set (REGS cfg). frame_word cfg st c i = rs i) \<and>
     frame_word cfg st c (NR_REGS cfg + 1) = status \<and> frame_word cfg st c (NR_REGS cfg + 2) = epc"

lemma trap_exits:
  assumes "x0_ok st" and "gpr (cpu st) x_a0 = c" and "context_at cfg st c rs status epc"
  shows "\<exists>st'. asm_run cfg pc (trap_exit cfg) st = Inr (epc, st') \<and> memory st' = memory st \<and> x0_ok st' \<and>
    (\<forall>i \<in> set (REGS cfg). gpr (cpu st') i = rs i) \<and> gpr (cpu st') x_sp = c + of_nat (CONTEXT_SIZE cfg) \<and>
    csr (cpu st') CSR_mstatus = status"
proof -
  define j1 j2 where j_def: "j1 = NR_REGS cfg + 1" "j2 = NR_REGS cfg + 2"
  have j: "j1 < NR_REGS cfg + 3" "j2 < NR_REGS cfg + 3" "OFFSET_STATUS cfg = j1 * 4" "OFFSET_EPC cfg = j2 * 4"
    by (simp_all add: j_def OFFSET_STATUS_def OFFSET_EPC_def)
  have c: "frame_ok cfg c" "frame_word cfg st c j1 = status" "frame_word cfg st c j2 = epc"
    and rs: "\<And>i. i \<in> set (REGS cfg) \<Longrightarrow> frame_word cfg st c i = rs i"
    using assms(3) by (simp_all add: context_at_def j_def)
  let ?s1 = "set_csr CSR_mepc epc (set_csr CSR_mstatus status (set_gpr x_t2 epc (set_gpr x_t1 status (set_gpr x_sp c st))))"
  have fw: "frame_word cfg (set_gpr i v s) c j = frame_word cfg s c j" "frame_word cfg (set_csr i v s) c j = frame_word cfg s c j" for i v s j
    by (simp_all add: frame_word_def)
  have head: "asm_run cfg pc [ADDI_asm x_sp x_a0 0, LOAD_asm x_t1 (j1 * 4) x_sp, LOAD_asm x_t2 (j2 * 4) x_sp,
      csrw_asm CSR_mstatus x_t1, csrw_asm CSR_mepc x_t2] st = Inr (pc + 4 + 4 + 4 + 4 + 4, ?s1)"
    using assms(1,2) c j(1,2) by (simp add: asm_steps csr_idx fw)
  have ns: "set (REGS cfg) \<subseteq> {1..<NR_REGS cfg} - {x_sp}" using REGS_set by simp
  have sp: "gpr (cpu ?s1) x_sp = c" "x0_ok ?s1" using assms(1) by simp_all
  obtain st2 where st2: "asm_run cfg (pc + 4 + 4 + 4 + 4 + 4) (map (\<lambda>n. LOAD_asm n (n * 4) x_sp) (REGS cfg)) ?s1 =
        Inr (pc + 4 + 4 + 4 + 4 + 4 + 4 * of_nat (length (REGS cfg)), st2)" "memory st2 = memory ?s1" "csr (cpu st2) = csr (cpu ?s1)"
      "gpr (cpu st2) = (\<lambda>i. if i \<in> set (REGS cfg) then frame_word cfg ?s1 c i else gpr (cpu ?s1) i)"
    using pop_block[OF sp(2,1) c(1) ns] by blast
  have nz: "0 \<notin> set (REGS cfg)" "x_sp \<notin> set (REGS cfg)" using REGS_set by auto
  have x2: "x0_ok st2" "gpr (cpu st2) x_sp = c" using sp nz st2(4) by (simp_all add: x0_ok_def)
  let ?s3 = "set_gpr x_sp (c + of_nat (CONTEXT_SIZE cfg)) st2"
  have "csr (cpu st2) CSR_mepc = epc" using st2(3) by simp
  then have tail: "asm_run cfg pc0 [ADDI_asm x_sp x_sp (of_nat (CONTEXT_SIZE cfg)), plain_asm MRET] st2 = Inr (epc, ?s3)" for pc0
    using x2 by (simp add: asm_steps)
  have "asm_run cfg pc (trap_exit cfg) st = Inr (epc, ?s3)"
    unfolding trap_exit_def j(3,4) asm_run_append head using st2(1) tail by simp
  moreover have "gpr (cpu ?s3) i = rs i" if "i \<in> set (REGS cfg)" for i
    using that nz st2(4) rs[OF that] by (auto simp: fw)
  moreover have "csr (cpu ?s3) CSR_mstatus = status" using st2(3) by (simp add: csr_idx)
  moreover have "x0_ok ?s3" "memory ?s3 = memory st" "gpr (cpu ?s3) x_sp = c + of_nat (CONTEXT_SIZE cfg)" using x2 st2(2) by simp_all
  ultimately show ?thesis by blast
qed

section \<open>yield\<close>

lemma GPR1_reg: "GPR1 cfg \<in> set (REGS cfg)" "GPR1 cfg < NR_REGS cfg" "0 < GPR1 cfg" "GPR1 cfg \<noteq> x_sp"
  by (auto simp: REGS_set GPR1_def NR_REGS_def nr_gpr_def)

text \<open>The event handler is called for \<open>EVENT_YIELD\<close>, with the saved address advanced behind the \<open>ecall\<close>.\<close>

lemma irq_handles_yield:
  assumes "frame_ok cfg p" and "frame_word cfg st p (NR_REGS cfg + 0) = 11" and "frame_word cfg st p (GPR1 cfg) = - 1"
  shows "am_irq_handle cfg (Some h) p st =
    bind_res (h EVENT_YIELD p (frame_store cfg p (NR_REGS cfg + 2) (frame_word cfg st p (NR_REGS cfg + 2) + 4) st))
      (\<lambda>(c, st). assert_res ''c != NULL'' (c \<noteq> 0) (Inr (c, st)))"
proof -
  define j0 j2 where j_def: "j0 = NR_REGS cfg + 0" "j2 = NR_REGS cfg + 2"
  have j: "j0 < NR_REGS cfg + 3" "j2 < NR_REGS cfg + 3" "OFFSET_CAUSE cfg = j0 * 4" "OFFSET_EPC cfg = j2 * 4"
    by (simp_all add: j_def OFFSET_CAUSE_def OFFSET_EPC_def)
  have g: "GPR1 cfg < NR_REGS cfg + 3" using GPR1_reg(2)[of cfg] by simp
  show ?thesis
    using assms unfolding am_irq_handle_def option.case j(3,4) j_def[symmetric] frame_load[OF assms(1) j(1)]
    by (simp add: frame_load[OF assms(1) g] frame_load[OF assms(1) j(2)] frame_stores[OF assms(1) j(2)] del: of_nat_mult)
qed

text \<open>The state the handler is called in, from that in which \<open>yield\<close> is.\<close>

lemma yield_saves:
  assumes "x0_ok st" and "gpr (cpu st) x_sp = p + of_nat (CONTEXT_SIZE cfg)" and "frame_ok cfg p"
    and "csr (cpu st) CSR_mtvec = asm_trap" and "priv_level (cpu st) = PRIV_LEVEL_M"
  shows "\<exists>st1 pc'. frame_only cfg p st st1 \<and>
    context_at cfg st1 p ((gpr (cpu st))(GPR1 cfg := - 1)) (csr (cpu st) CSR_mstatus) (pc + 8) \<and>
    (\<forall>h rg. yield_am cfg pc asm_trap (Some h) rg st =
      bind_res (bind_res (h EVENT_YIELD p st1) (\<lambda>(c, st). assert_res ''c != NULL'' (c \<noteq> 0) (Inr (c, st)))) (\<lambda>(c, st2).
        asm_run cfg (pc' + 4) (trap_exit cfg) (st2\<lparr>cpu := (cpu st2)\<lparr>gpr := rg(0 := 0, x_a0 := c)\<rparr>\<rparr>)))"
proof -
  let ?s0 = "set_csr CSR_mcause 11 (set_csr CSR_mtval (pc + 4) (set_csr CSR_mepc (pc + 4) (set_gpr (GPR1 cfg) (- 1) st)))"
  have pl: "ucast (priv_level (cpu st)) + 8 = (11 :: u32)" using assms(5) by (simp add: PRIV_LEVEL_M_def)
  have y: "asm_run cfg pc (yield_code cfg) st = Inr (asm_trap, ?s0)"
    using assms(1,4) GPR1_reg[of cfg] pl by (simp add: yield_code_def asm_steps NR_REGS_def x0_ok_def csr_idx)
  have s0: "x0_ok ?s0" "gpr (cpu ?s0) x_sp = p + of_nat (CONTEXT_SIZE cfg)" using assms(1,2) GPR1_reg[of cfg] by simp_all
  obtain pc' st' where en: "asm_run cfg asm_trap (trap_entry cfg) ?s0 = Inr (pc', st')" "gpr (cpu st') x_a0 = p" "x0_ok st'"
      "frame_only cfg p ?s0 st'" "\<And>j. j \<in> set (REGS cfg) \<Longrightarrow> frame_word cfg st' p j = gpr (cpu ?s0) j"
      "frame_word cfg st' p (NR_REGS cfg + 0) = csr (cpu ?s0) CSR_mcause"
      "frame_word cfg st' p (NR_REGS cfg + 1) = csr (cpu ?s0) CSR_mstatus"
      "frame_word cfg st' p (NR_REGS cfg + 2) = csr (cpu ?s0) CSR_mepc"
    using trap_enters[OF s0 assms(3), of asm_trap] by blast
  let ?st1 = "frame_store cfg p (NR_REGS cfg + 2) (frame_word cfg st' p (NR_REGS cfg + 2) + 4) st'"
  have "frame_only cfg p st st'" using en(4) by (simp add: frame_only_def)
  then have "frame_only cfg p st ?st1" by (rule frame_only_store) simp
  moreover have "context_at cfg ?st1 p ((gpr (cpu st))(GPR1 cfg := - 1)) (csr (cpu st) CSR_mstatus) (pc + 8)"
    using assms(3) en(5,7,8) unfolding context_at_def frame_word_store by (auto simp: REGS_set csr_idx)
  moreover have "yield_am cfg pc asm_trap (Some h) rg st =
      bind_res (bind_res (h EVENT_YIELD p ?st1) (\<lambda>(c, st). assert_res ''c != NULL'' (c \<noteq> 0) (Inr (c, st)))) (\<lambda>(c, st2).
        asm_run cfg (pc' + 4) (trap_exit cfg) (st2\<lparr>cpu := (cpu st2)\<lparr>gpr := rg(0 := 0, x_a0 := c)\<rparr>\<rparr>))" for h rg
  proof -
    have g: "frame_word cfg st' p (GPR1 cfg) = - 1" using en(5)[OF GPR1_reg(1)] by simp
    have m: "frame_word cfg st' p (NR_REGS cfg + 0) = 11" using en(6) by (simp add: csr_idx)
    have a0: "R_get cfg x_a0 st' = Inr p" using en(2) by (simp add: R_get_ok)
    show ?thesis
      unfolding yield_am_def y am_asm_trap_def bind_res_Inr prod.case en(1) a0 irq_handles_yield[OF assms(3) m g] by simp
  qed
  ultimately show ?thesis by blast
qed

lemma context_frame_only:
  assumes "context_at cfg st c rs status epc" and "frame_only cfg p st st'"
    and "guest_to_host cfg c + CONTEXT_SIZE cfg \<le> guest_to_host cfg p \<or> guest_to_host cfg p + CONTEXT_SIZE cfg \<le> guest_to_host cfg c"
  shows "context_at cfg st' c rs status epc"
proof -
  have "frame_word cfg st' c j = frame_word cfg st c j" if "j < NR_REGS cfg + 3" for j
    unfolding frame_word_def using assms(2,3) that by (intro read_le_cong) (auto simp: frame_only_def CONTEXT_SIZE_def)
  then show ?thesis using assms(1) by (auto simp: context_at_def REGS_set)
qed

lemma kcontext_makes:
  assumes "frame_ok cfg c" and "c = kstack_end - of_nat (sizeof_Context cfg)"
  shows "\<exists>st'. kcontext cfg kstack_start kstack_end entry arg st = Inr (c, st') \<and> cpu st' = cpu st \<and>
    context_at cfg st' c ((frame_word cfg st c)(x_a0 := arg)) 0x1800 entry \<and> frame_only cfg c st st'"
proof -
  define j1 j2 j3 where j_def: "j1 = NR_REGS cfg + 1" "j2 = NR_REGS cfg + 2" "j3 = (10 :: nat)"
  have n: "16 \<le> NR_REGS cfg" by (simp add: NR_REGS_def nr_gpr_def)
  have j: "j1 < NR_REGS cfg + 3" "j2 < NR_REGS cfg + 3" "j3 < NR_REGS cfg + 3" "OFFSET_STATUS cfg = j1 * 4" "OFFSET_EPC cfg = j2 * 4"
    "j1 \<noteq> j2" "j1 \<noteq> j3" "j2 \<noteq> j3" "10 * 4 = j3 * 4"
    using n by (simp_all add: j_def OFFSET_STATUS_def OFFSET_EPC_def)
  let ?s = "frame_store cfg c j3 arg (frame_store cfg c j1 0x1800 (frame_store cfg c j2 entry st))"
  have "kcontext cfg kstack_start kstack_end entry arg st = Inr (c, ?s)"
    unfolding kcontext_def Let_def assms(2)[symmetric] j(4,5,9)
    by (simp add: frame_stores[OF assms(1)] j(1-3) del: of_nat_mult)
  moreover have "context_at cfg ?s c ((frame_word cfg st c)(x_a0 := arg)) 0x1800 entry"
    using assms(1) j n unfolding context_at_def j_def(1,2)[symmetric] frame_word_store by (auto simp: REGS_set j_def)
  moreover have "frame_only cfg c st ?s" using j by (intro frame_only_store) (simp_all add: frame_only_def)
  ultimately show ?thesis by (metis frame_store_fields(1))
qed

section \<open>Properties\<close>

text \<open>C29: \<open>yield\<close> resumes exactly the thread the event handler chooses.  The handler is called for \<open>EVENT_YIELD\<close> with the
  caller's context, in which every register, the status and the address behind the \<open>ecall\<close> are saved on the caller's
  stack and nothing else in memory has changed; whatever context the handler returns, and whatever the compiled
  code leaves in the registers, all registers of that context are loaded, its stack pointer is that of before its frame,
  and execution goes on at its address.\<close>

theorem yield_resumes:
  assumes "x0_ok st" and "gpr (cpu st) x_sp = p + of_nat (CONTEXT_SIZE cfg)" and "frame_ok cfg p"
    and "csr (cpu st) CSR_mtvec = asm_trap" and "priv_level (cpu st) = PRIV_LEVEL_M"
  shows "\<exists>st1. frame_only cfg p st st1 \<and>
    context_at cfg st1 p ((gpr (cpu st))(GPR1 cfg := - 1)) (csr (cpu st) CSR_mstatus) (pc + 8) \<and>
    (\<forall>h rg c st2 rs status epc. h EVENT_YIELD p st1 = Inr (c, st2) \<and> c \<noteq> 0 \<and> context_at cfg st2 c rs status epc \<longrightarrow>
      (\<exists>st3. yield_am cfg pc asm_trap (Some h) rg st = Inr (epc, st3) \<and> memory st3 = memory st2 \<and>
        (\<forall>i \<in> set (REGS cfg). gpr (cpu st3) i = rs i) \<and> gpr (cpu st3) x_sp = c + of_nat (CONTEXT_SIZE cfg) \<and>
        gpr (cpu st3) 0 = 0 \<and> csr (cpu st3) CSR_mstatus = status))"
proof -
  obtain st1 pc' where st1: "frame_only cfg p st st1"
      "context_at cfg st1 p ((gpr (cpu st))(GPR1 cfg := - 1)) (csr (cpu st) CSR_mstatus) (pc + 8)"
      "\<And>h rg. yield_am cfg pc asm_trap (Some h) rg st =
        bind_res (bind_res (h EVENT_YIELD p st1) (\<lambda>(c, st). assert_res ''c != NULL'' (c \<noteq> 0) (Inr (c, st)))) (\<lambda>(c, st2).
        asm_run cfg (pc' + 4) (trap_exit cfg) (st2\<lparr>cpu := (cpu st2)\<lparr>gpr := rg(0 := 0, x_a0 := c)\<rparr>\<rparr>))"
    using yield_saves[OF assms, of pc] by blast
  have "\<exists>st3. yield_am cfg pc asm_trap (Some h) rg st = Inr (epc, st3) \<and> memory st3 = memory st2 \<and>
        (\<forall>i \<in> set (REGS cfg). gpr (cpu st3) i = rs i) \<and> gpr (cpu st3) x_sp = c + of_nat (CONTEXT_SIZE cfg) \<and>
        gpr (cpu st3) 0 = 0 \<and> csr (cpu st3) CSR_mstatus = status"
    if h: "h EVENT_YIELD p st1 = Inr (c, st2)" "c \<noteq> 0" "context_at cfg st2 c rs status epc" for h rg c st2 rs status epc
  proof -
    let ?s = "st2\<lparr>cpu := (cpu st2)\<lparr>gpr := rg(0 := 0, x_a0 := c)\<rparr>\<rparr>"
    have "context_at cfg ?s c rs status epc" using h(3) by (simp add: context_at_def frame_word_def)
    moreover have "x0_ok ?s" "gpr (cpu ?s) x_a0 = c" by (simp_all add: x0_ok_def)
    ultimately obtain st3 where "asm_run cfg (pc' + 4) (trap_exit cfg) ?s = Inr (epc, st3)" "memory st3 = memory ?s" "x0_ok st3"
        "\<forall>i \<in> set (REGS cfg). gpr (cpu st3) i = rs i" "gpr (cpu st3) x_sp = c + of_nat (CONTEXT_SIZE cfg)"
        "csr (cpu st3) CSR_mstatus = status"
      using trap_exits[of ?s c cfg rs status epc "pc' + 4"] by blast
    then show ?thesis using h(1,2) unfolding st1(3) by (simp add: x0_ok_def)
  qed
  then show ?thesis using st1(1,2) by blast
qed

definition cte_state :: nemu where
  "cte_state = nemu_boot\<lparr>cpu := \<lparr>gpr = (\<lambda>_. 7)(0 := 0, x_sp := 0x80001000), cpu_pc = 0x80000000, csr = (\<lambda>_. 0)(CSR_mtvec := 0x80000100),
     priv_level = 3\<rparr>\<rparr>"

lemma cte_state_ok:
  "x0_ok cte_state" "gpr (cpu cte_state) x_sp = 0x80001000 - 140 + of_nat (CONTEXT_SIZE default_config)"
  "frame_ok default_config (0x80001000 - 140)" "csr (cpu cte_state) CSR_mtvec = 0x80000100" "priv_level (cpu cte_state) = PRIV_LEVEL_M"
  by (simp_all add: cte_state_def x0_ok_def frame_ok_def CONTEXT_SIZE_def NR_REGS_def nr_gpr_def default_sel guest_to_host_def PRIV_LEVEL_M_def csr_idx)

theorem yield_resumes_witness:
  "\<exists>st3. yield_am default_config 0x80000000 0x80000100 (Some (\<lambda>ev c st. Inr (c, st))) (\<lambda>_. 99) cte_state = Inr (0x80000008, st3) \<and>
     gpr (cpu st3) 1 = 7 \<and> gpr (cpu st3) x_sp = 0x80001000"
proof -
  obtain st1 where c: "context_at default_config st1 (0x80001000 - 140) ((gpr (cpu cte_state))(GPR1 default_config := - 1))
        (csr (cpu cte_state) CSR_mstatus) (0x80000000 + 8)"
    and go: "\<And>h rg c st2 rs status epc. h EVENT_YIELD (0x80001000 - 140) st1 = Inr (c, st2) \<and> c \<noteq> 0 \<and>
        context_at default_config st2 c rs status epc \<Longrightarrow>
      \<exists>st3. yield_am default_config 0x80000000 0x80000100 (Some h) rg cte_state = Inr (epc, st3) \<and> memory st3 = memory st2 \<and>
        (\<forall>i \<in> set (REGS default_config). gpr (cpu st3) i = rs i) \<and> gpr (cpu st3) x_sp = c + of_nat (CONTEXT_SIZE default_config) \<and>
        gpr (cpu st3) 0 = 0 \<and> csr (cpu st3) CSR_mstatus = status"
    using yield_resumes[OF cte_state_ok, of "0x80000000"] by blast
  have "1 \<in> set (REGS default_config)" by (simp add: REGS_def)
  moreover have "((gpr (cpu cte_state))(GPR1 default_config := - 1)) 1 = 7" by (simp add: cte_state_def GPR1_def default_sel)
  moreover have "0x80001000 - 140 + of_nat (CONTEXT_SIZE default_config) = (0x80001000 :: u32)"
    by (simp add: CONTEXT_SIZE_def NR_REGS_def nr_gpr_def default_sel)
  ultimately show ?thesis using go[of "\<lambda>ev c st. Inr (c, st)", OF conjI[OF refl conjI[OF _ c]], of "\<lambda>_. 99"] by fastforce
qed

text \<open>C30: a context made by \<open>kcontext\<close> starts its function: when the handler chooses it, execution goes on at \<open>entry\<close> with
  \<open>arg\<close> as its argument, in machine mode's status.  Its stack pointer is four bytes below the end of the stack, since
  the context on the stack is one word larger than the frame the trap code takes off.\<close>

theorem kcontext_enters:
  assumes "x0_ok st" and "gpr (cpu st) x_sp = p + of_nat (CONTEXT_SIZE cfg)" and "frame_ok cfg p"
    and "csr (cpu st) CSR_mtvec = asm_trap" and "priv_level (cpu st) = PRIV_LEVEL_M"
    and "kcontext cfg kstack_start kstack_end entry arg st = Inr (c, st0)" and "frame_ok cfg c" and "c \<noteq> 0"
    and "guest_to_host cfg c + CONTEXT_SIZE cfg \<le> guest_to_host cfg p \<or> guest_to_host cfg p + CONTEXT_SIZE cfg \<le> guest_to_host cfg c"
  shows "\<exists>st3. yield_am cfg pc asm_trap (Some (\<lambda>ev caller s. Inr (c, s))) rg st0 = Inr (entry, st3) \<and>
    gpr (cpu st3) x_a0 = arg \<and> gpr (cpu st3) x_sp = kstack_end - 4 \<and> csr (cpu st3) CSR_mstatus = 0x1800"
proof -
  have c: "c = kstack_end - of_nat (sizeof_Context cfg)" using assms(6) by (auto simp: kcontext_def Let_def res_simps)
  have k: "cpu st0 = cpu st" "context_at cfg st0 c ((frame_word cfg st c)(x_a0 := arg)) 0x1800 entry"
    using kcontext_makes[OF assms(7) c, of kstack_start entry arg st] assms(6) by auto
  have ok: "x0_ok st0" "gpr (cpu st0) x_sp = p + of_nat (CONTEXT_SIZE cfg)" "csr (cpu st0) CSR_mtvec = asm_trap"
    "priv_level (cpu st0) = PRIV_LEVEL_M" using assms(1,2,4,5) k(1) by (simp_all add: x0_ok_def)
  obtain st1 pc' where st1: "frame_only cfg p st0 st1"
      "\<And>h rg. yield_am cfg pc asm_trap (Some h) rg st0 =
        bind_res (bind_res (h EVENT_YIELD p st1) (\<lambda>(c, st). assert_res ''c != NULL'' (c \<noteq> 0) (Inr (c, st)))) (\<lambda>(c, st2).
        asm_run cfg (pc' + 4) (trap_exit cfg) (st2\<lparr>cpu := (cpu st2)\<lparr>gpr := rg(0 := 0, x_a0 := c)\<rparr>\<rparr>))"
    using yield_saves[OF ok(1,2) assms(3) ok(3,4), of pc] by blast
  let ?s = "st1\<lparr>cpu := (cpu st1)\<lparr>gpr := rg(0 := 0, x_a0 := c)\<rparr>\<rparr>"
  have "context_at cfg st1 c ((frame_word cfg st c)(x_a0 := arg)) 0x1800 entry"
    by (rule context_frame_only[OF k(2) st1(1) assms(9)])
  then have "context_at cfg ?s c ((frame_word cfg st c)(x_a0 := arg)) 0x1800 entry" by (simp add: context_at_def frame_word_def)
  moreover have "x0_ok ?s" "gpr (cpu ?s) x_a0 = c" by (simp_all add: x0_ok_def)
  ultimately obtain st3 where st3: "asm_run cfg (pc' + 4) (trap_exit cfg) ?s = Inr (entry, st3)"
      "\<forall>i \<in> set (REGS cfg). gpr (cpu st3) i = ((frame_word cfg st c)(x_a0 := arg)) i"
      "gpr (cpu st3) x_sp = c + of_nat (CONTEXT_SIZE cfg)" "csr (cpu st3) CSR_mstatus = 0x1800"
    using trap_exits[of ?s c cfg "(frame_word cfg st c)(x_a0 := arg)" "0x1800" entry "pc' + 4"] by blast
  have "x_a0 \<in> set (REGS cfg)" by (simp add: REGS_set NR_REGS_def)
  moreover have "c + of_nat (CONTEXT_SIZE cfg) = kstack_end - 4"
    unfolding c sizeof_Context_def CONTEXT_SIZE_def by (simp add: algebra_simps)
  ultimately show ?thesis using st3 assms(8) unfolding st1(2) by (intro exI[of _ st3]) simp
qed

theorem kcontext_enters_witness:
  "\<exists>st0 st3. kcontext default_config 0x80002000 0x80003000 0x80000400 42 cte_state = Inr (0x80002f70, st0) \<and>
     yield_am default_config 0x80000000 0x80000100 (Some (\<lambda>ev caller s. Inr (0x80002f70, s))) (\<lambda>_. 0) st0 = Inr (0x80000400, st3) \<and>
     gpr (cpu st3) x_a0 = 42 \<and> gpr (cpu st3) x_sp = 0x80002ffc"
proof -
  have sz: "CONTEXT_SIZE default_config = 140" "sizeof_Context default_config = 144"
    by (simp_all add: CONTEXT_SIZE_def sizeof_Context_def NR_REGS_def nr_gpr_def default_sel)
  have f: "frame_ok default_config 0x80002f70" by (simp add: frame_ok_def sz default_sel guest_to_host_def)
  obtain st0 where st0: "kcontext default_config 0x80002000 0x80003000 0x80000400 42 cte_state = Inr (0x80002f70, st0)"
    using kcontext_makes[OF f, of "0x80003000" "0x80002000" "0x80000400" 42 cte_state] sz by auto
  moreover have "\<exists>st3. yield_am default_config 0x80000000 0x80000100 (Some (\<lambda>ev caller s. Inr (0x80002f70, s))) (\<lambda>_. 0) st0 = Inr (0x80000400, st3) \<and>
      gpr (cpu st3) x_a0 = 42 \<and> gpr (cpu st3) x_sp = 0x80003000 - 4 \<and> csr (cpu st3) CSR_mstatus = 0x1800"
    by (rule kcontext_enters[OF cte_state_ok st0 f]) (simp_all add: sz guest_to_host_def default_sel)
  ultimately show ?thesis by auto
qed

end
