(* ===== verification/Minirv.thy ===== *)
theory Minirv
  imports Am_Cte
begin

text \<open>
  The assembler macros of \<open>abstract-machine/tools/minirv\<close>, which replace the instructions of RV32I by the eight base
  instructions \<open>add\<close>, \<open>addi\<close>, \<open>lui\<close>, \<open>lw\<close>, \<open>lbu\<close>, \<open>sw\<close>, \<open>sb\<close>, \<open>jalr\<close> and lookup tables.

  A macro of \<open>inst-replace.h\<close> is a function from its operands to the list of lines it expands to; the assembler's
  conditionals are decided by the operands, \<open>.abort\<close> is an error.  The addresses of the tables are a record of symbols,
  and the file the tables come from is computed as \<open>gen-lut.c\<close> writes it.
\<close>

section \<open>The base instructions\<close>

definition ADD_asm :: "nat \<Rightarrow> nat \<Rightarrow> nat \<Rightarrow> asm" where
  "ADD_asm rd rs1 rs2 = \<lparr>a_op = ADD, a_rd = rd, a_rs1 = rs1, a_rs2 = rs2, a_csr = 0, a_imm = 0\<rparr>"

definition LW_asm :: "nat \<Rightarrow> u32 \<Rightarrow> nat \<Rightarrow> asm" where
  "LW_asm rd i rs1 = \<lparr>a_op = LW, a_rd = rd, a_rs1 = rs1, a_rs2 = 0, a_csr = 0, a_imm = i\<rparr>"

definition LBU_asm :: "nat \<Rightarrow> u32 \<Rightarrow> nat \<Rightarrow> asm" where
  "LBU_asm rd i rs1 = \<lparr>a_op = LBU, a_rd = rd, a_rs1 = rs1, a_rs2 = 0, a_csr = 0, a_imm = i\<rparr>"

definition SW_asm :: "nat \<Rightarrow> u32 \<Rightarrow> nat \<Rightarrow> asm" where
  "SW_asm rs2 i rs1 = \<lparr>a_op = SW, a_rd = 0, a_rs1 = rs1, a_rs2 = rs2, a_csr = 0, a_imm = i\<rparr>"

definition SB_asm :: "nat \<Rightarrow> u32 \<Rightarrow> nat \<Rightarrow> asm" where
  "SB_asm rs2 i rs1 = \<lparr>a_op = SB, a_rd = 0, a_rs1 = rs1, a_rs2 = rs2, a_csr = 0, a_imm = i\<rparr>"

definition JALR_asm :: "nat \<Rightarrow> nat \<Rightarrow> asm" where
  "JALR_asm rd rs1 = \<lparr>a_op = JALR, a_rd = rd, a_rs1 = rs1, a_rs2 = 0, a_csr = 0, a_imm = 0\<rparr>"

abbreviation (input) "x_ra \<equiv> (1 :: nat)"
abbreviation (input) "x_gp \<equiv> (3 :: nat)"
abbreviation (input) "x_tp \<equiv> (4 :: nat)"
abbreviation (input) "x_s0 \<equiv> (8 :: nat)"
abbreviation (input) "x_s1 \<equiv> (9 :: nat)"

section \<open>Variables below the stack pointer\<close>

definition SP_VAR_BYTE :: "nat \<Rightarrow> nat \<Rightarrow> u32" where
  "SP_VAR_BYTE n boffset = - (of_nat n * 4) + of_nat boffset"

definition SP_VAR :: "nat \<Rightarrow> u32" where
  "SP_VAR n = SP_VAR_BYTE n 0"

definition VAR_A :: nat where "VAR_A = 4"
definition VAR_B :: nat where "VAR_B = 5"
definition VAR_C :: nat where "VAR_C = 6"
definition VAR_D :: nat where "VAR_D = 7"

definition PUSH_asm :: "nat \<Rightarrow> nat \<Rightarrow> asm" where
  "PUSH_asm r n = SW_asm r (SP_VAR n) x_sp"

definition POP_asm :: "nat \<Rightarrow> nat \<Rightarrow> asm" where
  "POP_asm r n = LW_asm r (SP_VAR n) x_sp"

section \<open>Tables\<close>

definition same_result_bytes :: "u8 list" where
  "same_result_bytes = [1, 0, 0, 0, 0, 0, 0, 0]"

definition check_8bit_0_bytes :: "u8 list" where
  "check_8bit_0_bytes = 0 # replicate 255 1"

definition slt1_bytes :: "u8 list" where
  "slt1_bytes = [0, 1, 0, 0, 1, 1, 0, 1]"

definition sltu1_bytes :: "u8 list" where
  "sltu1_bytes = [0, 1, 1, 1, 0, 0, 0, 1]"

definition or1_bytes :: "u8 list" where
  "or1_bytes = [0, 1, 1, 1]"

text \<open>\<open>gen-lut.c\<close>: \<open>fwrite\<close> of the low bytes of each entry.\<close>

definition entry_bytes :: "nat \<Rightarrow> u32 \<Rightarrow> u8 list" where
  "entry_bytes n v = map (\<lambda>k. ucast (drop_bit (8 * k) v)) [0..<n]"

definition gen_table :: "nat \<Rightarrow> nat \<Rightarrow> nat \<Rightarrow> (nat \<Rightarrow> nat \<Rightarrow> u32) \<Rightarrow> u8 list" where
  "gen_table row col entry_size ex = concat (map (\<lambda>j. concat (map (\<lambda>i. entry_bytes entry_size (ex j i)) [0..<col])) [0..<row])"

definition lut_bin :: "u8 list" where
  "lut_bin =
     gen_table 256 256 1 (\<lambda>j i. of_nat j AND of_nat i) @
     gen_table 256 256 1 (\<lambda>j i. of_nat j OR of_nat i) @
     gen_table 256 256 1 (\<lambda>j i. of_nat j XOR of_nat i) @
     gen_table 32 256 4 (\<lambda>j i. push_bit j (of_nat i)) @
     gen_table 32 256 4 (\<lambda>j i. drop_bit j (push_bit 24 (of_nat i))) @
     gen_table 32 256 4 (\<lambda>j i. signed_drop_bit j (push_bit 24 (of_nat i)))"

record syms =
  same_result_table :: u32
  check_8bit_0_table :: u32
  slt1_table :: u32
  sltu1_table :: u32
  or1_table :: u32
  logic_shift_table :: u32
  check_same_array :: u32

definition and8_table :: "syms \<Rightarrow> u32" where "and8_table L = logic_shift_table L"
definition or8_table :: "syms \<Rightarrow> u32" where "or8_table L = and8_table L + 256 * 256"
definition xor8_table :: "syms \<Rightarrow> u32" where "xor8_table L = or8_table L + 256 * 256"
definition sll8_table :: "syms \<Rightarrow> u32" where "sll8_table L = xor8_table L + 256 * 256"
definition srl8_table :: "syms \<Rightarrow> u32" where "srl8_table L = sll8_table L + 32 * 256 * 4"
definition sra8_table :: "syms \<Rightarrow> u32" where "sra8_table L = srl8_table L + 32 * 256 * 4"

section \<open>Addresses, jumps\<close>

definition hi_part :: "u32 \<Rightarrow> u32" where
  "hi_part a = (a + 0x800) AND NOT 0xfff"

definition lo_part :: "u32 \<Rightarrow> u32" where
  "lo_part a = signed_take_bit 11 a"

definition la_asm :: "nat \<Rightarrow> u32 \<Rightarrow> asm list" where
  "la_asm r addr = [LUI_asm r (hi_part addr), ADDI_asm r r (lo_part addr)]"

definition lla_asm :: "nat \<Rightarrow> u32 \<Rightarrow> asm list" where
  "lla_asm r addr = la_asm r addr"

definition call_template :: "nat \<Rightarrow> u32 \<Rightarrow> asm list" where
  "call_template r addr = la_asm r addr @ [JALR_asm r r]"

definition j_asm :: "u32 \<Rightarrow> asm list" where
  "j_asm addr = la_asm x_tp addr @ [JALR_asm 0 x_tp]"

definition jal_asm :: "nat \<Rightarrow> u32 \<Rightarrow> asm list" where
  "jal_asm rd addr = (if rd = 0 then j_asm addr else call_template rd addr)"

definition call_asm :: "u32 \<Rightarrow> asm list" where
  "call_asm addr = call_template x_ra addr"

definition tail_asm :: "u32 \<Rightarrow> asm list" where
  "tail_asm addr = la_asm x_tp addr @ [JALR_asm 0 x_tp] @ call_template x_ra addr"

section \<open>Arithmetic\<close>

definition not_byte_asm :: "nat \<Rightarrow> asm list" where
  "not_byte_asm k = [LBU_asm x_gp (SP_VAR_BYTE VAR_C k) x_sp, ADD_asm x_gp x_gp x_tp, LBU_asm x_gp 0 x_gp,
     SB_asm x_gp (SP_VAR_BYTE VAR_D k) x_sp]"

definition not_asm :: "syms \<Rightarrow> nat \<Rightarrow> nat \<Rightarrow> asm list" where
  "not_asm L rd rs1 = [PUSH_asm x_gp 3, SW_asm rs1 (SP_VAR VAR_C) x_sp] @ la_asm x_tp (xor8_table L + push_bit 8 0xff) @
     not_byte_asm 3 @ not_byte_asm 2 @ not_byte_asm 1 @ not_byte_asm 0 @
     [POP_asm x_gp 3, LW_asm rd (SP_VAR VAR_D) x_sp]"

definition sub_asm :: "syms \<Rightarrow> nat \<Rightarrow> nat \<Rightarrow> nat \<Rightarrow> asm list" where
  "sub_asm L rd rs1 rs2 = not_asm L x_tp rs2 @ [ADD_asm rd rs1 x_tp, ADDI_asm rd rd 1]"

definition neg_asm :: "syms \<Rightarrow> nat \<Rightarrow> nat \<Rightarrow> asm list" where
  "neg_asm L rd rs = sub_asm L rd 0 rs"

definition getbyte :: "nat \<Rightarrow> nat \<Rightarrow> nat \<Rightarrow> asm list" where
  "getbyte rd rs1 k = [SW_asm rs1 (SP_VAR VAR_C) x_sp, LBU_asm rd (SP_VAR_BYTE VAR_C k) x_sp]"

definition sh_asm :: "nat \<Rightarrow> u32 \<Rightarrow> nat \<Rightarrow> asm list" where
  "sh_asm rs ofs b = [SB_asm rs ofs b] @ getbyte x_tp rs 1 @ [SB_asm x_tp (1 + ofs) b]"

fun slli_asm :: "nat \<Rightarrow> nat \<Rightarrow> nat \<Rightarrow> asm list" where
  "slli_asm rd rs1 i =
     (if i = 0 then (if rd \<noteq> rs1 then [ADDI_asm rd rs1 0] else [])
      else if 24 \<le> i then
        [SW_asm 0 (SP_VAR VAR_A) x_sp, SB_asm rs1 (SP_VAR_BYTE VAR_A 3) x_sp, LW_asm rd (SP_VAR VAR_A) x_sp] @
        slli_asm rd rd (i - 24)
      else if 16 \<le> i then
        [SW_asm 0 (SP_VAR VAR_A) x_sp] @ sh_asm rs1 (SP_VAR_BYTE VAR_A 2) x_sp @ [LW_asm rd (SP_VAR VAR_A) x_sp] @
        slli_asm rd rd (i - 16)
      else ADD_asm rd rs1 rs1 # replicate (i - 1) (ADD_asm rd rd rd))"

declare slli_asm.simps [simp del]

definition msb_asm :: "nat \<Rightarrow> nat \<Rightarrow> asm list" where
  "msb_asm rd rs1 = getbyte rd rs1 3 @ slli_asm rd rd 1 @ getbyte rd rd 1"

section \<open>Comparisons\<close>

definition slt_template :: "syms \<Rightarrow> u32 \<Rightarrow> nat \<Rightarrow> nat \<Rightarrow> nat \<Rightarrow> asm list" where
  "slt_template L lut rd rs1 rs2 =
     [PUSH_asm x_s0 1, PUSH_asm x_s1 2, SW_asm rs2 (SP_VAR VAR_A) x_sp, ADDI_asm x_s0 rs1 0, LW_asm x_s1 (SP_VAR VAR_A) x_sp] @
     msb_asm x_gp x_s0 @ slli_asm x_gp x_gp 1 @
     msb_asm x_tp x_s1 @ [ADD_asm x_gp x_gp x_tp] @ slli_asm x_gp x_gp 1 @
     sub_asm L x_tp x_s0 x_s1 @ msb_asm x_tp x_tp @ [ADD_asm x_gp x_gp x_tp] @
     la_asm x_tp lut @ [ADD_asm x_tp x_tp x_gp] @
     [POP_asm x_s1 2, POP_asm x_s0 1] @
     [LBU_asm rd 0 x_tp]"

definition slt_asm :: "syms \<Rightarrow> nat \<Rightarrow> nat \<Rightarrow> nat \<Rightarrow> asm list" where
  "slt_asm L rd rs1 rs2 = slt_template L (slt1_table L) rd rs1 rs2"

definition sltu_asm :: "syms \<Rightarrow> nat \<Rightarrow> nat \<Rightarrow> nat \<Rightarrow> asm list" where
  "sltu_asm L rd rs1 rs2 = slt_template L (sltu1_table L) rd rs1 rs2"

definition snez_asm :: "syms \<Rightarrow> nat \<Rightarrow> nat \<Rightarrow> asm list" where "snez_asm L rd rs = sltu_asm L rd 0 rs"
definition sltz_asm :: "nat \<Rightarrow> nat \<Rightarrow> asm list" where "sltz_asm rd rs = msb_asm rd rs"
definition sgt_asm :: "syms \<Rightarrow> nat \<Rightarrow> nat \<Rightarrow> nat \<Rightarrow> asm list" where "sgt_asm L rd rs1 rs2 = slt_asm L rd rs2 rs1"
definition sgtu_asm :: "syms \<Rightarrow> nat \<Rightarrow> nat \<Rightarrow> nat \<Rightarrow> asm list" where "sgtu_asm L rd rs1 rs2 = sltu_asm L rd rs2 rs1"
definition sgtz_asm :: "syms \<Rightarrow> nat \<Rightarrow> nat \<Rightarrow> asm list" where "sgtz_asm L rd rs = slt_asm L rd 0 rs"

definition check_8bit_same :: "nat \<Rightarrow> nat \<Rightarrow> nat \<Rightarrow> asm list" where
  "check_8bit_same table rd boffset =
     [LBU_asm rd (SP_VAR_BYTE VAR_A boffset) x_sp, ADD_asm x_tp table rd, ADDI_asm rd 0 1, SB_asm rd 0 x_tp,
      LBU_asm rd (SP_VAR_BYTE VAR_B boffset) x_sp, ADD_asm rd table rd, SB_asm 0 0 rd,
      LBU_asm rd 0 x_tp]"

definition seq_asm :: "syms \<Rightarrow> nat \<Rightarrow> nat \<Rightarrow> nat \<Rightarrow> asm list" where
  "seq_asm L rd rs1 rs2 =
     [SW_asm rs1 (SP_VAR VAR_A) x_sp, SW_asm rs2 (SP_VAR VAR_B) x_sp, PUSH_asm x_s0 1, PUSH_asm x_s1 2] @
     la_asm x_s0 (check_same_array L) @
     check_8bit_same x_s0 x_gp 0 @
     check_8bit_same x_s0 x_s1 1 @ [ADD_asm x_gp x_gp x_s1] @
     check_8bit_same x_s0 x_s1 2 @ [ADD_asm x_gp x_gp x_s1] @
     check_8bit_same x_s0 x_s1 3 @ [ADD_asm x_gp x_gp x_s1] @
     la_asm x_tp (same_result_table L) @ [ADD_asm x_tp x_tp x_gp, LBU_asm rd 0 x_tp] @
     [POP_asm x_s1 2, POP_asm x_s0 1]"

definition check_8bit_0 :: "nat \<Rightarrow> nat \<Rightarrow> nat \<Rightarrow> asm list" where
  "check_8bit_0 table rd boffset =
     [LBU_asm rd (SP_VAR_BYTE VAR_A boffset) x_sp, ADD_asm rd table rd, LBU_asm rd 0 rd]"

definition seqz_asm :: "syms \<Rightarrow> nat \<Rightarrow> nat \<Rightarrow> asm list" where
  "seqz_asm L rd rs1 =
     [SW_asm rs1 (SP_VAR VAR_A) x_sp, PUSH_asm x_s0 1] @
     la_asm x_s0 (check_8bit_0_table L) @
     check_8bit_0 x_s0 x_gp 0 @
     check_8bit_0 x_s0 x_tp 1 @ [ADD_asm x_gp x_gp x_tp] @
     check_8bit_0 x_s0 x_tp 2 @ [ADD_asm x_gp x_gp x_tp] @
     check_8bit_0 x_s0 x_tp 3 @ [ADD_asm x_gp x_gp x_tp] @
     la_asm x_tp (same_result_table L) @ [ADD_asm x_tp x_tp x_gp, LBU_asm rd 0 x_tp] @
     [POP_asm x_s0 1]"

section \<open>Logic\<close>

definition logic8_byte_internal :: "nat \<Rightarrow> nat \<Rightarrow> asm list" where
  "logic8_byte_internal lut_reg boffset =
     [LBU_asm x_tp (SP_VAR_BYTE VAR_A boffset) x_sp, SB_asm x_tp (SP_VAR_BYTE VAR_D 1) x_sp,
      LBU_asm x_tp (SP_VAR_BYTE VAR_B boffset) x_sp, SB_asm x_tp (SP_VAR_BYTE VAR_D 0) x_sp,
      LW_asm x_tp (SP_VAR VAR_D) x_sp, ADD_asm x_tp lut_reg x_tp, LBU_asm x_tp 0 x_tp,
      SB_asm x_tp (SP_VAR_BYTE VAR_C boffset) x_sp]"

definition logic_asm :: "u32 \<Rightarrow> nat \<Rightarrow> nat \<Rightarrow> nat \<Rightarrow> asm list res" where
  "logic_asm lut rd rs1 rs2 =
     (if rd = 0 then Inr []
      else if rd = x_sp \<or> rs1 = x_sp \<or> rs2 = x_sp then Inl (Panic ''.abort'')
      else if rd = x_gp \<or> rs1 = x_gp \<or> rs2 = x_gp then Inl (Panic ''.abort'')
      else if rd = x_tp \<or> rs1 = x_tp then Inl (Panic ''.abort'')
      else Inr ([SW_asm rs1 (SP_VAR VAR_A) x_sp, SW_asm rs2 (SP_VAR VAR_B) x_sp] @ la_asm rd lut @ [SW_asm 0 (SP_VAR VAR_D) x_sp] @
        logic8_byte_internal rd 3 @ logic8_byte_internal rd 2 @ logic8_byte_internal rd 1 @ logic8_byte_internal rd 0 @
        [LW_asm rd (SP_VAR VAR_C) x_sp]))"

definition and_asm :: "syms \<Rightarrow> nat \<Rightarrow> nat \<Rightarrow> nat \<Rightarrow> asm list res" where
  "and_asm L rd rs1 rs2 = logic_asm (and8_table L) rd rs1 rs2"

definition or_asm :: "syms \<Rightarrow> nat \<Rightarrow> nat \<Rightarrow> nat \<Rightarrow> asm list res" where
  "or_asm L rd rs1 rs2 = logic_asm (or8_table L) rd rs1 rs2"

definition xor_asm :: "syms \<Rightarrow> nat \<Rightarrow> nat \<Rightarrow> nat \<Rightarrow> asm list res" where
  "xor_asm L rd rs1 rs2 = logic_asm (xor8_table L) rd rs1 rs2"

section \<open>Shifts\<close>

definition getshamt :: "syms \<Rightarrow> nat \<Rightarrow> nat \<Rightarrow> asm list" where
  "getshamt L rd rs1 = [SB_asm rs1 (SP_VAR_BYTE VAR_B 0) x_sp, LBU_asm rd (SP_VAR_BYTE VAR_B 0) x_sp] @
     la_asm x_tp (and8_table L + push_bit 8 0x1f) @ [ADD_asm rd rd x_tp, LBU_asm rd 0 rd]"

definition get_shift_byte_in_tp :: "nat \<Rightarrow> nat \<Rightarrow> asm list" where
  "get_shift_byte_in_tp b boffset = [LBU_asm x_tp (SP_VAR_BYTE VAR_A boffset) x_sp] @ slli_asm x_tp x_tp 2 @
     [ADD_asm x_tp b x_tp, LW_asm x_tp 0 x_tp]"

definition sll_asm :: "syms \<Rightarrow> nat \<Rightarrow> nat \<Rightarrow> nat \<Rightarrow> asm list" where
  "sll_asm L rd rs1 rs2 =
     [PUSH_asm x_s0 1, SW_asm rs1 (SP_VAR VAR_A) x_sp] @ getshamt L x_s0 rs2 @
     [SW_asm 0 (SP_VAR VAR_B) x_sp, SB_asm x_s0 (SP_VAR_BYTE VAR_B 1) x_sp, LW_asm x_s0 (SP_VAR VAR_B) x_sp] @
     slli_asm x_s0 x_s0 2 @ la_asm x_tp (sll8_table L) @ [ADD_asm x_s0 x_s0 x_tp] @
     [SW_asm 0 (SP_VAR VAR_B) x_sp] @
     get_shift_byte_in_tp x_s0 3 @ [SB_asm x_tp (SP_VAR_BYTE VAR_B 3) x_sp, LW_asm x_gp (SP_VAR VAR_B) x_sp] @
     get_shift_byte_in_tp x_s0 2 @ sh_asm x_tp (SP_VAR_BYTE VAR_B 2) x_sp @ [LW_asm x_tp (SP_VAR VAR_B) x_sp, ADD_asm x_gp x_gp x_tp] @
     get_shift_byte_in_tp x_s0 1 @ slli_asm x_tp x_tp 8 @ [ADD_asm x_gp x_gp x_tp] @
     get_shift_byte_in_tp x_s0 0 @
     [POP_asm x_s0 1, ADD_asm rd x_gp x_tp]"

definition shift_right_template :: "syms \<Rightarrow> nat \<Rightarrow> nat \<Rightarrow> nat \<Rightarrow> bool \<Rightarrow> bool \<Rightarrow> asm list" where
  "shift_right_template L rd rs1 rs2 is_arith is_rs2_imm =
     (if is_rs2_imm \<and> rs2 = 24 then
        (if is_arith then
           [SW_asm rs1 (SP_VAR VAR_A) x_sp] @ la_asm x_tp (sra8_table L + push_bit 10 (of_nat rs2)) @
           [LBU_asm rd (SP_VAR_BYTE VAR_A 3) x_sp] @ slli_asm rd rd 2 @ [ADD_asm x_tp x_tp rd, LW_asm rd 0 x_tp]
         else getbyte rd rs1 3)
      else
        [PUSH_asm x_s0 1, SW_asm rs1 (SP_VAR VAR_A) x_sp] @
        (if \<not> is_rs2_imm then
           getshamt L x_s0 rs2 @
           [SW_asm 0 (SP_VAR VAR_B) x_sp, SB_asm x_s0 (SP_VAR_BYTE VAR_B 1) x_sp, LW_asm x_s0 (SP_VAR VAR_B) x_sp] @
           slli_asm x_s0 x_s0 2 @ la_asm x_tp (srl8_table L) @ [ADD_asm x_s0 x_s0 x_tp]
         else la_asm x_s0 (srl8_table L + push_bit 10 (of_nat rs2))) @
        get_shift_byte_in_tp x_s0 2 @ [SW_asm x_tp (SP_VAR VAR_B) x_sp] @
        get_shift_byte_in_tp x_s0 1 @ [SW_asm x_tp (SP_VAR VAR_C) x_sp] @
        get_shift_byte_in_tp x_s0 0 @ [SW_asm x_tp (SP_VAR VAR_D) x_sp] @
        [LBU_asm x_gp (SP_VAR_BYTE VAR_B 1) x_sp, LBU_asm x_tp (SP_VAR_BYTE VAR_C 2) x_sp, ADD_asm x_gp x_gp x_tp,
         LBU_asm x_tp (SP_VAR_BYTE VAR_D 3) x_sp, ADD_asm x_gp x_gp x_tp, SW_asm x_gp (SP_VAR VAR_D) x_sp] @
        [LBU_asm x_gp (SP_VAR_BYTE VAR_B 2) x_sp, LBU_asm x_tp (SP_VAR_BYTE VAR_C 3) x_sp, ADD_asm x_gp x_gp x_tp,
         SB_asm x_gp (SP_VAR_BYTE VAR_D 1) x_sp] @
        [LBU_asm x_gp (SP_VAR_BYTE VAR_B 3) x_sp, SB_asm x_gp (SP_VAR_BYTE VAR_D 2) x_sp] @
        [LW_asm x_gp (SP_VAR VAR_D) x_sp] @
        (if is_arith then la_asm x_tp (sra8_table L - srl8_table L) @ [ADD_asm x_s0 x_s0 x_tp] else []) @
        get_shift_byte_in_tp x_s0 3 @
        [POP_asm x_s0 1, ADD_asm rd x_gp x_tp])"

definition srl_asm :: "syms \<Rightarrow> nat \<Rightarrow> nat \<Rightarrow> nat \<Rightarrow> asm list" where
  "srl_asm L rd rs1 rs2 = shift_right_template L rd rs1 rs2 False False"

definition sra_asm :: "syms \<Rightarrow> nat \<Rightarrow> nat \<Rightarrow> nat \<Rightarrow> asm list" where
  "sra_asm L rd rs1 rs2 = shift_right_template L rd rs1 rs2 True False"

definition srli_asm :: "syms \<Rightarrow> nat \<Rightarrow> nat \<Rightarrow> nat \<Rightarrow> asm list" where
  "srli_asm L rd rs1 i = shift_right_template L rd rs1 i False True"

definition srai_asm :: "syms \<Rightarrow> nat \<Rightarrow> nat \<Rightarrow> nat \<Rightarrow> asm list" where
  "srai_asm L rd rs1 i = shift_right_template L rd rs1 i True True"

section \<open>Immediate operands\<close>

definition def_itype :: "(nat \<Rightarrow> nat \<Rightarrow> nat \<Rightarrow> asm list) \<Rightarrow> nat \<Rightarrow> nat \<Rightarrow> u32 \<Rightarrow> asm list" where
  "def_itype rtype rd rs1 i = ADDI_asm x_tp 0 i # rtype rd rs1 x_tp"

definition slti_asm :: "syms \<Rightarrow> nat \<Rightarrow> nat \<Rightarrow> u32 \<Rightarrow> asm list" where "slti_asm L = def_itype (slt_asm L)"
definition sltiu_asm :: "syms \<Rightarrow> nat \<Rightarrow> nat \<Rightarrow> u32 \<Rightarrow> asm list" where "sltiu_asm L = def_itype (sltu_asm L)"

definition def_itype_logic :: "(nat \<Rightarrow> nat \<Rightarrow> nat \<Rightarrow> asm list res) \<Rightarrow> nat \<Rightarrow> nat \<Rightarrow> u32 \<Rightarrow> asm list res" where
  "def_itype_logic rtype rd rs1 i = bind_res (rtype rd rs1 x_tp) (\<lambda>ls. Inr (ADDI_asm x_tp 0 i # ls))"

definition andi_asm :: "syms \<Rightarrow> nat \<Rightarrow> nat \<Rightarrow> u32 \<Rightarrow> asm list res" where "andi_asm L = def_itype_logic (and_asm L)"
definition ori_asm :: "syms \<Rightarrow> nat \<Rightarrow> nat \<Rightarrow> u32 \<Rightarrow> asm list res" where "ori_asm L = def_itype_logic (or_asm L)"
definition xori_asm :: "syms \<Rightarrow> nat \<Rightarrow> nat \<Rightarrow> u32 \<Rightarrow> asm list res" where "xori_asm L = def_itype_logic (xor_asm L)"

section \<open>Loads\<close>

definition lb_asm :: "syms \<Rightarrow> nat \<Rightarrow> u32 \<Rightarrow> nat \<Rightarrow> asm list" where
  "lb_asm L rd ofs b = [SW_asm 0 (SP_VAR VAR_A) x_sp, LBU_asm rd ofs b, SB_asm rd (SP_VAR_BYTE VAR_A 3) x_sp,
     LW_asm rd (SP_VAR VAR_A) x_sp] @ srai_asm L rd rd 24"

definition lhu_asm :: "nat \<Rightarrow> u32 \<Rightarrow> nat \<Rightarrow> asm list" where
  "lhu_asm rd ofs b = [SW_asm 0 (SP_VAR VAR_A) x_sp, LBU_asm x_tp (1 + ofs) b, SB_asm x_tp (SP_VAR_BYTE VAR_A 1) x_sp,
     LW_asm x_tp (SP_VAR VAR_A) x_sp, LBU_asm rd ofs b, ADD_asm rd rd x_tp]"

definition lh_asm :: "syms \<Rightarrow> nat \<Rightarrow> u32 \<Rightarrow> nat \<Rightarrow> asm list" where
  "lh_asm L rd ofs b = [SW_asm 0 (SP_VAR VAR_A) x_sp, LBU_asm x_gp (1 + ofs) b, SB_asm x_gp (SP_VAR_BYTE VAR_A 3) x_sp,
     LW_asm x_gp (SP_VAR VAR_A) x_sp] @ srai_asm L x_gp x_gp 16 @ [LBU_asm rd ofs b, ADD_asm rd rd x_gp]"

section \<open>Branches\<close>

text \<open>\<open>here\<close> is the address of the first line; the label of the path not taken is behind the last line.\<close>

definition branch_resolve_lines :: "u32 \<Rightarrow> bool \<Rightarrow> u32 \<Rightarrow> asm list" where
  "branch_resolve_lines target is_tp_high_sel_target non_taken =
     slli_asm x_tp x_tp 2 @ [ADD_asm x_tp x_sp x_tp] @
     (if is_tp_high_sel_target then
        la_asm x_gp target @ [SW_asm x_gp (SP_VAR VAR_A) x_sp] @ la_asm x_gp non_taken @ [SW_asm x_gp (SP_VAR VAR_B) x_sp]
      else
        la_asm x_gp non_taken @ [SW_asm x_gp (SP_VAR VAR_A) x_sp] @ la_asm x_gp target @ [SW_asm x_gp (SP_VAR VAR_B) x_sp]) @
     [LW_asm x_tp (SP_VAR VAR_B) x_tp, JALR_asm 0 x_tp]"

definition branch_resolve :: "u32 \<Rightarrow> u32 \<Rightarrow> bool \<Rightarrow> asm list" where
  "branch_resolve here target is_tp_high_sel_target = branch_resolve_lines target is_tp_high_sel_target
     (here + 4 * of_nat (length (branch_resolve_lines target is_tp_high_sel_target 0)))"

definition with_resolve :: "u32 \<Rightarrow> u32 \<Rightarrow> bool \<Rightarrow> asm list \<Rightarrow> asm list" where
  "with_resolve pc target is_tp_high_sel_target cond = cond @ branch_resolve (pc + 4 * of_nat (length cond)) target is_tp_high_sel_target"

definition eq_cond :: "syms \<Rightarrow> nat \<Rightarrow> nat \<Rightarrow> asm list" where
  "eq_cond L rs1 rs2 = (if rs2 = 0 then seqz_asm L x_tp rs1 else if rs1 = 0 then seqz_asm L x_tp rs2 else seq_asm L x_tp rs1 rs2)"

definition beq_asm :: "syms \<Rightarrow> u32 \<Rightarrow> nat \<Rightarrow> nat \<Rightarrow> u32 \<Rightarrow> asm list" where
  "beq_asm L pc rs1 rs2 target = with_resolve pc target True (eq_cond L rs1 rs2)"

definition bne_asm :: "syms \<Rightarrow> u32 \<Rightarrow> nat \<Rightarrow> nat \<Rightarrow> u32 \<Rightarrow> asm list" where
  "bne_asm L pc rs1 rs2 target = with_resolve pc target False (eq_cond L rs1 rs2)"

text \<open>Is \<open>rs2\<close> not positive?\<close>

definition nonpos_cond :: "syms \<Rightarrow> nat \<Rightarrow> asm list" where
  "nonpos_cond L rs2 = msb_asm x_gp rs2 @ [ADDI_asm x_tp rs2 (- 1)] @ msb_asm x_tp x_tp @ [ADD_asm x_gp x_gp x_tp] @
     la_asm x_tp (or1_table L) @ [ADD_asm x_tp x_gp x_tp, LBU_asm x_tp 0 x_tp]"

definition blt_asm :: "syms \<Rightarrow> u32 \<Rightarrow> nat \<Rightarrow> nat \<Rightarrow> u32 \<Rightarrow> asm list" where
  "blt_asm L pc rs1 rs2 target =
     (if rs2 = 0 then with_resolve pc target True (msb_asm x_tp rs1)
      else if rs1 = 0 then with_resolve pc target False (nonpos_cond L rs2)
      else with_resolve pc target True (slt_asm L x_tp rs1 rs2))"

definition bltu_asm :: "syms \<Rightarrow> u32 \<Rightarrow> nat \<Rightarrow> nat \<Rightarrow> u32 \<Rightarrow> asm list" where
  "bltu_asm L pc rs1 rs2 target = with_resolve pc target True (sltu_asm L x_tp rs1 rs2)"

definition bge_asm :: "syms \<Rightarrow> u32 \<Rightarrow> nat \<Rightarrow> nat \<Rightarrow> u32 \<Rightarrow> asm list" where
  "bge_asm L pc rs1 rs2 target =
     (if rs1 = 0 then with_resolve pc target True (nonpos_cond L rs2)
      else with_resolve pc target False (slt_asm L x_tp rs1 rs2))"

definition bgeu_asm :: "syms \<Rightarrow> u32 \<Rightarrow> nat \<Rightarrow> nat \<Rightarrow> u32 \<Rightarrow> asm list" where
  "bgeu_asm L pc rs1 rs2 target = with_resolve pc target False (sltu_asm L x_tp rs1 rs2)"

definition beqz_asm :: "syms \<Rightarrow> u32 \<Rightarrow> nat \<Rightarrow> u32 \<Rightarrow> asm list" where "beqz_asm L pc rs target = beq_asm L pc rs 0 target"
definition bnez_asm :: "syms \<Rightarrow> u32 \<Rightarrow> nat \<Rightarrow> u32 \<Rightarrow> asm list" where "bnez_asm L pc rs target = bne_asm L pc rs 0 target"
definition blez_asm :: "syms \<Rightarrow> u32 \<Rightarrow> nat \<Rightarrow> u32 \<Rightarrow> asm list" where "blez_asm L pc rs target = bge_asm L pc 0 rs target"
definition bgez_asm :: "syms \<Rightarrow> u32 \<Rightarrow> nat \<Rightarrow> u32 \<Rightarrow> asm list" where "bgez_asm L pc rs target = bge_asm L pc rs 0 target"
definition bltz_asm :: "syms \<Rightarrow> u32 \<Rightarrow> nat \<Rightarrow> u32 \<Rightarrow> asm list" where "bltz_asm L pc rs target = blt_asm L pc rs 0 target"
definition bgtz_asm :: "syms \<Rightarrow> u32 \<Rightarrow> nat \<Rightarrow> u32 \<Rightarrow> asm list" where "bgtz_asm L pc rs target = blt_asm L pc 0 rs target"
definition bgt_asm :: "syms \<Rightarrow> u32 \<Rightarrow> nat \<Rightarrow> nat \<Rightarrow> u32 \<Rightarrow> asm list" where "bgt_asm L pc rs rt target = blt_asm L pc rt rs target"
definition ble_asm :: "syms \<Rightarrow> u32 \<Rightarrow> nat \<Rightarrow> nat \<Rightarrow> u32 \<Rightarrow> asm list" where "ble_asm L pc rs rt target = bge_asm L pc rt rs target"
definition bgtu_asm :: "syms \<Rightarrow> u32 \<Rightarrow> nat \<Rightarrow> nat \<Rightarrow> u32 \<Rightarrow> asm list" where "bgtu_asm L pc rs rt target = bltu_asm L pc rt rs target"
definition bleu_asm :: "syms \<Rightarrow> u32 \<Rightarrow> nat \<Rightarrow> nat \<Rightarrow> u32 \<Rightarrow> asm list" where "bleu_asm L pc rs rt target = bgeu_asm L pc rt rs target"

section \<open>Replacement of an instruction\<close>

text \<open>The lines an instruction at \<open>pc\<close> becomes; the immediate of a branch is its distance.\<close>

definition inst_replace :: "syms \<Rightarrow> u32 \<Rightarrow> asm \<Rightarrow> asm list res" where
  "inst_replace L pc i = (let rd = a_rd i; rs1 = a_rs1 i; rs2 = a_rs2 i; v = a_imm i; sh = unat (a_imm i) in case a_op i of
     SUB \<Rightarrow> Inr (sub_asm L rd rs1 rs2)
   | SLT \<Rightarrow> Inr (slt_asm L rd rs1 rs2)
   | SLTU \<Rightarrow> Inr (sltu_asm L rd rs1 rs2)
   | AND_op \<Rightarrow> and_asm L rd rs1 rs2
   | OR_op \<Rightarrow> or_asm L rd rs1 rs2
   | XOR_op \<Rightarrow> xor_asm L rd rs1 rs2
   | SLL \<Rightarrow> Inr (sll_asm L rd rs1 rs2)
   | SRL \<Rightarrow> Inr (srl_asm L rd rs1 rs2)
   | SRA \<Rightarrow> Inr (sra_asm L rd rs1 rs2)
   | SLLI \<Rightarrow> Inr (slli_asm rd rs1 sh)
   | SRLI \<Rightarrow> Inr (srli_asm L rd rs1 sh)
   | SRAI \<Rightarrow> Inr (srai_asm L rd rs1 sh)
   | SLTI \<Rightarrow> Inr (slti_asm L rd rs1 v)
   | SLTIU \<Rightarrow> Inr (sltiu_asm L rd rs1 v)
   | ANDI \<Rightarrow> andi_asm L rd rs1 v
   | ORI \<Rightarrow> ori_asm L rd rs1 v
   | XORI \<Rightarrow> xori_asm L rd rs1 v
   | LB \<Rightarrow> Inr (lb_asm L rd v rs1)
   | LH \<Rightarrow> Inr (lh_asm L rd v rs1)
   | LHU \<Rightarrow> Inr (lhu_asm rd v rs1)
   | SH \<Rightarrow> Inr (sh_asm rs2 v rs1)
   | JAL \<Rightarrow> Inr (jal_asm rd (pc + v))
   | BEQ \<Rightarrow> Inr (beq_asm L pc rs1 rs2 (pc + v))
   | BNE \<Rightarrow> Inr (bne_asm L pc rs1 rs2 (pc + v))
   | BLT \<Rightarrow> Inr (blt_asm L pc rs1 rs2 (pc + v))
   | BGE \<Rightarrow> Inr (bge_asm L pc rs1 rs2 (pc + v))
   | BLTU \<Rightarrow> Inr (bltu_asm L pc rs1 rs2 (pc + v))
   | BGEU \<Rightarrow> Inr (bgeu_asm L pc rs1 rs2 (pc + v))
   | _ \<Rightarrow> Inr [i])"

end
