(* ===== verification/Minirv_Macros.thy ===== *)
theory Minirv_Macros
  imports Minirv Am_Cte_Proofs
begin

text \<open>
  The macros of \<open>inst-replace.h\<close> compute what the instructions they replace compute.

  A list of lines is verified by its weakest precondition \<open>wpa\<close>: one rule per base instruction, and one per macro that
  other macros use.  The states are in the form \<open>mk\<close>: the registers, the 28 bytes below the stack pointer and the
  256 bytes of \<open>_check_same_array\<close>, over a state that holds everything else.
\<close>

section \<open>Bytes of a word\<close>

definition byte :: "u32 \<Rightarrow> nat \<Rightarrow> u8" where
  "byte v k = ucast (drop_bit (8 * k) v)"

definition word4 :: "u8 \<Rightarrow> u8 \<Rightarrow> u8 \<Rightarrow> u8 \<Rightarrow> u32" where
  "word4 b0 b1 b2 b3 = push_bit 8 (push_bit 8 (push_bit 8 (ucast b3) OR ucast b2) OR ucast b1) OR ucast b0"

lemma bit_byte: "bit (byte v k) i \<longleftrightarrow> i < 8 \<and> bit v (8 * k + i)"
  by (auto simp: byte_def bit_simps)

lemma bit_word4:
  "bit (word4 b0 b1 b2 b3) i \<longleftrightarrow>
     (if i < 8 then bit b0 i else if i < 16 then bit b1 (i - 8) else if i < 24 then bit b2 (i - 16) else i < 32 \<and> bit b3 (i - 24))"
  unfolding word4_def by (auto simp: bit_simps dest: bit_imp_le_length)

lemma byte_word4 [simp]:
  "byte (word4 a b c d) 0 = a" "byte (word4 a b c d) 1 = b" "byte (word4 a b c d) (Suc 0) = b"
  "byte (word4 a b c d) 2 = c" "byte (word4 a b c d) 3 = d"
  by (rule bit_word_eqI, auto simp: bit_byte bit_word4)+

lemma word4_bytes [simp]: "word4 (byte v 0) (byte v (Suc 0)) (byte v 2) (byte v 3) = v"
  by (rule bit_word_eqI) (auto simp: bit_byte bit_word4)

lemma byte_ucast [simp]:
  "byte (ucast (b :: u8)) 0 = b" "byte (ucast b) (Suc 0) = 0" "byte (ucast b) 2 = 0" "byte (ucast b) 3 = 0"
  by (rule bit_word_eqI, auto simp: bit_byte bit_simps dest: bit_imp_le_length)+

lemma byte_0 [simp]: "byte 0 k = 0"
  by (simp add: byte_def)

lemma word4_0 [simp]: "word4 0 0 0 0 = 0"
  by (simp add: word4_def)

section \<open>Layout\<close>

definition apart :: "config \<Rightarrow> syms \<Rightarrow> u32 \<Rightarrow> u32 \<Rightarrow> nat \<Rightarrow> bool" where
  "apart cfg L sp a n \<longleftrightarrow> guest_to_host cfg a + n \<le> unat (CONFIG_MSIZE cfg) \<and>
     (guest_to_host cfg a + n \<le> guest_to_host cfg (sp - 28) \<or> guest_to_host cfg (sp - 28) + 28 \<le> guest_to_host cfg a) \<and>
     (guest_to_host cfg a + n \<le> guest_to_host cfg (check_same_array L) \<or>
      guest_to_host cfg (check_same_array L) + 256 \<le> guest_to_host cfg a)"

definition table_list :: "syms \<Rightarrow> (u32 \<times> u8 list) list" where
  "table_list L = [(same_result_table L, same_result_bytes), (check_8bit_0_table L, check_8bit_0_bytes), (slt1_table L, slt1_bytes),
     (sltu1_table L, sltu1_bytes), (or1_table L, or1_bytes), (logic_shift_table L, lut_bin)]"

text \<open>The 28 bytes below \<open>sp\<close> and the writable array lie in memory, apart from each other and from the tables.\<close>

definition layout_ok :: "config \<Rightarrow> syms \<Rightarrow> u32 \<Rightarrow> bool" where
  "layout_ok cfg L sp \<longleftrightarrow> guest_to_host cfg (sp - 28) + 28 \<le> unat (CONFIG_MSIZE cfg) \<and>
     guest_to_host cfg (check_same_array L) + 256 \<le> unat (CONFIG_MSIZE cfg) \<and>
     (guest_to_host cfg (check_same_array L) + 256 \<le> guest_to_host cfg (sp - 28) \<or>
      guest_to_host cfg (sp - 28) + 28 \<le> guest_to_host cfg (check_same_array L)) \<and>
     (\<forall>(a, bs) \<in> set (table_list L). apart cfg L sp a (length bs))"

definition loaded :: "config \<Rightarrow> nemu \<Rightarrow> u32 \<Rightarrow> u8 list \<Rightarrow> bool" where
  "loaded cfg st a bs \<longleftrightarrow> (\<forall>k < length bs. pmem (memory st) (guest_to_host cfg a + k) = bs ! k)"

definition tables_ok :: "config \<Rightarrow> syms \<Rightarrow> nemu \<Rightarrow> bool" where
  "tables_ok cfg L st \<longleftrightarrow> (\<forall>(a, bs) \<in> set (table_list L). loaded cfg st a bs)"

definition mk_mem :: "config \<Rightarrow> syms \<Rightarrow> u32 \<Rightarrow> bytes \<Rightarrow> bytes \<Rightarrow> bytes \<Rightarrow> bytes" where
  "mk_mem cfg L sp m S A = (\<lambda>h.
     if guest_to_host cfg (sp - 28) \<le> h \<and> h < guest_to_host cfg (sp - 28) + 28 then S (h - guest_to_host cfg (sp - 28))
     else if guest_to_host cfg (check_same_array L) \<le> h \<and> h < guest_to_host cfg (check_same_array L) + 256
     then A (h - guest_to_host cfg (check_same_array L)) else m h)"

definition mk :: "config \<Rightarrow> syms \<Rightarrow> u32 \<Rightarrow> nemu \<Rightarrow> (nat \<Rightarrow> u32) \<Rightarrow> bytes \<Rightarrow> bytes \<Rightarrow> nemu" where
  "mk cfg L sp st R S A = st\<lparr>cpu := (cpu st)\<lparr>gpr := R\<rparr>, memory := (memory st)\<lparr>pmem := mk_mem cfg L sp (pmem (memory st)) S A\<rparr>\<rparr>"

lemma mk_fields [simp]:
  "gpr (cpu (mk cfg L sp st R S A)) = R" "pmem (memory (mk cfg L sp st R S A)) = mk_mem cfg L sp (pmem (memory st)) S A"
  "devs (memory (mk cfg L sp st R S A)) = devs (memory st)" "csr (cpu (mk cfg L sp st R S A)) = csr (cpu st)"
  by (simp_all add: mk_def)

lemma set_gpr_mk: "set_gpr r v (mk cfg L sp st R S A) = mk cfg L sp st (R(r := v)) S A"
  by (simp add: set_gpr_def mk_def)

lemma mk_self:
  "st = mk cfg L sp st (gpr (cpu st)) (\<lambda>i. pmem (memory st) (guest_to_host cfg (sp - 28) + i))
     (\<lambda>i. pmem (memory st) (guest_to_host cfg (check_same_array L) + i))"
  by (simp add: mk_def mk_mem_def fun_eq_iff)

section \<open>Memory accesses\<close>

lemma Mr_byte:
  assumes "guest_to_host cfg a < unat (CONFIG_MSIZE cfg)"
  shows "Mr cfg a 1 st = Inr (ucast (pmem (memory st) (guest_to_host cfg a)), st)"
  using paddr_read_pmem[of 1 cfg a "memory st"] assms by (simp add: Mr_def vaddr_read_def access_len_def)

lemma Mr_word:
  assumes "guest_to_host cfg a + 4 \<le> unat (CONFIG_MSIZE cfg)"
  shows "Mr cfg a 4 st = Inr (word4 (pmem (memory st) (guest_to_host cfg a)) (pmem (memory st) (guest_to_host cfg a + 1))
     (pmem (memory st) (guest_to_host cfg a + 2)) (pmem (memory st) (guest_to_host cfg a + 3)), st)"
proof -
  have "read_le sp off 4 = word4 (sp off) (sp (off + 1)) (sp (off + 2)) (sp (off + 3))" for sp off
    by (simp add: word4_def numeral_eq_Suc)
  then show ?thesis using paddr_read_pmem[of 4 cfg a "memory st"] assms
    by (simp add: Mr_def vaddr_read_def access_len_def del: read_le.simps)
qed

lemma Mw_byte:
  assumes "guest_to_host cfg a < unat (CONFIG_MSIZE cfg)"
  shows "Mw cfg a 1 v st = Inr (st\<lparr>memory := (memory st)\<lparr>pmem := (pmem (memory st))(guest_to_host cfg a := byte v 0)\<rparr>\<rparr>)"
  using paddr_write_pmem[of 1 cfg a v "memory st"] assms by (simp add: Mw_def vaddr_write_def access_len_def byte_def)

lemma Mw_word:
  assumes "guest_to_host cfg a + 4 \<le> unat (CONFIG_MSIZE cfg)"
  shows "Mw cfg a 4 v st = Inr (st\<lparr>memory := (memory st)\<lparr>pmem := (pmem (memory st))(guest_to_host cfg a := byte v 0,
     guest_to_host cfg a + 1 := byte v 1, guest_to_host cfg a + 2 := byte v 2, guest_to_host cfg a + 3 := byte v 3)\<rparr>\<rparr>)"
  using paddr_write_pmem[of 4 cfg a v "memory st"] assms
  by (simp add: Mw_def vaddr_write_def access_len_def byte_def write_le_4 del: write_le.simps)

text \<open>Addresses of the variables.\<close>

lemma var_addr:
  assumes "layout_ok cfg L sp" and "1 \<le> n" and "n \<le> 7" and "k < 4"
  shows "guest_to_host cfg (sp + SP_VAR_BYTE n k) = guest_to_host cfg (sp - 28) + (28 - 4 * n + k)"
    and "guest_to_host cfg (sp - 28) + (28 - 4 * n + k) < unat (CONFIG_MSIZE cfg)"
proof -
  have "28 - 4 * n + k < 28" using assms(2-4) by linarith
  then show b: "guest_to_host cfg (sp - 28) + (28 - 4 * n + k) < unat (CONFIG_MSIZE cfg)"
    using assms(1) unfolding layout_ok_def by linarith
  have "sp + SP_VAR_BYTE n k = sp - 28 + of_nat (28 - 4 * n + k)"
    using assms(2,3) by (simp add: SP_VAR_BYTE_def of_nat_diff)
  then show "guest_to_host cfg (sp + SP_VAR_BYTE n k) = guest_to_host cfg (sp - 28) + (28 - 4 * n + k)"
    using guest_to_host_add[OF b] by (simp only:)
qed

lemma mk_mem_var:
  "i < 28 \<Longrightarrow> mk_mem cfg L sp m S A (guest_to_host cfg (sp - 28) + i) = S i"
  "Suc i < 28 \<Longrightarrow> mk_mem cfg L sp m S A (Suc (guest_to_host cfg (sp - 28) + i)) = S (Suc i)"
  "Suc (Suc i) < 28 \<Longrightarrow> mk_mem cfg L sp m S A (Suc (Suc (guest_to_host cfg (sp - 28) + i))) = S (Suc (Suc i))"
  by (simp_all add: mk_mem_def Suc_diff_le)

lemma mk_mem_array:
  "layout_ok cfg L sp \<Longrightarrow> i < 256 \<Longrightarrow> mk_mem cfg L sp m S A (guest_to_host cfg (check_same_array L) + i) = A i"
  by (auto simp: mk_mem_def layout_ok_def)

lemma mk_mem_upd_var:
  "i < 28 \<Longrightarrow> (mk_mem cfg L sp m S A)(guest_to_host cfg (sp - 28) + i := v) = mk_mem cfg L sp m (S(i := v)) A"
  by (auto simp: mk_mem_def fun_eq_iff)

lemma mk_mem_upd_array:
  "layout_ok cfg L sp \<Longrightarrow> i < 256 \<Longrightarrow>
   (mk_mem cfg L sp m S A)(guest_to_host cfg (check_same_array L) + i := v) = mk_mem cfg L sp m S (A(i := v))"
  by (auto simp: mk_mem_def layout_ok_def fun_eq_iff)

text \<open>A byte outside the variables and the array.\<close>

definition outside :: "config \<Rightarrow> syms \<Rightarrow> u32 \<Rightarrow> u32 \<Rightarrow> bool" where
  "outside cfg L sp a \<longleftrightarrow> apart cfg L sp a 1"

definition peek :: "config \<Rightarrow> nemu \<Rightarrow> u32 \<Rightarrow> u8" where
  "peek cfg st a = pmem (memory st) (guest_to_host cfg a)"

definition poke :: "config \<Rightarrow> u32 \<Rightarrow> u8 \<Rightarrow> nemu \<Rightarrow> nemu" where
  "poke cfg a v st = st\<lparr>memory := (memory st)\<lparr>pmem := (pmem (memory st))(guest_to_host cfg a := v)\<rparr>\<rparr>"

lemma mk_mem_outside: "outside cfg L sp a \<Longrightarrow> mk_mem cfg L sp m S A (guest_to_host cfg a) = m (guest_to_host cfg a)"
  by (auto simp: mk_mem_def outside_def apart_def)

lemma mk_mem_upd_outside:
  "outside cfg L sp a \<Longrightarrow> (mk_mem cfg L sp m S A)(guest_to_host cfg a := v) = mk_mem cfg L sp (m(guest_to_host cfg a := v)) S A"
  by (auto simp: mk_mem_def outside_def apart_def fun_eq_iff)

lemma outside_bound: "outside cfg L sp a \<Longrightarrow> guest_to_host cfg a < unat (CONFIG_MSIZE cfg)"
  by (auto simp: outside_def apart_def)

section \<open>Weakest preconditions\<close>

definition wpa :: "config \<Rightarrow> asm list \<Rightarrow> (nemu \<Rightarrow> bool) \<Rightarrow> nemu \<Rightarrow> bool" where
  "wpa cfg ls P s \<longleftrightarrow> (\<exists>s'. (\<forall>pc. asm_run cfg pc ls s = Inr (pc + 4 * of_nat (length ls), s')) \<and> P s')"

lemma wpa_Nil [simp]: "wpa cfg [] P s = P s"
  by (auto simp: wpa_def)

lemma wpa_step:
  assumes "\<And>pc. asm_step cfg pc i s = Inr (pc + 4, s1)"
  shows "wpa cfg (i # is) P s = wpa cfg is P s1"
proof -
  have "(\<forall>pc. asm_run cfg pc (i # is) s = Inr (pc + 4 * of_nat (length (i # is)), s')) \<longleftrightarrow>
      (\<forall>pc. asm_run cfg (pc + 4) is s1 = Inr (pc + 4 + 4 * of_nat (length is), s'))" for s'
    by (simp add: assms algebra_simps)
  also have "\<dots> s' \<longleftrightarrow> (\<forall>pc. asm_run cfg pc is s1 = Inr (pc + 4 * of_nat (length is), s'))" for s'
    by (metis diff_add_cancel)
  finally show ?thesis by (simp add: wpa_def)
qed

lemma wpa_append: "wpa cfg ls (wpa cfg ls' P) s \<Longrightarrow> wpa cfg (ls @ ls') P s"
  unfolding wpa_def by (auto simp: asm_run_append algebra_simps)

lemma wpa_mono: "wpa cfg ls P s \<Longrightarrow> (\<And>s. P s \<Longrightarrow> Q s) \<Longrightarrow> wpa cfg ls Q s"
  unfolding wpa_def by blast

section \<open>Base instructions\<close>

text \<open>What the rules need of the registers: \<open>x0\<close> and the stack pointer.\<close>

definition regs_ok :: "u32 \<Rightarrow> (nat \<Rightarrow> u32) \<Rightarrow> bool" where
  "regs_ok sp R \<longleftrightarrow> R 0 = 0 \<and> R x_sp = sp"

lemma regs_ok_upd [simp]: "r \<noteq> 0 \<Longrightarrow> r \<noteq> 2 \<Longrightarrow> regs_ok sp (R(r := v)) = regs_ok sp R"
  by (auto simp: regs_ok_def)

definition dest_ok :: "config \<Rightarrow> nat \<Rightarrow> bool" where
  "dest_ok cfg r \<longleftrightarrow> r \<noteq> 0 \<and> r \<noteq> 2 \<and> r < nr_gpr cfg"

lemma dest_ok_numeral [simp]: "dest_ok cfg (Suc 0)" "dest_ok cfg 3" "dest_ok cfg 4" "dest_ok cfg 8" "dest_ok cfg 9"
  by (simp_all add: dest_ok_def)

named_theorems wpas \<open>weakest preconditions of lines and macros\<close>

lemma regs_x0: "regs_ok sp R \<Longrightarrow> r \<noteq> 0 \<Longrightarrow> R(r := v, 0 := 0) = R(r := v)"
  by (auto simp: regs_ok_def)

lemma x0_ok_mk: "regs_ok sp R \<Longrightarrow> x0_ok (mk cfg L sp st R S A)"
  by (simp add: x0_ok_def regs_ok_def)

lemma wpa_ADDI [wpas]:
  "regs_ok sp R \<Longrightarrow> dest_ok cfg rd \<Longrightarrow> rs < nr_gpr cfg \<Longrightarrow>
   wpa cfg (ADDI_asm rd rs i # is) P (mk cfg L sp st R S A) = wpa cfg is P (mk cfg L sp st (R(rd := R rs + i)) S A)"
  by (rule wpa_step) (simp add: step_ADDI x0_ok_mk dest_ok_def set_gpr_mk)

lemma wpa_LUI [wpas]:
  "regs_ok sp R \<Longrightarrow> dest_ok cfg rd \<Longrightarrow>
   wpa cfg (LUI_asm rd i # is) P (mk cfg L sp st R S A) = wpa cfg is P (mk cfg L sp st (R(rd := i)) S A)"
  by (rule wpa_step) (simp add: step_LUI x0_ok_mk dest_ok_def set_gpr_mk)

lemmas mini_asm_defs = ADD_asm_def LW_asm_def LBU_asm_def SW_asm_def SB_asm_def JALR_asm_def

lemma wpa_ADD [wpas]:
  "regs_ok sp R \<Longrightarrow> dest_ok cfg rd \<Longrightarrow> rs < nr_gpr cfg \<Longrightarrow> rs' < nr_gpr cfg \<Longrightarrow>
   wpa cfg (ADD_asm rd rs rs' # is) P (mk cfg L sp st R S A) = wpa cfg is P (mk cfg L sp st (R(rd := R rs + R rs')) S A)"
  by (rule wpa_step)
     (simp add: asm_step_def mini_asm_defs exec_body_def set_rd_def R_get_ok R_set_ok R_set_x0 x0_ok_mk dest_ok_def set_gpr_mk regs_x0)

lemma load_step:
  assumes "regs_ok sp R" and "dest_ok cfg rd" and "rs < nr_gpr cfg"
  shows "guest_to_host cfg (R rs + i) < unat (CONFIG_MSIZE cfg) \<Longrightarrow> asm_step cfg pc (LBU_asm rd i rs) (mk cfg L sp st R S A) =
      Inr (pc + 4, mk cfg L sp st (R(rd := ucast (mk_mem cfg L sp (pmem (memory st)) S A (guest_to_host cfg (R rs + i))))) S A)"
    and "guest_to_host cfg (R rs + i) + 4 \<le> unat (CONFIG_MSIZE cfg) \<Longrightarrow> asm_step cfg pc (LW_asm rd i rs) (mk cfg L sp st R S A) =
      (let b = \<lambda>k. mk_mem cfg L sp (pmem (memory st)) S A (guest_to_host cfg (R rs + i) + k) in
       Inr (pc + 4, mk cfg L sp st (R(rd := word4 (b 0) (b 1) (b 2) (b 3))) S A))"
  using assms
  by (simp_all add: asm_step_def mini_asm_defs exec_body_def load_op_def set_rd_def R_get_ok R_set_ok R_set_x0 x0_ok_mk dest_ok_def
      set_gpr_mk regs_x0 Mr_byte[simplified] Mr_word Let_def)

lemma wpa_LBU_var [wpas]:
  assumes "layout_ok cfg L sp" and "regs_ok sp R" and "dest_ok cfg rd" and "1 \<le> n" and "n \<le> 7" and "k < 4"
  shows "wpa cfg (LBU_asm rd (SP_VAR_BYTE n k) x_sp # is) P (mk cfg L sp st R S A) =
    wpa cfg is P (mk cfg L sp st (R(rd := ucast (S (28 + k - 4 * n)))) S A)"
proof (rule wpa_step)
  have "R x_sp = sp" "28 - 4 * n + k < 28" "28 + k - 4 * n = 28 - 4 * n + k" using assms by (simp_all add: regs_ok_def)
  then show "asm_step cfg pc (LBU_asm rd (SP_VAR_BYTE n k) x_sp) (mk cfg L sp st R S A) =
      Inr (pc + 4, mk cfg L sp st (R(rd := ucast (S (28 + k - 4 * n)))) S A)" for pc
    using load_step(1)[OF assms(2,3), of x_sp "SP_VAR_BYTE n k"] var_addr[OF assms(1,4-6)] mk_mem_var by simp
qed

lemma wpa_LW_at:
  assumes "layout_ok cfg L sp" and "regs_ok sp R" and "dest_ok cfg rd" and "rs < nr_gpr cfg" and "R rs + i = sp + SP_VAR n" and "1 \<le> n" and "n \<le> 7"
  shows "wpa cfg (LW_asm rd i rs # is) P (mk cfg L sp st R S A) =
    wpa cfg is P (mk cfg L sp st (R(rd := word4 (S (28 - 4 * n)) (S (28 - 4 * n + 1)) (S (28 - 4 * n + 2)) (S (28 - 4 * n + 3)))) S A)"
proof (rule wpa_step)
  have "28 - 4 * n + 3 < 28" using assms by simp
  then show "asm_step cfg pc (LW_asm rd i rs) (mk cfg L sp st R S A) =
      Inr (pc + 4, mk cfg L sp st (R(rd := word4 (S (28 - 4 * n)) (S (28 - 4 * n + 1)) (S (28 - 4 * n + 2)) (S (28 - 4 * n + 3)))) S A)" for pc
    using load_step(2)[OF assms(2-4), of i] var_addr[OF assms(1,6,7), of 0] var_addr(2)[OF assms(1,6,7), of 3]
    by (simp add: SP_VAR_def Let_def mk_mem_var add.assoc assms(5))
qed

lemma var_index:
  fixes n :: nat
  shows "n \<le> 7 \<Longrightarrow> 28 - 4 * n + 1 = 29 - 4 * n" "n \<le> 7 \<Longrightarrow> 28 - 4 * n + 2 = 30 - 4 * n" "n \<le> 7 \<Longrightarrow> 28 - 4 * n + 3 = 31 - 4 * n"
  by simp_all

lemma regs_sp: "regs_ok sp R \<Longrightarrow> R x_sp = sp"
  by (simp add: regs_ok_def)

lemma wpa_LW_var [wpas]:
  "layout_ok cfg L sp \<Longrightarrow> regs_ok sp R \<Longrightarrow> dest_ok cfg rd \<Longrightarrow> 1 \<le> n \<Longrightarrow> n \<le> 7 \<Longrightarrow>
   wpa cfg (LW_asm rd (SP_VAR n) x_sp # is) P (mk cfg L sp st R S A) =
     wpa cfg is P (mk cfg L sp st (R(rd := word4 (S (28 - 4 * n)) (S (29 - 4 * n)) (S (30 - 4 * n)) (S (31 - 4 * n)))) S A)"
  using wpa_LW_at[of cfg L sp R rd x_sp "SP_VAR n" n] var_index[of n] by (simp add: regs_sp)

lemma mk_memory:
  "mk cfg L sp st R S A\<lparr>memory := (memory (mk cfg L sp st R S A))\<lparr>pmem := mk_mem cfg L sp m S' A'\<rparr>\<rparr> =
   mk cfg L sp (st\<lparr>memory := (memory st)\<lparr>pmem := m\<rparr>\<rparr>) R S' A'"
  by (simp add: mk_def)

lemma store_step:
  fixes L st S A i
  assumes "regs_ok sp R" and "r < nr_gpr cfg" and "rs < nr_gpr cfg"
  defines "s \<equiv> mk cfg L sp st R S A" and "a \<equiv> guest_to_host cfg (R rs + i)"
  shows "a < unat (CONFIG_MSIZE cfg) \<Longrightarrow> asm_step cfg pc (SB_asm r i rs) s =
      Inr (pc + 4, s\<lparr>memory := (memory s)\<lparr>pmem := (mk_mem cfg L sp (pmem (memory st)) S A)(a := byte (R r) 0)\<rparr>\<rparr>)"
    and "a + 4 \<le> unat (CONFIG_MSIZE cfg) \<Longrightarrow> asm_step cfg pc (SW_asm r i rs) s =
      Inr (pc + 4, s\<lparr>memory := (memory s)\<lparr>pmem := (mk_mem cfg L sp (pmem (memory st)) S A)(a := byte (R r) 0, a + 1 := byte (R r) 1,
        a + 2 := byte (R r) 2, a + 3 := byte (R r) 3)\<rparr>\<rparr>)"
proof -
  have x: "R_set cfg 0 0 (s\<lparr>memory := m\<rparr>) = Inr (s\<lparr>memory := m\<rparr>)" for m
    using x0_ok_mk[OF assms(1), of cfg L st S A] by (intro R_set_x0) (simp add: x0_ok_def s_def)
  show "asm_step cfg pc (SB_asm r i rs) s =
      Inr (pc + 4, s\<lparr>memory := (memory s)\<lparr>pmem := (mk_mem cfg L sp (pmem (memory st)) S A)(a := byte (R r) 0)\<rparr>\<rparr>)"
    if "a < unat (CONFIG_MSIZE cfg)"
    using assms(2,3) that x
    by (simp add: asm_step_def mini_asm_defs exec_body_def store_op_def R_get_ok Mw_byte[simplified] a_def s_def)
  show "asm_step cfg pc (SW_asm r i rs) s =
      Inr (pc + 4, s\<lparr>memory := (memory s)\<lparr>pmem := (mk_mem cfg L sp (pmem (memory st)) S A)(a := byte (R r) 0, a + 1 := byte (R r) 1,
        a + 2 := byte (R r) 2, a + 3 := byte (R r) 3)\<rparr>\<rparr>)" if "a + 4 \<le> unat (CONFIG_MSIZE cfg)"
    using assms(2,3) that x
    by (simp add: asm_step_def mini_asm_defs exec_body_def store_op_def R_get_ok Mw_word[simplified] a_def s_def)
qed

lemma wpa_SB_var [wpas]:
  assumes "layout_ok cfg L sp" and "regs_ok sp R" and "r < nr_gpr cfg" and "1 \<le> n" and "n \<le> 7" and "k < 4"
  shows "wpa cfg (SB_asm r (SP_VAR_BYTE n k) x_sp # is) P (mk cfg L sp st R S A) =
    wpa cfg is P (mk cfg L sp st R (S(28 + k - 4 * n := byte (R r) 0)) A)"
proof (rule wpa_step)
  have "28 - 4 * n + k < 28" "28 + k - 4 * n = 28 - 4 * n + k" using assms by simp_all
  then show "asm_step cfg pc (SB_asm r (SP_VAR_BYTE n k) x_sp) (mk cfg L sp st R S A) =
      Inr (pc + 4, mk cfg L sp st R (S(28 + k - 4 * n := byte (R r) 0)) A)" for pc
    using store_step(1)[OF assms(2,3), of x_sp "SP_VAR_BYTE n k"] var_addr[OF assms(1,4-6)] regs_sp[OF assms(2)]
    by (simp add: mk_mem_upd_var mk_memory del: mk_fields)
qed

lemma wpa_SW_var [wpas]:
  assumes "layout_ok cfg L sp" and "regs_ok sp R" and "r < nr_gpr cfg" and "1 \<le> n" and "n \<le> 7"
  shows "wpa cfg (SW_asm r (SP_VAR n) x_sp # is) P (mk cfg L sp st R S A) =
    wpa cfg is P (mk cfg L sp st R (S(28 - 4 * n := byte (R r) 0, 29 - 4 * n := byte (R r) 1, 30 - 4 * n := byte (R r) 2,
      31 - 4 * n := byte (R r) 3)) A)"
proof (rule wpa_step)
  have i: "28 - 4 * n < 28" "28 - 4 * n + 1 < 28" "28 - 4 * n + 2 < 28" "28 - 4 * n + 3 < 28" using assms by simp_all
  show "asm_step cfg pc (SW_asm r (SP_VAR n) x_sp) (mk cfg L sp st R S A) =
      Inr (pc + 4, mk cfg L sp st R (S(28 - 4 * n := byte (R r) 0, 29 - 4 * n := byte (R r) 1, 30 - 4 * n := byte (R r) 2,
      31 - 4 * n := byte (R r) 3)) A)" for pc
    using store_step(2)[OF assms(2,3), of x_sp "SP_VAR_BYTE n 0"] var_addr[OF assms(1,4,5), of 0] var_addr(2)[OF assms(1,4,5), of 3]
      regs_sp[OF assms(2)] mk_mem_upd_var[OF i(1)] mk_mem_upd_var[OF i(2)] mk_mem_upd_var[OF i(3)] mk_mem_upd_var[OF i(4)]
    by (simp add: SP_VAR_def mk_memory add.assoc flip: var_index[OF assms(5)] del: mk_fields)
qed

text \<open>Bytes elsewhere: read-only data, the program's data, and the array.\<close>

lemma wpa_LBU_data:
  assumes "regs_ok sp R" and "dest_ok cfg rd" and "rs < nr_gpr cfg" and "outside cfg L sp (R rs + i)"
  shows "wpa cfg (LBU_asm rd i rs # is) P (mk cfg L sp st R S A) =
    wpa cfg is P (mk cfg L sp st (R(rd := ucast (peek cfg st (R rs + i)))) S A)"
  by (rule wpa_step) (simp add: load_step(1)[OF assms(1-3)] outside_bound[OF assms(4)] mk_mem_outside[OF assms(4)] peek_def)

lemma wpa_SB_data:
  assumes "regs_ok sp R" and "r < nr_gpr cfg" and "rs < nr_gpr cfg" and "outside cfg L sp (R rs + i)"
  shows "wpa cfg (SB_asm r i rs # is) P (mk cfg L sp st R S A) =
    wpa cfg is P (mk cfg L sp (poke cfg (R rs + i) (byte (R r) 0) st) R S A)"
  by (rule wpa_step) (simp add: store_step(1)[OF assms(1-3)] outside_bound[OF assms(4)] mk_mem_upd_outside[OF assms(4)] mk_memory
      poke_def del: mk_fields)

lemma array_addr:
  assumes "layout_ok cfg L sp"
  shows "guest_to_host cfg (check_same_array L + ucast (b :: u8)) = guest_to_host cfg (check_same_array L) + unat b"
    and "guest_to_host cfg (check_same_array L) + unat b < unat (CONFIG_MSIZE cfg)"
proof -
  have "unat b < 256" using unat_lt_power[of b] by simp
  then show bd: "guest_to_host cfg (check_same_array L) + unat b < unat (CONFIG_MSIZE cfg)" using assms by (simp add: layout_ok_def)
  have "ucast b = (of_nat (unat b) :: u32)" by simp
  then show "guest_to_host cfg (check_same_array L + ucast b) = guest_to_host cfg (check_same_array L) + unat b"
    using guest_to_host_add[OF bd] by (simp only:)
qed

lemma wpa_LBU_array:
  assumes "layout_ok cfg L sp" and "regs_ok sp R" and "dest_ok cfg rd" and "rs < nr_gpr cfg" and "R rs = check_same_array L + ucast (b :: u8)"
  shows "wpa cfg (LBU_asm rd 0 rs # is) P (mk cfg L sp st R S A) = wpa cfg is P (mk cfg L sp st (R(rd := ucast (A (unat b)))) S A)"
proof (rule wpa_step)
  have "unat b < 256" using unat_lt_power[of b] by simp
  then show "asm_step cfg pc (LBU_asm rd 0 rs) (mk cfg L sp st R S A) = Inr (pc + 4, mk cfg L sp st (R(rd := ucast (A (unat b)))) S A)" for pc
    using load_step(1)[OF assms(2-4), of 0] array_addr[OF assms(1), of b] assms(1,5) by (simp add: mk_mem_array)
qed

lemma wpa_SB_array:
  assumes "layout_ok cfg L sp" and "regs_ok sp R" and "r < nr_gpr cfg" and "rs < nr_gpr cfg" and "R rs = check_same_array L + ucast (b :: u8)"
  shows "wpa cfg (SB_asm r 0 rs # is) P (mk cfg L sp st R S A) =
    wpa cfg is P (mk cfg L sp st R S (A(unat b := byte (R r) 0)))"
proof (rule wpa_step)
  have "unat b < 256" using unat_lt_power[of b] by simp
  then show "asm_step cfg pc (SB_asm r 0 rs) (mk cfg L sp st R S A) = Inr (pc + 4, mk cfg L sp st R S (A(unat b := byte (R r) 0)))" for pc
    using store_step(1)[OF assms(2-4), of 0] array_addr[OF assms(1), of b] assms(1,5)
    by (simp add: mk_mem_upd_array mk_memory del: mk_fields)
qed

lemma wpa_LW_data:
  assumes "regs_ok sp R" and "dest_ok cfg rd" and "rs < nr_gpr cfg" and "apart cfg L sp (R rs + i) 4"
  shows "wpa cfg (LW_asm rd i rs # is) P (mk cfg L sp st R S A) =
    wpa cfg is P (mk cfg L sp st (R(rd := (let b = \<lambda>k. pmem (memory st) (guest_to_host cfg (R rs + i) + k) in word4 (b 0) (b 1) (b 2) (b 3)))) S A)"
proof (rule wpa_step)
  have "mk_mem cfg L sp m S A (guest_to_host cfg (R rs + i) + k) = m (guest_to_host cfg (R rs + i) + k)" if "k < 4" for m k
    using assms(4) that by (auto simp: mk_mem_def apart_def)
  from this[of 0] this[of "Suc 0"] this[of 2] this[of 3]
  show "asm_step cfg pc (LW_asm rd i rs) (mk cfg L sp st R S A) = Inr (pc + 4, mk cfg L sp st (R(rd :=
      (let b = \<lambda>k. pmem (memory st) (guest_to_host cfg (R rs + i) + k) in word4 (b 0) (b 1) (b 2) (b 3)))) S A)" for pc
    using assms(4) by (simp add: load_step(2)[OF assms(1-3)] Let_def apart_def)
qed

section \<open>Addresses\<close>

lemma hi_lo: "hi_part a + lo_part a = a"
proof -
  have tb: "word_of_int (take_bit 12 k) = take_bit 12 (word_of_int k :: u32)" for k
    by (rule bit_word_eqI) (auto simp: bit_simps bit_word_of_int_iff)
  have lo: "lo_part a = take_bit 12 (a + 0x800) - 0x800"
  proof -
    have "signed_take_bit 11 a = word_of_int (signed_take_bit 11 (uint a))"
      by (rule bit_word_eqI) (auto simp: bit_simps bit_word_of_int_iff bit_uint_iff min_def)
    also have "signed_take_bit 11 (uint a) = take_bit (Suc 11) (uint a + 2 ^ 11) - 2 ^ 11"
      by (rule signed_take_bit_eq_take_bit_shift)
    also have "word_of_int \<dots> = word_of_int (take_bit 12 (uint a + 0x800)) - (0x800 :: u32)" by simp
    also have "word_of_int (take_bit 12 (uint a + 0x800)) = take_bit 12 (word_of_int (uint a + 0x800) :: u32)" by (rule tb)
    finally show ?thesis by (simp add: lo_part_def)
  qed
  have "(a + 0x800) AND NOT 0xfff = (a + 0x800) - take_bit 12 (a + 0x800)"
  proof -
    have m: "(0xfff :: u32) = mask 12" by (simp add: mask_eq_exp_minus_1)
    have "(x AND NOT 0xfff) + take_bit 12 x = x" for x :: u32
    proof -
      have "(x AND NOT 0xfff) + take_bit 12 x = (x AND NOT 0xfff) OR take_bit 12 x"
        unfolding m by (rule disjunctive_add) (auto simp: bit_simps)
      also have "\<dots> = x" unfolding m by (rule bit_word_eqI) (auto simp: bit_simps)
      finally show ?thesis .
    qed
    then show ?thesis by (simp add: eq_diff_eq)
  qed
  then show ?thesis unfolding lo hi_part_def by simp
qed

lemma wpa_la [wpas]:
  "regs_ok sp R \<Longrightarrow> dest_ok cfg rd \<Longrightarrow>
   wpa cfg (la_asm rd a @ is) P (mk cfg L sp st R S A) = wpa cfg is P (mk cfg L sp st (R(rd := a)) S A)"
  "regs_ok sp R \<Longrightarrow> dest_ok cfg rd \<Longrightarrow>
   wpa cfg (la_asm rd a) P (mk cfg L sp st R S A) = P (mk cfg L sp st (R(rd := a)) S A)"
  by (simp_all add: la_asm_def wpas dest_ok_def hi_lo)

section \<open>Contents of the tables\<close>

lemma concat_blocks:
  assumes "\<And>i. i < n \<Longrightarrow> length (f i) = m"
  shows "length (concat (map f [0..<n])) = n * m"
    and "i < n \<Longrightarrow> k < m \<Longrightarrow> concat (map f [0..<n]) ! (i * m + k) = f i ! k"
proof -
  have "length (concat (map f [0..<n])) = n * m \<and> (\<forall>i k. i < n \<longrightarrow> k < m \<longrightarrow> concat (map f [0..<n]) ! (i * m + k) = f i ! k)"
    using assms
  proof (induction n)
    case (Suc n)
    have IH: "length (concat (map f [0..<n])) = n * m"
        "\<And>i k. i < n \<Longrightarrow> k < m \<Longrightarrow> concat (map f [0..<n]) ! (i * m + k) = f i ! k"
      using Suc by auto
    have "concat (map f [0..<Suc n]) ! (i * m + k) = f i ! k" if "i < Suc n" "k < m" for i k
    proof (cases "i = n")
      case True
      then show ?thesis using IH(1) that(2) by (simp add: nth_append)
    next
      case False
      then have i: "i < n" using that(1) by simp
      then have "i * m + k < n * m" using mult_le_mono1[of "Suc i" n m] that(2) by simp
      then show ?thesis using IH(1) IH(2)[OF i that(2)] by (simp add: nth_append)
    qed
    then show ?case using IH(1) Suc.prems by auto
  qed simp
  then show "length (concat (map f [0..<n])) = n * m" "i < n \<Longrightarrow> k < m \<Longrightarrow> concat (map f [0..<n]) ! (i * m + k) = f i ! k" by auto
qed

lemma length_entry [simp]: "length (entry_bytes n v) = n"
  by (simp add: entry_bytes_def)

lemma length_gen_table [simp]: "length (gen_table row col n ex) = row * (col * n)"
  unfolding gen_table_def by (intro concat_blocks(1)) simp

lemma gen_table_nth:
  assumes "j < row" and "i < col" and "k < n"
  shows "gen_table row col n ex ! (j * (col * n) + (i * n + k)) = ucast (drop_bit (8 * k) (ex j i))"
proof -
  have "i * n + k < col * n" using assms(2,3) mult_le_mono1[of "Suc i" col n] by simp
  then have "gen_table row col n ex ! (j * (col * n) + (i * n + k)) = concat (map (\<lambda>i. entry_bytes n (ex j i)) [0..<col]) ! (i * n + k)"
    unfolding gen_table_def using assms(1) by (intro concat_blocks(2)) (simp_all add: concat_blocks(1))
  also have "\<dots> = entry_bytes n (ex j i) ! k" using assms(2,3) by (intro concat_blocks(2)) simp_all
  finally show ?thesis using assms(3) by (simp add: entry_bytes_def)
qed

lemma table_at:
  assumes "layout_ok cfg L sp" and "tables_ok cfg L st" and "(a, bs) \<in> set (table_list L)" and "k + n \<le> length bs" and "0 < n"
  shows "apart cfg L sp (a + of_nat k) n"
    and "j < n \<Longrightarrow> pmem (memory st) (guest_to_host cfg (a + of_nat k) + j) = bs ! (k + j)"
proof -
  have ap: "apart cfg L sp a (length bs)" using assms(1,3) by (auto simp: layout_ok_def)
  then have "guest_to_host cfg a + k < unat (CONFIG_MSIZE cfg)" using assms(4,5) by (simp add: apart_def)
  from guest_to_host_add[OF this] have h: "guest_to_host cfg (a + of_nat k) = guest_to_host cfg a + k" .
  show "apart cfg L sp (a + of_nat k) n" using ap assms(4) unfolding apart_def h by linarith
  show "pmem (memory st) (guest_to_host cfg (a + of_nat k) + j) = bs ! (k + j)" if "j < n"
    using assms(2-4) that unfolding h by (auto simp: tables_ok_def loaded_def add.assoc)
qed

lemma table_byte:
  assumes "layout_ok cfg L sp" and "tables_ok cfg L st" and "(a, bs) \<in> set (table_list L)" and "k < length bs"
  shows "outside cfg L sp (a + of_nat k)" and "peek cfg st (a + of_nat k) = bs ! k"
  using table_at(1)[OF assms(1-3), of k 1] table_at(2)[OF assms(1-3), of k 1 0] assms(4) by (simp_all add: outside_def peek_def)

lemma lut_in_list: "(logic_shift_table L, lut_bin) \<in> set (table_list L)"
  by (simp add: table_list_def)

lemma length_lut: "length lut_bin = 294912"
  by (simp add: lut_bin_def)

lemma lut_skip: "k < length ys \<Longrightarrow> (xs @ ys @ zs) ! (length xs + k) = ys ! k"
  by (simp add: nth_append)

text \<open>The row is the first operand, the column the second.\<close>

lemma lut_logic_nth:
  fixes a b :: u8
  shows "lut_bin ! (256 * unat a + unat b) = a AND b"
    and "lut_bin ! (65536 + (256 * unat a + unat b)) = a OR b"
    and "lut_bin ! (131072 + (256 * unat a + unat b)) = a XOR b"
proof -
  have ab: "unat a < 256" "unat b < 256" using unat_lt_power[of a] unat_lt_power[of b] by simp_all
  have ex: "gen_table 256 256 (Suc 0) ex ! (256 * unat a + unat b) = ucast (ex (unat a) (unat b))" for ex
    using gen_table_nth[of "unat a" 256 "unat b" 256 0 1 ex] ab by (simp add: mult.commute)
  have lt: "256 * unat a + unat b < 65536" using ab by linarith
  have u: "ucast (ucast a AND ucast b :: u32) = a AND b" "ucast (ucast a OR ucast b :: u32) = a OR b"
      "ucast (ucast a XOR ucast b :: u32) = a XOR b"
    by (rule bit_word_eqI, auto simp: bit_simps)+
  show "lut_bin ! (256 * unat a + unat b) = a AND b"
    using lt unfolding lut_bin_def by (subst nth_append) (simp add: ex u)
  have "lut_bin ! (length (gen_table 256 256 1 (\<lambda>j i. of_nat j AND of_nat i)) + (256 * unat a + unat b)) = a OR b"
    unfolding lut_bin_def by (subst lut_skip) (simp_all add: lt ex u)
  then show "lut_bin ! (65536 + (256 * unat a + unat b)) = a OR b" by simp
  have "lut_bin ! (length (gen_table 256 256 1 (\<lambda>j i. of_nat j AND of_nat i) @ gen_table 256 256 1 (\<lambda>j i. of_nat j OR of_nat i)) +
      (256 * unat a + unat b)) = a XOR b"
    unfolding lut_bin_def append_assoc[symmetric, of "gen_table 256 256 1 (\<lambda>j i. of_nat j AND of_nat i)"]
    by (subst lut_skip) (simp_all add: lt ex u)
  then show "lut_bin ! (131072 + (256 * unat a + unat b)) = a XOR b" by simp
qed

lemma word4_nat: "word4 b a 0 0 = of_nat (256 * unat a + unat b)"
proof -
  have "word4 b a 0 0 = push_bit 8 (ucast a) OR ucast b" by (simp add: word4_def)
  also have "\<dots> = push_bit 8 (ucast a) + ucast b"
    by (rule disjunctive_add[symmetric]) (auto simp: bit_simps dest: bit_imp_le_length)
  also have "\<dots> = of_nat (256 * unat a + unat b)" by (simp add: push_bit_eq_mult mult.commute)
  finally show ?thesis .
qed

lemma wpa_LBU_logic:
  fixes a b :: u8
  assumes "layout_ok cfg L sp" and "tables_ok cfg L st" and "regs_ok sp R" and "dest_ok cfg rd" and "rs < nr_gpr cfg"
  shows "R rs = and8_table L + word4 b a 0 0 \<Longrightarrow>
      wpa cfg (LBU_asm rd 0 rs # is) P (mk cfg L sp st R S A) = wpa cfg is P (mk cfg L sp st (R(rd := ucast (a AND b))) S A)"
    and "R rs = or8_table L + word4 b a 0 0 \<Longrightarrow>
      wpa cfg (LBU_asm rd 0 rs # is) P (mk cfg L sp st R S A) = wpa cfg is P (mk cfg L sp st (R(rd := ucast (a OR b))) S A)"
    and "R rs = xor8_table L + word4 b a 0 0 \<Longrightarrow>
      wpa cfg (LBU_asm rd 0 rs # is) P (mk cfg L sp st R S A) = wpa cfg is P (mk cfg L sp st (R(rd := ucast (a XOR b))) S A)"
proof -
  have ab: "256 * unat a + unat b < 65536" using unat_lt_power[of a] unat_lt_power[of b] by simp
  have go: "wpa cfg (LBU_asm rd 0 rs # is) P (mk cfg L sp st R S A) = wpa cfg is P (mk cfg L sp st (R(rd := ucast (lut_bin ! k))) S A)"
    if "R rs = logic_shift_table L + of_nat k" "k < 294912" for k
    using wpa_LBU_data[OF assms(3-5), of L 0] table_byte[OF assms(1,2) lut_in_list, of k] that by (simp add: length_lut)
  show "wpa cfg (LBU_asm rd 0 rs # is) P (mk cfg L sp st R S A) = wpa cfg is P (mk cfg L sp st (R(rd := ucast (a AND b))) S A)"
    if "R rs = and8_table L + word4 b a 0 0"
    using go[of "256 * unat a + unat b"] ab that by (simp add: and8_table_def word4_nat lut_logic_nth)
  show "wpa cfg (LBU_asm rd 0 rs # is) P (mk cfg L sp st R S A) = wpa cfg is P (mk cfg L sp st (R(rd := ucast (a OR b))) S A)"
    if "R rs = or8_table L + word4 b a 0 0"
    using go[of "65536 + (256 * unat a + unat b)"] ab that
    by (simp add: or8_table_def and8_table_def word4_nat lut_logic_nth add.assoc)
  show "wpa cfg (LBU_asm rd 0 rs # is) P (mk cfg L sp st R S A) = wpa cfg is P (mk cfg L sp st (R(rd := ucast (a XOR b))) S A)"
    if "R rs = xor8_table L + word4 b a 0 0"
    using go[of "131072 + (256 * unat a + unat b)"] ab that
    by (simp add: xor8_table_def or8_table_def and8_table_def word4_nat lut_logic_nth add.assoc)
qed

section \<open>Arithmetic\<close>

lemmas var_defs = VAR_A_def VAR_B_def VAR_C_def VAR_D_def PUSH_asm_def POP_asm_def

lemma word4_row: "word4 b a 0 0 = push_bit 8 (ucast a) + ucast b"
  by (simp add: word4_nat push_bit_eq_mult)

lemma wpa_not_byte [wpas]:
  assumes "layout_ok cfg L sp" and "tables_ok cfg L st" and "regs_ok sp R" and "R x_tp = xor8_table L + 0xff00" and "k < 4"
  shows "wpa cfg (not_byte_asm k @ is) P (mk cfg L sp st R S A) =
    wpa cfg is P (mk cfg L sp st (R(x_gp := ucast (NOT (S (4 + k))))) (S(k := NOT (S (4 + k)))) A)"
proof -
  have "(0xff :: u8) = - 1" by simp
  then have x: "(0xff :: u8) XOR b = NOT b" for b by (simp only: bit.xor_one_left)
  let ?R = "R(x_gp := ucast (S (4 + k)) + (xor8_table L + 0xff00))"
  have r: "?R x_gp = xor8_table L + word4 (S (4 + k)) 0xff 0 0" by (simp add: word4_row)
  have "wpa cfg (LBU_asm x_gp 0 x_gp # is') P (mk cfg L sp st ?R S A) =
      wpa cfg is' P (mk cfg L sp st (?R(x_gp := ucast (NOT (S (4 + k))))) S A)" for is'
    by (rule wpa_LBU_logic(3)[OF assms(1,2), of ?R x_gp x_gp "S (4 + k)" "0xff", unfolded x, OF _ _ _ r]) (simp_all add: assms(3))
  then show ?thesis using assms by (simp add: not_byte_asm_def var_defs wpas)
qed

lemma word4_NOT: "word4 (NOT a) (NOT b) (NOT c) (NOT d) = NOT (word4 a b c d)"
  by (rule bit_word_eqI) (auto simp: bit_word4 bit_simps)

lemma wpa_not [wpas]:
  assumes "layout_ok cfg L sp" and "tables_ok cfg L st" and "regs_ok sp R" and "dest_ok cfg rd" and "rs < nr_gpr cfg"
  shows "wpa cfg (not_asm L rd rs @ is) P (mk cfg L sp st R S A) =
    wpa cfg is P (mk cfg L sp st (R(x_tp := xor8_table L + 0xff00, rd := NOT (R rs)))
      (S(16 := byte (R x_gp) 0, 17 := byte (R x_gp) 1, 18 := byte (R x_gp) 2, 19 := byte (R x_gp) 3,
         4 := byte (R rs) 0, 5 := byte (R rs) 1, 6 := byte (R rs) 2, 7 := byte (R rs) 3,
         3 := NOT (byte (R rs) 3), 2 := NOT (byte (R rs) 2), 1 := NOT (byte (R rs) 1), 0 := NOT (byte (R rs) 0))) A)"
proof -
  have "R(x_tp := a, x_gp := R x_gp) = R(x_tp := a)" for a by (simp add: fun_eq_iff)
  then show ?thesis using assms by (simp add: not_asm_def var_defs wpas word4_NOT)
qed

lemma wpa_sub [wpas]:
  assumes "layout_ok cfg L sp" and "tables_ok cfg L st" and "regs_ok sp R" and "dest_ok cfg rd" and "rs1 < nr_gpr cfg" and "rs2 < nr_gpr cfg" 
   and "rs1 \<noteq> x_tp"
  shows "wpa cfg (sub_asm L rd rs1 rs2 @ is) P (mk cfg L sp st R S A) =
    wpa cfg is P (mk cfg L sp st (R(x_tp := NOT (R rs2), rd := R rs1 - R rs2))
      (S(16 := byte (R x_gp) 0, 17 := byte (R x_gp) 1, 18 := byte (R x_gp) 2, 19 := byte (R x_gp) 3,
         4 := byte (R rs2) 0, 5 := byte (R rs2) 1, 6 := byte (R rs2) 2, 7 := byte (R rs2) 3,
         3 := NOT (byte (R rs2) 3), 2 := NOT (byte (R rs2) 2), 1 := NOT (byte (R rs2) 1), 0 := NOT (byte (R rs2) 0))) A)"
  using assms by (simp add: sub_asm_def wpas dest_ok_def not_eq_complement)

lemma wpa_slli_small [wpas]:
  assumes "regs_ok sp R" and "dest_ok cfg rd" and "rs < nr_gpr cfg" and "0 < n" and "n < 16"
  shows "wpa cfg (slli_asm rd rs n @ is) P (mk cfg L sp st R S A) = wpa cfg is P (mk cfg L sp st (R(rd := push_bit n (R rs))) S A)"
proof -
  have rd: "rd < nr_gpr cfg" using assms(2) by (simp add: dest_ok_def)
  have rep: "wpa cfg (replicate k (ADD_asm rd rd rd) @ is) P (mk cfg L sp st R' S A) =
      wpa cfg is P (mk cfg L sp st (R'(rd := push_bit k (R' rd))) S A)" if "regs_ok sp R'" for k R'
    using that assms(2) rd
  proof (induction k arbitrary: R')
    case (Suc k)
    let ?R = "R'(rd := R' rd + R' rd)"
    have "regs_ok sp ?R" using Suc.prems by (simp add: dest_ok_def)
    from Suc.IH[OF this Suc.prems(2,3)]
    have "wpa cfg (replicate k (ADD_asm rd rd rd) @ is) P (mk cfg L sp st ?R S A) =
        wpa cfg is P (mk cfg L sp st (?R(rd := push_bit k (?R rd))) S A)" .
    moreover have "?R(rd := push_bit k (?R rd)) = R'(rd := push_bit (Suc k) (R' rd))" by (simp add: push_bit_double mult.commute)
    moreover have "wpa cfg (replicate (Suc k) (ADD_asm rd rd rd) @ is) P (mk cfg L sp st R' S A) =
        wpa cfg (replicate k (ADD_asm rd rd rd) @ is) P (mk cfg L sp st ?R S A)"
      using Suc.prems wpa_ADD[of sp R' cfg rd rd rd] by simp
    ultimately show ?case by (simp only:)
  qed simp
  have "push_bit (n - 1) (R rs + R rs) = push_bit n (R rs)" using assms(4)
    by (cases n) (simp_all add: push_bit_double flip: mult_2_right)
  then show ?thesis using assms rd by (simp add: slli_asm.simps wpas rep dest_ok_def)
qed

lemma wpa_getbyte [wpas]:
  assumes "layout_ok cfg L sp" and "regs_ok sp R" and "dest_ok cfg rd" and "rs < nr_gpr cfg" and "k < 4"
  shows "wpa cfg (getbyte rd rs k @ is) P (mk cfg L sp st R S A) =
    wpa cfg is P (mk cfg L sp st (R(rd := ucast (byte (R rs) k)))
      (S(4 := byte (R rs) 0, 5 := byte (R rs) 1, 6 := byte (R rs) 2, 7 := byte (R rs) 3)) A)"
proof -
  have "k = 0 \<or> k = 1 \<or> k = 2 \<or> k = 3" using assms(5) by linarith
  then show ?thesis using assms by (auto simp: getbyte_def var_defs wpas)
qed

text \<open>The sign bit.\<close>

definition sgn_bit :: "u32 \<Rightarrow> u32" where
  "sgn_bit v = of_bool (sint v < 0)"

lemma sgn_bit_bit: "sgn_bit v = of_bool (bit v 31)"
  using msb_sint[of v] by (simp add: sgn_bit_def)

lemma byte_of_sign: "ucast (byte (push_bit 1 (ucast (byte v 3))) 1) = sgn_bit v"
  unfolding sgn_bit_bit by (rule bit_word_eqI) (auto simp: bit_simps bit_byte simp del: push_bit_Suc dest: bit_imp_le_length)

lemma wpa_msb [wpas]:
  assumes "layout_ok cfg L sp" and "regs_ok sp R" and "dest_ok cfg rd" and "rs < nr_gpr cfg"
  defines "w \<equiv> push_bit 1 (ucast (byte (R rs) 3)) :: u32"
  shows "wpa cfg (msb_asm rd rs @ is) P (mk cfg L sp st R S A) =
    wpa cfg is P (mk cfg L sp st (R(rd := sgn_bit (R rs))) (S(4 := byte w 0, 5 := byte w 1, 6 := byte w 2, 7 := byte w 3)) A)"
proof -
  have "rd < nr_gpr cfg" using assms(3) by (simp add: dest_ok_def)
  then show ?thesis using assms(1-4) byte_of_sign[of "R rs"] by (simp add: msb_asm_def wpas w_def dest_ok_def)
qed

lemma wpa_table_byte:
  assumes "layout_ok cfg L sp" and "tables_ok cfg L st" and "regs_ok sp R" and "dest_ok cfg rd" and "rs < nr_gpr cfg"
    and "(a, bs) \<in> set (table_list L)" and "R rs = a + of_nat k" and "k < length bs"
  shows "wpa cfg (LBU_asm rd 0 rs # is) P (mk cfg L sp st R S A) = wpa cfg is P (mk cfg L sp st (R(rd := ucast (bs ! k))) S A)"
  using wpa_LBU_data[OF assms(3-5), of L 0] table_byte[OF assms(1,2,6,8)] assms(7) by simp

section \<open>Comparisons\<close>

text \<open>The index into the tables of \<open>slt\<close> and \<open>sltu\<close>.\<close>

definition slt_index :: "u32 \<Rightarrow> u32 \<Rightarrow> nat" where
  "slt_index x y = 4 * of_bool (sint x < 0) + 2 * of_bool (sint y < 0) + of_bool (sint (x - y) < 0)"

lemma slt_index_word: "of_nat (slt_index x y) = push_bit 1 (push_bit 1 (sgn_bit x) + sgn_bit y) + sgn_bit (x - y)"
  by (simp add: slt_index_def sgn_bit_def)

lemma wpa_slt_template:
  assumes "layout_ok cfg L sp" and "tables_ok cfg L st" and "regs_ok sp R" and "dest_ok cfg rd" and "rs1 < nr_gpr cfg" and "rs2 < nr_gpr cfg"
    and "(lut, bs) \<in> set (table_list L)" and "length bs = 8"
    and "\<And>g t S'. wpa cfg is P (mk cfg L sp st (R(x_gp := g, x_tp := t, rd := ucast (bs ! slt_index (R rs1) (R rs2)))) S' A)"
  shows "wpa cfg (slt_template L lut rd rs1 rs2 @ is) P (mk cfg L sp st R S A)"
proof -
  let ?k = "slt_index (R rs1) (R rs2)"
  have k: "?k < length bs" using assms(8) by (simp add: slt_index_def)
  have fin: "wpa cfg (LBU_asm rd 0 x_tp # is) P (mk cfg L sp st
      (R(3 := g, 4 := lut + (4 * sgn_bit (R rs1) + sgn_bit (R rs2) * 2 + sgn_bit (R rs1 - R rs2)), 9 := R 9, 8 := R 8)) S' A)" for g S'
  proof -
    let ?R = "R(3 := g, 4 := lut + (4 * sgn_bit (R rs1) + sgn_bit (R rs2) * 2 + sgn_bit (R rs1 - R rs2)), 9 := R 9, 8 := R 8)"
    have "?R x_tp = lut + of_nat ?k" unfolding slt_index_word by (simp add: algebra_simps)
    moreover have "regs_ok sp ?R" using assms(3) by simp
    ultimately have "wpa cfg (LBU_asm rd 0 x_tp # is) P (mk cfg L sp st ?R S' A) =
        wpa cfg is P (mk cfg L sp st (?R(rd := ucast (bs ! ?k))) S' A)"
      using assms(1,2,4,7) k by (intro wpa_table_byte) simp_all
    moreover have "?R(rd := v) = R(3 := g, 4 := ?R x_tp, rd := v)" for v by (auto simp: fun_eq_iff)
    ultimately show ?thesis using assms(9) by simp
  qed
  show ?thesis using assms(1-6) by (simp add: slt_template_def var_defs wpas fin)
qed

lemma uint_u32: "0 \<le> uint (x :: u32)" "uint (x :: u32) < 4294967296"
  using uint_lt2p[of x] by simp_all

lemma sint_via_uint: "sint (x :: u32) = uint x - (if 2147483648 \<le> uint x then 4294967296 else 0)"
proof -
  have "- 2147483648 \<le> sint x" "sint x < 2147483648" using sint_greater_eq[of x] sint_less[of x] by simp_all
  then show ?thesis using sint_uint_msb[of x] msb_sint[of x] by (cases "bit x 31") auto
qed

lemma slt_table_cases:
  "slt1_bytes ! (4 * of_bool p + 2 * of_bool q + of_bool r) = of_bool ((p \<and> \<not> q) \<or> (p = q \<and> r))"
  "sltu1_bytes ! (4 * of_bool p + 2 * of_bool q + of_bool r) = of_bool ((\<not> p \<and> q) \<or> (p = q \<and> r))"
  by (cases p; cases q; cases r; simp add: slt1_bytes_def sltu1_bytes_def)+

lemma slt_arith:
  fixes a b d :: int
  assumes "0 \<le> a" and "a < 4294967296" and "0 \<le> b" and "b < 4294967296" and "d = (if b \<le> a then a - b else a + 4294967296 - b)"
    and "sa = a - (if 2147483648 \<le> a then 4294967296 else 0)" and "sb = b - (if 2147483648 \<le> b then 4294967296 else 0)"
    and "sd = d - (if 2147483648 \<le> d then 4294967296 else 0)"
  shows "sa < 0 \<and> \<not> sb < 0 \<or> (sa < 0) = (sb < 0) \<and> sd < 0 \<longleftrightarrow> sa < sb"
    and "\<not> sa < 0 \<and> sb < 0 \<or> (sa < 0) = (sb < 0) \<and> sd < 0 \<longleftrightarrow> a < b"
proof -
  have s: "sa < 0 \<longleftrightarrow> 2147483648 \<le> a" "sb < 0 \<longleftrightarrow> 2147483648 \<le> b" "sd < 0 \<longleftrightarrow> 2147483648 \<le> d" 
    using assms by (auto split: if_splits)
  have c: "(sd < 0) = (a < b)" if "(sa < 0) = (sb < 0)" using that assms(1-4) unfolding s unfolding assms(5) by auto
  have "sa < sb \<longleftrightarrow> a < b" if "(sa < 0) = (sb < 0)" using that assms(1-4) unfolding s unfolding assms(6,7) by auto
  then show "sa < 0 \<and> \<not> sb < 0 \<or> (sa < 0) = (sb < 0) \<and> sd < 0 \<longleftrightarrow> sa < sb" using c by (cases "(sa < 0) = (sb < 0)") auto
  show "\<not> sa < 0 \<and> sb < 0 \<or> (sa < 0) = (sb < 0) \<and> sd < 0 \<longleftrightarrow> a < b"
    using c s by (cases "(sa < 0) = (sb < 0)") auto
qed

lemma slt_tables:
  "slt1_bytes ! slt_index x y = of_bool (sint x < sint y)"
  "sltu1_bytes ! slt_index x y = of_bool (x < y)"
proof -
  have d: "uint (x - y) = (if uint y \<le> uint x then uint x - uint y else uint x + 4294967296 - uint y)" by (simp add: uint_sub_if')
  note a = slt_arith[OF uint_u32[of x] uint_u32[of y] d sint_via_uint sint_via_uint sint_via_uint]
  show "slt1_bytes ! slt_index x y = of_bool (sint x < sint y)" by (simp only: slt_index_def slt_table_cases a)
  show "sltu1_bytes ! slt_index x y = of_bool (x < y)" by (simp only: slt_index_def slt_table_cases a word_less_def)
qed

lemma regs_x0_val: "regs_ok sp R \<Longrightarrow> R 0 = 0"
  by (simp add: regs_ok_def)

definition ne8 :: "u8 \<Rightarrow> u8 \<Rightarrow> nat" where
  "ne8 a b = of_bool (a \<noteq> b)"

lemma wpa_check_same:
  assumes "layout_ok cfg L sp" and "regs_ok sp R" and "rd = x_gp \<or> rd = x_s1" and "R x_s0 = check_same_array L" and "k < 4"
    and "\<And>A' t. wpa cfg is P (mk cfg L sp st (R(x_tp := t, rd := of_nat (ne8 (S (12 + k)) (S (8 + k))))) S A')"
  shows "wpa cfg (check_8bit_same x_s0 rd k @ is) P (mk cfg L sp st R S A)"
proof -
  let ?a = "S (12 + k)" and ?b = "S (8 + k)" and ?T = "check_same_array L"
  have rd: "dest_ok cfg rd" "rd < nr_gpr cfg" "rd \<noteq> 4" "rd \<noteq> 8" "rd \<noteq> 0" "rd \<noteq> 2" using assms(3) by auto
  have v: "VAR_A = 4" "VAR_B = 5" by (simp_all add: var_defs)
  let ?R2 = "R(x_tp := ?T + ucast ?a, rd := ?T + ucast ?b)"
  let ?A = "A(unat ?a := 1, unat ?b := 0)"
  have 1: "wpa cfg (SB_asm rd 0 x_tp # is') P (mk cfg L sp st (R(x_tp := ?T + ucast ?a, rd := 1)) S A) =
      wpa cfg is' P (mk cfg L sp st (R(x_tp := ?T + ucast ?a, rd := 1)) S (A(unat ?a := 1)))" for is'
    using wpa_SB_array[OF assms(1), of "R(x_tp := ?T + ucast ?a, rd := 1)" rd x_tp ?a is' P st S A] assms(2) rd
    by (simp add: byte_def)
  have 2: "wpa cfg (SB_asm 0 0 rd # is') P (mk cfg L sp st ?R2 S (A(unat ?a := 1))) = wpa cfg is' P (mk cfg L sp st ?R2 S ?A)" for is'
    using wpa_SB_array[OF assms(1), of ?R2 0 rd ?b is' P st S "A(unat ?a := 1)"] assms(2) rd by (simp add: regs_ok_def)
  have e: "ucast (?A (unat ?a)) = (of_nat (ne8 ?a ?b) :: u32)" by (auto simp: ne8_def dest: word_eq_unatI)
  have 3: "wpa cfg (LBU_asm rd 0 x_tp # is') P (mk cfg L sp st ?R2 S ?A) =
      wpa cfg is' P (mk cfg L sp st (R(x_tp := ?T + ucast ?a, rd := of_nat (ne8 ?a ?b))) S ?A)" for is'
    using wpa_LBU_array[OF assms(1), of ?R2 rd x_tp ?a is' P st S ?A] assms(2) rd by (simp only: e) simp
  have "wpa cfg (check_8bit_same x_s0 rd k @ is) P (mk cfg L sp st R S A) =
    wpa cfg is P (mk cfg L sp st (R(x_tp := ?T + ucast ?a, rd := of_nat (ne8 ?a ?b))) S ?A)"
    using assms(1,2,4,5) rd regs_x0_val[OF assms(2)] by (simp add: check_8bit_same_def wpas v 1 2 3)
  then show ?thesis using assms(6) by simp
qed

lemma same_word: "v = w \<longleftrightarrow> byte v 0 = byte w 0 \<and> byte v (Suc 0) = byte w (Suc 0) \<and> byte v 2 = byte w 2 \<and> byte v 3 = byte w 3"
  by (metis word4_bytes)

lemma word_differs:
  "ne8 (byte v 0) (byte w 0) + ne8 (byte v (Suc 0)) (byte w (Suc 0)) + ne8 (byte v 2) (byte w 2) + ne8 (byte v 3) (byte w 3) = 0 \<longleftrightarrow> v = w"
  unfolding same_word[of v w] by (simp add: ne8_def)

definition flag :: "bool \<Rightarrow> u32" where
  "flag b = (if b then 1 else 0)"

text \<open>The end of \<open>seq\<close> and \<open>seqz\<close>: the number of differing bytes is looked up.\<close>

lemma wpa_same_result:
  assumes "layout_ok cfg L sp" and "tables_ok cfg L st" and "regs_ok sp R" and "dest_ok cfg rd" and "R x_tp = same_result_table L + of_nat k" and "k < 8"
  shows "wpa cfg (LBU_asm rd 0 x_tp # is) P (mk cfg L sp st R S A) = wpa cfg is P (mk cfg L sp st (R(rd := flag (k = 0))) S A)"
proof -
  have "same_result_bytes ! k = of_bool (k = 0)" using assms(6) by (cases k) (auto simp: same_result_bytes_def less_Suc_eq numeral_eq_Suc)
  moreover have "length same_result_bytes = 8" by (simp add: same_result_bytes_def)
  ultimately show ?thesis
    using wpa_table_byte[OF assms(1-4), of x_tp "same_result_table L" same_result_bytes k "is" P S A] assms(5,6)
    by (simp add: table_list_def flag_def)
qed

lemma wpa_seq:
  assumes "layout_ok cfg L sp" and "tables_ok cfg L st" and "regs_ok sp R" and "dest_ok cfg rd" and "rd \<noteq> x_s0" and "rd \<noteq> x_s1"
    and "rs1 < nr_gpr cfg" and "rs2 < nr_gpr cfg"
    and "\<And>g t S' A'. wpa cfg is P (mk cfg L sp st (R(x_gp := g, x_tp := t, rd := flag (R rs1 = R rs2))) S' A')"
  shows "wpa cfg (seq_asm L rd rs1 rs2 @ is) P (mk cfg L sp st R S A)"
proof -
  let ?n = "\<lambda>k. ne8 (byte (R rs1) k) (byte (R rs2) k)"
  let ?k = "?n 0 + ?n (Suc 0) + ?n 2 + ?n 3"
  have k: "?k < 8" "?k = 0 \<longleftrightarrow> R rs1 = R rs2" using word_differs[of "R rs1" "R rs2"] by (simp_all add: ne8_def)
  have fin: "wpa cfg (LBU_asm rd 0 x_tp # LW_asm x_s1 (SP_VAR 2) x_sp # LW_asm x_s0 (SP_VAR (Suc 0)) x_sp # is) P
      (mk cfg L sp st (R(x_s0 := a, x_s1 := b, x_gp := g, x_tp := same_result_table L + of_nat ?k)) S' A')"
    if "word4 (S' 20) (S' 21) (S' 22) (S' 23) = R x_s1" "word4 (S' 24) (S' 25) (S' 26) (S' 27) = R x_s0" for a b g S' A'
  proof -
    have "R(x_s0 := a, x_s1 := b, x_gp := g, x_tp := t, rd := v, x_s1 := R x_s1, x_s0 := R x_s0) = R(x_gp := g, x_tp := t, rd := v)" for t v
      using assms(5,6) by (auto simp: fun_eq_iff)
    note eq = this[simplified]
    show ?thesis using assms(1-4,9) k that
      by (simp add: wpas wpa_same_result[where k = ?k] dest_ok_def eq)
  qed
  show ?thesis using assms(1-8)
    apply (simp add: seq_asm_def var_defs wpas)
    apply (rule wpa_check_same, simp, simp, simp, simp, simp)
    apply (rule wpa_check_same, simp, simp, simp, simp, simp)
    apply (simp add: wpas)
    apply (rule wpa_check_same, simp, simp, simp, simp, simp)
    apply (simp add: wpas)
    apply (rule wpa_check_same, simp, simp, simp, simp, simp)
    apply (simp add: wpas fin flip: of_nat_add)
    done
qed

lemma wpa_check_8bit_0 [wpas]:
  assumes "layout_ok cfg L sp" and "tables_ok cfg L st" and "regs_ok sp R" and "dest_ok cfg rd" and "R x_s0 = check_8bit_0_table L" and "rd \<noteq> x_s0" and "k < 4"
  shows "wpa cfg (check_8bit_0 x_s0 rd k @ is) P (mk cfg L sp st R S A) =
    wpa cfg is P (mk cfg L sp st (R(rd := of_nat (ne8 (S (12 + k)) 0))) S A)"
proof -
  let ?b = "S (12 + k)"
  have v: "rd < nr_gpr cfg" using assms(4) by (simp add: dest_ok_def)
  have b: "unat ?b < 256" using unat_lt_power[of ?b] by simp
  have len: "length check_8bit_0_bytes = 256" by (simp add: check_8bit_0_bytes_def)
  have "check_8bit_0_bytes ! unat ?b = of_bool (?b \<noteq> 0)"
  proof (cases "unat ?b")
    case (Suc n)
    then have "?b \<noteq> 0" "n < 255" using b by auto
    then show ?thesis using Suc by (simp add: check_8bit_0_bytes_def)
  qed (simp add: check_8bit_0_bytes_def unat_eq_zero)
  then have c: "ucast (check_8bit_0_bytes ! unat ?b) = (of_nat (ne8 ?b 0) :: u32)" by (simp add: ne8_def)
  have "wpa cfg (LBU_asm rd 0 rd # is) P (mk cfg L sp st (R(rd := check_8bit_0_table L + ucast ?b)) S A) =
      wpa cfg is P (mk cfg L sp st (R(rd := of_nat (ne8 ?b 0))) S A)"
    using wpa_table_byte[OF assms(1,2), of "R(rd := check_8bit_0_table L + ucast ?b)" rd rd "check_8bit_0_table L" check_8bit_0_bytes "unat ?b" "is" P S A]
      assms(3,4) b v
    by (simp add: c len table_list_def dest_ok_def)
  then show ?thesis using assms v by (simp add: check_8bit_0_def var_defs wpas dest_ok_def)
qed

text \<open>The saved \<open>s0\<close> is restored after the result has been written.\<close>

lemma wpa_seqz:
  assumes "layout_ok cfg L sp" and "tables_ok cfg L st" and "regs_ok sp R" and "dest_ok cfg rd" and "rs < nr_gpr cfg"
    and "\<And>g t S'. wpa cfg is P (mk cfg L sp st (R(x_gp := g, x_tp := t, rd := flag (R rs = 0), x_s0 := R x_s0)) S' A)"
  shows "wpa cfg (seqz_asm L rd rs @ is) P (mk cfg L sp st R S A)"
proof -
  let ?n = "\<lambda>k. ne8 (byte (R rs) k) 0"
  let ?k = "?n 0 + ?n (Suc 0) + ?n 2 + ?n 3"
  have k: "?k < 8" "?k = 0 \<longleftrightarrow> R rs = 0" using word_differs[of "R rs" 0] by (simp_all add: ne8_def)
  have fin: "wpa cfg (LBU_asm rd 0 x_tp # LW_asm x_s0 (SP_VAR (Suc 0)) x_sp # is) P
      (mk cfg L sp st (R(x_s0 := a, x_gp := g, x_tp := same_result_table L + of_nat ?k)) S' A)"
    if "word4 (S' 24) (S' 25) (S' 26) (S' 27) = R x_s0" for a g S'
  proof -
    have "R(x_s0 := a, x_gp := g, x_tp := t, rd := v, x_s0 := R x_s0) = R(x_gp := g, x_tp := t, rd := v, x_s0 := R x_s0)" for t v
      by (auto simp: fun_eq_iff)
    note eq = this[simplified]
    show ?thesis using assms(1-4,6) k that
      by (simp add: wpas wpa_same_result[where k = ?k] dest_ok_def eq)
  qed
  show ?thesis using assms(1-5)
    by (simp add: seqz_asm_def var_defs wpas fin flip: of_nat_add)
qed

section \<open>Logic\<close>

text \<open>One byte, with the table \<open>lut\<close> in \<open>rd\<close>, whose entry for \<open>a\<close> and \<open>b\<close> is \<open>f a b\<close>.\<close>

lemma wpa_logic8:
  assumes "layout_ok cfg L sp" and "regs_ok sp R" and "R rd = lut" and "rd < nr_gpr cfg" and "rd \<noteq> x_tp" and "k < 4"
    and "S 2 = 0" and "S 3 = 0"
    and lut: "\<And>R a b is P S. regs_ok sp R \<Longrightarrow> R x_tp = lut + word4 b a 0 0 \<Longrightarrow>
      wpa cfg (LBU_asm x_tp 0 x_tp # is) P (mk cfg L sp st R S A) = wpa cfg is P (mk cfg L sp st (R(x_tp := ucast (f a b :: u8))) S A)"
  shows "wpa cfg (logic8_byte_internal rd k @ is) P (mk cfg L sp st R S A) =
    wpa cfg is P (mk cfg L sp st (R(x_tp := ucast (f (S (12 + k)) (S (8 + k))))) (S(1 := S (12 + k), 0 := S (8 + k), 4 + k := f (S (12 + k)) (S (8 + k)))) A)"
proof -
  let ?a = "S (12 + k)" and ?b = "S (8 + k)"
  have k: "k = 0 \<or> k = 1 \<or> k = 2 \<or> k = 3" using assms(6) by linarith
  have 1: "wpa cfg (LBU_asm x_tp 0 x_tp # is') P (mk cfg L sp st (R(x_tp := lut + word4 ?b ?a 0 0)) S' A) =
      wpa cfg is' P (mk cfg L sp st (R(x_tp := ucast (f ?a ?b))) S' A)" for is' S'
    using lut[of "R(x_tp := lut + word4 ?b ?a 0 0)" ?b ?a is' P S'] assms(2) by simp
  show ?thesis using assms(1-8) k 1
    by (auto simp: logic8_byte_internal_def var_defs wpas)
qed

lemma wpa_logic:
  assumes "layout_ok cfg L sp" and "regs_ok sp R" and "dest_ok cfg rd" and "rs1 < nr_gpr cfg" and "rs2 < nr_gpr cfg"
    and "logic_asm lut rd rs1 rs2 = Inr ls"
    and lut: "\<And>R a b is P S. regs_ok sp R \<Longrightarrow> R x_tp = lut + word4 b a 0 0 \<Longrightarrow>
      wpa cfg (LBU_asm x_tp 0 x_tp # is) P (mk cfg L sp st R S A) = wpa cfg is P (mk cfg L sp st (R(x_tp := ucast (f a b :: u8))) S A)"
    and "\<And>x y. word4 (f (byte x 0) (byte y 0)) (f (byte x (Suc 0)) (byte y (Suc 0))) (f (byte x 2) (byte y 2)) (f (byte x 3) (byte y 3)) = g x y"
    and "\<And>t S'. wpa cfg is P (mk cfg L sp st (R(x_tp := t, rd := g (R rs1) (R rs2))) S' A)"
  shows "wpa cfg (ls @ is) P (mk cfg L sp st R S A)"
proof -
  have rd: "rd \<noteq> 0" "rd \<noteq> 2" "rd \<noteq> 3" "rd \<noteq> 4" "rs1 \<noteq> 4" "rd < nr_gpr cfg" using assms(3,6) by (auto simp: dest_ok_def logic_asm_def split: if_splits)
  have ls: "ls = [SW_asm rs1 (SP_VAR VAR_A) x_sp, SW_asm rs2 (SP_VAR VAR_B) x_sp] @ la_asm rd lut @ [SW_asm 0 (SP_VAR VAR_D) x_sp] @
        logic8_byte_internal rd 3 @ logic8_byte_internal rd 2 @ logic8_byte_internal rd 1 @ logic8_byte_internal rd 0 @
        [LW_asm rd (SP_VAR VAR_C) x_sp]"
    using assms(6) rd(1) by (auto simp: logic_asm_def split: if_splits)
  have comm: "R(rd := v, x_tp := t, rd := w) = R(x_tp := t, rd := w)" for v t w using rd by (auto simp: fun_eq_iff)
  show ?thesis using assms(1-5,8,9) rd regs_x0_val[OF assms(2)]
    by (simp add: ls var_defs wpas wpa_logic8[OF _ _ _ _ _ _ _ _ lut] comm)
qed

lemma word4_logic:
  "word4 (byte x 0 AND byte y 0) (byte x (Suc 0) AND byte y (Suc 0)) (byte x 2 AND byte y 2) (byte x 3 AND byte y 3) = x AND y"
  "word4 (byte x 0 OR byte y 0) (byte x (Suc 0) OR byte y (Suc 0)) (byte x 2 OR byte y 2) (byte x 3 OR byte y 3) = x OR y"
  "word4 (byte x 0 XOR byte y 0) (byte x (Suc 0) XOR byte y (Suc 0)) (byte x 2 XOR byte y 2) (byte x 3 XOR byte y 3) = x XOR y"
  by (rule bit_word_eqI, auto simp: bit_word4 bit_byte bit_simps)+

section \<open>Shifts\<close>

lemma lut_shift_nth:
  assumes "n < 32" and "k < 4"
  shows "lut_bin ! (196608 + (1024 * n + 4 * unat (b :: u8)) + k) = byte (push_bit n (ucast b)) k"
    and "lut_bin ! (229376 + (1024 * n + 4 * unat b) + k) = byte (drop_bit n (push_bit 24 (ucast b))) k"
    and "lut_bin ! (262144 + (1024 * n + 4 * unat b) + k) = byte (signed_drop_bit n (push_bit 24 (ucast b))) k"
proof -
  define G1 G2 G3 where G: "G1 = gen_table 256 256 1 (\<lambda>j i. of_nat j AND of_nat i)" "G2 = gen_table 256 256 1 (\<lambda>j i. of_nat j OR of_nat i)"
    "G3 = gen_table 256 256 1 (\<lambda>j i. of_nat j XOR of_nat i)"
  define T1 T2 T3 where T: "T1 = gen_table 32 256 4 (\<lambda>j i. push_bit j (of_nat i))"
    "T2 = gen_table 32 256 4 (\<lambda>j i. drop_bit j (push_bit 24 (of_nat i)))"
    "T3 = gen_table 32 256 4 (\<lambda>j i. signed_drop_bit j (push_bit 24 (of_nat i)))"
  have l: "lut_bin = (G1 @ G2 @ G3) @ T1 @ (T2 @ T3)" "lut_bin = (G1 @ G2 @ G3 @ T1) @ T2 @ T3"  "lut_bin = (G1 @ G2 @ G3 @ T1 @ T2) @ T3 @ []"
    by (simp_all add: lut_bin_def G T)
  have b: "unat b < 256" using unat_lt_power[of b] by simp
  have lt: "1024 * n + 4 * unat b + k < 32768" using assms b by linarith
  have len: "length (G1 @ G2 @ G3) = 196608" "length (G1 @ G2 @ G3 @ T1) = 229376" "length (G1 @ G2 @ G3 @ T1 @ T2) = 262144"
    "length T1 = 32768" "length T2 = 32768" "length T3 = 32768" by (simp_all add: G T)
  have ex: "gen_table 32 256 4 ex ! (1024 * n + 4 * unat b + k) = byte (ex n (unat b)) k" for ex
    using gen_table_nth[of n 32 "unat b" 256 k 4 ex] assms b by (simp add: byte_def algebra_simps)
  note at = lut_skip[where xs = "G1 @ G2 @ G3" and ys = T1 and zs = "T2 @ T3" and k = "1024 * n + 4 * unat b + k"]
    lut_skip[where xs = "G1 @ G2 @ G3 @ T1" and ys = T2 and zs = T3 and k = "1024 * n + 4 * unat b + k"]
    lut_skip[where xs = "G1 @ G2 @ G3 @ T1 @ T2" and ys = T3 and zs = "[]" and k = "1024 * n + 4 * unat b + k"]
  show "lut_bin ! (196608 + (1024 * n + 4 * unat b) + k) = byte (push_bit n (ucast b)) k"
    using at(1) lt unfolding l(1)[symmetric] len by (simp add: T ex[unfolded add.assoc] add.assoc)
  show "lut_bin ! (229376 + (1024 * n + 4 * unat b) + k) = byte (drop_bit n (push_bit 24 (ucast b))) k"
    using at(2) lt unfolding l(2)[symmetric] len by (simp add: T ex[unfolded add.assoc] add.assoc)
  show "lut_bin ! (262144 + (1024 * n + 4 * unat b) + k) = byte (signed_drop_bit n (push_bit 24 (ucast b))) k"
    using at(3) lt unfolding l(3)[symmetric] len by (simp add: T ex[unfolded add.assoc] add.assoc)
qed

lemma wpa_table_word:
  assumes "layout_ok cfg L sp" and "tables_ok cfg L st" and "regs_ok sp R" and "dest_ok cfg rd" and "rs < nr_gpr cfg"
    and "R rs = logic_shift_table L + of_nat m" and "m + 4 \<le> 294912" and "\<And>k. k < 4 \<Longrightarrow> lut_bin ! (m + k) = byte v k"
  shows "wpa cfg (LW_asm rd 0 rs # is) P (mk cfg L sp st R S A) = wpa cfg is P (mk cfg L sp st (R(rd := v)) S A)"
proof -
  have ap: "apart cfg L sp (logic_shift_table L + of_nat m) 4"
    by (rule table_at(1)[OF assms(1,2) lut_in_list]) (use assms(7) in \<open>simp_all add: length_lut\<close>)
  have "pmem (memory st) (guest_to_host cfg (logic_shift_table L + of_nat m) + k) = byte v k" if "k < 4" for k
    using table_at(2)[OF assms(1,2) lut_in_list, of m 4 k] assms(7,8) that by (simp add: length_lut)
  from this[of 0] this[of "Suc 0"] this[of 2] this[of 3] show ?thesis
    using wpa_LW_data[OF assms(3-5), of L 0] ap by (simp add: assms(6) Let_def)
qed

definition shift_tables :: "syms \<Rightarrow> nat \<Rightarrow> u32 \<Rightarrow> (u8 \<Rightarrow> u32) \<Rightarrow> bool" where
  "shift_tables L n lut f \<longleftrightarrow> n < 32 \<and>
  (lut = sll8_table L \<and> f = (\<lambda>b. push_bit n (ucast b)) \<or>
   lut = srl8_table L \<and> f = (\<lambda>b. drop_bit n (push_bit 24 (ucast b))) \<or>
   lut = sra8_table L \<and> f = (\<lambda>b. signed_drop_bit n (push_bit 24 (ucast b) :: u32)))"

lemma wpa_shift_byte:
  assumes "layout_ok cfg L sp" and "tables_ok cfg L st" and "regs_ok sp R" and "shift_tables L n lut f" and "R x_s0 = lut + of_nat (1024 * n)" and "k < 4"
  shows "wpa cfg (get_shift_byte_in_tp x_s0 k @ is) P (mk cfg L sp st R S A) =
    wpa cfg is P (mk cfg L sp st (R(x_tp := f (S (12 + k)))) S A)"
proof -
  let ?b = "S (12 + k)"
  let ?R = "R(x_tp := lut + of_nat (1024 * n) + 4 * ucast ?b)"
  have b: "unat ?b < 256" using unat_lt_power[of ?b] by simp
  have n: "n < 32" using assms(4) by (simp add: shift_tables_def)
  have "\<exists>base. (\<forall>k < 4. lut_bin ! (base + (1024 * n + 4 * unat ?b) + k) = byte (f ?b) k) \<and> base \<le> 262144 \<and> lut = logic_shift_table L + of_nat base"
    using assms(4) n unfolding shift_tables_def
    by (elim conjE disjE)
       (intro exI[of _ 196608] exI[of _ 229376] exI[of _ 262144],
        simp add: lut_shift_nth sll8_table_def srl8_table_def sra8_table_def xor8_table_def or8_table_def and8_table_def)+
  then obtain base where base: "\<And>k. k < 4 \<Longrightarrow> lut_bin ! (base + (1024 * n + 4 * unat ?b) + k) = byte (f ?b) k" "base \<le> 262144"
      "lut = logic_shift_table L + of_nat base" by blast
  have "?R x_tp = logic_shift_table L + of_nat (base + (1024 * n + 4 * unat ?b))" by (simp add: base(3) algebra_simps)
  moreover have "base + (1024 * n + 4 * unat ?b) + 4 \<le> 294912" using b n base(2) by linarith
  ultimately have "wpa cfg (LW_asm x_tp 0 x_tp # is) P (mk cfg L sp st ?R S A) = wpa cfg is P (mk cfg L sp st (?R(x_tp := f ?b)) S A)"
    using assms(1-3) base(1) by (intro wpa_table_word) simp_all
  then show ?thesis using assms(1-3,5,6) by (simp add: get_shift_byte_in_tp_def var_defs wpas push_bit_eq_mult mult.commute)
qed

lemma SP_VAR_BYTE_Suc [simp]: "1 + SP_VAR_BYTE n k = SP_VAR_BYTE n (Suc k)"
  by (simp add: SP_VAR_BYTE_def)

lemma wpa_getshamt:
  assumes "layout_ok cfg L sp" and "tables_ok cfg L st" and "regs_ok sp R" and "rs < nr_gpr cfg"
  shows "wpa cfg (getshamt L x_s0 rs @ is) P (mk cfg L sp st R S A) =
    wpa cfg is P (mk cfg L sp st (R(x_tp := and8_table L + 0x1f00, x_s0 := ucast (0x1f AND byte (R rs) 0))) (S(8 := byte (R rs) 0)) A)"
proof -
  let ?b = "byte (R rs) 0"
  let ?R = "R(x_tp := and8_table L + 0x1f00, x_s0 := ucast ?b + (and8_table L + 0x1f00))"
  have r: "?R x_s0 = and8_table L + word4 ?b 0x1f 0 0" by (simp add: word4_row)
  have "wpa cfg (LBU_asm x_s0 0 x_s0 # is) P (mk cfg L sp st ?R (S(8 := ?b)) A) =
      wpa cfg is P (mk cfg L sp st (?R(x_s0 := ucast (0x1f AND ?b))) (S(8 := ?b)) A)"
    by (rule wpa_LBU_logic(1)[OF assms(1,2), of ?R x_s0 x_s0 ?b "0x1f", OF _ _ _ r]) (simp_all add: assms(3))
  then show ?thesis using assms by (simp add: getshamt_def var_defs wpas)
qed

text \<open>The row of the table for the shift amount.\<close>

lemma wpa_shift_row [wpas]:
  assumes "layout_ok cfg L sp" and "tables_ok cfg L st" and "regs_ok sp R" and "rs < nr_gpr cfg"
  shows "wpa cfg (getshamt L x_s0 rs @ SW_asm 0 (SP_VAR 5) x_sp # SB_asm x_s0 (SP_VAR_BYTE 5 (Suc 0)) x_sp # LW_asm x_s0 (SP_VAR 5) x_sp #
      slli_asm x_s0 x_s0 2 @ la_asm x_tp lut @ ADD_asm x_s0 x_s0 x_tp # is) P (mk cfg L sp st R S A) =
    wpa cfg is P (mk cfg L sp st (R(x_tp := lut, x_s0 := lut + of_nat (1024 * unat (R rs AND 0x1f))))
      (S(8 := 0, 10 := 0, 11 := 0, 9 := 0x1f AND byte (R rs) 0)) A)"
proof -
  let ?x = "0x1f AND byte (R rs) 0"
  have "unat ?x = unat (R rs AND 0x1f)"
  proof -
    have "(ucast ?x :: u32) = R rs AND 0x1f"
    proof (rule bit_word_eqI)
      fix n
      have "bit (0x1f :: u8) n \<longleftrightarrow> n < 5" "bit (0x1f :: u32) n \<longleftrightarrow> n < 5"
        using bit_mask_iff[of 5 n, where ?'a = "8 word"] bit_mask_iff[of 5 n, where ?'a = "32 word"] by (auto simp: mask_eq_exp_minus_1)
      then show "bit (ucast ?x :: u32) n = bit (R rs AND 0x1f) n" by (auto simp: bit_simps bit_byte)
    qed
    moreover have "unat (ucast ?x :: u32) = unat ?x"
      using unat_lt_power[of ?x] by (simp add: unsigned_ucast_eq take_bit_eq_mod)
    ultimately show ?thesis by (simp only:)
  qed
  moreover have "word4 0 ?x 0 0 = of_nat (256 * unat ?x)" by (simp add: word4_nat)
  ultimately have w: "word4 0 ?x 0 0 = of_nat (256 * unat (R rs AND 0x1f))" by (simp only:)
  show ?thesis using assms regs_x0_val[OF assms(3)]
    by (simp add: wpas wpa_getshamt w push_bit_eq_mult) (simp add: algebra_simps)
qed

lemma shamt_32: "unat ((x :: u32) AND 0x1f) < 32"
proof -
  have "x AND 0x1f = take_bit 5 x" by (simp add: take_bit_eq_mask mask_eq_exp_minus_1)
  then show ?thesis by (simp add: unat_take_bit)
qed

lemma word4_parts:
  "word4 0 0 0 (byte v 0) = push_bit 24 v" "word4 0 0 (byte v 0) (byte v (Suc 0)) = push_bit 16 v" "word4 0 b 0 0 = push_bit 8 (ucast b)"
  by (rule bit_word_eqI, auto simp: bit_word4 bit_byte bit_simps dest: bit_imp_le_length)+

lemma word_sum_bytes:
  "push_bit 24 (ucast (byte x 3)) + push_bit 16 (ucast (byte x 2)) + push_bit 8 (ucast (byte x (Suc 0))) + ucast (byte x 0) = x"
proof -
  have "x = word4 (byte x 0) (byte x (Suc 0)) (byte x 2) (byte x 3)" by simp
  also have "\<dots> = ((push_bit 24 (ucast (byte x 3)) OR push_bit 16 (ucast (byte x 2))) OR push_bit 8 (ucast (byte x (Suc 0)))) OR ucast (byte x 0)"
    unfolding word4_def by (rule bit_word_eqI) (auto simp: bit_simps)
  also have "\<dots> = push_bit 24 (ucast (byte x 3)) + push_bit 16 (ucast (byte x 2)) + push_bit 8 (ucast (byte x (Suc 0))) + ucast (byte x 0)"
    by (subst disjunctive_add[symmetric], auto simp: bit_simps bit_byte)+
  finally show ?thesis by simp
qed

lemma sll_sum:
  fixes x :: u32 and n :: nat
  defines "y \<equiv> \<lambda>k. push_bit n (ucast (byte x k)) :: u32"
  shows "push_bit 24 (y 3) + push_bit 16 (y 2) + push_bit 8 (y (Suc 0)) + y 0 = push_bit n x"
proof -
  have "push_bit n x = push_bit n (push_bit 24 (ucast (byte x 3)) + push_bit 16 (ucast (byte x 2)) + push_bit 8 (ucast (byte x (Suc 0))) + ucast (byte x 0))"
    by (simp only: word_sum_bytes)
  then show ?thesis by (simp add: y_def push_bit_eq_mult algebra_simps)
qed

lemma sll_bytes:
  "word4 0 0 0 (byte (push_bit n (ucast (byte x 3))) 0) +
   word4 0 0 (byte (push_bit n (ucast (byte x 2))) 0) (byte (push_bit n (ucast (byte x 2))) (Suc 0)) +
   push_bit (8 + n) (ucast (byte x (Suc 0))) + push_bit n (ucast (byte x 0)) = push_bit n x"
  using sll_sum[of n x] by (simp add: word4_parts)

lemma wpa_sll:
  assumes "layout_ok cfg L sp" and "tables_ok cfg L st" and "regs_ok sp R" and "dest_ok cfg rd" and "rs1 < nr_gpr cfg" and "rs2 < nr_gpr cfg"
    and "\<And>g t S'. wpa cfg is P (mk cfg L sp st (R(x_gp := g, x_tp := t, rd := push_bit (unat (R rs2 AND 0x1f)) (R rs1))) S' A)"
  shows "wpa cfg (sll_asm L rd rs1 rs2 @ is) P (mk cfg L sp st R S A)"
proof -
  let ?n = "unat (R rs2 AND 0x1f)"
  have t: "shift_tables L ?n (sll8_table L) (\<lambda>b. push_bit ?n (ucast b))" using shamt_32 by (simp add: shift_tables_def)
  note sb = wpa_shift_byte[OF _ _ _ t]
  have eq: "R(x_gp := g, x_tp := t, x_s0 := R x_s0, rd := v) = R(x_gp := g, x_tp := t, rd := v)" for g t v by (auto simp: fun_eq_iff)
  show ?thesis using assms(1-6) regs_x0_val[OF assms(3)]
    by (simp add: sll_asm_def var_defs wpas sb sh_asm_def sll_bytes eq assms(7) del: of_nat_mult)
qed

text \<open>The bytes fetched for a right shift do not overlap.\<close>

lemma shr_bits:
  fixes x :: u32 and n :: nat
  defines "y \<equiv> \<lambda>k. drop_bit n (push_bit 24 (ucast (byte x k))) :: u32"
  defines "s \<equiv> ucast (byte (y 2) (Suc 0)) + ucast (byte (y (Suc 0)) 2) + ucast (byte (y 0) 3) :: u32"
  shows "word4 (byte s 0) (byte (ucast (byte (y 2) 2) + ucast (byte (y (Suc 0)) 3)) 0) (byte (y 2) 3) (byte s 3) = drop_bit n (take_bit 24 x)"
proof -
  have y: "bit (y k) j \<longleftrightarrow> 24 \<le> n + j \<and> n + j < 32 \<and> bit x (8 * k + (n + j - 24))" for k j
    unfolding y_def by (auto simp: bit_simps bit_byte)
  have b: "bit (byte (y k) m) i \<longleftrightarrow> i < 8 \<and> 24 \<le> n + i + 8 * m \<and> n + i + 8 * m < 32 \<and> bit x (n + i + 8 * (k + m) - 24)" for k m i
  proof -
    have "8 * k + (n + (8 * m + i) - 24) = n + i + 8 * (k + m) - 24" if "24 \<le> n + i + 8 * m" using that by simp
    then show ?thesis by (auto simp: bit_byte y algebra_simps)
  qed
  have b1: "bit (byte (y 2) (Suc 0)) i \<longleftrightarrow> i < 8 \<and> 16 \<le> n + i \<and> n + i < 24 \<and> bit x (n + i)"
    and b2: "bit (byte (y (Suc 0)) 2) i \<longleftrightarrow> i < 8 \<and> 8 \<le> n + i \<and> n + i < 16 \<and> bit x (n + i)"
    and b3: "bit (byte (y 0) 3) i \<longleftrightarrow> i < 8 \<and> n + i < 8 \<and> bit x (n + i)"
    and c1: "bit (byte (y 2) 2) i \<longleftrightarrow> i < 8 \<and> 8 \<le> n + i \<and> n + i < 16 \<and> bit x (8 + (n + i))"
    and c2: "bit (byte (y (Suc 0)) 3) i \<longleftrightarrow> i < 8 \<and> n + i < 8 \<and> bit x (8 + (n + i))"
    and d: "bit (byte (y 2) 3) i \<longleftrightarrow> i < 8 \<and> n + i < 8 \<and> bit x (16 + (n + i))" for i
    using b[of 2 1 i] b[of 1 2 i] b[of 0 3 i] b[of 2 2 i] b[of 1 3 i] b[of 2 3 i] by simp_all
  have s1: "ucast (byte (y 2) (Suc 0)) + ucast (byte (y (Suc 0)) 2) = (ucast (byte (y 2) (Suc 0)) OR ucast (byte (y (Suc 0)) 2) :: u32)"
    by (rule disjunctive_add) (auto simp: bit_simps b1 b2)
  have s2: "s = (ucast (byte (y 2) (Suc 0)) OR ucast (byte (y (Suc 0)) 2)) OR ucast (byte (y 0) 3)"
    unfolding s_def s1 by (rule disjunctive_add) (auto simp: bit_simps b1 b2 b3)
  have s: "bit s j \<longleftrightarrow> j < 8 \<and> n + j < 24 \<and> bit x (n + j)" for j
    unfolding s2 by (auto simp: bit_simps b1 b2 b3)
  have m: "ucast (byte (y 2) 2) + ucast (byte (y (Suc 0)) 3) = (ucast (byte (y 2) 2) OR ucast (byte (y (Suc 0)) 3) :: u32)"
    by (rule disjunctive_add) (auto simp: bit_simps c1 c2)
  have mb: "bit (byte (ucast (byte (y 2) 2) + ucast (byte (y (Suc 0)) 3)) 0) j \<longleftrightarrow> j < 8 \<and> n + j < 16 \<and> bit x (8 + (n + j))" for j
    unfolding m by (auto simp: bit_byte[of _ 0] bit_simps c1 c2)
  have sb: "bit (byte s 0) j \<longleftrightarrow> j < 8 \<and> n + j < 24 \<and> bit x (n + j)" "\<not> bit (byte s 3) j" for j
    by (auto simp: bit_byte[of s] s)
  show ?thesis
  proof (rule bit_word_eqI)
    fix j
    have "8 + (n + (j - 8)) = n + j" if "8 \<le> j" using that by simp
    moreover have "16 + (n + (j - 16)) = n + j" if "16 \<le> j" using that by simp
    ultimately show "bit (word4 (byte s 0) (byte (ucast (byte (y 2) 2) + ucast (byte (y (Suc 0)) 3)) 0) (byte (y 2) 3) (byte s 3)) j =
        bit (drop_bit n (take_bit 24 x)) j"
      by (auto simp: bit_word4 sb mb d bit_simps)
  qed
qed

definition shr_lines :: "syms \<Rightarrow> nat \<Rightarrow> bool \<Rightarrow> asm list" where
  "shr_lines L rd is_arith =
        get_shift_byte_in_tp x_s0 2 @ [SW_asm x_tp (SP_VAR VAR_B) x_sp] @
        get_shift_byte_in_tp x_s0 1 @ [SW_asm x_tp (SP_VAR VAR_C) x_sp] @
        get_shift_byte_in_tp x_s0 0 @ [SW_asm x_tp (SP_VAR VAR_D) x_sp] @
        [LBU_asm x_gp (SP_VAR_BYTE VAR_B 1) x_sp, LBU_asm x_tp (SP_VAR_BYTE VAR_C 2) x_sp, ADD_asm x_gp x_gp x_tp,
         LBU_asm x_tp (SP_VAR_BYTE VAR_D 3) x_sp, ADD_asm x_gp x_gp x_tp, SW_asm x_gp (SP_VAR VAR_D) x_sp] @
        [LBU_asm x_gp (SP_VAR_BYTE VAR_B 2) x_sp, LBU_asm x_tp (SP_VAR_BYTE VAR_C 3) x_sp, ADD_asm x_gp x_gp x_tp,
         SB_asm x_gp (SP_VAR_BYTE VAR_D 1) x_sp] @
        [LBU_asm x_gp (SP_VAR_BYTE VAR_B 3) x_sp, SB_asm x_gp (SP_VAR_BYTE VAR_D 2) x_sp] @
        [LW_asm x_gp (SP_VAR VAR_D) x_sp] @
        (if is_arith then la_asm x_tp (sra8_table L - srl8_table L) @ [ADD_asm x_s0 x_s0 x_tp] else []) @
        get_shift_byte_in_tp x_s0 3 @
        [POP_asm x_s0 1, ADD_asm rd x_gp x_tp]"

definition shr_value :: "bool \<Rightarrow> nat \<Rightarrow> u32 \<Rightarrow> u32" where
  "shr_value is_arith n x = (if is_arith then signed_drop_bit n x else drop_bit n x)"

lemma shr_top:
  "drop_bit n (take_bit 24 x) + drop_bit n (push_bit 24 (ucast (byte x 3))) = drop_bit n x"
  "drop_bit n (take_bit 24 x) + signed_drop_bit n (push_bit 24 (ucast (byte x 3))) = signed_drop_bit n x"
proof -
  have t: "bit (push_bit 24 (ucast (byte x 3)) :: u32) j \<longleftrightarrow> 24 \<le> j \<and> j < 32 \<and> bit x j" for j
    by (auto simp: bit_simps bit_byte)
  have "drop_bit n (take_bit 24 x) + drop_bit n (push_bit 24 (ucast (byte x 3))) =
      drop_bit n (take_bit 24 x) OR drop_bit n (push_bit 24 (ucast (byte x 3)))"
    by (rule disjunctive_add) (auto simp: bit_drop_bit_eq t bit_take_bit_iff)
  also have "\<dots> = drop_bit n x"
    by (rule bit_word_eqI) (auto simp: bit_or_iff bit_drop_bit_eq t bit_take_bit_iff dest: bit_imp_le_length)
  finally show "drop_bit n (take_bit 24 x) + drop_bit n (push_bit 24 (ucast (byte x 3))) = drop_bit n x" .
  have "drop_bit n (take_bit 24 x) + signed_drop_bit n (push_bit 24 (ucast (byte x 3))) =
      drop_bit n (take_bit 24 x) OR signed_drop_bit n (push_bit 24 (ucast (byte x 3)))"
    by (rule disjunctive_add) (auto simp: bit_drop_bit_eq bit_signed_drop_bit_iff t bit_take_bit_iff)
  also have "\<dots> = signed_drop_bit n x"
    by (rule bit_word_eqI) (auto simp: bit_or_iff bit_drop_bit_eq bit_signed_drop_bit_iff t bit_take_bit_iff dest: bit_imp_le_length)
  finally show "drop_bit n (take_bit 24 x) + signed_drop_bit n (push_bit 24 (ucast (byte x 3))) = signed_drop_bit n x" .
qed

lemma wpa_shr_lines:
  assumes "layout_ok cfg L sp" and "tables_ok cfg L st" and "regs_ok sp R" and "dest_ok cfg rd" and "n < 32"
    and "R x_s0 = srl8_table L + of_nat (1024 * n)"
    and "S 12 = byte x 0" and "S 13 = byte x (Suc 0)" and "S 14 = byte x 2" and "S 15 = byte x 3"
    and "S 24 = byte v 0" and "S 25 = byte v (Suc 0)" and "S 26 = byte v 2" and "S 27 = byte v 3"
    and "\<And>g t S'. wpa cfg is P (mk cfg L sp st (R(x_gp := g, x_tp := t, x_s0 := v, rd := shr_value ar n x)) S' A)"
  shows "wpa cfg (shr_lines L rd ar @ is) P (mk cfg L sp st R S A)"
proof -
  have t: "shift_tables L n (srl8_table L) (\<lambda>b. drop_bit n (push_bit 24 (ucast b)))"
    "shift_tables L n (sra8_table L) (\<lambda>b. signed_drop_bit n (push_bit 24 (ucast b)))"
    using assms(5) by (simp_all add: shift_tables_def)
  note sb = wpa_shift_byte[OF _ _ _ t(1)]  wpa_shift_byte[OF _ _ _ t(2)]
  show ?thesis using assms(1-4,6-14) regs_x0_val[OF assms(3)]
  proof (cases ar)
    case True
    then have "wpa cfg is P (mk cfg L sp st (R(x_gp := g, x_tp := t, x_s0 := v, rd := signed_drop_bit n x)) S' A)" for g t S'
      using assms(15) by (simp add: shr_value_def)
    then show ?thesis using assms(1-4,6-14) regs_x0_val[OF assms(3)] True
      by (simp add: shr_lines_def var_defs wpas sb shr_bits shr_top del: of_nat_mult)
  next
    case False
    then have "wpa cfg is P (mk cfg L sp st (R(x_gp := g, x_tp := t, x_s0 := v, rd := drop_bit n x)) S' A)" for g t S'
      using assms(15) by (simp add: shr_value_def)
    then show ?thesis using assms(1-4,6-14) regs_x0_val[OF assms(3)] False
      by (simp add: shr_lines_def var_defs wpas sb shr_bits shr_top del: of_nat_mult)
  qed
qed

lemma wpa_shift_reg:
  assumes "layout_ok cfg L sp" and "tables_ok cfg L st" and "regs_ok sp R" and "dest_ok cfg rd" and "rs1 < nr_gpr cfg" and "rs2 < nr_gpr cfg"
    and "\<And>g t S'. wpa cfg is P (mk cfg L sp st (R(x_gp := g, x_tp := t, rd := shr_value ar (unat (R rs2 AND 0x1f)) (R rs1))) S' A)"
  shows "wpa cfg (shift_right_template L rd rs1 rs2 ar False @ is) P (mk cfg L sp st R S A)"
proof -
  let ?n = "unat (R rs2 AND 0x1f)"
  have eq: "shift_right_template L rd rs1 rs2 ar False @ is = PUSH_asm x_s0 1 # SW_asm rs1 (SP_VAR VAR_A) x_sp #
      getshamt L x_s0 rs2 @ SW_asm 0 (SP_VAR VAR_B) x_sp # SB_asm x_s0 (SP_VAR_BYTE VAR_B 1) x_sp # LW_asm x_s0 (SP_VAR VAR_B) x_sp #
      slli_asm x_s0 x_s0 2 @ la_asm x_tp (srl8_table L) @ ADD_asm x_s0 x_s0 x_tp # shr_lines L rd ar @ is"
    by (simp add: shift_right_template_def shr_lines_def)
  have "wpa cfg (shr_lines L rd ar @ is) P (mk cfg L sp st (R(x_tp := srl8_table L, x_s0 := srl8_table L + of_nat (1024 * ?n))) S' A)"
    if "S' 12 = byte (R rs1) 0" "S' 13 = byte (R rs1) (Suc 0)" "S' 14 = byte (R rs1) 2" "S' 15 = byte (R rs1) 3"
      "S' 24 = byte (R x_s0) 0" "S' 25 = byte (R x_s0) (Suc 0)" "S' 26 = byte (R x_s0) 2" "S' 27 = byte (R x_s0) 3" for S'
  proof (rule wpa_shr_lines[OF assms(1,2) _ assms(4) shamt_32 _ that])
    fix g t S''
    have "R(x_tp := a, x_s0 := b, x_gp := g, x_tp := t, x_s0 := R x_s0, rd := w) = R(x_gp := g, x_tp := t, rd := w)" for a b w
      by (auto simp: fun_eq_iff)
    then show "wpa cfg is P (mk cfg L sp st (R(x_tp := srl8_table L, x_s0 := srl8_table L + of_nat (1024 * ?n), x_gp := g, x_tp := t,
        x_s0 := R x_s0, rd := shr_value ar ?n (R rs1))) S'' A)"
      using assms(7) by (simp only:)
  qed (use assms(3) in simp_all)
  then show ?thesis unfolding eq using assms(1-6) by (simp add: var_defs wpas del: of_nat_mult)
qed

lemma wpa_shift_imm:
  assumes "layout_ok cfg L sp" and "tables_ok cfg L st" and "regs_ok sp R" and "dest_ok cfg rd" and "rs1 < nr_gpr cfg" and "n < 32"
    and "n = 24 \<Longrightarrow> rd \<noteq> x_tp"
    and "\<And>g t S'. wpa cfg is P (mk cfg L sp st (R(x_gp := g, x_tp := t, rd := shr_value ar n (R rs1))) S' A)"
  shows "wpa cfg (shift_right_template L rd rs1 n ar True @ is) P (mk cfg L sp st R S A)"
proof (cases "n = 24")
  case False
  have eq: "shift_right_template L rd rs1 n ar True @ is = PUSH_asm x_s0 1 # SW_asm rs1 (SP_VAR VAR_A) x_sp #
      la_asm x_s0 (srl8_table L + push_bit 10 (of_nat n)) @ shr_lines L rd ar @ is"
    using False by (simp add: shift_right_template_def shr_lines_def)
  have p: "push_bit 10 (of_nat n) = (of_nat (1024 * n) :: u32)" by (simp add: push_bit_eq_mult)
  have "wpa cfg (shr_lines L rd ar @ is) P (mk cfg L sp st (R(x_s0 := srl8_table L + of_nat (1024 * n))) S' A)"
    if "S' 12 = byte (R rs1) 0" "S' 13 = byte (R rs1) (Suc 0)" "S' 14 = byte (R rs1) 2" "S' 15 = byte (R rs1) 3"
      "S' 24 = byte (R x_s0) 0" "S' 25 = byte (R x_s0) (Suc 0)" "S' 26 = byte (R x_s0) 2" "S' 27 = byte (R x_s0) 3" for S'
  proof (rule wpa_shr_lines[OF assms(1,2) _ assms(4,6) _ that])
    fix g t S''
    have "R(x_s0 := b, x_gp := g, x_tp := t, x_s0 := R x_s0, rd := w) = R(x_gp := g, x_tp := t, rd := w)" for b w
      by (auto simp: fun_eq_iff)
    then show "wpa cfg is P (mk cfg L sp st (R(x_s0 := srl8_table L + of_nat (1024 * n), x_gp := g, x_tp := t,
        x_s0 := R x_s0, rd := shr_value ar n (R rs1))) S'' A)"
      using assms(8) by (simp only:)
  qed (use assms(3) in simp_all)
  then show ?thesis unfolding eq p using assms(1-5) by (simp add: var_defs wpas del: of_nat_mult)
next
  case True
  have rd: "rd \<noteq> x_tp" "rd < nr_gpr cfg" using assms(4,7) True by (simp_all add: dest_ok_def)
  have gp: "R(x_gp := R x_gp, x_tp := t, rd := v) = R(x_tp := t, rd := v)" for t v by (auto simp: fun_eq_iff)
  show ?thesis
  proof (cases ar)
    case ar: False
    have "shr_value ar 24 (R rs1) = ucast (byte (R rs1) 3)" unfolding shr_value_def if_not_P[OF ar]
      by (rule bit_word_eqI) (auto simp: bit_drop_bit_eq bit_ucast_iff bit_byte dest: bit_imp_le_length)
    moreover have "R(x_gp := R x_gp, x_tp := R x_tp, rd := v) = R(rd := v)" for v by (auto simp: fun_eq_iff)
    ultimately show ?thesis using assms(1-5) assms(8)[of "R x_gp" "R x_tp"] True ar
      by (simp add: shift_right_template_def wpas)
  next
    case ar: True
    let ?b = "byte (R rs1) 3"
    let ?R = "R(rd := push_bit 2 (ucast ?b), x_tp := sra8_table L + 0x6000 + push_bit 2 (ucast ?b))"
    have v: "shr_value ar 24 (R rs1) = signed_drop_bit 24 (push_bit 24 (ucast ?b))" unfolding shr_value_def if_P[OF ar]
      by (rule bit_word_eqI) (auto simp: bit_signed_drop_bit_iff bit_push_bit_iff bit_ucast_iff bit_byte dest: bit_imp_le_length)
    let ?m = "262144 + (1024 * 24 + 4 * unat ?b)"
    have m: "?m + 4 \<le> 294912" using unat_lt_power[of ?b] by simp
    have r: "?R x_tp = logic_shift_table L + of_nat ?m"
      by (simp add: sra8_table_def srl8_table_def sll8_table_def xor8_table_def or8_table_def and8_table_def push_bit_eq_mult)
    have rok: "regs_ok sp ?R" "x_tp < nr_gpr cfg" using assms(3,4) by (simp_all add: dest_ok_def)
    have nth: "lut_bin ! (?m + k) = byte (signed_drop_bit 24 (push_bit 24 (ucast ?b))) k" if "k < 4" for k
      by (rule lut_shift_nth(3)) (use that in simp_all)
    have "wpa cfg (LW_asm rd 0 x_tp # is) P (mk cfg L sp st ?R S' A) =
        wpa cfg is P (mk cfg L sp st (?R(rd := signed_drop_bit 24 (push_bit 24 (ucast ?b)))) S' A)" for S'
      by (rule wpa_table_word[OF assms(1,2) rok(1) assms(4) rok(2) r m nth])
    moreover have "?R(rd := w) = R(x_gp := R x_gp, x_tp := ?R x_tp, rd := w)" for w using rd by (auto simp: fun_eq_iff)
    ultimately have fin: "wpa cfg (LW_asm rd 0 x_tp # is) P (mk cfg L sp st ?R S' A)" for S'
      using assms(8)[of "R x_gp" "?R x_tp"] True v by simp
    have comm: "R(x_tp := t, rd := w, x_tp := u) = R(rd := w, x_tp := u)" for t u w by (auto simp: fun_eq_iff)
    show ?thesis using assms(1-5) rd True ar
      by (simp add: shift_right_template_def var_defs wpas comm fin dest_ok_def del: push_bit_Suc)
  qed
qed

lemma wpa_slli:
  assumes "layout_ok cfg L sp" and "regs_ok sp R" and "dest_ok cfg rd" and "rs < nr_gpr cfg" and "n < 32"
    and "\<And>t S'. wpa cfg is P (mk cfg L sp st (R(x_tp := t, rd := push_bit n (R rs))) S' A)"
  shows "wpa cfg (slli_asm rd rs n @ is) P (mk cfg L sp st R S A)"
proof -
  have rd: "rd < nr_gpr cfg" "rd \<noteq> 0" "rd \<noteq> 2" using assms(3) by (simp_all add: dest_ok_def)
  have post: "wpa cfg is P (mk cfg L sp st (R(rd := push_bit n (R rs))) S' A)" "wpa cfg is P (mk cfg L sp st (R(x_tp := t, rd := push_bit n (R rs))) S' A)" for t S'
  proof -
    have "R(x_tp := R x_tp, rd := v) = R(rd := v)" for v by (auto simp: fun_eq_iff)
    then show "wpa cfg is P (mk cfg L sp st (R(rd := push_bit n (R rs))) S' A)" using assms(6)[of "R x_tp" S'] by simp
  qed (rule assms(6))
  have rest: "wpa cfg (slli_asm rd rd k @ is) P (mk cfg L sp st R' S' A) = wpa cfg is P (mk cfg L sp st (R'(rd := push_bit k (R' rd))) S' A)"
    if "regs_ok sp R'" "k < 16" for k R' S'
    using that assms(3) rd by (cases "k = 0") (simp_all add: slli_asm.simps[of _ _ 0] wpa_slli_small)
  consider "n = 0" | "0 < n" "n < 16" | "16 \<le> n" "n < 24" | "24 \<le> n" by linarith
  then show ?thesis
  proof cases
    case 1
    show ?thesis using assms(1-4) post 1 by (cases "rd = rs") (simp_all add: slli_asm.simps[of _ _ 0] wpas fun_upd_idem)
  next
    case 2
    then show ?thesis using assms(1-4) post by (simp add: wpas)
  next
    case 3
    have "push_bit (n - 16) (push_bit 16 (R rs)) = push_bit n (R rs)" using 3 by simp
    then show ?thesis using 3 assms(1-4) post rd regs_x0_val[OF assms(2)]
      by (subst slli_asm.simps) (simp add: var_defs wpas sh_asm_def rest word4_parts dest_ok_def del: push_bit_push_bit)
  next
    case 4
    have "push_bit (n - 24) (push_bit 24 (R rs)) = push_bit n (R rs)" using 4 by simp
    then show ?thesis using 4 assms(1-5) post rd regs_x0_val[OF assms(2)]
      by (subst slli_asm.simps) (simp add: var_defs wpas rest word4_parts dest_ok_def del: push_bit_push_bit)
  qed
qed

section \<open>Loads and stores\<close>

lemma wpa_lb:
  assumes "layout_ok cfg L sp" and "tables_ok cfg L st" and "regs_ok sp R" and "dest_ok cfg rd" and "rd \<noteq> x_tp" and "b < nr_gpr cfg"
    and "outside cfg L sp (R b + ofs)"
    and "\<And>g t S'. wpa cfg is P (mk cfg L sp st (R(x_gp := g, x_tp := t, rd := signed_drop_bit 24 (push_bit 24 (ucast (peek cfg st (R b + ofs)))))) S' A)"
  shows "wpa cfg (lb_asm L rd ofs b @ is) P (mk cfg L sp st R S A)"
proof -
  let ?m = "peek cfg st (R b + ofs)"
  have rd: "rd < nr_gpr cfg" "rd \<noteq> 0" "rd \<noteq> 2" using assms(4) by (simp_all add: dest_ok_def)
  have w: "word4 0 0 0 m = push_bit 24 (ucast m)" for m by (rule bit_word_eqI) (auto simp: bit_word4 bit_simps dest: bit_imp_le_length)
  have "wpa cfg (srai_asm L rd rd 24 @ is) P (mk cfg L sp st (R(rd := push_bit 24 (ucast ?m))) S' A)" for S'
    unfolding srai_asm_def
  proof (rule wpa_shift_imm[OF assms(1,2)])
    have "R(rd := a, x_gp := g, x_tp := t, rd := v) = R(x_gp := g, x_tp := t, rd := v)" for a g t v by (auto simp: fun_eq_iff)
    then show "wpa cfg is P (mk cfg L sp st (R(rd := push_bit 24 (ucast ?m), x_gp := g, x_tp := t,
        rd := shr_value True 24 ((R(rd := push_bit 24 (ucast ?m))) rd))) S'' A)" for g t S''
      using assms(8) by (simp add: shr_value_def)
  qed (use assms rd in simp_all)
  then show ?thesis using assms(1,3,4,6,7) rd regs_x0_val[OF assms(3)] wpa_LBU_data[OF assms(3,4,6,7)]
    by (simp add: lb_asm_def var_defs wpas w)
qed

lemma half_addr: "R b + (1 + ofs) = R b + ofs + (1 :: u32)" by simp

lemma wpa_lhu:
  assumes "layout_ok cfg L sp" and "tables_ok cfg L st" and "regs_ok sp R" and "dest_ok cfg rd" and "rd \<noteq> x_tp" and "b < nr_gpr cfg" and "b \<noteq> x_tp"
    and "outside cfg L sp (R b + ofs)" and "outside cfg L sp (R b + ofs + 1)"
    and "\<And>g t S'. wpa cfg is P (mk cfg L sp st (R(x_gp := g, x_tp := t,
      rd := ucast (peek cfg st (R b + ofs)) + push_bit 8 (ucast (peek cfg st (R b + ofs + 1))))) S' A)"
  shows "wpa cfg (lhu_asm rd ofs b @ is) P (mk cfg L sp st R S A)"
proof -
  have rd: "rd < nr_gpr cfg" "rd \<noteq> 0" "rd \<noteq> 2" using assms(4) by (simp_all add: dest_ok_def)
  have 1: "wpa cfg (LBU_asm x_tp (1 + ofs) b # is') P (mk cfg L sp st R S' A) =
      wpa cfg is' P (mk cfg L sp st (R(x_tp := ucast (peek cfg st (R b + ofs + 1)))) S' A)" for is' S'
    using wpa_LBU_data[of sp R cfg x_tp b L "1 + ofs"] assms(3,6,9) by (simp add: half_addr)
  have 2: "wpa cfg (LBU_asm rd ofs b # is') P (mk cfg L sp st (R(x_tp := t)) S' A) =
      wpa cfg is' P (mk cfg L sp st (R(x_tp := t, rd := ucast (peek cfg st (R b + ofs)))) S' A)" for is' t S'
    using wpa_LBU_data[of sp "R(x_tp := t)" cfg rd b L ofs] assms(3,4,6-8) by simp
  have "R(x_gp := R x_gp, x_tp := t, rd := v) = R(x_tp := t, rd := v)" for t v by (auto simp: fun_eq_iff)
  then have "wpa cfg is P (mk cfg L sp st (R(x_tp := t, rd := ucast (peek cfg st (R b + ofs)) + push_bit 8 (ucast (peek cfg st (R b + ofs + 1))))) S' A)" for t S'
    using assms(10)[of "R x_gp" t S'] by simp
  then show ?thesis using assms(1,3-6) rd regs_x0_val[OF assms(3)]
    by (simp add: lhu_asm_def var_defs wpas 1 2 word4_parts)
qed

lemma wpa_lh:
  assumes "layout_ok cfg L sp" and "tables_ok cfg L st" and "regs_ok sp R" and "dest_ok cfg rd" and "rd \<noteq> x_gp" and "b < nr_gpr cfg"
    and "b \<noteq> x_gp" and "b \<noteq> x_tp" and "outside cfg L sp (R b + ofs)" and "outside cfg L sp (R b + ofs + 1)"
    and "\<And>g t S'. wpa cfg is P (mk cfg L sp st (R(x_gp := g, x_tp := t,
      rd := ucast (peek cfg st (R b + ofs)) + signed_drop_bit 16 (push_bit 24 (ucast (peek cfg st (R b + ofs + 1)))))) S' A)"
  shows "wpa cfg (lh_asm L rd ofs b @ is) P (mk cfg L sp st R S A)"
proof -
  let ?m = "peek cfg st (R b + ofs + 1)"
  have rd: "rd < nr_gpr cfg" "rd \<noteq> 0" "rd \<noteq> 2" using assms(4) by (simp_all add: dest_ok_def)
  have w: "word4 0 0 0 m = push_bit 24 (ucast m)" for m by (rule bit_word_eqI) (auto simp: bit_word4 bit_simps dest: bit_imp_le_length)
  have 1: "wpa cfg (LBU_asm x_gp (1 + ofs) b # is') P (mk cfg L sp st R S' A) =
      wpa cfg is' P (mk cfg L sp st (R(x_gp := ucast ?m)) S' A)" for is' S'
    using wpa_LBU_data[of sp R cfg x_gp b L "1 + ofs"] assms(3,6,10) by (simp add: half_addr)
  have 2: "wpa cfg (LBU_asm rd ofs b # is') P (mk cfg L sp st (R(x_gp := g, x_tp := t)) S' A) =
      wpa cfg is' P (mk cfg L sp st (R(x_gp := g, x_tp := t, rd := ucast (peek cfg st (R b + ofs)))) S' A)" for is' g t S'
    using wpa_LBU_data[of sp "R(x_gp := g, x_tp := t)" cfg rd b L ofs] assms(3,4,6-9) by simp
  have sh: "wpa cfg (srai_asm L x_gp x_gp 16 @ LBU_asm rd ofs b # ADD_asm rd rd x_gp # is) P (mk cfg L sp st (R(x_gp := push_bit 24 (ucast ?m))) S' A)" for S'
    unfolding srai_asm_def
  proof (rule wpa_shift_imm[OF assms(1,2)])
    let ?g = "signed_drop_bit 16 (push_bit 24 (ucast ?m))"
    have "R(x_gp := a, x_gp := g, x_tp := t, x_gp := ?g) = R(x_gp := ?g, x_tp := t)" for a g t by (auto simp: fun_eq_iff)
    note eq = this[simplified]
    have "wpa cfg (LBU_asm rd ofs b # ADD_asm rd rd x_gp # is) P (mk cfg L sp st (R(x_gp := ?g, x_tp := t)) S'' A)" for t S''
      using assms(3-5) rd assms(11)[of ?g t S''] by (simp add: 2 wpas)
    then show "wpa cfg (LBU_asm rd ofs b # ADD_asm rd rd x_gp # is) P (mk cfg L sp st (R(x_gp := push_bit 24 (ucast ?m), x_gp := g, x_tp := t,
        x_gp := shr_value True 16 ((R(x_gp := push_bit 24 (ucast ?m))) x_gp))) S'' A)" for g t S''
      by (simp add: shr_value_def eq)
  qed (use assms in simp_all)
  then show ?thesis using assms(1,3) regs_x0_val[OF assms(3)]
    by (simp add: lh_asm_def var_defs wpas 1 w)
qed

lemma wpa_sh_data:
  assumes "layout_ok cfg L sp" and "regs_ok sp R" and "r < nr_gpr cfg" and "b < nr_gpr cfg" and "b \<noteq> x_tp"
    and "outside cfg L sp (R b + ofs)" and "outside cfg L sp (R b + ofs + 1)"
    and "\<And>t S'. wpa cfg is P (mk cfg L sp (poke cfg (R b + ofs + 1) (byte (R r) 1) (poke cfg (R b + ofs) (byte (R r) 0) st)) (R(x_tp := t)) S' A)"
  shows "wpa cfg (sh_asm r ofs b @ is) P (mk cfg L sp st R S A)"
proof -
  have 1: "wpa cfg (SB_asm r ofs b # is') P (mk cfg L sp st R S' A) =
      wpa cfg is' P (mk cfg L sp (poke cfg (R b + ofs) (byte (R r) 0) st) R S' A)" for is' S'
    using wpa_SB_data[OF assms(2-4,6)] by simp
  have 2: "wpa cfg (SB_asm x_tp (1 + ofs) b # is') P (mk cfg L sp st' (R(x_tp := t)) S' A) =
      wpa cfg is' P (mk cfg L sp (poke cfg (R b + ofs + 1) (byte t 0) st') (R(x_tp := t)) S' A)" for is' t S' st'
    using wpa_SB_data[of sp "R(x_tp := t)" x_tp cfg b L "1 + ofs"] assms(2,4,5,7) by (simp add: half_addr)
  show ?thesis using assms(1-4) assms(8) by (simp add: sh_asm_def wpas 1 2)
qed

section \<open>Jumps and branches\<close>

definition wpj :: "config \<Rightarrow> u32 \<Rightarrow> asm list \<Rightarrow> (u32 \<Rightarrow> nemu \<Rightarrow> bool) \<Rightarrow> nemu \<Rightarrow> bool" where
  "wpj cfg pc ls Q s \<longleftrightarrow> (\<exists>pc' s'. asm_run cfg pc ls s = Inr (pc', s') \<and> Q pc' s')"

lemma wpj_append: "wpa cfg ls (\<lambda>s. wpj cfg (pc + 4 * of_nat (length ls)) ls' Q s) s \<Longrightarrow> wpj cfg pc (ls @ ls') Q s"
  unfolding wpj_def wpa_def by (auto simp: asm_run_append)

lemma wpj_wpa: "wpa cfg ls (Q (pc + 4 * of_nat (length ls))) s \<Longrightarrow> wpj cfg pc ls Q s"
  unfolding wpj_def wpa_def by auto

lemma even_target: "even a \<Longrightarrow> a AND NOT 1 = (a :: u32)"
  by (rule bit_word_eqI) (auto simp: bit_simps bit_1_iff even_iff_mod_2_eq_zero simp flip: bit_0)

lemma wpj_jr:
  assumes "regs_ok sp R" and "r < nr_gpr cfg" and "even (R r)" and "Q (R r) (mk cfg L sp st R S A)"
  shows "wpj cfg pc [JALR_asm 0 r] Q (mk cfg L sp st R S A)"
proof -
  have "R_set cfg 0 0 (set_gpr 0 v (mk cfg L sp st R S A)) = Inr (mk cfg L sp st R S A)" for v
    using set_gpr_0[OF x0_ok_mk[OF assms(1)]] by (simp add: R_set_ok)
  then have "asm_run cfg pc [JALR_asm 0 r] (mk cfg L sp st R S A) = Inr (R r, mk cfg L sp st R S A)"
    using assms(2) even_target[OF assms(3)] by (simp add: asm_step_def mini_asm_defs exec_body_def set_rd_def R_get_ok R_set_ok)
  then show ?thesis using assms(4) by (simp add: wpj_def)
qed

lemma wpj_jalr:
  assumes "regs_ok sp R" and "dest_ok cfg r" and "even (R r)" and "Q (R r) (mk cfg L sp st (R(r := pc + 4)) S A)"
  shows "wpj cfg pc [JALR_asm r r] Q (mk cfg L sp st R S A)"
proof -
  have r: "r < nr_gpr cfg" "r \<noteq> 0" using assms(2) by (simp_all add: dest_ok_def)
  have "asm_run cfg pc [JALR_asm r r] (mk cfg L sp st R S A) = Inr (R r, mk cfg L sp st (R(r := pc + 4)) S A)"
    using r even_target[OF assms(3)] assms(1)
    by (simp add: asm_step_def mini_asm_defs exec_body_def set_rd_def R_get_ok R_set_ok R_set_x0 set_gpr_mk regs_x0)
  then show ?thesis using assms(4) by (simp add: wpj_def)
qed

lemma wpj_jal:
  assumes "regs_ok sp R" and "rd = 0 \<or> dest_ok cfg rd" and "even target"
    and "\<And>t. Q target (mk cfg L sp st (if rd = 0 then R(x_tp := t) else R(rd := pc + 12)) S A)"
  shows "wpj cfg pc (jal_asm rd target) Q (mk cfg L sp st R S A)"
proof (cases "rd = 0")
  case True
  have "wpa cfg (la_asm x_tp target) (\<lambda>s. wpj cfg (pc + 8) [JALR_asm 0 x_tp] Q s) (mk cfg L sp st R S A)"
    using assms(1,3) assms(4)[of target] True by (simp add: wpas) (rule wpj_jr, simp_all)
  then show ?thesis using True wpj_append[of cfg "la_asm x_tp target" pc "[JALR_asm 0 x_tp]" Q]
    by (simp add: jal_asm_def j_asm_def la_asm_def)
next
  case False
  then have d: "dest_ok cfg rd" "rd \<noteq> 2" using assms(2) by (simp_all add: dest_ok_def)
  have "wpa cfg (la_asm rd target) (\<lambda>s. wpj cfg (pc + 8) [JALR_asm rd rd] Q s) (mk cfg L sp st R S A)"
    using assms(1,3) assms(4) d False by (simp add: wpas) (rule wpj_jalr, simp_all add: add.assoc)
  then show ?thesis using False wpj_append[of cfg "la_asm rd target" pc "[JALR_asm rd rd]" Q]
    by (simp add: jal_asm_def call_template_def la_asm_def)
qed

lemma wpj_branch_lines:
  assumes "layout_ok cfg L sp" and "regs_ok sp R" and "R x_tp = flag c" and "even target" and "even label"
    and "\<And>g t S'. Q (if c = h then target else label) (mk cfg L sp st (R(x_gp := g, x_tp := t)) S' A)"
  shows "wpj cfg pc (branch_resolve_lines target h label) Q (mk cfg L sp st R S A)"
proof -
  define a b where ab: "a = (if h then target else label)" "b = (if h then label else target)"
  let ?ls = "slli_asm x_tp x_tp 2 @ [ADD_asm x_tp x_sp x_tp] @ la_asm x_gp a @ [SW_asm x_gp (SP_VAR VAR_A) x_sp] @ la_asm x_gp b @
    [SW_asm x_gp (SP_VAR VAR_B) x_sp, LW_asm x_tp (SP_VAR VAR_B) x_tp]"
  have ls: "branch_resolve_lines target h label = ?ls @ [JALR_asm 0 x_tp]" by (simp add: branch_resolve_lines_def ab)
  let ?d = "if c = h then target else label"
  let ?n = "if c then 4 else (5 :: nat)"
  have addr: "(R(x_tp := sp + push_bit 2 (flag c), x_gp := b)) x_tp + SP_VAR 5 = sp + SP_VAR ?n"
    by (simp add: flag_def SP_VAR_def SP_VAR_BYTE_def)
  have fin: "wpj cfg pc' [JALR_asm 0 x_tp] Q (mk cfg L sp st (R(x_gp := b, x_tp := ?d)) S' A)" for pc' S'
    using assms(2,4,5) assms(6)[of b ?d] by (intro wpj_jr) simp_all
  have lw: "wpa cfg (LW_asm x_tp (SP_VAR 5) x_tp # []) (\<lambda>s. wpj cfg pc' [JALR_asm 0 x_tp] Q s)
      (mk cfg L sp st (R(x_tp := sp + push_bit 2 (flag c), x_gp := b)) S' A)"
    if "S' 12 = byte a 0" "S' 13 = byte a 1" "S' 14 = byte a 2" "S' 15 = byte a 3" "S' 8 = byte b 0" "S' 9 = byte b 1" "S' 10 = byte b 2" "S' 11 = byte b 3" for pc' S'
  proof -
    have "word4 (S' (28 - 4 * ?n)) (S' (28 - 4 * ?n + 1)) (S' (28 - 4 * ?n + 2)) (S' (28 - 4 * ?n + 3)) = ?d"
      using that by (auto simp: ab)
    moreover have "R(x_tp := t, x_gp := b, x_tp := u) = R(x_gp := b, x_tp := u)" for t u by (auto simp: fun_eq_iff)
    ultimately show ?thesis using fin assms(2)
      by (subst wpa_LW_at[where n = ?n and R = "R(x_tp := sp + push_bit 2 (flag c), x_gp := b)", OF assms(1)])
         (use addr in \<open>simp_all add: regs_sp\<close>)
  qed
  have "wpa cfg ?ls (\<lambda>s. wpj cfg (pc + 4 * of_nat (length ?ls)) [JALR_asm 0 x_tp] Q s) (mk cfg L sp st R S A)"
    using assms(1-3) regs_sp[OF assms(2)] by (simp add: var_defs wpas lw)
  then show ?thesis unfolding ls by (rule wpj_append)
qed

lemma branch_len: "length (branch_resolve_lines target h label) = 11"
  by (simp add: branch_resolve_lines_def slli_asm.simps la_asm_def)

lemma wpj_with_resolve:
  assumes "layout_ok cfg L sp" and "even pc" and "even target" and "regs_ok sp R"
    and "\<And>Q'. (\<And>g t S' A'. Q' (mk cfg L sp st (R(x_gp := g, x_tp := t, x_tp := flag c)) S' A')) \<Longrightarrow> wpa cfg cond Q' (mk cfg L sp st R S A)"
    and "\<And>g t S' A'. Q (if c = h then target else pc + 4 * of_nat (length (with_resolve pc target h cond))) (mk cfg L sp st (R(x_gp := g, x_tp := t)) S' A')"
  shows "wpj cfg pc (with_resolve pc target h cond) Q (mk cfg L sp st R S A)"
proof -
  let ?here = "pc + 4 * of_nat (length cond)"
  have e: "even ?here" "even (?here + 44)" using assms(2) by simp_all
  have "wpj cfg ?here (branch_resolve_lines target h (?here + 44)) Q (mk cfg L sp st (R(x_gp := g, x_tp := t, x_tp := flag c)) S' A')" for g t S' A'
  proof (rule wpj_branch_lines[OF assms(1) _ _ assms(3) e(2)])
    fix g' t' S''
    have "R(x_gp := g, x_tp := t, x_tp := flag c, x_gp := g', x_tp := t') = R(x_gp := g', x_tp := t')" by (auto simp: fun_eq_iff)
    moreover have "pc + 4 * of_nat (length (with_resolve pc target h cond)) = ?here + 44"
      by (simp add: with_resolve_def branch_resolve_def branch_len algebra_simps)
    ultimately show "Q (if c = h then target else ?here + 44) (mk cfg L sp st (R(x_gp := g, x_tp := t, x_tp := flag c, x_gp := g', x_tp := t')) S'' A')"
      using assms(6)[of g' t' S'' A'] by (simp only:)
  qed (use assms(4) in simp_all)
  then have "wpa cfg cond (\<lambda>s. wpj cfg ?here (branch_resolve_lines target h (?here + 44)) Q s) (mk cfg L sp st R S A)"
    by (rule assms(5))
  then show ?thesis unfolding with_resolve_def branch_resolve_def branch_len by (intro wpj_append) simp
qed

lemma wpa_nonpos:
  assumes "layout_ok cfg L sp" and "tables_ok cfg L st" and "regs_ok sp R" and "rs < nr_gpr cfg" and "rs \<noteq> x_gp"
    and "\<And>g t S'. wpa cfg is P (mk cfg L sp st (R(x_gp := g, x_tp := t, x_tp := flag (sint (R rs) \<le> 0))) S' A)"
  shows "wpa cfg (nonpos_cond L rs @ is) P (mk cfg L sp st R S A)"
proof -
  let ?v = "R rs"
  let ?k = "of_bool (sint ?v < 0) + of_bool (sint (?v - 1) < 0) :: nat"
  have np: "?k = 0 \<longleftrightarrow> \<not> sint ?v \<le> 0" "?k < 4"
  proof -
    have "uint ?v = 0 \<or> 1 \<le> uint ?v" using uint_u32(1)[of ?v] by linarith
    moreover have "uint (?v - 1) = (if 1 \<le> uint ?v then uint ?v - 1 else uint ?v + 4294967295)" by (simp add: uint_sub_if')
    ultimately show "?k = 0 \<longleftrightarrow> \<not> sint ?v \<le> 0" using uint_u32(2)[of ?v]
      unfolding sint_via_uint by (elim disjE) (auto split: if_splits)
  qed simp
  have nth: "ucast (or1_bytes ! ?k) = flag (sint ?v \<le> 0)"
    using np by (cases ?k) (auto simp: or1_bytes_def flag_def less_Suc_eq numeral_eq_Suc)
  have w: "of_nat ?k = sgn_bit ?v + sgn_bit (?v - 1)" by (simp add: sgn_bit_def)
  have fin: "wpa cfg (LBU_asm x_tp 0 x_tp # is) P (mk cfg L sp st (R(x_gp := g, x_tp := or1_table L + (sgn_bit ?v + sgn_bit (?v - 1)))) S' A)" for g S'
  proof -
    let ?R = "R(x_gp := g, x_tp := or1_table L + (sgn_bit ?v + sgn_bit (?v - 1)))"
    have r: "?R x_tp = or1_table L + of_nat ?k" unfolding w by simp
    have "wpa cfg (LBU_asm x_tp 0 x_tp # is) P (mk cfg L sp st ?R S' A) = wpa cfg is P (mk cfg L sp st (?R(x_tp := ucast (or1_bytes ! ?k))) S' A)"
      by (rule wpa_table_byte[where a = "or1_table L" and bs = or1_bytes and k = ?k and R = ?R, OF assms(1,2)])
         (use assms(3) np(2) r in \<open>simp_all only: regs_ok_upd dest_ok_numeral nr_gpr_16 table_list_def list.set insert_iff or1_bytes_def
           list.size zero_neq_numeral numeral_eq_iff num.distinct refl simp_thms\<close>, simp_all)
    then show ?thesis unfolding nth using assms(6) by simp
  qed
  have "R rs + - 1 = R rs - 1" by simp
  moreover have "R(x_tp := a, x_gp := g, x_tp := t) = R(x_gp := g, x_tp := t)" for a g t by (auto simp: fun_eq_iff)
  ultimately show ?thesis using assms(1-5)
    by (simp add: nonpos_cond_def wpas ) (simp add: fin add.commute)
qed

end
