(* ===== verification/Minirv_Proofs.thy ===== *)
theory Minirv_Proofs
  imports Minirv_Macros
begin

text \<open>
  The expansion of every instruction by \<open>inst-replace.h\<close> computes what the instruction computes, in the emulator's
  processor: all registers but \<open>gp\<close> and \<open>tp\<close>, the control and status registers, the devices and all memory but the 28
  bytes below the stack pointer and the macros' own array end up the same.  \<open>seqz\<close> with the destination \<open>s0\<close> loses its
  result.
\<close>

section \<open>Replacement\<close>

definition minirv_ok :: "config \<Rightarrow> syms \<Rightarrow> nemu \<Rightarrow> bool" where
  "minirv_ok cfg L st \<longleftrightarrow> layout_ok cfg L (gpr (cpu st) x_sp) \<and> tables_ok cfg L st \<and> x0_ok st"

text \<open>A byte the macros may write: a variable below the stack pointer or an element of \<open>_check_same_array\<close>.\<close>

definition scratch_byte :: "config \<Rightarrow> syms \<Rightarrow> u32 \<Rightarrow> nat \<Rightarrow> bool" where
  "scratch_byte cfg L sp h \<longleftrightarrow> guest_to_host cfg (sp - 28) \<le> h \<and> h < guest_to_host cfg (sp - 28) + 28 \<or>
     guest_to_host cfg (check_same_array L) \<le> h \<and> h < guest_to_host cfg (check_same_array L) + 256"

text \<open>\<open>t\<close> is \<open>s\<close> up to \<open>gp\<close>, \<open>tp\<close> and these bytes.\<close>

definition same_but_scratch :: "config \<Rightarrow> syms \<Rightarrow> u32 \<Rightarrow> nemu \<Rightarrow> nemu \<Rightarrow> bool" where
  "same_but_scratch cfg L sp s t \<longleftrightarrow>
     (\<forall>r. r \<noteq> x_gp \<and> r \<noteq> x_tp \<longrightarrow> gpr (cpu t) r = gpr (cpu s) r) \<and> (cpu t)\<lparr>gpr := gpr (cpu s)\<rparr> = cpu s \<and>
     (\<forall>h. \<not> scratch_byte cfg L sp h \<longrightarrow> pmem (memory t) h = pmem (memory s) h) \<and> devs (memory t) = devs (memory s) \<and>
     t\<lparr>cpu := cpu s, memory := memory s\<rparr> = s"

lemma same_mk:
  assumes "s = mk cfg L sp st R S A" and "\<And>r. r \<noteq> x_gp \<Longrightarrow> r \<noteq> x_tp \<Longrightarrow> R' r = R r"
  shows "same_but_scratch cfg L sp s (mk cfg L sp st R' S' A')"
  using assms unfolding same_but_scratch_def by (auto simp: mk_def mk_mem_def scratch_byte_def)

definition st_vars :: "config \<Rightarrow> nemu \<Rightarrow> bytes" where
  "st_vars cfg st = (\<lambda>i. pmem (memory st) (guest_to_host cfg (gpr (cpu st) x_sp - 28) + i))"

definition st_array :: "config \<Rightarrow> syms \<Rightarrow> nemu \<Rightarrow> bytes" where
  "st_array cfg L st = (\<lambda>i. pmem (memory st) (guest_to_host cfg (check_same_array L) + i))"

lemma st_mk: "st = mk cfg L (gpr (cpu st) x_sp) st (gpr (cpu st)) (st_vars cfg st) (st_array cfg L st)"
  unfolding st_vars_def st_array_def by (rule mk_self)

lemma minirv_okD:
  assumes "minirv_ok cfg L st"
  shows "layout_ok cfg L (gpr (cpu st) x_sp)" "tables_ok cfg L st" "regs_ok (gpr (cpu st) x_sp) (gpr (cpu st))"
  using assms by (simp_all add: minirv_ok_def regs_ok_def x0_ok_def)

text \<open>Operands the compiler emits: it uses neither \<open>gp\<close> nor \<open>tp\<close>.\<close>

definition source_ok :: "config \<Rightarrow> nat \<Rightarrow> bool" where
  "source_ok cfg r \<longleftrightarrow> r < nr_gpr cfg \<and> r \<noteq> x_gp \<and> r \<noteq> x_tp"

definition target_ok :: "config \<Rightarrow> nat \<Rightarrow> bool" where
  "target_ok cfg r \<longleftrightarrow> source_ok cfg r \<and> r \<noteq> 0 \<and> r \<noteq> x_sp"

lemma target_dest: "target_ok cfg r \<Longrightarrow> dest_ok cfg r \<and> r < nr_gpr cfg \<and> r \<noteq> x_gp \<and> r \<noteq> x_tp \<and> r \<noteq> 0 \<and> r \<noteq> x_sp"
  by (simp add: target_ok_def source_ok_def dest_ok_def)

text \<open>A macro that ends with a value in \<open>rd\<close>.\<close>

lemma macro_value:
  assumes "minirv_ok cfg L st" and "target_ok cfg rd"
    and "\<And>P. (\<And>g t S' A'. P (mk cfg L (gpr (cpu st) x_sp) st ((gpr (cpu st))(x_gp := g, x_tp := t, rd := v)) S' A')) \<Longrightarrow>
      wpa cfg ls P (mk cfg L (gpr (cpu st) x_sp) st (gpr (cpu st)) (st_vars cfg st) (st_array cfg L st))"
  shows "\<exists>t. asm_run cfg pc ls st = Inr (pc + 4 * of_nat (length ls), t) \<and> same_but_scratch cfg L (gpr (cpu st) x_sp) (set_gpr rd v st) t"
proof -
  let ?sp = "gpr (cpu st) x_sp" and ?R = "gpr (cpu st)"
  have s: "set_gpr rd v st = mk cfg L ?sp st (?R(rd := v)) (st_vars cfg st) (st_array cfg L st)"
    by (subst st_mk[of st cfg L]) (simp only: set_gpr_mk)
  have "wpa cfg ls (\<lambda>t. same_but_scratch cfg L ?sp (set_gpr rd v st) t) (mk cfg L ?sp st ?R (st_vars cfg st) (st_array cfg L st))"
    by (rule assms(3), rule same_mk[OF s]) simp
  then show ?thesis unfolding wpa_def st_mk[of st cfg L, symmetric] by blast
qed

section \<open>The real instructions\<close>

definition is_shift_imm :: "rv_op \<Rightarrow> bool" where
  "is_shift_imm opc \<longleftrightarrow> opc \<in> {SLLI, SRLI, SRAI}"

definition is_logic :: "rv_op \<Rightarrow> bool" where
  "is_logic opc \<longleftrightarrow> opc \<in> {AND_op, OR_op, XOR_op, ANDI, ORI, XORI}"

definition replaced_alu :: "rv_op set" where
  "replaced_alu = {SUB, SLT, SLTU, AND_op, OR_op, XOR_op, SLL, SRL, SRA, SLLI, SRLI, SRAI, SLTI, SLTIU, ANDI, ORI, XORI}"

lemma asm_step_rd:
  assumes "x0_ok st" and "a_rs1 i < nr_gpr cfg" and "a_rs2 i < nr_gpr cfg" and "a_rd i < nr_gpr cfg" and "a_rd i \<noteq> 0"
    and "\<And>s ops. o_rd ops = a_rd i \<Longrightarrow> src1 ops = gpr (cpu st) (a_rs1 i) \<Longrightarrow> src2 ops = gpr (cpu st) (a_rs2 i) \<Longrightarrow> imm ops = a_imm i \<Longrightarrow>
      exec_body cfg (a_op i) ops s st = set_rd cfg ops v s st"
  shows "asm_step cfg pc i st = Inr (pc + 4, set_gpr (a_rd i) v st)"
  using assms by (simp add: asm_step_def set_rd_def R_get_ok R_set_ok R_set_x0)

lemma shamt_imm: "unat (i :: u32) < 32 \<Longrightarrow> i AND 0x1f = i"
proof -
  assume "unat i < 32"
  then have "take_bit 5 i = i" by (intro word_eq_unatI) (simp add: unat_take_bit)
  then show "i AND 0x1f = i" by (simp add: take_bit_eq_mask mask_eq_exp_minus_1)
qed

lemma logic_total:
  "target_ok cfg rd \<Longrightarrow> source_ok cfg rs1 \<Longrightarrow> rs1 \<noteq> x_sp \<Longrightarrow> rs2 \<noteq> x_sp \<Longrightarrow> rs2 \<noteq> x_gp \<Longrightarrow> \<exists>ls. logic_asm lut rd rs1 rs2 = Inr ls"
  by (simp add: logic_asm_def target_ok_def source_ok_def)

lemma slt_value:
  "ucast (slt1_bytes ! slt_index x y) = (if sint x < sint y then 1 else (0 :: u32))"
  "ucast (sltu1_bytes ! slt_index x y) = (if x < y then 1 else (0 :: u32))"
  by (simp_all add: slt_tables)

lemma slt_tables_in:
  "(slt1_table L, slt1_bytes) \<in> set (table_list L)" "length slt1_bytes = 8"
  "(sltu1_table L, sltu1_bytes) \<in> set (table_list L)" "length sltu1_bytes = 8"
  by (simp_all add: table_list_def slt1_bytes_def sltu1_bytes_def)

lemma wpa_slt:
  assumes "layout_ok cfg L sp" and "tables_ok cfg L st" and "regs_ok sp R" and "dest_ok cfg rd" and "rs1 < nr_gpr cfg" and "rs2 < nr_gpr cfg"
  shows "(\<And>g t S'. wpa cfg is P (mk cfg L sp st (R(x_gp := g, x_tp := t, rd := flag (sint (R rs1) < sint (R rs2)))) S' A)) \<Longrightarrow>
      wpa cfg (slt_asm L rd rs1 rs2 @ is) P (mk cfg L sp st R S A)"
    and "(\<And>g t S'. wpa cfg is P (mk cfg L sp st (R(x_gp := g, x_tp := t, rd := flag (R rs1 < R rs2))) S' A)) \<Longrightarrow>
      wpa cfg (sltu_asm L rd rs1 rs2 @ is) P (mk cfg L sp st R S A)"
proof -
  have f: "flag b = (if b then 1 else 0)" for b by (rule flag_def)
  show "wpa cfg (slt_asm L rd rs1 rs2 @ is) P (mk cfg L sp st R S A)"
    if "\<And>g t S'. wpa cfg is P (mk cfg L sp st (R(x_gp := g, x_tp := t, rd := flag (sint (R rs1) < sint (R rs2)))) S' A)"
    unfolding slt_asm_def by (rule wpa_slt_template[OF assms slt_tables_in(1,2)]) (use that in \<open>simp only: slt_value f\<close>)
  show "wpa cfg (sltu_asm L rd rs1 rs2 @ is) P (mk cfg L sp st R S A)"
    if "\<And>g t S'. wpa cfg is P (mk cfg L sp st (R(x_gp := g, x_tp := t, rd := flag (R rs1 < R rs2))) S' A)"
    unfolding sltu_asm_def by (rule wpa_slt_template[OF assms slt_tables_in(3,4)]) (use that in \<open>simp only: slt_value f\<close>)
qed

lemma wpa_logics:
  assumes "layout_ok cfg L sp" and "tables_ok cfg L st" and "regs_ok sp R" and "dest_ok cfg rd" and "rs1 < nr_gpr cfg" and "rs2 < nr_gpr cfg"
  shows "and_asm L rd rs1 rs2 = Inr ls \<Longrightarrow> (\<And>t S'. wpa cfg is P (mk cfg L sp st (R(x_tp := t, rd := R rs1 AND R rs2)) S' A)) \<Longrightarrow>
      wpa cfg (ls @ is) P (mk cfg L sp st R S A)"
    and "or_asm L rd rs1 rs2 = Inr ls \<Longrightarrow> (\<And>t S'. wpa cfg is P (mk cfg L sp st (R(x_tp := t, rd := R rs1 OR R rs2)) S' A)) \<Longrightarrow>
      wpa cfg (ls @ is) P (mk cfg L sp st R S A)"
    and "xor_asm L rd rs1 rs2 = Inr ls \<Longrightarrow> (\<And>t S'. wpa cfg is P (mk cfg L sp st (R(x_tp := t, rd := R rs1 XOR R rs2)) S' A)) \<Longrightarrow>
      wpa cfg (ls @ is) P (mk cfg L sp st R S A)"
proof -
  have tp: "dest_ok cfg x_tp" "x_tp < nr_gpr cfg" by simp_all
  show "wpa cfg (ls @ is) P (mk cfg L sp st R S A)"
    if "and_asm L rd rs1 rs2 = Inr ls" "\<And>t S'. wpa cfg is P (mk cfg L sp st (R(x_tp := t, rd := R rs1 AND R rs2)) S' A)"
    by (rule wpa_logic[OF assms(1,3-6) that(1)[unfolded and_asm_def], where f = "(AND)" and g = "(AND)"])
       (erule (1) wpa_LBU_logic(1)[OF assms(1,2) _ tp], rule word4_logic, rule that(2))
  show "wpa cfg (ls @ is) P (mk cfg L sp st R S A)"
    if "or_asm L rd rs1 rs2 = Inr ls" "\<And>t S'. wpa cfg is P (mk cfg L sp st (R(x_tp := t, rd := R rs1 OR R rs2)) S' A)"
    by (rule wpa_logic[OF assms(1,3-6) that(1)[unfolded or_asm_def], where f = "(OR)" and g = "(OR)"])
       (erule (1) wpa_LBU_logic(2)[OF assms(1,2) _ tp], rule word4_logic, rule that(2))
  show "wpa cfg (ls @ is) P (mk cfg L sp st R S A)"
    if "xor_asm L rd rs1 rs2 = Inr ls" "\<And>t S'. wpa cfg is P (mk cfg L sp st (R(x_tp := t, rd := R rs1 XOR R rs2)) S' A)"
    by (rule wpa_logic[OF assms(1,3-6) that(1)[unfolded xor_asm_def], where f = "(XOR)" and g = "(XOR)"])
       (erule (1) wpa_LBU_logic(3)[OF assms(1,2) _ tp], rule word4_logic, rule that(2))
qed

definition alu_value :: "rv_op \<Rightarrow> u32 \<Rightarrow> u32 \<Rightarrow> u32 \<Rightarrow> u32" where
  "alu_value opc x y i = (case opc of
     ADD \<Rightarrow> x + y | ADDI \<Rightarrow> x + i | LUI \<Rightarrow> i | SUB \<Rightarrow> x - y | SLT \<Rightarrow> flag (sint x < sint y) | SLTU \<Rightarrow> flag (x < y) | AND_op \<Rightarrow> x AND y | OR_op \<Rightarrow> x OR y | XOR_op \<Rightarrow> x XOR y
   | SLL \<Rightarrow> push_bit (unat (y AND 0x1f)) x | SRL \<Rightarrow> drop_bit (unat (y AND 0x1f)) x | SRA \<Rightarrow> signed_drop_bit (unat (y AND 0x1f)) x
   | SLLI \<Rightarrow> push_bit (unat (i AND 0x1f)) x | SRLI \<Rightarrow> drop_bit (unat (i AND 0x1f)) x | SRAI \<Rightarrow> signed_drop_bit (unat (i AND 0x1f)) x
   | SLTI \<Rightarrow> flag (sint x < sint i) | SLTIU \<Rightarrow> flag (x < i) | ANDI \<Rightarrow> x AND i | ORI \<Rightarrow> x OR i | XORI \<Rightarrow> x XOR i
   | _ \<Rightarrow> 0)"

definition base_alu :: "rv_op set" where
  "base_alu = {ADD, ADDI, LUI}"

lemma exec_alu:
  "opc \<in> replaced_alu \<union> base_alu \<Longrightarrow> exec_body cfg opc ops s st = set_rd cfg ops (alu_value opc (src1 ops) (src2 ops) (imm ops)) s st"
  by (auto simp: replaced_alu_def base_alu_def exec_body_def alu_value_def flag_def)

lemma wpa_end: "wpa cfg (ls @ []) P s \<Longrightarrow> wpa cfg ls P s"
  by simp

lemma upd_gp: "R(x_gp := R x_gp, x_tp := t, rd := v) = R(x_tp := t, rd := v)" "R(x_gp := R x_gp, x_tp := R x_tp, rd := v) = R(rd := v)"
  by (auto simp: fun_eq_iff)

lemma wpa_shifts:
  assumes "layout_ok cfg L sp" and "tables_ok cfg L st" and "regs_ok sp R" and "dest_ok cfg rd" and "rs1 < nr_gpr cfg" and "rs2 < nr_gpr cfg"
  shows "(\<And>g t S'. wpa cfg is P (mk cfg L sp st (R(x_gp := g, x_tp := t, rd := drop_bit (unat (R rs2 AND 0x1f)) (R rs1))) S' A)) \<Longrightarrow>
      wpa cfg (srl_asm L rd rs1 rs2 @ is) P (mk cfg L sp st R S A)"
    and "(\<And>g t S'. wpa cfg is P (mk cfg L sp st (R(x_gp := g, x_tp := t, rd := signed_drop_bit (unat (R rs2 AND 0x1f)) (R rs1))) S' A)) \<Longrightarrow>
      wpa cfg (sra_asm L rd rs1 rs2 @ is) P (mk cfg L sp st R S A)"
    and "n < 32 \<Longrightarrow> rd \<noteq> x_tp \<Longrightarrow> (\<And>g t S'. wpa cfg is P (mk cfg L sp st (R(x_gp := g, x_tp := t, rd := drop_bit n (R rs1))) S' A)) \<Longrightarrow>
      wpa cfg (srli_asm L rd rs1 n @ is) P (mk cfg L sp st R S A)"
    and "n < 32 \<Longrightarrow> rd \<noteq> x_tp \<Longrightarrow> (\<And>g t S'. wpa cfg is P (mk cfg L sp st (R(x_gp := g, x_tp := t, rd := signed_drop_bit n (R rs1))) S' A)) \<Longrightarrow>
      wpa cfg (srai_asm L rd rs1 n @ is) P (mk cfg L sp st R S A)"
  unfolding srl_asm_def sra_asm_def srli_asm_def srai_asm_def
  by (rule wpa_shift_reg[OF assms], simp only: shr_value_def if_True if_False)
     (rule wpa_shift_reg[OF assms], simp only: shr_value_def if_True if_False,
      rule wpa_shift_imm[OF assms(1-5)], assumption+, simp only: shr_value_def if_True if_False,
      rule wpa_shift_imm[OF assms(1-5)], assumption+, simp only: shr_value_def if_True if_False)

text \<open>An immediate operand in \<open>tp\<close>.\<close>

lemma wpa_itype:
  assumes "regs_ok sp R"
    and "wpa cfg ls P (mk cfg L sp st (R(x_tp := i)) S A)"
  shows "wpa cfg (ADDI_asm x_tp 0 i # ls) P (mk cfg L sp st R S A)"
  using assms regs_x0_val[OF assms(1)] by (simp add: wpas)

text \<open>The lines end with \<open>v\<close> in \<open>rd\<close>.\<close>

definition yields :: "config \<Rightarrow> syms \<Rightarrow> u32 \<Rightarrow> nemu \<Rightarrow> (nat \<Rightarrow> u32) \<Rightarrow> asm list \<Rightarrow> nat \<Rightarrow> u32 \<Rightarrow> bool" where
  "yields cfg L sp st R ls rd v \<longleftrightarrow>
     (\<forall>P S A. (\<forall>g t S' A'. P (mk cfg L sp st (R(x_gp := g, x_tp := t, rd := v)) S' A')) \<longrightarrow> wpa cfg ls P (mk cfg L sp st R S A))"

lemma yieldsI:
  "(\<And>P S A. (\<And>g t S' A'. wpa cfg [] P (mk cfg L sp st (R(x_gp := g, x_tp := t, rd := v)) S' A')) \<Longrightarrow> wpa cfg (ls @ []) P (mk cfg L sp st R S A)) \<Longrightarrow>
   yields cfg L sp st R ls rd v"
  by (simp add: yields_def)

lemma yields_itype:
  assumes "yields cfg L sp st (R(x_tp := i)) ls rd v" and "regs_ok sp R"
  shows "yields cfg L sp st R (ADDI_asm x_tp 0 i # ls) rd v"
proof -
  have "R(x_tp := i, x_gp := g, x_tp := t, rd := w) = R(x_gp := g, x_tp := t, rd := w)" for g t w by (auto simp: fun_eq_iff)
  note eq = this[simplified]
  show ?thesis unfolding yields_def
  proof (intro allI impI)
    fix P S A
    assume post: "\<forall>g t S' A'. P (mk cfg L sp st (R(x_gp := g, x_tp := t, rd := v)) S' A')"
    have "wpa cfg ls P (mk cfg L sp st (R(x_tp := i)) S A)"
      using assms(1) post by (simp add: yields_def eq)
    then show "wpa cfg (ADDI_asm x_tp 0 i # ls) P (mk cfg L sp st R S A)" by (rule wpa_itype[OF assms(2)])
  qed
qed

lemma yields_macros:
  assumes "layout_ok cfg L sp" and "tables_ok cfg L st" and "regs_ok sp R" and "target_ok cfg rd" and "rs1 < nr_gpr cfg" and "rs2 < nr_gpr cfg"
  shows "rs1 \<noteq> x_tp \<Longrightarrow> yields cfg L sp st R (sub_asm L rd rs1 rs2) rd (R rs1 - R rs2)"
    and "yields cfg L sp st R (slt_asm L rd rs1 rs2) rd (flag (sint (R rs1) < sint (R rs2)))"
    and "yields cfg L sp st R (sltu_asm L rd rs1 rs2) rd (flag (R rs1 < R rs2))"
    and "and_asm L rd rs1 rs2 = Inr ls \<Longrightarrow> yields cfg L sp st R ls rd (R rs1 AND R rs2)"
    and "or_asm L rd rs1 rs2 = Inr ls \<Longrightarrow> yields cfg L sp st R ls rd (R rs1 OR R rs2)"
    and "xor_asm L rd rs1 rs2 = Inr ls \<Longrightarrow> yields cfg L sp st R ls rd (R rs1 XOR R rs2)"
    and "yields cfg L sp st R (sll_asm L rd rs1 rs2) rd (push_bit (unat (R rs2 AND 0x1f)) (R rs1))"
    and "yields cfg L sp st R (srl_asm L rd rs1 rs2) rd (drop_bit (unat (R rs2 AND 0x1f)) (R rs1))"
    and "yields cfg L sp st R (sra_asm L rd rs1 rs2) rd (signed_drop_bit (unat (R rs2 AND 0x1f)) (R rs1))"
    and "n < 32 \<Longrightarrow> yields cfg L sp st R (slli_asm rd rs1 n) rd (push_bit n (R rs1))"
    and "n < 32 \<Longrightarrow> yields cfg L sp st R (srli_asm L rd rs1 n) rd (drop_bit n (R rs1))"
    and "n < 32 \<Longrightarrow> yields cfg L sp st R (srai_asm L rd rs1 n) rd (signed_drop_bit n (R rs1))"
proof -
  have rd: "dest_ok cfg rd" "rd \<noteq> x_tp" using target_dest[OF assms(4)] by simp_all
  note c = assms(1-3) rd(1) assms(5,6)
  show "yields cfg L sp st R (sub_asm L rd rs1 rs2) rd (R rs1 - R rs2)" if "rs1 \<noteq> x_tp"
  proof (rule yieldsI)
    fix P S A
    assume "\<And>g t S' A'. wpa cfg [] P (mk cfg L sp st (R(x_gp := g, x_tp := t, rd := R rs1 - R rs2)) S' A')"
    from this[of "R x_gp"] show "wpa cfg (sub_asm L rd rs1 rs2 @ []) P (mk cfg L sp st R S A)"
      unfolding wpa_sub[OF c that] upd_gp .
  qed
  show "yields cfg L sp st R (slt_asm L rd rs1 rs2) rd (flag (sint (R rs1) < sint (R rs2)))" by (rule yieldsI, rule wpa_slt[OF c])
  show "yields cfg L sp st R (sltu_asm L rd rs1 rs2) rd (flag (R rs1 < R rs2))" by (rule yieldsI, rule wpa_slt[OF c])
  show "yields cfg L sp st R ls rd (R rs1 AND R rs2)" if "and_asm L rd rs1 rs2 = Inr ls"
    by (rule yieldsI, rule wpa_logics(1)[OF c that]) (metis upd_gp(1))
  show "yields cfg L sp st R ls rd (R rs1 OR R rs2)" if "or_asm L rd rs1 rs2 = Inr ls"
    by (rule yieldsI, rule wpa_logics(2)[OF c that]) (metis upd_gp(1))
  show "yields cfg L sp st R ls rd (R rs1 XOR R rs2)" if "xor_asm L rd rs1 rs2 = Inr ls"
    by (rule yieldsI, rule wpa_logics(3)[OF c that]) (metis upd_gp(1))
  show "yields cfg L sp st R (sll_asm L rd rs1 rs2) rd (push_bit (unat (R rs2 AND 0x1f)) (R rs1))" by (rule yieldsI, rule wpa_sll[OF c])
  show "yields cfg L sp st R (srl_asm L rd rs1 rs2) rd (drop_bit (unat (R rs2 AND 0x1f)) (R rs1))" by (rule yieldsI, rule wpa_shifts(1)[OF c])
  show "yields cfg L sp st R (sra_asm L rd rs1 rs2) rd (signed_drop_bit (unat (R rs2 AND 0x1f)) (R rs1))" by (rule yieldsI, rule wpa_shifts(2)[OF c])
  show "yields cfg L sp st R (slli_asm rd rs1 n) rd (push_bit n (R rs1))" if "n < 32"
    by (rule yieldsI, rule wpa_slli[OF assms(1,3) rd(1) assms(5) that]) (metis upd_gp(1))
  show "yields cfg L sp st R (srli_asm L rd rs1 n) rd (drop_bit n (R rs1))" if "n < 32" by (rule yieldsI, rule wpa_shifts(3)[OF c that rd(2)])
  show "yields cfg L sp st R (srai_asm L rd rs1 n) rd (signed_drop_bit n (R rs1))" if "n < 32" by (rule yieldsI, rule wpa_shifts(4)[OF c that rd(2)])
qed

definition operands_ok :: "config \<Rightarrow> asm \<Rightarrow> bool" where
  "operands_ok cfg i \<longleftrightarrow> target_ok cfg (a_rd i) \<and> source_ok cfg (a_rs1 i) \<and> source_ok cfg (a_rs2 i) \<and>
     (is_shift_imm (a_op i) \<longrightarrow> unat (a_imm i) < 32) \<and> (is_logic (a_op i) \<longrightarrow> a_rs1 i \<noteq> x_sp \<and> a_rs2 i \<noteq> x_sp)"

lemma alu_yields:
  assumes "layout_ok cfg L sp" and "tables_ok cfg L st" and "regs_ok sp R" and "operands_ok cfg i" and "a_op i \<in> replaced_alu"
  shows "\<exists>ls. inst_replace L pc i = Inr ls \<and> yields cfg L sp st R ls (a_rd i) (alu_value (a_op i) (R (a_rs1 i)) (R (a_rs2 i)) (a_imm i))"
proof -
  let ?rd = "a_rd i" and ?rs1 = "a_rs1 i" and ?rs2 = "a_rs2 i"
  have rd: "target_ok cfg ?rd" "source_ok cfg ?rs1" "source_ok cfg ?rs2" using assms(4) by (simp_all add: operands_ok_def)
  have rs: "?rs1 < nr_gpr cfg" "?rs2 < nr_gpr cfg" "?rs1 \<noteq> x_tp" using rd by (simp_all add: source_ok_def)
  have tp: "regs_ok sp (R(x_tp := a_imm i))" "x_tp < nr_gpr cfg" "(R(x_tp := a_imm i)) ?rs1 = R ?rs1" using assms(3) rs by simp_all
  note m = yields_macros[OF assms(1-3) rd(1) rs(1,2)] and mi = yields_macros[OF assms(1,2) tp(1) rd(1) rs(1) tp(2)]
  have sh: "unat (a_imm i AND 0x1f) = unat (a_imm i)" "unat (a_imm i) < 32" if "is_shift_imm (a_op i)"
    using assms(4) that shamt_imm[of "a_imm i"] by (simp_all add: operands_ok_def)
  have lg: "\<exists>ls. logic_asm lut ?rd ?rs1 ?rs2 = Inr ls" "\<exists>ls. logic_asm lut ?rd ?rs1 x_tp = Inr ls" if "is_logic (a_op i)" for lut
    using assms(4) that rd by (auto intro!: logic_total simp: operands_ok_def source_ok_def)
  note sel = inst_replace_def alu_value_def Let_def rv_op.case
  from assms(5) consider (r) "a_op i \<in> {SUB, SLT, SLTU, SLL, SRL, SRA}" | (s) "a_op i \<in> {SLLI, SRLI, SRAI}" | (i) "a_op i \<in> {SLTI, SLTIU}"
    | (l) "a_op i \<in> {AND_op, OR_op, XOR_op}" | (li) "a_op i \<in> {ANDI, ORI, XORI}"
    unfolding replaced_alu_def by blast
  then show ?thesis
  proof cases
    case r
    then show ?thesis using m rs(3) by (auto simp: sel)
  next
    case s
    then have "is_shift_imm (a_op i)" by (simp add: is_shift_imm_def)
    then show ?thesis using s m(10-12)[OF sh(2)] sh by (auto simp: sel)
  next
    case i
    then show ?thesis using mi(2,3) tp(3) yields_itype[OF _ assms(3)] by (auto simp: sel slti_asm_def sltiu_asm_def def_itype_def)
  next
    case l
    then have "is_logic (a_op i)" by (auto simp: is_logic_def)
    then obtain la lo lx where "and_asm L ?rd ?rs1 ?rs2 = Inr la" "or_asm L ?rd ?rs1 ?rs2 = Inr lo" "xor_asm L ?rd ?rs1 ?rs2 = Inr lx"
      using lg(1) unfolding and_asm_def or_asm_def xor_asm_def by metis
    then show ?thesis using l m(4-6) by (auto simp: sel)
  next
    case li
    then have "is_logic (a_op i)" by (auto simp: is_logic_def)
    then obtain la lo lx where ls: "and_asm L ?rd ?rs1 x_tp = Inr la" "or_asm L ?rd ?rs1 x_tp = Inr lo" "xor_asm L ?rd ?rs1 x_tp = Inr lx"
      using lg(2) unfolding and_asm_def or_asm_def xor_asm_def by metis
    then show ?thesis using li mi(4)[OF ls(1)] mi(5)[OF ls(2)] mi(6)[OF ls(3)] tp(3) yields_itype[OF _ assms(3)]
      by (auto simp: sel andi_asm_def ori_asm_def xori_asm_def def_itype_logic_def)
  qed
qed

lemma alu_step_after:
  assumes "x0_ok st" and "target_ok cfg (a_rd i)" and "source_ok cfg (a_rs1 i)" and "source_ok cfg (a_rs2 i)" and "a_op i \<in> replaced_alu \<union> base_alu"
  shows "asm_step cfg pc i st =
    Inr (pc + 4, set_gpr (a_rd i) (alu_value (a_op i) (gpr (cpu st) (a_rs1 i)) (gpr (cpu st) (a_rs2 i)) (a_imm i)) st)"
  by (rule asm_step_rd) (use assms target_dest[OF assms(2)] in \<open>simp_all add: exec_alu[OF assms(5)] source_ok_def\<close>)

lemma alu_replaced:
  assumes "minirv_ok cfg L st" and "operands_ok cfg i" and "a_op i \<in> replaced_alu"
  shows "\<exists>ls t. inst_replace L pc i = Inr ls \<and> asm_run cfg pc ls st = Inr (pc + 4 * of_nat (length ls), t) \<and>
    same_but_scratch cfg L (gpr (cpu st) x_sp)
      (set_gpr (a_rd i) (alu_value (a_op i) (gpr (cpu st) (a_rs1 i)) (gpr (cpu st) (a_rs2 i)) (a_imm i)) st) t"
proof -
  let ?v = "alu_value (a_op i) (gpr (cpu st) (a_rs1 i)) (gpr (cpu st) (a_rs2 i)) (a_imm i)"
  obtain ls where ls: "inst_replace L pc i = Inr ls" "yields cfg L (gpr (cpu st) x_sp) st (gpr (cpu st)) ls (a_rd i) ?v"
    using alu_yields[OF minirv_okD[OF assms(1)] assms(2,3)] by blast
  have rd: "target_ok cfg (a_rd i)" using assms(2) by (simp add: operands_ok_def)
  obtain t where "asm_run cfg pc ls st = Inr (pc + 4 * of_nat (length ls), t)"
      "same_but_scratch cfg L (gpr (cpu st) x_sp) (set_gpr (a_rd i) ?v st) t"
    using macro_value[OF assms(1) rd, of ?v ls pc] ls(2) unfolding yields_def by blast
  then show ?thesis using ls(1) by blast
qed

section \<open>Loads and stores\<close>

lemma apart_halves:
  assumes "apart cfg L sp a 2"
  shows "outside cfg L sp a" "outside cfg L sp (a + 1)" "guest_to_host cfg (a + 1) = guest_to_host cfg a + 1"
proof -
  have "guest_to_host cfg a + 1 < unat (CONFIG_MSIZE cfg)" using assms by (simp add: apart_def)
  then show g: "guest_to_host cfg (a + 1) = guest_to_host cfg a + 1" by (rule guest_to_host_succ)
  show "outside cfg L sp a" "outside cfg L sp (a + 1)" using assms unfolding outside_def apart_def g by auto
qed

lemma Mr_half:
  assumes "apart cfg L sp a 2"
  shows "Mr cfg a 2 st = Inr (push_bit 8 (ucast (peek cfg st (a + 1))) OR ucast (peek cfg st a), st)"
proof -
  have "guest_to_host cfg a + 2 \<le> unat (CONFIG_MSIZE cfg)" using assms by (simp add: apart_def)
  moreover have "read_le sp off 2 = push_bit 8 (ucast (sp (off + 1))) OR ucast (sp off)" for sp off by (simp add: numeral_eq_Suc)
  ultimately show ?thesis using paddr_read_pmem[of 2 cfg a "memory st"] apart_halves(3)[OF assms]
    by (simp add: Mr_def vaddr_read_def access_len_def peek_def del: read_le.simps)
qed

lemma Mw_half:
  assumes "apart cfg L sp a 2"
  shows "Mw cfg a 2 v st = Inr (poke cfg (a + 1) (byte v 1) (poke cfg a (byte v 0) st))"
proof -
  have "guest_to_host cfg a + 2 \<le> unat (CONFIG_MSIZE cfg)" using assms by (simp add: apart_def)
  moreover have "write_le sp off 2 v = sp(off := byte v 0, off + 1 := byte v 1)" for sp off by (simp add: numeral_eq_Suc byte_def)
  ultimately show ?thesis using paddr_write_pmem[of 2 cfg a v "memory st"] apart_halves(3)[OF assms]
    by (simp add: Mw_def vaddr_write_def access_len_def poke_def del: write_le.simps)
qed

lemma extend_byte: "ucast (SEXT (ucast (ucast (m :: u8) :: u32)) 8) = (signed_drop_bit 24 (push_bit 24 (ucast m)) :: u32)"
  by (rule bit_word_eqI) (auto simp: bit_ucast_iff SEXT_bit_iff bit_signed_drop_bit_iff bit_push_bit_iff min_def dest: bit_imp_le_length)

lemma extend_half:
  fixes h l :: u8
  shows "push_bit 8 (ucast h) OR ucast l = (ucast l + push_bit 8 (ucast h) :: u32)"
    and "ucast (SEXT (ucast (ucast l + push_bit 8 (ucast h) :: u32)) 16) = (ucast l + signed_drop_bit 16 (push_bit 24 (ucast h)) :: u32)"
proof -
  have "ucast l + push_bit 8 (ucast h) = (ucast l OR push_bit 8 (ucast h) :: u32)"
    by (rule disjunctive_add) (auto simp: bit_ucast_iff bit_push_bit_iff dest: bit_imp_le_length)
  then show o: "push_bit 8 (ucast h) OR ucast l = (ucast l + push_bit 8 (ucast h) :: u32)" by (simp add: or.commute)
  have hb: "bit (signed_drop_bit 16 (push_bit 24 (ucast h)) :: u32) j \<longleftrightarrow> 8 \<le> j \<and> j < 32 \<and> bit h (min (j - 8) 7)" for j
    by (auto simp: bit_signed_drop_bit_iff bit_push_bit_iff bit_ucast_iff min_def dest: bit_imp_le_length)
  have "ucast l + signed_drop_bit 16 (push_bit 24 (ucast h)) = (ucast l OR signed_drop_bit 16 (push_bit 24 (ucast h)) :: u32)"
    by (rule disjunctive_add) (auto simp: bit_ucast_iff hb dest: bit_imp_le_length)
  also have "\<dots> = ucast (SEXT (ucast (push_bit 8 (ucast h) OR ucast l :: u32)) 16)"
    by (rule bit_word_eqI) (auto simp: bit_or_iff bit_ucast_iff hb SEXT_bit_iff bit_push_bit_iff min_def dest: bit_imp_le_length)
  finally show "ucast (SEXT (ucast (ucast l + push_bit 8 (ucast h) :: u32)) 16) = (ucast l + signed_drop_bit 16 (push_bit 24 (ucast h)) :: u32)"
    unfolding o by simp
qed

text \<open>The bytes accessed lie in memory, outside the variables and the array of the macros.\<close>

definition access_width :: "rv_op \<Rightarrow> nat" where
  "access_width opc = (if opc \<in> {LB, LBU, SB} then 1 else if opc \<in> {LH, LHU, SH} then 2 else 4)"

definition data_ok :: "config \<Rightarrow> syms \<Rightarrow> nemu \<Rightarrow> asm \<Rightarrow> bool" where
  "data_ok cfg L st i \<longleftrightarrow> apart cfg L (gpr (cpu st) x_sp) (gpr (cpu st) (a_rs1 i) + a_imm i) (access_width (a_op i))"

lemma apart_1: "apart cfg L sp a 1 \<longleftrightarrow> outside cfg L sp a"
  by (auto simp: apart_def outside_def)

definition load_value :: "config \<Rightarrow> nemu \<Rightarrow> rv_op \<Rightarrow> u32 \<Rightarrow> u32" where
  "load_value cfg st opc a =
     (if opc = LB then signed_drop_bit 24 (push_bit 24 (ucast (peek cfg st a)))
      else if opc = LBU then ucast (peek cfg st a)
      else if opc = LH then ucast (peek cfg st a) + signed_drop_bit 16 (push_bit 24 (ucast (peek cfg st (a + 1))))
      else if opc = LHU then ucast (peek cfg st a) + push_bit 8 (ucast (peek cfg st (a + 1)))
      else word4 (peek cfg st a) (peek cfg st (a + 1)) (peek cfg st (a + 2)) (peek cfg st (a + 3)))"

definition loads :: "rv_op set" where
  "loads = {LB, LBU, LH, LHU, LW}"

lemma apart_bytes:
  assumes "apart cfg L sp a n" and "k < n"
  shows "outside cfg L sp (a + of_nat k)" "guest_to_host cfg (a + of_nat k) = guest_to_host cfg a + k"
proof -
  have "guest_to_host cfg a + k < unat (CONFIG_MSIZE cfg)" using assms by (simp add: apart_def)
  then show g: "guest_to_host cfg (a + of_nat k) = guest_to_host cfg a + k" by (rule guest_to_host_add)
  show "outside cfg L sp (a + of_nat k)" using assms unfolding outside_def apart_def g by auto
qed

lemma apart_words:
  assumes "apart cfg L sp a 4"
  shows "guest_to_host cfg (a + 1) = guest_to_host cfg a + 1" "guest_to_host cfg (a + 2) = guest_to_host cfg a + 2"
    "guest_to_host cfg (a + 3) = guest_to_host cfg a + 3"
  using apart_bytes(2)[OF assms, of 1] apart_bytes(2)[OF assms, of 2] apart_bytes(2)[OF assms, of 3] by simp_all

lemma load_step_after:
  assumes "x0_ok st" and "target_ok cfg (a_rd i)" and "source_ok cfg (a_rs1 i)" and "source_ok cfg (a_rs2 i)" and "a_op i \<in> loads"
    and "data_ok cfg L st i"
  shows "asm_step cfg pc i st = Inr (pc + 4, set_gpr (a_rd i) (load_value cfg st (a_op i) (gpr (cpu st) (a_rs1 i) + a_imm i)) st)"
proof (rule asm_step_rd)
  let ?a = "gpr (cpu st) (a_rs1 i) + a_imm i"
  fix s :: Decode and ops :: operands assume o: "o_rd ops = a_rd i" "src1 ops = gpr (cpu st) (a_rs1 i)" "imm ops = a_imm i"
  have x: "load_op cfg ops n f s st = set_rd cfg ops (f w) s st" if "Mr cfg ?a n st = Inr (w, st)" for n f w
    using that o by (simp add: load_op_def)
  from assms(5) consider "a_op i \<in> {LB, LBU}" | "a_op i \<in> {LH, LHU}" | "a_op i = LW" unfolding loads_def by blast
  then show "exec_body cfg (a_op i) ops s st = set_rd cfg ops (load_value cfg st (a_op i) ?a) s st"
  proof cases
    case 1
    then have "guest_to_host cfg ?a < unat (CONFIG_MSIZE cfg)"
      using assms(6) by (auto simp: data_ok_def access_width_def apart_def)
    then have m: "Mr cfg ?a (Suc 0) st = Inr (ucast (peek cfg st ?a), st)" using Mr_byte by (simp add: peek_def)
    show ?thesis using 1 by (auto simp: exec_body_def x[OF m] load_value_def extend_byte)
  next
    case 2
    then have m: "Mr cfg ?a 2 st = Inr (push_bit 8 (ucast (peek cfg st (?a + 1))) OR ucast (peek cfg st ?a), st)"
      using assms(6) by (intro Mr_half[of cfg L "gpr (cpu st) x_sp"]) (auto simp: data_ok_def access_width_def)
    show ?thesis using 2 by (auto simp: exec_body_def x[OF m] load_value_def extend_half)
  next
    case 3
    then have ap: "apart cfg L (gpr (cpu st) x_sp) ?a 4" using assms(6) by (simp add: data_ok_def access_width_def)
    have m: "Mr cfg ?a 4 st = Inr (word4 (peek cfg st ?a) (peek cfg st (?a + 1)) (peek cfg st (?a + 2)) (peek cfg st (?a + 3)), st)"
      using Mr_word[of cfg ?a st] ap unfolding peek_def apart_words[OF ap] by (simp add: apart_def)
    show ?thesis using 3 by (simp add: exec_body_def x[OF m] load_value_def)
  qed
qed (use assms target_dest[OF assms(2)] in \<open>simp_all add: source_ok_def\<close>)

lemma load_replaced:
  assumes "minirv_ok cfg L st" and "target_ok cfg (a_rd i)" and "source_ok cfg (a_rs1 i)" and "a_op i \<in> {LB, LH, LHU}" and "data_ok cfg L st i"
  shows "\<exists>ls t. inst_replace L pc i = Inr ls \<and> asm_run cfg pc ls st = Inr (pc + 4 * of_nat (length ls), t) \<and>
    same_but_scratch cfg L (gpr (cpu st) x_sp) (set_gpr (a_rd i) (load_value cfg st (a_op i) (gpr (cpu st) (a_rs1 i) + a_imm i)) st) t"
proof -
  let ?sp = "gpr (cpu st) x_sp" and ?R = "gpr (cpu st)"
  let ?a = "?R (a_rs1 i) + a_imm i"
  let ?v = "load_value cfg st (a_op i) ?a"
  have ap: "apart cfg L ?sp ?a (access_width (a_op i))" using assms(5) by (simp add: data_ok_def)
  note ok = minirv_okD[OF assms(1)]
  have rd: "dest_ok cfg (a_rd i)" "a_rd i \<noteq> x_tp" "a_rd i \<noteq> x_gp" using target_dest[OF assms(2)] by simp_all
  have rs: "a_rs1 i < nr_gpr cfg" "a_rs1 i \<noteq> x_gp" "a_rs1 i \<noteq> x_tp" using assms(3) by (simp_all add: source_ok_def)
  have o: "outside cfg L ?sp ?a" using apart_bytes(1)[OF ap, of 0] by (simp add: access_width_def)
  have o1: "outside cfg L ?sp (?a + 1)" if "a_op i \<noteq> LB"
    using apart_bytes(1)[OF ap, of 1] assms(4) that by (auto simp: access_width_def)
  have y: "yields cfg L ?sp st ?R (lb_asm L (a_rd i) (a_imm i) (a_rs1 i)) (a_rd i) (load_value cfg st LB ?a)"
    by (rule yieldsI, rule wpa_lb[OF ok rd(1,2) rs(1) o], simp add: load_value_def)
  have y1: "yields cfg L ?sp st ?R (lh_asm L (a_rd i) (a_imm i) (a_rs1 i)) (a_rd i) (load_value cfg st LH ?a)"
    "yields cfg L ?sp st ?R (lhu_asm (a_rd i) (a_imm i) (a_rs1 i)) (a_rd i) (load_value cfg st LHU ?a)" if "a_op i \<noteq> LB"
    by (rule yieldsI, rule wpa_lh[OF ok rd(1,3) rs(1-3) o o1[OF that]], simp add: load_value_def)
       (rule yieldsI, rule wpa_lhu[OF ok rd(1,2) rs(1,3) o o1[OF that]], simp add: load_value_def)
  have "\<exists>ls. inst_replace L pc i = Inr ls \<and> yields cfg L ?sp st ?R ls (a_rd i) ?v"
    using assms(4) y y1 by (auto simp: inst_replace_def Let_def)
  then obtain ls where ls: "inst_replace L pc i = Inr ls" "yields cfg L ?sp st ?R ls (a_rd i) ?v" by blast
  obtain t where "asm_run cfg pc ls st = Inr (pc + 4 * of_nat (length ls), t)" "same_but_scratch cfg L ?sp (set_gpr (a_rd i) ?v st) t"
    using macro_value[OF assms(1,2), of ?v ls pc] ls(2) unfolding yields_def by blast
  then show ?thesis using ls(1) by blast
qed

lemma mk_poke: "outside cfg L sp a \<Longrightarrow> poke cfg a v (mk cfg L sp st R S A) = mk cfg L sp (poke cfg a v st) R S A"
  by (simp add: poke_def mk_mem_upd_outside[symmetric]) (simp add: mk_def mk_mem_upd_outside)

text \<open>The bytes of a store, lowest first.\<close>

definition stored :: "config \<Rightarrow> u32 \<Rightarrow> u32 \<Rightarrow> nat \<Rightarrow> nemu \<Rightarrow> nemu" where
  "stored cfg a v n st = fold (\<lambda>k. poke cfg (a + of_nat k) (byte v k)) [0..<n] st"

lemma stored_1: "stored cfg a v (Suc 0) st = poke cfg a (byte v 0) st"
  and stored_2: "stored cfg a v 2 st = poke cfg (a + 1) (byte v 1) (poke cfg a (byte v 0) st)"
  and stored_4: "stored cfg a v 4 st =
    poke cfg (a + 3) (byte v 3) (poke cfg (a + 2) (byte v 2) (poke cfg (a + 1) (byte v 1) (poke cfg a (byte v 0) st)))"
  by (simp_all add: stored_def upt_conv_Cons numeral_2_eq_2 numeral_3_eq_3 eval_nat_numeral(2))

definition stores :: "rv_op set" where
  "stores = {SB, SH, SW}"

lemma x0_ok_poke [simp]: "x0_ok (poke cfg a b st) = x0_ok st" "gpr (cpu (poke cfg a b st)) = gpr (cpu st)"
  by (simp_all add: x0_ok_def poke_def)

lemma store_step_after:
  assumes "x0_ok st" and "source_ok cfg (a_rs1 i)" and "source_ok cfg (a_rs2 i)" and "a_op i \<in> stores" and "data_ok cfg L st i"
  shows "asm_step cfg pc i st =
    Inr (pc + 4, stored cfg (gpr (cpu st) (a_rs1 i) + a_imm i) (gpr (cpu st) (a_rs2 i)) (access_width (a_op i)) st)"
proof -
  let ?a = "gpr (cpu st) (a_rs1 i) + a_imm i" and ?v = "gpr (cpu st) (a_rs2 i)"
  have ap: "apart cfg L (gpr (cpu st) x_sp) ?a (access_width (a_op i))" using assms(5) by (simp add: data_ok_def)
  have rs: "a_rs1 i < nr_gpr cfg" "a_rs2 i < nr_gpr cfg" using assms(2,3) by (simp_all add: source_ok_def)
  from assms(4) consider "a_op i = SB" | "a_op i = SH" | "a_op i = SW" unfolding stores_def by blast
  then show ?thesis
  proof cases
    case 1
    then have "guest_to_host cfg ?a < unat (CONFIG_MSIZE cfg)" using ap by (simp add: access_width_def apart_def)
    then have "Mw cfg ?a (Suc 0) ?v st = Inr (poke cfg ?a (byte ?v 0) st)" using Mw_byte by (simp add: poke_def)
    then show ?thesis using 1 rs assms(1)
      by (simp add: asm_step_def exec_body_def store_op_def R_get_ok R_set_x0 access_width_def stored_1)
  next
    case 2
    then have "Mw cfg ?a 2 ?v st = Inr (poke cfg (?a + 1) (byte ?v 1) (poke cfg ?a (byte ?v 0) st))"
      using ap by (intro Mw_half[of cfg L "gpr (cpu st) x_sp"]) (simp add: access_width_def)
    then show ?thesis using 2 rs assms(1)
      by (simp add: asm_step_def exec_body_def store_op_def R_get_ok R_set_x0 access_width_def stored_2)
  next
    case 3
    then have ap4: "apart cfg L (gpr (cpu st) x_sp) ?a 4" using ap by (simp add: access_width_def)
    then have "Mw cfg ?a 4 ?v st = Inr (stored cfg ?a ?v 4 st)"
      using Mw_word[of cfg ?a ?v st] unfolding stored_4 poke_def apart_words[OF ap4] by (simp add: apart_def)
    then show ?thesis using 3 rs assms(1)
      by (simp add: asm_step_def exec_body_def store_op_def R_get_ok R_set_x0 access_width_def) (simp add: stored_4 R_set_x0)
  qed
qed

lemma sh_replaced:
  assumes "minirv_ok cfg L st" and "source_ok cfg (a_rs1 i)" and "source_ok cfg (a_rs2 i)" and "a_op i = SH" and "data_ok cfg L st i"
  shows "\<exists>ls t. inst_replace L pc i = Inr ls \<and> asm_run cfg pc ls st = Inr (pc + 4 * of_nat (length ls), t) \<and>
    same_but_scratch cfg L (gpr (cpu st) x_sp) (stored cfg (gpr (cpu st) (a_rs1 i) + a_imm i) (gpr (cpu st) (a_rs2 i)) 2 st) t"
proof -
  let ?sp = "gpr (cpu st) x_sp" and ?R = "gpr (cpu st)" and ?v = "gpr (cpu st) (a_rs2 i)"
  let ?a = "?R (a_rs1 i) + a_imm i"
  let ?st = "poke cfg (?a + 1) (byte ?v 1) (poke cfg ?a (byte ?v 0) st)"
  have ap: "apart cfg L ?sp ?a 2" using assms(4,5) by (simp add: data_ok_def access_width_def)
  note o = apart_halves(1,2)[OF ap]
  note ok = minirv_okD[OF assms(1)]
  have rs: "a_rs1 i < nr_gpr cfg" "a_rs2 i < nr_gpr cfg" "a_rs1 i \<noteq> x_tp" using assms(2,3) by (simp_all add: source_ok_def)
  have s: "?st = mk cfg L ?sp ?st ?R (st_vars cfg st) (st_array cfg L st)"
    using st_mk[of st cfg L] mk_poke[OF o(1)] mk_poke[OF o(2)] by metis
  have post: "wpa cfg [] (\<lambda>t. same_but_scratch cfg L ?sp ?st t) (mk cfg L ?sp ?st (?R(x_tp := t)) S' (st_array cfg L st))" for t S'
    unfolding wpa_Nil by (rule same_mk[OF s]) simp
  have "wpa cfg (sh_asm (a_rs2 i) (a_imm i) (a_rs1 i) @ []) (\<lambda>t. same_but_scratch cfg L ?sp ?st t)
      (mk cfg L ?sp st ?R (st_vars cfg st) (st_array cfg L st))"
    by (rule wpa_sh_data[OF ok(1,3) rs(2,1,3) o post])
  then have "\<exists>t. asm_run cfg pc (sh_asm (a_rs2 i) (a_imm i) (a_rs1 i)) st = Inr (pc + 4 * of_nat (length (sh_asm (a_rs2 i) (a_imm i) (a_rs1 i))), t) \<and>
      same_but_scratch cfg L ?sp ?st t"
    unfolding wpa_def append_Nil2 st_mk[of st cfg L, symmetric] by blast
  then show ?thesis using assms(4) by (auto simp: inst_replace_def Let_def stored_2)
qed

section \<open>Branches\<close>

lemma flag_sgn: "sgn_bit v = flag (sint v < 0)"
  by (simp add: sgn_bit_def flag_def)

lemma yields_conds:
  assumes "layout_ok cfg L sp" and "tables_ok cfg L st" and "regs_ok sp R" and "source_ok cfg rs1" and "source_ok cfg rs2"
  shows "yields cfg L sp st R (eq_cond L rs1 rs2) x_tp (flag (R rs1 = R rs2))"
    and "yields cfg L sp st R (slt_asm L x_tp rs1 rs2) x_tp (flag (sint (R rs1) < sint (R rs2)))"
    and "yields cfg L sp st R (sltu_asm L x_tp rs1 rs2) x_tp (flag (R rs1 < R rs2))"
    and "yields cfg L sp st R (nonpos_cond L rs1) x_tp (flag (sint (R rs1) \<le> 0))"
    and "yields cfg L sp st R (msb_asm x_tp rs1) x_tp (flag (sint (R rs1) < 0))"
proof -
  have rs: "rs1 < nr_gpr cfg" "rs2 < nr_gpr cfg" "rs1 \<noteq> x_gp" using assms(4,5) by (simp_all add: source_ok_def)
  have tp: "dest_ok cfg x_tp" by simp
  have s0: "R(x_gp := g, x_tp := t, x_tp := v, x_s0 := R x_s0) = R(x_gp := g, x_tp := t, x_tp := v)" for g t v by (auto simp: fun_eq_iff)
  have r0: "R 0 = 0" using regs_x0_val[OF assms(3)] .
  have z: "yields cfg L sp st R (seqz_asm L x_tp rs) x_tp (flag (R rs = 0))" if "rs < nr_gpr cfg" for rs
    by (rule yieldsI, rule wpa_seqz[OF assms(1-3) tp that], simp only: s0)
  have q: "yields cfg L sp st R (seq_asm L x_tp rs1 rs2) x_tp (flag (R rs1 = R rs2))"
    by (rule yieldsI, rule wpa_seq[OF assms(1-3) tp _ _ rs(1,2)]) simp_all
  show "yields cfg L sp st R (eq_cond L rs1 rs2) x_tp (flag (R rs1 = R rs2))"
  proof -
    consider "rs2 = 0" | "rs2 \<noteq> 0" "rs1 = 0" | "rs2 \<noteq> 0" "rs1 \<noteq> 0" by blast
    then show ?thesis
    proof cases
      case 1
      show ?thesis using z[OF rs(1)] by (simp only: eq_cond_def 1 r0 simp_thms if_True)
    next
      case 2
      have "(R rs1 = R rs2) = (R rs2 = 0)" using 2(2) r0 by auto
      then show ?thesis using z[OF rs(2)] by (simp only: eq_cond_def 2 simp_thms if_True if_False)
    next
      case 3
      show ?thesis using q by (simp only: eq_cond_def 3 simp_thms if_False)
    qed
  qed
  show "yields cfg L sp st R (slt_asm L x_tp rs1 rs2) x_tp (flag (sint (R rs1) < sint (R rs2)))"
    by (rule yieldsI, rule wpa_slt[OF assms(1-3) tp rs(1,2)])
  show "yields cfg L sp st R (sltu_asm L x_tp rs1 rs2) x_tp (flag (R rs1 < R rs2))"
    by (rule yieldsI, rule wpa_slt[OF assms(1-3) tp rs(1,2)])
  show "yields cfg L sp st R (nonpos_cond L rs1) x_tp (flag (sint (R rs1) \<le> 0))"
    by (rule yieldsI, rule wpa_nonpos[OF assms(1-3) rs(1,3)])
  show "yields cfg L sp st R (msb_asm x_tp rs1) x_tp (flag (sint (R rs1) < 0))"
  proof (rule yieldsI)
    fix P S A
    assume "\<And>g t S' A'. wpa cfg [] P (mk cfg L sp st (R(x_gp := g, x_tp := t, x_tp := flag (sint (R rs1) < 0))) S' A')"
    from this[of "R x_gp" 0] show "wpa cfg (msb_asm x_tp rs1 @ []) P (mk cfg L sp st R S A)"
      unfolding wpa_msb[OF assms(1,3) tp rs(1)] flag_sgn fun_upd_upd fun_upd_triv .
  qed
qed

definition branch_ops :: "rv_op set" where
  "branch_ops = {BEQ, BNE, BLT, BGE, BLTU, BGEU}"

definition taken :: "rv_op \<Rightarrow> u32 \<Rightarrow> u32 \<Rightarrow> bool" where
  "taken opc x y = (case opc of BEQ \<Rightarrow> x = y | BNE \<Rightarrow> x \<noteq> y | BLT \<Rightarrow> sint x < sint y | BGE \<Rightarrow> sint x \<ge> sint y
     | BLTU \<Rightarrow> x < y | BGEU \<Rightarrow> x \<ge> y | _ \<Rightarrow> False)"

lemma branch_macro:
  assumes "layout_ok cfg L sp" and "tables_ok cfg L st" and "regs_ok sp R" and "source_ok cfg (a_rs1 i)" and "source_ok cfg (a_rs2 i)"
    and "a_op i \<in> branch_ops"
  shows "\<exists>c h cond. inst_replace L pc i = Inr (with_resolve pc (pc + a_imm i) h cond) \<and> yields cfg L sp st R cond x_tp (flag c) \<and>
    (taken (a_op i) (R (a_rs1 i)) (R (a_rs2 i)) \<longleftrightarrow> c = h)"
proof -
  let ?x = "R (a_rs1 i)" and ?y = "R (a_rs2 i)"
  note y = yields_conds[OF assms(1-5)] and y2 = yields_conds(4)[OF assms(1-3,5,4)]
  have r0: "R 0 = 0" using regs_x0_val[OF assms(3)] .
  note sel = inst_replace_def Let_def taken_def beq_asm_def bne_asm_def blt_asm_def bge_asm_def bltu_asm_def bgeu_asm_def
  consider "a_op i = BEQ" | "a_op i = BNE" | "a_op i = BLTU" | "a_op i = BGEU" | "a_op i = BLT" | "a_op i = BGE"
    using assms(6) by (auto simp: branch_ops_def)
  then show ?thesis
  proof cases
    case 1
    then show ?thesis using y(1) by (intro exI[of _ "?x = ?y"] exI[of _ True] exI[of _ "eq_cond L (a_rs1 i) (a_rs2 i)"]) (simp add: sel)
  next
    case 2
    then show ?thesis using y(1) by (intro exI[of _ "?x = ?y"] exI[of _ False] exI[of _ "eq_cond L (a_rs1 i) (a_rs2 i)"]) (simp add: sel)
  next
    case 3
    then show ?thesis using y(3) by (intro exI[of _ "?x < ?y"] exI[of _ True] exI[of _ "sltu_asm L x_tp (a_rs1 i) (a_rs2 i)"]) (simp add: sel)
  next
    case 4
    then show ?thesis using y(3)
      by (intro exI[of _ "?x < ?y"] exI[of _ False] exI[of _ "sltu_asm L x_tp (a_rs1 i) (a_rs2 i)"]) (simp add: sel not_less)
  next
    case 5
    consider "a_rs2 i = 0" | "a_rs2 i \<noteq> 0" "a_rs1 i = 0" | "a_rs2 i \<noteq> 0" "a_rs1 i \<noteq> 0" by blast
    then show ?thesis
    proof cases
      case 1
      then show ?thesis using 5 y(5) r0 by (intro exI[of _ "sint ?x < 0"] exI[of _ True] exI[of _ "msb_asm x_tp (a_rs1 i)"]) (simp add: sel)
    next
      case 2
      then show ?thesis using 5 y2 r0
        by (intro exI[of _ "sint ?y \<le> 0"] exI[of _ False] exI[of _ "nonpos_cond L (a_rs2 i)"]) (simp add: sel not_le)
    next
      case 3
      then show ?thesis using 5 y(2)
        by (intro exI[of _ "sint ?x < sint ?y"] exI[of _ True] exI[of _ "slt_asm L x_tp (a_rs1 i) (a_rs2 i)"]) (simp add: sel)
    qed
  next
    case 6
    show ?thesis
    proof (cases "a_rs1 i = 0")
      case True
      then show ?thesis using 6 y2 r0
        by (intro exI[of _ "sint ?y \<le> 0"] exI[of _ True] exI[of _ "nonpos_cond L (a_rs2 i)"]) (simp add: sel)
    next
      case False
      then show ?thesis using 6 y(2)
        by (intro exI[of _ "sint ?x < sint ?y"] exI[of _ False] exI[of _ "slt_asm L x_tp (a_rs1 i) (a_rs2 i)"]) (simp add: sel not_less)
    qed
  qed
qed

lemma exec_branch:
  assumes "x0_ok st" and "a_rs1 i < nr_gpr cfg" and "a_rs2 i < nr_gpr cfg" and "a_op i \<in> branch_ops"
  shows "asm_step cfg pc i st = Inr (if taken (a_op i) (gpr (cpu st) (a_rs1 i)) (gpr (cpu st) (a_rs2 i)) then pc + a_imm i else pc + 4, st)"
  using assms by (auto simp: branch_ops_def asm_step_def exec_body_def branch_def R_get_ok R_set_x0 taken_def)

lemma branch_resolves:
  assumes "minirv_ok cfg L st" and "source_ok cfg (a_rs1 i)" and "source_ok cfg (a_rs2 i)" and "a_op i \<in> branch_ops"
    and "even pc" and "even (a_imm i)"
  shows "\<exists>ls t. inst_replace L pc i = Inr ls \<and> same_but_scratch cfg L (gpr (cpu st) x_sp) st t \<and>
    asm_run cfg pc ls st = Inr (if taken (a_op i) (gpr (cpu st) (a_rs1 i)) (gpr (cpu st) (a_rs2 i)) then pc + a_imm i
      else pc + 4 * of_nat (length ls), t)"
proof -
  let ?sp = "gpr (cpu st) x_sp" and ?R = "gpr (cpu st)"
  note ok = minirv_okD[OF assms(1)]
  obtain c h cond where m: "inst_replace L pc i = Inr (with_resolve pc (pc + a_imm i) h cond)" "yields cfg L ?sp st ?R cond x_tp (flag c)"
      "taken (a_op i) (?R (a_rs1 i)) (?R (a_rs2 i)) \<longleftrightarrow> c = h"
    using branch_macro[OF ok assms(2-4)] by blast
  let ?ls = "with_resolve pc (pc + a_imm i) h cond"
  let ?Q = "\<lambda>pc' t. pc' = (if c = h then pc + a_imm i else pc + 4 * of_nat (length ?ls)) \<and> same_but_scratch cfg L ?sp st t"
  have "wpj cfg pc ?ls ?Q (mk cfg L ?sp st ?R (st_vars cfg st) (st_array cfg L st))"
  proof (rule wpj_with_resolve[OF ok(1) assms(5) _ ok(3), where c = c])
    show "wpa cfg cond Q' (mk cfg L ?sp st ?R (st_vars cfg st) (st_array cfg L st))"
      if "\<And>g t S' A'. Q' (mk cfg L ?sp st (?R(x_gp := g, x_tp := t, x_tp := flag c)) S' A')" for Q'
      using m(2) that unfolding yields_def by blast
    show "?Q (if c = h then pc + a_imm i else pc + 4 * of_nat (length ?ls)) (mk cfg L ?sp st (?R(x_gp := g, x_tp := t)) S' A')" for g t S' A'
      by (intro conjI refl same_mk[OF st_mk]) simp
  qed (use assms(5,6) in simp)
  then show ?thesis using m(1,3) unfolding wpj_def st_mk[of st cfg L, symmetric] by auto
qed

section \<open>Blocks\<close>

text \<open>No byte of a table lies at \<open>a, ..., a + n - 1\<close>.\<close>

definition off_tables :: "config \<Rightarrow> syms \<Rightarrow> u32 \<Rightarrow> nat \<Rightarrow> bool" where
  "off_tables cfg L a n \<longleftrightarrow> (\<forall>(b, bs) \<in> set (table_list L).
     guest_to_host cfg a + n \<le> guest_to_host cfg b \<or> guest_to_host cfg b + length bs \<le> guest_to_host cfg a)"

text \<open>The instructions of a block: registers the compiler uses, data apart from what the macros own.\<close>

definition inst_ok :: "config \<Rightarrow> syms \<Rightarrow> nemu \<Rightarrow> asm \<Rightarrow> bool" where
  "inst_ok cfg L st i \<longleftrightarrow> source_ok cfg (a_rs1 i) \<and> source_ok cfg (a_rs2 i) \<and>
     (if a_op i \<in> replaced_alu then operands_ok cfg i
      else if a_op i \<in> base_alu then target_ok cfg (a_rd i)
      else if a_op i \<in> loads then target_ok cfg (a_rd i) \<and> data_ok cfg L st i
      else a_op i \<in> stores \<and> data_ok cfg L st i \<and>
        off_tables cfg L (gpr (cpu st) (a_rs1 i) + a_imm i) (access_width (a_op i)))"

definition after :: "config \<Rightarrow> asm \<Rightarrow> nemu \<Rightarrow> nemu" where
  "after cfg i st =
     (if a_op i \<in> stores then stored cfg (gpr (cpu st) (a_rs1 i) + a_imm i) (gpr (cpu st) (a_rs2 i)) (access_width (a_op i)) st
      else set_gpr (a_rd i) (if a_op i \<in> loads then load_value cfg st (a_op i) (gpr (cpu st) (a_rs1 i) + a_imm i)
        else alu_value (a_op i) (gpr (cpu st) (a_rs1 i)) (gpr (cpu st) (a_rs2 i)) (a_imm i)) st)"

lemma ops_disjoint:
  "opc \<in> replaced_alu \<Longrightarrow> opc \<notin> loads \<and> opc \<notin> stores" "opc \<in> base_alu \<Longrightarrow> opc \<notin> loads \<and> opc \<notin> stores" "opc \<in> loads \<Longrightarrow> opc \<notin> stores"
  by (auto simp: replaced_alu_def base_alu_def loads_def stores_def)

lemma inst_ok_cases:
  assumes "inst_ok cfg L st i"
  obtains (alu) "a_op i \<in> replaced_alu" "operands_ok cfg i" "target_ok cfg (a_rd i)"
    | (base) "a_op i \<in> base_alu" "a_op i \<notin> replaced_alu" "target_ok cfg (a_rd i)"
    | (load) "a_op i \<in> loads" "target_ok cfg (a_rd i)" "data_ok cfg L st i"
    | (store) "a_op i \<in> stores" "data_ok cfg L st i" "off_tables cfg L (gpr (cpu st) (a_rs1 i) + a_imm i) (access_width (a_op i))"
  using assms unfolding inst_ok_def operands_ok_def by (metis (full_types))

lemma inst_step:
  assumes "x0_ok st" and "inst_ok cfg L st i"
  shows "asm_step cfg pc i st = Inr (pc + 4, after cfg i st)"
proof -
  have s: "source_ok cfg (a_rs1 i)" "source_ok cfg (a_rs2 i)" using assms(2) by (simp_all add: inst_ok_def)
  from assms(2) show ?thesis
  proof (cases rule: inst_ok_cases)
    case alu
    then show ?thesis using alu_step_after[OF assms(1) alu(3) s] ops_disjoint(1)[OF alu(1)] by (simp add: after_def)
  next
    case base
    then show ?thesis using alu_step_after[OF assms(1) base(3) s] ops_disjoint(2)[OF base(1)] by (simp add: after_def)
  next
    case load
    then show ?thesis using load_step_after[OF assms(1) load(2) s load(1,3)] ops_disjoint(3)[OF load(1)] by (simp add: after_def)
  next
    case store
    then show ?thesis using store_step_after[OF assms(1) s store(1,2)] by (simp add: after_def)
  qed
qed

text \<open>The relation.\<close>

lemma same_refl: "same_but_scratch cfg L sp s s"
  by (simp add: same_but_scratch_def)

lemma same_trans:
  assumes "same_but_scratch cfg L sp s t" and "same_but_scratch cfg L sp t u"
  shows "same_but_scratch cfg L sp s u"
proof -
  have "(cpu u)\<lparr>gpr := gpr (cpu s)\<rparr> = ((cpu u)\<lparr>gpr := gpr (cpu t)\<rparr>)\<lparr>gpr := gpr (cpu s)\<rparr>" by simp
  moreover have "u\<lparr>cpu := cpu s, memory := memory s\<rparr> = (u\<lparr>cpu := cpu t, memory := memory t\<rparr>)\<lparr>cpu := cpu s, memory := memory s\<rparr>" by simp
  ultimately show ?thesis using assms unfolding same_but_scratch_def by metis
qed

lemma same_gpr: "same_but_scratch cfg L sp s t \<Longrightarrow> r \<noteq> x_gp \<Longrightarrow> r \<noteq> x_tp \<Longrightarrow> gpr (cpu t) r = gpr (cpu s) r"
  by (simp add: same_but_scratch_def)

lemma same_peek: "same_but_scratch cfg L sp s t \<Longrightarrow> outside cfg L sp a \<Longrightarrow> peek cfg t a = peek cfg s a"
  by (auto simp: same_but_scratch_def peek_def outside_def apart_def scratch_byte_def)

lemma same_set_gpr: "same_but_scratch cfg L sp s t \<Longrightarrow> same_but_scratch cfg L sp (set_gpr r v s) (set_gpr r v t)"
  by (cases s; cases t; cases "cpu s"; cases "cpu t") (simp add: same_but_scratch_def set_gpr_def)

lemma same_poke: "same_but_scratch cfg L sp s t \<Longrightarrow> same_but_scratch cfg L sp (poke cfg a v s) (poke cfg a v t)"
  by (cases s; cases t) (simp add: same_but_scratch_def poke_def)

lemma same_stored: "same_but_scratch cfg L sp s t \<Longrightarrow> same_but_scratch cfg L sp (stored cfg a v n s) (stored cfg a v n t)"
  unfolding stored_def by (induction n) (simp_all add: same_poke)

lemma same_inst_ok:
  assumes "same_but_scratch cfg L (gpr (cpu s) x_sp) s t" and "inst_ok cfg L s i"
  shows "inst_ok cfg L t i"
proof -
  have "a_rs1 i \<noteq> x_gp" "a_rs1 i \<noteq> x_tp" using assms(2) by (simp_all add: inst_ok_def source_ok_def)
  then have "gpr (cpu t) (a_rs1 i) = gpr (cpu s) (a_rs1 i)" "gpr (cpu t) x_sp = gpr (cpu s) x_sp" using same_gpr[OF assms(1)] by simp_all
  then show ?thesis using assms(2) unfolding inst_ok_def data_ok_def by simp
qed

lemma same_after:
  assumes "same_but_scratch cfg L (gpr (cpu s) x_sp) s t" and "inst_ok cfg L s i"
  shows "same_but_scratch cfg L (gpr (cpu s) x_sp) (after cfg i s) (after cfg i t)"
proof -
  let ?a = "gpr (cpu s) (a_rs1 i) + a_imm i" and ?n = "access_width (a_op i)"
  have "source_ok cfg (a_rs1 i)" "source_ok cfg (a_rs2 i)" using assms(2) by (simp_all add: inst_ok_def)
  then have r: "gpr (cpu t) (a_rs1 i) = gpr (cpu s) (a_rs1 i)" "gpr (cpu t) (a_rs2 i) = gpr (cpu s) (a_rs2 i)"
    using same_gpr[OF assms(1)] by (simp_all add: source_ok_def)
  have "load_value cfg t (a_op i) ?a = load_value cfg s (a_op i) ?a" if "data_ok cfg L s i" "a_op i \<in> loads"
  proof -
    have p: "peek cfg t (?a + of_nat k) = peek cfg s (?a + of_nat k)" if "k < ?n" for k
      using same_peek[OF assms(1)] apart_bytes(1)[of cfg L _ ?a ?n k] that \<open>data_ok cfg L s i\<close> by (simp add: data_ok_def)
    show ?thesis using that(2) p[of 0] p[of 1] p[of 2] p[of 3] by (auto simp: load_value_def access_width_def loads_def)
  qed
  moreover have "data_ok cfg L s i" if "a_op i \<in> loads"
    using assms(2) that by (cases rule: inst_ok_cases) (auto dest: ops_disjoint)
  ultimately show ?thesis using same_set_gpr[OF assms(1)] same_stored[OF assms(1)] r by (simp add: after_def)
qed

lemma same_minirv_ok:
  assumes "minirv_ok cfg L s" and "same_but_scratch cfg L (gpr (cpu s) x_sp) s t"
  shows "minirv_ok cfg L t"
proof -
  have "\<not> scratch_byte cfg L (gpr (cpu s) x_sp) (guest_to_host cfg a + k)" if "(a, bs) \<in> set (table_list L)" "k < length bs" for a bs k
    using assms(1) that by (fastforce simp: minirv_ok_def layout_ok_def apart_def scratch_byte_def)
  then have "tables_ok cfg L t" using assms unfolding minirv_ok_def tables_ok_def loaded_def same_but_scratch_def by fastforce
  then show ?thesis using assms same_gpr[OF assms(2)] by (simp add: minirv_ok_def x0_ok_def)
qed

lemma pmem_stored:
  assumes "\<And>k. k < n \<Longrightarrow> guest_to_host cfg (a + of_nat k) = guest_to_host cfg a + k"
    and "h < guest_to_host cfg a \<or> guest_to_host cfg a + n \<le> h"
  shows "pmem (memory (stored cfg a v n st)) h = pmem (memory st) h"
  using assms unfolding stored_def by (induction n) (auto simp: poke_def)

lemma stored_gpr [simp]: "gpr (cpu (stored cfg a v n st)) = gpr (cpu st)"
  unfolding stored_def by (induction n) simp_all

lemma after_minirv_ok:
  assumes "minirv_ok cfg L st" and "inst_ok cfg L st i"
  shows "minirv_ok cfg L (after cfg i st)" and "gpr (cpu (after cfg i st)) x_sp = gpr (cpu st) x_sp"
proof -
  let ?a = "gpr (cpu st) (a_rs1 i) + a_imm i" and ?n = "access_width (a_op i)"
  have "minirv_ok cfg L (after cfg i st) \<and> gpr (cpu (after cfg i st)) x_sp = gpr (cpu st) x_sp"
  proof (cases "a_op i \<in> stores")
    case True
    have d: "data_ok cfg L st i" "off_tables cfg L ?a ?n"
      using True assms(2) ops_disjoint[of "a_op i"] by (auto simp: inst_ok_def split: if_splits)
    have "guest_to_host cfg (?a + of_nat k) = guest_to_host cfg ?a + k" if "k < ?n" for k
      using apart_bytes(2) d(1) that unfolding data_ok_def by blast
    note m = pmem_stored[OF this]
    have "tables_ok cfg L (stored cfg ?a v ?n st)" for v
      unfolding tables_ok_def loaded_def
    proof (clarify, goal_cases)
      case (1 b bs k)
      then have "guest_to_host cfg b + k < guest_to_host cfg ?a \<or> guest_to_host cfg ?a + ?n \<le> guest_to_host cfg b + k"
        using d(2) unfolding off_tables_def by fastforce
      then show ?case using 1 assms(1) m by (fastforce simp: minirv_ok_def tables_ok_def loaded_def)
    qed
    then show ?thesis using True assms(1) by (simp add: after_def minirv_ok_def x0_ok_def)
  next
    case False
    have "target_ok cfg (a_rd i)" using assms(2) False by (cases rule: inst_ok_cases) auto
    then show ?thesis using False assms(1) target_dest[of cfg "a_rd i"]
      by (simp add: after_def minirv_ok_def x0_ok_def set_gpr_def tables_ok_def loaded_def)
  qed
  then show "minirv_ok cfg L (after cfg i st)" "gpr (cpu (after cfg i st)) x_sp = gpr (cpu st) x_sp" by simp_all
qed

lemma inst_replaced:
  assumes "minirv_ok cfg L st" and "inst_ok cfg L st i"
  shows "\<exists>ls t. inst_replace L pc i = Inr ls \<and> asm_run cfg pc' ls st = Inr (pc' + 4 * of_nat (length ls), t) \<and>
    same_but_scratch cfg L (gpr (cpu st) x_sp) (after cfg i st) t"
proof -
  have x0: "x0_ok st" using assms(1) by (simp add: minirv_ok_def)
  have s: "source_ok cfg (a_rs1 i)" "source_ok cfg (a_rs2 i)" using assms(2) by (simp_all add: inst_ok_def)
  have nj: "inst_replace L pc i = inst_replace L pc' i" if "a_op i \<in> replaced_alu \<union> base_alu \<union> loads \<union> stores"
    using that by (auto simp: inst_replace_def Let_def replaced_alu_def base_alu_def loads_def stores_def)
  have single: ?thesis if "inst_replace L pc i = Inr [i]"
    using that inst_step[OF x0 assms(2)] by (intro exI[of _ "[i]"]) (simp add: same_refl)
  from assms(2) show ?thesis
  proof (cases rule: inst_ok_cases)
    case alu
    then show ?thesis using alu_replaced[OF assms(1) alu(2,1), of pc'] ops_disjoint(1)[OF alu(1)] nj by (simp add: after_def)
  next
    case base
    then show ?thesis by (intro single) (auto simp: base_alu_def inst_replace_def Let_def)
  next
    case load
    show ?thesis
    proof (cases "a_op i \<in> {LB, LH, LHU}")
      case True
      then show ?thesis using load_replaced[OF assms(1) load(2) s(1) True load(3), of pc'] ops_disjoint(3)[OF load(1)] nj load(1)
        by (simp add: after_def)
    next
      case False
      then show ?thesis using load(1) by (intro single) (auto simp: loads_def inst_replace_def Let_def)
    qed
  next
    case store
    show ?thesis
    proof (cases "a_op i = SH")
      case True
      then show ?thesis using sh_replaced[OF assms(1) s True store(2), of pc'] nj store(1)
        by (simp add: after_def access_width_def)
    next
      case False
      then show ?thesis using store(1) by (intro single) (auto simp: stores_def inst_replace_def Let_def)
    qed
  qed
qed

text \<open>A block of such instructions, and its replacement.\<close>

fun block_ok :: "config \<Rightarrow> syms \<Rightarrow> u32 \<Rightarrow> nemu \<Rightarrow> asm list \<Rightarrow> bool" where
  "block_ok cfg L pc st [] = True"
| "block_ok cfg L pc st (i # is) = (inst_ok cfg L st i \<and>
     (case asm_step cfg pc i st of Inr (pc', st') \<Rightarrow> block_ok cfg L pc' st' is | Inl _ \<Rightarrow> False))"

fun replace_block :: "syms \<Rightarrow> u32 \<Rightarrow> asm list \<Rightarrow> asm list res" where
  "replace_block L pc [] = Inr []"
| "replace_block L pc (i # is) = bind_res (inst_replace L pc i) (\<lambda>ls.
     bind_res (replace_block L (pc + 4 * of_nat (length ls)) is) (\<lambda>rest. Inr (ls @ rest)))"

lemma block_replaced:
  assumes "minirv_ok cfg L st" and "block_ok cfg L pc st is" and "same_but_scratch cfg L (gpr (cpu st) x_sp) st t"
  shows "\<exists>ls s' t'. replace_block L pc' is = Inr ls \<and> asm_run cfg pc is st = Inr (pc + 4 * of_nat (length is), s') \<and>
    asm_run cfg pc' ls t = Inr (pc' + 4 * of_nat (length ls), t') \<and> same_but_scratch cfg L (gpr (cpu st) x_sp) s' t'"
  using assms
proof (induction "is" arbitrary: pc pc' st t)
  case (Cons i "is")
  let ?sp = "gpr (cpu st) x_sp"
  have ok: "inst_ok cfg L st i" using Cons.prems(2) by simp
  have step: "asm_step cfg pc i st = Inr (pc + 4, after cfg i st)" by (rule inst_step) (use Cons.prems(1) ok in \<open>simp_all add: minirv_ok_def\<close>)
  have sp: "gpr (cpu t) x_sp = ?sp" using same_gpr[OF Cons.prems(3), of x_sp] by simp
  obtain ls u where u: "inst_replace L pc' i = Inr ls" "asm_run cfg pc' ls t = Inr (pc' + 4 * of_nat (length ls), u)"
      "same_but_scratch cfg L ?sp (after cfg i t) u"
    using inst_replaced[OF same_minirv_ok[OF Cons.prems(1,3)] same_inst_ok[OF Cons.prems(3) ok], of pc' pc'] sp by auto
  have su: "same_but_scratch cfg L ?sp (after cfg i st) u" by (rule same_trans[OF same_after[OF Cons.prems(3) ok] u(3)])
  note a = after_minirv_ok[OF Cons.prems(1) ok]
  have "block_ok cfg L (pc + 4) (after cfg i st) is" using Cons.prems(2) step by simp
  from Cons.IH[OF a(1) this, of u "pc' + 4 * of_nat (length ls)"] su obtain ls' s' t' where
    r: "replace_block L (pc' + 4 * of_nat (length ls)) is = Inr ls'" "asm_run cfg (pc + 4) is (after cfg i st) = Inr (pc + 4 + 4 * of_nat (length is), s')"
      "asm_run cfg (pc' + 4 * of_nat (length ls)) ls' u = Inr (pc' + 4 * of_nat (length ls) + 4 * of_nat (length ls'), t')"
      "same_but_scratch cfg L ?sp s' t'"
    unfolding a(2) by blast
  have "asm_run cfg pc' (ls @ ls') t = Inr (pc' + 4 * of_nat (length (ls @ ls')), t')"
    using u(2) r(3) by (simp add: asm_run_append algebra_simps)
  moreover have "asm_run cfg pc (i # is) st = Inr (pc + 4 * of_nat (length (i # is)), s')" using step r(2) by (simp add: algebra_simps)
  ultimately show ?case using u(1) r(1,4) by simp
qed simp

section \<open>The base instructions are enough\<close>

text \<open>Addresses of the tables and of the array, for the witnesses.\<close>

definition mini_syms :: syms where
  "mini_syms = \<lparr>same_result_table = 0x80002000, check_8bit_0_table = 0x80002100, slt1_table = 0x80002200, sltu1_table = 0x80002210,
     or1_table = 0x80002220, logic_shift_table = 0x80010000, check_same_array = 0x80003000\<rparr>"

definition mini_ops :: "rv_op set" where
  "mini_ops = {ADD, ADDI, LUI, LW, LBU, SW, SB, JALR}"

definition mini :: "asm list \<Rightarrow> bool" where
  "mini ls \<longleftrightarrow> (\<forall>a \<in> set ls. a_op a \<in> mini_ops)"

named_theorems minis \<open>macros expand to base instructions\<close>

lemma mini_lines [minis, simp]: "mini []" "mini (a # ls) \<longleftrightarrow> a_op a \<in> mini_ops \<and> mini ls" "mini (ls @ ls') \<longleftrightarrow> mini ls \<and> mini ls'"
  "mini (replicate n a) \<longleftrightarrow> n = 0 \<or> a_op a \<in> mini_ops"
  by (auto simp: mini_def)

lemma mini_base [minis, simp]:
  "a_op (ADD_asm rd rs1 rs2) \<in> mini_ops" "a_op (ADDI_asm rd rs1 v) \<in> mini_ops" "a_op (LUI_asm rd v) \<in> mini_ops"
  "a_op (LW_asm rd v rs1) \<in> mini_ops" "a_op (LBU_asm rd v rs1) \<in> mini_ops" "a_op (SW_asm rs2 v rs1) \<in> mini_ops"
  "a_op (SB_asm rs2 v rs1) \<in> mini_ops" "a_op (JALR_asm rd rs1) \<in> mini_ops" "a_op (PUSH_asm r n) \<in> mini_ops" "a_op (POP_asm r n) \<in> mini_ops"
  by (simp_all add: mini_ops_def mini_asm_defs ADDI_asm_def LUI_asm_def PUSH_asm_def POP_asm_def)

lemma mini_small [simp]:
  "mini (la_asm r v)" "mini (getbyte rd rs k)" "mini (sh_asm rs v b)" "mini (not_asm L rd rs)" "mini (sub_asm L rd rs1 rs2)" "mini (jal_asm rd v)"
  by (simp_all add: la_asm_def getbyte_def sh_asm_def not_asm_def not_byte_asm_def sub_asm_def jal_asm_def j_asm_def call_template_def)

lemma mini_slli [simp]: "mini (slli_asm rd rs i)"
  by (induction rd rs i rule: slli_asm.induct) (subst slli_asm.simps, simp)

lemma mini_compare [simp]:
  "mini (msb_asm rd rs)" "mini (slt_asm L rd rs1 rs2)" "mini (sltu_asm L rd rs1 rs2)" "mini (seq_asm L rd rs1 rs2)" "mini (seqz_asm L rd rs)"
  "mini (eq_cond L rs1 rs2)" "mini (nonpos_cond L rs)"
  by (simp_all add: msb_asm_def slt_asm_def sltu_asm_def slt_template_def seq_asm_def check_8bit_same_def seqz_asm_def check_8bit_0_def
      eq_cond_def nonpos_cond_def)

lemma mini_shift [simp]:
  "mini (sll_asm L rd rs1 rs2)" "mini (srl_asm L rd rs1 rs2)" "mini (sra_asm L rd rs1 rs2)" "mini (srli_asm L rd rs1 n)" "mini (srai_asm L rd rs1 n)"
  by (simp_all add: sll_asm_def srl_asm_def sra_asm_def srli_asm_def srai_asm_def shift_right_template_def getshamt_def get_shift_byte_in_tp_def)

lemma mini_logic: "logic_asm lut rd rs1 rs2 = Inr ls \<Longrightarrow> mini ls"
  by (auto simp: logic_asm_def logic8_byte_internal_def split: if_splits)

lemma mini_logics:
  "and_asm L rd rs1 rs2 = Inr ls \<Longrightarrow> mini ls" "or_asm L rd rs1 rs2 = Inr ls \<Longrightarrow> mini ls" "xor_asm L rd rs1 rs2 = Inr ls \<Longrightarrow> mini ls"
  unfolding and_asm_def or_asm_def xor_asm_def by (rule mini_logic, assumption)+

lemma mini_itype_logic:
  assumes "def_itype_logic rtype rd rs1 v = Inr ls" and "\<And>ls. rtype rd rs1 x_tp = Inr ls \<Longrightarrow> mini ls"
  shows "mini ls"
  using assms by (cases "rtype rd rs1 x_tp") (auto simp: def_itype_logic_def)

lemma mini_mem [simp]: "mini (lb_asm L rd v b)" "mini (lh_asm L rd v b)" "mini (lhu_asm rd v b)"
  by (simp_all add: lb_asm_def lh_asm_def lhu_asm_def)

lemma mini_resolve [simp]: "mini (with_resolve pc v h cond) \<longleftrightarrow> mini cond"
  by (simp add: with_resolve_def branch_resolve_def branch_resolve_lines_def)

text \<open>C35: every line an instruction of RV32I is replaced by is one of the eight base instructions, whatever the operands:
  no macro leaves another instruction behind.\<close>

theorem minirv_base_only:
  assumes "inst_replace L pc i = Inr ls" and "a_op i \<in> replaced_alu \<union> branch_ops \<union> {LB, LH, LHU, SH, JAL} \<union> mini_ops" and "a \<in> set ls"
  shows "a_op a \<in> {ADD, ADDI, LUI, LW, LBU, SW, SB, JALR}"
proof -
  have "mini ls"
  proof (cases "is_logic (a_op i)")
    case True
    then show ?thesis using assms(1)
      by (auto simp: is_logic_def inst_replace_def Let_def andi_asm_def ori_asm_def xori_asm_def
          intro: mini_logics mini_itype_logic[OF _ mini_logics(1)] mini_itype_logic[OF _ mini_logics(2)] mini_itype_logic[OF _ mini_logics(3)])
  next
    case False
    then show ?thesis using assms(1,2)
      by (auto simp: is_logic_def inst_replace_def Let_def replaced_alu_def branch_ops_def mini_ops_def slti_asm_def sltiu_asm_def def_itype_def
          beq_asm_def bne_asm_def blt_asm_def bge_asm_def bltu_asm_def bgeu_asm_def ADDI_asm_def)
  qed
  then show ?thesis using assms(3) by (simp add: mini_def mini_ops_def)
qed

theorem minirv_base_only_witness:
  "list_all (\<lambda>a. a_op a \<in> {ADD, ADDI, LUI, LW, LBU, SW, SB, JALR}) (beq_asm mini_syms 0x80000000 5 6 0x80001000)"
proof -
  let ?i = "\<lparr>a_op = BEQ, a_rd = 0, a_rs1 = 5, a_rs2 = 6, a_csr = 0, a_imm = 0x1000\<rparr> :: asm"
  have "inst_replace mini_syms 0x80000000 ?i = Inr (beq_asm mini_syms 0x80000000 5 6 0x80001000)" by (simp add: inst_replace_def)
  then show ?thesis using minirv_base_only[of mini_syms "0x80000000" ?i] by (simp add: branch_ops_def list_all_iff)
qed

section \<open>Pseudo-instructions and jumps\<close>

lemma yields_pseudo:
  assumes "layout_ok cfg L sp" and "tables_ok cfg L st" and "regs_ok sp R" and "target_ok cfg rd" and "rs1 < nr_gpr cfg" and "rs2 < nr_gpr cfg"
  shows "yields cfg L sp st R (neg_asm L rd rs1) rd (- R rs1)"
    and "yields cfg L sp st R (snez_asm L rd rs1) rd (flag (R rs1 \<noteq> 0))"
    and "yields cfg L sp st R (sgtz_asm L rd rs1) rd (flag (sint (R rs1) > 0))"
    and "yields cfg L sp st R (sgt_asm L rd rs1 rs2) rd (flag (sint (R rs1) > sint (R rs2)))"
    and "yields cfg L sp st R (sgtu_asm L rd rs1 rs2) rd (flag (R rs1 > R rs2))"
proof -
  note z = yields_macros[OF assms(1-4) _ assms(5)] and r = yields_macros[OF assms(1-4,6,5)]
  have r0: "R 0 = 0" "0 < nr_gpr cfg" using regs_x0_val[OF assms(3)] by (simp_all add: nr_gpr_def)
  show "yields cfg L sp st R (neg_asm L rd rs1) rd (- R rs1)" using z(1)[of 0] r0 by (simp add: neg_asm_def)
  show "yields cfg L sp st R (snez_asm L rd rs1) rd (flag (R rs1 \<noteq> 0))" using z(3)[of 0] r0 by (simp add: snez_asm_def word_neq_0_conv)
  show "yields cfg L sp st R (sgtz_asm L rd rs1) rd (flag (sint (R rs1) > 0))" using z(2)[of 0] r0 by (simp add: sgtz_asm_def)
  show "yields cfg L sp st R (sgt_asm L rd rs1 rs2) rd (flag (sint (R rs1) > sint (R rs2)))" using r(2) by (simp add: sgt_asm_def)
  show "yields cfg L sp st R (sgtu_asm L rd rs1 rs2) rd (flag (R rs1 > R rs2))" using r(3) by (simp add: sgtu_asm_def)
qed

text \<open>\<open>jal\<close> links to the line behind its replacement.\<close>

lemma jal_resolves:
  assumes "minirv_ok cfg L st" and "rd = 0 \<or> target_ok cfg rd" and "even target"
  shows "\<exists>t. asm_run cfg pc (jal_asm rd target) st = Inr (target, t) \<and>
    same_but_scratch cfg L (gpr (cpu st) x_sp) (if rd = 0 then st else set_gpr rd (pc + 12) st) t"
proof -
  let ?sp = "gpr (cpu st) x_sp" and ?R = "gpr (cpu st)"
  let ?st = "if rd = 0 then st else set_gpr rd (pc + 12) st"
  have s: "?st = mk cfg L ?sp st (if rd = 0 then ?R else ?R(rd := pc + 12)) (st_vars cfg st) (st_array cfg L st)"
  proof (cases "rd = 0")
    case True
    show ?thesis unfolding True using st_mk by (simp only: if_True simp_thms)
  next
    case False
    have "set_gpr rd (pc + 12) st = mk cfg L ?sp st (?R(rd := pc + 12)) (st_vars cfg st) (st_array cfg L st)"
      by (subst st_mk[of st cfg L]) (simp only: set_gpr_mk)
    then show ?thesis using False by (simp only: if_False)
  qed
  have "wpj cfg pc (jal_asm rd target) (\<lambda>pc' t. pc' = target \<and> same_but_scratch cfg L ?sp ?st t)
      (mk cfg L ?sp st ?R (st_vars cfg st) (st_array cfg L st))"
  proof (rule wpj_jal[OF minirv_okD(3)[OF assms(1)] _ assms(3)])
    show "rd = 0 \<or> dest_ok cfg rd" using assms(2) target_dest[of cfg rd] by blast
    show "target = target \<and> same_but_scratch cfg L ?sp ?st
        (mk cfg L ?sp st (if rd = 0 then ?R(x_tp := t) else ?R(rd := pc + 12)) (st_vars cfg st) (st_array cfg L st))" for t
      by (intro conjI refl same_mk[OF s]) simp
  qed
  then show ?thesis unfolding wpj_def st_mk[of st cfg L, symmetric] by auto
qed

section \<open>An image\<close>

text \<open>Memory with the tables in it and the stack below \<open>0x80001000\<close>.\<close>

definition mini_bytes :: bytes where
  "mini_bytes = (\<lambda>h. if h < 0x2100 then same_result_bytes ! (h - 0x2000) else if h < 0x2200 then check_8bit_0_bytes ! (h - 0x2100)
     else if h < 0x2210 then slt1_bytes ! (h - 0x2200) else if h < 0x2220 then sltu1_bytes ! (h - 0x2210)
     else if h < 0x10000 then or1_bytes ! (h - 0x2220) else lut_bin ! (h - 0x10000))"

definition mini_state :: nemu where
  "mini_state = nemu_boot\<lparr>cpu := \<lparr>gpr = (\<lambda>_. 0)(x_sp := 0x80001000, 10 := 7, 11 := 5), cpu_pc = 0x80000000, csr = (\<lambda>_. 0), priv_level = 3\<rparr>,
     memory := (memory nemu_boot)\<lparr>pmem := mini_bytes\<rparr>\<rparr>"

lemma mini_state_gpr [simp]: "gpr (cpu mini_state) r = (if r = 11 then 5 else if r = 10 then 7 else if r = x_sp then 0x80001000 else 0)"
  by (simp add: mini_state_def)

lemmas mini_layout = guest_to_host_def default_sel mini_syms_def

lemma mini_state_ok: "minirv_ok default_config mini_syms mini_state"
proof -
  have l: "length same_result_bytes = 8" "length check_8bit_0_bytes = 256" "length slt1_bytes = 8" "length sltu1_bytes = 8" "length or1_bytes = 4"
    by (simp_all add: same_result_bytes_def check_8bit_0_bytes_def slt1_bytes_def sltu1_bytes_def or1_bytes_def)
  have "layout_ok default_config mini_syms 0x80001000"
    by (simp add: layout_ok_def apart_def table_list_def l length_lut mini_layout)
  moreover have "tables_ok default_config mini_syms mini_state"
    by (simp add: tables_ok_def loaded_def table_list_def l length_lut mini_state_def mini_bytes_def mini_layout)
  ultimately show ?thesis by (simp add: minirv_ok_def x0_ok_def)
qed

lemma mini_operands: "target_ok default_config 10" "source_ok default_config 10" "source_ok default_config 11" "source_ok default_config 0"
  "source_ok default_config x_sp" "source_ok default_config 8"
  by (simp_all add: target_ok_def source_ok_def nr_gpr_def default_sel)

section \<open>Properties\<close>

text \<open>C33: a block of RV32I instructions (arithmetic, logic, comparisons, shifts, loads and stores) and its replacement end in
  the same state, up to \<open>gp\<close>, \<open>tp\<close> and the bytes the macros own, wherever the replacement lies; the instructions may use
  any register but those the macros use, and the data must lie apart from the tables.\<close>

theorem minirv_block:
  assumes "minirv_ok cfg L st" and "block_ok cfg L pc st is"
  shows "\<exists>ls s t. replace_block L pc' is = Inr ls \<and> asm_run cfg pc is st = Inr (pc + 4 * of_nat (length is), s) \<and>
    asm_run cfg pc' ls st = Inr (pc' + 4 * of_nat (length ls), t) \<and> same_but_scratch cfg L (gpr (cpu st) x_sp) s t"
  by (rule block_replaced[OF assms same_refl])

definition mini_block :: "asm list" where
  "mini_block = [\<lparr>a_op = SH, a_rd = 0, a_rs1 = x_sp, a_rs2 = 10, a_csr = 0, a_imm = 8\<rparr>,
     \<lparr>a_op = SUB, a_rd = 10, a_rs1 = 11, a_rs2 = 10, a_csr = 0, a_imm = 0\<rparr>]"

lemma mini_block_ok: "block_ok default_config mini_syms 0x80000000 mini_state mini_block"
proof -
  have l: "length same_result_bytes = 8" "length check_8bit_0_bytes = 256" "length slt1_bytes = 8" "length sltu1_bytes = 8" "length or1_bytes = 4"
    by (simp_all add: same_result_bytes_def check_8bit_0_bytes_def slt1_bytes_def sltu1_bytes_def or1_bytes_def)
  have i: "inst_ok default_config mini_syms mini_state (mini_block ! 0)"
    by (simp add: mini_block_def inst_ok_def mini_operands stores_def loads_def replaced_alu_def base_alu_def data_ok_def off_tables_def access_width_def
        table_list_def l length_lut apart_def mini_layout)
  have s0: "asm_step default_config 0x80000000 (mini_block ! 0) mini_state = Inr (0x80000000 + 4, after default_config (mini_block ! 0) mini_state)"
    by (rule inst_step[OF _ i]) (simp add: x0_ok_def)
  have i1: "inst_ok default_config mini_syms st (mini_block ! 1)" for st
    by (simp add: mini_block_def inst_ok_def mini_operands replaced_alu_def operands_ok_def is_shift_imm_def is_logic_def)
  have b1: "block_ok default_config mini_syms pc st [mini_block ! 1]" if "x0_ok st" for pc st
    unfolding block_ok.simps inst_step[OF that i1] by (simp only: i1 sum.case prod.case)
  have x0: "x0_ok (after default_config (mini_block ! 0) mini_state)"
    using after_minirv_ok(1)[OF mini_state_ok i] by (simp add: minirv_ok_def)
  have "block_ok default_config mini_syms 0x80000000 mini_state [mini_block ! 0, mini_block ! 1]"
    by (subst block_ok.simps(2)) (simp only: s0 i b1[OF x0] sum.case prod.case simp_thms)
  then show ?thesis by (simp add: mini_block_def)
qed

theorem minirv_block_witness:
  "\<exists>ls s t. replace_block mini_syms 0x80000100 mini_block = Inr ls \<and> asm_run default_config 0x80000000 mini_block mini_state = Inr (0x80000008, s) \<and>
    asm_run default_config 0x80000100 ls mini_state = Inr (0x80000100 + 4 * of_nat (length ls), t) \<and>
    gpr (cpu t) 10 = gpr (cpu s) 10"
proof -
  have "(0x80000000 :: u32) + 4 * of_nat (length mini_block) = 0x80000008" by (simp add: mini_block_def)
  then show ?thesis using minirv_block[OF mini_state_ok mini_block_ok, of "0x80000100"] same_gpr[of default_config mini_syms _ _ _ 10] by fastforce
qed

text \<open>C34: the replacement of a branch goes to the target exactly when the branch is taken, falls through behind its last
  line otherwise, and leaves everything but \<open>gp\<close>, \<open>tp\<close> and the bytes the macros own as it was.\<close>

theorem minirv_branch:
  assumes "minirv_ok cfg L st" and "source_ok cfg (a_rs1 i)" and "source_ok cfg (a_rs2 i)" and "a_op i \<in> branch_ops"
    and "even pc" and "even (a_imm i)"
  shows "\<exists>target ls t. asm_step cfg pc i st = Inr (if target then pc + a_imm i else pc + 4, st) \<and> inst_replace L pc i = Inr ls \<and>
    asm_run cfg pc ls st = Inr (if target then pc + a_imm i else pc + 4 * of_nat (length ls), t) \<and>
    same_but_scratch cfg L (gpr (cpu st) x_sp) st t"
proof -
  have "x0_ok st" "a_rs1 i < nr_gpr cfg" "a_rs2 i < nr_gpr cfg" using assms by (simp_all add: minirv_ok_def source_ok_def)
  from exec_branch[OF this assms(4)] branch_resolves[OF assms] show ?thesis by blast
qed

theorem minirv_branch_witness:
  "\<exists>target ls t. asm_step default_config 0x80000000 \<lparr>a_op = BLT, a_rd = 0, a_rs1 = 0, a_rs2 = 10, a_csr = 0, a_imm = 0x1000\<rparr> mini_state =
      Inr (if target then 0x80001000 else 0x80000004, mini_state) \<and>
    inst_replace mini_syms 0x80000000 \<lparr>a_op = BLT, a_rd = 0, a_rs1 = 0, a_rs2 = 10, a_csr = 0, a_imm = 0x1000\<rparr> = Inr ls \<and>
    asm_run default_config 0x80000000 ls mini_state = Inr (if target then 0x80001000 else 0x80000000 + 4 * of_nat (length ls), t) \<and> gpr (cpu t) 10 = 7"
proof -
  let ?i = "\<lparr>a_op = BLT, a_rd = 0, a_rs1 = 0, a_rs2 = 10, a_csr = 0, a_imm = 0x1000\<rparr> :: asm"
  have s: "source_ok default_config (a_rs1 ?i)" "source_ok default_config (a_rs2 ?i)" "a_op ?i \<in> branch_ops" "even (0x80000000 :: u32)" "even (a_imm ?i)"
    by (simp_all add: mini_operands branch_ops_def)
  show ?thesis using minirv_branch[OF mini_state_ok s] same_gpr[of default_config mini_syms _ _ _ 10] by fastforce
qed

text \<open>C36: \<open>seqz rd, rs\<close> leaves 1 in \<open>rd\<close> when \<open>rs\<close> is zero and 0 otherwise, unless \<open>rd\<close> is \<open>s0\<close>: the saved \<open>s0\<close> is restored
  after the result has been loaded, so \<open>seqz s0, rs\<close> leaves \<open>s0\<close> as it was.\<close>

theorem seqz_result:
  assumes "minirv_ok cfg L st" and "target_ok cfg rd" and "rs < nr_gpr cfg"
  shows "\<exists>t. asm_run cfg pc (seqz_asm L rd rs) st = Inr (pc + 4 * of_nat (length (seqz_asm L rd rs)), t) \<and>
    gpr (cpu t) rd = (if rd = x_s0 then gpr (cpu st) x_s0 else if gpr (cpu st) rs = 0 then 1 else 0)"
proof -
  let ?R = "gpr (cpu st)"
  have rd: "dest_ok cfg rd" "rd \<noteq> x_gp" "rd \<noteq> x_tp" using target_dest[OF assms(2)] by simp_all
  have "wpa cfg (seqz_asm L rd rs @ []) (\<lambda>t. gpr (cpu t) rd = (if rd = x_s0 then ?R x_s0 else if ?R rs = 0 then 1 else 0))
      (mk cfg L (?R x_sp) st ?R (st_vars cfg st) (st_array cfg L st))"
    by (rule wpa_seqz[OF minirv_okD[OF assms(1)] rd(1) assms(3)]) (use rd in \<open>simp add: flag_def\<close>)
  then show ?thesis unfolding wpa_def append_Nil2 st_mk[of st cfg L, symmetric] by auto
qed

theorem seqz_result_witness:
  "(\<exists>t. asm_run default_config 0x80000000 (seqz_asm mini_syms x_s0 0) mini_state =
      Inr (0x80000000 + 4 * of_nat (length (seqz_asm mini_syms x_s0 0)), t) \<and> gpr (cpu t) x_s0 = 0) \<and>
   (\<exists>t. asm_run default_config 0x80000000 (seqz_asm mini_syms 10 0) mini_state =
      Inr (0x80000000 + 4 * of_nat (length (seqz_asm mini_syms 10 0)), t) \<and> gpr (cpu t) 10 = 1)"
  using seqz_result[OF mini_state_ok, of x_s0 0 "0x80000000"] seqz_result[OF mini_state_ok, of 10 0 "0x80000000"] mini_operands
  by (simp_all add: target_ok_def source_ok_def)

end
