(* ===== verification/Cachesim.thy ===== *)
theory Cachesim
  imports Prelude
begin

text \<open>
  The cache simulator (\<open>npc/tracesim/cachesim/cachesim.hpp\<close>, \<open>cachesim.cpp\<close>): a set-associative cache without data,
  with three replacement policies, two policies for write hits and two for write misses.

  The generator of random numbers is a state of any type with a function \<open>dist\<close> that draws from \<open>[0, n]\<close>.  Hit rate
  and access time, which the program computes in floating point for its report, are not modelled, and neither is
  the field \<open>miss_penalty\<close>, which nothing else reads.
\<close>

section \<open>Types\<close>

datatype AccessType = READ | WRITE

datatype ReplacementPolicy = FIFO | LRU | RANDOM

datatype WritePolicy = WRITE_BACK | WRITE_THROUGH

datatype AllocationPolicy = WRITE_ALLOCATE | NO_WRITE_ALLOCATE

record CacheLine =
  valid :: bool
  dirty :: bool
  tag :: u32
  timestamp :: u64

definition CacheLine_init :: CacheLine where
  "CacheLine_init = \<lparr>valid = False, dirty = False, tag = 0, timestamp = 0\<rparr>"

record 'g CacheSim =
  read_hits :: u64
  read_misses :: u64
  write_hits :: u64
  write_misses :: u64
  write_backs :: u64
  write_throughs :: u64
  cache_size :: u32
  block_size :: u32
  set_size :: u32
  num_sets :: u32
  index_bits :: u32
  offset_bits :: u32
  index_mask :: u32
  replacement_policy :: ReplacementPolicy
  write_policy :: WritePolicy
  alloc_policy :: AllocationPolicy
  sets :: "CacheLine list list"
  clock :: u64
  rng :: 'g

section \<open>Construction\<close>

function log2_loop :: "u32 \<Rightarrow> u32 \<Rightarrow> u32" where
  "log2_loop n r = (let n' = drop_bit 1 n in if n' \<noteq> 0 then log2_loop n' (r + 1) else r)"
  by pat_completeness auto
termination
proof (relation "measure (\<lambda>(n, r). unat n)", goal_cases)
  case (2 n r x)
  then have "unat (drop_bit 1 n) \<noteq> 0" by (simp add: unat_eq_zero)
  then show ?case using 2 by (simp add: unat_drop_bit)
qed simp

declare log2_loop.simps [simp del]

definition log2_u32 :: "u32 \<Rightarrow> u32" where
  "log2_u32 n = log2_loop n 0"

text \<open>An empty block or set makes the division undefined.\<close>

definition CacheSim_new :: "u32 \<Rightarrow> u32 \<Rightarrow> u32 \<Rightarrow> ReplacementPolicy \<Rightarrow> WritePolicy \<Rightarrow> AllocationPolicy \<Rightarrow> 'g \<Rightarrow> 'g CacheSim res" where
  "CacheSim_new csize bsize ssize repl wpol apol g =
     (if bsize * ssize = 0 then Inl (Undefined ''division by zero'')
      else let num = csize div (bsize * ssize) in
        Inr \<lparr>read_hits = 0, read_misses = 0, write_hits = 0, write_misses = 0, write_backs = 0, write_throughs = 0,
          cache_size = csize, block_size = bsize, set_size = ssize, num_sets = num,
          index_bits = log2_u32 num, offset_bits = log2_u32 bsize, index_mask = num - 1,
          replacement_policy = repl, write_policy = wpol, alloc_policy = apol,
          sets = replicate (unat num) (replicate (unat ssize) CacheLine_init), clock = 0, rng = g\<rparr>)"

section \<open>Access\<close>

text \<open>Iterators are indices, \<open>end()\<close> is the length.\<close>

definition find_if :: "('a \<Rightarrow> bool) \<Rightarrow> 'a list \<Rightarrow> nat" where
  "find_if P xs = length (takeWhile (\<lambda>x. \<not> P x) xs)"

definition min_element :: "('a \<Rightarrow> 'a \<Rightarrow> bool) \<Rightarrow> 'a list \<Rightarrow> nat" where
  "min_element lt xs = fold (\<lambda>i best. if lt (xs ! i) (xs ! best) then i else best) [1..<length xs] 0"

definition set_index :: "'g CacheSim \<Rightarrow> u32 \<Rightarrow> u32" where
  "set_index c addr = drop_bit (unat (offset_bits c)) addr AND index_mask c"

definition set_tag :: "'g CacheSim \<Rightarrow> u32 \<Rightarrow> u32" where
  "set_tag c addr = drop_bit (unat (offset_bits c + index_bits c)) addr"

definition set_line :: "nat \<Rightarrow> nat \<Rightarrow> CacheLine \<Rightarrow> 'g CacheSim \<Rightarrow> 'g CacheSim" where
  "set_line s i l c = c\<lparr>sets := (sets c)[s := (sets c ! s)[i := l]]\<rparr>"

definition access_hit :: "AccessType \<Rightarrow> nat \<Rightarrow> nat \<Rightarrow> 'g CacheSim \<Rightarrow> 'g CacheSim" where
  "access_hit type s i c = (let
     line = sets c ! s ! i;
     (c, line) = (case type of
         READ \<Rightarrow> (c\<lparr>read_hits := read_hits c + 1\<rparr>, line)
       | WRITE \<Rightarrow> let c = c\<lparr>write_hits := write_hits c + 1\<rparr> in
           if write_policy c = WRITE_BACK then (c, line\<lparr>dirty := True\<rparr>)
           else (c\<lparr>write_throughs := write_throughs c + 1\<rparr>, line));
     line = (if replacement_policy c = LRU then line\<lparr>timestamp := clock c\<rparr> else line)
   in set_line s i line c)"

definition count_miss :: "AccessType \<Rightarrow> 'g CacheSim \<Rightarrow> 'g CacheSim" where
  "count_miss type c = (case type of
     READ \<Rightarrow> c\<lparr>read_misses := read_misses c + 1\<rparr>
   | WRITE \<Rightarrow> c\<lparr>write_misses := write_misses c + 1\<rparr>)"

definition choose_victim :: "('g \<Rightarrow> u32 \<Rightarrow> u32 \<times> 'g) \<Rightarrow> CacheLine list \<Rightarrow> 'g CacheSim \<Rightarrow> nat \<times> 'g CacheSim" where
  "choose_victim dist current_set c = (let i = find_if (\<lambda>l. \<not> valid l) current_set in
     if i \<noteq> length current_set then (i, c)
     else if replacement_policy c = RANDOM then
       (case dist (rng c) (set_size c - 1) of (idx, g) \<Rightarrow> (unat idx, c\<lparr>rng := g\<rparr>))
     else (min_element (\<lambda>a b. timestamp a < timestamp b) current_set, c))"

definition replace_victim :: "AccessType \<Rightarrow> u32 \<Rightarrow> nat \<Rightarrow> nat \<Rightarrow> 'g CacheSim \<Rightarrow> 'g CacheSim" where
  "replace_victim type tg s i c = (let
     line = sets c ! s ! i;
     c = (if valid line \<and> dirty line \<and> write_policy c = WRITE_BACK then c\<lparr>write_backs := write_backs c + 1\<rparr> else c);
     line = line\<lparr>valid := True, tag := tg, timestamp := clock c\<rparr>
   in case type of
     READ \<Rightarrow> set_line s i (line\<lparr>dirty := False\<rparr>) c
   | WRITE \<Rightarrow> if write_policy c = WRITE_BACK then set_line s i (line\<lparr>dirty := True\<rparr>) c
       else set_line s i (line\<lparr>dirty := False\<rparr>) (c\<lparr>write_throughs := write_throughs c + 1\<rparr>))"

definition access :: "('g \<Rightarrow> u32 \<Rightarrow> u32 \<times> 'g) \<Rightarrow> u32 \<Rightarrow> AccessType \<Rightarrow> 'g CacheSim \<Rightarrow> 'g CacheSim res" where
  "access dist addr type c = (let
     c = c\<lparr>clock := clock c + 1\<rparr>;
     s = unat (set_index c addr);
     tg = set_tag c addr
   in if unat (offset_bits c + index_bits c) \<ge> 32 then Inl (Undefined ''shift by 32 or more'')
      else if s \<ge> length (sets c) then Inl (Undefined ''sets[index]'')
      else let current_set = sets c ! s; i = find_if (\<lambda>l. valid l \<and> tag l = tg) current_set in
        if i < length current_set then Inr (access_hit type s i c)
        else let c = count_miss type c in
          if type = WRITE \<and> alloc_policy c = NO_WRITE_ALLOCATE then Inr (c\<lparr>write_throughs := write_throughs c + 1\<rparr>)
          else (case choose_victim dist current_set c of (v, c) \<Rightarrow>
            if v \<ge> length current_set then Inl (Undefined ''victim_it is end()'')
            else Inr (replace_victim type tg s v c)))"

text \<open>The consumer of a stream of accesses.\<close>

fun run_accesses :: "('g \<Rightarrow> u32 \<Rightarrow> u32 \<times> 'g) \<Rightarrow> (u32 \<times> AccessType) list \<Rightarrow> 'g CacheSim \<Rightarrow> 'g CacheSim res" where
  "run_accesses dist [] c = Inr c"
| "run_accesses dist ((addr, type) # xs) c = bind_res (access dist addr type c) (run_accesses dist xs)"

definition get_cache_size :: "'g CacheSim \<Rightarrow> u64" where
  "get_cache_size c = ucast (cache_size c)"

definition get_total_hits :: "'g CacheSim \<Rightarrow> u64" where
  "get_total_hits c = read_hits c + write_hits c"

definition get_total_misses :: "'g CacheSim \<Rightarrow> u64" where
  "get_total_misses c = read_misses c + write_misses c"

definition get_total_accesses :: "'g CacheSim \<Rightarrow> u64" where
  "get_total_accesses c = get_total_hits c + get_total_misses c"

section \<open>The caches of main\<close>

text \<open>\<open>cachesim/main.cpp\<close> builds one cache for each combination of parameters that leaves at least one set.\<close>

definition block_info :: "u32 list" where
  "block_info = [4, 8, 16]"

definition replace_policies :: "ReplacementPolicy list" where
  "replace_policies = [FIFO, LRU, RANDOM]"

definition icache_sims :: "'g \<Rightarrow> 'g CacheSim res list" where
  "icache_sims g = [CacheSim_new cs bs ss policy WRITE_BACK WRITE_ALLOCATE g.
     policy \<leftarrow> replace_policies, cs \<leftarrow> [32, 64, 128], bs \<leftarrow> block_info, ss \<leftarrow> [1, 2], \<not> ss * bs > cs]"

definition dcache_sims :: "'g \<Rightarrow> 'g CacheSim res list" where
  "dcache_sims g = [CacheSim_new cs bs ss policy wp ap g.
     policy \<leftarrow> replace_policies, wp \<leftarrow> [WRITE_BACK, WRITE_THROUGH], ap \<leftarrow> [WRITE_ALLOCATE, NO_WRITE_ALLOCATE],
     cs \<leftarrow> [32, 64], bs \<leftarrow> block_info, ss \<leftarrow> [1, 2], \<not> ss * bs > cs]"

end
