(* ===== verification/Branchsim.thy ===== *)
theory Branchsim
  imports Cachesim
begin

text \<open>
  The branch predictor simulator (\<open>npc/tracesim/branchsim/branchsim.hpp\<close>, \<open>branchsim.cpp\<close>): a direct-mapped branch
  target buffer that predicts a known branch taken when it is unconditional or goes backwards.  The loop
  for the logarithm is the one of the cache simulator.  The report is not modelled.
\<close>

record BTBEntry =
  btb_valid :: bool
  btb_tag :: u64
  btb_target :: u64
  btb_uncond :: bool

definition BTBEntry_init :: BTBEntry where
  "BTBEntry_init = \<lparr>btb_valid = False, btb_tag = 0, btb_target = 0, btb_uncond = False\<rparr>"

record BranchSim =
  entries :: u32
  btb_index_bits :: u32
  btb_index_mask :: u64
  storage :: "BTBEntry list"
  total_branches :: u64
  mispredictions :: u64

definition btb_log2_u32 :: "u32 \<Rightarrow> u32" where
  "btb_log2_u32 n = log2_loop n 0"

text \<open>The number of entries is an \<open>int\<close>; the mask is converted to 64 bits with its sign.\<close>

definition BranchSim_new :: "u32 \<Rightarrow> BranchSim res" where
  "BranchSim_new btb_entries = (if sint btb_entries < 0 then Inl (Panic ''std::length_error'')
     else Inr \<lparr>entries = btb_entries, btb_index_bits = btb_log2_u32 btb_entries, btb_index_mask = scast (btb_entries - 1),
       storage = replicate (unat btb_entries) BTBEntry_init, total_branches = 0, mispredictions = 0\<rparr>)"

definition btb_index :: "BranchSim \<Rightarrow> u32 \<Rightarrow> u32" where
  "btb_index b pc = ucast (ucast (drop_bit 2 pc) AND btb_index_mask b)"

definition btb_tag_of :: "BranchSim \<Rightarrow> u32 \<Rightarrow> u64" where
  "btb_tag_of b pc = ucast (drop_bit (unat (btb_index_bits b + 2)) pc)"

text \<open>The prediction: whether the branch is taken, and where to.\<close>

definition predict :: "BTBEntry \<Rightarrow> u64 \<Rightarrow> u32 \<Rightarrow> bool \<times> u32" where
  "predict entry r_tag pc = (let btb_hit = btb_valid entry \<and> btb_tag entry = r_tag in
     if btb_hit then (btb_uncond entry \<or> btb_target entry < ucast pc, ucast (btb_target entry)) else (False, 0))"

definition BranchSim_step :: "u32 \<Rightarrow> u32 \<Rightarrow> bool \<Rightarrow> bool \<Rightarrow> BranchSim \<Rightarrow> BranchSim res" where
  "BranchSim_step pc target is_uncond taken b = (let
     b = b\<lparr>total_branches := total_branches b + 1\<rparr>;
     r_idx = unat (btb_index b pc);
     r_tag = btb_tag_of b pc
   in if unat (btb_index_bits b + 2) \<ge> 32 then Inl (Undefined ''shift by 32 or more'')
      else if r_idx \<ge> length (storage b) then Inl (Undefined ''storage[r_idx]'')
      else case predict (storage b ! r_idx) r_tag pc of (predict_taken, predict_target) \<Rightarrow> let
        mispredicted = predict_taken \<noteq> taken \<or> predict_taken \<and> predict_target \<noteq> target;
        b = (if mispredicted then b\<lparr>mispredictions := mispredictions b + 1\<rparr> else b);
        entry = \<lparr>btb_valid = True, btb_tag = btb_tag_of b pc, btb_target = ucast target, btb_uncond = is_uncond\<rparr>
      in Inr (b\<lparr>storage := (storage b)[unat (btb_index b pc) := entry]\<rparr>))"

fun run_branches :: "(u32 \<times> u32 \<times> bool \<times> bool) list \<Rightarrow> BranchSim \<Rightarrow> BranchSim res" where
  "run_branches [] b = Inr b"
| "run_branches ((pc, target, is_uncond, taken) # bs) b = bind_res (BranchSim_step pc target is_uncond taken b) (run_branches bs)"

end
