(* ===== verification/Cachesim_Proofs.thy ===== *)
theory Cachesim_Proofs
  imports Cachesim "HOL-Library.Multiset" "HOL-Library.Product_Lexorder"
begin

text \<open>
  The cache simulator refines queues of tags: each set, read in the order of its time stamps, is the list the
  replacement policy prescribes.  From this follow what the simulator counts as a hit, that more ways never hurt LRU,
  and that a working set that fits is missed once per block.
\<close>

section \<open>Replacement policies\<close>

text \<open>A policy acts on the tags a set holds, the next victim first.\<close>

locale replacement =
  fixes rstep :: "nat \<Rightarrow> 'a list \<Rightarrow> 'a \<Rightarrow> 'a list"
  assumes held: "0 < n \<Longrightarrow> t \<in> set (rstep n q t)"
    and room: "t \<in> set q \<or> length q < n \<Longrightarrow> set (rstep n q t) = insert t (set q)"
    and origin: "set (rstep n q t) \<subseteq> insert t (set q)"
    and dist: "distinct q \<Longrightarrow> distinct (rstep n q t)"
    and bound: "0 < n \<Longrightarrow> length q \<le> n \<Longrightarrow> length (rstep n q t) \<le> n"

context replacement
begin

lemma run_bound: "0 < n \<Longrightarrow> length (foldl (rstep n) [] ts) \<le> n"
  by (induction ts rule: rev_induct) (auto intro: bound)

lemma run_distinct: "distinct (foldl (rstep n) [] ts)"
  by (induction ts rule: rev_induct) (auto intro: dist)

lemma run_origin: "set (foldl (rstep n) [] ts) \<subseteq> set ts"
  using origin by (induction ts rule: rev_induct) (auto, blast)

text \<open>A set whose working set fits holds everything it has seen.\<close>

lemma run_fits: "card (set ts) \<le> n \<Longrightarrow> set (foldl (rstep n) [] ts) = set ts"
proof (induction ts rule: rev_induct)
  case (snoc t ts)
  let ?q = "foldl (rstep n) [] ts"
  have "card (set ts) \<le> card (set (ts @ [t]))" by (intro card_mono) auto
  then have q: "set ?q = set ts" using snoc by simp
  then have "length ?q = card (set ts)" using distinct_card[OF run_distinct[of n ts]] by simp
  then have "t \<in> set ?q \<or> length ?q < n" using snoc.prems q by (cases "t \<in> set ts") auto
  then show ?case using room q by simp
qed simp

end

definition evict :: "nat \<Rightarrow> 'a list \<Rightarrow> 'a list" where
  "evict n q = (if length q < n then q else tl q)"

definition lru_step :: "nat \<Rightarrow> 'a list \<Rightarrow> 'a \<Rightarrow> 'a list" where
  "lru_step n q t = (if t \<in> set q then remove1 t q else evict n q) @ [t]"

definition fifo_step :: "nat \<Rightarrow> 'a list \<Rightarrow> 'a \<Rightarrow> 'a list" where
  "fifo_step n q t = (if t \<in> set q then q else evict n q @ [t])"

lemma set_evict: "set (evict n q) \<subseteq> set q" "length q \<le> n \<Longrightarrow> 0 < n \<Longrightarrow> length (evict n q) < n"
  "distinct q \<Longrightarrow> distinct (evict n q)"
  by (cases q; simp add: evict_def; blast)+

interpretation lru: replacement lru_step
proof (unfold_locales, goal_cases)
  case (3 n q t) then show ?case using set_evict(1)[of n q] set_remove1_subset[of t q] by (auto simp: lru_step_def)
next
  case (4 q n t) then show ?case using set_evict(1)[of n q] set_evict(3)[of q n] by (auto simp: lru_step_def)
next
  case (5 n q t)
  then show ?case using set_evict(2)[of q n] by (cases "q = []") (auto simp: lru_step_def length_remove1)
qed (auto simp: lru_step_def evict_def notin_set_remove1 intro: in_set_remove1 [THEN iffD2])

interpretation fifo: replacement fifo_step
proof (unfold_locales, goal_cases)
  case (3 n q t) then show ?case using set_evict(1)[of n q] by (auto simp: fifo_step_def)
next
  case (4 q n t) then show ?case using set_evict(1)[of n q] set_evict(3)[of q n] by (auto simp: fifo_step_def)
next
  case (5 n q t) then show ?case using set_evict(2)[of q n] by (auto simp: fifo_step_def)
qed (auto simp: fifo_step_def evict_def)

text \<open>LRU in closed form: the distinct tags in the order of their last use, of which it holds the last \<open>n\<close>.\<close>

lemma remdups_snoc: "remdups (xs @ [x]) = filter (\<lambda>y. y \<noteq> x) (remdups xs) @ [x]"
  by (induction xs) auto

definition last_n :: "nat \<Rightarrow> 'a list \<Rightarrow> 'a list" where
  "last_n n xs = drop (length xs - n) xs"

lemma last_n_snoc: "0 < n \<Longrightarrow> last_n n (xs @ [x]) = last_n (n - 1) xs @ [x]"
  by (cases n) (auto simp: last_n_def Suc_diff_le)

lemma evict_last_n: "0 < n \<Longrightarrow> evict n (last_n n xs) = last_n (n - 1) xs"
  by (cases n; cases "length xs < n") (auto simp: last_n_def evict_def tl_drop drop_Suc[symmetric] Suc_diff_Suc)

lemma lru_closed: "0 < n \<Longrightarrow> foldl (lru_step n) [] ts = last_n n (remdups ts)"
proof (induction ts rule: rev_induct)
  case (snoc t ts)
  define r where "r = remdups ts"
  have d: "distinct r" by (simp add: r_def)
  have q: "foldl (lru_step n) [] ts = last_n n r" using snoc by (simp add: r_def)
  show ?case
  proof (cases "t \<in> set r")
    case True
    then obtain a b where ab: "r = a @ t # b" "t \<notin> set a" "t \<notin> set b" using split_list d by fastforce
    then have "filter (\<lambda>y. y \<noteq> t) a = a" "filter (\<lambda>y. y \<noteq> t) b = b" by (auto intro!: filter_True)
    then have f: "filter (\<lambda>y. y \<noteq> t) r = a @ b" using ab by simp
    show ?thesis
    proof (cases "t \<in> set (last_n n r)")
      case True
      then have l: "length b < n" using ab by (auto simp: last_n_def drop_Cons split: nat.splits dest: in_set_dropD)
      then have "last_n n r = drop (length r - n) a @ t # b" using ab by (simp add: last_n_def)
      moreover have "t \<notin> set (drop (length r - n) a)" using ab(2) by (meson in_set_dropD)
      ultimately have "lru_step n (last_n n r) t = drop (length r - n) a @ b @ [t]"
        by (simp add: lru_step_def remove1_append)
      then show ?thesis using q f l by (simp add: remdups_snoc r_def[symmetric]) (simp add: last_n_def ab)
    next
      case False
      then have l: "n \<le> length b" using ab by (auto simp: last_n_def not_less[symmetric])
      then have "last_n n r = drop (length b - n) b" using ab by (simp add: last_n_def Suc_diff_le)
      then have "lru_step n (last_n n r) t = tl (drop (length b - n) b) @ [t]"
        using False snoc.prems l by (auto simp: lru_step_def evict_def)
      then show ?thesis using q f l snoc.prems
        by (simp add: remdups_snoc r_def[symmetric]) (simp add: last_n_def tl_drop drop_Suc[symmetric] Suc_diff_le)
    qed
  next
    case False
    then have "filter (\<lambda>y. y \<noteq> t) r = r" by (auto simp: filter_id_conv)
    moreover have "t \<notin> set (last_n n r)" using False by (auto simp: last_n_def dest: in_set_dropD)
    ultimately have "lru_step n (last_n n r) t = last_n n (filter (\<lambda>y. y \<noteq> t) r @ [t])"
      using snoc.prems by (simp add: last_n_snoc evict_last_n lru_step_def)
    then show ?thesis using q by (simp add: remdups_snoc r_def)
  qed
qed (simp add: last_n_def)

section \<open>Searching\<close>

lemma find_if_less: "find_if P xs < length xs \<longleftrightarrow> (\<exists>x \<in> set xs. P x)"
  by (induction xs) (auto simp: find_if_def)

lemma find_if_le: "find_if P xs \<le> length xs"
  by (simp add: find_if_def length_takeWhile_le)

lemma find_if_nth: "find_if P xs < length xs \<Longrightarrow> P (xs ! find_if P xs)"
  unfolding find_if_def by (fact nth_length_takeWhile [of "\<lambda>x. \<not> P x", simplified])

lemma min_element_fold:
  assumes "0 < k"
  shows "fold (\<lambda>i best. if (f (xs ! i) :: 'b::linorder) < f (xs ! best) then i else best) [1..<k] 0 < k
    \<and> (\<forall>j < k. f (xs ! fold (\<lambda>i best. if f (xs ! i) < f (xs ! best) then i else best) [1..<k] 0) \<le> f (xs ! j))"
  using assms
proof (induction k rule: nat_induct_non_zero)
  case (Suc k)
  then show ?case by (auto simp: less_Suc_eq)
qed simp

lemma min_element_min:
  assumes "xs \<noteq> []"
  shows "min_element (\<lambda>a b. (f a :: 'b::linorder) < f b) xs < length xs"
    and "y \<in> set xs \<Longrightarrow> f (xs ! min_element (\<lambda>a b. f a < f b) xs) \<le> f y"
  using min_element_fold[of "length xs" f xs] assms by (auto simp: min_element_def in_set_conv_nth)

section \<open>The tags of a set in the order of their time stamps\<close>

definition stamps :: "CacheLine list \<Rightarrow> (u64 \<times> u32) list" where
  "stamps ls = map (\<lambda>l. (timestamp l, tag l)) (filter valid ls)"

definition ages :: "CacheLine list \<Rightarrow> u32 list" where
  "ages ls = map snd (sort (stamps ls))"

definition line_stamp :: "CacheLine \<Rightarrow> (u64 \<times> u32) multiset" where
  "line_stamp l = (if valid l then {#(timestamp l, tag l)#} else {#})"

lemma mset_stamps: "mset (stamps ls) = (\<Sum>l \<in># mset ls. line_stamp l)"
  by (induction ls) (auto simp: stamps_def line_stamp_def)

lemma stamps_update:
  assumes "i < length ls"
  shows "mset (stamps (ls[i := l])) = mset (stamps ls) - line_stamp (ls ! i) + line_stamp l"
proof -
  obtain M where "mset ls = add_mset (ls ! i) M" using assms by (metis mset_add nth_mem_mset)
  then show ?thesis by (simp add: mset_stamps mset_update assms)
qed

lemma stamp_in: "i < length ls \<Longrightarrow> valid (ls ! i) \<Longrightarrow> (timestamp (ls ! i), tag (ls ! i)) \<in> set (stamps ls)"
  by (auto simp: stamps_def)

definition set_ok :: "nat \<Rightarrow> u64 \<Rightarrow> CacheLine list \<Rightarrow> bool" where
  "set_ok n clk ls \<longleftrightarrow> length ls = n \<and> distinct (map fst (stamps ls)) \<and> distinct (map snd (stamps ls))
     \<and> (\<forall>p \<in> set (stamps ls). fst p \<le> clk)"

lemma set_ages: "set (ages ls) = tag ` {l \<in> set ls. valid l}"
  by (force simp: ages_def stamps_def)

lemma length_ages: "length (ages ls) = length (filter valid ls)"
  by (simp add: ages_def stamps_def)

lemma distinct_ages: "set_ok n clk ls \<Longrightarrow> distinct (ages ls)"
  unfolding set_ok_def ages_def
  by (metis distinct_map distinct_sort set_sort)

lemma sort_snoc:
  assumes "mset ys = add_mset x (mset xs)" "\<forall>y \<in> set xs. y \<le> x"
  shows "sort ys = sort xs @ [x]"
  by (rule properties_for_sort) (use assms in \<open>auto simp: sorted_append\<close>)

lemma sort_remove: "sort (remove1 x xs) = remove1 x (sort xs)"
  by (rule properties_for_sort) (auto simp: sorted_remove1)

lemma remove1_snd: "distinct (map snd L) \<Longrightarrow> (a, b) \<in> set L \<Longrightarrow> map snd (remove1 (a, b) L) = remove1 b (map snd L)"
  by (induction L) (force simp: image_iff)+

lemma sort_least:
  assumes "x \<in> set xs" "\<forall>y \<in> set xs. x \<le> y"
  shows "sort xs = x # sort (remove1 x xs)"
  by (rule properties_for_sort) (use assms in \<open>auto dest: notin_set_remove1 set_remove1_subset[THEN subsetD]\<close>)

text \<open>The three ways a set changes: a new stamp, a renewed stamp, a replaced stamp.\<close>

lemma ages_snoc:
  assumes "set_ok n clk ls" "mset (stamps ls') = add_mset (clk', t) (mset (stamps ls))" "clk < clk'"
    "t \<notin> set (ages ls)" "length ls' = length ls"
  shows "ages ls' = ages ls @ [t] \<and> set_ok n clk' ls'"
proof -
  have le: "\<forall>y \<in> set (stamps ls). fst y < clk'" using assms(1,3) by (auto simp: set_ok_def)
  have "sort (stamps ls') = sort (stamps ls) @ [(clk', t)]"
    by (rule sort_snoc) (use assms(2) le in \<open>auto simp: less_eq_prod_def\<close>)
  moreover have s: "set (stamps ls') = insert (clk', t) (set (stamps ls))"
    using assms(2) by (metis set_mset_add_mset_insert set_mset_mset)
  moreover have "distinct (map fst (stamps ls')) = distinct (clk' # map fst (stamps ls))"
    "distinct (map snd (stamps ls')) = distinct (t # map snd (stamps ls))"
    by (rule mset_eq_imp_distinct_iff, simp add: assms(2))+
  ultimately show ?thesis using assms(1,4,5) le by (auto simp: ages_def set_ok_def)
qed

lemma distinct_map_remove1: "distinct (map f xs) \<Longrightarrow> distinct (map f (remove1 x xs))"
  by (induction xs) (auto dest: set_remove1_subset[THEN subsetD])

lemma same_distinct: "mset xs = mset ys \<Longrightarrow> distinct (map f xs) = distinct (map f ys)"
  by (rule mset_eq_imp_distinct_iff) simp

lemma ok_remove:
  assumes "set_ok n clk ls" "(ts, t) \<in> set (stamps ls)" "mset (stamps ls') = mset (stamps ls) - {#(ts, t)#}" "length ls' = length ls"
  shows "set_ok n clk ls' \<and> ages ls' = remove1 t (ages ls)"
proof -
  have m: "mset (stamps ls') = mset (remove1 (ts, t) (stamps ls))" using assms(3) by simp
  have d: "distinct (map snd (sort (stamps ls)))" using assms(1) distinct_ages by (auto simp: ages_def)
  have "sort (stamps ls') = sort (remove1 (ts, t) (stamps ls))" by (rule properties_for_sort) (simp_all add: m)
  then have "sort (stamps ls') = remove1 (ts, t) (sort (stamps ls))" by (simp add: sort_remove)
  then have "ages ls' = remove1 t (ages ls)" using remove1_snd[OF d] assms(2) by (simp add: ages_def)
  moreover have "set (stamps ls') \<subseteq> set (stamps ls)" using m set_remove1_subset by (metis set_mset_mset)
  moreover have "distinct (map fst (stamps ls'))" "distinct (map snd (stamps ls'))"
    using assms(1) by (simp_all add: set_ok_def same_distinct[OF m] distinct_map_remove1)
  ultimately show ?thesis using assms(1,4) by (auto simp: set_ok_def)
qed

text \<open>Putting a line with a fresh stamp into a set.\<close>

lemma put_line:
  assumes ok: "set_ok n clk ls" and i: "i < length ls" and l: "valid l" "timestamp l = clk'" "clk < clk'"
    and t: "tag l \<notin> set (ages ls) \<or> valid (ls ! i) \<and> tag (ls ! i) = tag l"
  shows "ages (ls[i := l]) = (if valid (ls ! i) then remove1 (tag (ls ! i)) (ages ls) else ages ls) @ [tag l]
    \<and> set_ok n clk' (ls[i := l])"
proof (cases "valid (ls ! i)")
  case True
  define free where "free = ls[i := (ls ! i)\<lparr>valid := False\<rparr>]"
  have m: "mset (stamps free) = mset (stamps ls) - {#(timestamp (ls ! i), tag (ls ! i))#}"
    using stamps_update[OF i] True by (simp add: free_def line_stamp_def)
  note r = ok_remove[OF ok stamp_in[OF i True] m]
  have f: "set_ok n clk free" "ages free = remove1 (tag (ls ! i)) (ages ls)" using r by (simp_all add: free_def)
  have "tag l \<notin> set (ages free)" using t f(2) distinct_ages[OF ok] by (auto dest: notin_set_remove1)
  moreover have "mset (stamps (free[i := l])) = add_mset (clk', tag l) (mset (stamps free))"
    using stamps_update[of i free l] i l by (simp add: free_def line_stamp_def)
  ultimately have "ages (free[i := l]) = ages free @ [tag l] \<and> set_ok n clk' (free[i := l])"
    by (intro ages_snoc[OF f(1)]) (use l in auto)
  then show ?thesis using True f(2) by (simp add: free_def)
next
  case False
  then have "mset (stamps (ls[i := l])) = add_mset (clk', tag l) (mset (stamps ls))"
    using stamps_update[OF i] l by (simp add: line_stamp_def)
  then show ?thesis using False t by (intro conjI; use ages_snoc[OF ok _ l(3)] in auto)
qed

lemma keep_line:
  assumes "set_ok n clk ls" "i < length ls" "valid (ls ! i)" "valid l" "timestamp l = timestamp (ls ! i)" "tag l = tag (ls ! i)" "clk \<le> clk'"
  shows "ages (ls[i := l]) = ages ls \<and> set_ok n clk' (ls[i := l])"
proof -
  have "map valid (ls[i := l]) = map valid ls" "map timestamp (ls[i := l]) = map timestamp ls" "map tag (ls[i := l]) = map tag ls"
    using assms by (auto simp: map_update list_update_same_conv)
  then have "stamps (ls[i := l]) = stamps ls"
    unfolding stamps_def
  proof (induction ls arbitrary: i)
    case (Cons a ls) then show ?case by (cases i) auto
  qed simp
  then show ?thesis using assms by (auto simp: ages_def set_ok_def)
qed

lemma later_ok: "set_ok n clk ls \<Longrightarrow> clk \<le> clk' \<Longrightarrow> set_ok n clk' ls"
  by (auto simp: set_ok_def)

lemma oldest:
  assumes "set_ok n clk ls" "\<forall>l \<in> set ls. valid l" "i < length ls" "\<forall>l \<in> set ls. timestamp (ls ! i) \<le> timestamp l"
  shows "remove1 (tag (ls ! i)) (ages ls) = tl (ages ls)"
proof -
  let ?p = "(timestamp (ls ! i), tag (ls ! i))"
  have p: "?p \<in> set (stamps ls)" using assms(2,3) by (intro stamp_in) auto
  have i: "inj_on fst (set (stamps ls))" using assms(1) by (simp add: set_ok_def distinct_map)
  have "?p \<le> y" if y: "y \<in> set (stamps ls)" for y
  proof (cases "fst y = fst ?p")
    case True
    then have "y = ?p" by (rule inj_onD[OF i _ y p])
    then show ?thesis by simp
  next
    case False
    moreover have "fst ?p \<le> fst y" using y assms(4) by (auto simp: stamps_def)
    ultimately show ?thesis by (simp add: less_eq_prod_def order.strict_iff_order)
  qed
  then have "sort (stamps ls) = ?p # sort (remove1 ?p (stamps ls))" by (intro sort_least[OF p] ballI)
  then show ?thesis by (simp add: ages_def)
qed

section \<open>One access\<close>

abbreviation held :: "'g CacheSim \<Rightarrow> nat \<Rightarrow> u32 list" where
  "held c s \<equiv> ages (sets c ! s)"

definition params :: "'g CacheSim \<Rightarrow> u32 \<times> u32 \<times> u32 \<times> u32 \<times> u32 \<times> ReplacementPolicy \<times> WritePolicy \<times> AllocationPolicy" where
  "params c = (set_size c, num_sets c, index_bits c, offset_bits c, index_mask c, replacement_policy c, write_policy c, alloc_policy c)"

definition cache_ok :: "'g CacheSim \<Rightarrow> bool" where
  "cache_ok c \<longleftrightarrow> num_sets c \<noteq> 0 \<and> set_size c \<noteq> 0 \<and> length (sets c) = unat (num_sets c) \<and> index_mask c = num_sets c - 1
     \<and> unat (offset_bits c + index_bits c) < 32 \<and> (\<forall>ls \<in> set (sets c). set_ok (unat (set_size c)) (clock c) ls)"

lemma set_index_less: "cache_ok c \<Longrightarrow> unat (set_index c addr) < length (sets c)"
proof -
  assume ok: "cache_ok c"
  have "set_index c addr \<le> num_sets c - 1" using ok by (simp add: set_index_def cache_ok_def word_and_le1)
  then have "unat (set_index c addr) \<le> unat (num_sets c) - 1" using ok by (simp add: cache_ok_def word_le_nat_alt unat_minus_one)
  moreover have "unat (num_sets c) \<noteq> 0" using ok by (simp add: cache_ok_def unat_eq_zero)
  ultimately show ?thesis using ok by (simp add: cache_ok_def)
qed

definition dist_ok :: "('g \<Rightarrow> u32 \<Rightarrow> u32 \<times> 'g) \<Rightarrow> bool" where
  "dist_ok dist \<longleftrightarrow> (\<forall>g n. fst (dist g n) \<le> n)"

abbreviation tick :: "'g CacheSim \<Rightarrow> 'g CacheSim" where
  "tick c \<equiv> c\<lparr>clock := clock c + 1\<rparr>"

abbreviation lines_of :: "'g CacheSim \<Rightarrow> u32 \<Rightarrow> CacheLine list" where
  "lines_of c addr \<equiv> sets c ! unat (set_index c addr)"

lemma set_index_cong: "params c = params c' \<Longrightarrow> set_index c = set_index c' \<and> set_tag c = set_tag c'"
  by (auto simp: params_def set_index_def set_tag_def fun_eq_iff)

lemma set_index_simps [simp]: "set_index (tick c) = set_index c" "set_tag (tick c) = set_tag c"
  "set_index (count_miss type c) = set_index c" "set_tag (count_miss type c) = set_tag c"
  by (rule ext, simp add: set_index_def set_tag_def count_miss_def split: AccessType.splits)+

lemma lines_ok: "cache_ok c \<Longrightarrow> set_ok (unat (set_size c)) (clock c) (lines_of c addr)"
  using set_index_less[of c addr] by (simp add: cache_ok_def)

lemma access_split:
  assumes ok: "cache_ok c" and d: "dist_ok dist"
  obtains (hit) i where "i < length (lines_of c addr)" "valid (lines_of c addr ! i)" "tag (lines_of c addr ! i) = set_tag c addr"
      "access dist addr type c = Inr (access_hit type (unat (set_index c addr)) i (tick c))"
  | (bypass) "set_tag c addr \<notin> set (ages (lines_of c addr))" "type = WRITE" "alloc_policy c = NO_WRITE_ALLOCATE"
      "access dist addr type c = Inr ((count_miss type (tick c))\<lparr>write_throughs := write_throughs c + 1\<rparr>)"
  | (fill) v g where "set_tag c addr \<notin> set (ages (lines_of c addr))" "\<not> (type = WRITE \<and> alloc_policy c = NO_WRITE_ALLOCATE)"
      "v < length (lines_of c addr)"
      "valid (lines_of c addr ! v) \<longrightarrow> (\<forall>l \<in> set (lines_of c addr). valid l) \<and>
         (replacement_policy c \<noteq> RANDOM \<longrightarrow> (\<forall>l \<in> set (lines_of c addr). timestamp (lines_of c addr ! v) \<le> timestamp l))"
      "access dist addr type c = Inr (replace_victim type (set_tag c addr) (unat (set_index c addr)) v ((count_miss type (tick c))\<lparr>rng := g\<rparr>))"
proof -
  let ?ls = "lines_of c addr" and ?P = "\<lambda>l. valid l \<and> tag l = set_tag c addr"
  let ?c = "count_miss type (tick c)"
  have c: "sets ?c = sets c" "alloc_policy ?c = alloc_policy c" "set_size ?c = set_size c" "replacement_policy ?c = replacement_policy c"
    "write_throughs ?c = write_throughs c" "rng ?c = rng c" by (simp_all add: count_miss_def split: AccessType.split)
  have n: "length ?ls = unat (set_size c)" using lines_ok[OF ok] by (simp add: set_ok_def)
  have pos: "0 < length ?ls" using ok n by (simp add: cache_ok_def unat_gt_0)
  note less = set_index_less[OF ok, of addr]
  have sh: "\<not> 32 \<le> unat (offset_bits c + index_bits c)" using ok by (simp add: cache_ok_def)
  note acc = access_def[of dist addr type c, unfolded Let_def]
  show thesis
  proof (cases "find_if ?P ?ls < length ?ls")
    case True
    have "access dist addr type c = Inr (access_hit type (unat (set_index c addr)) (find_if ?P ?ls) (tick c))"
      unfolding acc using True less sh by (simp add: not_le)
    then show thesis using hit True find_if_nth[OF True] by blast
  next
    case False
    then have t: "set_tag c addr \<notin> set (ages ?ls)" by (auto simp: find_if_less set_ages)
    show thesis
    proof (cases "type = WRITE \<and> alloc_policy c = NO_WRITE_ALLOCATE")
      case True
      then have "access dist addr type c = Inr (?c\<lparr>write_throughs := write_throughs c + 1\<rparr>)"
        unfolding acc using False less sh c by (simp add: not_le cong: if_cong)
      then show thesis using t bypass True by blast
    next
      case no: False
      obtain v g where v: "choose_victim dist ?ls ?c = (v, ?c\<lparr>rng := g\<rparr>)" "v < length ?ls"
        "valid (?ls ! v) \<longrightarrow> (\<forall>l \<in> set ?ls. valid l) \<and>
         (replacement_policy c \<noteq> RANDOM \<longrightarrow> (\<forall>l \<in> set ?ls. timestamp (?ls ! v) \<le> timestamp l))"
      proof (cases "find_if (\<lambda>l. \<not> valid l) ?ls < length ?ls")
        case True
        show thesis by (rule that[of "find_if (\<lambda>l. \<not> valid l) ?ls" "rng c"])
          (use True find_if_nth[OF True] c in \<open>auto simp: choose_victim_def\<close>)
      next
        case full: False
        then have all: "\<forall>l \<in> set ?ls. valid l" "find_if (\<lambda>l. \<not> valid l) ?ls = length ?ls"
          using find_if_le[of "\<lambda>l. \<not> valid l" ?ls] find_if_less[of "\<lambda>l. \<not> valid l" ?ls] by (blast, simp)
        show thesis
        proof (cases "replacement_policy c = RANDOM")
          case True
          obtain idx g where ig: "dist (rng c) (set_size c - 1) = (idx, g)" by force
          then have "idx \<le> set_size c - 1" using d unfolding dist_ok_def by (metis fst_conv)
          then have "unat idx < unat (set_size c)"
            using ok n pos by (simp add: word_le_nat_alt unat_minus_one cache_ok_def)
          then show thesis using that[of "unat idx" g] True all ig n c by (simp add: choose_victim_def)
        next
          case False
          note m = min_element_min[where xs="?ls" and f=timestamp]
          show thesis by (rule that[of "min_element (\<lambda>a b. timestamp a < timestamp b) ?ls" "rng c"])
            (use False all pos m c in \<open>auto simp: choose_victim_def\<close>)
        qed
      qed
      have "access dist addr type c = Inr (replace_victim type (set_tag c addr) (unat (set_index c addr)) v (?c\<lparr>rng := g\<rparr>))"
        unfolding acc using False no v less sh c by (auto simp: not_le)
      then show thesis using fill[of v g] t no v by blast
    qed
  qed
qed

section \<open>Refinement\<close>

text \<open>What one access does to the queue of the set it goes to.\<close>

definition queue_step :: "'g CacheSim \<Rightarrow> AccessType \<Rightarrow> u32 list \<Rightarrow> u32 \<Rightarrow> u32 list \<Rightarrow> bool" where
  "queue_step c type q t q' =
     (if t \<in> set q then q' = (if replacement_policy c = LRU then remove1 t q @ [t] else q)
      else if type = WRITE \<and> alloc_policy c = NO_WRITE_ALLOCATE then q' = q
      else \<exists>v. q' = (if length q < unat (set_size c) then q else remove1 v q) @ [t]
        \<and> (replacement_policy c \<noteq> RANDOM \<longrightarrow> length q < unat (set_size c) \<or> v = hd q))"

lemma cache_okI:
  assumes "cache_ok c" "params c' = params c" "sets c' = (sets c)[s := ls']" "set_ok (unat (set_size c)) (clock c') ls'" "clock c \<le> clock c'"
  shows "cache_ok c'"
proof -
  have "set_ok (unat (set_size c)) (clock c') ls" if "ls \<in> set (sets c')" for ls
    using that assms(1,3-5) later_ok unfolding cache_ok_def by (metis insertE set_update_subset_insert subsetD)
  then show ?thesis using assms(1-3) by (auto simp: cache_ok_def params_def)
qed

definition hit_line :: "AccessType \<Rightarrow> 'g CacheSim \<Rightarrow> CacheLine \<Rightarrow> CacheLine" where
  "hit_line type c l = l\<lparr>dirty := dirty l \<or> (type = WRITE \<and> write_policy c = WRITE_BACK),
     timestamp := (if replacement_policy c = LRU then clock c else timestamp l)\<rparr>"

definition filled_line :: "AccessType \<Rightarrow> u32 \<Rightarrow> 'g CacheSim \<Rightarrow> CacheLine" where
  "filled_line type t c = \<lparr>valid = True, dirty = (type = WRITE \<and> write_policy c = WRITE_BACK), tag = t, timestamp = clock c\<rparr>"

lemma access_hit_sets: "sets (access_hit type s i c) = (sets c)[s := (sets c ! s)[i := hit_line type c (sets c ! s ! i)]]"
  by (cases type; cases "write_policy c"; cases "replacement_policy c") (simp_all add: access_hit_def set_line_def hit_line_def Let_def)

lemma access_hit_facts [simp]:
  "params (access_hit type s i c) = params c" "clock (access_hit type s i c) = clock c"
  "get_total_hits (access_hit type s i c) = get_total_hits c + 1" "get_total_misses (access_hit type s i c) = get_total_misses c"
  by (simp_all add: access_hit_def Let_def set_line_def params_def get_total_hits_def get_total_misses_def split: AccessType.split)

lemma replace_sets: "sets (replace_victim type t s i c) = (sets c)[s := (sets c ! s)[i := filled_line type t c]]"
  by (cases type; cases "write_policy c"; cases "sets c ! s ! i") (simp_all add: replace_victim_def set_line_def filled_line_def Let_def)

lemma replace_facts [simp]:
  "params (replace_victim type t s i c) = params c" "clock (replace_victim type t s i c) = clock c"
  "get_total_hits (replace_victim type t s i c) = get_total_hits c" "get_total_misses (replace_victim type t s i c) = get_total_misses c"
  by (simp_all add: replace_victim_def Let_def set_line_def params_def get_total_hits_def get_total_misses_def split: AccessType.split)

lemma count_miss_facts [simp]:
  "sets (count_miss type c) = sets c" "params (count_miss type c) = params c" "clock (count_miss type c) = clock c"
  "get_total_hits (count_miss type c) = get_total_hits c" "get_total_misses (count_miss type c) = get_total_misses c + 1"
  by (cases type; simp add: count_miss_def params_def get_total_hits_def get_total_misses_def)+

lemma rng_facts [simp]:
  "params (c\<lparr>rng := g\<rparr>) = params c" "get_total_hits (c\<lparr>rng := g\<rparr>) = get_total_hits c" "get_total_misses (c\<lparr>rng := g\<rparr>) = get_total_misses c"
  by (simp_all add: params_def get_total_hits_def get_total_misses_def)

lemma access_refines:
  assumes ok: "cache_ok c" and d: "dist_ok dist" and clk: "clock c < clock c + 1"
  obtains c' where "access dist addr type c = Inr c'" "cache_ok c'" "clock c' = clock c + 1" "params c' = params c"
    "queue_step c type (ages (lines_of c addr)) (set_tag c addr) (ages (lines_of c' addr))"
    "\<And>k. k \<noteq> unat (set_index c addr) \<Longrightarrow> held c' k = held c k"
    "get_total_hits c' = get_total_hits c + of_bool (set_tag c addr \<in> set (ages (lines_of c addr)))"
    "get_total_misses c' = get_total_misses c + of_bool (set_tag c addr \<notin> set (ages (lines_of c addr)))"
proof -
  let ?s = "unat (set_index c addr)" and ?ls = "lines_of c addr" and ?t = "set_tag c addr" and ?n = "unat (set_size c)"
  have s: "?s < length (sets c)" by (rule set_index_less[OF ok])
  have lok: "set_ok ?n (clock c) ?ls" by (rule lines_ok[OF ok])
  have tk: "params (tick c) = params c" "get_total_hits (tick c) = get_total_hits c" "get_total_misses (tick c) = get_total_misses c"
    by (simp_all add: params_def get_total_hits_def get_total_misses_def)
  note ret = that
  have done_: thesis
    if a: "access dist addr type c = Inr c'" and p: "params c' = params c" and cl: "clock c' = clock c + 1"
      and st: "sets c' = (sets c)[?s := ls']" and lo: "set_ok ?n (clock c + 1) ls'" and q: "queue_step c type (ages ?ls) ?t (ages ls')"
      and h: "get_total_hits c' = get_total_hits c + of_bool (?t \<in> set (ages ?ls))"
      and m: "get_total_misses c' = get_total_misses c + of_bool (?t \<notin> set (ages ?ls))" for c' ls'
  proof (rule ret)
    show "access dist addr type c = Inr c'" "params c' = params c" "clock c' = clock c + 1" by fact+
    show "get_total_hits c' = get_total_hits c + of_bool (?t \<in> set (ages ?ls))" "get_total_misses c' = get_total_misses c + of_bool (?t \<notin> set (ages ?ls))"
      by fact+
    show "cache_ok c'" using cache_okI[OF ok p st] lo clk by (simp add: cl less_imp_le)
    show "queue_step c type (ages ?ls) ?t (ages (lines_of c' addr))"
      using q s set_index_cong[OF p] by (simp add: st)
  qed (simp add: st)
  show thesis
  proof (cases rule: access_split[OF ok d, of addr type, case_names hit bypass fill])
    case (hit i)
    have t: "?t \<in> set (ages ?ls)" using hit by (auto simp: set_ages intro!: image_eqI[of _ _ "?ls ! i"])
    define l where "l = hit_line type (tick c) (?ls ! i)"
    have l: "sets (access_hit type ?s i (tick c)) = (sets c)[?s := ?ls[i := l]]" "valid l" "tag l = ?t"
      "timestamp l = (if replacement_policy c = LRU then clock c + 1 else timestamp (?ls ! i))"
      using hit by (simp_all add: l_def access_hit_sets hit_line_def)
    have "ages (?ls[i := l]) = (if replacement_policy c = LRU then remove1 ?t (ages ?ls) @ [?t] else ages ?ls)
        \<and> set_ok ?n (clock c + 1) (?ls[i := l])"
      using put_line[OF lok hit(1), of l] keep_line[OF lok hit(1), of l "clock c + 1"] l hit clk by (auto simp: less_imp_le)
    then show thesis by (intro done_[OF hit(4) _ _ l(1)]) (auto simp: access_hit_facts tk t queue_step_def)
  next
    case bypass
    show thesis
      by (rule done_[OF bypass(4), of ?ls]) (use bypass later_ok[OF lok less_imp_le[OF clk]] tk in
        \<open>auto simp: queue_step_def params_def get_total_hits_def get_total_misses_def count_miss_def\<close>)
  next
    case (fill v g)
    let ?c = "(count_miss type (tick c))\<lparr>rng := g\<rparr>"
    have c: "sets ?c = sets c" "clock ?c = clock c + 1" by simp_all
    define l where "l = filled_line type ?t ?c"
    have l: "sets (replace_victim type ?t ?s v ?c) = (sets c)[?s := ?ls[v := l]]" "valid l" "tag l = ?t" "timestamp l = clock c + 1"
      unfolding l_def replace_sets by (simp_all add: filled_line_def)
    have pl: "ages (?ls[v := l]) = (if valid (?ls ! v) then remove1 (tag (?ls ! v)) (ages ?ls) else ages ?ls) @ [?t]
        \<and> set_ok ?n (clock c + 1) (?ls[v := l])"
      using put_line[OF lok fill(3) l(2,4) clk] fill(1) by (simp add: l(3))
    have len: "length (ages ?ls) < ?n \<longleftrightarrow> \<not> (\<forall>l \<in> set ?ls. valid l)"
      using lok length_filter_less[of _ ?ls valid] filter_True[of ?ls valid]
      by (cases "\<forall>l \<in> set ?ls. valid l") (auto simp: length_ages set_ok_def)
    show thesis
    proof (rule done_[OF fill(5) _ _ l(1)])
      show "queue_step c type (ages ?ls) ?t (ages (?ls[v := l]))"
      proof (cases "valid (?ls ! v)")
        case True
        have ne: "remove1 (hd (ages ?ls)) (ages ?ls) = tl (ages ?ls)" by (cases "ages ?ls") auto
        have "replacement_policy c \<noteq> RANDOM \<Longrightarrow> remove1 (tag (?ls ! v)) (ages ?ls) = remove1 (hd (ages ?ls)) (ages ?ls)"
          using oldest[OF lok _ fill(3)] fill(4) True ne by simp
        then show ?thesis
          using fill(1,2,4) pl len True unfolding queue_step_def by (cases "replacement_policy c = RANDOM") auto
      next
        case False
        then have "length (ages ?ls) < ?n" using len fill(3) by auto
        then show ?thesis using fill(1,2) pl False by (auto simp: queue_step_def)
      qed
    qed (use pl fill(1) tk in auto)
  qed
qed

section \<open>Construction\<close>

lemma log2_loop_bounds:
  "n \<noteq> 0 \<Longrightarrow> \<exists>k. log2_loop n r = r + of_nat k \<and> 2 ^ k \<le> unat n \<and> unat n < 2 ^ Suc k"
proof (induction n r rule: log2_loop.induct)
  case (1 n r)
  have h: "unat (drop_bit 1 n) = unat n div 2" by (simp add: unat_drop_bit)
  show ?case
  proof (cases "drop_bit 1 n = 0")
    case True
    then have "unat n div 2 = 0" using h by simp
    moreover have "unat n \<noteq> 0" using 1(2) by (simp add: unat_eq_zero)
    ultimately show ?thesis using True by (intro exI[of _ 0]) (subst log2_loop.simps, auto simp: Let_def)
  next
    case False
    then obtain k where "log2_loop (drop_bit 1 n) (r + 1) = r + 1 + of_nat k" "2 ^ k \<le> unat n div 2" "unat n div 2 < 2 ^ Suc k"
      using 1(1)[OF refl False False] h by auto
    then show ?thesis using False by (intro exI[of _ "Suc k"]) (subst log2_loop.simps, auto simp: Let_def)
  qed
qed

lemma log2_bounds:
  assumes "n \<noteq> 0"
  shows "2 ^ unat (log2_u32 n) \<le> unat n" "unat n < 2 ^ Suc (unat (log2_u32 n))"
proof -
  obtain k where k: "log2_u32 n = of_nat k" "2 ^ k \<le> unat n" "unat n < 2 ^ Suc k"
    using log2_loop_bounds[OF assms, of 0] by (auto simp: log2_u32_def)
  have "(2::nat) ^ k < 2 ^ 32" using k(2) unat_u32_less[of n] by (rule le_less_trans)
  then have "k < 32" by (simp only: power_strict_increasing_iff)
  then have "unat (log2_u32 n) = k" using k(1) by (simp add: unat_of_nat)
  then show "2 ^ unat (log2_u32 n) \<le> unat n" "unat n < 2 ^ Suc (unat (log2_u32 n))" using k by simp_all
qed

definition geometry :: "u32 \<Rightarrow> u32 \<Rightarrow> u32 \<Rightarrow> bool" where
  "geometry csize bsize ssize \<longleftrightarrow> 0 < unat bsize * unat ssize \<and> unat bsize * unat ssize \<le> unat csize"

lemma geometry_sets:
  assumes "geometry csize bsize ssize"
  shows "bsize * ssize \<noteq> 0" "unat (csize div (bsize * ssize)) = unat csize div (unat bsize * unat ssize)"
    "0 < unat csize div (unat bsize * unat ssize)" "bsize \<noteq> 0" "ssize \<noteq> 0"
proof -
  have m: "unat (bsize * ssize) = unat bsize * unat ssize"
    using assms unat_u32_less[of csize] by (simp add: geometry_def unat_word_ariths)
  then show "bsize * ssize \<noteq> 0" using assms by (auto simp: geometry_def)
  show "unat (csize div (bsize * ssize)) = unat csize div (unat bsize * unat ssize)" using m by (simp add: unat_div_distrib)
  show "0 < unat csize div (unat bsize * unat ssize)" using assms by (simp add: geometry_def div_greater_zero_iff)
  show "bsize \<noteq> 0" "ssize \<noteq> 0" using assms by (auto simp: geometry_def)
qed

definition fresh :: "'g CacheSim \<Rightarrow> bool" where
  "fresh c \<longleftrightarrow> cache_ok c \<and> clock c = 0 \<and> (\<forall>s < unat (num_sets c). sets c ! s = replicate (unat (set_size c)) CacheLine_init)
     \<and> read_hits c = 0 \<and> read_misses c = 0 \<and> write_hits c = 0 \<and> write_misses c = 0 \<and> write_backs c = 0 \<and> write_throughs c = 0"

lemma stamps_init [simp]: "stamps (replicate n CacheLine_init) = []"
  by (simp add: stamps_def CacheLine_init_def)

lemma new_fresh:
  assumes g: "geometry csize bsize ssize"
  shows "\<exists>c. CacheSim_new csize bsize ssize r w a rg = Inr c \<and> fresh c \<and> replacement_policy c = r \<and> write_policy c = w
    \<and> alloc_policy c = a \<and> set_size c = ssize \<and> block_size c = bsize \<and> num_sets c = csize div (bsize * ssize)
    \<and> offset_bits c = log2_u32 bsize \<and> index_bits c = log2_u32 (num_sets c)"
proof -
  note gs = geometry_sets[OF g]
  define num where "num = csize div (bsize * ssize)"
  have n: "unat num = unat csize div (unat bsize * unat ssize)" "num \<noteq> 0" using gs(2,3) by (auto simp: num_def)
  have "2 ^ (unat (log2_u32 bsize) + unat (log2_u32 num)) \<le> unat bsize * unat num"
    unfolding power_add by (rule mult_le_mono) (use log2_bounds(1) gs(4) n(2) in auto)
  also have "\<dots> \<le> unat bsize * unat ssize * unat num" using gs(5) by (simp add: Suc_le_eq unat_gt_0)
  also have "\<dots> \<le> unat csize" unfolding n(1) by simp
  also have "\<dots> < 2 ^ 32" by (rule unat_u32_less)
  finally have s: "unat (log2_u32 bsize) + unat (log2_u32 num) < 32" by (simp only: power_strict_increasing_iff)
  then have "unat (log2_u32 bsize + log2_u32 num) < 32" by (simp add: unat_word_ariths)
  then show ?thesis using gs n(2)
    by (simp add: CacheSim_new_def fresh_def cache_ok_def Let_def num_def set_ok_def)
qed

section \<open>Runs\<close>

definition touched :: "'g CacheSim \<Rightarrow> nat \<Rightarrow> (u32 \<times> AccessType) list \<Rightarrow> u32 list" where
  "touched c s xs = map (\<lambda>(a, _). set_tag c a) (filter (\<lambda>(a, _). unat (set_index c a) = s) xs)"

definition rstep :: "ReplacementPolicy \<Rightarrow> nat \<Rightarrow> u32 list \<Rightarrow> u32 \<Rightarrow> u32 list" where
  "rstep r = (if r = LRU then lru_step else fifo_step)"

lemma rstep_bound: "0 < n \<Longrightarrow> length (foldl (rstep r n) [] ts) \<le> n"
  by (cases "r = LRU") (simp_all add: rstep_def lru.run_bound fifo.run_bound)

lemma rstep_fits: "card (set ts) \<le> n \<Longrightarrow> set (foldl (rstep r n) [] ts) = set ts"
  by (cases "r = LRU") (simp_all add: rstep_def lru.run_fits fifo.run_fits)

lemma queue_step_rstep:
  assumes "queue_step c type q t q'" "alloc_policy c = WRITE_ALLOCATE" "replacement_policy c \<noteq> RANDOM"
  shows "q' = rstep (replacement_policy c) (unat (set_size c)) q t"
proof (cases "t \<in> set q")
  case False
  then obtain v where "q' = (if length q < unat (set_size c) then q else remove1 v q) @ [t]"
    "length q < unat (set_size c) \<or> v = hd q" using assms by (auto simp: queue_step_def)
  moreover have "remove1 (hd q) q = tl q" by (cases q) auto
  ultimately show ?thesis using False by (auto simp: rstep_def lru_step_def fifo_step_def evict_def)
qed (use assms in \<open>cases "replacement_policy c"; simp add: queue_step_def rstep_def lru_step_def fifo_step_def\<close>)

lemma run_append: "run_accesses dist (xs @ ys) c = bind_res (run_accesses dist xs c) (run_accesses dist ys)"
  by (induction dist xs c rule: run_accesses.induct) (auto simp: bind_res_assoc intro: bind_res_cong)

lemma run_refines:
  assumes "fresh c0" "dist_ok dist" "length xs < 2 ^ 64" "alloc_policy c0 = WRITE_ALLOCATE" "replacement_policy c0 \<noteq> RANDOM"
  shows "\<exists>c. run_accesses dist xs c0 = Inr c \<and> cache_ok c \<and> params c = params c0 \<and> clock c = of_nat (length xs)
    \<and> (\<forall>s < unat (num_sets c0). held c s = foldl (rstep (replacement_policy c0) (unat (set_size c0))) [] (touched c0 s xs))"
  using assms(3)
proof (induction xs rule: rev_induct)
  case Nil
  then show ?case using assms(1) by (simp add: fresh_def touched_def ages_def)
next
  case (snoc x xs)
  obtain addr type where x: "x = (addr, type)" by force
  obtain c where c: "run_accesses dist xs c0 = Inr c" "cache_ok c" "params c = params c0" "clock c = of_nat (length xs)"
    "\<forall>s < unat (num_sets c0). held c s = foldl (rstep (replacement_policy c0) (unat (set_size c0))) [] (touched c0 s xs)"
    using snoc by auto
  have p: "alloc_policy c = WRITE_ALLOCATE" "replacement_policy c = replacement_policy c0" "set_size c = set_size c0" "num_sets c = num_sets c0"
    "set_index c = set_index c0" "set_tag c = set_tag c0"
    using c(3) assms(4) set_index_cong[OF c(3)] by (auto simp: params_def)
  have u: "unat (of_nat (length xs) :: u64) = length xs" "unat (of_nat (Suc (length xs)) :: u64) = Suc (length xs)"
    using snoc.prems by (simp_all add: unat_of_nat del: of_nat_Suc)
  have "clock c < clock c + 1" using u by (simp add: word_less_nat_alt c(4) add.commute)
  then obtain c' where c': "access dist addr type c = Inr c'" "cache_ok c'" "clock c' = clock c + 1" "params c' = params c"
    "queue_step c type (ages (lines_of c addr)) (set_tag c addr) (ages (lines_of c' addr))"
    "\<And>k. k \<noteq> unat (set_index c addr) \<Longrightarrow> held c' k = held c k"
    using access_refines[OF c(2) assms(2), of addr type] by metis
  have "ages (lines_of c' addr) = rstep (replacement_policy c0) (unat (set_size c0)) (ages (lines_of c addr)) (set_tag c addr)"
    using queue_step_rstep[OF c'(5) p(1)] assms(5) p by simp
  moreover have "set_index c' addr = set_index c addr" using set_index_cong[OF c'(4)] by simp
  ultimately have "held c' s = foldl (rstep (replacement_policy c0) (unat (set_size c0))) [] (touched c0 s (xs @ [x]))"
    if "s < unat (num_sets c0)" for s
    using that c(5) c'(6)[of s] by (cases "s = unat (set_index c addr)") (auto simp: x touched_def p)
  then show ?case using c c' x by (auto simp: run_append)
qed

lemma next_access:
  assumes c: "cache_ok c" "params c = params c0" "clock c = of_nat n" and "dist_ok dist" "Suc n < 2 ^ 64"
  obtains c' where "access dist addr type c = Inr c'" "cache_ok c'"
    "get_total_hits c' = get_total_hits c + of_bool (set_tag c0 addr \<in> set (held c (unat (set_index c0 addr))))"
    "get_total_misses c' = get_total_misses c + of_bool (set_tag c0 addr \<notin> set (held c (unat (set_index c0 addr))))"
proof -
  have "unat (of_nat n :: u64) = n" "unat (of_nat (Suc n) :: u64) = Suc n"
    using assms(5) by (simp_all add: unat_of_nat del: of_nat_Suc)
  then have "clock c < clock c + 1" by (simp add: word_less_nat_alt c(3) add.commute)
  then show thesis using access_refines[OF c(1) assms(4), of addr type] that set_index_cong[OF c(2)] by metis
qed

lemma held_tags:
  assumes "cache_ok c0" "\<forall>s < unat (num_sets c0). held c s = foldl r [] (touched c0 s xs)"
  shows "held c (unat (set_index c0 addr)) = foldl r [] (touched c0 (unat (set_index c0 addr)) xs)"
  using assms set_index_less[OF assms(1), of addr] by (auto simp: cache_ok_def)

definition lru_hit :: "'g CacheSim \<Rightarrow> (u32 \<times> AccessType) list \<Rightarrow> u32 \<Rightarrow> bool" where
  "lru_hit c xs addr \<longleftrightarrow> set_tag c addr \<in> set (last_n (unat (set_size c)) (remdups (touched c (unat (set_index c addr)) xs)))"

lemma lru_access:
  assumes f: "fresh c0" and d: "dist_ok dist" and len: "Suc (length xs) < 2 ^ 64" and p: "alloc_policy c0 = WRITE_ALLOCATE" "replacement_policy c0 = LRU"
  shows "\<exists>c c'. run_accesses dist xs c0 = Inr c \<and> access dist addr type c = Inr c'
    \<and> get_total_hits c' = get_total_hits c + of_bool (lru_hit c0 xs addr) \<and> get_total_misses c' = get_total_misses c + of_bool (\<not> lru_hit c0 xs addr)"
proof -
  obtain c where c: "run_accesses dist xs c0 = Inr c" "cache_ok c" "params c = params c0" "clock c = of_nat (length xs)"
    "\<forall>s < unat (num_sets c0). held c s = foldl (rstep LRU (unat (set_size c0))) [] (touched c0 s xs)"
    using run_refines[OF f d _ p(1), of xs] len p(2) by auto
  have ok: "cache_ok c0" "0 < unat (set_size c0)" using f by (auto simp: fresh_def cache_ok_def unat_gt_0)
  have "held c (unat (set_index c0 addr)) = foldl (rstep LRU (unat (set_size c0))) [] (touched c0 (unat (set_index c0 addr)) xs)"
    by (rule held_tags[OF ok(1) c(5)])
  then have "held c (unat (set_index c0 addr)) = last_n (unat (set_size c0)) (remdups (touched c0 (unat (set_index c0 addr)) xs))"
    by (simp add: rstep_def lru_closed[OF ok(2)])
  then show ?thesis using c next_access[OF c(2-4) d len, of addr type] unfolding lru_hit_def by metis
qed

text \<open>C22: what LRU counts as a hit.  A cache that allocates on writes hits an address exactly when its block is among the
  last \<open>set_size\<close> distinct blocks of its set, in the order of their last use, whatever was accessed before.\<close>

theorem lru_hits:
  assumes "CacheSim_new csize bsize ssize LRU w WRITE_ALLOCATE g = Inr c0" "geometry csize bsize ssize" "dist_ok dist"
    and "Suc (length xs) < 2 ^ 64"
  shows "\<exists>c c'. run_accesses dist xs c0 = Inr c \<and> access dist addr type c = Inr c' \<and>
    get_total_hits c' = get_total_hits c + of_bool (lru_hit c0 xs addr) \<and>
    get_total_misses c' = get_total_misses c + of_bool (\<not> lru_hit c0 xs addr)"
  using new_fresh[OF assms(2), of LRU w WRITE_ALLOCATE g] assms by (intro lru_access) auto

text \<open>The blocks a run touches, and how a run that fits misses them.\<close>

definition blocks :: "'g CacheSim \<Rightarrow> (u32 \<times> AccessType) list \<Rightarrow> (u32 \<times> u32) set" where
  "blocks c xs = (\<lambda>a. (set_index c a, set_tag c a)) ` fst ` set xs"

lemma touched_blocks: "t \<in> set (touched c (unat i) xs) \<longleftrightarrow> (i, t) \<in> blocks c xs"
proof -
  have "t \<in> set (touched c (unat i) xs) \<longleftrightarrow> (\<exists>a ty. (a, ty) \<in> set xs \<and> set_index c a = i \<and> set_tag c a = t)"
    unfolding touched_def by (force simp: word_unat_eq_iff[of _ i])
  then show ?thesis by (force simp: blocks_def image_image)
qed

lemma fits_misses:
  assumes f: "fresh c0" and d: "dist_ok dist" and p: "alloc_policy c0 = WRITE_ALLOCATE" "replacement_policy c0 \<noteq> RANDOM"
  shows "length xs < 2 ^ 64 \<Longrightarrow> \<forall>s. card (set (touched c0 s xs)) \<le> unat (set_size c0) \<Longrightarrow>
    \<exists>c. run_accesses dist xs c0 = Inr c \<and> get_total_misses c = of_nat (card (blocks c0 xs))"
proof (induction xs rule: rev_induct)
  case Nil
  then show ?case using f by (simp add: blocks_def fresh_def get_total_misses_def)
next
  case (snoc x xs)
  obtain addr type where x: "x = (addr, type)" by force
  have ok: "cache_ok c0" using f by (simp add: fresh_def)
  have fits: "card (set (touched c0 s xs)) \<le> unat (set_size c0)" for s
  proof -
    have "card (set (touched c0 s xs)) \<le> card (set (touched c0 s (xs @ [x])))" by (rule card_mono) (auto simp: touched_def)
    then show ?thesis using snoc.prems(2) le_trans by blast
  qed
  obtain c where c: "run_accesses dist xs c0 = Inr c" "cache_ok c" "params c = params c0" "clock c = of_nat (length xs)"
    "\<forall>s < unat (num_sets c0). held c s = foldl (rstep (replacement_policy c0) (unat (set_size c0))) [] (touched c0 s xs)"
    using run_refines[OF f d _ p, of xs] snoc.prems(1) by auto
  have "held c (unat (set_index c0 addr)) = foldl (rstep (replacement_policy c0) (unat (set_size c0))) [] (touched c0 (unat (set_index c0 addr)) xs)"
    by (rule held_tags[OF ok c(5)])
  then have held: "set_tag c0 addr \<in> set (held c (unat (set_index c0 addr))) \<longleftrightarrow> (set_index c0 addr, set_tag c0 addr) \<in> blocks c0 xs"
    by (simp add: rstep_fits[OF fits] touched_blocks)
  obtain c' where c': "access dist addr type c = Inr c'"
    "get_total_misses c' = get_total_misses c + of_bool (set_tag c0 addr \<notin> set (held c (unat (set_index c0 addr))))"
    using next_access[OF c(2-4) d, of addr type] snoc.prems(1) by auto
  have "get_total_misses c = of_nat (card (blocks c0 xs))" using snoc fits c(1) by auto
  moreover have "blocks c0 (xs @ [x]) = insert (set_index c0 addr, set_tag c0 addr) (blocks c0 xs)" "finite (blocks c0 xs)"
    by (simp_all add: blocks_def x)
  ultimately show ?case using c(1) c' held by (simp add: run_append x card_insert_if)
qed

text \<open>C23: a working set that fits is missed once.  Under LRU and under FIFO, when no set is asked for more distinct blocks
  than it has lines, the misses are exactly the distinct blocks of the trace.\<close>

theorem working_set_fits:
  assumes "CacheSim_new csize bsize ssize r w WRITE_ALLOCATE g = Inr c0" "geometry csize bsize ssize" "r \<noteq> RANDOM" "dist_ok dist"
    and "length xs < 2 ^ 64" "\<And>s. card (set (touched c0 s xs)) \<le> unat ssize"
  shows "\<exists>c. run_accesses dist xs c0 = Inr c \<and> get_total_misses c = of_nat (card (blocks c0 xs))"
  using new_fresh[OF assms(2), of r w WRITE_ALLOCATE g] assms by (intro fits_misses) auto

section \<open>Memory traffic\<close>

definition dirty_lines :: "CacheLine list \<Rightarrow> nat" where
  "dirty_lines ls = sum_list (map (\<lambda>l. of_bool (valid l \<and> dirty l)) ls)"

definition ndirty :: "'g CacheSim \<Rightarrow> nat" where
  "ndirty c = sum_list (map dirty_lines (sets c))"

lemma sum_list_put: "i < length xs \<Longrightarrow> sum_list (xs[i := x]) + xs ! i = sum_list xs + (x :: nat)"
proof (induction xs arbitrary: i)
  case (Cons a xs)
  then show ?case using Cons.IH[of "i - 1"] by (cases i) simp_all
qed simp

lemma ndirty_put:
  assumes "sets c' = (sets c)[s := (sets c ! s)[i := l]]" "s < length (sets c)" "i < length (sets c ! s)"
  shows "ndirty c' + of_bool (valid (sets c ! s ! i) \<and> dirty (sets c ! s ! i)) = ndirty c + of_bool (valid l \<and> dirty l)"
proof -
  have "dirty_lines ((sets c ! s)[i := l]) + of_bool (valid (sets c ! s ! i) \<and> dirty (sets c ! s ! i))
      = dirty_lines (sets c ! s) + of_bool (valid l \<and> dirty l)"
    using sum_list_put[of i "map (\<lambda>l. of_bool (valid l \<and> dirty l)) (sets c ! s)"] assms(3) by (simp add: dirty_lines_def map_update)
  moreover have "ndirty c' + dirty_lines (sets c ! s) = ndirty c + dirty_lines ((sets c ! s)[i := l])"
    using sum_list_put[of s "map dirty_lines (sets c)"] assms(1,2) by (simp add: ndirty_def map_update)
  ultimately show ?thesis by linarith
qed

definition traffic_ok :: "'g CacheSim \<Rightarrow> nat \<Rightarrow> bool" where
  "traffic_ok c writes \<longleftrightarrow> (case write_policy c of
     WRITE_THROUGH \<Rightarrow> write_backs c = 0 \<and> write_throughs c = of_nat writes
   | WRITE_BACK \<Rightarrow> write_throughs c = (if alloc_policy c = NO_WRITE_ALLOCATE then write_misses c else 0)
       \<and> (\<exists>k \<le> writes. write_backs c + of_nat (ndirty c) = of_nat k))"

lemma access_hit_traffic:
  "write_backs (access_hit type s i c) = write_backs c" "write_misses (access_hit type s i c) = write_misses c"
  "write_throughs (access_hit type s i c) = write_throughs c + of_bool (type = WRITE \<and> write_policy c = WRITE_THROUGH)"
  by (cases type; cases "write_policy c"; simp add: access_hit_def Let_def set_line_def)+

lemma replace_traffic:
  "write_backs (replace_victim type t s i c) =
     write_backs c + of_bool (valid (sets c ! s ! i) \<and> dirty (sets c ! s ! i) \<and> write_policy c = WRITE_BACK)"
  "write_misses (replace_victim type t s i c) = write_misses c"
  "write_throughs (replace_victim type t s i c) = write_throughs c + of_bool (type = WRITE \<and> write_policy c = WRITE_THROUGH)"
  by (cases type; cases "write_policy c"; simp add: replace_victim_def Let_def set_line_def)+

lemma count_miss_traffic [simp]:
  "write_backs (count_miss type c) = write_backs c" "write_throughs (count_miss type c) = write_throughs c"
  "write_misses (count_miss type c) = write_misses c + of_bool (type = WRITE)"
  "write_policy (count_miss type c) = write_policy c" "alloc_policy (count_miss type c) = alloc_policy c"
  by (cases type; simp add: count_miss_def)+

lemma access_traffic:
  assumes ok: "cache_ok c" and d: "dist_ok dist" and a: "access dist addr type c = Inr c'" and t: "traffic_ok c n"
  shows "traffic_ok c' (n + of_bool (type = WRITE))"
proof -
  let ?s = "unat (set_index c addr)"
  have s: "?s < length (sets c)" by (rule set_index_less[OF ok])
  have pol: "write_policy c' = write_policy c" "alloc_policy c' = alloc_policy c" if "params c' = params c"
    using that by (simp_all add: params_def)
  have tk: "params (tick c) = params c" by (simp add: params_def)
  show ?thesis
  proof (cases rule: access_split[OF ok d, of addr type, case_names hit bypass fill])
    case (hit i)
    let ?h = "hit_line type (tick c) (sets c ! ?s ! i)"
    have c': "c' = access_hit type ?s i (tick c)" using a hit by simp
    then have p: "params c' = params c" by (simp add: tk)
    have w: "write_backs c' = write_backs c" "write_misses c' = write_misses c"
      "write_throughs c' = write_throughs c + of_bool (type = WRITE \<and> write_policy c = WRITE_THROUGH)"
      unfolding c' by (simp_all add: access_hit_traffic)
    have nd: "ndirty c' = ndirty c + of_bool (type = WRITE \<and> write_policy c = WRITE_BACK \<and> \<not> dirty (sets c ! ?s ! i))"
      using ndirty_put[of c' c ?s i ?h] s hit(1,2) by (auto simp: c' access_hit_sets hit_line_def split: if_splits)
    show ?thesis
    proof (cases "write_policy c")
      case WRITE_BACK
      obtain k where k: "k \<le> n" "write_backs c + of_nat (ndirty c) = of_nat k" using t WRITE_BACK by (auto simp: traffic_ok_def)
      have "write_backs c' + of_nat (ndirty c') = of_nat (k + of_bool (type = WRITE \<and> \<not> dirty (sets c ! ?s ! i)))"
        using k(2) by (simp add: w nd WRITE_BACK add.assoc[symmetric])
      then show ?thesis using t k(1) WRITE_BACK pol[OF p] w unfolding traffic_ok_def
        by (auto intro!: exI[of _ "k + of_bool (type = WRITE \<and> \<not> dirty (sets c ! ?s ! i))"])
    qed (use t pol[OF p] w in \<open>simp add: traffic_ok_def\<close>)
  next
    case bypass
    have c': "c' = (count_miss type (tick c))\<lparr>write_throughs := write_throughs c + 1\<rparr>" using a bypass(4) by simp
    have nd: "ndirty c' = ndirty c" by (simp add: c' ndirty_def)
    show ?thesis using t bypass(2,3) nd unfolding traffic_ok_def
      by (cases "write_policy c") (auto simp: c' intro: le_SucI)
  next
    case (fill v g)
    let ?c = "(count_miss type (tick c))\<lparr>rng := g\<rparr>" and ?t = "set_tag c addr"
    let ?old = "valid (sets c ! ?s ! v) \<and> dirty (sets c ! ?s ! v)"
    have c': "c' = replace_victim type ?t ?s v ?c" using a fill by simp
    then have p: "params c' = params c" by (simp add: tk)
    have w: "write_backs c' = write_backs c + of_bool (?old \<and> write_policy c = WRITE_BACK)"
      "write_misses c' = write_misses c + of_bool (type = WRITE)"
      "write_throughs c' = write_throughs c + of_bool (type = WRITE \<and> write_policy c = WRITE_THROUGH)"
      unfolding c' by (simp_all add: replace_traffic)
    have nd: "ndirty c' + of_bool ?old = ndirty c + of_bool (type = WRITE \<and> write_policy c = WRITE_BACK)"
      using ndirty_put[of c' c ?s v "filled_line type ?t ?c"] s fill(3) by (simp add: c' replace_sets filled_line_def)
    show ?thesis
    proof (cases "write_policy c")
      case WRITE_BACK
      obtain k where k: "k \<le> n" "write_backs c + of_nat (ndirty c) = of_nat k" using t WRITE_BACK by (auto simp: traffic_ok_def)
      have "(of_nat (ndirty c' + of_bool ?old) :: u64) = of_nat (ndirty c + of_bool (type = WRITE))"
        using nd WRITE_BACK by (simp only: simp_thms)
      then have "write_backs c' + of_nat (ndirty c') = of_nat (k + of_bool (type = WRITE))"
        using k(2)[symmetric] by (simp add: w WRITE_BACK algebra_simps)
      then show ?thesis using t fill(2) k(1) WRITE_BACK pol[OF p] w unfolding traffic_ok_def
        by (cases type) (auto intro!: exI[of _ "k + of_bool (type = WRITE)"])
    qed (use t pol[OF p] w in \<open>simp add: traffic_ok_def\<close>)
  qed
qed

lemma run_traffic:
  assumes f: "fresh c0" and d: "dist_ok dist"
  shows "length xs < 2 ^ 64 \<Longrightarrow> \<exists>c. run_accesses dist xs c0 = Inr c \<and> cache_ok c \<and> clock c = of_nat (length xs) \<and> params c = params c0
    \<and> get_total_accesses c = of_nat (length xs) \<and> traffic_ok c (length (filter (\<lambda>(_, ty). ty = WRITE) xs))"
proof (induction xs rule: rev_induct)
  case Nil
  have all: "ls = replicate (unat (set_size c0)) CacheLine_init" if "ls \<in> set (sets c0)" for ls
    using that f by (auto simp: fresh_def cache_ok_def in_set_conv_nth)
  have "dirty_lines ls = 0" if "ls \<in> set (sets c0)" for ls
    unfolding all[OF that] by (simp add: dirty_lines_def CacheLine_init_def)
  then have "ndirty c0 = 0" by (simp add: ndirty_def)
  then show ?case using f
    by (auto simp: fresh_def traffic_ok_def get_total_accesses_def get_total_hits_def get_total_misses_def split: WritePolicy.split)
next
  case (snoc x xs)
  obtain addr type where x: "x = (addr, type)" by force
  obtain c where c: "run_accesses dist xs c0 = Inr c" "cache_ok c" "clock c = of_nat (length xs)" "params c = params c0"
    "get_total_accesses c = of_nat (length xs)" "traffic_ok c (length (filter (\<lambda>(_, ty). ty = WRITE) xs))"
    using snoc by auto
  have "unat (of_nat (length xs) :: u64) = length xs" "unat (of_nat (Suc (length xs)) :: u64) = Suc (length xs)"
    using snoc.prems by (simp_all add: unat_of_nat del: of_nat_Suc)
  then have "clock c < clock c + 1" by (simp add: word_less_nat_alt c(3) add.commute)
  then obtain c' where c': "access dist addr type c = Inr c'" "cache_ok c'" "clock c' = clock c + 1" "params c' = params c"
    "get_total_hits c' = get_total_hits c + of_bool (set_tag c addr \<in> set (ages (lines_of c addr)))"
    "get_total_misses c' = get_total_misses c + of_bool (set_tag c addr \<notin> set (ages (lines_of c addr)))"
    using access_refines[OF c(2) d, of addr type] by metis
  have "get_total_accesses c' = get_total_accesses c + 1" using c'(5,6) by (simp add: get_total_accesses_def)
  moreover have "traffic_ok c' (length (filter (\<lambda>(_, ty). ty = WRITE) (xs @ [x])))"
    using access_traffic[OF c(2) d c'(1) c(6)] by (cases "type = WRITE") (simp_all add: x)
  ultimately show ?case using c c' by (simp add: run_append x add.commute)
qed

text \<open>C24: the memory traffic the simulator reports, under every replacement policy.  Each access is counted once.
  Written through, each write goes to memory once and nothing is written back; written back, at most one line per write is
  ever written back, also when the lines still dirty are added, and only misses that do not allocate write through.\<close>

theorem cache_traffic:
  assumes "CacheSim_new csize bsize ssize r w a g = Inr c0" "geometry csize bsize ssize" "dist_ok dist" "length xs < 2 ^ 64"
  shows "\<exists>c. run_accesses dist xs c0 = Inr c \<and> get_total_accesses c = of_nat (length xs) \<and>
    (let writes = length (filter (\<lambda>(_, ty). ty = WRITE) xs) in
     case w of
       WRITE_THROUGH \<Rightarrow> write_backs c = 0 \<and> write_throughs c = of_nat writes
     | WRITE_BACK \<Rightarrow> write_throughs c = (if a = NO_WRITE_ALLOCATE then write_misses c else 0)
         \<and> (\<exists>k \<le> writes. write_backs c + of_nat (ndirty c) = of_nat k))"
proof -
  have f: "fresh c0" "write_policy c0 = w" "alloc_policy c0 = a" using new_fresh[OF assms(2), of r w a g] assms(1) by auto
  obtain c where c: "run_accesses dist xs c0 = Inr c" "params c = params c0" "get_total_accesses c = of_nat (length xs)"
    "traffic_ok c (length (filter (\<lambda>(_, ty). ty = WRITE) xs))"
    using run_traffic[OF f(1) assms(3,4)] by blast
  have "write_policy c = w" "alloc_policy c = a" using c(2) f by (simp_all add: params_def)
  then show ?thesis using c by (cases w) (auto simp: traffic_ok_def)
qed

section \<open>More ways\<close>

lemma last_n_mono: "m \<le> n \<Longrightarrow> set (last_n m xs) \<subseteq> set (last_n n xs)"
  unfolding last_n_def by (rule set_drop_subset_set_drop) simp

lemma lru_hit_mono:
  "set_index c = set_index d \<Longrightarrow> set_tag c = set_tag d \<Longrightarrow> unat (set_size c) \<le> unat (set_size d) \<Longrightarrow> lru_hit c xs addr \<Longrightarrow> lru_hit d xs addr"
  unfolding lru_hit_def touched_def by (simp add: subsetD[OF last_n_mono])

lemma lru_counts:
  assumes f: "fresh c0" and d: "dist_ok dist" and p: "alloc_policy c0 = WRITE_ALLOCATE" "replacement_policy c0 = LRU"
  shows "length xs < 2 ^ 64 \<Longrightarrow> \<exists>c. run_accesses dist xs c0 = Inr c
    \<and> get_total_hits c = of_nat (length (filter (\<lambda>i. lru_hit c0 (take i xs) (fst (xs ! i))) [0..<length xs]))"
proof (induction xs rule: rev_induct)
  case Nil
  then show ?case using f by (simp add: fresh_def get_total_hits_def)
next
  case (snoc x xs)
  obtain addr type where x: "x = (addr, type)" by force
  obtain c c' where c: "run_accesses dist xs c0 = Inr c" "access dist addr type c = Inr c'"
    "get_total_hits c' = get_total_hits c + of_bool (lru_hit c0 xs addr)"
    using lru_access[OF f d _ p, of xs addr type] snoc.prems by auto
  have "filter (\<lambda>i. lru_hit c0 (take i (xs @ [x])) (fst ((xs @ [x]) ! i))) [0..<length xs]
      = filter (\<lambda>i. lru_hit c0 (take i xs) (fst (xs ! i))) [0..<length xs]"
    by (rule filter_cong) (auto simp: nth_append)
  moreover have "get_total_hits c = of_nat (length (filter (\<lambda>i. lru_hit c0 (take i xs) (fst (xs ! i))) [0..<length xs]))"
    using snoc c(1) by auto
  ultimately show ?case using c by (simp add: run_append x)
qed

lemma length_filter_mono: "(\<And>x. P x \<Longrightarrow> Q x) \<Longrightarrow> length (filter P xs) \<le> length (filter Q xs)"
  by (induction xs) (auto intro: le_SucI)

text \<open>More ways never cost LRU a hit.  Of two caches with as many sets of blocks of the same size, the one with more
  ways has at least as many hits on every trace.\<close>

theorem lru_more_ways:
  assumes "CacheSim_new cs1 bsize ss1 LRU w1 WRITE_ALLOCATE g1 = Inr c1" "CacheSim_new cs2 bsize ss2 LRU w2 WRITE_ALLOCATE g2 = Inr c2"
    and "geometry cs1 bsize ss1" "geometry cs2 bsize ss2" "num_sets c1 = num_sets c2" "ss1 \<le> ss2" "dist_ok dist" "length xs < 2 ^ 64"
  shows "\<exists>d1 d2. run_accesses dist xs c1 = Inr d1 \<and> run_accesses dist xs c2 = Inr d2 \<and> unat (get_total_hits d1) \<le> unat (get_total_hits d2)"
proof -
  have n: "fresh c1" "fresh c2" "alloc_policy c1 = WRITE_ALLOCATE" "alloc_policy c2 = WRITE_ALLOCATE" "replacement_policy c1 = LRU"
    "replacement_policy c2 = LRU" "set_size c1 = ss1" "set_size c2 = ss2"
    "offset_bits c1 = offset_bits c2" "index_bits c1 = index_bits c2" "index_mask c1 = index_mask c2"
    using new_fresh[OF assms(3), of LRU w1 WRITE_ALLOCATE g1] new_fresh[OF assms(4), of LRU w2 WRITE_ALLOCATE g2] assms(1,2,5)
    by (auto simp: fresh_def cache_ok_def)
  let ?h = "\<lambda>c i. lru_hit c (take i xs) (fst (xs ! i))"
  have "set_index c1 = set_index c2" "set_tag c1 = set_tag c2" using n by (auto simp: set_index_def set_tag_def)
  moreover have "unat (set_size c1) \<le> unat (set_size c2)" using n(7,8) assms(6) by (simp add: word_le_nat_alt)
  ultimately have "?h c1 i \<Longrightarrow> ?h c2 i" for i by (rule lru_hit_mono)
  then have "length (filter (?h c1) [0..<length xs]) \<le> length (filter (?h c2) [0..<length xs])"
    by (rule length_filter_mono)
  moreover have "length (filter P [0..<length xs]) < 2 ^ 64" for P
    using length_filter_le[of P "[0..<length xs]"] assms(8) by simp
  then have "unat (of_nat (length (filter P [0..<length xs])) :: u64) = length (filter P [0..<length xs])" for P
    by (simp add: unat_of_nat)
  moreover obtain d1 where "run_accesses dist xs c1 = Inr d1" "get_total_hits d1 = of_nat (length (filter (?h c1) [0..<length xs]))"
    using lru_counts[OF n(1) assms(7) n(3,5) assms(8)] by blast
  moreover obtain d2 where "run_accesses dist xs c2 = Inr d2" "get_total_hits d2 = of_nat (length (filter (?h c2) [0..<length xs]))"
    using lru_counts[OF n(2) assms(7) n(4,6) assms(8)] by blast
  ultimately show ?thesis by simp
qed

section \<open>Addresses\<close>

lemma log2_power: "unat n = 2 ^ b \<Longrightarrow> unat (log2_u32 n) = b"
proof -
  assume n: "unat n = 2 ^ b"
  then have "n \<noteq> 0" by auto
  then have "(2::nat) ^ unat (log2_u32 n) \<le> 2 ^ b" "(2::nat) ^ b < 2 ^ Suc (unat (log2_u32 n))" using log2_bounds n by metis+
  then have "unat (log2_u32 n) \<le> b" "b < Suc (unat (log2_u32 n))" by (simp_all only: power_increasing_iff power_strict_increasing_iff)
  then show ?thesis by simp
qed

lemma and_minus_one: "unat n = 2 ^ k \<Longrightarrow> unat (x AND (n - 1)) = unat (x :: u32) mod 2 ^ k"
proof -
  assume n: "unat n = 2 ^ k"
  have "(2::nat) ^ k < 2 ^ 32" using unat_u32_less[of n] n by simp
  then have k: "k < 32" by (simp only: power_strict_increasing_iff)
  have "n = 2 ^ k" by (rule word_eq_unatI) (simp add: n unat_two_power k)
  then have "n - 1 = mask k" by (simp add: mask_eq_decr_exp)
  then show ?thesis by (simp add: unat_take_bit flip: take_bit_eq_mask)
qed

text \<open>With sizes that are powers of two the index and the tag are the digits of the block number.\<close>

lemma index_tag:
  assumes "fresh c" "unat (num_sets c) = 2 ^ k" "unat (offset_bits c) = b" "unat (index_bits c) = k" "b < 32"
  shows "unat (set_index c x) = unat x div 2 ^ b mod 2 ^ k" "unat (set_tag c x) = unat x div 2 ^ b div 2 ^ k"
proof -
  have m: "index_mask c = num_sets c - 1" "unat (offset_bits c + index_bits c) < 32" using assms(1) by (simp_all add: fresh_def cache_ok_def)
  show "unat (set_index c x) = unat x div 2 ^ b mod 2 ^ k"
    unfolding set_index_def m(1) by (simp add: and_minus_one[OF assms(2)] unat_drop_bit assms(3))
  have "(2::nat) ^ k < 2 ^ 32" using unat_u32_less[of "num_sets c"] assms(2) by simp
  then have "k < 32" by (simp only: power_strict_increasing_iff)
  have "unat (offset_bits c + index_bits c) = b + k"
    using \<open>k < 32\<close> assms(3-5) by (simp add: unat_word_ariths)
  then show "unat (set_tag c x) = unat x div 2 ^ b div 2 ^ k"
    by (simp add: set_tag_def unat_drop_bit power_add div_mult2_eq)
qed

definition sound_cache :: "'g CacheSim res \<Rightarrow> bool" where
  "sound_cache r \<longleftrightarrow> (\<exists>c. r = Inr c \<and> fresh c \<and>
     (\<forall>x y. (set_index c x = set_index c y \<and> set_tag c x = set_tag c y) = (x div block_size c = y div block_size c)))"

lemma sound_new:
  assumes g: "geometry csize bsize ssize" and b: "unat bsize = 2 ^ b" and k: "unat csize div (unat bsize * unat ssize) = 2 ^ k"
  shows "sound_cache (CacheSim_new csize bsize ssize r w a rg)"
proof -
  obtain c where c: "CacheSim_new csize bsize ssize r w a rg = Inr c" "fresh c" "block_size c = bsize"
    "num_sets c = csize div (bsize * ssize)" "offset_bits c = log2_u32 bsize" "index_bits c = log2_u32 (num_sets c)"
    using new_fresh[OF g, of r w a rg] by metis
  have n: "unat (num_sets c) = 2 ^ k" using c(4) geometry_sets(2)[OF g] k by simp
  have "(2::nat) ^ b < 2 ^ 32" using unat_u32_less[of bsize] b by simp
  then have b32: "b < 32" by (simp only: power_strict_increasing_iff)
  have ob: "unat (offset_bits c) = b" "unat (index_bits c) = k" using c(5,6) log2_power[OF b] log2_power[OF n] by simp_all
  note it = index_tag[OF c(2) n ob b32]
  have "(set_index c x = set_index c y \<and> set_tag c x = set_tag c y) = (x div bsize = y div bsize)" for x y
  proof -
    have q: "unat (x div bsize) = unat x div 2 ^ b" for x :: u32 by (simp add: unat_div_distrib b)
    show ?thesis unfolding word_unat_eq_iff it q by (metis div_mult_mod_eq)
  qed
  then show ?thesis using c by (auto simp: sound_cache_def)
qed

lemma pow2: "n \<in> {1, 2, 4, 8, 16, 32} \<Longrightarrow> \<exists>b. n = (2::nat) ^ b"
  using power_0[of "2::nat"] power_one_right[of "2::nat"]
  by (auto intro: exI[of _ 0] exI[of _ 1] exI[of _ 2] exI[of _ 3] exI[of _ 4] exI[of _ 5])

lemma sound_pow2:
  assumes "0 < unat bsize * unat ssize" "unat bsize * unat ssize \<le> unat csize" "unat bsize \<in> {1, 2, 4, 8, 16, 32}"
    "unat csize div (unat bsize * unat ssize) \<in> {1, 2, 4, 8, 16, 32}"
  shows "sound_cache (CacheSim_new csize bsize ssize r w a rg)"
  using pow2[OF assms(3)] pow2[OF assms(4)] assms(1,2) sound_new unfolding geometry_def by metis

text \<open>Every cache the program simulates is set up: its parameters divide evenly, and two addresses have the same set and
  tag exactly when they lie in the same block.\<close>

theorem main_caches_sound: "list_all sound_cache (icache_sims g @ dcache_sims g)"
  unfolding icache_sims_def dcache_sims_def block_info_def replace_policies_def
  by (simp add: sound_pow2)

section \<open>A small cache\<close>

text \<open>Four sets of two lines; the addresses 0, 16 and 32 share the first set.\<close>

definition small_dist :: "unit \<Rightarrow> u32 \<Rightarrow> u32 \<times> unit" where
  "small_dist g n = (0, g)"

definition small_trace :: "(u32 \<times> AccessType) list" where
  "small_trace = [(0, READ), (17, WRITE), (2, WRITE), (36, READ)]"

lemma small_geometry: "geometry 32 4 2" "geometry 64 4 4" "dist_ok small_dist" "length small_trace = 4"
  by (simp_all add: geometry_def dist_ok_def small_dist_def small_trace_def)

lemma log2_vals: "log2_u32 4 = 2"
  by code_simp

lemma small_new:
  obtains c where "CacheSim_new 32 4 2 r w a () = Inr c" "offset_bits c = 2" "index_bits c = 2" "index_mask c = 3" "set_size c = 2" "num_sets c = 4"
  by (simp add: CacheSim_new_def log2_vals)

lemma large_new:
  obtains c where "CacheSim_new 64 4 4 r w a () = Inr c" "num_sets c = 4"
  by (simp add: CacheSim_new_def log2_vals)

lemma small_blocks:
  assumes "offset_bits c = 2" "index_bits c = 2" "index_mask c = 3"
  shows "blocks c small_trace = {(0, 0), (0, 1), (1, 2)}"
    "touched c s small_trace = (if s = 0 then [0, 1, 0] else if s = 1 then [2] else [])"
  by (auto simp: blocks_def touched_def small_trace_def set_index_def set_tag_def assms)

theorem lru_hits_witness:
  "\<exists>c0 c c'. CacheSim_new 32 4 2 LRU WRITE_BACK WRITE_ALLOCATE () = Inr c0 \<and> lru_hit c0 small_trace 19 \<and> \<not> lru_hit c0 small_trace 32
    \<and> run_accesses small_dist small_trace c0 = Inr c \<and> access small_dist 19 READ c = Inr c' \<and> get_total_hits c' = get_total_hits c + 1"
proof -
  obtain c0 :: "unit CacheSim" where c0: "CacheSim_new 32 4 2 LRU WRITE_BACK WRITE_ALLOCATE () = Inr c0" "offset_bits c0 = 2" "index_bits c0 = 2"
    "index_mask c0 = 3" "set_size c0 = 2" using small_new by blast
  have h: "lru_hit c0 small_trace 19" "\<not> lru_hit c0 small_trace 32"
    by (simp_all add: lru_hit_def small_blocks[OF c0(2-4)] set_index_def set_tag_def c0 last_n_def)
  show ?thesis using lru_hits[OF c0(1) small_geometry(1,3), of small_trace 19 READ] h c0(1) by (auto simp: small_geometry(4))
qed

theorem working_set_fits_witness:
  "\<exists>c0 c. CacheSim_new 32 4 2 FIFO WRITE_BACK WRITE_ALLOCATE () = Inr c0 \<and> run_accesses small_dist small_trace c0 = Inr c \<and> get_total_misses c = 3"
proof -
  obtain c0 :: "unit CacheSim" where c0: "CacheSim_new 32 4 2 FIFO WRITE_BACK WRITE_ALLOCATE () = Inr c0" "offset_bits c0 = 2" "index_bits c0 = 2"
    "index_mask c0 = 3" "set_size c0 = 2" using small_new by blast
  have "card (set (touched c0 s small_trace)) \<le> unat (2 :: u32)" for s
    by (cases "s = 0"; cases "s = 1") (simp_all add: small_blocks[OF c0(2-4)] card_insert_if)
  from working_set_fits[OF c0(1) small_geometry(1) _ small_geometry(3) _ this] show ?thesis
    using c0(1) by (auto simp: small_geometry(4) small_blocks[OF c0(2-4)])
qed

theorem cache_traffic_witness:
  "\<exists>c0 c. CacheSim_new 32 4 2 RANDOM WRITE_THROUGH WRITE_ALLOCATE () = Inr c0 \<and> run_accesses small_dist small_trace c0 = Inr c \<and> write_throughs c = 2"
proof -
  obtain c0 :: "unit CacheSim" where c0: "CacheSim_new 32 4 2 RANDOM WRITE_THROUGH WRITE_ALLOCATE () = Inr c0" using small_new by blast
  show ?thesis using cache_traffic[OF c0 small_geometry(1,3), of small_trace] c0 by (auto simp: small_geometry(4)) (simp add: small_trace_def)
qed

theorem lru_more_ways_witness:
  "\<exists>c1 c2 d1 d2. CacheSim_new 32 4 2 LRU WRITE_BACK WRITE_ALLOCATE () = Inr c1 \<and> CacheSim_new 64 4 4 LRU WRITE_BACK WRITE_ALLOCATE () = Inr c2
    \<and> run_accesses small_dist small_trace c1 = Inr d1 \<and> run_accesses small_dist small_trace c2 = Inr d2
    \<and> unat (get_total_hits d1) \<le> unat (get_total_hits d2)"
proof -
  obtain c1 :: "unit CacheSim" where c1: "CacheSim_new 32 4 2 LRU WRITE_BACK WRITE_ALLOCATE () = Inr c1" "num_sets c1 = 4" using small_new by blast
  obtain c2 :: "unit CacheSim" where c2: "CacheSim_new 64 4 4 LRU WRITE_BACK WRITE_ALLOCATE () = Inr c2" "num_sets c2 = 4" using large_new by blast
  show ?thesis using lru_more_ways[OF c1(1) c2(1) small_geometry(1,2) _ _ small_geometry(3), of small_trace] c1 c2
    by (auto simp: small_geometry(4))
qed

end
