(* ===== verification/Branchsim_Proofs.thy ===== *)
theory Branchsim_Proofs
  imports Branchsim Cachesim_Proofs
begin

text \<open>The branch predictor simulator against its specification on the history of branches.\<close>

type_synonym branch_event = "u32 \<times> u32 \<times> bool \<times> bool"

section \<open>Index and tag\<close>

definition btb_of :: "BranchSim \<Rightarrow> nat \<Rightarrow> bool" where
  "btb_of b k \<longleftrightarrow> k < 30 \<and> btb_index_bits b = of_nat k \<and> btb_index_mask b = mask k \<and> length (storage b) = 2 ^ k"

lemma new_btb:
  assumes "unat n = 2 ^ k" "k < 30"
  shows "\<exists>b. BranchSim_new n = Inr b \<and> btb_of b k \<and> storage b = replicate (2 ^ k) BTBEntry_init
    \<and> total_branches b = 0 \<and> mispredictions b = 0"
proof -
  have n: "n = 2 ^ k" by (rule word_eq_unatI) (use assms in \<open>simp add: unat_two_power\<close>)
  have "bit n 31 \<Longrightarrow> (2::nat) ^ 31 \<le> 2 ^ k" using bit_imp_le_unat[of n 31] assms(1) by simp
  moreover have "(2::nat) ^ k < 2 ^ 31" using assms(2) by (intro power_strict_increasing) auto
  ultimately have "\<not> bit n 31" by linarith
  then have s: "\<not> sint n < 0" using msb_sint[of n] by simp
  have m: "scast (n - 1) = (mask k :: u64)"
  proof -
    have "n - 1 = mask k" by (simp add: n mask_eq_decr_exp)
    then show ?thesis using assms(2) by (intro bit_word_eqI) (simp add: bit_signed_iff bit_mask_iff min_def)
  qed
  have "log2_u32 n = of_nat k"
    by (rule word_eq_unatI) (use assms(2) in \<open>simp add: log2_power[OF assms(1)] unat_of_nat\<close>)
  then have "btb_log2_u32 n = of_nat k" by (simp add: btb_log2_u32_def log2_u32_def)
  then show ?thesis using s m assms by (simp add: BranchSim_new_def btb_of_def)
qed

lemma btb_index_tag:
  assumes "btb_of b k"
  shows "unat (btb_index b pc) = unat pc div 4 mod 2 ^ k" "unat (btb_tag_of b pc) = unat pc div 4 div 2 ^ k"
    "unat (btb_index_bits b + 2) = k + 2"
proof -
  have k: "k < 30" "btb_index_bits b = of_nat k" "btb_index_mask b = mask k" using assms by (simp_all add: btb_of_def)
  show bits: "unat (btb_index_bits b + 2) = k + 2" using k by (simp add: unat_word_ariths unat_of_nat)
  have w: "unat pc div m < 2 ^ 32" for m using unat_u32_less[of pc] div_le_dividend[of "unat pc" m] by linarith
  have c: "unat (ucast y :: u64) = unat y" for y :: u32
    using unat_u32_less[of y] by (simp add: unsigned_ucast_eq take_bit_eq_mod)
  have m: "unat (ucast (drop_bit 2 pc) AND mask k :: u64) = unat pc div 4 mod 2 ^ k"
    by (simp add: unat_take_bit unat_drop_bit c flip: take_bit_eq_mask)
  have "unat pc div 4 mod 2 ^ k < 2 ^ 32" using w[of 4] mod_less_eq_dividend[of "unat pc div 4" "2 ^ k"] by linarith
  then show "unat (btb_index b pc) = unat pc div 4 mod 2 ^ k"
    by (simp add: btb_index_def k unsigned_ucast_eq take_bit_eq_mod m)
  show "unat (btb_tag_of b pc) = unat pc div 4 div 2 ^ k"
    by (simp add: btb_tag_of_def bits c unat_drop_bit div_mult2_eq power_add)
qed

section \<open>The specification\<close>

text \<open>A branch is predicted from the branch executed last among those that share its slot, if that is a branch at the same
  word.\<close>

definition mispredicts :: "nat \<Rightarrow> branch_event list \<Rightarrow> branch_event \<Rightarrow> bool" where
  "mispredicts n hist ev = (case ev of (pc, target, uncond, taken) \<Rightarrow>
     case find (\<lambda>(pc', _). unat pc' div 4 mod n = unat pc div 4 mod n) (rev hist) of
       None \<Rightarrow> taken
     | Some (pc', target', uncond', _) \<Rightarrow>
         if unat pc' div 4 = unat pc div 4
         then (let p = uncond' \<or> target' < pc in p \<noteq> taken \<or> p \<and> target' \<noteq> target)
         else taken)"

text \<open>A slot holds the last branch that was sent to it.\<close>

definition slot :: "BranchSim \<Rightarrow> branch_event option \<Rightarrow> BTBEntry" where
  "slot b ev = (case ev of None \<Rightarrow> BTBEntry_init
     | Some (pc, target, uncond, taken) \<Rightarrow> \<lparr>btb_valid = True, btb_tag = btb_tag_of b pc, btb_target = ucast target, btb_uncond = uncond\<rparr>)"

definition holds_last :: "BranchSim \<Rightarrow> nat \<Rightarrow> branch_event list \<Rightarrow> bool" where
  "holds_last b n hist \<longleftrightarrow> (\<forall>i < n. storage b ! i = slot b (find (\<lambda>(pc, _). unat pc div 4 mod n = i) (rev hist)))"

lemma ucast_less: "ucast t < (ucast pc :: u64) \<longleftrightarrow> t < (pc :: u32)"
  by (simp add: word_less_nat_alt unsigned_ucast_eq take_bit_eq_mod order.strict_trans[OF unat_u32_less])

lemma ucast_back: "ucast (ucast t :: u64) = (t :: u32)"
  by (rule bit_word_eqI) (auto simp: bit_ucast_iff dest: bit_imp_le_length)

lemma div_mod_inj: "x div m = y div m \<Longrightarrow> x mod m = y mod m \<Longrightarrow> x = (y :: nat)"
  by (metis div_mult_mod_eq)

lemma btb_upd [simp]:
  "btb_index (b\<lparr>total_branches := t\<rparr>) = btb_index b" "btb_index (b\<lparr>mispredictions := t\<rparr>) = btb_index b"
  "btb_tag_of (b\<lparr>total_branches := t\<rparr>) = btb_tag_of b" "btb_tag_of (b\<lparr>mispredictions := t\<rparr>) = btb_tag_of b"
  by (simp_all add: fun_eq_iff btb_index_def btb_tag_of_def)

lemma BranchSim_step_spec:
  assumes b: "btb_of b k" and h: "holds_last b (2 ^ k) hist" and ev: "ev = (pc, target, uncond, taken)"
  shows "\<exists>b'. BranchSim_step pc target uncond taken b = Inr b' \<and> btb_of b' k \<and> holds_last b' (2 ^ k) (hist @ [ev])
    \<and> total_branches b' = total_branches b + 1 \<and> mispredictions b' = mispredictions b + of_bool (mispredicts (2 ^ k) hist ev)"
proof -
  let ?i = "unat pc div 4 mod 2 ^ k" and ?f = "\<lambda>i. find (\<lambda>(pc', _). unat pc' div 4 mod 2 ^ k = i) (rev hist)"
  let ?new = "\<lparr>btb_valid = True, btb_tag = btb_tag_of b pc, btb_target = ucast target, btb_uncond = uncond\<rparr>"
  note it = btb_index_tag[OF b]
  have k: "k + 2 < 32" "length (storage b) = 2 ^ k" using b by (simp_all add: btb_of_def)
  have e: "storage b ! ?i = slot b (?f ?i)" using h by (simp add: holds_last_def)
  obtain p t where pt: "predict (storage b ! ?i) (btb_tag_of b pc) pc = (p, t)" by force
  have mp: "(p \<noteq> taken \<or> p \<and> t \<noteq> target) = mispredicts (2 ^ k) hist ev"
  proof (cases "?f ?i")
    case None
    then show ?thesis using pt e by (auto simp: predict_def slot_def BTBEntry_init_def mispredicts_def ev)
  next
    case (Some a)
    obtain pc' t' u' tk where a: "a = (pc', t', u', tk)" by (cases a) auto
    have "unat pc' div 4 mod 2 ^ k = ?i" using Some a by (auto simp: find_Some_iff)
    then have tag: "btb_tag_of b pc' = btb_tag_of b pc \<longleftrightarrow> unat pc' div 4 = unat pc div 4"
      unfolding word_unat_eq_iff it by (auto intro: div_mod_inj)
    show ?thesis using pt e tag Some unfolding a
      by (auto simp: predict_def slot_def mispredicts_def ev Let_def ucast_less ucast_back split: if_splits)
  qed
  define b' where "b' = b\<lparr>total_branches := total_branches b + 1,
    mispredictions := mispredictions b + of_bool (mispredicts (2 ^ k) hist ev), storage := (storage b)[?i := ?new]\<rparr>"
  have step: "BranchSim_step pc target uncond taken b = Inr b'"
    using k pt it(3) mod_less_divisor[of "2 ^ k" "unat pc div 4"] unfolding BranchSim_step_def b'_def mp[symmetric]
    by (auto simp: Let_def it(1) not_le)
  have "btb_of b' k" using b by (simp add: btb_of_def b'_def)
  moreover have tg: "btb_tag_of b' = btb_tag_of b" by (simp add: fun_eq_iff btb_tag_of_def b'_def)
  have "holds_last b' (2 ^ k) (hist @ [ev])" unfolding holds_last_def
  proof (intro allI impI)
    fix i :: nat assume i: "i < 2 ^ k"
    have "slot b' = slot b" by (simp add: fun_eq_iff slot_def tg split: option.split)
    moreover have "storage b' = (storage b)[?i := slot b (Some (pc, target, uncond, taken))]" by (simp add: b'_def slot_def)
    ultimately show "storage b' ! i = slot b' (find (\<lambda>(pc, _). unat pc div 4 mod 2 ^ k = i) (rev (hist @ [ev])))"
      using i h k(2) by (cases "i = ?i") (simp_all add: ev holds_last_def)
  qed
  ultimately show ?thesis using step by (auto simp: b'_def)
qed

section \<open>Runs\<close>

lemma branches_append: "run_branches (xs @ ys) b = bind_res (run_branches xs b) (run_branches ys)"
  by (induction xs b rule: run_branches.induct) (auto simp: bind_res_assoc intro: bind_res_cong)

lemma run_branches_spec:
  assumes "btb_of b0 k" "storage b0 = replicate (2 ^ k) BTBEntry_init" "total_branches b0 = 0" "mispredictions b0 = 0"
  shows "\<exists>b. run_branches hist b0 = Inr b \<and> btb_of b k \<and> holds_last b (2 ^ k) hist \<and> total_branches b = of_nat (length hist)
    \<and> mispredictions b = of_nat (length (filter (\<lambda>i. mispredicts (2 ^ k) (take i hist) (hist ! i)) [0..<length hist]))"
proof (induction hist rule: rev_induct)
  case Nil
  then show ?case using assms by (simp add: holds_last_def slot_def)
next
  case (snoc ev hist)
  obtain pc target uncond taken where ev: "ev = (pc, target, uncond, taken)" by (cases ev) auto
  obtain b where b: "run_branches hist b0 = Inr b" "btb_of b k" "holds_last b (2 ^ k) hist" "total_branches b = of_nat (length hist)"
    "mispredictions b = of_nat (length (filter (\<lambda>i. mispredicts (2 ^ k) (take i hist) (hist ! i)) [0..<length hist]))"
    using snoc by blast
  obtain b' where b': "BranchSim_step pc target uncond taken b = Inr b'" "btb_of b' k" "holds_last b' (2 ^ k) (hist @ [ev])"
    "total_branches b' = total_branches b + 1" "mispredictions b' = mispredictions b + of_bool (mispredicts (2 ^ k) hist ev)"
    using BranchSim_step_spec[OF b(2,3) ev] by blast
  have "filter (\<lambda>i. mispredicts (2 ^ k) (take i (hist @ [ev])) ((hist @ [ev]) ! i)) [0..<length hist]
      = filter (\<lambda>i. mispredicts (2 ^ k) (take i hist) (hist ! i)) [0..<length hist]"
    by (rule filter_cong) (auto simp: nth_append)
  then show ?case using b b' by (simp add: branches_append ev[symmetric]) (simp add: ev add.commute)
qed

text \<open>C25: the branch predictor simulator.  With a power of two entries it never fails, counts every branch, and counts
  as mispredicted exactly the branches that differ from the prediction made from the last branch of their slot.\<close>

theorem branchsim_counts:
  assumes "BranchSim_new n = Inr b0" "unat n = 2 ^ k" "k < 30"
  shows "\<exists>b. run_branches hist b0 = Inr b \<and> total_branches b = of_nat (length hist) \<and>
    mispredictions b = of_nat (length (filter (\<lambda>i. mispredicts (unat n) (take i hist) (hist ! i)) [0..<length hist]))"
  using new_btb[OF assms(2,3)] run_branches_spec[of b0 k hist] assms(1,2) by auto

text \<open>A loop of three iterations, closed by a conditional branch backwards, is mispredicted when it is first seen and when
  it is left.\<close>

theorem branchsim_counts_witness:
  "\<exists>b0 b. BranchSim_new 32 = Inr b0 \<and> mispredictions b = 2 \<and>
    run_branches [(0x30000040, 0x30000000, False, True), (0x30000040, 0x30000000, False, True), (0x30000040, 0x30000000, False, False)] b0 = Inr b"
proof -
  obtain b0 where b0: "BranchSim_new 32 = Inr b0" using new_btb[of 32 5] by auto
  show ?thesis
    using branchsim_counts[OF b0, of 5 "[(0x30000040, 0x30000000, False, True), (0x30000040, 0x30000000, False, True), (0x30000040, 0x30000000, False, False)]"] b0
    by (auto simp: mispredicts_def upt_rec)
qed

end
