(* ===== verification/Tracesim.thy ===== *)
theory Tracesim
  imports Cpu Branchsim
begin

text \<open>
  The trace simulators' side of the trace interface (\<open>npc/tracesim/common/trace.cpp\<close>): loading the emulator, draining
  its batches into consumers, and the program \<open>branchsim\<close> (\<open>branchsim/main.cpp\<close>).

  The emulator is the one of \<open>ref.c\<close>.  What \<open>getenv\<close>, \<open>dlopen\<close> and \<open>dlsym\<close> return are arguments.
\<close>

definition RESET_VECTOR_sim :: u32 where
  "RESET_VECTOR_sim = 0x30000000"

definition MAX_IMAGE_SIZE :: nat where
  "MAX_IMAGE_SIZE = 32 * 1024 * 1024"

definition BATCH_SIZE :: u32 where
  "BATCH_SIZE = 8192"

definition ctx0 :: CPU_state where
  "ctx0 = \<lparr>gpr = (\<lambda>_. 0), cpu_pc = RESET_VECTOR_sim, csr = (\<lambda>_. 0), priv_level = 0\<rparr>"

record loader =
  npc_home :: "string option"
  dlopen_ok :: "string \<Rightarrow> bool"
  dlsym_ok :: "string \<Rightarrow> bool"

definition tracesim_symbols :: "string list" where
  "tracesim_symbols = [''difftest_memcpy'', ''difftest_regcpy'', ''difftest_exec'', ''difftest_raise_intr'',
     ''difftest_tracesim_init'', ''difftest_tracesim_step'', ''difftest_init'']"

definition init_tracesim :: "config \<Rightarrow> loader \<Rightarrow> u8 option \<Rightarrow> (string \<Rightarrow> u8) \<Rightarrow> u8 list option \<Rightarrow> u8 list \<Rightarrow> 'r emu \<Rightarrow> 'r emu res" where
  "init_tracesim cfg ld rnd sdl sd_img bytes e = (case npc_home ld of
     None \<Rightarrow> Inl (Assert_fail ''npc_home'')
   | Some home \<Rightarrow>
       assert_res ''dlopen error'' (dlopen_ok ld (home @ ''/sim/common/lib/riscv32-nemu-interpreter-so''))
       (assert_res ''dlsym'' (list_all (dlsym_ok ld) tracesim_symbols)
       (bind_res (difftest_init cfg rnd sdl sd_img e) (\<lambda>e.
        bind_res (difftest_memcpy_to_ref cfg RESET_VECTOR_sim bytes e) (\<lambda>e.
        Inr (difftest_tracesim_init (difftest_regcpy_to_ref ctx0 e)))))))"

text \<open>A consumer is called on the elements of a stream in order.\<close>

fun each :: "('a \<Rightarrow> 's \<Rightarrow> 's res) \<Rightarrow> 'a list \<Rightarrow> 's \<Rightarrow> 's res" where
  "each f [] s = Inr s"
| "each f (x # xs) s = bind_res (f x s) (each f xs)"

definition consume_batch :: "(u32 \<Rightarrow> 's \<Rightarrow> 's res) \<Rightarrow> (bool \<times> u32 \<Rightarrow> 's \<Rightarrow> 's res) \<Rightarrow> (branch_entry \<Rightarrow> 's \<Rightarrow> 's res) \<Rightarrow>
    tracesim_batch \<Rightarrow> 's \<Rightarrow> 's res" where
  "consume_batch pc_consumer ldstr_consumer branch_consumer batch s =
     bind_res (each pc_consumer (i_stream batch) s) (\<lambda>s.
     bind_res (each ldstr_consumer (d_stream batch) s) (\<lambda>s.
     each branch_consumer (b_stream batch) s))"

text \<open>The loop ends when a batch is not full; \<open>None\<close> is a loop that never does.\<close>

partial_function (option) drain_stream :: "config \<Rightarrow> 'r host \<Rightarrow> u32 \<Rightarrow> (tracesim_batch \<Rightarrow> 's \<Rightarrow> 's res) \<Rightarrow>
    's \<Rightarrow> 'r emu \<Rightarrow> ('s \<times> 'r emu) res option" where
  "drain_stream cfg h bsz consume s e = (case difftest_tracesim_step cfg h bsz e of
     Inl err \<Rightarrow> Some (Inl err)
   | Inr (batch, e) \<Rightarrow> (case consume batch s of
       Inl err \<Rightarrow> Some (Inl err)
     | Inr s \<Rightarrow> if length (i_stream batch) \<noteq> unat bsz then Some (Inr (s, e)) else drain_stream cfg h bsz consume s e))"

definition branch_consumer_sim :: "branch_entry \<Rightarrow> BranchSim \<Rightarrow> BranchSim res" where
  "branch_consumer_sim br sim = BranchSim_step (br_pc br) (br_target br) (br_uncond br) (br_taken br) sim"

text \<open>The exit status is negative after a usage error; a missing image is read through a null pointer.\<close>

definition branchsim_main :: "config \<Rightarrow> 'r host \<Rightarrow> loader \<Rightarrow> u8 option \<Rightarrow> (string \<Rightarrow> u8) \<Rightarrow> u8 list option \<Rightarrow>
    (string \<Rightarrow> u8 list option) \<Rightarrow> string list \<Rightarrow> 'r emu \<Rightarrow> (int \<times> BranchSim option) res option" where
  "branchsim_main cfg h ld rnd sdl sd_img files argv e =
     (if length argv \<noteq> 2 then Some (Inr (- 1, None))
      else case files (argv ! 1) of
        None \<Rightarrow> Some (Inl (Undefined ''fread of a null pointer''))
      | Some bs \<Rightarrow> (case init_tracesim cfg ld rnd sdl sd_img (take MAX_IMAGE_SIZE bs) e of
          Inl err \<Rightarrow> Some (Inl err)
        | Inr e \<Rightarrow> (case BranchSim_new 32 of
            Inl err \<Rightarrow> Some (Inl err)
          | Inr sim \<Rightarrow> map_option (map_sum id (\<lambda>(sim, _). (0, Some sim)))
              (drain_stream cfg h BATCH_SIZE (consume_batch (\<lambda>_. Inr) (\<lambda>_. Inr) branch_consumer_sim) sim e))))"

end
