(* ===== verification/Tracesim_Proofs.thy ===== *)
theory Tracesim_Proofs
  imports Tracesim Cpu_Proofs
begin

text \<open>What the consumers of a trace see: the batches, put together, are the trace of the whole run.\<close>

section \<open>Putting batches together\<close>

definition no_batch :: tracesim_batch where
  "no_batch = \<lparr>i_stream = [], d_stream = [], b_stream = []\<rparr>"

definition join :: "tracesim_batch \<Rightarrow> tracesim_batch \<Rightarrow> tracesim_batch" where
  "join b c = \<lparr>i_stream = i_stream b @ i_stream c, d_stream = d_stream b @ d_stream c, b_stream = b_stream b @ b_stream c\<rparr>"

lemma join_no [simp]: "join no_batch b = b" "join b no_batch = b"
  by (simp_all add: join_def no_batch_def)

lemma join_streams [simp]: "i_stream (join b c) = i_stream b @ i_stream c" "d_stream (join b c) = d_stream b @ d_stream c"
  "b_stream (join b c) = b_stream b @ b_stream c"
  by (simp_all add: join_def)

lemma join_assoc: "join (join b c) d = join b (join c d)"
  by (simp add: join_def)

lemma push_join: "push_ldstr ld (join b c) = join b (push_ldstr ld c)" "push_branch pc br (join b c) = join b (push_branch pc br c)"
  "(join b c)\<lparr>i_stream := i_stream (join b c) @ [pc]\<rparr> = join b (c\<lparr>i_stream := i_stream c @ [pc]\<rparr>)"
  by (auto simp: push_ldstr_def push_branch_def join_def split: option.split)

lemma record_join: "tracesim_record cfg (join b c) e = bind_res (tracesim_record cfg c e) (\<lambda>(c, e). Inr (join b c, e))"
  unfolding tracesim_record_def push_join(3) Let_def
  by (cases "vaddr_ifetch cfg (pc_of e) 4 (memory (core e))") (auto simp: bind_res_assoc push_join intro!: bind_res_cong)

lemma loop_join: "tracesim_loop cfg h n (join b c) e = bind_res (tracesim_loop cfg h n c e) (\<lambda>(c, e). Inr (join b c, e))"
proof (induction n arbitrary: c e)
  case (Suc n)
  show ?case
  proof (cases "tracesim_record cfg c e")
    case (Inr p)
    then obtain c' e' where p: "p = (c', e')" by force
    show ?thesis using Suc Inr by (cases "cpu_exec cfg h 1 e'") (auto simp: record_join p)
  qed (simp add: record_join)
qed simp

lemma loop_split:
  "\<not> ended (state_of e) \<Longrightarrow> tracesim_loop cfg h (m + n) b e =
     bind_res (tracesim_loop cfg h m b e) (\<lambda>(b, e). if ended (state_of e) then Inr (b, e) else tracesim_loop cfg h n b e)"
proof (induction m arbitrary: b e)
  case (Suc m)
  show ?case
  proof (cases "tracesim_record cfg b e")
    case (Inr p)
    then obtain b' e' where p: "p = (b', e')" by force
    show ?thesis using Suc Inr p
      by (cases "cpu_exec cfg h 1 e'") auto
  qed simp
qed simp

lemma no_batch_ok: "batch_ok no_batch"
  by (simp add: batch_ok_def no_batch_def)

text \<open>A loop that ends inside a run is the run; one that is shorter leaves a run from where it stops.\<close>

lemma loop_whole:
  assumes run: "tracesim_loop cfg h N no_batch e = Inr (b, e')" "ended (state_of e')" "\<not> ended (state_of e)"
    and n: "length (i_stream b) \<le> n"
  shows "tracesim_loop cfg h n no_batch e = Inr (b, e')"
proof (cases "n \<le> N")
  case True
  then obtain m where N: "N = n + m" using le_Suc_ex by blast
  obtain b1 e1 where s: "tracesim_loop cfg h n no_batch e = Inr (b1, e1)"
    "(if ended (state_of e1) then Inr (b1, e1) else tracesim_loop cfg h m b1 e1) = Inr (b, e')"
    using run(1) unfolding N loop_split[OF run(3)] by (auto simp: res_simps)
  show ?thesis
  proof (cases "ended (state_of e1)")
    case False
    note o1 = tracesim_loop_ok[OF s(1) no_batch_ok run(3)]
    then have ok: "batch_ok b1" "length (i_stream b1) = n" using False by (auto simp: no_batch_def)
    have m: "tracesim_loop cfg h m b1 e1 = Inr (b, e')" using s(2) False by simp
    have "0 < m" using m False run(2) by (cases m) auto
    then show ?thesis using tracesim_loop_ok[OF m ok(1) False] ok(2) n by auto
  qed (use s in simp)
next
  case False
  then obtain m where "n = N + m" using le_Suc_ex[of N n] by auto
  then show ?thesis using loop_split[OF run(3), of cfg h N m no_batch] run(1,2) by simp
qed

lemma loop_part:
  assumes run: "tracesim_loop cfg h N no_batch e = Inr (b, e')" "ended (state_of e')" "\<not> ended (state_of e)"
    and n: "n < length (i_stream b)"
  obtains b1 e1 b2 where "tracesim_loop cfg h n no_batch e = Inr (b1, e1)" "\<not> ended (state_of e1)" "length (i_stream b1) = n"
    "tracesim_loop cfg h (N - n) no_batch e1 = Inr (b2, e')" "b = join b1 b2" "n < N"
proof -
  have "length (i_stream b) \<le> N" using tracesim_loop_ok[OF run(1) no_batch_ok run(3)] by (auto simp: no_batch_def)
  then have nN: "n < N" using n by simp
  then have N: "N = n + (N - n)" "N - n = N - n" by simp_all
  define m where "m = N - n"
  then have N: "N = n + m" "N - n = m" using nN by simp_all
  obtain b1 e1 where s: "tracesim_loop cfg h n no_batch e = Inr (b1, e1)"
    "(if ended (state_of e1) then Inr (b1, e1) else tracesim_loop cfg h m b1 e1) = Inr (b, e')"
    using run(1) unfolding N(1) loop_split[OF run(3)] by (auto simp: res_simps)
  note o1 = tracesim_loop_ok[OF s(1) no_batch_ok run(3)]
  have e1: "\<not> ended (state_of e1)"
  proof
    assume "ended (state_of e1)"
    then have "b = b1" using s(2) by simp
    then show False using o1 n by (auto simp: no_batch_def)
  qed
  then have "length (i_stream b1) = n" using o1 by (auto simp: no_batch_def)
  moreover obtain b2 where "tracesim_loop cfg h (N - n) no_batch e1 = Inr (b2, e')" "b = join b1 b2"
    using s(2) e1 loop_join[of cfg h m b1 no_batch e1] unfolding N(2)
    by (cases "tracesim_loop cfg h m no_batch e1") auto
  ultimately show thesis using that[OF s(1) e1] nN by blast
qed

section \<open>Consumers\<close>

lemma each_append: "each f (xs @ ys) s = bind_res (each f xs s) (each f ys)"
  by (induction xs arbitrary: s) (auto simp: bind_res_assoc intro: bind_res_cong)

text \<open>Three consumers, each with a state of its own.\<close>

definition three :: "(u32 \<Rightarrow> 'a \<Rightarrow> 'a res) \<Rightarrow> (bool \<times> u32 \<Rightarrow> 'b \<Rightarrow> 'b res) \<Rightarrow> (branch_entry \<Rightarrow> 'c \<Rightarrow> 'c res) \<Rightarrow> tracesim_batch \<Rightarrow>
    'a \<times> 'b \<times> 'c \<Rightarrow> ('a \<times> 'b \<times> 'c) res" where
  "three fi fd fb = consume_batch (\<lambda>x (a, b, c). bind_res (fi x a) (\<lambda>a. Inr (a, b, c)))
     (\<lambda>x (a, b, c). bind_res (fd x b) (\<lambda>b. Inr (a, b, c))) (\<lambda>x (a, b, c). bind_res (fb x c) (\<lambda>c. Inr (a, b, c)))"

lemma each_part:
  "each (\<lambda>x (a, b, c). bind_res (fi x a) (\<lambda>a. Inr (a, b, c))) xs (a, b, c) = bind_res (each fi xs a) (\<lambda>a. Inr (a, b, c))"
  "each (\<lambda>x (a, b, c). bind_res (fd x b) (\<lambda>b. Inr (a, b, c))) ys (a, b, c) = bind_res (each fd ys b) (\<lambda>b. Inr (a, b, c))"
  "each (\<lambda>x (a, b, c). bind_res (fb x c) (\<lambda>c. Inr (a, b, c))) zs (a, b, c) = bind_res (each fb zs c) (\<lambda>c. Inr (a, b, c))"
proof -
  show "each (\<lambda>x (a, b, c). bind_res (fi x a) (\<lambda>a. Inr (a, b, c))) xs (a, b, c) = bind_res (each fi xs a) (\<lambda>a. Inr (a, b, c))"
    by (induction xs arbitrary: a) (auto simp: bind_res_assoc intro!: bind_res_cong)
  show "each (\<lambda>x (a, b, c). bind_res (fd x b) (\<lambda>b. Inr (a, b, c))) ys (a, b, c) = bind_res (each fd ys b) (\<lambda>b. Inr (a, b, c))"
    by (induction ys arbitrary: b) (auto simp: bind_res_assoc intro!: bind_res_cong)
  show "each (\<lambda>x (a, b, c). bind_res (fb x c) (\<lambda>c. Inr (a, b, c))) zs (a, b, c) = bind_res (each fb zs c) (\<lambda>c. Inr (a, b, c))"
    by (induction zs arbitrary: c) (auto simp: bind_res_assoc intro!: bind_res_cong)
qed

definition fed :: "(u32 \<Rightarrow> 'a \<Rightarrow> 'a res) \<Rightarrow> (bool \<times> u32 \<Rightarrow> 'b \<Rightarrow> 'b res) \<Rightarrow> (branch_entry \<Rightarrow> 'c \<Rightarrow> 'c res) \<Rightarrow> tracesim_batch \<Rightarrow>
    'a \<times> 'b \<times> 'c \<Rightarrow> 'a \<times> 'b \<times> 'c \<Rightarrow> bool" where
  "fed fi fd fb b s s' \<longleftrightarrow> (case s of (x, y, z) \<Rightarrow> case s' of (x', y', z') \<Rightarrow>
     each fi (i_stream b) x = Inr x' \<and> each fd (d_stream b) y = Inr y' \<and> each fb (b_stream b) z = Inr z')"

lemma fed_three: "fed fi fd fb b s s' \<Longrightarrow> three fi fd fb b s = Inr s'"
  by (auto simp: fed_def three_def consume_batch_def each_part split: prod.splits)

lemma fed_join: "fed fi fd fb (join b c) s s' \<longleftrightarrow> (\<exists>t. fed fi fd fb b s t \<and> fed fi fd fb c t s')"
  by (auto simp: fed_def each_append res_simps split: prod.splits)

section \<open>Draining\<close>

definition drained :: "config \<Rightarrow> nat \<Rightarrow> tracesim_batch \<Rightarrow> 'r emu \<Rightarrow> tracesim_batch \<Rightarrow> bool" where
  "drained cfg n b e' whole \<longleftrightarrow> (if length (i_stream b) mod n \<noteq> 0 then whole = b
     else \<exists>extra e''. tracesim_record cfg no_batch e' = Inr (extra, e'') \<and> whole = join b extra)"

lemma drain_loop:
  assumes n: "1 < unat bsz"
  shows "tracesim_loop cfg h N no_batch e = Inr (b, e') \<Longrightarrow> ended (state_of e') \<Longrightarrow> \<not> ended (state_of e) \<Longrightarrow>
    drained cfg (unat bsz) b e' whole \<Longrightarrow> fed fi fd fb whole s s' \<Longrightarrow>
    \<exists>ef. drain_stream cfg h bsz (three fi fd fb) s e = Some (Inr (s', ef)) \<and> state_of ef = state_of e'"
proof (induction N arbitrary: e b whole s rule: less_induct)
  case (less N)
  note run = less.prems(1-3)
  consider (short) "length (i_stream b) < unat bsz" | (exact) "length (i_stream b) = unat bsz" | (long) "unat bsz < length (i_stream b)"
    by linarith
  then show ?case
  proof cases
    case short
    have "0 < N" using run by (cases N) auto
    then have "i_stream b \<noteq> []" using tracesim_loop_ok[OF run(1) no_batch_ok run(3)] by auto
    then have "whole = b" using less.prems(4) short by (simp add: drained_def)
    then have "fed fi fd fb b s s'" using less.prems(5) by simp
    then have "three fi fd fb b s = Inr s'" by (rule fed_three)
    moreover have "difftest_tracesim_step cfg h bsz e = Inr (b, e')"
      using loop_whole[OF run, of "unat bsz"] short by (simp add: difftest_tracesim_step_def no_batch_def)
    ultimately show ?thesis using short by (subst drain_stream.simps) simp
  next
    case exact
    obtain extra e'' where x: "tracesim_record cfg no_batch e' = Inr (extra, e'')" "whole = join b extra"
      using less.prems(4) exact by (auto simp: drained_def)
    obtain t where t: "fed fi fd fb b s t" "fed fi fd fb extra t s'" using less.prems(5) x(2) by (auto simp: fed_join)
    have step: "difftest_tracesim_step cfg h bsz e = Inr (b, e')"
      using loop_whole[OF run, of "unat bsz"] exact by (simp add: difftest_tracesim_step_def no_batch_def)
    note r = tracesim_record_ok[OF x(1) no_batch_ok]
    obtain m where m: "unat bsz = Suc m" "m \<noteq> 0" using n by (cases "unat bsz") auto
    have "\<exists>ef. cpu_exec cfg h 1 e'' = Inr ef \<and> state_of ef = state_of e'"
      using r run(2) by (auto simp: cpu_exec_def print_line_def Let_def)
    then obtain ef where ef: "difftest_tracesim_step cfg h bsz e' = Inr (extra, ef)" "state_of ef = state_of e'"
      using x(1) run(2) by (auto simp: difftest_tracesim_step_def m no_batch_def)
    have "drain_stream cfg h bsz (three fi fd fb) t e' = Some (Inr (s', ef))"
      using ef fed_three[OF t(2)] r m by (subst drain_stream.simps) (simp add: no_batch_def)
    then show ?thesis using step fed_three[OF t(1)] exact ef(2) by (subst drain_stream.simps) simp
  next
    case long
    obtain b1 e1 b2 where p: "tracesim_loop cfg h (unat bsz) no_batch e = Inr (b1, e1)" "\<not> ended (state_of e1)"
      "length (i_stream b1) = unat bsz" "tracesim_loop cfg h (N - unat bsz) no_batch e1 = Inr (b2, e')" "b = join b1 b2" "unat bsz < N"
      by (rule loop_part[OF run long])
    obtain w where w: "whole = join b1 w" "drained cfg (unat bsz) b2 e' w"
      using less.prems(4) p(3,5) by (auto simp: drained_def join_assoc split: if_splits)
    obtain t where t: "fed fi fd fb b1 s t" "fed fi fd fb w t s'" using less.prems(5) w(1) by (auto simp: fed_join)
    have "N - unat bsz < N" using p(6) n by simp
    then obtain ef where "drain_stream cfg h bsz (three fi fd fb) t e1 = Some (Inr (s', ef))" "state_of ef = state_of e'"
      using less.IH[OF _ p(4) run(2) p(2) w(2) t(2)] by blast
    moreover have "difftest_tracesim_step cfg h bsz e = Inr (b1, e1)" using p(1) by (simp add: difftest_tracesim_step_def no_batch_def)
    ultimately show ?thesis using fed_three[OF t(1)] p(3) by (subst drain_stream.simps) simp
  qed
qed

text \<open>C21: the consumers see the program.  Let a program end within one batch \<open>b\<close> of some size.  Drained in batches of any
  size above one, it ends, and each consumer is called on its whole stream of \<open>b\<close>, in order: the batching is not
  observable.  There is one exception: when the number of instructions is a multiple of the batch size, the consumers are
  also called on the instruction after the end.\<close>

theorem drain_stream_trace:
  assumes "difftest_tracesim_step cfg h big e = Inr (b, e')" "ended (state_of e')" "\<not> ended (state_of e)" "1 < unat bsz"
    and "drained cfg (unat bsz) b e' whole" "fed fi fd fb whole s s'"
  shows "\<exists>ef. drain_stream cfg h bsz (three fi fd fb) s e = Some (Inr (s', ef)) \<and> state_of ef = state_of e'"
  using drain_loop[OF assms(4) _ assms(2,3,5,6)] assms(1) unfolding difftest_tracesim_step_def no_batch_def by blast

section \<open>A run of one instruction\<close>

text \<open>The emulator stopped before the last instruction of the built-in image.\<close>

definition at_ebreak :: "unit emu" where
  "at_ebreak = (let e = boot_emu default_config (\<lambda>_. 0) dev0 () in
     set_core ((core e)\<lparr>cpu := (cpu (core e))\<lparr>cpu_pc := 0x8000000c, gpr := (\<lambda>i. if i = 5 then 0x80000000 else 0)\<rparr>,
       memory := \<lparr>pmem = write_le (pmem (memory (core e))) 16 1 0, devs = dev0\<rparr>\<rparr>) e)"

lemma at_ebreak_facts:
  "at_inst 3 (set_core ((core at_ebreak)\<lparr>nstate := NEMU_RUNNING\<rparr>) at_ebreak)" "\<not> ended (state_of at_ebreak)" "pc_of at_ebreak = 0x8000000c"
proof -
  have c: "std_cfg default_config" by (simp add: std_cfg_def default_config_def)
  have "at_inst 0 (set_core ((core (boot_emu default_config (\<lambda>_. 0) dev0 ()))\<lparr>nstate := NEMU_RUNNING\<rparr>) (boot_emu default_config (\<lambda>_. 0) dev0 ()))"
    by (rule boot_at_inst[OF c, where r="()"]) (auto simp: boot_emu_def)
  then show "at_inst 3 (set_core ((core at_ebreak)\<lparr>nstate := NEMU_RUNNING\<rparr>) at_ebreak)"
    using has_img_sb by (simp add: at_inst_def at_ebreak_def Let_def del: read_le.simps write_le.simps)
  show "\<not> ended (state_of at_ebreak)" "pc_of at_ebreak = 0x8000000c"
    by (simp_all add: at_ebreak_def boot_emu_def init_isa_def nemu_boot_def ended_def Let_def)
qed

lemma ebreak_step:
  "\<exists>b e'. difftest_tracesim_step default_config quiet_host BATCH_SIZE at_ebreak = Inr (b, e') \<and> state_of e' = NEMU_END
    \<and> b = \<lparr>i_stream = [0x8000000c], d_stream = [], b_stream = []\<rparr>"
proof -
  have c: "std_cfg default_config" "\<not> CONFIG_DIFFTEST default_config" by (simp_all add: std_cfg_def default_config_def)
  note f = at_ebreak_facts
  have "paddr_read default_config (pc_of at_ebreak) 4 (memory (core at_ebreak)) = Inr (0x100073, memory (core at_ebreak))"
    using fetch_img[OF c(1), of 12 "memory (core at_ebreak)"] f by (simp add: at_inst_def has_img_def del: read_le.simps)
  moreover have "isa_decode_ldstr default_config 0x100073 st = Inr None" "isa_decode_branch default_config pc 0x100073 st = Inr None" for pc st
    unfolding isa_decode_ldstr_def isa_decode_branch_def ldstr_select branch_select
    by (simp_all add: manual_img ldstr_entry_def load_ops_def store_ops_def branch_ops_def)
  ultimately have r: "tracesim_record default_config \<lparr>i_stream = [], d_stream = [], b_stream = []\<rparr> at_ebreak =
      Inr (\<lparr>i_stream = [0x8000000c], d_stream = [], b_stream = []\<rparr>, at_ebreak)"
    using f(3) by (simp add: tracesim_record_def vaddr_ifetch_def Let_def push_branch_def push_ldstr_def)
  obtain t ea where a: "emu_get_time quiet_host (start_exec 1 at_ebreak) = (t, ea)" by force
  have "at_inst 3 ea" using f(1) get_time_frame[OF a] by (simp add: at_inst_def start_exec_def)
  then obtain eb where b: "exec_traced default_config quiet_host ea = Inr eb" "state_of eb = NEMU_END"
    using at_inst_end[OF c quiet_host_ok(1)] by blast
  obtain t' ec where g: "emu_get_time quiet_host eb = (t', ec)" by force
  have "cpu_exec default_config quiet_host 1 at_ebreak = Inr (finish_exec default_config (ec\<lparr>g_timer := g_timer ec + (t' - t)\<rparr>))"
    using a b g f(2) unfolding cpu_exec_def start_exec_def by (simp add: Let_def)
  moreover have "state_of (finish_exec default_config (ec\<lparr>g_timer := g_timer ec + (t' - t)\<rparr>)) = NEMU_END"
    using b(2) get_time_frame[OF g] by (simp add: finish_exec_def)
  ultimately obtain ef where ef: "cpu_exec default_config quiet_host 1 at_ebreak = Inr ef" "state_of ef = NEMU_END" by blast
  have n: "unat BATCH_SIZE = Suc 8191" by (simp add: BATCH_SIZE_def)
  show ?thesis unfolding difftest_tracesim_step_def n tracesim_loop.simps(2) using r ef by (simp add: ended_def)
qed

theorem drain_stream_trace_witness:
  "\<exists>ef. drain_stream default_config quiet_host BATCH_SIZE (three (\<lambda>pc xs. Inr (xs @ [pc])) (\<lambda>_. Inr) (\<lambda>_. Inr)) ([], (), ()) at_ebreak
     = Some (Inr (([0x8000000c], (), ()), ef)) \<and> state_of ef = NEMU_END"
proof -
  obtain b e' where s: "difftest_tracesim_step default_config quiet_host BATCH_SIZE at_ebreak = Inr (b, e')" "state_of e' = NEMU_END"
    "b = \<lparr>i_stream = [0x8000000c], d_stream = [], b_stream = []\<rparr>" using ebreak_step by blast
  have n: "unat BATCH_SIZE = 8192" by (simp add: BATCH_SIZE_def)
  have d: "drained default_config (unat BATCH_SIZE) b e' b" by (simp add: drained_def s(3) n)
  have f: "fed (\<lambda>pc xs. Inr (xs @ [pc])) (\<lambda>_. Inr) (\<lambda>_. Inr) b ([], (), ()) ([0x8000000c], (), ())" by (simp add: fed_def s(3))
  show ?thesis using drain_stream_trace[OF s(1) _ at_ebreak_facts(2) _ d f] s(2) n by (simp add: ended_def)
qed

end
