(* ===== verification/Spec2Isabelle.thy ===== *)
theory Spec2Isabelle
  imports Macro Pattern Int64_Proofs Klib_String Klib_Stdlib Klib_Stdio Riscv_Proofs Sdb_Expr_Proofs Sdb_Points Elf
    Difftest_Self Am_Ioe_Proofs Am_Soc_Proofs Am_Cte_Proofs Minirv_Proofs Branchsim_Proofs Tracesim_Proofs
begin

text \<open>
  The repository holds an emulator of RISC-V machines with a debugger (\<open>nemu/\<close>), the bare-metal layer that programs
  for it are linked with (\<open>abstract-machine/\<close>), and hardware simulators (\<open>npc/\<close>) that use the emulator as their
  reference or as a source of traces.  This development models the emulator, the bare-metal layer on RISC-V with its C
  library \<open>klib\<close>, and the trace-driven simulators of caches and branch predictors.

  How the emulator works.  \<open>main\<close> lets the monitor parse the command line, register the devices, load a guest image
  and set up the debugger, and then runs the debugger's commands.  A command executes instructions: each is fetched
  from guest memory, decoded by matching bit patterns, and executed on the registers, on memory and, through a table
  of address ranges, on devices.  After each instruction the tracers log it, differential testing compares the
  registers with those of a reference, and watchpoints and breakpoints may stop the run.

  Theories, in the order of their imports, with the code they model:

  Shared lemmas: Prelude (lists, words, the result type \<open>res\<close> whose left values are failed assertions, panics and
  undefined behaviour).

  klib (\<open>abstract-machine/klib/src\<close>): Int64 and Int64\_Proofs (\<open>int64.c\<close>: 64-bit arithmetic from 32-bit halves, and
  that it is the arithmetic of words), Klib\_String (\<open>string.c\<close> on an explicit byte memory), Klib\_Stdlib (\<open>stdlib.c\<close>),
  Klib\_Stdio (\<open>stdio.c\<close>: the formatter and a simulation of its buffer by output into a list).

  Decoding: Macro (\<open>include/macro.h\<close>: bit fields and sign extension), Pattern (\<open>include/cpu/decode.h\<close>: the loops that
  turn a pattern string into key, mask and shift, which match a word exactly when its bits are those of the pattern).

  Memory and devices: Host (\<open>include/memory/host.h\<close>), IO\_Map (\<open>device/io/\<close>: address ranges, callbacks; and the
  configuration, a record of the Kconfig options), Devices (\<open>device/*.c\<close>), Ring and Device\_Proofs (the key queue
  refines a FIFO, which is an interpretation of the locale of Ring; the audio ring; the SD card, driven through its
  registers on the bus; disjointness of the
  registered ranges), Memory (\<open>memory/paddr.c\<close>, \<open>vaddr.c\<close>).

  The processor: Riscv (\<open>isa/riscv32/\<close>: registers, CSRs, the instruction table, its semantics, the tracers' own
  decoders, reset), Riscv\_Decode (the table is the opcode map of the RISC-V manual), Riscv\_Proofs (immediates,
  division, multiplication, traps, and that the tracers' decoders agree with execution).

  The debugger (\<open>monitor/sdb/\<close>): Libc (\<open>strtol\<close>, \<open>strtok\<close>), Sdb\_Expr and Sdb\_Expr\_Proofs (\<open>expr.c\<close>: the evaluator
  computes the values of C expressions, which are defined on integers with C's own table of precedence and share nothing
  with the evaluator), Pool and Sdb\_Points (\<open>watchpoint.c\<close> and
  \<open>breakpoint.c\<close> over one pool of linked nodes), Sdb (\<open>sdb.c\<close>: the commands).

  Execution: Elf (\<open>utils/elf.c\<close>, against the layout of ELF files given independently of the reader), Cpu (\<open>cpu/cpu-exec.c\<close>, \<open>cpu/difftest/\<close>, \<open>utils/\<close>), Frame (what a step leaves
  unchanged), Boot (the built-in image runs to its good trap), Cpu\_Proofs (the loop, the ring of recent instructions,
  the batches of the trace simulation), Difftest (the locale \<open>reference\<close>, a machine driven through the functions of
  \<open>include/difftest-def.h\<close>, interpreted on the emulator's own \<open>ref.c\<close>;
  the reference runs in lock-step), Difftest\_Self (testing against oneself is
  silent), Monitor and Monitor\_Proofs (\<open>monitor.c\<close>, \<open>nemu-main.c\<close>: exit statuses).

  Trace simulation (\<open>npc/tracesim/\<close>): Cachesim and Cachesim\_Proofs (set-associative caches; LRU hits exactly the most
  recent distinct blocks, which is the specification the locale \<open>replacement\<close> is interpreted against), Branchsim and
  Branchsim\_Proofs (a branch target buffer, counted against its history), Tracesim and Tracesim\_Proofs (draining the
  emulator's trace in batches gives every consumer the whole trace).

  The bare-metal layer on RISC-V (\<open>abstract-machine/am/src\<close>): Am\_Ioe and Am\_Ioe\_Proofs (\<open>platform/nemu/ioe\<close>: the drivers
  run as guest code against the modelled devices, so that a property spans driver, bus and device: key events arrive in
  order, the clock is not torn, a rectangle appears on the screen, samples queue up in the audio ring), Am\_Soc and
  Am\_Soc\_Proofs (\<open>riscv/npc\<close> and \<open>riscv/ysyxsoc\<close>: the drivers of the hardware platforms over a bus that stands for the
  hardware; the PS/2 decoder; the key codes of the emulator against those of the layer), Am\_Cte and Am\_Cte\_Proofs
  (\<open>cte.c\<close> with \<open>trap.S\<close>: the trap code is a list of instructions run by the emulator's \<open>exec_body\<close>; \<open>yield\<close> resumes the
  context the handler chooses).

  minirv (\<open>abstract-machine/tools/minirv\<close>): Minirv (every macro of \<open>inst-replace.h\<close> as a function from its operands to the
  lines it expands to, and the tables \<open>gen-lut.c\<close> writes), Minirv\_Macros (weakest preconditions of the lines and the
  macros on the emulator's processor), Minirv\_Proofs (a block of RV32I and its replacement end in the same state up to
  the registers and bytes the macros own; branches; only the eight base instructions are left; what \<open>seqz\<close> does to \<open>s0\<close>).

  State.  A C file's static variables are the fields of a record: \<open>mem\<close> (guest memory and \<open>dev\<close>, the devices), \<open>CPU\<close>
  inside \<open>nemu\<close>, \<open>emu\<close> for the execution loop and \<open>sdb\<close> for the debugger.  An operation takes the state and returns it
  inside \<open>res\<close>; machine integers are words, arrays are functions of an index below their length, checked at each
  access of the code that can leave it.  Pointers into arrays are indices.

  Fuel.  There is none that can run out: \<open>cpu_exec\<close> recurses on the number of instructions, \<open>iringbuf_display\<close> on the
  16 slots of the ring, and the lists of watchpoints are followed for at most their pool's length, which the invariant
  \<open>wp_inv\<close> shows to be enough.  Loops that wait for a device are not bounded: \<open>audio_wait\<close> takes the list of what the
  audio thread asks for and is \<open>None\<close> when the list runs out (\<open>wait_room_ends\<close> says when it does not), and the polling
  loops of the hardware drivers are partial functions whose value is \<open>None\<close> when they do not end.

  Parameters.  The record \<open>bus\<close> of Am\_Soc is the hardware's load and store; \<open>rg\<close> of Am\_Cte are the registers as the
  compiled C code leaves them.  \<open>host\<close> holds what an execution asks of the host: the clock, window events, the disassembler, and the
  exported functions of the reference.  Nothing is assumed of the disassembler except in the runs of the built-in image
  with the instruction tracer, where it knows the four RV32I instructions of that image.  \<open>world\<close> holds the host's files and the outcome of loading libraries; the
  command line is what \<open>getopt_long\<close> returns and the typed lines are a list.

  Not modelled.  The host's libraries (SDL, readline, capstone, dlopen); the alarm signal; start-up messages; the build
  for \<open>CONFIG_TARGET_AM\<close>; the emulator's other instruction sets; the adapters to QEMU, Spike and KVM; start-up code in
  assembly; the bare-metal layer on x86, MIPS, LoongArch and Linux.  The Kconfig and fixdep programs are vendored build
  tools.  The processor itself is written in Chisel, outside this development.

  Next, in this order: the debugger of the hardware simulator (\<open>npc/sim\<close>);
  paging (\<open>am/src/x86/qemu/vme.c\<close>); the remote protocol of \<open>qemu-diff\<close>; the expression generator; other ISAs.
\<close>

end
